(* ===== verification/Prelude.thy ===== *)
theory Prelude
  imports Main "HOL-Library.Word" "HOL-Library.Monad_Syntax"
begin

text \<open>
  What the components of the development share: the names of the machine integers of
  \<^verbatim>\<open>opensand-core/src/common/OpenSandCore.h\<close>, the reading of C++ faults as the value
  \<^verbatim>\<open>None\<close>, the conversions between integers that the sources use implicitly, and the
  generic lemmas on lists and words that the component proofs use.

  A C++ operation that has no defined result (a null pointer is dereferenced, an integer is
  divided by zero, an array is read out of range) is \<^verbatim>\<open>None\<close>; an operation that reports
  failure returns the source's own boolean.
\<close>

section \<open>Machine integers of the program\<close>

type_synonym u8 = "8 word"
type_synonym u16 = "16 word"
type_synonym u32 = "32 word"

type_synonym tal_id = u16
type_synonym group_id = u16
type_synonym spot_id = u8
type_synonym qos = u8
type_synonym fmt_id = u8
type_synonym rate_kbps = u16
type_synonym rate_pktpf = u16
type_synonym time_sf = u16
type_synonym time_frame = u8
type_synonym time_ms = u32
type_synonym vol_pkt = u16
type_synonym vol_kb = u16
type_synonym vol_b = u32
type_synonym vol_bytes = u32
type_synonym vol_sym = u32
type_synonym bytes = "u8 list"

section \<open>Collections of lemmas\<close>

named_theorems word_to_nat \<open>facts that move a statement on words to natural numbers\<close>

declare unat_word_ariths [word_to_nat]
declare word_le_nat_alt [word_to_nat]
declare word_less_nat_alt [word_to_nat]
declare word_unat_eq_iff [word_to_nat]

section \<open>C++ arithmetic\<close>

text \<open>Integer division rounds towards zero, and faults on a null divisor.\<close>

definition cdiv :: "int \<Rightarrow> int \<Rightarrow> int option" where
  "cdiv a b = (if b = 0 then None else Some (sgn a * sgn b * (\<bar>a\<bar> div \<bar>b\<bar>)))"

definition udiv :: "'a::len word \<Rightarrow> 'a word \<Rightarrow> 'a word option" where
  "udiv a b = (if b = 0 then None else Some (a div b))"

lemma cdiv_nonneg: "0 \<le> a \<Longrightarrow> 0 < b \<Longrightarrow> cdiv a b = Some (a div b)"
  by (cases "a = 0") (auto simp: cdiv_def)

lemma udiv_Some [simp]: "b \<noteq> 0 \<Longrightarrow> udiv a b = Some (a div b)"
  by (simp add: udiv_def)

lemma udiv_None [simp]: "udiv a 0 = None"
  by (simp add: udiv_def)

section \<open>Words\<close>

lemma unat_le_mask16: "unat (w :: u16) \<le> 65535"
  using unsigned_less [of w, where ?'a = nat] by simp

lemma unat_le_mask8: "unat (w :: u8) \<le> 255"
  using unsigned_less [of w, where ?'a = nat] by simp

text \<open>The integral promotions keep the value.\<close>

lemma unat_ucast_up:
  assumes "LENGTH('a::len) \<le> LENGTH('b::len)"
  shows "unat (ucast (w :: 'a word) :: 'b word) = unat w"
proof -
  have "unat w < 2 ^ LENGTH('a)" by (rule unsigned_less)
  also have "\<dots> \<le> 2 ^ LENGTH('b)" using assms by (simp add: power_increasing)
  finally show ?thesis by (simp add: unsigned_ucast_eq take_bit_nat_eq_self)
qed

lemma unat_ucast_promotions [simp]:
  "unat (ucast (w8 :: u8) :: u16) = unat w8"
  "unat (ucast (w8 :: u8) :: u32) = unat w8"
  "unat (ucast (w16 :: u16) :: u32) = unat w16"
  by (simp_all add: unat_ucast_up)

lemma unat_ucast_down:
  "unat w < 2 ^ LENGTH('b) \<Longrightarrow> unat (ucast (w :: 'a::len word) :: 'b::len word) = unat w"
  by (simp add: unsigned_ucast_eq take_bit_nat_eq_self)

lemma unat_add_small:
  "unat (a :: 'a::len word) + unat b < 2 ^ LENGTH('a) \<Longrightarrow> unat (a + b) = unat a + unat b"
  by (simp add: unat_word_ariths)

lemma unat_min: "unat (min a (b :: 'a::len word)) = min (unat a) (unat b)"
  by (simp add: min_def word_le_nat_alt)

lemma word_min_le2: "min a (b :: 'a::len word) \<le> b"
  by simp

section \<open>Lists\<close>

lemma sum_list_update_word:
  "k < length xs \<Longrightarrow> sum_list (xs[k := x]) = sum_list xs - xs ! k + (x :: 'a::ab_group_add)"
proof (induction xs arbitrary: k)
  case Nil
  then show ?case by simp
next
  case (Cons y ys)
  then show ?case by (cases k) (simp_all add: algebra_simps)
qed

lemma fold_min_le: "foldl min a xs \<le> (a :: 'a::linorder)"
proof (induction xs arbitrary: a)
  case Nil
  then show ?case by simp
next
  case (Cons x xs)
  from Cons [of "min a x"] show ?case by simp
qed

section \<open>Reading numbers from text\<close>

definition is_digit :: "char \<Rightarrow> bool" where
  "is_digit c \<longleftrightarrow> 48 \<le> (of_char c :: nat) \<and> (of_char c :: nat) \<le> 57"

fun scan_digits :: "string \<Rightarrow> nat \<Rightarrow> nat" where
  "scan_digits [] n = n"
| "scan_digits (c # cs) n =
     (if is_digit c then scan_digits cs (10 * n + (of_char c - 48)) else n)"

fun skip_blanks :: "string \<Rightarrow> string" where
  "skip_blanks (c # cs) = (if c \<in> {CHR '' '', CHR 0x09, CHR 0x0A, CHR 0x0B, CHR 0x0C, CHR 0x0D}
     then skip_blanks cs else c # cs)"
| "skip_blanks [] = []"

end
