(* ===== verification/Circular_Buffer.thy ===== *)
theory Circular_Buffer
  imports Prelude "HOL-Library.Multiset"
begin

text \<open>
  The circular buffer of the DAMA agent (\<^verbatim>\<open>opensand-core/src/dvb/dama/CircularBuffer.cpp\<close>),
  which remembers the RBDC requests of the last minimum scheduling latency.  Its abstraction is
  a window of fixed length, newest value first, and each operation is related to it.
\<close>

section \<open>State and operations\<close>

text \<open>\<open>values\<close> is the array of \<^verbatim>\<open>calloc\<close>, \<^verbatim>\<open>None\<close> when the allocation failed.\<close>

record circular_buffer =
  save_only_last_value :: bool
  buf_size :: nat
  buf_index :: nat
  nbr_values :: nat
  buf_sum :: rate_kbps
  min_value :: rate_kbps
  buf_values :: "rate_kbps list option"

definition new_buffer :: "bool \<Rightarrow> nat \<Rightarrow> circular_buffer" where
  "new_buffer calloc_ok buffer_size =
     (let n = (if buffer_size = 0 then 1 else buffer_size)
      in \<lparr>save_only_last_value = (buffer_size = 0), buf_size = n, buf_index = n - 1,
          nbr_values = 0, buf_sum = 0, min_value = 0,
          buf_values = (if calloc_ok then Some (replicate n 0) else None)\<rparr>)"

text \<open>The search for a new minimum: the local variable \<^verbatim>\<open>min\<close> starts at 0.\<close>

definition scan_min :: "rate_kbps list \<Rightarrow> nat \<Rightarrow> rate_kbps \<Rightarrow> nat \<Rightarrow> rate_kbps" where
  "scan_min vs k v n = foldl min 0 (map (\<lambda>i. if i = k then v else vs ! i) [0..<n])"

definition update_buffer :: "circular_buffer \<Rightarrow> rate_kbps \<Rightarrow> circular_buffer" where
  "update_buffer cb v =
     (case buf_values cb of
        None \<Rightarrow> cb
      | Some vs \<Rightarrow>
          (let n = min (nbr_values cb + 1) (buf_size cb);
               k = (buf_index cb + 1) mod buf_size cb;
               m = (if v \<le> min_value cb then v
                    else if vs ! k = min_value cb then scan_min vs k v n
                    else min_value cb)
           in cb\<lparr>nbr_values := n, buf_index := k, buf_sum := buf_sum cb - vs ! k + v,
                 min_value := m, buf_values := Some (vs[k := v])\<rparr>))"

definition get_last_value :: "circular_buffer \<Rightarrow> rate_kbps" where
  "get_last_value cb =
     (case buf_values cb of None \<Rightarrow> 0 | Some vs \<Rightarrow> vs ! ((buf_index cb + 1) mod buf_size cb))"

definition get_previous_value :: "circular_buffer \<Rightarrow> rate_kbps" where
  "get_previous_value cb = (case buf_values cb of None \<Rightarrow> 0 | Some vs \<Rightarrow> vs ! buf_index cb)"

text \<open>\<^verbatim>\<open>sum / nbr_values\<close>: a division by zero before the first update.\<close>

definition get_mean :: "circular_buffer \<Rightarrow> rate_kbps option" where
  "get_mean cb =
     (if nbr_values cb = 0 then None else Some (of_nat (unat (buf_sum cb) div nbr_values cb)))"

definition get_min :: "circular_buffer \<Rightarrow> rate_kbps" where
  "get_min cb = min_value cb"

definition get_sum :: "circular_buffer \<Rightarrow> rate_kbps" where
  "get_sum cb = (if save_only_last_value cb then 0 else buf_sum cb)"

text \<open>
  \<^verbatim>\<open>i = (i + index) % size\<close>: the \<^verbatim>\<open>int\<close> argument is converted to the 64-bit
  unsigned type of \<^verbatim>\<open>index\<close> before the remainder is taken, and the result is stored back
  into the 32-bit \<^verbatim>\<open>int\<close>.
\<close>

definition value_slot :: "circular_buffer \<Rightarrow> int \<Rightarrow> int" where
  "value_slot cb i =
     sint (word_of_int (((i + int (buf_index cb)) mod 2 ^ 64) mod int (buf_size cb)) :: u32)"

definition get_value_index :: "circular_buffer \<Rightarrow> int \<Rightarrow> rate_kbps option" where
  "get_value_index cb i =
     (case buf_values cb of
        None \<Rightarrow> Some 0
      | Some vs \<Rightarrow>
          (let k = value_slot cb i
           in if 0 \<le> k \<and> k < int (length vs) then Some (vs ! nat k) else None))"

fun partial_sum_loop :: "circular_buffer \<Rightarrow> int list \<Rightarrow> rate_kbps \<Rightarrow> rate_kbps option" where
  "partial_sum_loop cb [] s = Some s"
| "partial_sum_loop cb (i # is) s =
     do { v \<leftarrow> get_value_index cb (- i); partial_sum_loop cb is (s + v) }"

definition get_partial_sum_from_previous :: "circular_buffer \<Rightarrow> int \<Rightarrow> rate_kbps option" where
  "get_partial_sum_from_previous cb value_number =
     (case buf_values cb of
        None \<Rightarrow> Some 0
      | Some _ \<Rightarrow> partial_sum_loop cb [0..value_number - 1] 0)"

section \<open>The interface: a window that slides over the inserted values\<close>

locale sliding_window =
  fixes upd :: "'s \<Rightarrow> 'v \<Rightarrow> 's"
    and win :: "'s \<Rightarrow> 'v list"
    and inv :: "'s \<Rightarrow> bool"
  assumes win_upd: "inv s \<Longrightarrow> win (upd s v) = v # butlast (win s)"
    and inv_upd: "inv s \<Longrightarrow> inv (upd s v)"
    and win_nonempty: "inv s \<Longrightarrow> win s \<noteq> []"
begin

lemma inv_upds: "inv s \<Longrightarrow> inv (foldl upd s vs)"
  by (induction vs arbitrary: s) (simp_all add: inv_upd)

lemma length_win_upd: "inv s \<Longrightarrow> length (win (upd s v)) = length (win s)"
  using win_nonempty [of s] by (simp add: win_upd)

lemma win_upds:
  "inv s \<Longrightarrow> win (foldl upd s vs) = take (length (win s)) (rev vs @ win s)"
proof (induction vs arbitrary: s)
  case Nil
  then show ?case by simp
next
  case (Cons v vs)
  let ?n = "length (win s)"
  have n: "0 < ?n" using win_nonempty [OF Cons.prems] by simp
  have "win (foldl upd s (v # vs)) = take ?n (rev vs @ v # butlast (win s))"
    using Cons.IH [OF inv_upd [OF Cons.prems]] n by (simp add: win_upd Cons.prems)
  also have "\<dots> = take ?n (rev (v # vs) @ win s)"
    using n by (cases "win s" rule: rev_cases) (auto simp: take_Cons')
  finally show ?case .
qed

end

section \<open>The circular buffer is such a window\<close>

definition wf_buffer :: "circular_buffer \<Rightarrow> bool" where
  "wf_buffer cb \<longleftrightarrow>
     (\<exists>vs. buf_values cb = Some vs \<and> length vs = buf_size cb \<and> buf_sum cb = sum_list vs) \<and>
     buf_index cb < buf_size cb \<and> nbr_values cb \<le> buf_size cb"

definition window :: "circular_buffer \<Rightarrow> rate_kbps list" where
  "window cb = rev (rotate (Suc (buf_index cb)) (case buf_values cb of None \<Rightarrow> [] | Some vs \<Rightarrow> vs))"

lemma wf_bufferE:
  assumes "wf_buffer cb"
  obtains vs where "buf_values cb = Some vs" "length vs = buf_size cb"
    "buf_sum cb = sum_list vs" "buf_index cb < buf_size cb" "nbr_values cb \<le> buf_size cb"
    "0 < buf_size cb"
  using assms by (auto simp: wf_buffer_def)

lemma wf_new_buffer: "wf_buffer (new_buffer True n)"
  by (auto simp: wf_buffer_def new_buffer_def Let_def sum_list_replicate)

lemma rotate_at: "k < length vs \<Longrightarrow> rotate k vs = vs ! k # drop (Suc k) vs @ take k vs"
  by (simp add: rotate_drop_take Cons_nth_drop_Suc)

lemma wf_update_buffer: "wf_buffer cb \<Longrightarrow> wf_buffer (update_buffer cb v)"
  by (elim wf_bufferE)
    (auto simp: wf_buffer_def update_buffer_def Let_def sum_list_update_word)

lemma window_update_buffer:
  assumes "wf_buffer cb"
  shows "window (update_buffer cb v) = v # butlast (window cb)"
proof -
  from assms obtain vs where vs: "buf_values cb = Some vs" "length vs = buf_size cb"
    "0 < buf_size cb" by (elim wf_bufferE)
  let ?k = "Suc (buf_index cb) mod buf_size cb"
  have k: "?k < length vs" using vs by simp
  have "rotate (Suc (buf_index cb)) vs = rotate ?k vs"
    using vs(2) rotate_conv_mod [of "Suc (buf_index cb)" vs] by simp
  with k have old: "window cb = rev (drop (Suc ?k) vs @ take ?k vs) @ [vs ! ?k]"
    by (simp add: window_def vs rotate_at)
  have "rotate (Suc ?k) (vs[?k := v]) = rotate1 (rotate ?k (vs[?k := v]))"
    by simp
  also have "\<dots> = drop (Suc ?k) vs @ take ?k vs @ [v]"
    using k by (simp only: rotate_at length_list_update) simp
  finally have new: "rotate (Suc ?k) (vs[?k := v]) = drop (Suc ?k) vs @ take ?k vs @ [v]" .
  have "window (update_buffer cb v) = rev (rotate (Suc ?k) (vs[?k := v]))"
    by (simp add: window_def update_buffer_def vs Let_def del: rotate_Suc)
  then show ?thesis unfolding new old by (simp add: butlast_append)
qed

lemma length_window: "wf_buffer cb \<Longrightarrow> length (window cb) = buf_size cb"
  by (elim wf_bufferE) (simp add: window_def)

interpretation cbw: sliding_window update_buffer window wf_buffer
proof unfold_locales
  fix s v assume wf: "wf_buffer s"
  show "window (update_buffer s v) = v # butlast (window s)" by (rule window_update_buffer [OF wf])
  show "wf_buffer (update_buffer s v)" by (rule wf_update_buffer [OF wf])
  show "window s \<noteq> []" using length_window [OF wf] wf by (auto elim: wf_bufferE)
qed

section \<open>Reading the buffer\<close>

lemma mset_rotate: "mset (rotate n xs) = mset xs"
proof -
  have "mset (rotate n xs) = mset (take (n mod length xs) xs @ drop (n mod length xs) xs)"
    by (simp only: rotate_drop_take mset_append add.commute)
  then show ?thesis by simp
qed

lemma sum_list_window: "wf_buffer cb \<Longrightarrow> sum_list (window cb) = buf_sum cb"
proof (elim wf_bufferE)
  fix vs assume "buf_values cb = Some vs" "buf_sum cb = sum_list vs"
  moreover have "sum_mset (mset (rotate (Suc (buf_index cb)) vs)) = sum_mset (mset vs)"
    by (simp only: mset_rotate)
  ultimately show ?thesis
    by (simp only: window_def option.case sum_mset_sum_list [symmetric] mset_rev)
qed

lemma nth_window:
  assumes "wf_buffer cb" "k < buf_size cb" "buf_values cb = Some vs"
  shows "window cb ! k = vs ! ((buf_index cb + buf_size cb - k) mod buf_size cb)"
proof -
  from assms have n: "length vs = buf_size cb" by (auto elim: wf_bufferE)
  have "Suc (buf_index cb) + (buf_size cb - Suc k) = buf_index cb + buf_size cb - k"
    using assms(2) by simp
  then show ?thesis
    using assms(2) n by (simp only: window_def assms(3) option.case) (simp add: rev_nth nth_rotate del: rotate_Suc)
qed

lemma get_previous_value_window: "wf_buffer cb \<Longrightarrow> get_previous_value cb = hd (window cb)"
proof -
  assume wf: "wf_buffer cb"
  then obtain vs where vs: "buf_values cb = Some vs" "0 < buf_size cb" "buf_index cb < buf_size cb"
    by (elim wf_bufferE)
  from wf vs(2) have "window cb \<noteq> []" using length_window by force
  then show ?thesis
    using nth_window [OF wf vs(2,1)] vs(3)
    by (simp add: hd_conv_nth get_previous_value_def vs(1))
qed

lemma get_last_value_window: "wf_buffer cb \<Longrightarrow> get_last_value cb = last (window cb)"
proof -
  assume wf: "wf_buffer cb"
  then obtain vs where vs: "buf_values cb = Some vs" "0 < buf_size cb" by (elim wf_bufferE)
  from vs(2) have "buf_size cb - 1 < buf_size cb" by simp
  from nth_window [OF wf this vs(1)] show ?thesis
    using length_window [OF wf] vs(2)
    by (subst last_conv_nth) (auto simp: get_last_value_def vs(1))
qed


lemma last_take: "0 < n \<Longrightarrow> n \<le> length xs \<Longrightarrow> last (take n xs) = xs ! (n - 1)"
  by (subst last_conv_nth) (auto simp: min_def)

lemma window_new_buffer: "0 < n \<Longrightarrow> window (new_buffer True n) = replicate n 0"
  by (simp add: window_def new_buffer_def Let_def rotate_drop_take replicate_add [symmetric]
      del: rotate_Suc)

lemma update_buffer_flags [simp]:
  "save_only_last_value (update_buffer cb v) = save_only_last_value cb"
  "buf_size (update_buffer cb v) = buf_size cb"
  by (simp_all add: update_buffer_def Let_def split: option.split)

lemma updates_flags [simp]:
  "save_only_last_value (foldl update_buffer cb vs) = save_only_last_value cb"
  "buf_size (foldl update_buffer cb vs) = buf_size cb"
  by (induction vs arbitrary: cb) simp_all

lemma window_updates_new:
  "0 < n \<Longrightarrow>
   window (foldl update_buffer (new_buffer True n) vs) = take n (rev vs @ replicate n 0)"
  using cbw.win_upds [OF wf_new_buffer, of n vs] by (simp add: window_new_buffer)

text \<open>The buffer remembers the last \<open>n\<close> inserted values.  After any sequence of updates of a
  fresh buffer of \<open>n\<close> places, the sum is that of the last \<open>n\<close> values (modulo 2^16, the width of
  \<^verbatim>\<open>rate_kbps_t\<close>), the previous value is the newest one and the last value is the one
  inserted \<open>n - 1\<close> updates before it, 0 where there was none.\<close>

theorem buffer_observes_last_values:
  fixes vs :: "rate_kbps list" and n :: nat
  assumes "0 < n"
  defines "cb \<equiv> foldl update_buffer (new_buffer True n) vs"
  shows "get_sum cb = sum_list (take n (rev vs)) \<and>
         get_previous_value cb = (if vs = [] then 0 else last vs) \<and>
         get_last_value cb = (if length vs < n then 0 else vs ! (length vs - n))"
proof (intro conjI)
  have wf: "wf_buffer cb" unfolding cb_def by (rule cbw.inv_upds [OF wf_new_buffer])
  have win: "window cb = take n (rev vs @ replicate n 0)"
    unfolding cb_def by (rule window_updates_new [OF assms(1)])
  have flag: "\<not> save_only_last_value cb"
    using assms(1) by (simp add: cb_def new_buffer_def Let_def)
  show "get_sum cb = sum_list (take n (rev vs))"
    using sum_list_window [OF wf] flag by (simp add: get_sum_def win sum_list_replicate)
  show "get_previous_value cb = (if vs = [] then 0 else last vs)"
    using get_previous_value_window [OF wf] assms(1)
    by (cases vs rule: rev_cases) (auto simp: win hd_append take_Cons' hd_replicate)
  have "last (take n (rev vs @ replicate n 0)) = (rev vs @ replicate n 0) ! (n - 1)"
    by (rule last_take) (use assms(1) in simp_all)
  then show "get_last_value cb = (if length vs < n then 0 else vs ! (length vs - n))"
    using get_last_value_window [OF wf] assms(1) by (auto simp: win nth_append rev_nth)
qed

theorem buffer_observes_last_values_witness:
  "get_sum (foldl update_buffer (new_buffer True 2) [5, 6, 7]) = 13"
  using buffer_observes_last_values [of 2 "[5, 6, 7]"] by simp

section \<open>The minimum\<close>

lemma scan_min_0: "scan_min vs k v n = 0"
  using fold_min_le [of 0 "map (\<lambda>i. if i = k then v else vs ! i) [0..<n]"]
  by (simp add: scan_min_def)

lemma min_value_update: "min_value cb = 0 \<Longrightarrow> min_value (update_buffer cb v) = 0"
  by (simp add: update_buffer_def Let_def scan_min_0 split: option.split)

text \<open>The minimum is never tracked: the search for a new minimum starts at 0 and the stored
  minimum starts at 0, so \<^verbatim>\<open>GetMin\<close> answers 0 after every sequence of updates, whatever the
  values in the buffer are.\<close>

theorem get_min_always_0: "get_min (foldl update_buffer (new_buffer ok n) vs) = 0"
proof -
  have "min_value cb = 0 \<Longrightarrow> min_value (foldl update_buffer cb vs) = 0" for cb
    by (induction vs arbitrary: cb) (simp_all add: min_value_update)
  then show ?thesis by (simp add: get_min_def new_buffer_def Let_def)
qed

section \<open>Partial sums\<close>

lemma value_slot_small:
  assumes "buf_size cb < 2 ^ 31" "0 < buf_size cb"
  shows "value_slot cb i = ((i + int (buf_index cb)) mod 2 ^ 64) mod int (buf_size cb)"
proof -
  let ?m = "((i + int (buf_index cb)) mod 2 ^ 64) mod int (buf_size cb)"
  have "0 \<le> ?m" "?m < 2 ^ 31"
    using assms by (simp_all add: order_less_le_trans [OF pos_mod_bound])
  then show ?thesis
    by (simp add: value_slot_def signed_of_int signed_take_bit_int_eq_self)
qed

lemma value_slot_dvd:
  assumes "buf_size cb < 2 ^ 31" "0 < buf_size cb" "buf_size cb dvd 2 ^ 64" "k < buf_size cb"
  shows "value_slot cb (- int k) = int ((buf_index cb + buf_size cb - k) mod buf_size cb)"
proof -
  have "int (buf_size cb) dvd int (2 ^ 64)" using assms(3) by (rule int_dvd_int_iff [THEN iffD2])
  then have "value_slot cb (- int k) = (- int k + int (buf_index cb)) mod int (buf_size cb)"
    using value_slot_small [OF assms(1,2)] by (simp add: mod_mod_cancel)
  also have "\<dots> = (int (buf_index cb + buf_size cb - k)) mod int (buf_size cb)"
  proof -
    have "int (buf_index cb + buf_size cb - k) = (- int k + int (buf_index cb)) + int (buf_size cb)"
      using assms(4) by (simp add: of_nat_diff)
    then show ?thesis by (simp only: mod_add_self2)
  qed
  finally show ?thesis by (simp add: zmod_int)
qed

lemma get_value_index_window:
  assumes "wf_buffer cb" "buf_size cb < 2 ^ 31" "buf_size cb dvd 2 ^ 64" "k < buf_size cb"
  shows "get_value_index cb (- int k) = Some (window cb ! k)"
proof -
  from assms(1) obtain vs where vs: "buf_values cb = Some vs" "length vs = buf_size cb"
    "0 < buf_size cb" by (elim wf_bufferE)
  then show ?thesis
    using nth_window [OF assms(1,4) vs(1)] value_slot_dvd [OF assms(2) vs(3) assms(3,4)]
    by (simp add: get_value_index_def Let_def)
qed

lemma partial_sum_loop_window:
  assumes "wf_buffer cb" "buf_size cb < 2 ^ 31" "buf_size cb dvd 2 ^ 64" "m \<le> buf_size cb"
  shows "partial_sum_loop cb (map int [j..<m]) s = Some (s + sum_list (map ((!) (window cb)) [j..<m]))"
  using assms(4)
proof (induction "m - j" arbitrary: j s)
  case 0
  then show ?case by simp
next
  case (Suc d)
  then have "j < m" by simp
  then show ?case
    using Suc get_value_index_window [OF assms(1-3), of j]
    by (simp add: upt_conv_Cons algebra_simps)
qed

text \<open>Where the number of places divides 2^64, the partial sum is that of the newest values.\<close>

theorem partial_sum_newest:
  assumes "wf_buffer cb" "buf_size cb < 2 ^ 31" "buf_size cb dvd 2 ^ 64" "m \<le> buf_size cb"
  shows "get_partial_sum_from_previous cb (int m) = Some (sum_list (take m (window cb)))"
proof -
  have up: "[0..int m - 1] = map int [0..<m]"
    by (rule nth_equalityI) (auto simp: nth_upto)
  have "map ((!) (window cb)) [0..<m] = take m (window cb)"
    using length_window [OF assms(1)] assms(4) by (intro nth_equalityI) auto
  then show ?thesis
    using partial_sum_loop_window [OF assms, of 0 0] assms(1)
    by (auto simp: get_partial_sum_from_previous_def up elim!: wf_bufferE)
qed

theorem partial_sum_newest_witness:
  "get_partial_sum_from_previous (foldl update_buffer (new_buffer True 4) [5, 6, 7]) (int 2) = Some 13"
proof -
  define cb where "cb = foldl update_buffer (new_buffer True 4) [5, 6, 7]"
  have wf: "wf_buffer cb" unfolding cb_def by (rule cbw.inv_upds [OF wf_new_buffer])
  have n: "buf_size cb = 4" by (simp add: cb_def new_buffer_def Let_def)
  have "window cb = [7, 6, 5, 0]"
    unfolding cb_def
    by (simp only: window_updates_new zero_less_numeral) (simp add: numeral_eq_Suc)
  with partial_sum_newest [OF wf, of 2] have "get_partial_sum_from_previous cb (int 2) = Some 13"
    by (simp add: n)
  then show ?thesis unfolding cb_def .
qed

text \<open>Elsewhere the wrap-around of the unsigned index goes wrong: right after the index came
  back to 0, the slot read for the value before the newest one is the right one (the last place)
  only if the number of places divides 2^64.\<close>

theorem value_slot_before_wrap:
  assumes "buf_size cb < 2 ^ 31" "0 < buf_size cb" "buf_index cb = 0"
  shows "value_slot cb (- 1) = int (buf_size cb) - 1 \<longleftrightarrow> buf_size cb dvd 2 ^ 64"
proof -
  let ?n = "int (buf_size cb)"
  have slot: "value_slot cb (- 1) = (2 ^ 64 - 1) mod ?n"
    using value_slot_small [OF assms(1,2), of "- 1"] assms(3) by simp
  have n: "0 < ?n" using assms(2) by simp
  have "(2 ^ 64 - 1) mod ?n = ?n - 1 \<longleftrightarrow> ?n dvd 2 ^ 64"
  proof
    assume r: "(2 ^ 64 - 1) mod ?n = ?n - 1"
    have "(2 ^ 64 :: int) mod ?n = ((2 ^ 64 - 1) mod ?n + 1) mod ?n" by (simp add: mod_add_left_eq)
    then show "?n dvd 2 ^ 64" using r n by (simp add: dvd_eq_mod_eq_0)
  next
    assume d: "?n dvd 2 ^ 64"
    have "(2 ^ 64 - 1) mod ?n = (2 ^ 64 mod ?n - 1) mod ?n" by (simp only: mod_diff_left_eq)
    then show "(2 ^ 64 - 1) mod ?n = ?n - 1" using d n by (simp add: zmod_minus1)
  qed
  also have "?n dvd 2 ^ 64 \<longleftrightarrow> buf_size cb dvd 2 ^ 64"
    using int_dvd_int_iff [of "buf_size cb" "2 ^ 64"] by simp
  finally show ?thesis by (simp only: slot)
qed

theorem value_slot_before_wrap_witness:
  "value_slot (foldl update_buffer (new_buffer True 3) [1, 2, 3, 10]) (- 1) \<noteq> 2"
proof -
  define cb where "cb = foldl update_buffer (new_buffer True 3) [1, 2, 3, 10]"
  have n: "buf_size cb = 3" by (simp add: cb_def new_buffer_def Let_def)
  have i: "buf_index cb = 0" by (simp add: cb_def new_buffer_def update_buffer_def Let_def)
  have "\<not> (3 :: nat) dvd 2 ^ 64" by (simp add: dvd_eq_mod_eq_0)
  with value_slot_before_wrap [of cb] have "value_slot cb (- 1) \<noteq> 2" by (simp add: n i)
  then show ?thesis unfolding cb_def .
qed

end
