(* ===== verification/Bytes.thy ===== *)
theory Bytes
  imports Prelude
begin

unbundle bit_operations_syntax

text \<open>
  Bytes in memory.  The frames of the program are C structures laid over a byte string on a
  little-endian machine; multi-byte fields that travel on the network are stored through
  \<^verbatim>\<open>htons\<close> and \<^verbatim>\<open>htonl\<close>, which swap the bytes there.  This theory models the
  structure overlay (read and write of a field at a byte offset), the byte swaps, and
  \<^verbatim>\<open>std::basic_string::substr\<close>, \<^verbatim>\<open>append\<close> and \<^verbatim>\<open>erase\<close>.
\<close>

section \<open>Byte swaps\<close>

definition bswap16 :: "u16 \<Rightarrow> u16" where
  "bswap16 w = push_bit 8 w OR drop_bit 8 w"

definition join16 :: "u8 \<Rightarrow> u8 \<Rightarrow> u16" where
  "join16 lo hi = ucast lo OR push_bit 8 (ucast hi)"

definition join32 :: "u16 \<Rightarrow> u16 \<Rightarrow> u32" where
  "join32 lo hi = ucast lo OR push_bit 16 (ucast hi)"

definition bswap32 :: "u32 \<Rightarrow> u32" where
  "bswap32 w = join32 (bswap16 (ucast (drop_bit 16 w))) (bswap16 (ucast w))"

abbreviation htons :: "u16 \<Rightarrow> u16" where "htons \<equiv> bswap16"
abbreviation ntohs :: "u16 \<Rightarrow> u16" where "ntohs \<equiv> bswap16"
abbreviation htonl :: "u32 \<Rightarrow> u32" where "htonl \<equiv> bswap32"
abbreviation ntohl :: "u32 \<Rightarrow> u32" where "ntohl \<equiv> bswap32"

lemma bswap16_bswap16 [simp]: "bswap16 (bswap16 w) = w"
  by (rule bit_word_eqI) (auto simp: bswap16_def bit_simps)

lemma join16_bytes [simp]: "join16 (ucast w) (ucast (drop_bit 8 w)) = w"
  by (rule bit_word_eqI) (auto simp: join16_def bit_simps)

lemma join32_halves [simp]: "join32 (ucast w) (ucast (drop_bit 16 w)) = w"
  by (rule bit_word_eqI) (auto simp: join32_def bit_simps)

lemma low_join32 [simp]: "ucast (join32 lo hi) = lo"
  by (rule bit_word_eqI) (auto simp: join32_def bit_simps)

lemma high_join32 [simp]: "ucast (drop_bit 16 (join32 lo hi)) = hi"
  by (rule bit_word_eqI) (auto simp: join32_def bit_simps dest: bit_imp_le_length)

lemma bswap32_bswap32 [simp]: "bswap32 (bswap32 w) = w"
  by (simp add: bswap32_def)

text \<open>The low half of the swap of a 16-bit value held in 32 bits is empty.\<close>

lemma high_ucast16: "ucast (drop_bit 16 (ucast (w :: u16) :: u32)) = (0 :: u16)"
  by (rule bit_word_eqI) (auto simp: bit_simps dest: bit_imp_le_length)

lemma ucast_bswap32_ucast [simp]: "ucast (bswap32 (ucast (w :: u16))) = (0 :: u16)"
  by (simp add: bswap32_def high_ucast16) (simp add: bswap16_def)

section \<open>Fields laid over a byte string\<close>

definition bytes16 :: "u16 \<Rightarrow> bytes" where
  "bytes16 w = [ucast w, ucast (drop_bit 8 w)]"

definition bytes32 :: "u32 \<Rightarrow> bytes" where
  "bytes32 w = bytes16 (ucast w) @ bytes16 (ucast (drop_bit 16 w))"

definition read8 :: "bytes \<Rightarrow> nat \<Rightarrow> u8" where
  "read8 d k = d ! k"

definition read16 :: "bytes \<Rightarrow> nat \<Rightarrow> u16" where
  "read16 d k = join16 (d ! k) (d ! Suc k)"

definition read32 :: "bytes \<Rightarrow> nat \<Rightarrow> u32" where
  "read32 d k = join32 (read16 d k) (read16 d (k + 2))"

text \<open>Overwriting a field: the bytes from offset \<open>k\<close> on are replaced.\<close>

definition write_at :: "bytes \<Rightarrow> nat \<Rightarrow> bytes \<Rightarrow> bytes" where
  "write_at d k bs = take k d @ bs @ drop (k + length bs) d"

abbreviation write8 :: "bytes \<Rightarrow> nat \<Rightarrow> u8 \<Rightarrow> bytes" where
  "write8 d k b \<equiv> write_at d k [b]"
abbreviation write16 :: "bytes \<Rightarrow> nat \<Rightarrow> u16 \<Rightarrow> bytes" where
  "write16 d k w \<equiv> write_at d k (bytes16 w)"
abbreviation write32 :: "bytes \<Rightarrow> nat \<Rightarrow> u32 \<Rightarrow> bytes" where
  "write32 d k w \<equiv> write_at d k (bytes32 w)"

lemma length_bytes16 [simp]: "length (bytes16 w) = 2"
  by (simp add: bytes16_def)

lemma length_bytes32 [simp]: "length (bytes32 w) = 4"
  by (simp add: bytes32_def)

lemma length_write_at [simp]: "k + length bs \<le> length d \<Longrightarrow> length (write_at d k bs) = length d"
  by (simp add: write_at_def)

lemma nth_write_at:
  assumes "k + length bs \<le> length d"
  shows "write_at d k bs ! i =
    (if k \<le> i \<and> i < k + length bs then bs ! (i - k) else d ! i)"
  using assms by (auto simp: write_at_def nth_append)

lemma write_at_append: "k + length bs \<le> length d \<Longrightarrow> write_at (d @ e) k bs = write_at d k bs @ e"
  by (simp add: write_at_def)

lemma read16_bytes16: "read16 (bytes16 w @ d) 0 = w"
  by (simp add: read16_def bytes16_def)

lemma read16_write16_same: "k + 2 \<le> length d \<Longrightarrow> read16 (write16 d k w) k = w"
  by (simp add: read16_def nth_write_at bytes16_def)

lemma read16_write_at_other:
  "i + length bs \<le> length d \<Longrightarrow> k + 2 \<le> i \<or> i + length bs \<le> k \<Longrightarrow>
   read16 (write_at d i bs) k = read16 d k"
  by (auto simp: read16_def nth_write_at)

lemma read32_write32_same:
  assumes "k + 4 \<le> length d"
  shows "read32 (write32 d k w) k = w"
proof -
  have "read16 (write32 d k w) k = ucast w"
    using assms by (simp add: read16_def nth_write_at bytes32_def bytes16_def)
  moreover have "read16 (write32 d k w) (k + 2) = ucast (drop_bit 16 w)"
    using assms by (simp add: read16_def nth_write_at bytes32_def bytes16_def)
  ultimately show ?thesis by (simp add: read32_def)
qed

lemma read8_write8_same: "k < length d \<Longrightarrow> read8 (write8 d k b) k = b"
  by (simp add: read8_def nth_write_at)

lemma read8_write_at_other:
  "i + length bs \<le> length d \<Longrightarrow> k < i \<or> i + length bs \<le> k \<Longrightarrow>
   read8 (write_at d i bs) k = read8 d k"
  by (auto simp: read8_def nth_write_at)

lemma read16_append: "k + 2 \<le> length d \<Longrightarrow> read16 (d @ e) k = read16 d k"
  by (simp add: read16_def nth_append)

lemma read8_append: "k < length d \<Longrightarrow> read8 (d @ e) k = read8 d k"
  by (simp add: read8_def nth_append)

lemmas field_simps_rw =
  read16_write16_same read16_write_at_other read32_write32_same read8_write8_same
  read8_write_at_other read16_append read8_append

section \<open>Byte strings\<close>

text \<open>\<^verbatim>\<open>substr(pos, n)\<close> throws when \<open>pos\<close> is past the end and is cut at the end.\<close>

definition substr :: "bytes \<Rightarrow> nat \<Rightarrow> nat \<Rightarrow> bytes option" where
  "substr d pos n = (if pos \<le> length d then Some (take n (drop pos d)) else None)"

lemma substr_whole [simp]: "substr d 0 (length d) = Some d"
  by (simp add: substr_def)

text \<open>Reading and writing behind a known prefix.\<close>

lemma read16_skip: "length a \<le> k \<Longrightarrow> read16 (a @ d) k = read16 d (k - length a)"
  by (simp add: read16_def nth_append Suc_diff_le not_less)

lemma write_at_skip:
  "length a \<le> k \<Longrightarrow> write_at (a @ d) k bs = a @ write_at d (k - length a) bs"
  by (simp add: write_at_def)

lemma write_at_front: "length bs = length cs \<Longrightarrow> write_at (cs @ d) 0 bs = bs @ d"
  by (simp add: write_at_def)

lemma read32_bytes32: "read32 (bytes32 w @ d) 0 = w"
  by (simp add: read32_def bytes32_def read16_bytes16 read16_skip)

lemma write_at_Cons: "0 < k \<Longrightarrow> write_at (b # d) k bs = b # write_at d (k - 1) bs"
  by (cases k) (simp_all add: write_at_def)

lemma read16_Cons: "0 < k \<Longrightarrow> read16 (b # d) k = read16 d (k - 1)"
  by (cases k) (simp_all add: read16_def)

lemmas field_layout = write_at_skip write_at_front write_at_Cons read16_skip read16_Cons
  read16_bytes16 read32_bytes32

end
