(* ===== verification/Net_Packet.thy ===== *)
theory Net_Packet
  imports Bytes
begin

text \<open>
  Network containers and packets (\<^verbatim>\<open>opensand-core/src/common/NetContainer.cpp\<close>,
  \<^verbatim>\<open>NetPacket.cpp\<close>): a byte string with a header length, a trailer length and a spot, and
  for packets the protocol, the QoS and the two terminal identifiers.  The DVB frames of theory
  \<^verbatim>\<open>Dvb_Frame\<close> extend the same record.
\<close>

section \<open>Containers\<close>

record net_container =
  cont_data :: bytes
  cont_name :: string
  header_length :: nat
  trailer_length :: nat
  cont_spot :: spot_id

definition new_container :: "bytes \<Rightarrow> net_container" where
  "new_container d =
     \<lparr>cont_data = d, cont_name = ''unknown'', header_length = 0, trailer_length = 0,
      cont_spot = 255\<rparr>"

definition get_total_length :: "'a net_container_scheme \<Rightarrow> nat" where
  "get_total_length c = length (cont_data c)"

text \<open>The difference of lengths is taken in the unsigned 64-bit \<^verbatim>\<open>size_t\<close>.\<close>

definition get_payload_length :: "'a net_container_scheme \<Rightarrow> nat" where
  "get_payload_length c =
     nat ((int (get_total_length c) - int (header_length c) - int (trailer_length c)) mod 2 ^ 64)"

definition get_data_from :: "'a net_container_scheme \<Rightarrow> nat \<Rightarrow> bytes option" where
  "get_data_from c pos =
     substr (cont_data c) pos (nat ((int (get_total_length c) - int pos) mod 2 ^ 64))"

definition get_payload :: "'a net_container_scheme \<Rightarrow> bytes option" where
  "get_payload c = substr (cont_data c) (header_length c) (get_payload_length c)"

definition get_payload_from :: "'a net_container_scheme \<Rightarrow> nat \<Rightarrow> bytes option" where
  "get_payload_from c pos = substr (cont_data c) (header_length c + pos) (get_payload_length c)"

lemma get_payload_split:
  assumes "header_length c + trailer_length c \<le> length (cont_data c)"
    "length (cont_data c) < 2 ^ 64"
  shows "get_payload c =
    Some (take (length (cont_data c) - header_length c - trailer_length c)
           (drop (header_length c) (cont_data c)))"
proof -
  have "get_payload_length c = length (cont_data c) - header_length c - trailer_length c"
    using assms by (simp add: get_payload_length_def get_total_length_def flip: of_nat_diff)
  then show ?thesis using assms(1) by (simp add: get_payload_def substr_def)
qed

section \<open>Packets\<close>

text \<open>\<open>pkt_type\<close> is the protocol number of \<^verbatim>\<open>NET_PROTO\<close>.\<close>

record net_packet = net_container +
  pkt_type :: u16
  pkt_qos :: u8
  src_tal_id :: u8
  dst_tal_id :: u8

definition NET_PROTO_ERROR :: u16 where "NET_PROTO_ERROR = 0"

definition new_packet :: "bytes \<Rightarrow> net_packet" where
  "new_packet d = net_container.extend ((new_container d)\<lparr>cont_name := ''NetPacket''\<rparr>)
     \<lparr>pkt_type = NET_PROTO_ERROR, pkt_qos = 0, src_tal_id = 0, dst_tal_id = 0\<rparr>"

definition new_packet_full ::
  "bytes \<Rightarrow> nat \<Rightarrow> string \<Rightarrow> u16 \<Rightarrow> u8 \<Rightarrow> u8 \<Rightarrow> u8 \<Rightarrow> nat \<Rightarrow> net_packet" where
  "new_packet_full d len name type qos src dst hdr =
     (new_packet (take len d))\<lparr>cont_name := name, header_length := hdr, pkt_type := type,
        pkt_qos := qos, src_tal_id := src, dst_tal_id := dst\<rparr>"

text \<open>The copy constructor keeps the data, the type, the identifiers, the name and the spot;
  the header and trailer lengths of the copy are 0.\<close>

definition copy_packet :: "net_packet \<Rightarrow> net_packet" where
  "copy_packet p =
     (new_packet (cont_data p))\<lparr>cont_name := cont_name p, cont_spot := cont_spot p,
        pkt_type := pkt_type p, pkt_qos := pkt_qos p, src_tal_id := src_tal_id p,
        dst_tal_id := dst_tal_id p\<rparr>"

lemma copy_packet_payload:
  "length (cont_data p) < 2 ^ 64 \<Longrightarrow> get_payload (copy_packet p) = Some (cont_data p)"
  by (simp add: get_payload_split copy_packet_def new_packet_def new_container_def
      net_container.defs)

end
