(* ===== verification/Dvb_Fifo.thy ===== *)
theory Dvb_Fifo
  imports Net_Packet "HOL-Library.Multiset"
begin

text \<open>
  The MAC FIFO of the terminals and gateways (\<^verbatim>\<open>opensand-core/src/dvb/utils/DvbFifo.cpp\<close>
  and the access types of \<^verbatim>\<open>DvbFifo.h\<close>, \<^verbatim>\<open>Sac.h\<close>), whose elements are those of
  \<^verbatim>\<open>common/FifoElement.cpp\<close>: a bounded queue with packet and byte counters.  The theory states
  the interface of a bounded queue as a locale, used by the delay FIFO too, proves that a queue of
  this kind loses and duplicates nothing, and proves what the counters count.
\<close>

section \<open>Elements and access types\<close>

record 'm fifo_elem =
  fe_elem :: "'m net_container_scheme"
  tick_in :: int
  tick_out :: int

definition elem_length :: "'m fifo_elem \<Rightarrow> nat" where
  "elem_length e = get_total_length (fe_elem e)"

definition set_elem :: "'m fifo_elem \<Rightarrow> 'm net_container_scheme \<Rightarrow> 'm fifo_elem" where
  "set_elem e c = e\<lparr>fe_elem := c\<rparr>"

datatype return_access = dama_vbdc | dama_rbdc | dama_avbdc | dama_cra | saloha

datatype forward_access = acm | vcm

datatype access_type =
  Unknown_access | Forward_access forward_access | Return_access return_access

text \<open>The comparison operators of \<^verbatim>\<open>ForwardOrReturnAccessType\<close>: an unknown type differs from
  everything, itself included.\<close>

fun access_eq :: "access_type \<Rightarrow> access_type \<Rightarrow> bool" where
  "access_eq (Forward_access a) other = (other = Forward_access a)"
| "access_eq (Return_access a) other = (other = Return_access a)"
| "access_eq Unknown_access other = False"

fun access_neq :: "access_type \<Rightarrow> access_type \<Rightarrow> bool" where
  "access_neq (Forward_access a) other = (other \<noteq> Forward_access a)"
| "access_neq (Return_access a) other = (other \<noteq> Return_access a)"
| "access_neq Unknown_access other = True"

fun is_forward_access :: "access_type \<Rightarrow> bool" where
  "is_forward_access (Forward_access _) = True"
| "is_forward_access _ = False"

fun is_return_access :: "access_type \<Rightarrow> bool" where
  "is_return_access (Return_access _) = True"
| "is_return_access _ = False"

lemma access_neq_not_eq: "access_neq a b \<longleftrightarrow> \<not> access_eq a b"
  by (cases a) auto

lemma access_eq_known: "a \<noteq> Unknown_access \<Longrightarrow> access_eq a b \<longleftrightarrow> a = b"
  by (cases a) auto

section \<open>State\<close>

record fifo_stats =
  current_pkt_nbr :: vol_pkt
  current_length_bytes :: vol_bytes
  in_pkt_nbr :: vol_pkt
  out_pkt_nbr :: vol_pkt
  in_length_bytes :: vol_bytes
  out_length_bytes :: vol_bytes
  drop_pkt_nbr :: vol_pkt
  drop_bytes :: vol_bytes

record 'm dvb_fifo =
  queue :: "'m fifo_elem list"
  fifo_priority :: u32
  fifo_name :: string
  fifo_access :: access_type
  vcm_id :: u32
  new_size_pkt :: vol_pkt
  cur_length_bytes :: vol_bytes
  new_length_bytes :: vol_bytes
  max_size_pkt :: vol_pkt
  fifo_carrier_id :: u8
  stat_context :: fifo_stats
  fifo_cni :: u8

definition zero_stats :: fifo_stats where
  "zero_stats = \<lparr>current_pkt_nbr = 0, current_length_bytes = 0, in_pkt_nbr = 0, out_pkt_nbr = 0,
     in_length_bytes = 0, out_length_bytes = 0, drop_pkt_nbr = 0, drop_bytes = 0\<rparr>"

text \<open>\<^verbatim>\<open>sscanf(name, "VCM%d", &id)\<close>: optional blanks and sign, then decimal digits; without a
  digit the identifier keeps its value 0.\<close>

definition scan_int :: "string \<Rightarrow> int" where
  "scan_int s =
     (case skip_blanks s of
        [] \<Rightarrow> 0
      | c # cs \<Rightarrow> (if c = CHR ''-'' then - int (scan_digits cs 0)
                   else if c = CHR ''+'' then int (scan_digits cs 0)
                   else int (scan_digits (c # cs) 0)))"

definition access_of_name :: "string \<Rightarrow> access_type" where
  "access_of_name type_name =
     (if type_name = ''DAMA_RBDC'' then Return_access dama_rbdc
      else if type_name = ''DAMA_VBDC'' then Return_access dama_vbdc
      else if type_name = ''SALOHA'' then Return_access saloha
      else if type_name = ''DAMA_CRA'' then Return_access dama_cra
      else if type_name = ''ACM'' then Forward_access acm
      else if take 3 type_name = ''VCM'' then Forward_access vcm
      else Unknown_access)"

definition new_fifo :: "u32 \<Rightarrow> string \<Rightarrow> string \<Rightarrow> vol_pkt \<Rightarrow> 'm dvb_fifo" where
  "new_fifo priority name type_name max_size =
     (let access = access_of_name type_name
      in \<lparr>queue = [], fifo_priority = priority, fifo_name = name, fifo_access = access,
          vcm_id = (if access_eq access (Forward_access vcm)
                    then word_of_int (scan_int (drop 3 type_name)) else 0),
          new_size_pkt = 0, cur_length_bytes = 0, new_length_bytes = 0, max_size_pkt = max_size,
          fifo_carrier_id = 0, stat_context = zero_stats, fifo_cni = 0\<rparr>)"

definition new_spot_fifo :: "u8 \<Rightarrow> vol_pkt \<Rightarrow> string \<Rightarrow> u32 \<Rightarrow> u8 \<Rightarrow> 'm dvb_fifo" where
  \<comment> \<open>this constructor leaves \<open>vcm_id\<close> and \<open>cni\<close> uninitialised: they are its last arguments\<close>
  "new_spot_fifo carrier max_size name any_vcm any_cni =
     \<lparr>queue = [], fifo_priority = 0, fifo_name = name, fifo_access = Unknown_access,
      vcm_id = any_vcm, new_size_pkt = 0, cur_length_bytes = 0, new_length_bytes = 0,
      max_size_pkt = max_size, fifo_carrier_id = carrier, stat_context = zero_stats,
      fifo_cni = any_cni\<rparr>"

section \<open>Operations\<close>

definition get_current_size :: "'m dvb_fifo \<Rightarrow> vol_pkt" where
  "get_current_size f = of_nat (length (queue f))"

definition get_tick_out :: "'m dvb_fifo \<Rightarrow> int" where
  "get_tick_out f = (case queue f of [] \<Rightarrow> 0 | e # _ \<Rightarrow> tick_out e)"

definition reset_new :: "'m dvb_fifo \<Rightarrow> access_type \<Rightarrow> 'm dvb_fifo" where
  "reset_new f cr_type =
     (if access_eq (fifo_access f) cr_type
      then f\<lparr>new_size_pkt := 0, new_length_bytes := 0\<rparr> else f)"

definition push :: "'m dvb_fifo \<Rightarrow> 'm fifo_elem \<Rightarrow> 'm dvb_fifo \<times> bool" where
  "push f e =
     (let len = of_nat (elem_length e); st = stat_context f in
      if length (queue f) \<ge> unat (max_size_pkt f)
      then (f\<lparr>stat_context := st\<lparr>drop_pkt_nbr := drop_pkt_nbr st + 1,
                                   drop_bytes := drop_bytes st + len\<rparr>\<rparr>, False)
      else
        (let q = queue f @ [e] in
         (f\<lparr>queue := q, new_size_pkt := new_size_pkt f + 1,
            new_length_bytes := new_length_bytes f + len,
            cur_length_bytes := cur_length_bytes f + len,
            stat_context := st\<lparr>current_pkt_nbr := of_nat (length q),
              in_pkt_nbr := in_pkt_nbr st + 1,
              current_length_bytes := current_length_bytes st + len,
              in_length_bytes := in_length_bytes st + len\<rparr>\<rparr>, True)))"

text \<open>\<^verbatim>\<open>pushFront\<close> and \<^verbatim>\<open>pushBack\<close> differ in the place of insertion only.\<close>

definition push_fragment ::
  "'m fifo_elem list \<Rightarrow> 'm dvb_fifo \<Rightarrow> 'm fifo_elem \<Rightarrow> 'm dvb_fifo" where
  "push_fragment q f e =
     (let len = of_nat (elem_length e); st = stat_context f in
      f\<lparr>queue := q, cur_length_bytes := cur_length_bytes f + len,
        stat_context := st\<lparr>current_pkt_nbr := of_nat (length q),
          current_length_bytes := current_length_bytes st + len,
          out_length_bytes := out_length_bytes st - len\<rparr>\<rparr>)"

definition push_front :: "'m dvb_fifo \<Rightarrow> 'm fifo_elem \<Rightarrow> 'm dvb_fifo \<times> bool" where
  "push_front f e =
     (if length (queue f) < unat (max_size_pkt f)
      then (push_fragment (e # queue f) f e, True) else (f, False))"

definition push_back :: "'m dvb_fifo \<Rightarrow> 'm fifo_elem \<Rightarrow> 'm dvb_fifo \<times> bool" where
  "push_back f e =
     (if length (queue f) < unat (max_size_pkt f)
      then (push_fragment (queue f @ [e]) f e, True) else (f, False))"

definition pop :: "'m dvb_fifo \<Rightarrow> 'm dvb_fifo \<times> 'm fifo_elem option" where
  "pop f =
     (case queue f of
        [] \<Rightarrow> (f, None)
      | e # q \<Rightarrow>
          (let len = of_nat (elem_length e); st = stat_context f in
           (f\<lparr>queue := q, cur_length_bytes := cur_length_bytes f - len,
              stat_context := st\<lparr>current_pkt_nbr := of_nat (length q),
                out_pkt_nbr := out_pkt_nbr st + 1,
                current_length_bytes := current_length_bytes st - len,
                out_length_bytes := out_length_bytes st + len\<rparr>\<rparr>, Some e)))"

definition reset_stats :: "'m dvb_fifo \<Rightarrow> 'm dvb_fifo" where
  "reset_stats f =
     f\<lparr>stat_context := (stat_context f)\<lparr>in_pkt_nbr := 0, out_pkt_nbr := 0, in_length_bytes := 0,
        out_length_bytes := 0, drop_pkt_nbr := 0, drop_bytes := 0\<rparr>\<rparr>"

definition flush :: "'m dvb_fifo \<Rightarrow> 'm dvb_fifo" where
  "flush f =
     reset_stats (f\<lparr>queue := [], new_size_pkt := 0, new_length_bytes := 0, cur_length_bytes := 0\<rparr>)"

definition get_stats_cxt :: "'m dvb_fifo \<Rightarrow> 'm dvb_fifo \<times> fifo_stats" where
  "get_stats_cxt f = (reset_stats f, stat_context f)"

definition set_cni :: "'m dvb_fifo \<Rightarrow> u8 \<Rightarrow> 'm dvb_fifo" where
  "set_cni f c = f\<lparr>fifo_cni := c\<rparr>"

lemmas fifo_ops = push_def push_front_def push_back_def push_fragment_def pop_def flush_def
  reset_stats_def get_stats_cxt_def reset_new_def set_cni_def Let_def

section \<open>The interface: bounded queues\<close>

datatype 'e queue_op = Enqueue 'e | Dequeue

text \<open>A run returns the final queue, the accepted elements and the removed ones, in order.\<close>

fun run_queue ::
  "('q \<Rightarrow> 'e \<Rightarrow> 'q \<times> bool) \<Rightarrow> ('q \<Rightarrow> 'q \<times> 'e option) \<Rightarrow> 'q \<Rightarrow> 'e queue_op list
     \<Rightarrow> 'q \<times> 'e list \<times> 'e list" where
  "run_queue psh pp q [] = (q, [], [])"
| "run_queue psh pp q (Enqueue e # ops) =
     (let (q1, ok) = psh q e; (q2, ins, outs) = run_queue psh pp q1 ops
      in (q2, (if ok then e # ins else ins), outs))"
| "run_queue psh pp q (Dequeue # ops) =
     (let (q1, r) = pp q; (q2, ins, outs) = run_queue psh pp q1 ops
      in (q2, ins, (case r of None \<Rightarrow> outs | Some e \<Rightarrow> e # outs)))"

locale bounded_queue =
  fixes psh :: "'q \<Rightarrow> 'e \<Rightarrow> 'q \<times> bool"
    and pp :: "'q \<Rightarrow> 'q \<times> 'e option"
    and items :: "'q \<Rightarrow> 'e list"
    and capacity :: "'q \<Rightarrow> nat"
    and place :: "'e \<Rightarrow> 'e list \<Rightarrow> 'e list"
  assumes push_accept: "length (items q) < capacity q \<Longrightarrow>
      snd (psh q e) \<and> items (fst (psh q e)) = place e (items q)"
    and push_reject: "capacity q \<le> length (items q) \<Longrightarrow>
      \<not> snd (psh q e) \<and> items (fst (psh q e)) = items q"
    and pop_empty: "items q = [] \<Longrightarrow> snd (pp q) = None \<and> items (fst (pp q)) = []"
    and pop_front: "items q = e # es \<Longrightarrow> snd (pp q) = Some e \<and> items (fst (pp q)) = es"
    and capacity_push: "capacity (fst (psh q e)) = capacity q"
    and capacity_pop: "capacity (fst (pp q)) = capacity q"
    and mset_place: "mset (place e es) = add_mset e (mset es)"
begin

lemma length_place: "length (place e es) = Suc (length es)"
  by (metis mset_place size_add_mset size_mset)

lemma push_cases:
  "(snd (psh q e) \<and> length (items q) < capacity q \<and> items (fst (psh q e)) = place e (items q)) \<or>
   (\<not> snd (psh q e) \<and> capacity q \<le> length (items q) \<and> items (fst (psh q e)) = items q)"
  using push_accept [of q e] push_reject [of q e] by (cases "length (items q) < capacity q") auto

lemma bound_push: "length (items q) \<le> capacity q \<Longrightarrow> length (items (fst (psh q e))) \<le> capacity q"
  using push_cases [of q e] by (auto simp: length_place)

lemma bound_pop: "length (items q) \<le> capacity q \<Longrightarrow> length (items (fst (pp q))) \<le> capacity q"
  using pop_empty [of q] pop_front [of q] by (cases "items q") auto

lemma run_bound:
  "length (items q) \<le> capacity q \<Longrightarrow>
   length (items (fst (run_queue psh pp q ops))) \<le> capacity q"
proof (induction ops arbitrary: q)
  case Nil
  then show ?case by simp
next
  case (Cons op ops)
  show ?case
  proof (cases op)
    case (Enqueue e)
    with Cons.IH [of "fst (psh q e)"] bound_push [OF Cons.prems, of e] show ?thesis
      by (auto simp: capacity_push Let_def split: prod.splits)
  next
    case Dequeue
    with Cons.IH [of "fst (pp q)"] bound_pop [OF Cons.prems] show ?thesis
      by (auto simp: capacity_pop Let_def split: prod.splits)
  qed
qed

lemma run_conservation:
  "mset (items q) + mset (fst (snd (run_queue psh pp q ops))) =
   mset (snd (snd (run_queue psh pp q ops))) + mset (items (fst (run_queue psh pp q ops)))"
proof (induction ops arbitrary: q)
  case Nil
  then show ?case by simp
next
  case (Cons op ops)
  show ?case
  proof (cases op)
    case (Enqueue e)
    with Cons.IH [of "fst (psh q e)"] push_cases [of q e] show ?thesis
      by (auto simp: mset_place Let_def split: prod.splits)
  next
    case Dequeue
    with Cons.IH [of "fst (pp q)"] pop_empty [of q] pop_front [of q] show ?thesis
      by (cases "items q") (auto simp: Let_def split: prod.splits)
  qed
qed

end

locale fifo_queue = bounded_queue +
  assumes place_back: "place e es = es @ [e]"
begin

lemma run_in_order:
  "items q @ fst (snd (run_queue psh pp q ops)) =
   snd (snd (run_queue psh pp q ops)) @ items (fst (run_queue psh pp q ops))"
proof (induction ops arbitrary: q)
  case Nil
  then show ?case by simp
next
  case (Cons op ops)
  show ?case
  proof (cases op)
    case (Enqueue e)
    with Cons.IH [of "fst (psh q e)"] push_cases [of q e] show ?thesis
      by (auto simp: place_back Let_def split: prod.splits)
  next
    case Dequeue
    with Cons.IH [of "fst (pp q)"] pop_empty [of q] pop_front [of q] show ?thesis
      by (cases "items q") (auto simp: Let_def split: prod.splits)
  qed
qed

end

interpretation mac_fifo: fifo_queue push pop queue "\<lambda>f. unat (max_size_pkt f)" "\<lambda>e es. es @ [e]"
  by unfold_locales (auto simp: push_def pop_def Let_def split: list.split)


text \<open>The MAC FIFO delivers in order and loses nothing it accepted: over any sequence of
  \<^verbatim>\<open>push\<close> and \<^verbatim>\<open>pop\<close> calls, the elements that were in the queue followed by the accepted
  ones are the removed ones followed by those still there, and the queue never exceeds its
  maximum size.\<close>

theorem mac_fifo_in_order:
  assumes "length (queue f) \<le> unat (max_size_pkt f)"
    and "run_queue push pop f ops = (f', accepted, removed)"
  shows "queue f @ accepted = removed @ queue f' \<and>
         length (queue f') \<le> unat (max_size_pkt f)"
  using mac_fifo.run_in_order [of f ops] mac_fifo.run_bound [OF assms(1), of ops] assms(2) by simp

theorem mac_fifo_in_order_witness:
  "\<exists>f' :: unit dvb_fifo. \<exists>acc out. run_queue push pop (new_fifo 0 ''NM'' ''DAMA_VBDC'' 1)
     [Enqueue \<lparr>fe_elem = new_container [1, 2], tick_in = 0, tick_out = 0\<rparr>, Dequeue] = (f', acc, out) \<and>
     acc = out @ queue f'"
proof -
  let ?f = "new_fifo 0 ''NM'' ''DAMA_VBDC'' 1 :: unit dvb_fifo"
  let ?ops = "[Enqueue \<lparr>fe_elem = new_container [1, 2], tick_in = 0, tick_out = 0\<rparr>, Dequeue]"
  obtain f' acc out where r: "run_queue push pop ?f ?ops = (f', acc, out)" by (metis prod_cases3)
  have "length (queue ?f) \<le> unat (max_size_pkt ?f)" by (simp add: new_fifo_def Let_def)
  from mac_fifo_in_order [OF this r] r show ?thesis by (auto simp: new_fifo_def Let_def)
qed

section \<open>The counters\<close>

definition queue_bytes :: "'m dvb_fifo \<Rightarrow> vol_bytes" where
  "queue_bytes f = of_nat (\<Sum>e\<leftarrow>queue f. elem_length e)"

text \<open>\<open>fifo_wf\<close>: the bound and the byte length; \<open>stats_wf\<close>: the current values in the statistics.\<close>

definition fifo_wf :: "'m dvb_fifo \<Rightarrow> bool" where
  "fifo_wf f \<longleftrightarrow> length (queue f) \<le> unat (max_size_pkt f) \<and> cur_length_bytes f = queue_bytes f"

definition stats_wf :: "'m dvb_fifo \<Rightarrow> bool" where
  "stats_wf f \<longleftrightarrow>
     current_pkt_nbr (stat_context f) = of_nat (length (queue f)) \<and>
     current_length_bytes (stat_context f) = cur_length_bytes f"

datatype 'm fifo_call =
    Push "'m fifo_elem" | Push_front "'m fifo_elem" | Push_back "'m fifo_elem" | Pop
  | Reset_new access_type | Get_stats | Flush

fun fifo_step :: "'m dvb_fifo \<Rightarrow> 'm fifo_call \<Rightarrow> 'm dvb_fifo" where
  "fifo_step f (Push e) = fst (push f e)"
| "fifo_step f (Push_front e) = fst (push_front f e)"
| "fifo_step f (Push_back e) = fst (push_back f e)"
| "fifo_step f Pop = fst (pop f)"
| "fifo_step f (Reset_new t) = reset_new f t"
| "fifo_step f Get_stats = fst (get_stats_cxt f)"
| "fifo_step f Flush = flush f"

abbreviation fifo_run :: "'m dvb_fifo \<Rightarrow> 'm fifo_call list \<Rightarrow> 'm dvb_fifo" where
  "fifo_run f cs \<equiv> foldl fifo_step f cs"

lemma max_size_step [simp]: "max_size_pkt (fifo_step f c) = max_size_pkt f"
  by (cases c) (auto simp: fifo_ops split: list.split)

lemma fifo_wf_new: "fifo_wf (new_fifo p n t m)"
  by (simp add: fifo_wf_def new_fifo_def queue_bytes_def Let_def)

lemma stats_wf_new: "stats_wf (new_fifo p n t m)"
  by (simp add: stats_wf_def new_fifo_def zero_stats_def Let_def)

lemma fifo_wf_step: "fifo_wf f \<Longrightarrow> fifo_wf (fifo_step f c)"
  by (cases c) (auto simp: fifo_wf_def fifo_ops queue_bytes_def split: list.split)

lemma stats_wf_step: "stats_wf f \<Longrightarrow> c \<noteq> Flush \<Longrightarrow> stats_wf (fifo_step f c)"
  by (cases c) (auto simp: stats_wf_def fifo_ops split: list.split)

text \<open>The current length is exact.  After any sequence of calls on a new FIFO, the queue is
  within its maximum size and \<^verbatim>\<open>getCurrentDataLength\<close> is the number of bytes queued (modulo
  2^32); as long as the FIFO was not flushed, the statistics report the same length and the number
  of queued packets.\<close>

theorem mac_fifo_counts:
  fixes calls :: "'m fifo_call list" and prio name ty max_size
  defines "f \<equiv> fifo_run (new_fifo prio name ty max_size) calls"
  shows "length (queue f) \<le> unat max_size \<and>
    cur_length_bytes f = of_nat (\<Sum>e\<leftarrow>queue f. elem_length e) \<and>
    (Flush \<notin> set calls \<longrightarrow>
       current_pkt_nbr (stat_context f) = of_nat (length (queue f)) \<and>
       current_length_bytes (stat_context f) = cur_length_bytes f)"
proof -
  have run: "fifo_wf g \<Longrightarrow> fifo_wf (fifo_run g calls)" for g :: "'m dvb_fifo"
    by (induction calls arbitrary: g) (simp_all add: fifo_wf_step)
  have stats: "Flush \<notin> set calls \<Longrightarrow> stats_wf g \<Longrightarrow> stats_wf (fifo_run g calls)" for g :: "'m dvb_fifo"
    by (induction calls arbitrary: g) (auto simp: stats_wf_step)
  have max: "max_size_pkt (fifo_run g calls) = max_size_pkt g" for g :: "'m dvb_fifo"
    by (induction calls arbitrary: g) simp_all
  have "max_size_pkt (new_fifo prio name ty max_size :: 'm dvb_fifo) = max_size"
    by (simp add: new_fifo_def Let_def)
  with run [OF fifo_wf_new] stats [OF _ stats_wf_new] max show ?thesis
    unfolding f_def fifo_wf_def stats_wf_def queue_bytes_def by metis
qed

theorem mac_fifo_counts_witness:
  "current_length_bytes (stat_context (fifo_run (new_fifo 0 ''NM'' ''DAMA_VBDC'' 4)
     [Push \<lparr>fe_elem = new_container [1, 2], tick_in = 0, tick_out = 0\<rparr>] :: unit dvb_fifo)) = 2"
proof -
  let ?e = "\<lparr>fe_elem = new_container [1, 2], tick_in = 0, tick_out = 0\<rparr> :: unit fifo_elem"
  let ?f = "fifo_run (new_fifo 0 ''NM'' ''DAMA_VBDC'' 4) [Push ?e]"
  have "queue ?f = [?e]" by (simp add: new_fifo_def push_def Let_def)
  with mac_fifo_counts [of 0 "''NM''" "''DAMA_VBDC''" 4 "[Push ?e]"] show ?thesis
    by (simp add: elem_length_def get_total_length_def new_container_def)
qed

fun moves_data :: "'m fifo_call \<Rightarrow> bool" where
  "moves_data Get_stats = False"
| "moves_data Flush = False"
| "moves_data _ = True"

lemma balance_step:
  "moves_data c \<Longrightarrow>
   (let st = stat_context (fifo_step f c)
    in current_length_bytes st - in_length_bytes st + out_length_bytes st) =
   (let st = stat_context f
    in current_length_bytes st - in_length_bytes st + out_length_bytes st)"
  by (cases c) (auto simp: fifo_ops split: list.split)

text \<open>Within a period the volumes balance: from one reading of the statistics on, while
  elements are pushed, popped and pushed back, the current length is the length at that reading,
  plus the bytes that came in, minus those that went out (modulo 2^32).\<close>

theorem mac_fifo_period_balance:
  assumes "list_all moves_data calls" and "get_stats_cxt f = (f0, before)"
  defines "after \<equiv> stat_context (fifo_run f0 calls)"
  shows "current_length_bytes after =
    current_length_bytes before + in_length_bytes after - out_length_bytes after"
proof -
  have "list_all moves_data calls \<Longrightarrow>
      (let st = stat_context (fifo_run g calls)
       in current_length_bytes st - in_length_bytes st + out_length_bytes st) =
      (let st = stat_context g
       in current_length_bytes st - in_length_bytes st + out_length_bytes st)" for g :: "'a dvb_fifo"
    by (induction calls arbitrary: g) (simp_all add: balance_step)
  from this [OF assms(1), of f0] assms(2) show ?thesis
    by (auto simp: after_def get_stats_cxt_def reset_stats_def Let_def algebra_simps)
qed

theorem mac_fifo_period_balance_witness:
  "current_length_bytes (stat_context (fifo_run (new_fifo 0 ''NM'' ''ACM'' 4)
     [Push \<lparr>fe_elem = new_container [1, 2], tick_in = 0, tick_out = 0\<rparr>, Pop] :: unit dvb_fifo)) = 0"
proof -
  let ?e = "\<lparr>fe_elem = new_container [1, 2], tick_in = 0, tick_out = 0\<rparr> :: unit fifo_elem"
  let ?f = "new_fifo 0 ''NM'' ''ACM'' 4 :: unit dvb_fifo"
  have "get_stats_cxt ?f = (?f, zero_stats)"
    by (simp add: get_stats_cxt_def reset_stats_def new_fifo_def zero_stats_def Let_def)
  from mac_fifo_period_balance [of "[Push ?e, Pop]", OF _ this] show ?thesis
    by (simp add: zero_stats_def new_fifo_def push_def pop_def Let_def)
qed

text \<open>A flush empties the queue but leaves the current packet and byte counts of the statistics
  as they were: the next reading reports packets that are gone.\<close>

theorem flush_keeps_current_stats:
  "queue (flush f) = [] \<and> cur_length_bytes (flush f) = 0 \<and>
   current_pkt_nbr (snd (get_stats_cxt (flush f))) = current_pkt_nbr (stat_context f) \<and>
   current_length_bytes (snd (get_stats_cxt (flush f))) = current_length_bytes (stat_context f)"
  by (simp add: flush_def reset_stats_def get_stats_cxt_def)

end
