(* ===== verification/Delay_Fifo.thy ===== *)
theory Delay_Fifo
  imports Dvb_Fifo
begin

text \<open>
  The FIFO of delayed elements (\<^verbatim>\<open>opensand-core/src/common/DelayFifo.cpp\<close>) that emulates the
  propagation delay of the satellite links: an element is inserted at the place its output date
  gives it, found by bisection, and leaves from the head.  The theory proves that the bisection
  never reads out of range, keeps the queue sorted by output date, and delivers the elements of
  one date in their order of arrival.
\<close>

section \<open>State and operations\<close>

record 'm delay_fifo =
  dqueue :: "'m fifo_elem list"
  dmax_size_pkt :: vol_pkt

definition new_delay_fifo :: "vol_pkt \<Rightarrow> 'm delay_fifo" where
  "new_delay_fifo m = \<lparr>dqueue = [], dmax_size_pkt = m\<rparr>"

definition delay_current_size :: "'m delay_fifo \<Rightarrow> vol_pkt" where
  "delay_current_size f = of_nat (length (dqueue f))"

definition set_max_size :: "'m delay_fifo \<Rightarrow> vol_pkt \<Rightarrow> 'm delay_fifo \<times> bool" where
  "set_max_size f m =
     (if length (dqueue f) > unat m then (f, False) else (f\<lparr>dmax_size_pkt := m\<rparr>, True))"

definition delay_tick_out :: "'m delay_fifo \<Rightarrow> int" where
  "delay_tick_out f = (case dqueue f of [] \<Rightarrow> 0 | e # _ \<Rightarrow> tick_out e)"

text \<open>\<^verbatim>\<open>std::vector::at\<close> throws out of range.\<close>

definition elem_at :: "'a list \<Rightarrow> int \<Rightarrow> 'a option" where
  "elem_at q k = (if 0 \<le> k \<and> k < int (length q) then Some (q ! nat k) else None)"

function tick_out_bisect :: "'m fifo_elem list \<Rightarrow> int \<Rightarrow> int \<Rightarrow> int \<Rightarrow> int option" where
  "tick_out_bisect q time_out start stop =
     (if stop > start then
        (let test = (stop + start) div 2 in
         (case elem_at q test of
            None \<Rightarrow> None
          | Some e \<Rightarrow>
              (if tick_out e > time_out then tick_out_bisect q time_out start test
               else tick_out_bisect q time_out (test + 1) stop)))
      else if stop = start then
        (case elem_at q start of
           None \<Rightarrow> None
         | Some e \<Rightarrow> Some (if tick_out e > time_out then start else start + 1))
      else if stop < 0 then Some 0 else Some (- 1))"
  by pat_completeness auto
termination
  by (relation "measure (\<lambda>(q, t, start, stop). nat (stop - start))") auto

declare tick_out_bisect.simps [simp del]

definition get_tick_out_position :: "'m fifo_elem list \<Rightarrow> int \<Rightarrow> int option" where
  "get_tick_out_position q time_out = tick_out_bisect q time_out 0 (int (length q) - 1)"

definition insert_at :: "'a list \<Rightarrow> nat \<Rightarrow> 'a \<Rightarrow> 'a list" where
  "insert_at q k e = take k q @ e # drop k q"

definition delay_push :: "'m delay_fifo \<Rightarrow> 'm fifo_elem \<Rightarrow> ('m delay_fifo \<times> bool) option" where
  "delay_push f e =
     (if length (dqueue f) \<ge> unat (dmax_size_pkt f) then Some (f, False)
      else
        (case get_tick_out_position (dqueue f) (tick_out e) of
           None \<Rightarrow> None
         | Some pos \<Rightarrow>
             Some (if pos \<ge> 0 then f\<lparr>dqueue := insert_at (dqueue f) (nat pos) e\<rparr> else f, True)))"

definition delay_push_front :: "'m delay_fifo \<Rightarrow> 'm fifo_elem \<Rightarrow> 'm delay_fifo \<times> bool" where
  "delay_push_front f e =
     (if length (dqueue f) < unat (dmax_size_pkt f)
      then (f\<lparr>dqueue := e # dqueue f\<rparr>, True) else (f, False))"

definition delay_push_back :: "'m delay_fifo \<Rightarrow> 'm fifo_elem \<Rightarrow> 'm delay_fifo \<times> bool" where
  "delay_push_back f e =
     (if length (dqueue f) < unat (dmax_size_pkt f)
      then (f\<lparr>dqueue := dqueue f @ [e]\<rparr>, True) else (f, False))"

definition delay_pop :: "'m delay_fifo \<Rightarrow> 'm delay_fifo \<times> 'm fifo_elem option" where
  "delay_pop f =
     (case dqueue f of [] \<Rightarrow> (f, None) | e # q \<Rightarrow> (f\<lparr>dqueue := q\<rparr>, Some e))"

definition delay_flush :: "'m delay_fifo \<Rightarrow> 'm delay_fifo" where
  "delay_flush f = f\<lparr>dqueue := []\<rparr>"

section \<open>The bisection\<close>

lemma bisect_in_range:
  assumes "0 \<le> start" "start \<le> stop" "stop < int (length q)"
  shows "\<exists>p. tick_out_bisect q t start stop = Some p \<and> start \<le> p \<and> p \<le> stop + 1"
  using assms
proof (induction q t start stop rule: tick_out_bisect.induct)
  case (1 q t start stop)
  show ?case
  proof (cases "stop > start")
    case True
    let ?test = "(stop + start) div 2"
    have r: "start \<le> ?test" "?test < stop" using True by auto
    then have e: "elem_at q ?test = Some (q ! nat ?test)" using "1.prems" by (simp add: elem_at_def)
    show ?thesis
    proof (cases "tick_out (q ! nat ?test) > t")
      case gt: True
      with "1.IH"(1) [OF True refl e gt] r "1.prems"
      obtain p where "tick_out_bisect q t start ?test = Some p" "start \<le> p" "p \<le> ?test + 1"
        by auto
      with True gt r e show ?thesis by (auto simp: tick_out_bisect.simps [of q t start stop])
    next
      case le: False
      with "1.IH"(2) [OF True refl e le] r "1.prems"
      obtain p where "tick_out_bisect q t (?test + 1) stop = Some p" "?test + 1 \<le> p" "p \<le> stop + 1"
        by auto
      with True le r e show ?thesis by (auto simp: tick_out_bisect.simps [of q t start stop])
    qed
  next
    case False
    with "1.prems"(2) have "start = stop" by simp
    with "1.prems"(1,3) show ?thesis
      by (simp add: tick_out_bisect.simps [of q t stop stop] elem_at_def)
  qed
qed

lemma position_in_range:
  "\<exists>p. get_tick_out_position q t = Some (int p) \<and> p \<le> length q"
proof (cases "q = []")
  case True
  then show ?thesis
    by (auto simp: get_tick_out_position_def tick_out_bisect.simps)
next
  case False
  then have "0 \<le> int (length q) - 1" by (cases q) auto
  with bisect_in_range [of 0 "int (length q) - 1" q t] obtain p where
    "get_tick_out_position q t = Some p" "0 \<le> p" "p \<le> int (length q)"
    by (auto simp: get_tick_out_position_def)
  then show ?thesis by (intro exI [of _ "nat p"]) auto
qed

text \<open>On a sorted queue the position splits the elements that leave no later from those that
  leave after the given date.\<close>

lemma bisect_splits:
  assumes "sorted (map tick_out q)" "0 \<le> start" "start \<le> stop" "stop < int (length q)"
    and "\<forall>i < nat start. tick_out (q ! i) \<le> t"
    and "\<forall>i < length q. nat stop < i \<longrightarrow> t < tick_out (q ! i)"
    and "tick_out_bisect q t start stop = Some p"
  shows "(\<forall>i < nat p. i < length q \<longrightarrow> tick_out (q ! i) \<le> t) \<and>
         (\<forall>i < length q. nat p \<le> i \<longrightarrow> t < tick_out (q ! i))"
  using assms
proof (induction q t start stop rule: tick_out_bisect.induct)
  case (1 q t start stop)
  have mono: "tick_out (q ! i) \<le> tick_out (q ! j)" if "i \<le> j" "j < length q" for i j
    using sorted_nth_mono [OF "1.prems"(1), of i j] that by simp
  show ?case
  proof (cases "stop > start")
    case True
    let ?test = "(stop + start) div 2"
    have r: "start \<le> ?test" "?test < stop" using True by auto
    then have e: "elem_at q ?test = Some (q ! nat ?test)" using "1.prems" by (simp add: elem_at_def)
    show ?thesis
    proof (cases "tick_out (q ! nat ?test) > t")
      case gt: True
      have "\<forall>i < length q. nat ?test < i \<longrightarrow> t < tick_out (q ! i)"
        using gt mono by (meson less_imp_le order_less_le_trans)
      moreover have "tick_out_bisect q t start ?test = Some p"
        using "1.prems"(7) True gt e by (simp add: tick_out_bisect.simps [of q t start stop])
      moreover have "?test < int (length q)" using r(2) "1.prems"(4) by simp
      ultimately show ?thesis
        using "1.IH"(1) [OF True refl e gt "1.prems"(1,2) r(1) _ "1.prems"(5)] by blast
    next
      case le: False
      have "\<forall>i < nat (?test + 1). tick_out (q ! i) \<le> t"
      proof (intro allI impI)
        fix i assume "i < nat (?test + 1)"
        then have "i \<le> nat ?test" "nat ?test < length q" using r "1.prems" by auto
        from mono [OF this] le show "tick_out (q ! i) \<le> t" by simp
      qed
      moreover have "tick_out_bisect q t (?test + 1) stop = Some p"
        using "1.prems"(7) True le e by (simp add: tick_out_bisect.simps [of q t start stop])
      moreover have "0 \<le> ?test + 1" "?test + 1 \<le> stop" using r "1.prems"(2) by simp_all
      ultimately show ?thesis
        using "1.IH"(2) [OF True refl e le "1.prems"(1) _ _ "1.prems"(4) _ "1.prems"(6)] by blast
    qed
  next
    case False
    then have se: "start = stop" using "1.prems"(3) by simp
    then have e: "elem_at q stop = Some (q ! nat stop)" using "1.prems"(2,4) by (simp add: elem_at_def)
    then have p: "p = (if tick_out (q ! nat stop) > t then stop else stop + 1)"
      using "1.prems"(7) se by (simp add: tick_out_bisect.simps [of q t stop stop] split: if_splits)
    show ?thesis
    proof (cases "tick_out (q ! nat stop) > t")
      case True
      with p se "1.prems"(5,6) show ?thesis
        by (metis le_neq_implies_less)
    next
      case False
      with p "1.prems"(2) se have "nat p = Suc (nat stop)" by simp
      with False se "1.prems"(5,6) show ?thesis by (auto simp: less_Suc_eq)
    qed
  qed
qed

definition place_by_tick :: "'m fifo_elem \<Rightarrow> 'm fifo_elem list \<Rightarrow> 'm fifo_elem list" where
  "place_by_tick e q =
     (case get_tick_out_position q (tick_out e) of
        Some p \<Rightarrow> insert_at q (nat p) e | None \<Rightarrow> e # q)"

lemma mset_insert_at: "mset (insert_at q k e) = add_mset e (mset q)"
proof -
  have "mset (insert_at q k e) = add_mset e (mset (take k q @ drop k q))"
    by (simp only: insert_at_def mset_append mset.simps union_mset_add_mset_right)
  then show ?thesis by simp
qed

lemma place_by_tick_split:
  assumes "sorted (map tick_out q)"
  shows "place_by_tick e q =
    filter (\<lambda>x. tick_out x \<le> tick_out e) q @ e # filter (\<lambda>x. tick_out e < tick_out x) q"
proof -
  let ?t = "tick_out e"
  from position_in_range obtain p where p: "get_tick_out_position q ?t = Some (int p)" "p \<le> length q"
    by blast
  have split: "(\<forall>i < p. i < length q \<longrightarrow> tick_out (q ! i) \<le> ?t) \<and>
         (\<forall>i < length q. p \<le> i \<longrightarrow> ?t < tick_out (q ! i))"
  proof (cases "q = []")
    case False
    then have "0 \<le> int (length q) - 1" by (cases q) auto
    then show ?thesis
      using bisect_splits [OF assms, of 0 "int (length q) - 1" ?t "int p"] p(1)
      by (simp add: get_tick_out_position_def)
  qed simp
  have lo: "x \<in> set (take p q) \<Longrightarrow> tick_out x \<le> ?t" for x
    using split by (auto simp: in_set_conv_nth)
  have hi: "x \<in> set (drop p q) \<Longrightarrow> ?t < tick_out x" for x
    using split by (auto simp: in_set_conv_nth)
  have "filter (\<lambda>x. tick_out x \<le> ?t) (take p q @ drop p q) = take p q"
    using lo hi by (auto simp: filter_id_conv filter_empty_conv not_le simp del: append_take_drop_id)
  moreover have "filter (\<lambda>x. ?t < tick_out x) (take p q @ drop p q) = drop p q"
    using lo hi by (auto simp: filter_id_conv filter_empty_conv not_less simp del: append_take_drop_id)
  ultimately show ?thesis by (simp add: place_by_tick_def p insert_at_def)
qed

section \<open>The interface: a bounded queue ordered by a key\<close>

locale delay_queue = bounded_queue +
  fixes key :: "'b \<Rightarrow> int"
  assumes place_sorted: "sorted (map key es) \<Longrightarrow> sorted (map key (place e es))"
    and place_stable: "sorted (map key es) \<Longrightarrow>
      filter (\<lambda>x. key x = k) (place e es) =
      filter (\<lambda>x. key x = k) es @ (if key e = k then [e] else [])"
begin

lemma sorted_pop: "sorted (map key (items q)) \<Longrightarrow> sorted (map key (items (fst (pp q))))"
  using pop_empty [of q] pop_front [of q] by (cases "items q") auto

lemma sorted_push: "sorted (map key (items q)) \<Longrightarrow> sorted (map key (items (fst (psh q e))))"
  using push_cases [of q e] by (auto simp: place_sorted)

lemma run_sorted:
  "sorted (map key (items q)) \<Longrightarrow> sorted (map key (items (fst (run_queue psh pp q ops))))"
proof (induction ops arbitrary: q)
  case Nil
  then show ?case by simp
next
  case (Cons op ops)
  show ?case
  proof (cases op)
    case (Enqueue e)
    with Cons.IH [OF sorted_push [OF Cons.prems, of e]] show ?thesis
      by (auto simp: Let_def split: prod.splits)
  next
    case Dequeue
    with Cons.IH [OF sorted_pop [OF Cons.prems]] show ?thesis
      by (auto simp: Let_def split: prod.splits)
  qed
qed

lemma run_stable:
  "sorted (map key (items q)) \<Longrightarrow>
   filter (\<lambda>x. key x = k) (items q @ fst (snd (run_queue psh pp q ops))) =
   filter (\<lambda>x. key x = k)
     (snd (snd (run_queue psh pp q ops)) @ items (fst (run_queue psh pp q ops)))"
proof (induction ops arbitrary: q)
  case Nil
  then show ?case by simp
next
  case (Cons op ops)
  show ?case
  proof (cases op)
    case (Enqueue e)
    with Cons.IH [OF sorted_push [OF Cons.prems, of e]] push_cases [of q e]
      place_stable [OF Cons.prems, of k e]
    show ?thesis by (auto simp: Let_def split: prod.splits)
  next
    case Dequeue
    with Cons.IH [OF sorted_pop [OF Cons.prems]] pop_empty [of q] pop_front [of q] show ?thesis
      by (cases "items q") (auto simp: Let_def split: prod.splits)
  qed
qed

end

text \<open>The push of the delay FIFO always returns; \<open>delay_push_total\<close> is its value.\<close>

definition delay_push_total :: "'m delay_fifo \<Rightarrow> 'm fifo_elem \<Rightarrow> 'm delay_fifo \<times> bool" where
  "delay_push_total f e = (case delay_push f e of Some r \<Rightarrow> r | None \<Rightarrow> (f, False))"

lemma delay_push_eq:
  "delay_push f e = Some
     (if length (dqueue f) \<ge> unat (dmax_size_pkt f) then (f, False)
      else (f\<lparr>dqueue := place_by_tick e (dqueue f)\<rparr>, True))"
  using position_in_range [of "dqueue f" "tick_out e"]
  by (auto simp: delay_push_def place_by_tick_def)

lemma place_by_tick_sorted:
  "sorted (map tick_out q) \<Longrightarrow> sorted (map tick_out (place_by_tick e q))"
  by (auto simp: place_by_tick_split sorted_append sorted_filter)

lemma place_by_tick_stable:
  assumes "sorted (map tick_out q)"
  shows "filter (\<lambda>x. tick_out x = k) (place_by_tick e q) =
    filter (\<lambda>x. tick_out x = k) q @ (if tick_out e = k then [e] else [])"
proof -
  have "filter (\<lambda>x. tick_out x = k \<and> tick_out x \<le> tick_out e) q @
        filter (\<lambda>x. tick_out x = k \<and> tick_out e < tick_out x) q = filter (\<lambda>x. tick_out x = k) q"
    by (cases "k \<le> tick_out e") (auto cong: conj_cong simp: not_le)
  moreover have "tick_out e = k \<Longrightarrow>
      filter (\<lambda>x. tick_out x = k \<and> tick_out e < tick_out x) q = []"
    by (auto simp: filter_empty_conv)
  ultimately show ?thesis
    by (auto simp: place_by_tick_split [OF assms] conj_commute)
qed

interpretation delay: delay_queue delay_push_total delay_pop dqueue "\<lambda>f. unat (dmax_size_pkt f)"
  place_by_tick tick_out
proof unfold_locales
  fix f :: "'b delay_fifo" and e :: "'b fifo_elem" and es k
  show "mset (place_by_tick e es) = add_mset e (mset es)"
    using position_in_range [of es "tick_out e"] by (auto simp: place_by_tick_def mset_insert_at)
  show "sorted (map tick_out es) \<Longrightarrow> sorted (map tick_out (place_by_tick e es))"
    by (rule place_by_tick_sorted)
  show "sorted (map tick_out es) \<Longrightarrow> filter (\<lambda>x. tick_out x = k) (place_by_tick e es) =
      filter (\<lambda>x. tick_out x = k) es @ (if tick_out e = k then [e] else [])"
    by (rule place_by_tick_stable)
qed (auto simp: delay_push_total_def delay_push_eq delay_pop_def split: list.split)

text \<open>The insertion of an element into the delay FIFO never reads out of range and never loses
  it: it is refused when the FIFO is full, and else placed after all elements that leave no later
  and before those that leave after it.\<close>

theorem delay_push_position:
  assumes "sorted (map tick_out (dqueue f))"
  shows "delay_push f e =
    (if length (dqueue f) \<ge> unat (dmax_size_pkt f) then Some (f, False)
     else Some (f\<lparr>dqueue := filter (\<lambda>x. tick_out x \<le> tick_out e) (dqueue f) @
                    e # filter (\<lambda>x. tick_out e < tick_out x) (dqueue f)\<rparr>, True))"
  by (simp add: delay_push_eq place_by_tick_split [OF assms])

theorem delay_push_position_witness:
  "delay_push (new_delay_fifo 3 :: unit delay_fifo)
     \<lparr>fe_elem = new_container [7], tick_in = 1, tick_out = 9\<rparr> =
   Some (\<lparr>dqueue = [\<lparr>fe_elem = new_container [7], tick_in = 1, tick_out = 9\<rparr>],
          dmax_size_pkt = 3\<rparr>, True)"
proof -
  have "sorted (map tick_out (dqueue (new_delay_fifo 3 :: unit delay_fifo)))"
    by (simp add: new_delay_fifo_def)
  from delay_push_position [OF this] show ?thesis by (simp add: new_delay_fifo_def)
qed

text \<open>The delay FIFO delivers by output date.  Over any sequence of insertions and removals
  from an empty FIFO the queue is sorted by output date, so that \<^verbatim>\<open>pop\<close> takes an element that
  leaves no later than any other; no accepted element is lost or duplicated; and the elements of
  one date come out in their order of arrival.\<close>

theorem delay_fifo_delivers:
  fixes m :: vol_pkt and ops :: "'m fifo_elem queue_op list"
  defines "r \<equiv> run_queue delay_push_total delay_pop (new_delay_fifo m) ops"
  shows "sorted (map tick_out (dqueue (fst r))) \<and>
    mset (fst (snd r)) = mset (snd (snd r)) + mset (dqueue (fst r)) \<and>
    filter (\<lambda>x. tick_out x = k) (fst (snd r)) =
      filter (\<lambda>x. tick_out x = k) (snd (snd r) @ dqueue (fst r))"
proof (intro conjI)
  have empty: "sorted (map tick_out (dqueue (new_delay_fifo m :: 'm delay_fifo)))"
    by (simp add: new_delay_fifo_def)
  show "sorted (map tick_out (dqueue (fst r)))"
    unfolding r_def by (rule delay.run_sorted [OF empty])
  show "mset (fst (snd r)) = mset (snd (snd r)) + mset (dqueue (fst r))"
    using delay.run_conservation [of "new_delay_fifo m" ops]
    by (simp add: r_def new_delay_fifo_def)
  show "filter (\<lambda>x. tick_out x = k) (fst (snd r)) =
      filter (\<lambda>x. tick_out x = k) (snd (snd r) @ dqueue (fst r))"
    using delay.run_stable [OF empty, of k ops] by (simp add: r_def new_delay_fifo_def)
qed

end
