(* ===== verification/Floating.thy ===== *)
theory Floating
  imports Prelude Complex_Main "HOL-Library.Log_Nat"
begin

text \<open>
  The floating point arithmetic of the program.  A finite \<^verbatim>\<open>float\<close> or \<^verbatim>\<open>double\<close> is the
  rational number it denotes; every operation is the exact one followed by a rounding to the
  nearest number of 24 or 53 significant bits, ties to even (IEEE 754).  The exponents of the
  program's values (rates, volumes, durations and their inverses) stay far from the limits of
  the formats, so overflow, subnormal numbers and NaN are left out.
\<close>

section \<open>Rounding\<close>

definition ilog2 :: "rat \<Rightarrow> int" where
  "ilog2 x = (let (n, d) = quotient_of x; k = bitlen n - bitlen d
     in if x < 2 powi k then k - 1 else k)"

definition round_half_even :: "rat \<Rightarrow> int" where
  "round_half_even x =
     (let f = \<lfloor>x\<rfloor>; r = x - of_int f
      in if r < 1 / 2 then f else if 1 / 2 < r then f + 1 else if even f then f else f + 1)"

definition fl :: "nat \<Rightarrow> rat \<Rightarrow> rat" where
  "fl p x =
     (if x = 0 then 0
      else (let e = ilog2 \<bar>x\<bar> - (int p - 1)
            in of_int (round_half_even (x * 2 powi (- e))) * 2 powi e))"

abbreviation fl32 :: "rat \<Rightarrow> rat" where "fl32 \<equiv> fl 24"
abbreviation fl64 :: "rat \<Rightarrow> rat" where "fl64 \<equiv> fl 53"

text \<open>Reading an integer as a number, and the conversion of a number to an integer, which drops
  the decimals and keeps the low bits (what the compilers do with a value out of range, which the
  language leaves undefined).\<close>

definition num :: "'a::len word \<Rightarrow> rat" where
  "num w = of_nat (unat w)"

definition trunc :: "rat \<Rightarrow> 'a::len word" where
  "trunc x = word_of_int (if 0 \<le> x then \<lfloor>x\<rfloor> else \<lceil>x\<rceil>)"

definition cceil :: "rat \<Rightarrow> 'a::len word" where
  "cceil x = trunc (of_int \<lceil>x\<rceil>)"

definition cfloor :: "rat \<Rightarrow> 'a::len word" where
  "cfloor x = trunc (of_int \<lfloor>x\<rfloor>)"

text \<open>The conversion to an unsigned integer where the code can give it a value out of range: a fault
  when the number without its decimals does not fit.\<close>

definition to_unsigned :: "rat \<Rightarrow> 'a::len word option" where
  "to_unsigned x = (if - 1 < x \<and> x < 2 ^ LENGTH('a) then Some (trunc x) else None)"

section \<open>The error of a rounding\<close>

lemma powi_add: "(2 :: rat) powi (a + b) = 2 powi a * 2 powi b"
  by (simp add: power_int_add)

lemma bitlen_rat:
  assumes "0 < n"
  shows "2 powi (bitlen n - 1) \<le> rat_of_int n" "rat_of_int n < 2 powi bitlen n"
proof -
  from bitlen_bounds [OF assms] have
    b: "2 ^ nat (bitlen n - 1) \<le> n" "n < 2 ^ nat (bitlen n)" by auto
  from b(1) have "rat_of_int (2 ^ nat (bitlen n - 1)) \<le> of_int n" by (simp only: of_int_le_iff)
  moreover from b(2) have "rat_of_int n < of_int (2 ^ nat (bitlen n))" by (simp only: of_int_less_iff)
  moreover have "0 < bitlen n"
  proof (rule ccontr)
    assume "\<not> 0 < bitlen n"
    with b(2) have "n < 1" by simp
    with assms show False by simp
  qed
  ultimately show "2 powi (bitlen n - 1) \<le> rat_of_int n" "rat_of_int n < 2 powi bitlen n"
    by (simp_all add: power_int_def)
qed

lemma ilog2_bounds:
  assumes "0 < x"
  shows "2 powi ilog2 x \<le> x" "x < 2 powi (ilog2 x + 1)"
proof -
  obtain n d where q: "quotient_of x = (n, d)" by (cases "quotient_of x")
  have d: "0 < d" using quotient_of_denom_pos [OF q] .
  have x: "x = of_int n / of_int d" using quotient_of_div [OF q] .
  with assms d have n: "0 < n" by (simp add: zero_less_divide_iff)
  let ?k = "bitlen n - bitlen d"
  note bn = bitlen_rat [OF n] and bd = bitlen_rat [OF d]
  have d0: "0 < rat_of_int d" using d by simp
  have "2 powi (?k - 1) * rat_of_int d \<le> 2 powi (?k - 1) * 2 powi bitlen d"
    using bd(2) by (intro mult_left_mono) simp_all
  also have "\<dots> = 2 powi (bitlen n - 1)" by (simp flip: powi_add)
  also have "\<dots> \<le> of_int n" by (rule bn(1))
  finally have lo: "2 powi (?k - 1) \<le> x" using d0 by (simp add: x pos_le_divide_eq)
  have "rat_of_int n < 2 powi bitlen n" by (rule bn(2))
  also have "\<dots> = 2 powi (?k + 1) * 2 powi (bitlen d - 1)" by (simp flip: powi_add)
  also have "\<dots> \<le> 2 powi (?k + 1) * of_int d"
    using bd(1) by (intro mult_left_mono) simp_all
  finally have hi: "x < 2 powi (?k + 1)" using d0 by (simp add: x pos_divide_less_eq)
  have l: "ilog2 x = (if x < 2 powi ?k then ?k - 1 else ?k)" by (simp add: ilog2_def q)
  show "2 powi ilog2 x \<le> x" "x < 2 powi (ilog2 x + 1)"
    using lo hi by (simp_all add: l not_less)
qed

lemma round_half_even_error: "\<bar>of_int (round_half_even x) - x\<bar> \<le> 1 / 2"
  using floor_correct [of x]
  by (auto simp: round_half_even_def Let_def abs_le_iff)

lemma round_half_even_of_int [simp]: "round_half_even (of_int n) = n"
  by (simp add: round_half_even_def)

lemma round_half_even_minus: "round_half_even (- x) = - round_half_even x"
proof (cases "x = of_int \<lfloor>x\<rfloor>")
  case True
  then show ?thesis by (metis of_int_minus round_half_even_of_int)
next
  case False
  have f: "\<lfloor>- x\<rfloor> = - \<lfloor>x\<rfloor> - 1" using False by linarith
  have r: "- x - of_int (- \<lfloor>x\<rfloor> - 1) = 1 - (x - of_int \<lfloor>x\<rfloor>)" by simp
  show ?thesis unfolding round_half_even_def Let_def f r by auto
qed

lemma fl_minus: "fl p (- x) = - fl p x"
  by (simp add: fl_def Let_def round_half_even_minus)

lemma round_half_even_nonneg: "0 \<le> x \<Longrightarrow> 0 \<le> round_half_even x"
  by (auto simp: round_half_even_def Let_def)

lemma fl_0 [simp]: "fl p 0 = 0"
  by (simp add: fl_def)

lemma fl_error: "\<bar>fl p x - x\<bar> \<le> \<bar>x\<bar> / 2 ^ p"
proof (cases "x = 0")
  case False
  define e where "e = ilog2 \<bar>x\<bar> - (int p - 1)"
  define y where "y = x * 2 powi (- e)"
  have yx: "y * 2 powi e = x" by (simp add: y_def power_int_minus)
  have "fl p x = of_int (round_half_even y) * 2 powi e"
    using False by (simp add: fl_def e_def y_def Let_def)
  then have "\<bar>fl p x - x\<bar> = \<bar>of_int (round_half_even y) - y\<bar> * 2 powi e"
    by (simp add: yx [symmetric] abs_mult left_diff_distrib [symmetric])
  also have "\<dots> \<le> 1 / 2 * 2 powi e"
    by (intro mult_right_mono round_half_even_error) simp
  also have "\<dots> = 2 powi (ilog2 \<bar>x\<bar>) / 2 ^ p"
    by (simp add: e_def power_int_add power_int_diff)
  also have "\<dots> \<le> \<bar>x\<bar> / 2 ^ p"
    using ilog2_bounds(1) [of "\<bar>x\<bar>"] False by (simp add: divide_right_mono)
  finally show ?thesis .
qed simp

lemma fl_bounds:
  assumes "0 \<le> x"
  shows "x * (1 - 1 / 2 ^ p) \<le> fl p x" "fl p x \<le> x * (1 + 1 / 2 ^ p)"
  using fl_error [of p x] assms by (simp_all add: abs_le_iff algebra_simps)

lemma fl_nonneg: "0 \<le> x \<Longrightarrow> 0 \<le> fl p x"
  by (simp add: fl_def Let_def round_half_even_nonneg)

text \<open>An integer of at most \<open>p\<close> bits is a number of the format.\<close>

lemma fl_of_int:
  assumes "\<bar>n\<bar> < 2 ^ p"
  shows "fl p (of_int n) = of_int n"
proof (cases "n = 0")
  case False
  define e where "e = ilog2 \<bar>of_int n\<bar> - (int p - 1)"
  have "2 powi ilog2 \<bar>rat_of_int n\<bar> \<le> \<bar>rat_of_int n\<bar>" using False by (intro ilog2_bounds(1)) simp
  also have "\<dots> = of_int \<bar>n\<bar>" by simp
  also have "\<dots> < of_int (2 ^ p)" using assms by (simp only: of_int_less_iff)
  also have "\<dots> = 2 powi int p" by simp
  finally have lt: "(2 :: rat) powi ilog2 \<bar>rat_of_int n\<bar> < 2 powi int p" .
  have "ilog2 \<bar>rat_of_int n\<bar> < int p"
  proof (rule ccontr)
    assume "\<not> ilog2 \<bar>rat_of_int n\<bar> < int p"
    then have "(2 :: rat) powi int p \<le> 2 powi ilog2 \<bar>rat_of_int n\<bar>"
      by (intro power_int_increasing) simp_all
    with lt show False by simp
  qed
  then have "e \<le> 0" by (simp add: e_def)
  then have "rat_of_int n * 2 powi (- e) = of_int (n * 2 ^ nat (- e))" by (simp add: power_int_def)
  then have "fl p (of_int n) = of_int (n * 2 ^ nat (- e)) * 2 powi e"
    using False unfolding fl_def e_def [symmetric] Let_def by (simp only: round_half_even_of_int of_int_eq_0_iff if_False)
  also have "\<dots> = of_int n * (2 powi (- e) * 2 powi e)" using \<open>e \<le> 0\<close> by (simp add: power_int_def)
  also have "\<dots> = of_int n" by (simp add: power_int_minus)
  finally show ?thesis .
qed simp

lemma fl_num:
  assumes "LENGTH('a) \<le> p"
  shows "fl p (num (w :: 'a::len word)) = num w"
proof -
  have "unat w < 2 ^ LENGTH('a)" by (rule unsigned_less)
  also have "\<dots> \<le> 2 ^ p" using assms by (simp add: power_increasing)
  finally have "int (unat w) < int (2 ^ p)" by (simp only: of_nat_less_iff)
  then have "\<bar>int (unat w)\<bar> < 2 ^ p" by simp
  then have "fl p (of_int (int (unat w))) = of_int (int (unat w))" by (rule fl_of_int)
  then show ?thesis by (simp only: num_def of_int_of_nat_eq)
qed

lemma num_nonneg [simp]: "0 \<le> num w"
  by (simp add: num_def del: of_nat_unat)

text \<open>Rounding does not cross an integer of the format.\<close>

lemma round_half_even_le: "x \<le> of_int n \<Longrightarrow> round_half_even x \<le> n"
proof (rule ccontr)
  assume x: "x \<le> of_int n" and "\<not> round_half_even x \<le> n"
  then have n: "n + 1 \<le> round_half_even x" by simp
  then have "rat_of_int (n + 1) \<le> of_int (round_half_even x)" by (simp only: of_int_le_iff)
  with round_half_even_error [of x] x have "x + 1 / 2 \<ge> of_int (n + 1)" by (simp add: abs_le_iff)
  with x show False by simp
qed

lemma fl_le_of_int:
  assumes "0 \<le> x" "x \<le> of_int n" "n < 2 ^ p"
  shows "fl p x \<le> of_int n"
proof (cases "x = 0")
  case True
  with assms show ?thesis by simp
next
  case False
  with assms(1) have x: "0 < x" by simp
  define e where "e = ilog2 x - (int p - 1)"
  have fx: "fl p x = of_int (round_half_even (x * 2 powi (- e))) * 2 powi e"
    using x by (simp add: fl_def e_def Let_def)
  have "rat_of_int n < of_int (2 ^ p)" using assms(3) by (simp only: of_int_less_iff)
  also have "\<dots> = 2 powi int p" by simp
  finally have "x < 2 powi int p" using assms(2) by (rule order.strict_trans1 [rotated])
  with ilog2_bounds(1) [OF x] have lt: "(2 :: rat) powi ilog2 x < 2 powi int p" by (rule order.strict_trans1)
  have "ilog2 x < int p"
  proof (rule ccontr)
    assume "\<not> ilog2 x < int p"
    then have "(2 :: rat) powi int p \<le> 2 powi ilog2 x" by (intro power_int_increasing) simp_all
    with lt show False by simp
  qed
  then have e: "e \<le> 0" by (simp add: e_def)
  have "x * 2 powi (- e) \<le> of_int n * 2 powi (- e)" using assms(2) by (intro mult_right_mono) simp_all
  also have "\<dots> = of_int (n * 2 ^ nat (- e))" using e by (simp add: power_int_def)
  finally have "round_half_even (x * 2 powi (- e)) \<le> n * 2 ^ nat (- e)" by (rule round_half_even_le)
  then have "of_int (round_half_even (x * 2 powi (- e))) * 2 powi e
      \<le> rat_of_int (n * 2 ^ nat (- e)) * 2 powi e"
    by (intro mult_right_mono) (simp_all only: of_int_le_iff, simp_all)
  also have "\<dots> = of_int n * (2 powi (- e) * 2 powi e)" using e by (simp add: power_int_def)
  also have "\<dots> = of_int n" by (simp add: power_int_minus)
  finally show ?thesis by (simp only: fx)
qed

text \<open>A rounded number is a multiple of a power of two.\<close>

lemma fl_grid:
  assumes "2 powi (int p - 1 - int k) \<le> x" "0 < x"
  shows "\<exists>b. fl p x * 2 ^ k = of_int b"
proof -
  define e where "e = ilog2 x - (int p - 1)"
  have "2 powi (int p - 1 - int k) < (2 :: rat) powi (ilog2 x + 1)"
    using assms(1) ilog2_bounds(2) [OF assms(2)] by (rule order.strict_trans1)
  have "int p - 1 - int k < ilog2 x + 1"
  proof (rule ccontr)
    assume "\<not> int p - 1 - int k < ilog2 x + 1"
    then have "(2 :: rat) powi (ilog2 x + 1) \<le> 2 powi (int p - 1 - int k)"
      by (intro power_int_increasing) simp_all
    with \<open>2 powi (int p - 1 - int k) < (2 :: rat) powi (ilog2 x + 1)\<close> show False by simp
  qed
  then have e: "0 \<le> e + int k" by (simp add: e_def)
  have "fl p x * 2 ^ k = of_int (round_half_even (x * 2 powi (- e))) * (2 powi e * 2 powi int k)"
    using assms(2) by (simp add: fl_def e_def Let_def)
  also have "2 powi e * 2 powi int k = (2 :: rat) powi (e + int k)"
    by (simp only: powi_add)
  also have "\<dots> = 2 ^ nat (e + int k)" using e by (simp only: power_int_def if_True)
  finally have "fl p x * 2 ^ k = of_int (round_half_even (x * 2 powi (- e)) * 2 ^ nat (e + int k))"
    by simp
  then show ?thesis by blast
qed

lemma unat_cceil:
  assumes "0 \<le> x" "\<lceil>x\<rceil> < 2 ^ LENGTH('a)"
  shows "unat (cceil x :: 'a::len word) = nat \<lceil>x\<rceil>"
proof -
  have "0 \<le> \<lceil>x\<rceil>" using assms(1) by (simp add: le_ceiling_iff)
  with assms(2) show ?thesis by (simp add: cceil_def trunc_def unsigned_of_int take_bit_int_eq_self)
qed

lemma unat_cfloor:
  assumes "0 \<le> x" "x < 2 ^ LENGTH('a)"
  shows "unat (cfloor x :: 'a::len word) = nat \<lfloor>x\<rfloor>"
proof -
  have "0 \<le> \<lfloor>x\<rfloor>" "\<lfloor>x\<rfloor> < 2 ^ LENGTH('a)" using assms by (simp_all add: floor_less_iff)
  then show ?thesis by (simp add: cfloor_def trunc_def unsigned_of_int take_bit_int_eq_self)
qed

end
