(* ===== verification/Dvb_Frame.thy ===== *)
theory Dvb_Frame
  imports Net_Packet Floating
begin

unbundle bit_operations_syntax

text \<open>
  DVB frames (\<^verbatim>\<open>opensand-core/src/dvb/utils/DvbFrame.h\<close>, \<^verbatim>\<open>DvbRcsFrame.cpp\<close>,
  \<^verbatim>\<open>BBFrame.cpp\<close>, \<^verbatim>\<open>SlottedAlohaFrame.cpp\<close>, the headers of
  \<^verbatim>\<open>OpenSandFrames.h\<close>): a container whose first bytes are a C structure.  The header fields
  are read and written in the bytes, at the offsets of the packed structures: the message length
  at 0, the message type and the corruption bit in byte 2, and in the three burst frames the
  number of packets at 3 and (but for Slotted Aloha) the MODCOD at 5.
\<close>

section \<open>Message types\<close>

definition MSG_Error :: u8 where "MSG_Error = 0"
definition MSG_Sof :: u8 where "MSG_Sof = 1"
definition MSG_Sac :: u8 where "MSG_Sac = 10"
definition MSG_DvbBurst :: u8 where "MSG_DvbBurst = 12"
definition MSG_BbFrame :: u8 where "MSG_BbFrame = 13"
definition MSG_SalohaData :: u8 where "MSG_SalohaData = 14"
definition MSG_SalohaCtrl :: u8 where "MSG_SalohaCtrl = 15"
definition MSG_Ttp :: u8 where "MSG_Ttp = 21"
definition MSG_SessionLogonReq :: u8 where "MSG_SessionLogonReq = 50"
definition MSG_SessionLogoff :: u8 where "MSG_SessionLogoff = 51"
definition MSG_SessionLogonResp :: u8 where "MSG_SessionLogonResp = 52"

lemmas msg_types = MSG_Error_def MSG_Sof_def MSG_Sac_def MSG_DvbBurst_def MSG_BbFrame_def
  MSG_SalohaData_def MSG_SalohaCtrl_def MSG_Ttp_def MSG_SessionLogonReq_def
  MSG_SessionLogoff_def MSG_SessionLogonResp_def

definition is_attenuated_frame :: "u8 \<Rightarrow> bool" where
  "is_attenuated_frame t \<longleftrightarrow>
     t = MSG_BbFrame \<or> t = MSG_DvbBurst \<or> t = MSG_SalohaData \<or> t = MSG_SalohaCtrl \<or>
     t = MSG_Sac \<or> t = MSG_Ttp"

definition is_delayed_frame :: "u8 \<Rightarrow> bool" where
  "is_delayed_frame t \<longleftrightarrow> t \<noteq> MSG_Sof"

definition is_cn_capable_frame :: "u8 \<Rightarrow> bool" where
  "is_cn_capable_frame t \<longleftrightarrow> t \<noteq> MSG_Sof"

section \<open>The frame template\<close>

record dvb_frame = net_container +
  max_size :: nat
  num_packets :: u16
  frame_carrier_id :: u8

definition get_message_length :: "'a dvb_frame_scheme \<Rightarrow> u16" where
  "get_message_length f = ntohs (read16 (cont_data f) 0)"

definition set_message_length :: "u16 \<Rightarrow> 'a dvb_frame_scheme \<Rightarrow> 'a dvb_frame_scheme" where
  "set_message_length n f = f\<lparr>cont_data := write16 (cont_data f) 0 (htons n)\<rparr>"

definition get_message_type :: "'a dvb_frame_scheme \<Rightarrow> u8" where
  "get_message_type f = read8 (cont_data f) 2 AND mask 7"

definition set_message_type :: "u8 \<Rightarrow> 'a dvb_frame_scheme \<Rightarrow> 'a dvb_frame_scheme" where
  "set_message_type t f =
     f\<lparr>cont_data := write8 (cont_data f) 2
        ((t AND mask 7) OR (read8 (cont_data f) 2 AND NOT (mask 7)))\<rparr>"

definition is_corrupted :: "'a dvb_frame_scheme \<Rightarrow> bool" where
  "is_corrupted f \<longleftrightarrow> bit (read8 (cont_data f) 2) 7"

definition set_corrupted :: "bool \<Rightarrow> 'a dvb_frame_scheme \<Rightarrow> 'a dvb_frame_scheme" where
  "set_corrupted c f =
     f\<lparr>cont_data := write8 (cont_data f) 2
        (if c then set_bit 7 (read8 (cont_data f) 2) else unset_bit 7 (read8 (cont_data f) 2))\<rparr>"

definition set_max_frame_size :: "nat \<Rightarrow> 'a dvb_frame_scheme \<Rightarrow> 'a dvb_frame_scheme" where
  "set_max_frame_size n f = f\<lparr>max_size := n\<rparr>"

definition get_free_space :: "'a dvb_frame_scheme \<Rightarrow> nat" where
  "get_free_space f = nat ((int (max_size f) - int (get_total_length f)) mod 2 ^ 64)"

text \<open>An empty frame with a header of \<open>n\<close> bytes, and a frame made from received bytes (the
  message length is read to find the trailer, so they must hold it).\<close>

definition empty_frame :: "nat \<Rightarrow> dvb_frame" where
  "empty_frame n = net_container.extend
     ((new_container (replicate n 0))\<lparr>cont_name := ''DvbFrame'', header_length := n\<rparr>)
     \<lparr>max_size = n, num_packets = 0, frame_carrier_id = 0\<rparr>"

definition received_frame :: "nat \<Rightarrow> bytes \<Rightarrow> dvb_frame option" where
  "received_frame n d =
     (if length d < 2 then None
      else
        (let f = net_container.extend (new_container d)
               \<lparr>max_size = n, num_packets = 0, frame_carrier_id = 0\<rparr>
         in Some (f\<lparr>cont_name := ''DvbFrame'', header_length := n,
              trailer_length :=
                nat ((int (length d) - int (unat (get_message_length f))) mod 2 ^ 64)\<rparr>)))"

definition add_packet :: "'a dvb_frame_scheme \<Rightarrow> bytes \<Rightarrow> 'a dvb_frame_scheme \<times> bool" where
  "add_packet f pkt =
     (if length pkt > get_free_space f then (f, False)
      else (f\<lparr>cont_data := cont_data f @ pkt, num_packets := num_packets f + 1\<rparr>, True))"

section \<open>Signal to noise ratio carried by a frame\<close>

text \<open>The ratio is carried with two decimals, as a 16-bit integer widened to 32 bits.  The product by
  100 and the division by 100 are those of \<^verbatim>\<open>double\<close>; \<^verbatim>\<open>std::round\<close> takes halves away
  from zero, and a number that 16 bits cannot hold is undefined.\<close>

definition cround :: "rat \<Rightarrow> int" where
  "cround x = (if 0 \<le> x then \<lfloor>x + 1 / 2\<rfloor> else - \<lfloor>- x + 1 / 2\<rfloor>)"

definition hcnton :: "rat \<Rightarrow> u32 option" where
  "hcnton cn =
     (let r = cround (fl64 (cn * 100))
      in if - (2 ^ 15) \<le> r \<and> r < 2 ^ 15 then Some (htonl (word_of_int r)) else None)"

definition ncntoh :: "u32 \<Rightarrow> rat" where
  "ncntoh cn = fl64 (of_int (sint (ucast (ntohl cn) :: u16)) / 100)"

definition get_cn :: "'a dvb_frame_scheme \<Rightarrow> rat option" where
  "get_cn f = do {
     phy \<leftarrow> get_data_from f (unat (get_message_length f));
     if length phy < 4 then None else Some (ncntoh (read32 phy 0)) }"

text \<open>The trailer is appended once and replaced after that; the replacement writes
  \<open>trailer_length\<close> bytes of the 4-byte structure.\<close>

definition set_cn :: "rat \<Rightarrow> 'a dvb_frame_scheme \<Rightarrow> 'a dvb_frame_scheme option" where
  "set_cn cn f = do {
     w \<leftarrow> hcnton cn;
     if trailer_length f = 0
     then Some (f\<lparr>cont_data := cont_data f @ bytes32 w, trailer_length := 4\<rparr>)
     else
       (let n = unat (get_message_length f)
        in if n \<le> length (cont_data f) \<and> trailer_length f \<le> 4
           then Some (f\<lparr>cont_data := take n (cont_data f) @ take (trailer_length f) (bytes32 w) @
                          drop (n + trailer_length f) (cont_data f)\<rparr>)
           else None) }"

section \<open>Bursts: DVB-RCS frames, BB frames and Slotted Aloha frames\<close>

definition MSG_DVB_RCS_SIZE_MAX :: nat where "MSG_DVB_RCS_SIZE_MAX = 1200 + 4"
definition MSG_BBFRAME_SIZE_MAX :: nat where "MSG_BBFRAME_SIZE_MAX = 8100 + 4"
definition MSG_SALOHA_SIZE_MAX :: nat where "MSG_SALOHA_SIZE_MAX = 1200 + 4"

definition set_count :: "u16 \<Rightarrow> 'a dvb_frame_scheme \<Rightarrow> 'a dvb_frame_scheme" where
  "set_count w f = f\<lparr>cont_data := write16 (cont_data f) 3 w\<rparr>"

definition new_rcs_frame :: dvb_frame where
  "new_rcs_frame =
     set_count 0 (set_message_type MSG_DvbBurst (set_message_length 6
       (set_max_frame_size MSG_DVB_RCS_SIZE_MAX (set_max_frame_size MSG_BBFRAME_SIZE_MAX
         ((empty_frame 6)\<lparr>cont_name := ''DVB-RCS frame''\<rparr>)))))"

text \<open>A received DVB-RCS frame counts its packets with \<^verbatim>\<open>ntohl\<close>, the 32-bit swap, applied to
  the 16-bit field.\<close>

definition received_rcs_frame :: "bytes \<Rightarrow> dvb_frame option" where
  "received_rcs_frame d = do {
     f \<leftarrow> received_frame 6 d;
     if length d < 5 then None
     else Some (set_max_frame_size MSG_BBFRAME_SIZE_MAX f
       \<lparr>cont_name := ''DVB-RCS frame'',
        num_packets := ucast (ntohl (ucast (read16 d 3) :: u32))\<rparr>) }"

definition rcs_add_packet :: "dvb_frame \<Rightarrow> bytes \<Rightarrow> dvb_frame \<times> bool" where
  "rcs_add_packet f pkt =
     (let (g, ok) = add_packet f pkt in
      if \<not> ok then (g, False)
      else (set_count (htons (num_packets g))
             (set_message_length (get_message_length g + of_nat (length pkt)) g), True))"

definition rcs_empty :: "dvb_frame \<Rightarrow> dvb_frame" where
  "rcs_empty f =
     set_count 0 (set_message_length 6 (f\<lparr>cont_data := take 6 (cont_data f), num_packets := 0\<rparr>))"

definition rcs_num_packets :: "dvb_frame \<Rightarrow> u16" where
  "rcs_num_packets f = ntohs (read16 (cont_data f) 3)"

definition set_modcod_id :: "u8 \<Rightarrow> dvb_frame \<Rightarrow> dvb_frame" where
  "set_modcod_id m f = f\<lparr>cont_data := write8 (cont_data f) 5 m\<rparr>"

definition get_modcod_id :: "dvb_frame \<Rightarrow> u8" where
  "get_modcod_id f = read8 (cont_data f) 5"

definition new_bb_frame :: dvb_frame where
  "new_bb_frame =
     set_modcod_id 0 (set_count 0 (set_message_type MSG_BbFrame (set_message_length 6
       (set_max_frame_size MSG_BBFRAME_SIZE_MAX ((empty_frame 6)\<lparr>cont_name := ''BB frame''\<rparr>)))))"

definition bb_data_length :: "dvb_frame \<Rightarrow> u16" where
  "bb_data_length f = ntohs (read16 (cont_data f) 3)"

definition received_bb_frame :: "bytes \<Rightarrow> dvb_frame option" where
  "received_bb_frame d = do {
     f \<leftarrow> received_frame 6 d;
     if length d < 5 then None
     else Some (set_max_frame_size MSG_BBFRAME_SIZE_MAX f
       \<lparr>cont_name := ''BB frame'', num_packets := bb_data_length f, header_length := 6\<rparr>) }"

definition bb_add_packet :: "dvb_frame \<Rightarrow> bytes \<Rightarrow> dvb_frame \<times> bool" where
  "bb_add_packet f pkt =
     (let (g, ok) = add_packet f pkt in
      (if ok then set_count (htons (num_packets g))
                   (set_message_length (get_message_length g + of_nat (length pkt)) g)
       else g, ok))"

definition bb_empty :: "dvb_frame \<Rightarrow> dvb_frame" where
  "bb_empty f =
     set_modcod_id 0 (set_count 0 (set_message_length 6
       (f\<lparr>cont_data := take 6 (cont_data f), num_packets := 0\<rparr>)))"

definition new_saloha_frame :: "u8 \<Rightarrow> dvb_frame" where
  \<comment> \<open>the type is set by the constructors of the data and control frames\<close>
  "new_saloha_frame t =
     set_message_type t (set_count 0 (set_message_length 5
       (set_max_frame_size MSG_SALOHA_SIZE_MAX
         ((empty_frame 5)\<lparr>cont_name := ''Slotted Aloha frame''\<rparr>))))"

definition received_saloha_frame :: "bytes \<Rightarrow> dvb_frame option" where
  "received_saloha_frame d = do {
     f \<leftarrow> received_frame 5 d;
     if length d < 5 then None
     else Some (set_max_frame_size MSG_SALOHA_SIZE_MAX f
       \<lparr>cont_name := ''Slotted Aloha frame'', num_packets := ntohs (read16 d 3)\<rparr>) }"

definition saloha_add_packet :: "dvb_frame \<Rightarrow> bytes \<Rightarrow> dvb_frame \<times> bool" where
  "saloha_add_packet f pkt =
     (let (g, ok) = add_packet f pkt in
      (if ok then set_count (htons (num_packets g))
                   (set_message_length (get_message_length g + of_nat (length pkt)) g)
       else g, ok))"

definition saloha_empty :: "dvb_frame \<Rightarrow> dvb_frame" where
  "saloha_empty f =
     set_count 0 (set_message_length 5 (f\<lparr>cont_data := take 5 (cont_data f), num_packets := 0\<rparr>))"

definition saloha_data_length :: "dvb_frame \<Rightarrow> u16" where
  "saloha_data_length f = ntohs (read16 (cont_data f) 3)"

section \<open>Header fields do not disturb each other\<close>

lemma drop_write_at: "k + length bs \<le> n \<Longrightarrow> n \<le> length d \<Longrightarrow> drop n (write_at d k bs) = drop n d"
  by (simp add: write_at_def)

lemma header_updates [simp]:
  "max_size (set_message_length n f) = max_size f"
  "num_packets (set_message_length n f) = num_packets f"
  "trailer_length (set_message_length n f) = trailer_length f"
  "max_size (set_count w f) = max_size f"
  "num_packets (set_count w f) = num_packets f"
  "trailer_length (set_count w f) = trailer_length f"
  "cont_data (set_max_frame_size m f) = cont_data f"
  "max_size (set_max_frame_size m f) = m"
  by (simp_all add: set_message_length_def set_count_def set_max_frame_size_def)

lemma length_header_updates [simp]:
  "2 \<le> length (cont_data f) \<Longrightarrow> length (cont_data (set_message_length n f)) = length (cont_data f)"
  "5 \<le> length (cont_data f) \<Longrightarrow> length (cont_data (set_count w f)) = length (cont_data f)"
  by (simp_all add: set_message_length_def set_count_def)

lemma get_set_message_length:
  "2 \<le> length (cont_data f) \<Longrightarrow> get_message_length (set_message_length n f) = n"
  by (simp add: get_message_length_def set_message_length_def field_simps_rw)

lemma type_bits:
  "((t AND mask 7) OR (b AND NOT (mask 7))) AND mask 7 = t AND (mask 7 :: u8)"
  "bit ((t AND mask 7) OR (b AND NOT (mask 7)) :: u8) 7 \<longleftrightarrow> bit b 7"
  by (rule bit_word_eqI) (auto simp: bit_simps)

lemma corruption_bits:
  "bit (set_bit 7 (b :: u8)) 7" "\<not> bit (unset_bit 7 (b :: u8)) 7"
  "set_bit 7 b AND mask 7 = b AND (mask 7 :: u8)"
  "unset_bit 7 b AND mask 7 = b AND (mask 7 :: u8)"
proof -
  show "bit (set_bit 7 (b :: u8)) 7" "\<not> bit (unset_bit 7 (b :: u8)) 7"
    by (simp_all add: bit_simps)
  show "set_bit 7 b AND mask 7 = b AND (mask 7 :: u8)"
    by (rule bit_word_eqI) (auto simp: bit_simps)
  show "unset_bit 7 b AND mask 7 = b AND (mask 7 :: u8)"
    by (rule bit_word_eqI) (auto simp: bit_simps)
qed

text \<open>Type, corruption flag and length share three bytes without interference: each is read
  back as it was written (the type in its 7 bits), and writing one leaves the others alone.\<close>

theorem header_fields_independent:
  assumes "3 \<le> length (cont_data f)"
  shows "get_message_type (set_message_type t f) = t AND mask 7 \<and>
    is_corrupted (set_message_type t f) = is_corrupted f \<and>
    is_corrupted (set_corrupted c f) = c \<and>
    get_message_type (set_corrupted c f) = get_message_type f \<and>
    get_message_length (set_message_length n f) = n \<and>
    get_message_type (set_message_length n f) = get_message_type f \<and>
    get_message_length (set_corrupted c (set_message_type t f)) = get_message_length f"
proof -
  have w: "length (write8 (cont_data f) 2 b) = length (cont_data f)" for b
    using assms by simp
  show ?thesis
    using assms w
    by (simp add: get_message_type_def set_message_type_def is_corrupted_def set_corrupted_def
        get_message_length_def set_message_length_def field_simps_rw type_bits corruption_bits)
qed

theorem header_fields_independent_witness:
  "get_message_type (set_corrupted True (set_message_type MSG_BbFrame (empty_frame 6))) = 13"
proof -
  let ?f = "set_message_type MSG_BbFrame (empty_frame 6)"
  have "3 \<le> length (cont_data (empty_frame 6))" "3 \<le> length (cont_data ?f)"
    by (simp_all add: empty_frame_def new_container_def net_container.defs set_message_type_def)
  with header_fields_independent [of "empty_frame 6" MSG_BbFrame]
    header_fields_independent [of ?f _ True]
  show ?thesis by (simp add: MSG_BbFrame_def mask_eq_exp_minus_1)
qed

section \<open>The interface: frames that collect packets\<close>

fun add_all :: "('f \<Rightarrow> bytes \<Rightarrow> 'f \<times> bool) \<Rightarrow> 'f \<Rightarrow> bytes list \<Rightarrow> 'f \<times> bytes list" where
  "add_all add f [] = (f, [])"
| "add_all add f (p # ps) =
     (let (g, ok) = add f p; (h, acc) = add_all add g ps in (h, if ok then p # acc else acc))"

locale packet_frame =
  fixes add :: "'f \<Rightarrow> bytes \<Rightarrow> 'f \<times> bool"
    and payload :: "'f \<Rightarrow> bytes"
    and packets :: "'f \<Rightarrow> u16"
    and room :: "'f \<Rightarrow> nat"
    and wf :: "'f \<Rightarrow> bool"
  assumes add_fits: "wf f \<Longrightarrow> length p \<le> room f \<Longrightarrow>
      snd (add f p) \<and> wf (fst (add f p)) \<and> payload (fst (add f p)) = payload f @ p \<and>
      packets (fst (add f p)) = packets f + 1 \<and> room (fst (add f p)) = room f - length p"
    and add_full: "wf f \<Longrightarrow> room f < length p \<Longrightarrow> add f p = (f, False)"
begin

lemma add_all_collects:
  "wf f \<Longrightarrow> add_all add f ps = (g, acc) \<Longrightarrow>
   wf g \<and> payload g = payload f @ concat acc \<and> packets g = packets f + of_nat (length acc) \<and>
   room f = room g + length (concat acc)"
proof (induction ps arbitrary: f g acc)
  case Nil
  then show ?case by simp
next
  case (Cons p ps)
  obtain h ok where a: "add f p = (h, ok)" by (cases "add f p")
  obtain acc' where r: "add_all add h ps = (g, acc')" "acc = (if ok then p # acc' else acc')"
    using Cons.prems(2) a by (auto simp: Let_def split: prod.splits)
  show ?case
  proof (cases "length p \<le> room f")
    case True
    with add_fits [OF Cons.prems(1) this] a have "ok" "wf h" "payload h = payload f @ p"
      "packets h = packets f + 1" "room h = room f - length p" by auto
    with Cons.IH [OF \<open>wf h\<close> r(1)] r(2) True show ?thesis by auto
  next
    case False
    with add_full [OF Cons.prems(1)] a have "h = f" "\<not> ok" by (auto simp: not_le)
    with Cons.IH [OF _ r(1)] r(2) Cons.prems(1) show ?thesis by auto
  qed
qed

end

text \<open>The three burst frames are such frames.  \<open>burst_wf n f\<close>: the header of \<open>n\<close> bytes carries the
  length and the number of packets of the frame, which is within its maximum size.\<close>

definition burst_wf :: "nat \<Rightarrow> dvb_frame \<Rightarrow> bool" where
  "burst_wf n f \<longleftrightarrow>
     5 \<le> n \<and> n \<le> length (cont_data f) \<and> length (cont_data f) \<le> max_size f \<and>
     max_size f < 2 ^ 16 \<and> get_message_length f = of_nat (length (cont_data f)) \<and>
     ntohs (read16 (cont_data f) 3) = num_packets f"

definition burst_room :: "dvb_frame \<Rightarrow> nat" where
  "burst_room f = max_size f - length (cont_data f)"

lemma free_space_burst: "burst_wf n f \<Longrightarrow> get_free_space f = burst_room f"
  by (auto simp: get_free_space_def get_total_length_def burst_wf_def burst_room_def
      simp flip: of_nat_diff)

lemma add_functions_agree:
  "bb_add_packet f p = rcs_add_packet f p" "saloha_add_packet f p = rcs_add_packet f p"
  by (auto simp: bb_add_packet_def saloha_add_packet_def rcs_add_packet_def Let_def
      split: prod.split)

lemma rcs_add_full: "burst_wf n f \<Longrightarrow> burst_room f < length p \<Longrightarrow> rcs_add_packet f p = (f, False)"
  by (simp add: rcs_add_packet_def add_packet_def free_space_burst)

lemma rcs_add_fits:
  assumes wf: "burst_wf n f" and fit: "length p \<le> burst_room f"
  shows "snd (rcs_add_packet f p) \<and> burst_wf n (fst (rcs_add_packet f p)) \<and>
    drop n (cont_data (fst (rcs_add_packet f p))) = drop n (cont_data f) @ p \<and>
    num_packets (fst (rcs_add_packet f p)) = num_packets f + 1 \<and>
    burst_room (fst (rcs_add_packet f p)) = burst_room f - length p"
proof -
  let ?d = "cont_data f"
  from wf have n: "5 \<le> n" "n \<le> length ?d" "length ?d \<le> max_size f" "max_size f < 2 ^ 16"
    "get_message_length f = of_nat (length ?d)" by (auto simp: burst_wf_def)
  have ml: "ntohs (read16 (?d @ p) 0) = of_nat (length ?d)"
    using n(1,2,5) by (simp add: get_message_length_def read16_append)
  define d1 where "d1 = write16 (?d @ p) 0 (htons (of_nat (length ?d) + of_nat (length p)))"
  define d2 where "d2 = write16 d1 3 (htons (num_packets f + 1))"
  have len: "length d1 = length ?d + length p" "length d2 = length ?d + length p"
    using n(1,2) by (simp_all add: d1_def d2_def)
  have eq: "rcs_add_packet f p = (f\<lparr>cont_data := d2, num_packets := num_packets f + 1\<rparr>, True)"
    using fit wf ml
    by (simp add: rcs_add_packet_def add_packet_def free_space_burst set_message_length_def
        set_count_def get_message_length_def d1_def d2_def)
  have "drop n d2 = drop n (?d @ p)"
    using n(1,2) len by (simp add: d2_def d1_def drop_write_at)
  moreover have "read16 d2 3 = htons (num_packets f + 1)"
    unfolding d2_def using n(1,2) len by (intro read16_write16_same) simp
  moreover have "read16 d2 0 = read16 d1 0"
    unfolding d2_def using n(1,2) len by (intro read16_write_at_other) simp_all
  moreover have "read16 d1 0 = htons (of_nat (length ?d) + of_nat (length p))"
    unfolding d1_def using n(1,2) by (intro read16_write16_same) simp
  ultimately show ?thesis
    using n fit len by (simp add: eq burst_wf_def burst_room_def get_message_length_def)
qed

interpretation rcs_burst: packet_frame rcs_add_packet "\<lambda>f. drop 6 (cont_data f)" num_packets
  burst_room "burst_wf 6"
  by unfold_locales (use rcs_add_fits [of 6] rcs_add_full [of 6] in auto)

interpretation bb_burst: packet_frame bb_add_packet "\<lambda>f. drop 6 (cont_data f)" num_packets
  burst_room "burst_wf 6"
  unfolding add_functions_agree(1) [abs_def] by (rule rcs_burst.packet_frame_axioms)

interpretation saloha_burst: packet_frame saloha_add_packet "\<lambda>f. drop 5 (cont_data f)" num_packets
  burst_room "burst_wf 5"
  unfolding add_functions_agree(2) [abs_def]
  by unfold_locales (use rcs_add_fits [of 5] rcs_add_full [of 5] in auto)

lemmas frame_defs = set_count_def set_message_type_def set_message_length_def
  set_max_frame_size_def set_modcod_id_def empty_frame_def new_container_def net_container.defs
  MSG_DVB_RCS_SIZE_MAX_def MSG_BBFRAME_SIZE_MAX_def MSG_SALOHA_SIZE_MAX_def


lemma new_rcs_frame_wf: "burst_wf 6 new_rcs_frame"
  by (simp add: burst_wf_def new_rcs_frame_def frame_defs get_message_length_def field_simps_rw
      read16_write_at_other bswap16_def)

lemma new_bb_frame_wf: "burst_wf 6 new_bb_frame"
  by (simp add: burst_wf_def new_bb_frame_def frame_defs get_message_length_def field_simps_rw
      read16_write_at_other bswap16_def)

lemma new_frames_empty:
  "drop 6 (cont_data new_rcs_frame) = []" "num_packets new_rcs_frame = 0"
  "burst_room new_rcs_frame + 6 = MSG_DVB_RCS_SIZE_MAX"
  "drop 6 (cont_data new_bb_frame) = []" "num_packets new_bb_frame = 0"
  "burst_room new_bb_frame + 6 = MSG_BBFRAME_SIZE_MAX"
  by (simp_all add: new_rcs_frame_def new_bb_frame_def frame_defs burst_room_def)

lemma burst_total:
  assumes "burst_wf n f"
  shows "unat (get_message_length f) = length (cont_data f)"
proof -
  from assms have "length (cont_data f) < 2 ^ 16"
    "get_message_length f = of_nat (length (cont_data f))" by (auto simp: burst_wf_def)
  then show ?thesis by (simp add: unat_of_nat take_bit_nat_eq_self)
qed

lemma length_split_at: "n \<le> length d \<Longrightarrow> length d = n + length (drop n d)"
  by simp

text \<open>A DVB-RCS frame collects packets: after any attempts to add packets to a new frame, its
  payload is the concatenation of the accepted packets, its header gives their number (modulo
  2^16) and the exact length of the frame, and the frame never exceeds its maximum size.\<close>

theorem rcs_frame_collects:
  assumes "add_all rcs_add_packet new_rcs_frame pkts = (f, accepted)"
  shows "drop 6 (cont_data f) = concat accepted \<and>
    rcs_num_packets f = of_nat (length accepted) \<and>
    unat (get_message_length f) = 6 + length (concat accepted) \<and>
    length (cont_data f) \<le> MSG_DVB_RCS_SIZE_MAX"
proof -
  from rcs_burst.add_all_collects [OF new_rcs_frame_wf assms] have
    wf: "burst_wf 6 f" and p: "drop 6 (cont_data f) = concat accepted"
    and n: "num_packets f = of_nat (length accepted)"
    and r: "burst_room new_rcs_frame = burst_room f + length (concat accepted)"
    by (simp_all add: new_frames_empty)
  have "length (cont_data f) = 6 + length (concat accepted)"
    using wf length_split_at [of 6 "cont_data f"] by (simp add: burst_wf_def p)
  with burst_total [OF wf] wf n p r new_frames_empty(3) show ?thesis
    by (auto simp: rcs_num_packets_def burst_wf_def)
qed

theorem rcs_frame_collects_witness:
  "\<exists>f. add_all rcs_add_packet new_rcs_frame [[1, 2, 3], [4]] = (f, [[1, 2, 3], [4]]) \<and>
     drop 6 (cont_data f) = [1, 2, 3, 4]"
proof -
  obtain f acc where r: "add_all rcs_add_packet new_rcs_frame [[1, 2, 3], [4]] = (f, acc)"
    by (cases "add_all rcs_add_packet new_rcs_frame [[1, 2, 3], [4]]")
  have room: "3 \<le> burst_room new_rcs_frame" "4 \<le> burst_room new_rcs_frame"
    using new_frames_empty(3) by (simp_all add: MSG_DVB_RCS_SIZE_MAX_def)
  obtain g where g: "rcs_add_packet new_rcs_frame [1, 2, 3] = (g, True)" "burst_wf 6 g"
    "burst_room g = burst_room new_rcs_frame - 3"
    using rcs_add_fits [OF new_rcs_frame_wf, of "[1, 2, 3]"] room by (auto simp: prod_eq_iff)
  obtain h where "rcs_add_packet g [4] = (h, True)"
    using rcs_add_fits [OF g(2), of "[4]"] room g(3) by (auto simp: prod_eq_iff)
  with g r have "acc = [[1, 2, 3], [4]]" by (auto simp: Let_def)
  with rcs_frame_collects [OF r] r show ?thesis by auto
qed

text \<open>A BB frame that collected packets and is read back from its bytes by the receiver has the
  same payload and counts the same number of packets.\<close>

theorem bb_frame_received:
  assumes "add_all bb_add_packet new_bb_frame pkts = (f, accepted)"
  shows "\<exists>g. received_bb_frame (cont_data f) = Some g \<and>
    num_packets g = of_nat (length accepted) \<and>
    get_payload g = Some (concat accepted)"
proof -
  from bb_burst.add_all_collects [OF new_bb_frame_wf assms] have
    wf: "burst_wf 6 f" and p: "drop 6 (cont_data f) = concat accepted"
    and n: "num_packets f = of_nat (length accepted)"
    by (simp_all add: new_frames_empty)
  from wf have len: "6 \<le> length (cont_data f)" "length (cont_data f) < 2 ^ 16"
    "ntohs (read16 (cont_data f) 3) = num_packets f" by (auto simp: burst_wf_def)
  from arg_cong [OF burst_total [OF wf], of int] have
    "uint (ntohs (read16 (cont_data f) 0)) = int (length (cont_data f))"
    by (simp add: get_message_length_def)
  moreover have "length (concat accepted) = length (cont_data f) - 6"
    using arg_cong [OF p, of length] by simp
  ultimately show ?thesis using len
    by (simp add: received_bb_frame_def received_frame_def get_message_length_def
        net_container.defs new_container_def bb_data_length_def n set_max_frame_size_def
        get_payload_split p)
qed

theorem bb_frame_received_witness:
  "\<exists>f g. add_all bb_add_packet new_bb_frame [] = (f, []) \<and> received_bb_frame (cont_data f) = Some g \<and>
     get_payload g = Some []"
  using bb_frame_received [of "[]" new_bb_frame "[]"] by auto

text \<open>A DVB-RCS frame read back from its bytes forgets how many packets it holds: the 32-bit
  swap of a 16-bit count has an empty low half, so the packet count of a received frame is always
  0, whatever its header says.\<close>

theorem received_rcs_frame_count:
  assumes "received_rcs_frame d = Some g"
  shows "num_packets g = 0 \<and> rcs_num_packets g = ntohs (read16 d 3)"
  using assms
  by (auto simp: received_rcs_frame_def received_frame_def rcs_num_packets_def
      set_max_frame_size_def new_container_def net_container.defs Let_def split: if_splits)

theorem received_rcs_frame_count_witness:
  "\<exists>g. received_rcs_frame (cont_data (fst (rcs_add_packet new_rcs_frame [9]))) = Some g \<and>
     num_packets g = 0 \<and> rcs_num_packets g = 1"
proof -
  let ?f = "fst (rcs_add_packet new_rcs_frame [9])"
  have "1 \<le> burst_room new_rcs_frame" using new_frames_empty(3) by (simp add: MSG_DVB_RCS_SIZE_MAX_def)
  then have f: "burst_wf 6 ?f" "num_packets ?f = 1"
    using rcs_add_fits [OF new_rcs_frame_wf, of "[9]"] by (simp_all add: new_frames_empty(2))
  then have "6 \<le> length (cont_data ?f)" "ntohs (read16 (cont_data ?f) 3) = 1"
    by (auto simp: burst_wf_def)
  moreover from this(1) obtain g where g: "received_rcs_frame (cont_data ?f) = Some g"
    by (auto simp: received_rcs_frame_def received_frame_def Let_def)
  ultimately show ?thesis using received_rcs_frame_count [OF g] by auto
qed

section \<open>The carried signal to noise ratio\<close>

text \<open>What is read of a ratio that was sent: the \<^verbatim>\<open>double\<close> nearest to a number of hundredths.\<close>

definition cn_on_wire :: "rat \<Rightarrow> rat" where
  "cn_on_wire cn = fl64 (of_int (cround (fl64 (cn * 100))) / 100)"

lemma ncntoh_hcnton: "hcnton cn = Some w \<Longrightarrow> ncntoh w = cn_on_wire cn"
  by (auto simp: hcnton_def ncntoh_def cn_on_wire_def Let_def unsigned_of_int signed_of_int
      signed_take_bit_take_bit signed_take_bit_int_eq_self split: if_splits)

lemma cround_error: "\<bar>of_int (cround x) - x\<bar> \<le> 1 / 2"
  using floor_correct [of "x + 1 / 2"] floor_correct [of "- x + 1 / 2"]
  by (cases "0 \<le> x") (simp_all only: cround_def if_True if_False abs_le_iff of_int_minus, linarith+)

lemma add_errors:
  fixes r y z w :: rat
  assumes "\<bar>r - y\<bar> \<le> e1" "\<bar>y - z * 100\<bar> \<le> e2" "\<bar>w - r / 100\<bar> \<le> e3"
  shows "\<bar>w - z\<bar> \<le> e1 / 100 + e2 / 100 + e3"
  using assms by linarith

lemma cn_on_wire_close:
  assumes "hcnton cn = Some w"
  shows "\<bar>cn_on_wire cn - cn\<bar> \<le> 1 / 200 + 1 / 2 ^ 40"
proof -
  define y where "y = fl64 (cn * 100)"
  define r where "r = cround y"
  from assms have "- (2 ^ 15) \<le> r" "r < 2 ^ 15"
    by (auto simp: hcnton_def Let_def r_def y_def split: if_splits)
  then have "rat_of_int (- (2 ^ 15)) \<le> of_int r" "rat_of_int r \<le> of_int (2 ^ 15)"
    by (simp_all only: of_int_le_iff)
  then have r: "\<bar>rat_of_int r\<bar> \<le> 2 ^ 15" by (simp add: abs_le_iff)
  have ry: "\<bar>of_int r - y\<bar> \<le> 1 / 2" unfolding r_def by (rule cround_error)
  have yc: "\<bar>y - cn * 100\<bar> \<le> \<bar>cn * 100\<bar> / 2 ^ 53" unfolding y_def by (rule fl_error)
  have "\<bar>y\<bar> \<le> 2 ^ 15 + 1 / 2" using r ry by linarith
  moreover have "\<bar>cn * 100\<bar> \<le> \<bar>y\<bar> + \<bar>y - cn * 100\<bar>" by linarith
  ultimately have z: "\<bar>cn * 100\<bar> \<le> 2 ^ 15 + 1 / 2 + \<bar>cn * 100\<bar> / 2 ^ 53" using yc by linarith
  have small: "a \<le> 2 ^ 15 + 1 / 2 + a / 2 ^ 53 \<Longrightarrow> a \<le> 2 ^ 16" for a :: rat by (simp add: field_simps)
  have "\<bar>cn * 100\<bar> / 2 ^ 53 \<le> 2 ^ 16 / 2 ^ 53" using small [OF z] by (intro divide_right_mono) simp_all
  then have yc: "\<bar>y - cn * 100\<bar> \<le> 1 / 2 ^ 37" using yc by (simp only: le_divide_eq) simp
  have "\<bar>cn_on_wire cn - of_int r / 100\<bar> \<le> \<bar>of_int r / 100\<bar> / 2 ^ 53"
    unfolding cn_on_wire_def y_def [symmetric] r_def [symmetric] by (rule fl_error)
  moreover have "\<bar>rat_of_int r / 100\<bar> / 2 ^ 53 \<le> 1 / 2 ^ 41" using r by simp
  ultimately have "\<bar>cn_on_wire cn - of_int r / 100\<bar> \<le> 1 / 2 ^ 41" by (rule order.trans)
  from add_errors [OF ry yc this]
  have "\<bar>cn_on_wire cn - cn\<bar> \<le> 1 / 2 / 100 + 1 / 2 ^ 37 / 100 + 1 / 2 ^ 41" .
  also have "\<dots> \<le> 1 / 200 + 1 / 2 ^ 40" by simp
  finally show ?thesis .
qed

lemma set_cn_bytes:
  assumes "hcnton cn = Some w" "trailer_length f = 0 \<or> trailer_length f = 4"
    and "length (cont_data f) = unat (get_message_length f) + trailer_length f"
  shows "\<exists>g. set_cn cn f = Some g \<and> trailer_length g = 4 \<and>
    cont_data g = take (unat (get_message_length f)) (cont_data f) @ bytes32 w"
  using assms by (auto simp: set_cn_def Let_def)

text \<open>The C/N written into a frame whose message length is right is the one read back, rounded
  to the nearest hundredth, whether the frame carried one before or not.\<close>

theorem cn_roundtrip:
  assumes "hcnton cn = Some w" "trailer_length f = 0 \<or> trailer_length f = 4"
    and "length (cont_data f) = unat (get_message_length f) + trailer_length f"
    and "2 \<le> get_message_length f"
  shows "\<exists>g. set_cn cn f = Some g \<and> get_message_length g = get_message_length f \<and>
    get_cn g = Some (cn_on_wire cn)"
proof -
  let ?n = "unat (get_message_length f)"
  obtain g where g: "set_cn cn f = Some g" "cont_data g = take ?n (cont_data f) @ bytes32 w"
    using set_cn_bytes [OF assms(1-3)] by blast
  have n: "2 \<le> ?n" using assms(4) by (simp add: word_le_nat_alt)
  have "read16 (cont_data g) 0 = read16 (cont_data f) 0"
    using n assms(3) by (simp add: g(2) read16_def nth_append)
  then have ml: "get_message_length g = get_message_length f" by (simp add: get_message_length_def)
  have "get_data_from g ?n = Some (bytes32 w)"
    using assms(3) by (simp add: get_data_from_def g(2) substr_def get_total_length_def)
  moreover have "read32 (bytes32 w) 0 = w"
    using read32_write32_same [of 0 "replicate 4 0" w] by (simp add: write_at_def)
  ultimately have "get_cn g = Some (ncntoh w)" by (simp add: get_cn_def ml)
  then show ?thesis using g(1) ml ncntoh_hcnton [OF assms(1)] by simp
qed

theorem cn_roundtrip_witness:
  "\<exists>g. set_cn (- 5 / 4) new_bb_frame = Some g \<and> get_cn g = Some (- 5 / 4)"
proof -
  have h: "hcnton (- 5 / 4) = Some (htonl (word_of_int (- 125)))" by code_simp
  have w: "cn_on_wire (- 5 / 4) = - 5 / 4" by code_simp
  have t: "trailer_length new_bb_frame = 0" by (simp add: new_bb_frame_def frame_defs)
  have l: "length (cont_data new_bb_frame) = 6" "get_message_length new_bb_frame = 6"
    by (simp_all add: new_bb_frame_def frame_defs get_message_length_def field_simps_rw
        read16_write_at_other)
  from cn_roundtrip [OF h, of new_bb_frame] t l w show ?thesis by auto
qed

end
