(* ===== verification/Ordered_Map.thy ===== *)
theory Ordered_Map
  imports Prelude
begin

text \<open>
  \<^verbatim>\<open>std::map\<close>: the program iterates over its maps in the order of the keys, so a map is the
  list of its entries, sorted by key.  Lookup is \<open>map_of\<close>.
\<close>

type_synonym ('k, 'v) omap = "('k \<times> 'v) list"

fun omap_put :: "'k::linorder \<Rightarrow> 'v \<Rightarrow> ('k, 'v) omap \<Rightarrow> ('k, 'v) omap" where
  "omap_put k v [] = [(k, v)]"
| "omap_put k v ((k', v') # m) =
     (if k < k' then (k, v) # (k', v') # m
      else if k = k' then (k, v) # m
      else (k', v') # omap_put k v m)"

definition omap_del :: "'k \<Rightarrow> ('k, 'v) omap \<Rightarrow> ('k, 'v) omap" where
  "omap_del k m = filter (\<lambda>p. fst p \<noteq> k) m"

definition omap_wf :: "('k::linorder, 'v) omap \<Rightarrow> bool" where
  "omap_wf m \<longleftrightarrow> sorted_wrt (<) (map fst m)"

definition omap_update :: "('v \<Rightarrow> 'v) \<Rightarrow> 'k \<Rightarrow> ('k, 'v) omap \<Rightarrow> ('k, 'v) omap" where
  "omap_update f k m = map (\<lambda>(k', v). (k', if k' = k then f v else v)) m"

lemma omap_wf_Nil [simp]: "omap_wf []"
  by (simp add: omap_wf_def)

lemma omap_wf_Cons: "omap_wf ((k, v) # m) \<longleftrightarrow> (\<forall>p \<in> set m. k < fst p) \<and> omap_wf m"
  by (auto simp: omap_wf_def)

lemma set_omap_put: "set (map fst (omap_put k v m)) = insert k (set (map fst m))"
  by (induction k v m rule: omap_put.induct) auto

lemma omap_put_wf: "omap_wf m \<Longrightarrow> omap_wf (omap_put k v m)"
proof (induction k v m rule: omap_put.induct)
  case (2 k v k' v' m)
  have keys: "fst p \<in> insert k (set (map fst m))" if "p \<in> set (omap_put k v m)" for p
    using that set_omap_put [of k v m] by force
  from 2 show ?case
    by (auto simp: omap_wf_Cons dest!: keys)
qed (simp add: omap_wf_def)

lemma omap_wf_notin: "omap_wf ((k, v) # m) \<Longrightarrow> map_of m k = None"
  by (auto simp: omap_wf_Cons map_of_eq_None_iff)

lemma map_of_omap_put: "map_of (omap_put k v m) = (map_of m)(k \<mapsto> v)"
  by (induction k v m rule: omap_put.induct) (auto simp: fun_eq_iff)

lemma map_of_omap_del: "map_of (omap_del k m) = (map_of m)(k := None)"
  by (induction m) (auto simp: omap_del_def fun_eq_iff)

lemma omap_del_wf: "omap_wf m \<Longrightarrow> omap_wf (omap_del k m)"
  by (induction m) (auto simp: omap_del_def omap_wf_def sorted_wrt_append)

lemma keys_omap_update [simp]: "map fst (omap_update f k m) = map fst m"
  by (induction m) (auto simp: omap_update_def)

lemma omap_update_wf [simp]: "omap_wf (omap_update f k m) = omap_wf m"
  by (simp only: omap_wf_def keys_omap_update)

lemma map_of_omap_update: "map_of (omap_update f k m) j = (if j = k then map_option f (map_of m j) else map_of m j)"
  by (induction m) (auto simp: omap_update_def)

lemma omap_wf_distinct: "omap_wf m \<Longrightarrow> distinct (map fst m)"
  by (simp add: omap_wf_def strict_sorted_iff)

section \<open>The interface: finite maps\<close>

locale finite_map =
  fixes put :: "'k \<Rightarrow> 'v \<Rightarrow> 'm \<Rightarrow> 'm"
    and del :: "'k \<Rightarrow> 'm \<Rightarrow> 'm"
    and look :: "'m \<Rightarrow> 'k \<Rightarrow> 'v option"
    and inv :: "'m \<Rightarrow> bool"
  assumes look_put: "inv m \<Longrightarrow> look (put k v m) = (look m)(k \<mapsto> v)"
    and look_del: "inv m \<Longrightarrow> look (del k m) = (look m)(k := None)"
    and inv_put: "inv m \<Longrightarrow> inv (put k v m)"
    and inv_del: "inv m \<Longrightarrow> inv (del k m)"
begin

lemma inv_puts: "inv m \<Longrightarrow> inv (foldl (\<lambda>m (k, v). put k v m) m kvs)"
  by (induction kvs arbitrary: m) (auto simp: inv_put)

lemma look_puts: "inv m \<Longrightarrow> look (foldl (\<lambda>m (k, v). put k v m) m kvs) = look m ++ map_of (rev kvs)"
proof (induction kvs arbitrary: m)
  case Nil
  then show ?case by simp
next
  case (Cons kv kvs)
  obtain k v where kv: "kv = (k, v)" by (cases kv)
  show ?case
    by (simp add: kv Cons.IH [OF inv_put [OF Cons.prems]] look_put [OF Cons.prems])
      (auto simp: fun_eq_iff map_add_def split: option.split)
qed

end

interpretation omap: finite_map omap_put omap_del map_of omap_wf
  by unfold_locales (simp_all add: map_of_omap_put map_of_omap_del omap_put_wf omap_del_wf)

end
