(* ===== verification/Sac.thy ===== *)
theory Sac
  imports Dvb_Frame Dvb_Fifo
begin

unbundle bit_operations_syntax

text \<open>
  The Satellite Access Control message (\<^verbatim>\<open>opensand-core/src/dvb/utils/Sac.cpp\<close>), with which
  a terminal asks the network control centre for capacity.  Its header of 12 bytes holds the
  terminal and group identifiers, the number of requests and the C/N; each request takes two
  bytes, its value scaled to fit one of them.
\<close>

section \<open>Scaling of a request value\<close>

definition NBR_MAX_CR :: int where "NBR_MAX_CR = 2"
definition RBDC_GRANULARITY :: u32 where "RBDC_GRANULARITY = 2"
definition RBDC_SCALING_FACTOR :: u32 where "RBDC_SCALING_FACTOR = 16"
definition RBDC_SCALING_FACTOR2 :: u32 where "RBDC_SCALING_FACTOR2 = 32"
definition VBDC_SCALING_FACTOR :: u32 where "VBDC_SCALING_FACTOR = 16"
definition VBDC_SCALING_FACTOR_OFFSET :: u32 where "VBDC_SCALING_FACTOR_OFFSET = 255"
definition RBDC_SCALING_FACTOR_OFFSET :: u32 where "RBDC_SCALING_FACTOR_OFFSET = 510"

lemmas cr_constants = NBR_MAX_CR_def RBDC_GRANULARITY_def RBDC_SCALING_FACTOR_def
  RBDC_SCALING_FACTOR2_def VBDC_SCALING_FACTOR_def VBDC_SCALING_FACTOR_OFFSET_def
  RBDC_SCALING_FACTOR_OFFSET_def

fun access_code :: "return_access \<Rightarrow> u8" where
  "access_code dama_vbdc = 0"
| "access_code dama_rbdc = 1"
| "access_code dama_avbdc = 2"
| "access_code dama_cra = 3"
| "access_code saloha = 4"

record cr_info =
  cr_prio :: u8
  cr_type :: u8
  cr_value :: u32

definition get_encoded_request_value :: "u16 \<Rightarrow> u32 \<Rightarrow> u8" where
  "get_encoded_request_value v step =
     (let div_quot = ucast (ucast v div step) :: u8;
          div_rem = ucast (ucast v mod step) :: u8
      in if ucast div_rem < step div 2 then div_quot else div_quot + 1)"

definition get_scale_and_value :: "u8 \<Rightarrow> u32 \<Rightarrow> u8 \<times> u8" where
  "get_scale_and_value type v =
     (if type = access_code dama_vbdc then
        (if v \<le> VBDC_SCALING_FACTOR_OFFSET then (0, ucast v)
         else (1, get_encoded_request_value (ucast v) VBDC_SCALING_FACTOR))
      else if type = access_code dama_rbdc then
        (if v \<le> RBDC_SCALING_FACTOR_OFFSET
         then (0, get_encoded_request_value (ucast v) RBDC_GRANULARITY)
         else if v \<le> RBDC_SCALING_FACTOR_OFFSET * RBDC_SCALING_FACTOR
         then (1, get_encoded_request_value (ucast v) (RBDC_GRANULARITY * RBDC_SCALING_FACTOR))
         else (2, get_encoded_request_value (ucast v) (RBDC_GRANULARITY * RBDC_SCALING_FACTOR2)))
      else (0, 0))"

definition get_decoded_cr_value :: "u8 \<Rightarrow> u8 \<Rightarrow> u8 \<Rightarrow> u16" where
  "get_decoded_cr_value type scale v =
     (if type = access_code dama_vbdc then
        (if scale = 0 then ucast v else ucast (ucast v * VBDC_SCALING_FACTOR))
      else if type = access_code dama_rbdc then
        (if scale = 0 then ucast (ucast v * RBDC_GRANULARITY)
         else if scale = 1 then ucast (ucast v * RBDC_GRANULARITY * RBDC_SCALING_FACTOR)
         else ucast (ucast v * RBDC_GRANULARITY * RBDC_SCALING_FACTOR2))
      else 0)"

text \<open>The two bytes of \<^verbatim>\<open>emu_cr_t\<close>: priority in bits 0-1, scale in 2-3, type in 4-7.\<close>

definition encode_cr :: "u8 \<Rightarrow> u8 \<Rightarrow> u8 \<Rightarrow> u8 \<Rightarrow> bytes" where
  "encode_cr prio scale type v =
     [(prio AND mask 2) OR push_bit 2 (scale AND mask 2) OR push_bit 4 (type AND mask 4), v]"

definition cr_prio_of :: "u8 \<Rightarrow> u8" where "cr_prio_of b = b AND mask 2"
definition cr_scale_of :: "u8 \<Rightarrow> u8" where "cr_scale_of b = drop_bit 2 b AND mask 2"
definition cr_type_of :: "u8 \<Rightarrow> u8" where "cr_type_of b = drop_bit 4 b AND mask 4"

section \<open>The message\<close>

record sac = dvb_frame +
  request_nbr :: u8

definition SAC_HEADER :: nat where "SAC_HEADER = 12"

text \<open>The constructor: the C/N is -100, very low, as the most robust MODCOD is forced first.\<close>

definition new_sac :: "tal_id \<Rightarrow> group_id \<Rightarrow> sac" where
  "new_sac tal grp =
     (let f = set_max_frame_size (SAC_HEADER + 2 * nat NBR_MAX_CR)
                (set_message_length (of_nat SAC_HEADER)
                  (set_message_type MSG_Sac (empty_frame SAC_HEADER)));
          d = write8 (write32 (write16 (write16 (cont_data f) 3 (htons tal)) 5 grp) 8
                (htonl (word_of_int (- 10000)))) 7 0
      in dvb_frame.extend (f\<lparr>cont_data := d\<rparr>) \<lparr>request_nbr = 0\<rparr>)"

definition sac_cr_number :: "'a dvb_frame_scheme \<Rightarrow> u8" where
  "sac_cr_number s = read8 (cont_data s) 7"

definition add_request :: "sac \<Rightarrow> u8 \<Rightarrow> return_access \<Rightarrow> u32 \<Rightarrow> sac \<times> bool" where
  "add_request s prio type v =
     (if int (unat (request_nbr s)) + 1 \<ge> NBR_MAX_CR then (s, False)
      else
        (let (scale, val) = get_scale_and_value (access_code type) v;
             d = cont_data s @ encode_cr prio scale (access_code type) val;
             d' = write8 d 7 (read8 d 7 + 1);
             s' = s\<lparr>cont_data := d', request_nbr := request_nbr s + 1\<rparr>
         in (set_message_length (get_message_length s' + 2) s', True)))"

definition sac_terminal_id :: "'a dvb_frame_scheme \<Rightarrow> tal_id" where
  "sac_terminal_id s = ntohs (read16 (cont_data s) 3)"

definition sac_group_id :: "'a dvb_frame_scheme \<Rightarrow> group_id" where
  "sac_group_id s = read16 (cont_data s) 5"

definition sac_get_cni :: "'a dvb_frame_scheme \<Rightarrow> rat" where
  "sac_get_cni s = ncntoh (read32 (cont_data s) 8)"

definition sac_set_acm :: "'a dvb_frame_scheme \<Rightarrow> rat \<Rightarrow> 'a dvb_frame_scheme option" where
  "sac_set_acm s cni = do {
     w \<leftarrow> hcnton cni;
     Some (s\<lparr>cont_data := write32 (cont_data s) 8 w\<rparr>) }"

definition request_at :: "bytes \<Rightarrow> nat \<Rightarrow> cr_info option" where
  "request_at d i =
     (let k = SAC_HEADER + 2 * i in
      if k + 2 > length d then None
      else (let b = read8 d k; v = read8 d (k + 1) in
            Some \<lparr>cr_prio = cr_prio_of b, cr_type = cr_type_of b,
                  cr_value = ucast (get_decoded_cr_value (cr_type_of b) (cr_scale_of b) v)\<rparr>))"

definition get_requests :: "'a dvb_frame_scheme \<Rightarrow> cr_info list option" where
  "get_requests s =
     (let rs = map (request_at (cont_data s)) [0..<unat (sac_cr_number s)]
      in if None \<in> set rs then None else Some (map the rs))"

section \<open>Scaling loses at most half a step\<close>

lemma encoded_value_nat:
  assumes "0 < s" "even s" "s < 256" "unat v \<le> 255 * s"
  shows "unat (get_encoded_request_value v (of_nat s)) =
    (if unat v mod s < s div 2 then unat v div s else unat v div s + 1)"
proof -
  let ?n = "unat v"
  have s: "unat (of_nat s :: u32) = s" using assms(3) by (simp add: unat_of_nat take_bit_nat_eq_self)
  have q: "unat (ucast v div of_nat s :: u32) = ?n div s" "unat (ucast v mod of_nat s :: u32) = ?n mod s"
    by (simp_all add: unat_div_distrib unat_mod_distrib s)
  have qb: "?n div s \<le> 255" using assms(1,4) by (metis div_le_mono nonzero_mult_div_cancel_right less_numeral_extra(3))
  have rb: "?n mod s < 256" using assms(1,3) by (meson mod_less_divisor order.strict_trans)
  have uq: "unat (ucast (ucast v div of_nat s :: u32) :: u8) = ?n div s"
    using qb by (simp add: unsigned_ucast_eq q take_bit_nat_eq_self)
  have ur: "unat (ucast (ucast v mod of_nat s :: u32) :: u8) = ?n mod s"
    using rb by (simp add: unat_ucast_down q)
  have half: "unat (of_nat s div 2 :: u32) = s div 2" by (simp add: unat_div_distrib s)
  have up: "?n div s < 255" if "\<not> ?n mod s < s div 2"
  proof -
    have "?n mod s \<noteq> 0" using that assms(1,2) by (metis div_greater_zero_iff even_iff_mod_2_eq_zero
          mod_if bot_nat_0.not_eq_extremum dvd_imp_le zero_less_numeral)
    then have "?n div s * s < ?n" by (metis div_mult_mod_eq less_add_same_cancel1 gr0I)
    then have "?n div s * s < 255 * s" using assms(4) by (rule order.strict_trans2)
    then show ?thesis by (simp only: mult_less_cancel2)
  qed
  show ?thesis
  proof (cases "?n mod s < s div 2")
    case True
    then show ?thesis by (simp add: get_encoded_request_value_def Let_def word_less_nat_alt ur half uq)
  next
    case False
    then show ?thesis using up [OF False]
      by (simp add: get_encoded_request_value_def Let_def word_less_nat_alt ur half uq unat_add_small)
  qed
qed

definition cr_step :: "u32 \<Rightarrow> nat" where
  "cr_step v = (if v \<le> 510 then 2 else if v \<le> 8160 then 32 else 64)"

lemma rounded_bounds:
  fixes n s :: nat
  assumes "0 < s" "even s" "n \<le> 255 * s"
  defines "q \<equiv> (if n mod s < s div 2 then n div s else n div s + 1)"
  shows "q * s \<le> n + s div 2 \<and> n \<le> q * s + s div 2 \<and> q * s \<le> 255 * s"
proof -
  have n: "n = n div s * s + n mod s" by simp
  have r: "n mod s < s" using assms(1) by simp
  show ?thesis
  proof (cases "n mod s < s div 2")
    case True
    have "n div s * s \<le> 255 * s" using n assms(3) by linarith
    moreover have "n div s * s \<le> n + s div 2" using n by linarith
    moreover have "n \<le> n div s * s + s div 2" using True n by linarith
    ultimately show ?thesis unfolding q_def using True by (simp only: if_True simp_thms)
  next
    case False
    have "s = 2 * (s div 2)" using assms(2) by simp
    with False have "s \<le> 2 * (n mod s)" "0 < n mod s" using assms(1) by linarith+
    moreover from this(2) n have "n div s * s < 255 * s" using assms(3) by linarith
    then have "n div s + 1 \<le> 255" by simp
    then have "(n div s + 1) * s \<le> 255 * s" by (rule mult_le_mono1)
    moreover have "(n div s + 1) * s = n div s * s + s" by simp
    moreover have "n div s * s + s \<le> n + s div 2" "n \<le> n div s * s + s + s div 2"
      using n r False \<open>s = 2 * (s div 2)\<close> by linarith+
    ultimately show ?thesis unfolding q_def using False by (simp only: if_False simp_thms)
  qed
qed

lemma encode_decode_step:
  assumes "s \<in> {2, 16, 32, 64}" "unat v \<le> 255 * s"
  shows "let q = unat (get_encoded_request_value v (of_nat s)) in
    q * s \<le> unat v + s div 2 \<and> unat v \<le> q * s + s div 2 \<and> q * s \<le> 255 * s"
  using encoded_value_nat [of s v] rounded_bounds [of s "unat v"] assms by (auto simp: Let_def)

lemma decoded_rbdc:
  "unat (get_decoded_cr_value 1 0 q) = unat q * 2"
  "unat (get_decoded_cr_value 1 1 q) = unat q * 32"
  "unat (get_decoded_cr_value 1 2 q) = unat q * 64"
proof -
  have q: "unat q \<le> 255" by (rule unat_le_mask8)
  have m: "unat (ucast q * of_nat k :: u32) = unat q * k" if "k \<le> 64" for k
  proof -
    have "unat q * k \<le> 255 * 64" using q that by (rule mult_le_mono)
    then show ?thesis using that by (simp add: unat_word_ariths unat_of_nat take_bit_nat_eq_self)
  qed
  have e: "unat (ucast (ucast q * of_nat k :: u32) :: u16) = unat q * k" if "k \<le> 64" for k
  proof -
    have "unat q * k \<le> 255 * 64" using q that by (rule mult_le_mono)
    then show ?thesis using m [OF that] by (simp add: unat_ucast_down)
  qed
  show "unat (get_decoded_cr_value 1 0 q) = unat q * 2"
    "unat (get_decoded_cr_value 1 1 q) = unat q * 32"
    "unat (get_decoded_cr_value 1 2 q) = unat q * 64"
    using e [of 2] e [of 32] e [of 64]
    by (simp_all add: get_decoded_cr_value_def cr_constants mult.assoc)
qed

lemma rbdc_scaling_bounds:
  assumes "v \<le> 16320"
  defines "d \<equiv> (case get_scale_and_value (access_code dama_rbdc) v of
      (scale, val) \<Rightarrow> unat (get_decoded_cr_value (access_code dama_rbdc) scale val))"
  shows "2 * d \<le> 2 * unat v + cr_step v \<and> 2 * unat v \<le> 2 * d + cr_step v \<and> d \<le> 16320"
proof -
  have v: "unat v \<le> 16320" using assms(1) by (simp add: word_le_nat_alt)
  then have c: "unat (ucast v :: u16) = unat v" by (simp add: unat_ucast_down)
  consider (a) "v \<le> 510" | (b) "\<not> v \<le> 510" "v \<le> 8160" | (c) "\<not> v \<le> 8160" by blast
  then show ?thesis
  proof cases
    case a
    then have "unat v \<le> 255 * 2" by (simp add: word_le_nat_alt)
    with encode_decode_step [of 2 "ucast v"] a c show ?thesis
      by (simp add: d_def get_scale_and_value_def cr_constants decoded_rbdc cr_step_def Let_def)
  next
    case b
    then have "unat v \<le> 255 * 32" by (simp add: word_le_nat_alt)
    with encode_decode_step [of 32 "ucast v"] b c show ?thesis
      by (simp add: d_def get_scale_and_value_def cr_constants decoded_rbdc cr_step_def Let_def)
  next
    case n: c
    then have "\<not> v \<le> 510" by (simp add: word_le_nat_alt)
    with encode_decode_step [of 64 "ucast v"] n c v show ?thesis
      by (simp add: d_def get_scale_and_value_def cr_constants decoded_rbdc cr_step_def Let_def)
  qed
qed

text \<open>The scaling of a rate request.  A rate of at most 16320 kbit/s is decoded by the control
  centre to a rate that differs by at most half the step of its range (2, 32 or 64 kbit/s), and
  never exceeds 16320 kbit/s.\<close>

theorem rbdc_scaling:
  assumes "v \<le> 16320"
  defines "d \<equiv> (case get_scale_and_value (access_code dama_rbdc) v of
      (scale, val) \<Rightarrow> unat (get_decoded_cr_value (access_code dama_rbdc) scale val))"
  shows "2 * d \<le> 2 * unat v + cr_step v \<and> 2 * unat v \<le> 2 * d + cr_step v \<and> d \<le> 16320"
  unfolding d_def by (rule rbdc_scaling_bounds [OF assms(1)])

theorem rbdc_scaling_witness:
  "unat (get_decoded_cr_value 1 (fst (get_scale_and_value 1 1000)) (snd (get_scale_and_value 1 1000)))
     \<in> {984..1016}"
proof -
  have "(1000 :: u32) \<le> 16320" by simp
  from rbdc_scaling [OF this] show ?thesis by (auto simp: cr_step_def split: prod.splits)
qed

section \<open>What the control centre reads\<close>

lemma new_sac_bytes:
  fixes tal :: tal_id and grp :: group_id
  defines "d \<equiv> cont_data (new_sac tal grp)"
  shows "length d = 12" "read16 d 0 = htons 12" "read16 d 3 = htons tal" "read16 d 5 = grp"
    "read8 d 7 = 0" "read8 d 2 = MSG_Sac" "request_nbr (new_sac tal grp) = 0"
  by (simp_all add: d_def new_sac_def frame_defs dvb_frame.defs SAC_HEADER_def field_simps_rw
      read16_write_at_other Let_def MSG_Sac_def read8_def nth_write_at)
    (simp_all add: bytes16_def bytes32_def mask_eq_exp_minus_1)

lemma cr_bits [simp]:
  "cr_prio_of ((p AND mask 2) OR push_bit 2 (s AND mask 2) OR push_bit 4 (t AND mask 4)) = p AND mask 2"
  "cr_scale_of ((p AND mask 2) OR push_bit 2 (s AND mask 2) OR push_bit 4 (t AND mask 4)) = s AND mask 2"
  "cr_type_of ((p AND mask 2) OR push_bit 2 (s AND mask 2) OR push_bit 4 (t AND mask 4)) = t AND mask 4"
  by (rule bit_word_eqI; auto simp: cr_prio_of_def cr_scale_of_def cr_type_of_def bit_simps)+

lemma access_code_mask [simp]: "access_code ty AND mask 4 = access_code ty"
  by (cases ty) (simp_all add: mask_eq_exp_minus_1)

lemma scale_mask [simp]: "get_scale_and_value ty v = (scale, val) \<Longrightarrow> scale AND mask 2 = scale"
  by (auto simp: get_scale_and_value_def mask_eq_exp_minus_1 split: if_splits)

lemma request_at_end:
  "length d = SAC_HEADER + 2 * i \<Longrightarrow>
   request_at (d @ encode_cr prio scale ty v) i = Some \<lparr>cr_prio = prio AND mask 2,
     cr_type = ty AND mask 4,
     cr_value = ucast (get_decoded_cr_value (ty AND mask 4) (scale AND mask 2) v)\<rparr>"
  by (simp add: request_at_def encode_cr_def read8_def nth_append Let_def del: push_bit_and)

text \<open>The request a first call of \<^verbatim>\<open>addRequest\<close> stores, as the control centre decodes it.\<close>

definition decoded_request :: "u8 \<Rightarrow> return_access \<Rightarrow> u32 \<Rightarrow> cr_info" where
  "decoded_request prio ty v =
     (case get_scale_and_value (access_code ty) v of (scale, val) \<Rightarrow>
        \<lparr>cr_prio = prio AND mask 2, cr_type = access_code ty,
         cr_value = ucast (get_decoded_cr_value (access_code ty) scale val)\<rparr>)"

lemma add_first_request:
  assumes "length (cont_data s) = 12" "read8 (cont_data s) 7 = 0" "request_nbr s = 0"
    "read16 (cont_data s) 0 = htons 12"
  shows "\<exists>s'. add_request s prio ty v = (s', True) \<and> request_nbr s' = 1 \<and>
    get_requests s' = Some [decoded_request prio ty v] \<and> get_message_length s' = 14 \<and>
    length (cont_data s') = 14 \<and> read16 (cont_data s') 3 = read16 (cont_data s) 3 \<and>
    read16 (cont_data s') 5 = read16 (cont_data s) 5 \<and>
    read32 (cont_data s') 8 = read32 (cont_data s) 8"
proof -
  obtain scale val where g: "get_scale_and_value (access_code ty) v = (scale, val)" by fastforce
  define cr where "cr = encode_cr prio scale (access_code ty) val"
  have lc: "length cr = 2" by (simp add: cr_def encode_cr_def)
  define d where "d = write16 (write8 (cont_data s @ cr) 7 1) 0 (htons 14)"
  define s' where "s' = s\<lparr>cont_data := d, request_nbr := 1\<rparr>"
  have dd: "d = write16 (write8 (cont_data s) 7 1) 0 (htons 14) @ cr"
    using assms(1) by (simp add: d_def write_at_append)
  have ld: "length (write16 (write8 (cont_data s) 7 1) 0 (htons 14)) = 12" using assms(1) by simp
  have "add_request s prio ty v = (s', True)"
    using assms g lc
    by (simp add: add_request_def NBR_MAX_CR_def Let_def set_message_length_def s'_def d_def
        get_message_length_def field_simps_rw cr_def [symmetric])
  moreover have "get_requests s' = Some [decoded_request prio ty v]"
  proof -
    have "request_at d 0 = Some (decoded_request prio ty v)"
      using request_at_end [of "write16 (write8 (cont_data s) 7 1) 0 (htons 14)" 0] ld g
      by (simp add: dd cr_def SAC_HEADER_def decoded_request_def)
    moreover have "sac_cr_number s' = 1"
      using assms(1) lc by (simp add: sac_cr_number_def s'_def d_def field_simps_rw)
    ultimately show ?thesis by (simp add: get_requests_def s'_def)
  qed
  moreover have "get_message_length s' = 14"
    using assms(1) by (simp add: get_message_length_def s'_def d_def field_simps_rw)
  moreover have "length d = 14" "read16 d 3 = read16 (cont_data s) 3"
    "read16 d 5 = read16 (cont_data s) 5" "read32 d 8 = read32 (cont_data s) 8"
    using assms(1) lc by (simp_all add: d_def field_simps_rw read32_def)
  ultimately show ?thesis by (auto simp: s'_def)
qed

fun add_requests :: "sac \<Rightarrow> (u8 \<times> return_access \<times> u32) list \<Rightarrow> sac" where
  "add_requests s [] = s"
| "add_requests s ((prio, ty, v) # rs) = add_requests (fst (add_request s prio ty v)) rs"

lemma add_request_refused: "1 \<le> request_nbr s \<Longrightarrow> add_request s prio ty v = (s, False)"
  by (simp add: add_request_def NBR_MAX_CR_def word_le_def)

lemma add_requests_refused: "1 \<le> request_nbr s \<Longrightarrow> add_requests s rs = s"
  by (induction rs) (auto simp: add_request_refused)

lemma sac_reads:
  assumes "hcnton cni = Some w" and "reqs = (prio, ty, v) # rest"
  shows "\<exists>s s'. sac_set_acm (new_sac tal grp) cni = Some s \<and> add_requests s reqs = s' \<and>
    sac_terminal_id s' = tal \<and> sac_group_id s' = grp \<and>
    sac_get_cni s' = cn_on_wire cni \<and> \<bar>sac_get_cni s' - cni\<bar> \<le> 1 / 200 + 1 / 2 ^ 40 \<and>
    get_requests s' = Some [decoded_request prio ty v] \<and> get_message_length s' = 14"
proof -
  let ?d = "write32 (cont_data (new_sac tal grp)) 8 w"
  let ?s = "(new_sac tal grp)\<lparr>cont_data := ?d\<rparr>"
  note b = new_sac_bytes [of tal grp]
  have "length ?d = 12" "read8 ?d 7 = 0" "read16 ?d 0 = htons 12" "read32 ?d 8 = w"
    "read16 ?d 3 = htons tal" "read16 ?d 5 = grp"
    using b by (simp_all add: field_simps_rw)
  with add_first_request [of ?s prio ty v] b(7) obtain s' where s':
    "add_request ?s prio ty v = (s', True)" "request_nbr s' = 1"
    "get_requests s' = Some [decoded_request prio ty v]" "get_message_length s' = 14"
    "read16 (cont_data s') 3 = htons tal" "read16 (cont_data s') 5 = grp"
    "read32 (cont_data s') 8 = w" by auto
  have "sac_set_acm (new_sac tal grp) cni = Some ?s" using assms(1) by (simp add: sac_set_acm_def)
  moreover have "add_requests ?s reqs = s'"
    using s'(1,2) by (simp add: assms(2) add_requests_refused)
  ultimately show ?thesis using s' ncntoh_hcnton [OF assms(1)] cn_on_wire_close [OF assms(1)]
    by (auto simp: sac_terminal_id_def sac_group_id_def sac_get_cni_def)
qed

text \<open>C39: What the control centre reads from a SAC.  The terminal sets the C/N and adds any
  non-empty sequence of requests: the terminal and group identifiers are the terminal's, the C/N
  is the one set, rounded to hundredths and back in double precision, which is within half a hundredth
  of it but for the error of the arithmetic, and there is exactly one request, the first one, although
  \<^verbatim>\<open>NBR_MAX_CR\<close> announces two: every later call of \<^verbatim>\<open>addRequest\<close> is refused.\<close>

theorem sac_received:
  assumes "hcnton cni = Some w" and "reqs = (prio, ty, v) # rest"
  shows "\<exists>s s'. sac_set_acm (new_sac tal grp) cni = Some s \<and> add_requests s reqs = s' \<and>
    sac_terminal_id s' = tal \<and> sac_group_id s' = grp \<and>
    sac_get_cni s' = cn_on_wire cni \<and> \<bar>sac_get_cni s' - cni\<bar> \<le> 1 / 200 + 1 / 2 ^ 40 \<and>
    get_requests s' = Some [decoded_request prio ty v] \<and> get_message_length s' = 14"
  by (rule sac_reads [OF assms])

theorem sac_received_witness:
  "\<exists>s. sac_set_acm (new_sac 7 2) (- 100) = Some s \<and>
     get_requests (add_requests s [(0, dama_rbdc, 100), (0, dama_vbdc, 30)]) =
       Some [decoded_request 0 dama_rbdc 100]"
proof -
  have "hcnton (- 100) = Some (htonl (word_of_int (- 10000)))" by code_simp
  from sac_received [OF this refl, where tal = 7 and grp = 2 and prio = 0 and ty = dama_rbdc
      and v = 100 and rest = "[(0, dama_vbdc, 30)]"]
  show ?thesis by blast
qed

end
