(* ===== verification/Ttp.thy ===== *)
theory Ttp
  imports Dvb_Frame Ordered_Map
begin

text \<open>
  The terminal burst time plan (\<^verbatim>\<open>opensand-core/src/dvb/utils/Ttp.cpp\<close>), with which the
  network control centre tells the terminals what it allocated to them.  Its header of 8 bytes is
  followed by frames, each made of a header of 3 bytes and of time plans of 10 bytes.  A terminal
  looks for its own plans in the received bytes and puts their multi-byte fields in host order in
  place.
\<close>

section \<open>Time plans\<close>

text \<open>\<^verbatim>\<open>emu_tp_t\<close> as it is in memory, at offsets 0, 2, 6, 8 and 9.\<close>

record emu_tp =
  tp_tal_id :: u16
  tp_offset :: u32
  tp_assignment_count :: u16
  tp_fmt_id :: u8
  tp_priority :: u8

definition tp_bytes :: "emu_tp \<Rightarrow> bytes" where
  "tp_bytes tp = bytes16 (tp_tal_id tp) @ bytes32 (tp_offset tp) @
     bytes16 (tp_assignment_count tp) @ [tp_fmt_id tp, tp_priority tp]"

definition read_tp :: "bytes \<Rightarrow> nat \<Rightarrow> emu_tp" where
  "read_tp d k = \<lparr>tp_tal_id = read16 d k, tp_offset = read32 d (k + 2),
     tp_assignment_count = read16 d (k + 6), tp_fmt_id = read8 d (k + 8),
     tp_priority = read8 d (k + 9)\<rparr>"

section \<open>The message\<close>

record ttp = dvb_frame +
  ttp_frames :: "(u8, emu_tp list) omap"

definition TTP_HEADER :: nat where "TTP_HEADER = 8"
definition FRAME_INFO :: nat where "FRAME_INFO = 3"
definition TP_SIZE :: nat where "TP_SIZE = 10"
definition NBR_MAX_FRAMES :: nat where "NBR_MAX_FRAMES = 1"
definition NBR_MAX_TP :: nat where "NBR_MAX_TP = 31"

lemmas ttp_sizes = TTP_HEADER_def FRAME_INFO_def TP_SIZE_def

definition new_ttp :: "group_id \<Rightarrow> time_sf \<Rightarrow> ttp" where
  "new_ttp grp sf =
     (let f = set_max_frame_size (TTP_HEADER + NBR_MAX_FRAMES * (FRAME_INFO + NBR_MAX_TP * TP_SIZE))
                (set_message_length (of_nat TTP_HEADER)
                  (set_message_type MSG_Ttp (empty_frame TTP_HEADER)))
      in dvb_frame.extend
           (f\<lparr>cont_data := write16 (write16 (cont_data f) 3 grp) 5 (htons sf)\<rparr>)
           \<lparr>ttp_frames = []\<rparr>)"

definition add_time_plan ::
  "ttp \<Rightarrow> time_frame \<Rightarrow> tal_id \<Rightarrow> u32 \<Rightarrow> u16 \<Rightarrow> fmt_id \<Rightarrow> u8 \<Rightarrow> ttp \<times> bool" where
  "add_time_plan t frame_id tal offset cnt fmt prio =
     (let tp = \<lparr>tp_tal_id = htons tal, tp_offset = htonl offset,
                tp_assignment_count = htons cnt, tp_fmt_id = fmt, tp_priority = prio\<rparr>
      in (case map_of (ttp_frames t) frame_id of
            None \<Rightarrow> (t\<lparr>ttp_frames := omap_put frame_id [tp] (ttp_frames t)\<rparr>, True)
          | Some tps \<Rightarrow>
              (t\<lparr>ttp_frames := omap_put frame_id (tps @ [tp]) (ttp_frames t)\<rparr>, True)))"

text \<open>\<open>build_frames\<close> is the loop of \<^verbatim>\<open>Ttp::build\<close>.  Each frame is appended with the
  \<^verbatim>\<open>tp_loop_count\<close> its local variable happens to hold (\<open>junk\<close>); the count is then stored
  through \<^verbatim>\<open>ttp.frames[frame_count]\<close>, an array of 3-byte elements from offset 8 on, which
  is the frame just appended only when it is the first.\<close>

fun build_frames ::
  "(nat \<Rightarrow> u16) \<Rightarrow> (u8 \<times> emu_tp list) list \<Rightarrow> nat \<Rightarrow> bytes \<Rightarrow> bytes" where
  "build_frames junk [] frame_count d = d"
| "build_frames junk ((frame_id, tps) # fs) frame_count d =
     (let d1 = d @ [frame_id] @ bytes16 (junk frame_count) @ concat (map tp_bytes tps);
          d2 = write16 d1 (TTP_HEADER + FRAME_INFO * frame_count + 1) (of_nat (length tps))
      in build_frames junk fs (frame_count + 1) d2)"

definition ttp_length :: "(u8 \<times> emu_tp list) list \<Rightarrow> nat" where
  "ttp_length fs = TTP_HEADER + (\<Sum>f\<leftarrow>fs. FRAME_INFO + TP_SIZE * length (snd f))"

definition ttp_build :: "(nat \<Rightarrow> u16) \<Rightarrow> ttp \<Rightarrow> ttp" where
  "ttp_build junk t =
     (let d = build_frames junk (ttp_frames t) 0 (cont_data t);
          d' = write8 d 7 (of_nat (length (ttp_frames t)))
      in set_message_length (of_nat (ttp_length (ttp_frames t))) (t\<lparr>cont_data := d'\<rparr>))"

definition ttp_group_id :: "'a dvb_frame_scheme \<Rightarrow> group_id" where
  "ttp_group_id t = read16 (cont_data t) 3"

definition ttp_superframe_count :: "'a dvb_frame_scheme \<Rightarrow> time_sf" where
  "ttp_superframe_count t = ntohs (read16 (cont_data t) 5)"

section \<open>Reading the plans of a terminal\<close>

text \<open>The two loops of \<^verbatim>\<open>Ttp::getTp\<close>, over the plans of a frame and over the frames.  The
  lengths are checked against the message length; reading past the received bytes is
  \<open>None\<close>.\<close>

fun tp_loop ::
  "nat \<Rightarrow> tal_id \<Rightarrow> u8 \<Rightarrow> nat \<Rightarrow> bytes \<Rightarrow> (u8, emu_tp) omap \<Rightarrow>
   (bytes \<times> (u8, emu_tp) omap) option" where
  "tp_loop 0 tal frame_number pos d tps = Some (d, tps)"
| "tp_loop (Suc n) tal frame_number pos d tps =
     (if length d < pos + TP_SIZE then None
      else if ntohs (read16 d pos) \<noteq> tal then tp_loop n tal frame_number (pos + TP_SIZE) d tps
      else
        (let d1 = write32 d (pos + 2) (ntohl (read32 d (pos + 2)));
             d2 = write16 d1 (pos + 6) (ntohs (read16 d1 (pos + 6)))
         in tp_loop n tal frame_number (pos + TP_SIZE) d2
              (omap_put frame_number (read_tp d2 pos) tps)))"

fun frame_loop ::
  "nat \<Rightarrow> tal_id \<Rightarrow> nat \<Rightarrow> nat \<Rightarrow> bytes \<Rightarrow> (u8, emu_tp) omap \<Rightarrow>
   (bytes \<times> (u8, emu_tp) omap \<times> bool) option" where
  "frame_loop 0 tal frame_start len d tps = Some (d, tps, True)"
| "frame_loop (Suc n) tal frame_start len d tps =
     (if length d < frame_start + FRAME_INFO then None
      else
        (let cnt = unat (read16 d (frame_start + 1)) in
         if len < FRAME_INFO + cnt * TP_SIZE then Some (d, tps, False)
         else
           (case tp_loop cnt tal (read8 d frame_start) (frame_start + FRAME_INFO) d tps of
              None \<Rightarrow> None
            | Some (d', tps') \<Rightarrow>
                frame_loop n tal (frame_start + cnt * TP_SIZE) (len - FRAME_INFO - cnt * TP_SIZE)
                  d' tps')))"

definition get_tp ::
  "'a dvb_frame_scheme \<Rightarrow> tal_id \<Rightarrow> (u8, emu_tp) omap \<Rightarrow>
   ('a dvb_frame_scheme \<times> (u8, emu_tp) omap \<times> bool) option" where
  "get_tp t tal tps =
     (let len = unat (get_message_length t) in
      if len < TTP_HEADER then Some (t, tps, False)
      else if length (cont_data t) < TTP_HEADER then None
      else
        (case frame_loop (unat (read8 (cont_data t) 7)) tal TTP_HEADER (len - TTP_HEADER)
                (cont_data t) tps of
           None \<Rightarrow> None
         | Some (d, tps', ok) \<Rightarrow> Some (t\<lparr>cont_data := d\<rparr>, tps', ok)))"

section \<open>What a terminal finds\<close>

lemma length_tp_bytes [simp]: "length (tp_bytes tp) = 10"
  by (simp add: tp_bytes_def)

lemma read16_at: "read16 (pre @ bytes16 w @ post) (length pre) = w"
  by (simp add: read16_def bytes16_def nth_append)

lemma read32_at: "read32 (pre @ bytes32 w @ post) (length pre) = w"
  using read16_at [of pre "ucast w" "bytes16 (ucast (drop_bit 16 w)) @ post"]
    read16_at [of "pre @ bytes16 (ucast w)" "ucast (drop_bit 16 w)" post]
  by (simp add: read32_def bytes32_def)

lemma read8_at: "read8 (pre @ b # post) (length pre) = b"
  by (simp add: read8_def)

lemma take_prefix: "take (length pre + k) d = pre @ x \<Longrightarrow> take (length pre) d = pre"
  by (drule arg_cong [of _ _ "take (length pre)"]) (simp add: min_def)

lemma write_middle:
  "k = length pre \<Longrightarrow> length old = length new \<Longrightarrow>
   write_at (pre @ old @ post) k new = pre @ new @ post"
  by (simp add: write_at_def)

text \<open>The plan a terminal finds: its two multi-byte values are put in host order.\<close>

definition host_tp :: "emu_tp \<Rightarrow> emu_tp" where
  "host_tp tp = tp\<lparr>tp_offset := ntohl (tp_offset tp),
     tp_assignment_count := ntohs (tp_assignment_count tp)\<rparr>"

lemma read_tp_at: "read_tp (pre @ tp_bytes tp @ post) (length pre) = tp"
proof -
  let ?o = "bytes32 (tp_offset tp)" and ?c = "bytes16 (tp_assignment_count tp)"
  let ?t = "bytes16 (tp_tal_id tp)" and ?e = "[tp_fmt_id tp, tp_priority tp] @ post"
  have "read16 (pre @ ?t @ ?o @ ?c @ ?e) (length pre) = tp_tal_id tp" by (rule read16_at)
  moreover have "read32 ((pre @ ?t) @ ?o @ ?c @ ?e) (length (pre @ ?t)) = tp_offset tp"
    by (rule read32_at)
  moreover have "read16 ((pre @ ?t @ ?o) @ ?c @ ?e) (length (pre @ ?t @ ?o)) = tp_assignment_count tp"
    by (rule read16_at)
  moreover note read8_at [of "pre @ ?t @ ?o @ ?c" "tp_fmt_id tp" "tp_priority tp # post"]
    read8_at [of "pre @ ?t @ ?o @ ?c @ [tp_fmt_id tp]" "tp_priority tp" post]
  ultimately show ?thesis by (simp add: read_tp_def tp_bytes_def ac_simps)
qed

lemma swap_tp_at:
  fixes pre post :: bytes and tp :: emu_tp
  defines "d \<equiv> pre @ tp_bytes tp @ post"
  defines "d1 \<equiv> write32 d (length pre + 2) (ntohl (tp_offset tp))"
  shows "write16 d1 (length pre + 6) (ntohs (tp_assignment_count tp)) =
    pre @ tp_bytes (host_tp tp) @ post" "read16 d1 (length pre + 6) = tp_assignment_count tp"
proof -
  let ?o = "bytes32 (tp_offset tp)" and ?c = "bytes16 (tp_assignment_count tp)"
  let ?t = "bytes16 (tp_tal_id tp)" and ?e = "[tp_fmt_id tp, tp_priority tp] @ post"
  let ?o' = "bytes32 (ntohl (tp_offset tp))"
  have "write_at ((pre @ ?t) @ ?o @ ?c @ ?e) (length pre + 2) ?o' = (pre @ ?t) @ ?o' @ ?c @ ?e"
    by (rule write_middle) simp_all
  then have d1: "d1 = (pre @ ?t @ ?o') @ ?c @ ?e" by (simp add: d1_def d_def tp_bytes_def)
  show "write16 d1 (length pre + 6) (ntohs (tp_assignment_count tp)) =
    pre @ tp_bytes (host_tp tp) @ post"
    unfolding d1 by (subst write_middle) (simp_all add: tp_bytes_def host_tp_def)
  show "read16 d1 (length pre + 6) = tp_assignment_count tp"
    unfolding d1 using read16_at [of "pre @ ?t @ ?o'" "tp_assignment_count tp" ?e] by simp
qed

text \<open>The plans of a terminal among those of a frame: the last one is kept.\<close>

definition is_for :: "tal_id \<Rightarrow> emu_tp \<Rightarrow> bool" where
  "is_for tal tp \<longleftrightarrow> ntohs (tp_tal_id tp) = tal"

fun found :: "tal_id \<Rightarrow> u8 \<Rightarrow> emu_tp list \<Rightarrow> (u8, emu_tp) omap \<Rightarrow> (u8, emu_tp) omap" where
  "found tal f [] m = m"
| "found tal f (tp # tps) m =
     found tal f tps (if is_for tal tp then omap_put f (host_tp tp) m else m)"

lemma tp_loop_finds:
  "\<exists>d'. tp_loop (length tps) tal f (length pre) (pre @ concat (map tp_bytes tps) @ post) m =
     Some (d', found tal f tps m) \<and> take (length pre) d' = pre"
proof (induction tps arbitrary: pre m)
  case Nil
  then show ?case by simp
next
  case (Cons tp tps)
  let ?rest = "concat (map tp_bytes tps) @ post"
  let ?d = "pre @ tp_bytes tp @ ?rest"
  note r = read_tp_at [of pre tp ?rest]
  have tal: "read16 ?d (length pre) = tp_tal_id tp" and off: "read32 ?d (length pre + 2) = tp_offset tp"
    using arg_cong [OF r, of tp_tal_id] arg_cong [OF r, of tp_offset] by (simp_all add: read_tp_def)
  show ?case
  proof (cases "is_for tal tp")
    case True
    from Cons.IH [of "pre @ tp_bytes (host_tp tp)" "omap_put f (host_tp tp) m"]
    obtain d' where d': "tp_loop (length tps) tal f (length pre + 10)
        (pre @ tp_bytes (host_tp tp) @ ?rest) (omap_put f (host_tp tp) m) =
      Some (d', found tal f tps (omap_put f (host_tp tp) m))"
      "take (length pre + 10) d' = pre @ tp_bytes (host_tp tp)" by auto
    with take_prefix [OF d'(2)] d'(1) True show ?thesis
      by (simp add: is_for_def tal off TP_SIZE_def swap_tp_at read_tp_at Let_def del: add_2_eq_Suc')
  next
    case False
    from Cons.IH [of "pre @ tp_bytes tp" m]
    obtain d' where d': "tp_loop (length tps) tal f (length pre + 10)
        (pre @ tp_bytes tp @ ?rest) m = Some (d', found tal f tps m)"
      "take (length pre + 10) d' = pre @ tp_bytes tp" by auto
    with take_prefix [OF d'(2)] d'(1) False show ?thesis by (simp add: is_for_def tal TP_SIZE_def)
  qed
qed

lemma omap_put_put [simp]: "omap_put k v (omap_put k w m) = omap_put k v m"
  by (induction k w m rule: omap_put.induct) auto

lemma find_append: "find P (xs @ ys) = (case find P xs of None \<Rightarrow> find P ys | Some x \<Rightarrow> Some x)"
  by (induction xs) auto

lemma found_last:
  "found tal f tps m =
     (case find (is_for tal) (rev tps) of None \<Rightarrow> m | Some tp \<Rightarrow> omap_put f (host_tp tp) m)"
  by (induction tps arbitrary: m) (auto simp: find_append split: option.splits)

type_synonym plan = "tal_id \<times> u32 \<times> u16 \<times> fmt_id \<times> u8"

fun add_plans :: "ttp \<Rightarrow> time_frame \<Rightarrow> plan list \<Rightarrow> ttp" where
  "add_plans t f [] = t"
| "add_plans t f ((tal, offset, cnt, fmt, prio) # ps) =
     add_plans (fst (add_time_plan t f tal offset cnt fmt prio)) f ps"

fun stored_plan :: "plan \<Rightarrow> emu_tp" where
  "stored_plan (tal, offset, cnt, fmt, prio) =
     \<lparr>tp_tal_id = htons tal, tp_offset = htonl offset, tp_assignment_count = htons cnt,
      tp_fmt_id = fmt, tp_priority = prio\<rparr>"

fun received_plan :: "plan \<Rightarrow> emu_tp" where
  "received_plan (tal, offset, cnt, fmt, prio) =
     \<lparr>tp_tal_id = htons tal, tp_offset = offset, tp_assignment_count = cnt,
      tp_fmt_id = fmt, tp_priority = prio\<rparr>"

lemma host_stored_plan: "host_tp (stored_plan p) = received_plan p"
  by (cases p) (simp add: host_tp_def)

lemma is_for_stored_plan: "is_for tal (stored_plan p) \<longleftrightarrow> fst p = tal"
  by (cases p) (simp add: is_for_def)

lemma find_map_stored:
  "find (is_for tal) (rev (map stored_plan ps)) =
     map_option stored_plan (find (\<lambda>p. fst p = tal) (rev ps))"
  by (induction ps) (auto simp: find_append is_for_stored_plan split: option.split)

lemma add_plans_more:
  "ttp_frames t = [(f, tps)] \<Longrightarrow>
   add_plans t f ps = t\<lparr>ttp_frames := [(f, tps @ map stored_plan ps)]\<rparr>"
proof (induction ps arbitrary: t tps)
  case Nil
  then show ?case by simp
next
  case (Cons p ps)
  obtain tal off cnt fmt prio where p: "p = (tal, off, cnt, fmt, prio)" by (cases p)
  have "ttp_frames (fst (add_time_plan t f tal off cnt fmt prio)) = [(f, tps @ [stored_plan p])]"
    using Cons.prems by (simp add: add_time_plan_def p)
  from Cons.IH [OF this] Cons.prems show ?case by (simp add: p add_time_plan_def)
qed

lemma add_plans_new:
  "ps \<noteq> [] \<Longrightarrow> ttp_frames t = [] \<Longrightarrow> add_plans t f ps = t\<lparr>ttp_frames := [(f, map stored_plan ps)]\<rparr>"
proof (cases ps)
  case (Cons p qs)
  assume t: "ttp_frames t = []"
  obtain tal off cnt fmt prio where p: "p = (tal, off, cnt, fmt, prio)" by (cases p)
  have "ttp_frames (fst (add_time_plan t f tal off cnt fmt prio)) = [(f, [stored_plan p])]"
    using t by (simp add: add_time_plan_def p)
  from add_plans_more [OF this, of qs] t show ?thesis
    by (simp add: Cons p add_time_plan_def)
qed simp

lemma new_ttp_bytes:
  "length (cont_data (new_ttp grp sf)) = 8" "read16 (cont_data (new_ttp grp sf)) 3 = grp"
  "read16 (cont_data (new_ttp grp sf)) 5 = htons sf" "ttp_frames (new_ttp grp sf) = []"
  by (simp_all add: new_ttp_def frame_defs dvb_frame.defs ttp_sizes field_simps_rw
      read16_write_at_other Let_def)

text \<open>The bytes of a plan with one frame.\<close>

lemma build_one_frame:
  assumes hdr: "length (cont_data t) = 8" and fs: "ttp_frames t = [(f, tps)]"
  shows "\<exists>h. length h = 8 \<and> cont_data (ttp_build junk t) =
      h @ f # bytes16 (of_nat (length tps)) @ concat (map tp_bytes tps) \<and>
    read8 h 7 = 1 \<and> read16 h 0 = htons (of_nat (11 + 10 * length tps)) \<and>
    read16 h 3 = read16 (cont_data t) 3 \<and> read16 h 5 = read16 (cont_data t) 5"
proof -
  let ?n = "of_nat (length tps) :: u16" and ?l = "htons (of_nat (11 + 10 * length tps))"
  let ?h = "write16 (write8 (cont_data t) 7 1) 0 ?l"
  have "write16 (cont_data t @ [f] @ bytes16 (junk 0) @ concat (map tp_bytes tps)) 9 ?n =
      (cont_data t @ [f]) @ bytes16 ?n @ concat (map tp_bytes tps)"
    using write_middle [of 9 "cont_data t @ [f]" "bytes16 (junk 0)" "bytes16 ?n"
        "concat (map tp_bytes tps)"] hdr by simp
  then have "cont_data (ttp_build junk t) =
      write16 (write8 (cont_data t @ f # bytes16 ?n @ concat (map tp_bytes tps)) 7 1) 0 ?l"
    by (simp add: ttp_build_def fs ttp_sizes ttp_length_def set_message_length_def)
  also have "\<dots> = ?h @ f # bytes16 ?n @ concat (map tp_bytes tps)"
    using hdr by (simp add: write_at_append)
  finally show ?thesis using hdr
    by (intro exI [of _ ?h]) (simp add: field_simps_rw read16_write_at_other)
qed

lemma ttp_plan_found:
  fixes grp :: group_id and sf :: time_sf and f :: time_frame and junk :: "nat \<Rightarrow> u16"
  assumes "ps \<noteq> []" and "11 + 10 * length ps < 2 ^ 16"
  defines "t \<equiv> ttp_build junk (add_plans (new_ttp grp sf) f ps)"
  shows "ttp_group_id t = grp \<and> ttp_superframe_count t = sf \<and>
    (\<exists>t'. get_tp t tal [] = Some (t',
       (case find (\<lambda>p. fst p = tal) (rev ps) of None \<Rightarrow> [] | Some p \<Rightarrow> [(f, received_plan p)]),
       True))"
proof -
  let ?t = "add_plans (new_ttp grp sf) f ps" and ?tps = "map stored_plan ps"
  note new = new_ttp_bytes [of grp sf]
  have t: "?t = (new_ttp grp sf)\<lparr>ttp_frames := [(f, ?tps)]\<rparr>"
    using assms(1) new(4) by (rule add_plans_new)
  obtain h where h: "length h = 8" "read8 h 7 = 1" "read16 h 0 = htons (of_nat (11 + 10 * length ps))"
      "read16 h 3 = grp" "read16 h 5 = htons sf" and
    d: "cont_data t = h @ f # bytes16 (of_nat (length ps)) @ concat (map tp_bytes ?tps)"
    using build_one_frame [of ?t f ?tps junk] new by (auto simp: t t_def)
  let ?pre = "h @ f # bytes16 (of_nat (length ps))"
  have "unat (of_nat (11 + 10 * length ps) :: u16) = 11 + 10 * length ps"
    using assms(2) by (simp only: unat_of_nat take_bit_nat_eq_self len_num1 len_bit0) simp
  then have len: "unat (get_message_length t) = 11 + 10 * length ps"
    using h(1,3) by (simp add: get_message_length_def d read16_append)
  have n: "unat (of_nat (length ps) :: u16) = length ps"
    using assms(2) by (simp add: unat_of_nat take_bit_nat_eq_self)
  have cnt: "read16 (cont_data t) 9 = of_nat (length ps)"
    using read16_at [of "h @ [f]" "of_nat (length ps)" "concat (map tp_bytes ?tps)"] h(1)
    by (simp add: d)
  have f: "read8 (cont_data t) 8 = f" using read8_at [of h f] h(1) by (simp add: d)
  obtain d' where "tp_loop (length ps) tal f 11 (cont_data t) [] = Some (d', found tal f ?tps [])"
    using tp_loop_finds [of ?tps tal f ?pre "[]" "[]"] h(1) by (auto simp: d)
  then have "get_tp t tal [] = Some (t\<lparr>cont_data := d'\<rparr>, found tal f ?tps [], True)"
    using h(1,2) n f cnt by (simp add: get_tp_def len ttp_sizes d read8_append)
  moreover have "found tal f ?tps [] = (case find (\<lambda>p. fst p = tal) (rev ps) of
      None \<Rightarrow> [] | Some p \<Rightarrow> [(f, received_plan p)])"
    by (auto simp: found_last find_map_stored host_stored_plan split: option.split)
  moreover have "ttp_group_id t = grp" "ttp_superframe_count t = sf"
    using h by (simp_all add: ttp_group_id_def ttp_superframe_count_def d read16_append)
  ultimately show ?thesis by auto
qed

text \<open>C38: The plans of one frame reach the terminals.  When the control centre adds plans for one
  frame and builds the message, the message carries its group and superframe, and a terminal that
  looks for its plan finds exactly the last one that was added for it, with the offset and the
  number of timeslots it was given, or none when there is none; the search succeeds in both
  cases.\<close>

theorem ttp_plan_received:
  fixes grp :: group_id and sf :: time_sf and f :: time_frame and junk :: "nat \<Rightarrow> u16"
  assumes "ps \<noteq> []" and "11 + 10 * length ps < 2 ^ 16"
  defines "t \<equiv> ttp_build junk (add_plans (new_ttp grp sf) f ps)"
  shows "ttp_group_id t = grp \<and> ttp_superframe_count t = sf \<and>
    (\<exists>t'. get_tp t tal [] = Some (t',
       (case find (\<lambda>p. fst p = tal) (rev ps) of None \<Rightarrow> [] | Some p \<Rightarrow> [(f, received_plan p)]),
       True))"
  unfolding t_def by (rule ttp_plan_found [OF assms(1,2)])

theorem ttp_plan_received_witness:
  "\<exists>t'. get_tp (ttp_build (\<lambda>_. 0) (add_plans (new_ttp 1 300) 0 [(5, 7, 12, 3, 0), (6, 0, 4, 3, 0)]))
     6 [] = Some (t', [(0, received_plan (6, 0, 4, 3, 0))], True)"
  using ttp_plan_received [of "[(5, 7, 12, 3, 0), (6, 0, 4, 3, 0)]" "\<lambda>_. 0" 1 300 0 6]
  by (simp del: add_plans.simps received_plan.simps)

end
