(* ===== verification/Fmt.thy ===== *)
theory Fmt
  imports Floating Ordered_Map
begin

text \<open>
  The forward and return modulation and coding schemes (\<^verbatim>\<open>opensand-core/src/dvb/fmt\<close>:
  \<^verbatim>\<open>ModulationTypes.cpp\<close>, \<^verbatim>\<open>CodingTypes.cpp\<close>, \<^verbatim>\<open>FmtDefinition.cpp\<close>,
  \<^verbatim>\<open>FmtDefinitionTable.cpp\<close>, \<^verbatim>\<open>StFmtSimu.cpp\<close>, and \<^verbatim>\<open>dvb/utils/FmtGroup.cpp\<close>): the
  table of the schemes, the choice of a scheme for a C/N, the groups of schemes of a carrier, and
  the scheme each terminal currently uses.
\<close>

section \<open>Modulations and codings\<close>

definition modulation_efficiencies :: "(string \<times> u32) list" where
  "modulation_efficiencies =
     [(''BPSK'', 1), (''Pi/2BPSK'', 1), (''QPSK'', 2), (''8PSK'', 3), (''16APSK'', 4),
      (''16QAM'', 4), (''32APSK'', 5)]"

definition efficiency_of :: "string \<Rightarrow> u32" where
  "efficiency_of label = (case map_of modulation_efficiencies label of None \<Rightarrow> 1 | Some e \<Rightarrow> e)"

text \<open>The rates are \<^verbatim>\<open>double\<close> quotients stored as \<^verbatim>\<open>float\<close>.\<close>

definition coding_fractions :: "(string \<times> rat) list" where
  "coding_fractions =
     [(''1/4'', 1 / 4), (''1/3'', 1 / 3), (''2/5'', 2 / 5), (''1/2'', 1 / 2), (''3/5'', 3 / 5),
      (''2/3'', 2 / 3), (''3/4'', 3 / 4), (''4/5'', 4 / 5), (''5/6'', 5 / 6), (''6/7'', 6 / 7),
      (''8/9'', 8 / 9), (''9/10'', 9 / 10)]"

definition rate_of :: "string \<Rightarrow> rat" where
  "rate_of label =
     (case map_of coding_fractions label of None \<Rightarrow> 1 | Some r \<Rightarrow> fl32 (fl64 r))"

section \<open>A scheme\<close>

text \<open>No constructor sets the inverses of the efficiency and of the coding rate: they are arguments
  of the model, the values the memory held.\<close>

record fmt_def =
  fmt_def_id :: u32
  modulation_type :: string
  fmt_efficiency :: u32
  fmt_efficiency_inv :: rat
  coding_type :: string
  coding_rate :: rat
  coding_rate_inv :: rat
  spectral_efficiency :: rat
  required_es_n0 :: rat
  has_burst_length :: bool
  burst_length_sym :: vol_sym

definition new_fmt_def ::
  "rat \<Rightarrow> rat \<Rightarrow> u32 \<Rightarrow> string \<Rightarrow> string \<Rightarrow> rat \<Rightarrow> rat \<Rightarrow> vol_sym option \<Rightarrow> fmt_def" where
  "new_fmt_def any_efficiency_inv any_rate_inv ident modulation coding spectral es_n0 burst =
     \<lparr>fmt_def_id = ident, modulation_type = modulation, fmt_efficiency = efficiency_of modulation,
      fmt_efficiency_inv = any_efficiency_inv, coding_type = coding, coding_rate = rate_of coding,
      coding_rate_inv = any_rate_inv, spectral_efficiency = spectral, required_es_n0 = es_n0,
      has_burst_length = (burst \<noteq> None),
      burst_length_sym = (case burst of None \<Rightarrow> 0 | Some l \<Rightarrow> l)\<rparr>"

definition fmt_kbits_to_sym :: "fmt_def \<Rightarrow> vol_kb \<Rightarrow> vol_sym" where
  "fmt_kbits_to_sym f v =
     cceil (fl32 (fl32 (fl32 (num v * 1000) * fmt_efficiency_inv f) * coding_rate_inv f))"

definition fmt_sym_to_kbits :: "fmt_def \<Rightarrow> vol_sym \<Rightarrow> vol_kb" where
  "fmt_sym_to_kbits f v =
     cceil (fl64 (fl64 (fl64 (num v / 1000) * num (fmt_efficiency f)) * coding_rate f))"

definition add_fec :: "fmt_def \<Rightarrow> u32 \<Rightarrow> u32" where
  "add_fec f len = cfloor (fl64 (num len / coding_rate f))"

definition remove_fec :: "fmt_def \<Rightarrow> u32 \<Rightarrow> u32" where
  "remove_fec f len = cceil (fl32 (fl32 (num len) * coding_rate f))"

section \<open>The table of schemes\<close>

type_synonym fmt_table = "(fmt_id, fmt_def) omap"

definition do_fmt_id_exist :: "fmt_table \<Rightarrow> fmt_id \<Rightarrow> bool" where
  "do_fmt_id_exist t i \<longleftrightarrow> map_of t i \<noteq> None"

definition fmt_add :: "fmt_table \<Rightarrow> fmt_def option \<Rightarrow> fmt_table \<times> bool" where
  "fmt_add t f =
     (case f of
        None \<Rightarrow> (t, False)
      | Some d \<Rightarrow> (if do_fmt_id_exist t (ucast (fmt_def_id d)) then (t, False)
                  else (omap_put (ucast (fmt_def_id d)) d t, True)))"

definition get_definition :: "fmt_table \<Rightarrow> fmt_id \<Rightarrow> fmt_def option" where
  "get_definition t i = map_of t i"

definition table_efficiency :: "fmt_table \<Rightarrow> fmt_id \<Rightarrow> u32" where
  "table_efficiency t i = (case get_definition t i of None \<Rightarrow> 1 | Some d \<Rightarrow> fmt_efficiency d)"

definition table_coding_rate :: "fmt_table \<Rightarrow> fmt_id \<Rightarrow> rat" where
  "table_coding_rate t i = (case get_definition t i of None \<Rightarrow> 1 | Some d \<Rightarrow> coding_rate d)"

definition table_spectral_efficiency :: "fmt_table \<Rightarrow> fmt_id \<Rightarrow> rat" where
  "table_spectral_efficiency t i =
     (case get_definition t i of None \<Rightarrow> 0 | Some d \<Rightarrow> spectral_efficiency d)"

definition table_es_n0 :: "fmt_table \<Rightarrow> fmt_id \<Rightarrow> rat" where
  "table_es_n0 t i = (case get_definition t i of None \<Rightarrow> 0 | Some d \<Rightarrow> required_es_n0 d)"

definition table_burst_length :: "fmt_table \<Rightarrow> fmt_id \<Rightarrow> vol_sym" where
  "table_burst_length t i =
     (case get_definition t i of None \<Rightarrow> 0 | Some d \<Rightarrow> burst_length_sym d)"

definition table_has_burst_length :: "fmt_table \<Rightarrow> fmt_id \<Rightarrow> bool" where
  "table_has_burst_length t i =
     (case get_definition t i of None \<Rightarrow> False | Some d \<Rightarrow> has_burst_length d)"

definition table_sym_to_kbits :: "fmt_table \<Rightarrow> fmt_id \<Rightarrow> vol_sym \<Rightarrow> vol_kb" where
  "table_sym_to_kbits t i v =
     (case get_definition t i of None \<Rightarrow> 0 | Some d \<Rightarrow> fmt_sym_to_kbits d v)"

definition table_kbits_to_sym :: "fmt_table \<Rightarrow> fmt_id \<Rightarrow> vol_kb \<Rightarrow> vol_sym" where
  "table_kbits_to_sym t i v =
     (case get_definition t i of None \<Rightarrow> 0 | Some d \<Rightarrow> fmt_kbits_to_sym d v)"

definition get_min_id :: "fmt_table \<Rightarrow> fmt_id" where
  "get_min_id t =
     (case t of [] \<Rightarrow> 0
      | (i, _) # rest \<Rightarrow> foldl (\<lambda>m (j, _). if j < m then j else m) i rest)"

definition get_max_id :: "fmt_table \<Rightarrow> fmt_id" where
  "get_max_id t =
     (case t of [] \<Rightarrow> 0
      | (i, _) # rest \<Rightarrow> foldl (\<lambda>m (j, _). if j > m then j else m) i rest)"

fun required_loop :: "fmt_table \<Rightarrow> rat \<Rightarrow> rat \<Rightarrow> fmt_id \<Rightarrow> fmt_id" where
  "required_loop [] cni previous modcod = modcod"
| "required_loop ((i, d) # rest) cni previous modcod =
     (if required_es_n0 d > cni then required_loop rest cni previous modcod
      else if required_es_n0 d \<ge> previous then required_loop rest cni (required_es_n0 d) i
      else required_loop rest cni previous modcod)"

definition get_required_modcod :: "fmt_table \<Rightarrow> rat \<Rightarrow> fmt_id" where
  "get_required_modcod t cni =
     (let previous = (case t of [] \<Rightarrow> 0 | (_, d) # _ \<Rightarrow> required_es_n0 d);
          modcod = required_loop t cni previous 0
      in if modcod \<le> 0 then get_min_id t else modcod)"

section \<open>Groups of schemes\<close>

fun tokens_from :: "char \<Rightarrow> string \<Rightarrow> string \<Rightarrow> string list" where
  "tokens_from d cur [] = (if cur = [] then [] else [rev cur])"
| "tokens_from d cur (c # cs) =
     (if c = d then (if cur = [] then tokens_from d [] cs else rev cur # tokens_from d [] cs)
      else tokens_from d (c # cur) cs)"

definition tokenize :: "char \<Rightarrow> string \<Rightarrow> string list" where
  "tokenize d s = tokens_from d [] s"

text \<open>Reading an \<^verbatim>\<open>unsigned int\<close> from a stream fails without a digit or out of its range.\<close>

definition read_unsigned :: "string \<Rightarrow> nat option" where
  "read_unsigned s =
     (let t = (case skip_blanks s of c # cs \<Rightarrow> if c = CHR ''+'' then cs else c # cs | [] \<Rightarrow> [])
      in case t of
           [] \<Rightarrow> None
         | c # cs \<Rightarrow> (if is_digit c \<and> scan_digits t 0 < 2 ^ 32 then Some (scan_digits t 0) else None))"

text \<open>A member of a group: an identifier and its Es/N0, stored as a \<^verbatim>\<open>float\<close>.\<close>

type_synonym fmt_member = "fmt_id \<times> rat"

definition add_member :: "fmt_table \<Rightarrow> fmt_id \<Rightarrow> fmt_member list \<Rightarrow> fmt_member list \<times> bool" where
  "add_member t v ids =
     (if v \<in> fst ` set ids then (ids, True)
      else if table_es_n0 t v = 0 then (ids, False)
      else (ids @ [(v, fl32 (table_es_n0 t v))], True))"

text \<open>The identifiers between two tokens: \<open>n\<close> values from \<open>i\<close> on.\<close>

fun add_between :: "fmt_table \<Rightarrow> nat \<Rightarrow> fmt_id \<Rightarrow> fmt_member list \<Rightarrow> fmt_member list" where
  "add_between t 0 i ids = ids"
| "add_between t (Suc n) i ids = add_between t n (i + 1) (fst (add_member t i ids))"

fun parse_range ::
  "fmt_table \<Rightarrow> string list \<Rightarrow> fmt_id \<Rightarrow> fmt_member list \<Rightarrow> fmt_member list" where
  "parse_range t [] previous ids = ids"
| "parse_range t (s # ss) previous ids =
     (case read_unsigned s of
        None \<Rightarrow> parse_range t ss previous ids
      | Some n \<Rightarrow>
          (let v = of_nat n :: fmt_id; (ids', ok) = add_member t v ids in
           if \<not> ok then parse_range t ss previous ids'
           else if previous = 0 then parse_range t ss v ids'
           else
             (let first = min (unat previous + 1) (unat v + 1) mod 256;
                  last = max (unat previous) (unat v)
              in parse_range t ss v (add_between t (last - first) (of_nat first) ids'))))"

definition parse_group :: "fmt_table \<Rightarrow> string \<Rightarrow> fmt_member list" where
  "parse_group t ids =
     sort_key snd
       (foldl (\<lambda>acc s. parse_range t (tokenize CHR ''-'' s) 0 acc) [] (tokenize CHR '';'' ids))"

text \<open>\<^verbatim>\<open>getNearest\<close>: the members are scanned from the least robust one.\<close>

definition get_nearest :: "fmt_table \<Rightarrow> fmt_member list \<Rightarrow> fmt_id \<Rightarrow> fmt_id" where
  "get_nearest t members i =
     (let es_n0 = table_es_n0 t i in
      if es_n0 = 0 then 0
      else (case find (\<lambda>m. snd m \<le> fl32 es_n0) (rev members) of None \<Rightarrow> 0 | Some m \<Rightarrow> fst m))"

definition get_max_fmt_id :: "fmt_member list \<Rightarrow> fmt_id option" where
  "get_max_fmt_id members = (if members = [] then None else Some (fst (last members)))"

section \<open>The scheme of each terminal\<close>

record st_fmt =
  st_id :: tal_id
  cni_has_changed :: bool
  simu_column :: nat
  current_modcod_id :: fmt_id

definition new_st_fmt :: "tal_id \<Rightarrow> fmt_id \<Rightarrow> st_fmt" where
  "new_st_fmt i modcod = \<lparr>st_id = i, cni_has_changed = True, simu_column = unat i,
     current_modcod_id = modcod\<rparr>"

text \<open>\<^verbatim>\<open>updateModcodId\<close> without a margin, \<^verbatim>\<open>updateCni\<close>, which calls it so, and
  \<^verbatim>\<open>updateModcodId\<close> with a margin, which calls \<^verbatim>\<open>updateCni\<close>.\<close>

definition set_modcod :: "fmt_id \<Rightarrow> st_fmt \<Rightarrow> st_fmt" where
  "set_modcod i s = s\<lparr>cni_has_changed := (cni_has_changed s \<or> i \<noteq> current_modcod_id s),
     current_modcod_id := i\<rparr>"

definition update_cni :: "fmt_table \<Rightarrow> rat \<Rightarrow> rat \<Rightarrow> st_fmt \<Rightarrow> st_fmt" where
  "update_cni t cni margin s =
     set_modcod (get_required_modcod t (if margin \<noteq> 0 then fl64 (cni - margin) else cni)) s"

definition update_modcod_id :: "fmt_table \<Rightarrow> fmt_id \<Rightarrow> rat \<Rightarrow> st_fmt \<Rightarrow> st_fmt" where
  "update_modcod_id t i margin s =
     (if margin \<noteq> 0 \<and> i < current_modcod_id s
      then update_cni t (table_es_n0 t (current_modcod_id s)) margin s
      else set_modcod i s)"

definition get_required_cni :: "fmt_table \<Rightarrow> st_fmt \<Rightarrow> st_fmt \<times> rat" where
  "get_required_cni t s = (s\<lparr>cni_has_changed := False\<rparr>, table_es_n0 t (current_modcod_id s))"

record st_list =
  sts :: "(tal_id, st_fmt) omap"
  acm_loop_margin :: rat
  st_ids :: "tal_id set"

definition new_st_list :: st_list where
  "new_st_list = \<lparr>sts = [], acm_loop_margin = 0, st_ids = {}\<rparr>"

definition is_st_present :: "st_list \<Rightarrow> tal_id \<Rightarrow> bool" where
  "is_st_present l i \<longleftrightarrow> i \<in> st_ids l"

definition del_st :: "st_list \<Rightarrow> tal_id \<Rightarrow> st_list \<times> bool" where
  "del_st l i =
     (if map_of (sts l) i = None then (l, False)
      else (l\<lparr>sts := omap_del i (sts l), st_ids := st_ids l - {i}\<rparr>, True))"

text \<open>\<^verbatim>\<open>std::map::insert\<close> keeps an entry that is already there.\<close>

definition add_st :: "st_list \<Rightarrow> tal_id \<Rightarrow> fmt_id \<Rightarrow> st_list \<times> bool" where
  "add_st l i modcod =
     (let l1 = (if is_st_present l i then fst (del_st l i) else l);
          m = (if map_of (sts l1) i = None then omap_put i (new_st_fmt i modcod) (sts l1)
               else sts l1)
      in (l1\<lparr>sts := m, st_ids := insert i (st_ids l1)\<rparr>, True))"

definition list_set_required_cni :: "fmt_table \<Rightarrow> st_list \<Rightarrow> tal_id \<Rightarrow> rat \<Rightarrow> st_list" where
  "list_set_required_cni t l i cni =
     (if map_of (sts l) i = None then l
      else l\<lparr>sts := omap_update (update_cni t cni (acm_loop_margin l)) i (sts l)\<rparr>)"

definition list_get_required_cni :: "fmt_table \<Rightarrow> st_list \<Rightarrow> tal_id \<Rightarrow> st_list \<times> rat" where
  "list_get_required_cni t l i =
     (case map_of (sts l) i of
        None \<Rightarrow> (l, 0)
      | Some s \<Rightarrow> (l\<lparr>sts := omap_update (\<lambda>s. fst (get_required_cni t s)) i (sts l)\<rparr>,
                  snd (get_required_cni t s)))"

definition list_modcod_id :: "st_list \<Rightarrow> tal_id \<Rightarrow> fmt_id" where
  "list_modcod_id l i = (case map_of (sts l) i of None \<Rightarrow> 0 | Some s \<Rightarrow> current_modcod_id s)"

definition list_cni_has_changed :: "st_list \<Rightarrow> tal_id \<Rightarrow> bool" where
  "list_cni_has_changed l i =
     (case map_of (sts l) i of None \<Rightarrow> False | Some s \<Rightarrow> cni_has_changed s)"

fun lower_loop :: "(tal_id \<times> st_fmt) list \<Rightarrow> fmt_id \<Rightarrow> tal_id \<Rightarrow> tal_id" where
  "lower_loop [] low tal = tal"
| "lower_loop ((i, s) # rest) low tal =
     (if current_modcod_id s < low then lower_loop rest (current_modcod_id s) i
      else lower_loop rest low tal)"

definition tal_with_lower_modcod :: "st_list \<Rightarrow> tal_id" where
  "tal_with_lower_modcod l = lower_loop (sts l) (- 1) (- 1)"

section \<open>The scheme chosen for a C/N\<close>

definition supports :: "rat \<Rightarrow> fmt_id \<times> fmt_def \<Rightarrow> bool" where
  "supports cni entry \<longleftrightarrow> required_es_n0 (snd entry) \<le> cni"

lemma required_loop_best:
  "(required_loop t cni p m = m \<and> (\<forall>x \<in> set t. supports cni x \<longrightarrow> required_es_n0 (snd x) < p)) \<or>
   (\<exists>d. (required_loop t cni p m, d) \<in> set t \<and> p \<le> required_es_n0 d \<and> required_es_n0 d \<le> cni \<and>
     (\<forall>x \<in> set t. supports cni x \<longrightarrow> required_es_n0 (snd x) \<le> required_es_n0 d))"
proof (induction t cni p m rule: required_loop.induct)
  case (1 cni p m)
  then show ?case by simp
next
  case (2 i d rest cni p m)
  show ?case
  proof (cases "required_es_n0 d > cni")
    case True
    with 2(1) show ?thesis by (auto simp: supports_def)
  next
    case a: False
    show ?thesis
    proof (cases "required_es_n0 d \<ge> p")
      case True
      note IH = 2(2) [OF a True]
      have l: "required_loop ((i, d) # rest) cni p m = required_loop rest cni (required_es_n0 d) i"
        using a True by simp
      show ?thesis
      proof (cases "\<exists>d'. (required_loop rest cni (required_es_n0 d) i, d') \<in> set rest \<and>
          required_es_n0 d \<le> required_es_n0 d' \<and> required_es_n0 d' \<le> cni \<and>
          (\<forall>x \<in> set rest. supports cni x \<longrightarrow> required_es_n0 (snd x) \<le> required_es_n0 d')")
        case t: True
        then obtain d' where d': "(required_loop rest cni (required_es_n0 d) i, d') \<in> set rest"
          "required_es_n0 d \<le> required_es_n0 d'" "required_es_n0 d' \<le> cni"
          "\<forall>x \<in> set rest. supports cni x \<longrightarrow> required_es_n0 (snd x) \<le> required_es_n0 d'" by blast
        then show ?thesis using True unfolding l by (intro disjI2 exI [of _ d']) simp
      next
        case False
        with IH have "required_loop rest cni (required_es_n0 d) i = i"
          "\<forall>x \<in> set rest. supports cni x \<longrightarrow> required_es_n0 (snd x) < required_es_n0 d" by blast+
        then show ?thesis using a True unfolding l
          by (intro disjI2 exI [of _ d]) (auto simp: not_less intro: less_imp_le)
      qed
    next
      case False
      have l: "required_loop ((i, d) # rest) cni p m = required_loop rest cni p m"
        using a False by simp
      have d: "required_es_n0 d < p" using False by simp
      from 2(3) [OF a False] show ?thesis
      proof (elim disjE exE conjE)
        fix d' assume "(required_loop rest cni p m, d') \<in> set rest" "p \<le> required_es_n0 d'"
          "required_es_n0 d' \<le> cni"
          "\<forall>x \<in> set rest. supports cni x \<longrightarrow> required_es_n0 (snd x) \<le> required_es_n0 d'"
        with d show ?thesis unfolding l by (intro disjI2 exI [of _ d']) simp
      qed (use d in \<open>simp add: l not_le\<close>)
    qed
  qed
qed

text \<open>The scheme chosen for a C/N.  In a table whose first scheme is its most robust one, and
  that does not use the identifier 0, the choice is the scheme with the highest required Es/N0
  among those the C/N supports; when it supports none, the choice is the smallest identifier of
  the table.\<close>

theorem required_modcod_best:
  assumes first: "t = (i0, d0) # rest" "\<forall>x \<in> set t. required_es_n0 d0 \<le> required_es_n0 (snd x)"
    and ids: "\<forall>x \<in> set t. fst x \<noteq> 0" and wf: "omap_wf t"
  shows "if \<exists>x \<in> set t. supports cni x
    then \<exists>d. get_definition t (get_required_modcod t cni) = Some d \<and> required_es_n0 d \<le> cni \<and>
      (\<forall>x \<in> set t. supports cni x \<longrightarrow> required_es_n0 (snd x) \<le> required_es_n0 d)
    else get_required_modcod t cni = get_min_id t"
proof -
  let ?r = "required_loop t cni (required_es_n0 d0) 0"
  have req: "get_required_modcod t cni = (if ?r \<le> 0 then get_min_id t else ?r)"
    by (simp add: get_required_modcod_def first(1))
  show ?thesis
  proof (cases "\<exists>x \<in> set t. supports cni x")
    case True
    then obtain x where x: "x \<in> set t" "supports cni x" by blast
    with first(2) have "\<not> required_es_n0 (snd x) < required_es_n0 d0" by (simp add: not_less)
    with x required_loop_best [of t cni "required_es_n0 d0" 0] obtain d where
      d: "(?r, d) \<in> set t" "required_es_n0 d \<le> cni"
        "\<forall>x \<in> set t. supports cni x \<longrightarrow> required_es_n0 (snd x) \<le> required_es_n0 d" by blast
    from ids d(1) have "?r \<noteq> 0" by force
    then have "\<not> ?r \<le> 0" by (simp add: word_le_nat_alt unat_gt_0)
    with req have "get_required_modcod t cni = ?r" by simp
    moreover have "map_of t ?r = Some d" using d(1) omap_wf_distinct [OF wf] by simp
    ultimately show ?thesis using True d by (simp add: get_definition_def)
  next
    case False
    have "?r = 0"
      using required_loop_best [of t cni "required_es_n0 d0" 0] False by (auto simp: supports_def)
    with req False show ?thesis by simp
  qed
qed

theorem required_modcod_best_witness:
  "let q = new_fmt_def 0 0 1 ''QPSK'' ''1/3'' (2 / 3) 1 None;
       e = new_fmt_def 0 0 2 ''8PSK'' ''2/3'' 2 7 None
   in get_required_modcod [(1, q), (2, e)] 5 = 1"
proof -
  define q e where "q = new_fmt_def 0 0 1 ''QPSK'' ''1/3'' (2 / 3) 1 None"
    and "e = new_fmt_def 0 0 2 ''8PSK'' ''2/3'' 2 7 None"
  have r: "required_es_n0 q = 1" "required_es_n0 e = 7" by (simp_all add: q_def e_def new_fmt_def_def)
  have "\<exists>d. get_definition [(1, q), (2, e)] (get_required_modcod [(1, q), (2, e)] 5) = Some d \<and>
      required_es_n0 d \<le> 5"
    using required_modcod_best [of "[(1, q), (2, e)]" 1 q "[(2, e)]" 5] r
    by (simp add: omap_wf_def supports_def) blast
  then show ?thesis using r
    by (auto simp: q_def [symmetric] e_def [symmetric] get_definition_def split: if_splits)
qed

section \<open>The nearest scheme of a group\<close>

lemma find_rev_sorted:
  assumes "sorted (map f xs)" "find (\<lambda>x. f x \<le> b) (rev xs) = Some m"
  shows "m \<in> set xs \<and> f m \<le> b \<and> (\<forall>x \<in> set xs. f x \<le> b \<longrightarrow> f x \<le> f m)"
  using assms
proof (induction xs rule: rev_induct)
  case (snoc x xs)
  then show ?case by (force simp: sorted_append split: if_splits)
qed simp

text \<open>The scheme a carrier serves.  The nearest scheme of the group read from a configuration
  string is a member of the group that is at most as demanding as the desired one, and no member
  in between exists; 0 means that there is no member that robust (or that the desired scheme is
  unknown or requires exactly 0 dB).\<close>

theorem nearest_scheme:
  fixes t :: fmt_table and ids :: string and i :: fmt_id
  defines "members \<equiv> parse_group t ids"
  assumes "table_es_n0 t i \<noteq> 0"
  shows "(get_nearest t members i = 0 \<and> (\<forall>m \<in> set members. fl32 (table_es_n0 t i) < snd m)) \<or>
    (\<exists>m \<in> set members. get_nearest t members i = fst m \<and> snd m \<le> fl32 (table_es_n0 t i) \<and>
       (\<forall>m' \<in> set members. snd m' \<le> fl32 (table_es_n0 t i) \<longrightarrow> snd m' \<le> snd m))"
proof -
  let ?f = "find (\<lambda>m. snd m \<le> fl32 (table_es_n0 t i)) (rev members)"
  have sorted: "sorted (map snd members)" by (simp add: members_def parse_group_def)
  show ?thesis
  proof (cases ?f)
    case None
    then have "\<forall>m \<in> set members. fl32 (table_es_n0 t i) < snd m" by (force simp: find_None_iff not_le)
    with None assms(2) show ?thesis by (simp add: get_nearest_def)
  next
    case (Some m)
    from find_rev_sorted [OF sorted Some] Some assms(2) show ?thesis by (auto simp: get_nearest_def)
  qed
qed

theorem nearest_scheme_witness:
  "let q = new_fmt_def 0 0 1 ''QPSK'' ''1/3'' (2 / 3) 1 None; t = [(1, q)]
   in get_nearest t (parse_group t ''1'') 1 = 1"
proof -
  define q where "q = new_fmt_def 0 0 1 ''QPSK'' ''1/3'' (2 / 3) 1 None"
  have es: "table_es_n0 [(1, q)] 1 = 1"
    by (simp add: table_es_n0_def get_definition_def q_def new_fmt_def_def)
  have one: "fl32 1 = 1" using fl_of_int [of 1 24] by simp
  have "parse_group [(1, q)] ''1'' = [(1, 1)]"
    by (simp add: parse_group_def tokenize_def read_unsigned_def is_digit_def add_member_def es one)
  with nearest_scheme [of "[(1, q)]" 1 "''1''"] es one show ?thesis by (auto simp: q_def [symmetric])
qed

section \<open>Forward error correction\<close>

lemma coding_fraction_bounds: "map_of coding_fractions label = Some q \<Longrightarrow> 1 / 4 \<le> q \<and> q \<le> 9 / 10"
  by (simp add: coding_fractions_def split: if_splits)

lemma rate_of_cases:
  "rate_of label = 1 \<or>
   (1 / 5 \<le> rate_of label \<and> rate_of label \<le> 19 / 20 \<and>
    (\<exists>b. rate_of label * 2 ^ 26 = of_int b))"
proof (cases "map_of coding_fractions label")
  case (Some q)
  then have r: "rate_of label = fl32 (fl64 q)" by (simp add: rate_of_def)
  have q: "1 / 4 \<le> q" "q \<le> 9 / 10" using coding_fraction_bounds [OF Some] by simp_all
  then have x: "9 / 40 \<le> fl64 q" "fl64 q \<le> 37 / 40" using fl_bounds [of q 53] by simp_all
  then have "1 / 5 \<le> fl32 (fl64 q)" "fl32 (fl64 q) \<le> 19 / 20"
    using fl_bounds [of "fl64 q" 24] by simp_all
  moreover have "\<exists>b. fl32 (fl64 q) * 2 ^ 26 = of_int b"
    using x by (intro fl_grid) (simp_all add: power_int_def power_one_over)
  ultimately show ?thesis by (simp add: r)
qed (simp add: rate_of_def)

lemma floor_quotient:
  fixes r :: rat and n :: nat
  assumes r: "1 / 5 \<le> r" "r \<le> 1" "r * 2 ^ 26 = of_int b" and n: "n < 2 ^ 16"
  defines "m \<equiv> \<lfloor>fl64 (of_nat n / r)\<rfloor>"
  shows "of_int m * r \<le> of_nat n" "of_nat n - r - 1 / 2 ^ 20 \<le> of_int m * r" "0 \<le> m" "m < 2 ^ 19"
proof -
  let ?q = "of_nat n / r"
  have r0: "0 < r" using r(1) by simp
  have n': "rat_of_nat n < 2 ^ 16" using n by (metis of_nat_less_iff of_nat_numeral of_nat_power)
  have q: "0 \<le> ?q" "?q * r = of_nat n" using r0 by simp_all
  have "of_nat n * 1 \<le> of_nat n * (5 * r)" using r(1) by (intro mult_left_mono) simp_all
  then have "?q \<le> of_nat n * 5" using r0 by (simp add: pos_divide_le_eq mult.assoc)
  then have q19: "?q < 2 ^ 19 - 1" using n' by simp
  note f = fl_bounds [OF q(1), of 53]
  have m: "of_int m \<le> fl64 ?q" "fl64 ?q - 1 < of_int m"
    using floor_correct [of "fl64 ?q"] by (simp_all add: m_def)
  show m0: "0 \<le> m" by (simp add: m_def fl_nonneg [OF q(1)])
  show lo: "of_nat n - r - 1 / 2 ^ 20 \<le> of_int m * r"
  proof -
    have "?q - 1 - 1 / 2 ^ 30 \<le> of_int m" using f(1) m(2) q19 by simp
    then have "(?q - 1 - 1 / 2 ^ 30) * r \<le> of_int m * r" using r0 by (intro mult_right_mono) simp_all
    moreover have "(?q - 1 - 1 / 2 ^ 30) * r = of_nat n - r - r / 2 ^ 30"
      using r0 by (simp add: algebra_simps)
    ultimately show ?thesis using r(2) by simp
  qed
  show "of_int m * r \<le> of_nat n"
  proof (rule ccontr)
    assume "\<not> of_int m * r \<le> of_nat n"
    then have "rat_of_nat n * 2 ^ 26 < (of_int m * r) * 2 ^ 26" by (simp only: not_le) simp
    then have "rat_of_nat n * 2 ^ 26 < of_int m * (r * 2 ^ 26)" by (simp only: mult.assoc)
    then have "rat_of_nat n * 2 ^ 26 < of_int m * of_int b" by (simp only: r(3))
    then have "rat_of_int (int n * 2 ^ 26) < of_int (m * b)" by simp
    then have "int n * 2 ^ 26 < m * b" by (simp only: of_int_less_iff)
    then have "rat_of_int (int n * 2 ^ 26 + 1) \<le> of_int (m * b)" by (simp only: of_int_le_iff)
    then have "rat_of_nat n * 2 ^ 26 + 1 \<le> of_int m * of_int b" by simp
    then have "rat_of_nat n * 2 ^ 26 + 1 \<le> (of_int m * r) * 2 ^ 26"
      by (simp only: r(3) [symmetric] mult.assoc)
    then have "of_nat n + 1 / 2 ^ 26 \<le> of_int m * r" by simp
    moreover have "of_int m * r \<le> ?q * (1 + 1 / 2 ^ 53) * r"
      using m(1) f(2) r0 by (intro mult_right_mono) simp_all
    moreover have "?q * (1 + 1 / 2 ^ 53) * r = of_nat n * (1 + 1 / 2 ^ 53)" using r0 by simp
    ultimately show False using n' by simp
  qed
  have "rat_of_int m < 2 ^ 19" using m(1) f(2) q19 by simp
  then have "rat_of_int m < of_int (2 ^ 19)" by simp
  then show "m < 2 ^ 19" by (simp only: of_int_less_iff)
qed

text \<open>Adding and removing the error correction.  For every scheme made by the constructor and
  every length below 2^16 (all the rates and volumes of the allocation are), removing the
  correction from a length to which it was added gives back that length: neither the rounding of
  the coding rate nor those of the products and quotients can be seen.\<close>

theorem fec_roundtrip:
  assumes "coding_rate f = rate_of label" "unat v < 2 ^ 16"
  shows "remove_fec f (add_fec f v) = v"
proof -
  let ?r = "rate_of label" and ?n = "unat v"
  let ?m = "\<lfloor>fl64 (of_nat ?n / ?r)\<rfloor>"
  have n': "rat_of_nat ?n < 2 ^ 16" using assms(2) by (metis of_nat_less_iff of_nat_numeral of_nat_power)
  have r: "1 / 5 \<le> ?r \<and> ?r \<le> 1 \<and> (\<exists>b. ?r * 2 ^ 26 = of_int b)"
    using rate_of_cases [of label] by (auto intro: exI [of _ "2 ^ 26"])
  then obtain b where b: "?r * 2 ^ 26 = of_int b" by blast
  note m = floor_quotient [OF conjunct1 [OF r] _ b assms(2)]
  have r1: "?r \<le> 1" using r by simp
  note m = m [OF r1]
  have add: "unat (add_fec f v) = nat ?m"
    using m(3,4) by (simp add: add_fec_def assms(1) num_def cfloor_def trunc_def unsigned_of_int
        take_bit_int_eq_self del: of_nat_unat)
  have num_m: "fl32 (num (add_fec f v)) = of_int ?m"
    using m(3,4) fl_of_int [of ?m 24] by (simp add: num_def add del: of_nat_unat)
  let ?p = "of_int ?m * ?r"
  have p0: "0 \<le> ?p" using m(3) r by simp
  have up: "fl32 ?p \<le> of_int (int ?n)"
    using p0 m(1) assms(2) by (intro fl_le_of_int) (simp_all del: of_nat_unat)
  have low: "of_int (int ?n) - 1 < fl32 ?p"
  proof (cases "?r = 1")
    case True
    have "fl64 (of_nat ?n) = of_nat ?n" using fl_of_int [of "int ?n" 53] assms(2) by (simp del: of_nat_unat)
    with True have "?p = of_int (int ?n)" by (simp del: of_nat_unat)
    moreover have "fl32 (of_int (int ?n)) = of_int (int ?n)"
      using assms(2) by (intro fl_of_int) (simp del: of_nat_unat)
    ultimately show ?thesis by simp
  next
    case False
    with rate_of_cases [of label] have "?r \<le> 19 / 20" by simp
    with m(2) have "of_nat ?n - 24 / 25 \<le> ?p" by simp
    moreover have "?p * (1 - 1 / 2 ^ 24) \<le> fl32 ?p" by (rule fl_bounds(1) [OF p0])
    moreover have "?p < 2 ^ 16" using m(1) n' by simp
    moreover have "n - 1 < z" if "n - 24 / 25 \<le> y" "y * (1 - 1 / 2 ^ 24) \<le> z" "y < 2 ^ 16"
      for n y z :: rat using that by simp
    ultimately show ?thesis by (simp only: of_int_of_nat_eq)
  qed
  have c: "\<lceil>fl32 ?p\<rceil> = int ?n" using up low by (rule ceiling_unique [rotated])
  have "unat (cceil (fl32 ?p) :: u32) = nat \<lceil>fl32 ?p\<rceil>"
    using assms(2) by (intro unat_cceil fl_nonneg [OF p0]) (simp add: c del: of_nat_unat)
  then have "unat (remove_fec f (add_fec f v)) = ?n"
    by (simp only: remove_fec_def assms(1) num_m c nat_int)
  then show ?thesis by (simp add: word_unat_eq_iff)
qed

theorem fec_roundtrip_witness:
  "remove_fec (new_fmt_def 0 0 1 ''QPSK'' ''1/3'' (2 / 3) 1 None)
     (add_fec (new_fmt_def 0 0 1 ''QPSK'' ''1/3'' (2 / 3) 1 None) 500) = 500"
  by (rule fec_roundtrip [where label = "''1/3''"]) (simp_all add: new_fmt_def_def)

end
