(* ===== verification/Unit_Converter.thy ===== *)
theory Unit_Converter
  imports Floating
begin

text \<open>
  The conversions between volumes and rates in bits, kilobits, symbols and packets, per second and
  per frame (\<^verbatim>\<open>opensand-core/src/dvb/utils/UnitConverter.cpp\<close> and
  \<^verbatim>\<open>UnitConverterFixedSymbolLength.cpp\<close>).  The inverses are kept as \<^verbatim>\<open>float\<close>, and the
  products follow the promotions of C++: \<open>fl32\<close> where an operand is a \<^verbatim>\<open>float\<close> and none is a
  \<^verbatim>\<open>double\<close>, \<open>fl64\<close> where one is a \<^verbatim>\<open>double\<close>, wrap-around where both are unsigned
  integers.
\<close>

type_synonym rate_bps = u16

record unit_converter =
  frame_duration_ms :: time_ms
  frame_duration_ms_inv :: rat
  modulation_efficiency :: u32
  modulation_efficiency_inv :: rat
  packet_length_sym :: vol_sym
  packet_length_sym_inv :: rat

definition float_inverse :: "u32 \<Rightarrow> rat" where
  "float_inverse w = (if 0 < w then fl32 (fl64 (1 / num w)) else 0)"

definition set_frame_duration :: "time_ms \<Rightarrow> unit_converter \<Rightarrow> unit_converter" where
  "set_frame_duration d c =
     c\<lparr>frame_duration_ms := d, frame_duration_ms_inv := float_inverse d\<rparr>"

definition set_modulation_efficiency :: "u32 \<Rightarrow> unit_converter \<Rightarrow> unit_converter" where
  "set_modulation_efficiency e c =
     c\<lparr>modulation_efficiency := e, modulation_efficiency_inv := float_inverse e\<rparr>"

definition set_packet_symbol_length :: "vol_sym \<Rightarrow> unit_converter \<Rightarrow> unit_converter" where
  "set_packet_symbol_length l c =
     c\<lparr>packet_length_sym := l, packet_length_sym_inv := float_inverse l\<rparr>"

definition new_converter :: "time_ms \<Rightarrow> u32 \<Rightarrow> vol_sym \<Rightarrow> unit_converter" where
  "new_converter d e l =
     set_packet_symbol_length l (set_modulation_efficiency e (set_frame_duration d
       \<lparr>frame_duration_ms = 0, frame_duration_ms_inv = 0, modulation_efficiency = 0,
        modulation_efficiency_inv = 0, packet_length_sym = 0, packet_length_sym_inv = 0\<rparr>))"

section \<open>Conversions that do not depend on the packet length\<close>

definition bits_to_sym :: "unit_converter \<Rightarrow> vol_b \<Rightarrow> vol_sym" where
  "bits_to_sym c v = cceil (fl32 (fl32 (num v) * modulation_efficiency_inv c))"

definition sym_to_bits :: "unit_converter \<Rightarrow> vol_sym \<Rightarrow> vol_b" where
  "sym_to_bits c v = v * modulation_efficiency c"

definition kbits_to_sym :: "unit_converter \<Rightarrow> vol_kb \<Rightarrow> vol_sym" where
  "kbits_to_sym c v = cceil (fl32 (fl32 (num v * 1000) * modulation_efficiency_inv c))"

definition sym_to_kbits :: "unit_converter \<Rightarrow> vol_sym \<Rightarrow> vol_kb" where
  "sym_to_kbits c v = cceil (fl64 (num (v * modulation_efficiency c) / 1000))"

definition bits_to_kbits :: "vol_b \<Rightarrow> vol_kb" where
  "bits_to_kbits v = cceil (fl64 (num v / 1000))"

definition kbits_to_bits :: "vol_kb \<Rightarrow> vol_b" where
  "kbits_to_bits v = ucast v * 1000"

definition bps_to_symps :: "unit_converter \<Rightarrow> rate_bps \<Rightarrow> rat" where
  "bps_to_symps c r = of_int \<lceil>fl32 (num r * modulation_efficiency_inv c)\<rceil>"

definition symps_to_bps :: "unit_converter \<Rightarrow> rat \<Rightarrow> rate_bps" where
  "symps_to_bps c r = trunc (fl64 (r * num (modulation_efficiency c)))"

definition kbps_to_symps :: "unit_converter \<Rightarrow> rate_kbps \<Rightarrow> rat" where
  "kbps_to_symps c r = of_int \<lceil>fl32 (fl32 (num r * 1000) * modulation_efficiency_inv c)\<rceil>"

definition symps_to_kbps :: "unit_converter \<Rightarrow> rat \<Rightarrow> rate_kbps" where
  "symps_to_kbps c r = cceil (fl64 (fl64 (r * num (modulation_efficiency c)) / 1000))"

definition bps_to_kbps :: "rate_bps \<Rightarrow> rate_kbps" where
  "bps_to_kbps r = cceil (fl64 (num r / 1000))"

definition kbps_to_bps :: "rate_kbps \<Rightarrow> rate_bps" where
  "kbps_to_bps r = r * 1000"

definition pf_to_ps :: "unit_converter \<Rightarrow> u32 \<Rightarrow> u32" where
  "pf_to_ps c r = cceil (fl32 (fl32 (fl32 (num r) * frame_duration_ms_inv c) * 1000))"

definition ps_to_pf :: "unit_converter \<Rightarrow> u32 \<Rightarrow> u32" where
  "ps_to_pf c r = cceil (fl64 (num (r * frame_duration_ms c) / 1000))"

section \<open>Conversions of packets of a fixed number of symbols\<close>

definition sym_to_pkt :: "unit_converter \<Rightarrow> vol_sym \<Rightarrow> vol_pkt" where
  "sym_to_pkt c v = cceil (fl32 (fl32 (num v) * packet_length_sym_inv c))"

definition pkt_to_sym :: "unit_converter \<Rightarrow> vol_pkt \<Rightarrow> vol_sym" where
  "pkt_to_sym c v = ucast v * packet_length_sym c"

definition bits_to_pkt :: "unit_converter \<Rightarrow> vol_b \<Rightarrow> vol_pkt" where
  "bits_to_pkt c v =
     cceil (fl32 (fl32 (fl32 (num v) * packet_length_sym_inv c) * modulation_efficiency_inv c))"

definition pkt_to_bits :: "unit_converter \<Rightarrow> vol_pkt \<Rightarrow> vol_b" where
  "pkt_to_bits c v = ucast v * packet_length_sym c * modulation_efficiency c"

definition kbits_to_pkt :: "unit_converter \<Rightarrow> vol_kb \<Rightarrow> vol_pkt" where
  "kbits_to_pkt c v =
     cceil (fl32 (fl32 (fl32 (num v * packet_length_sym_inv c) * modulation_efficiency_inv c) * 1000))"

definition pkt_to_kbits :: "unit_converter \<Rightarrow> vol_pkt \<Rightarrow> vol_kb" where
  "pkt_to_kbits c v = cceil (fl64 (num (pkt_to_bits c v) / 1000))"

definition symps_to_pktpf :: "unit_converter \<Rightarrow> rat \<Rightarrow> rate_pktpf" where
  "symps_to_pktpf c r =
     cceil (fl64 (fl64 (fl64 (r * packet_length_sym_inv c) * num (frame_duration_ms c)) * 1000))"

definition pktpf_to_symps :: "unit_converter \<Rightarrow> rate_pktpf \<Rightarrow> rat" where
  "pktpf_to_symps c r =
     of_int \<lceil>fl64 (fl32 (fl32 (num (pkt_to_sym c r)) * frame_duration_ms_inv c) / 1000)\<rceil>"

definition bps_to_pktpf :: "unit_converter \<Rightarrow> rate_bps \<Rightarrow> rate_pktpf" where
  "bps_to_pktpf c r =
     cceil (fl64 (fl32 (fl32 (fl32 (num r * packet_length_sym_inv c) * modulation_efficiency_inv c)
       * fl32 (num (frame_duration_ms c))) / 1000))"

definition pktpf_to_bps :: "unit_converter \<Rightarrow> rate_pktpf \<Rightarrow> rate_bps" where
  "pktpf_to_bps c r =
     cceil (fl32 (fl32 (fl32 (num (pkt_to_bits c r)) * frame_duration_ms_inv c) * 1000))"

definition kbps_to_pktpf :: "unit_converter \<Rightarrow> rate_kbps \<Rightarrow> rate_pktpf" where
  "kbps_to_pktpf c r =
     cceil (fl32 (fl32 (fl32 (num r * packet_length_sym_inv c) * modulation_efficiency_inv c)
       * fl32 (num (frame_duration_ms c))))"

definition pktpf_to_kbps :: "unit_converter \<Rightarrow> rate_pktpf \<Rightarrow> rate_kbps" where
  "pktpf_to_kbps c r = cceil (fl32 (fl32 (num (pkt_to_bits c r)) * frame_duration_ms_inv c))"

definition packet_bit_length :: "unit_converter \<Rightarrow> vol_b" where
  "packet_bit_length c = sym_to_bits c (packet_length_sym c)"

definition packet_kbit_length :: "unit_converter \<Rightarrow> vol_kb" where
  "packet_kbit_length c = sym_to_kbits c (packet_length_sym c)"

definition slots_number :: "unit_converter \<Rightarrow> rat \<Rightarrow> u32" where
  "slots_number c r =
     (let slot = pkt_to_sym c 1 in if slot \<le> 0 then 0 else ps_to_pf c (trunc r) div slot)"

section \<open>Error bounds\<close>

text \<open>\<open>near k x y\<close>: \<open>x\<close> is \<open>y\<close> after at most \<open>k\<close> roundings to 24 bits.\<close>

definition near :: "nat \<Rightarrow> rat \<Rightarrow> rat \<Rightarrow> bool" where
  "near k x y \<longleftrightarrow> 0 \<le> y \<and> y * (1 - 1 / 2 ^ 24) ^ k \<le> x \<and> x \<le> y * (1 + 1 / 2 ^ 24) ^ k"

lemma near_refl: "0 \<le> x \<Longrightarrow> near 0 x x"
  by (simp add: near_def)

lemma near_nonneg: "near k x y \<Longrightarrow> 0 \<le> x"
  unfolding near_def by (elim conjE, rule order_trans [of _ "y * (1 - 1 / 2 ^ 24) ^ k"]) simp_all

lemma near_mult:
  assumes "near j x y" "near k x' y'"
  shows "near (j + k) (x * x') (y * y')"
proof -
  note p = near_nonneg [OF assms(1)] near_nonneg [OF assms(2)]
  have "(y * (1 - 1 / 2 ^ 24) ^ j) * (y' * (1 - 1 / 2 ^ 24) ^ k) \<le> x * x'"
    using assms p by (intro mult_mono) (simp_all add: near_def)
  moreover have "x * x' \<le> (y * (1 + 1 / 2 ^ 24) ^ j) * (y' * (1 + 1 / 2 ^ 24) ^ k)"
    using assms p by (intro mult_mono) (simp_all add: near_def)
  ultimately show ?thesis using assms by (simp add: near_def power_add mult.assoc mult.left_commute)
qed

lemma near_trans:
  assumes "near j x y" "near k z x"
  shows "near (j + k) z y"
proof -
  have "y * (1 - 1 / 2 ^ 24) ^ j * (1 - 1 / 2 ^ 24) ^ k \<le> x * (1 - 1 / 2 ^ 24) ^ k"
    using assms by (intro mult_right_mono) (simp_all add: near_def)
  also have "\<dots> \<le> z" using assms(2) by (simp only: near_def)
  finally have lo: "y * (1 - 1 / 2 ^ 24) ^ (j + k) \<le> z" by (simp only: power_add mult.assoc)
  have "z \<le> x * (1 + 1 / 2 ^ 24) ^ k" using assms(2) by (simp only: near_def)
  also have "\<dots> \<le> y * (1 + 1 / 2 ^ 24) ^ j * (1 + 1 / 2 ^ 24) ^ k"
    using assms by (intro mult_right_mono) (simp_all add: near_def)
  finally have "z \<le> y * (1 + 1 / 2 ^ 24) ^ (j + k)" by (simp only: power_add mult.assoc)
  with lo assms show ?thesis unfolding near_def by blast
qed

lemma near_fl32: "0 \<le> x \<Longrightarrow> near 1 (fl32 x) x"
  using fl_bounds [of x 24] by (simp add: near_def)

lemma near_fl64: "0 \<le> x \<Longrightarrow> near 1 (fl64 x) x"
proof -
  assume x: "0 \<le> x"
  have "x * (1 - 1 / 2 ^ 24) \<le> x * (1 - 1 / 2 ^ 53)" "x * (1 + 1 / 2 ^ 53) \<le> x * (1 + 1 / 2 ^ 24)"
    using x by (intro mult_left_mono; simp)+
  then show ?thesis using fl_bounds [OF x, of 53] x unfolding near_def power_one_right
    by (intro conjI) (auto intro: order_trans)
qed

lemma near_fl: "near k x y \<Longrightarrow> near (k + 1) (fl32 x) y"
  by (rule near_trans [OF _ near_fl32]) (auto dest: near_nonneg)

lemma near_inverse: "0 < w \<Longrightarrow> near 2 (float_inverse w) (1 / num w)"
  using near_trans [OF near_fl64 near_fl32, of "1 / num w"] fl_nonneg [of "1 / num w" 53]
  by (simp add: float_inverse_def numeral_2_eq_2)

text \<open>With at most 12 roundings a number below 2^17 moves by less than 1.\<close>

lemma near_lower:
  assumes "near k x y" "k \<le> 12" "y < 2 ^ 17"
  shows "y - 1 < x"
proof -
  have "(1 - 1 / 2 ^ 24 :: rat) ^ 12 \<le> (1 - 1 / 2 ^ 24) ^ k"
    using assms(2) by (intro power_decreasing) simp_all
  then have "y * (1 - 1 / 2 ^ 24) ^ 12 \<le> y * (1 - 1 / 2 ^ 24) ^ k"
    using assms(1) by (intro mult_left_mono) (simp_all add: near_def)
  moreover have "1 - 12 / 2 ^ 24 \<le> (1 - 1 / 2 ^ 24 :: rat) ^ 12" by (simp add: power_divide)
  then have "y * (1 - 12 / 2 ^ 24) \<le> y * (1 - 1 / 2 ^ 24) ^ 12"
    using assms(1) by (intro mult_left_mono) (simp_all add: near_def)
  ultimately have "y * (1 - 12 / 2 ^ 24) \<le> x" using assms(1) by (simp only: near_def) linarith
  then show ?thesis using assms(3) by simp
qed

lemma near_upper:
  assumes "near k x y" "k \<le> 12" "y < 2 ^ 17"
  shows "x < y + 1"
proof -
  have "(1 + 1 / 2 ^ 24 :: rat) ^ k \<le> (1 + 1 / 2 ^ 24) ^ 12"
    using assms(2) by (intro power_increasing) simp_all
  then have "y * (1 + 1 / 2 ^ 24) ^ k \<le> y * (1 + 1 / 2 ^ 24) ^ 12"
    using assms(1) by (intro mult_left_mono) (simp_all add: near_def)
  moreover have "(1 + 1 / 2 ^ 24 :: rat) ^ 12 \<le> 1 + 13 / 2 ^ 24" by (simp add: power_divide)
  then have "y * (1 + 1 / 2 ^ 24) ^ 12 \<le> y * (1 + 13 / 2 ^ 24)"
    using assms(1) by (intro mult_left_mono) (simp_all add: near_def)
  ultimately have "x \<le> y * (1 + 13 / 2 ^ 24)" using assms(1) by (simp only: near_def) linarith
  then show ?thesis using assms(3) by simp
qed

section \<open>Requests are covered\<close>

lemma unat_add_u32: "unat (a * b :: u32) = unat a * unat b" if "unat a * unat b < 2 ^ 32"
  using that by (simp add: unat_word_ariths)

lemma cceil_covers:
  assumes "0 \<le> x" "of_nat n - 1 < x" "\<lceil>x\<rceil> < 2 ^ LENGTH('a)"
  shows "n \<le> unat (cceil x :: 'a::len word)"
proof -
  have "of_int (int n - 1) < x" using assms(2) by simp
  then have "int n - 1 < \<lceil>x\<rceil>" by (simp only: less_ceiling_iff)
  then show ?thesis using unat_cceil [OF assms(1,3)] by simp
qed

lemma near_pktpf_to_kbps:
  assumes "frame_duration_ms_inv c = float_inverse (frame_duration_ms c)" "0 < frame_duration_ms c"
    and "unat p * unat (packet_length_sym c) * unat (modulation_efficiency c) < 2 ^ 32"
  shows "near 4 (fl32 (fl32 (num (pkt_to_bits c p)) * frame_duration_ms_inv c))
    (of_nat (unat p * unat (packet_length_sym c) * unat (modulation_efficiency c)) /
      num (frame_duration_ms c))"
proof -
  let ?L = "packet_length_sym c" and ?e = "modulation_efficiency c"
  have "unat p * unat ?L < 2 ^ 32 \<or> unat ?e = 0"
    using assms(3) by (cases "unat ?e") (auto intro: le_less_trans [rotated])
  then have "unat (pkt_to_bits c p) = unat p * unat ?L * unat ?e"
    using assms(3) by (auto simp: pkt_to_bits_def unat_word_ariths)
  then have "num (pkt_to_bits c p) = of_nat (unat p * unat ?L * unat ?e)"
    by (simp only: num_def)
  moreover have "near (1 + 2) (fl32 (num (pkt_to_bits c p)) * frame_duration_ms_inv c)
      (num (pkt_to_bits c p) * (1 / num (frame_duration_ms c)))"
    unfolding assms(1) by (intro near_mult near_fl32 near_inverse) (simp_all add: assms(2))
  from near_fl [OF this] have "near 4 (fl32 (fl32 (num (pkt_to_bits c p)) * frame_duration_ms_inv c))
      (num (pkt_to_bits c p) * (1 / num (frame_duration_ms c)))" by (simp add: eval_nat_numeral)
  ultimately show ?thesis by simp
qed

lemma near_kbps_to_pktpf:
  assumes "packet_length_sym_inv c = float_inverse (packet_length_sym c)" "0 < packet_length_sym c"
    and "modulation_efficiency_inv c = float_inverse (modulation_efficiency c)"
      "0 < modulation_efficiency c"
  shows "near 8 (fl32 (fl32 (fl32 (num r * packet_length_sym_inv c) * modulation_efficiency_inv c)
       * fl32 (num (frame_duration_ms c))))
    (num r * (1 / num (packet_length_sym c)) * (1 / num (modulation_efficiency c)) *
      num (frame_duration_ms c))"
proof -
  have "near (0 + 2) (num r * packet_length_sym_inv c) (num r * (1 / num (packet_length_sym c)))"
    unfolding assms(1) by (intro near_mult near_refl near_inverse) (simp_all add: assms(2))
  from near_mult [OF near_fl [OF this] near_inverse [OF assms(4)]]
  have "near 5 (fl32 (num r * packet_length_sym_inv c) * modulation_efficiency_inv c)
    (num r * (1 / num (packet_length_sym c)) * (1 / num (modulation_efficiency c)))"
    by (simp add: assms(3) eval_nat_numeral)
  from near_fl [OF near_mult [OF near_fl [OF this] near_fl32 [of "num (frame_duration_ms c)"]]]
  show ?thesis by (simp add: eval_nat_numeral)
qed

lemma covered_volume:
  fixes x y p r L E D q :: rat
  assumes "0 < L" "0 < E" "0 < D" "y = r * (1 / L) * (1 / E) * D" "y * q \<le> x" "x \<le> p"
  shows "r * q \<le> p * L * E / D"
proof -
  have "y * q * (L * E / D) \<le> p * (L * E / D)"
    using assms by (intro mult_right_mono) simp_all
  moreover have "y * q * (L * E / D) = r * q" using assms(1-4) by simp
  ultimately show ?thesis by (simp add: mult.assoc)
qed

text \<open>A rate request is covered.  For a converter made by the constructor, a rate in kbit/s
  converted to packets per frame and back gives at least that rate, in spite of the roundings to
  \<^verbatim>\<open>float\<close>, as long as the packets, the bits of a frame and the rate fit their integer
  types.\<close>

theorem rate_request_covered:
  fixes d e l :: u32 and r :: rate_kbps
  defines "c \<equiv> new_converter d e l"
  assumes pos: "0 < d" "0 < e" "0 < l"
    and pkt: "unat r * unat d < 65534 * (unat l * unat e)"
    and vol: "unat r * unat d + 2 * (unat l * unat e) < 2 ^ 32"
    and rate: "unat r * unat d + 2 * (unat l * unat e) < 65534 * unat d"
  shows "unat r \<le> unat (pktpf_to_kbps c (kbps_to_pktpf c r))"
proof -
  let ?R = "num r" and ?L = "num l" and ?E = "num e" and ?D = "num d"
  have c: "frame_duration_ms c = d" "frame_duration_ms_inv c = float_inverse d"
    "modulation_efficiency c = e" "modulation_efficiency_inv c = float_inverse e"
    "packet_length_sym c = l" "packet_length_sym_inv c = float_inverse l"
    by (simp_all add: c_def new_converter_def set_packet_symbol_length_def
        set_modulation_efficiency_def set_frame_duration_def)
  have pos': "0 < ?L" "0 < ?E" "0 < ?D"
    using pos by (simp_all add: num_def word_less_nat_alt del: of_nat_unat)
  define y where "y = ?R * (1 / ?L) * (1 / ?E) * ?D"
  have yLE: "y * (?L * ?E) = ?R * ?D" using pos' by (simp add: y_def)
  define x where "x = fl32 (fl32 (fl32 (?R * float_inverse l) * float_inverse e) * fl32 ?D)"
  have nx: "near 8 x y" using near_kbps_to_pktpf [of c r] pos by (simp add: c x_def y_def)
  have "rat_of_nat (unat r * unat d) < of_nat (65534 * (unat l * unat e))" using pkt by (simp only: of_nat_less_iff)
  then have "y * (?L * ?E) < 65534 * (?L * ?E)"
    unfolding yLE by (simp add: num_def del: of_nat_unat)
  then have y: "y < 65534" using pos' by simp
  have "x < y + 1" using near_upper [OF nx] y by simp
  with y have "\<lceil>x\<rceil> \<le> 65535" by (simp add: ceiling_le_iff)
  define p where "p = kbps_to_pktpf c r"
  have p: "unat p = nat \<lceil>x\<rceil>"
    using unat_cceil [OF near_nonneg [OF nx], where ?'a = 16] \<open>\<lceil>x\<rceil> \<le> 65535\<close>
    by (simp add: p_def kbps_to_pktpf_def c x_def)
  have "0 \<le> \<lceil>x\<rceil>" using near_nonneg [OF nx] by (simp add: le_ceiling_iff)
  then have P: "rat_of_nat (unat p) = of_int \<lceil>x\<rceil>" using p by (simp del: of_nat_unat)
  have Px: "x \<le> of_nat (unat p)" "of_nat (unat p) < y + 2"
    using P \<open>x < y + 1\<close> ceiling_correct [of x] by simp_all
  let ?V = "unat p * unat l * unat e"
  have "of_nat (unat p) * (?L * ?E) < (y + 2) * (?L * ?E)"
    using Px(2) pos' by (intro mult_strict_right_mono) simp_all
  then have "rat_of_nat ?V < of_nat (unat r * unat d + 2 * (unat l * unat e))"
    unfolding distrib_right yLE by (simp add: num_def mult.assoc del: of_nat_unat)
  then have V: "?V < unat r * unat d + 2 * (unat l * unat e)" by (simp only: of_nat_less_iff)
  define z where "z = fl32 (fl32 (num (pkt_to_bits c p)) * float_inverse d)"
  define v where "v = of_nat (unat p) * ?L * ?E / ?D"
  have nz: "near 4 z v"
    using near_pktpf_to_kbps [of c p] pos V vol by (simp add: c z_def v_def num_def del: of_nat_unat)
  have "?R * (1 - 1 / 2 ^ 24) ^ 8 \<le> v"
    unfolding v_def using pos' nx Px(1)
    by (intro covered_volume [of _ _ _ y _ _ x]) (simp_all only: y_def near_def)
  then have "?R * (1 - 1 / 2 ^ 24) ^ 8 * (1 - 1 / 2 ^ 24) ^ 4 \<le> v * (1 - 1 / 2 ^ 24) ^ 4"
    by (intro mult_right_mono) simp_all
  also have "\<dots> \<le> z" using nz by (simp only: near_def)
  also have "?R * (1 - 1 / 2 ^ 24) ^ 8 * (1 - 1 / 2 ^ 24) ^ 4 = ?R * (1 - 1 / 2 ^ 24) ^ 12"
    by (simp only: mult.assoc power_add [symmetric]) simp
  finally have z: "?R * (1 - 1 / 2 ^ 24) ^ 12 \<le> z" .
  have "?R < 2 ^ 17" using unat_le_mask16 [of r] by (simp add: num_def del: of_nat_unat)
  moreover have "near 12 (min z ?R) ?R"
    using z mult_left_mono [of "(1 - 1 / 2 ^ 24) ^ 12" 1 ?R] mult_left_mono [of 1 "(1 + 1 / 2 ^ 24) ^ 12" ?R]
    unfolding near_def by (auto simp: min_le_iff_disj power_le_one)
  ultimately have low: "of_nat (unat r) - 1 < z"
    using near_lower [of 12 "min z ?R" ?R] by (simp add: num_def del: of_nat_unat)
  have "rat_of_nat ?V < of_nat (65534 * unat d)" using V rate by (simp only: of_nat_less_iff)
  then have "v < 65534" using pos' by (simp add: v_def pos_divide_less_eq num_def del: of_nat_unat)
  with near_upper [OF nz] have "\<lceil>z\<rceil> \<le> 65535" by (simp add: ceiling_le_iff)
  with cceil_covers [OF near_nonneg [OF nz] low, where ?'a = 16] show ?thesis
    by (simp add: pktpf_to_kbps_def p_def [symmetric] c z_def)
qed

theorem rate_request_covered_witness:
  "300 \<le> unat (pktpf_to_kbps (new_converter 53 2 262) (kbps_to_pktpf (new_converter 53 2 262) 300))"
  using rate_request_covered [of 53 2 262 300] by simp

text \<open>A number of packets converted to symbols and back is itself or one more: the rounding of the
  inverse may add one packet to a capacity, and never removes one.\<close>

theorem packets_roundtrip:
  fixes d e l :: u32 and n :: vol_pkt
  defines "c \<equiv> new_converter d e l"
  assumes "0 < l" "unat n * unat l < 2 ^ 32" "n < 65535"
  shows "sym_to_pkt c (pkt_to_sym c n) = n \<or> sym_to_pkt c (pkt_to_sym c n) = n + 1"
proof -
  have c: "packet_length_sym c = l" "packet_length_sym_inv c = float_inverse l"
    by (simp_all add: c_def new_converter_def set_packet_symbol_length_def
        set_modulation_efficiency_def set_frame_duration_def)
  have "unat (pkt_to_sym c n) = unat n * unat l"
    using assms(3) by (simp add: pkt_to_sym_def c unat_add_u32)
  then have v: "num (pkt_to_sym c n) = num n * num l" by (simp add: num_def del: of_nat_unat)
  have l: "0 < num l" using assms(2) by (simp add: num_def word_less_nat_alt del: of_nat_unat)
  define x where "x = fl32 (fl32 (num (pkt_to_sym c n)) * float_inverse l)"
  have "near (1 + 2 + 1) x (num (pkt_to_sym c n) * (1 / num l))"
    unfolding x_def using assms(2) by (intro near_fl near_mult near_fl32 near_inverse) simp_all
  then have nx: "near 4 x (num n)" using l by (simp add: v eval_nat_numeral)
  have n: "num n < 65535" using assms(4) by (simp add: num_def word_less_nat_alt del: of_nat_unat)
  have "num n - 1 < x" "x < num n + 1" using near_lower [OF nx] near_upper [OF nx] n by simp_all
  then have b: "of_int (int (unat n) - 1) < x" "x < of_int (int (unat n) + 1)"
    by (simp_all add: num_def del: of_nat_unat)
  then have k: "int (unat n) - 1 < \<lceil>x\<rceil>" by (simp only: less_ceiling_iff)
  have "\<lceil>x\<rceil> \<le> int (unat n) + 1" using b(2) by (simp only: ceiling_le_iff less_imp_le)
  with k have "nat \<lceil>x\<rceil> = unat n \<or> nat \<lceil>x\<rceil> = unat n + 1" by linarith
  moreover have m: "unat n + 1 < 65536" using assms(4) by (simp add: word_less_nat_alt)
  moreover have "\<lceil>x\<rceil> < 65536" using \<open>\<lceil>x\<rceil> \<le> int (unat n) + 1\<close> m by linarith
  then have "unat (cceil x :: u16) = nat \<lceil>x\<rceil>"
    by (intro unat_cceil near_nonneg [OF nx]) simp_all
  ultimately show ?thesis
    by (auto simp: sym_to_pkt_def c x_def [symmetric] word_unat_eq_iff unat_word_ariths del: of_nat_unat)
qed

theorem packets_roundtrip_witness:
  "let c = new_converter 53 2 262
   in sym_to_pkt c (pkt_to_sym c 100) = 100 \<or> sym_to_pkt c (pkt_to_sym c 100) = 101"
  using packets_roundtrip [of 262 100 53 2] by simp

end
