(* ===== verification/Dama_Terminal.thy ===== *)
theory Dama_Terminal
  imports Fmt
begin

text \<open>
  The context the network control centre keeps for each terminal
  (\<^verbatim>\<open>opensand-core/src/dvb/utils/TerminalContext.cpp\<close>, \<^verbatim>\<open>TerminalContextDama.cpp\<close>,
  \<^verbatim>\<open>TerminalContextDamaRcs.cpp\<close>): its limits, its requests, what it was allocated, and the
  scheme it is served with.
\<close>

record terminal =
  term_tal_id :: tal_id
  term_category :: string
  cra_request_kbps :: rate_kbps
  cra_alloc_kbps :: rate_kbps
  max_rbdc_kbps :: rate_kbps
  rbdc_timeout :: time_sf
  max_vbdc_kb :: vol_kb
  rbdc_credit :: rat
  timer_sf :: time_sf
  rbdc_request_kbps :: rate_kbps
  rbdc_alloc_kbps :: rate_kbps
  vbdc_request_kb :: vol_kb
  vbdc_alloc_kb :: vol_kb
  fca_alloc_kbps :: rate_kbps
  req_fmt_def :: "fmt_def option"
  term_fmt_def :: "fmt_def option"
  term_carrier_id :: u32

text \<open>The constructors do not set the CRA allocation: it is the first argument.\<close>

definition new_terminal ::
  "rate_kbps \<Rightarrow> tal_id \<Rightarrow> rate_kbps \<Rightarrow> rate_kbps \<Rightarrow> time_sf \<Rightarrow> vol_kb \<Rightarrow> terminal" where
  "new_terminal any_cra_alloc tal cra max_rbdc timeout max_vbdc =
     \<lparr>term_tal_id = tal, term_category = '''', cra_request_kbps = cra,
      cra_alloc_kbps = any_cra_alloc, max_rbdc_kbps = max_rbdc, rbdc_timeout = timeout,
      max_vbdc_kb = max_vbdc, rbdc_credit = 0, timer_sf = 0, rbdc_request_kbps = 0,
      rbdc_alloc_kbps = 0, vbdc_request_kb = 0, vbdc_alloc_kb = 0, fca_alloc_kbps = 0,
      req_fmt_def = None, term_fmt_def = None, term_carrier_id = 0\<rparr>"

definition update_rbdc_timeout :: "time_sf \<Rightarrow> terminal \<Rightarrow> terminal" where
  "update_rbdc_timeout n t = t\<lparr>rbdc_timeout := n\<rparr>"

definition set_required_cra :: "rate_kbps \<Rightarrow> terminal \<Rightarrow> terminal" where
  "set_required_cra v t = t\<lparr>cra_request_kbps := v\<rparr>"

definition set_cra_allocation :: "rate_kbps \<Rightarrow> terminal \<Rightarrow> terminal" where
  "set_cra_allocation v t = t\<lparr>cra_alloc_kbps := v\<rparr>"

definition set_max_rbdc :: "rate_kbps \<Rightarrow> terminal \<Rightarrow> terminal" where
  "set_max_rbdc v t = t\<lparr>max_rbdc_kbps := v\<rparr>"

definition set_required_rbdc :: "rate_kbps \<Rightarrow> terminal \<Rightarrow> terminal" where
  "set_required_rbdc v t =
     t\<lparr>rbdc_request_kbps := min v (max_rbdc_kbps t), rbdc_credit := 0, timer_sf := rbdc_timeout t\<rparr>"

definition set_rbdc_allocation :: "rate_kbps \<Rightarrow> terminal \<Rightarrow> terminal" where
  "set_rbdc_allocation v t = t\<lparr>rbdc_alloc_kbps := v\<rparr>"

definition add_rbdc_credit :: "rat \<Rightarrow> terminal \<Rightarrow> terminal" where
  "add_rbdc_credit c t = t\<lparr>rbdc_credit := fl64 (rbdc_credit t + c)\<rparr>"

definition set_rbdc_credit :: "rat \<Rightarrow> terminal \<Rightarrow> terminal" where
  "set_rbdc_credit c t = t\<lparr>rbdc_credit := c\<rparr>"

definition decrement_timer :: "terminal \<Rightarrow> terminal" where
  "decrement_timer t = t\<lparr>timer_sf := (if 0 < timer_sf t then timer_sf t - 1 else 0)\<rparr>"

definition set_required_vbdc :: "vol_kb \<Rightarrow> terminal \<Rightarrow> terminal" where
  "set_required_vbdc v t = t\<lparr>vbdc_request_kb := min (vbdc_request_kb t + v) (max_vbdc_kb t)\<rparr>"

definition set_vbdc_allocation :: "vol_kb \<Rightarrow> terminal \<Rightarrow> terminal" where
  "set_vbdc_allocation v t =
     t\<lparr>vbdc_alloc_kb := v,
       vbdc_request_kb := (if vbdc_request_kb t \<ge> v then vbdc_request_kb t - v else 0)\<rparr>"

definition set_fca_allocation :: "rate_kbps \<Rightarrow> terminal \<Rightarrow> terminal" where
  "set_fca_allocation v t = t\<lparr>fca_alloc_kbps := v\<rparr>"

definition total_rate_allocation :: "terminal \<Rightarrow> rate_kbps" where
  "total_rate_allocation t = rbdc_alloc_kbps t + fca_alloc_kbps t + cra_alloc_kbps t"

definition total_volume_allocation :: "terminal \<Rightarrow> vol_kb" where
  "total_volume_allocation t = vbdc_alloc_kb t"

definition set_required_fmt :: "fmt_def option \<Rightarrow> terminal \<Rightarrow> terminal" where
  "set_required_fmt f t = t\<lparr>req_fmt_def := f\<rparr>"

definition set_fmt :: "fmt_def option \<Rightarrow> terminal \<Rightarrow> terminal" where
  "set_fmt f t = t\<lparr>term_fmt_def := f\<rparr>"

definition set_carrier_id :: "u32 \<Rightarrow> terminal \<Rightarrow> terminal" where
  "set_carrier_id i t = t\<lparr>term_carrier_id := i\<rparr>"

definition set_current_category :: "string \<Rightarrow> terminal \<Rightarrow> terminal" where
  "set_current_category c t = t\<lparr>term_category := c\<rparr>"

definition terminal_fmt_id :: "terminal \<Rightarrow> u32" where
  "terminal_fmt_id t = (case term_fmt_def t of None \<Rightarrow> 0 | Some f \<Rightarrow> fmt_def_id f)"

text \<open>The two stable sorts of the allocation, by decreasing credit and request.\<close>

definition sort_by_credit :: "terminal list \<Rightarrow> terminal list" where
  "sort_by_credit = sort_key (\<lambda>t. - rbdc_credit t)"

definition sort_by_vbdc :: "terminal list \<Rightarrow> terminal list" where
  "sort_by_vbdc = sort_key (\<lambda>t. - int (unat (vbdc_request_kb t)))"

lemmas terminal_updates = update_rbdc_timeout_def set_required_cra_def set_cra_allocation_def
  set_max_rbdc_def set_required_rbdc_def set_rbdc_allocation_def add_rbdc_credit_def
  set_rbdc_credit_def decrement_timer_def set_required_vbdc_def set_vbdc_allocation_def
  set_fca_allocation_def set_required_fmt_def set_fmt_def set_carrier_id_def
  set_current_category_def

section \<open>Requests and allocations of a terminal\<close>

datatype terminal_call =
    Required_rbdc rate_kbps | Required_vbdc vol_kb | Vbdc_allocation vol_kb
  | Rbdc_allocation rate_kbps | Tick | Credit rat

fun terminal_step :: "terminal \<Rightarrow> terminal_call \<Rightarrow> terminal" where
  "terminal_step t (Required_rbdc v) = set_required_rbdc v t"
| "terminal_step t (Required_vbdc v) = set_required_vbdc v t"
| "terminal_step t (Vbdc_allocation v) = set_vbdc_allocation v t"
| "terminal_step t (Rbdc_allocation v) = set_rbdc_allocation v t"
| "terminal_step t Tick = decrement_timer t"
| "terminal_step t (Credit c) = add_rbdc_credit c t"

definition within_limits :: "terminal \<Rightarrow> bool" where
  "within_limits t \<longleftrightarrow> rbdc_request_kbps t \<le> max_rbdc_kbps t \<and> vbdc_request_kb t \<le> max_vbdc_kb t \<and>
     timer_sf t \<le> rbdc_timeout t"

lemma word_decrease: "(v :: u16) \<le> r \<Longrightarrow> r - v \<le> r"
  by (simp add: word_le_nat_alt unat_sub)

lemma within_limits_step: "within_limits t \<Longrightarrow> within_limits (terminal_step t c)"
proof (cases c)
  case (Vbdc_allocation v)
  assume "within_limits t"
  with word_decrease [of v "vbdc_request_kb t"] Vbdc_allocation show ?thesis
    by (auto simp: within_limits_def set_vbdc_allocation_def intro: order_trans)
next
  case Tick
  assume "within_limits t"
  moreover have "1 \<le> timer_sf t" if "0 < timer_sf t"
    using that by (simp add: word_le_nat_alt word_less_nat_alt)
  ultimately show ?thesis using word_decrease [of 1 "timer_sf t"] Tick
    by (auto simp: within_limits_def decrement_timer_def intro: order_trans)
qed (auto simp: within_limits_def terminal_updates)

text \<open>The requests of a terminal stay within its limits: after any calls on a new context the
  RBDC and VBDC requests are at most the maximum the terminal logged on with, and the timer at
  most the timeout.\<close>

theorem terminal_requests_limited:
  "within_limits (foldl terminal_step (new_terminal any tal cra max_rbdc timeout max_vbdc) calls)"
proof -
  have "within_limits t \<Longrightarrow> within_limits (foldl terminal_step t calls)" for t
    by (induction calls arbitrary: t) (simp_all add: within_limits_step)
  then show ?thesis by (simp add: within_limits_def new_terminal_def)
qed

text \<open>Adding a VBDC request: the requests accumulate up to the maximum as long as their sum fits
  16 bits; a sum of 65536 kbit or more wraps before it is compared with the maximum, and the
  terminal loses what it asked for.\<close>

theorem vbdc_requests_accumulate:
  "unat (vbdc_request_kb (set_required_vbdc v t)) =
     min ((unat (vbdc_request_kb t) + unat v) mod 2 ^ 16) (unat (max_vbdc_kb t))"
  by (simp add: set_required_vbdc_def unat_min unat_word_ariths)

end
