(* ===== verification/Carriers.thy ===== *)
theory Carriers
  imports Fmt
begin

text \<open>
  The carriers of a spot and the categories of terminals that share them
  (\<^verbatim>\<open>opensand-core/src/dvb/utils/CarriersGroup.cpp\<close>, \<^verbatim>\<open>CarriersGroupDama.cpp\<close>,
  \<^verbatim>\<open>TerminalCategory.h\<close>, \<^verbatim>\<open>TerminalCategoryDama.h\<close>).  Terminals are referred to by their
  identifiers; the groups of a category are a list of values.
\<close>

section \<open>Groups of carriers\<close>

datatype carrier_access = DAMA | TDM | ALOHA | SCPC | ACCESS_ERROR

record fmt_group =
  group_members :: "fmt_member list"
  group_modcods :: fmt_table

record carriers_group =
  carriers_id :: u32
  fmt_group :: fmt_group
  carriers_number :: u32
  carriers_ratio :: u32
  capacity_sym :: vol_sym
  symbol_rate_symps :: rat
  carriers_access :: carrier_access

record dama_group = carriers_group +
  remaining_capacity :: u32
  previous_capacity :: u32
  previous_sf :: time_sf

record carriers_dama = dama_group +
  vcm_carriers :: "dama_group list"

definition new_carriers_group ::
  "u32 \<Rightarrow> fmt_group \<Rightarrow> u32 \<Rightarrow> rat \<Rightarrow> carrier_access \<Rightarrow> carriers_group" where
  "new_carriers_group i g ratio rate access =
     \<lparr>carriers_id = i, fmt_group = g, carriers_number = 0, carriers_ratio = ratio,
      capacity_sym = 0, symbol_rate_symps = rate, carriers_access = access\<rparr>"

definition new_dama_group ::
  "u32 \<Rightarrow> fmt_group \<Rightarrow> u32 \<Rightarrow> rat \<Rightarrow> carrier_access \<Rightarrow> dama_group" where
  "new_dama_group i g ratio rate access =
     carriers_group.extend (new_carriers_group i g ratio rate access)
       \<lparr>remaining_capacity = 0, previous_capacity = 0, previous_sf = 0\<rparr>"

definition new_carriers_dama ::
  "u32 \<Rightarrow> fmt_group \<Rightarrow> u32 \<Rightarrow> rat \<Rightarrow> carrier_access \<Rightarrow> carriers_dama" where
  "new_carriers_dama i g ratio rate access =
     dama_group.extend (new_dama_group i g ratio rate access) \<lparr>vcm_carriers = []\<rparr>"

definition set_carriers_number :: "u32 \<Rightarrow> carriers_dama \<Rightarrow> carriers_dama" where
  "set_carriers_number n c =
     c\<lparr>carriers_number := n,
       vcm_carriers := map (\<lambda>v. v\<lparr>carriers_number := n\<rparr>) (vcm_carriers c)\<rparr>"

text \<open>The capacity of each VCM carrier is its share of the ratio, in unsigned arithmetic.\<close>

definition set_capacity :: "vol_sym \<Rightarrow> carriers_dama \<Rightarrow> carriers_dama option" where
  "set_capacity n c =
     (if carriers_ratio c = 0 \<and> vcm_carriers c \<noteq> [] then None
      else Some (c\<lparr>capacity_sym := n,
        vcm_carriers := map (\<lambda>v. v\<lparr>capacity_sym := carriers_ratio v * n div carriers_ratio c\<rparr>)
          (vcm_carriers c)\<rparr>))"

definition set_symbol_rate :: "rat \<Rightarrow> carriers_dama \<Rightarrow> carriers_dama" where
  "set_symbol_rate r c =
     c\<lparr>symbol_rate_symps := r,
       vcm_carriers := map (\<lambda>v. v\<lparr>symbol_rate_symps := r\<rparr>) (vcm_carriers c)\<rparr>"

definition set_ratio :: "u32 \<Rightarrow> carriers_dama \<Rightarrow> carriers_dama" where
  "set_ratio r c = c\<lparr>carriers_ratio := r\<rparr>"

definition add_vcm :: "fmt_group \<Rightarrow> u32 \<Rightarrow> carriers_dama \<Rightarrow> carriers_dama" where
  "add_vcm g ratio c =
     c\<lparr>carriers_ratio := (if vcm_carriers c \<noteq> [] then carriers_ratio c + ratio else carriers_ratio c),
       vcm_carriers := vcm_carriers c @
         [new_dama_group (carriers_id c) g ratio (symbol_rate_symps c) (carriers_access c)]\<rparr>"

definition set_remaining_capacity :: "u32 \<Rightarrow> carriers_dama \<Rightarrow> carriers_dama" where
  "set_remaining_capacity n c = c\<lparr>remaining_capacity := n\<rparr>"

definition set_previous_capacity :: "u32 \<Rightarrow> time_sf \<Rightarrow> carriers_dama \<Rightarrow> carriers_dama" where
  "set_previous_capacity n sf c = c\<lparr>previous_capacity := n, previous_sf := sf\<rparr>"

definition get_previous_capacity :: "time_sf \<Rightarrow> 'a dama_group_scheme \<Rightarrow> u32" where
  "get_previous_capacity sf c = (if previous_sf c \<noteq> sf then 0 else previous_capacity c)"

definition total_capacity :: "'a carriers_group_scheme \<Rightarrow> vol_sym" where
  "total_capacity c = capacity_sym c * carriers_number c"

definition nearest_fmt_id :: "'a carriers_group_scheme \<Rightarrow> u32 \<Rightarrow> u32" where
  "nearest_fmt_id c i =
     ucast (get_nearest (group_modcods (fmt_group c)) (group_members (fmt_group c)) (ucast i))"

definition group_max_rate :: "'a carriers_group_scheme \<Rightarrow> rate_kbps option" where
  "group_max_rate c = do {
     i \<leftarrow> get_max_fmt_id (group_members (fmt_group c));
     Some (ucast (carriers_number c * ucast
       (table_sym_to_kbits (group_modcods (fmt_group c)) i (trunc (symbol_rate_symps c)))))}"

section \<open>Categories\<close>

record dama_category =
  cat_label :: string
  cat_terminals :: "tal_id list"
  carriers_groups :: "carriers_dama list"
  desired_access :: carrier_access
  symbol_rate_list :: "(rat, u32) omap"
  other_carriers :: "carriers_group list"

definition new_category :: "string \<Rightarrow> carrier_access \<Rightarrow> dama_category" where
  "new_category label access =
     \<lparr>cat_label = label, cat_terminals = [], carriers_groups = [], desired_access = access,
      symbol_rate_list = [], other_carriers = []\<rparr>"

definition add_to_rates :: "rat \<Rightarrow> u32 \<Rightarrow> (rat, u32) omap \<Rightarrow> (rat, u32) omap" where
  "add_to_rates r n m =
     (case map_of m r of None \<Rightarrow> omap_put r n m | Some k \<Rightarrow> omap_put r (k + n) m)"

definition weighted_sum :: "dama_category \<Rightarrow> rat" where
  "weighted_sum c =
     fl64 (fl64
       (foldl (\<lambda>s g. fl64 (s + fl64 (num (carriers_ratio g) * symbol_rate_symps g))) 0 (carriers_groups c) +
        foldl (\<lambda>s g. fl64 (s + fl64 (num (carriers_ratio g) * symbol_rate_symps g))) 0 (other_carriers c))
       / 1000)"

definition category_ratio :: "dama_category \<Rightarrow> u32" where
  "category_ratio c =
     sum_list (map carriers_ratio (carriers_groups c)) +
     sum_list (map carriers_ratio (other_carriers c))"

definition category_max_rate :: "dama_category \<Rightarrow> rate_kbps option" where
  "category_max_rate c =
     (let rs = map group_max_rate (carriers_groups c)
      in if None \<in> set rs then None else Some (sum_list (map the rs)))"

definition category_symbol_rate :: "dama_category \<Rightarrow> rat" where
  "category_symbol_rate c =
     fl64
       (foldl (\<lambda>s g. fl64 (s + fl64 (num (carriers_number g) * symbol_rate_symps g))) 0 (carriers_groups c) +
        foldl (\<lambda>s g. fl64 (s + fl64 (num (carriers_number g) * symbol_rate_symps g))) 0 (other_carriers c))"

definition category_carriers_number :: "dama_category \<Rightarrow> u32" where
  "category_carriers_number c = sum_list (map carriers_number (carriers_groups c))"

definition highest_carrier_id :: "dama_category \<Rightarrow> u32" where
  "highest_carrier_id c =
     foldl (\<lambda>m g. if carriers_id g > m then carriers_id g else m) 0 (carriers_groups c)"

definition search_carriers_group :: "dama_category \<Rightarrow> rat \<Rightarrow> nat option" where
  "search_carriers_group c r =
     (let gs = carriers_groups c
      in case filter (\<lambda>i. symbol_rate_symps (gs ! i) = r) [0..<length gs] of
           [] \<Rightarrow> None | i # _ \<Rightarrow> Some i)"

text \<open>\<^verbatim>\<open>updateCarriersGroups\<close>: the quotient of the number of carriers is an integer division.\<close>

fun update_groups ::
  "u32 \<Rightarrow> u32 \<Rightarrow> time_ms \<Rightarrow> carriers_dama list \<Rightarrow> (rat, u32) omap \<Rightarrow>
   (carriers_dama list \<times> (rat, u32) omap) option" where
  "update_groups number ratio_sum duration [] rates = Some ([], rates)"
| "update_groups number ratio_sum duration (g # gs) rates =
     (if ratio_sum = 0 then None
      else
        (let q = number * carriers_ratio g div ratio_sum;
             n = (if q = 0 then 1 else q);
             r = symbol_rate_symps g;
             g1 = set_carriers_number n g
         in (case set_capacity (cceil (fl64 (fl64 (r * num duration) / 1000))) g1 of
               None \<Rightarrow> None
             | Some g2 \<Rightarrow>
                 (case update_groups number ratio_sum duration gs (add_to_rates r n rates) of
                    None \<Rightarrow> None
                  | Some (gs', rates') \<Rightarrow> Some (g2 # gs', rates')))))"

definition update_carriers_groups :: "u32 \<Rightarrow> time_ms \<Rightarrow> dama_category \<Rightarrow> dama_category option" where
  "update_carriers_groups number duration c =
     (let ratio_sum = category_ratio c;
          n = (if unat number < length (carriers_groups c) then of_nat (length (carriers_groups c))
               else number)
      in (case update_groups n ratio_sum duration (carriers_groups c) (symbol_rate_list c) of
            None \<Rightarrow> None
          | Some (gs, rates) \<Rightarrow>
              Some (c\<lparr>carriers_groups := gs, symbol_rate_list := rates, other_carriers := []\<rparr>)))"

definition category_add_terminal :: "tal_id \<Rightarrow> dama_category \<Rightarrow> dama_category" where
  "category_add_terminal tal c = c\<lparr>cat_terminals := cat_terminals c @ [tal]\<rparr>"

definition category_remove_terminal :: "tal_id \<Rightarrow> dama_category \<Rightarrow> dama_category \<times> bool" where
  "category_remove_terminal tal c =
     (if tal \<in> set (cat_terminals c)
      then (c\<lparr>cat_terminals := remove1 tal (cat_terminals c)\<rparr>, True) else (c, False))"

fun add_vcm_to :: "u32 \<Rightarrow> fmt_group \<Rightarrow> u32 \<Rightarrow> carriers_dama list \<Rightarrow> carriers_dama list option" where
  "add_vcm_to i g ratio [] = None"
| "add_vcm_to i g ratio (c # cs) =
     (if carriers_id c = i then Some (add_vcm g ratio c # cs)
      else (case add_vcm_to i g ratio cs of None \<Rightarrow> None | Some cs' \<Rightarrow> Some (c # cs')))"

text \<open>Groups of another access type ignore \<^verbatim>\<open>addVcm\<close>.\<close>

definition add_carriers_group ::
  "u32 \<Rightarrow> fmt_group \<Rightarrow> u32 \<Rightarrow> rat \<Rightarrow> carrier_access \<Rightarrow> dama_category \<Rightarrow> dama_category" where
  "add_carriers_group i g ratio rate access c =
     (case add_vcm_to i g ratio (carriers_groups c) of
        Some gs \<Rightarrow> c\<lparr>carriers_groups := gs\<rparr>
      | None \<Rightarrow>
          (if \<exists>g \<in> set (other_carriers c). carriers_id g = i then c
           else
             (let c1 = (if access = desired_access c
                  then c\<lparr>carriers_groups := carriers_groups c @
                         [add_vcm g ratio (new_carriers_dama i g ratio rate access)]\<rparr>
                  else c\<lparr>other_carriers := other_carriers c @
                         [new_carriers_group i g ratio rate access]\<rparr>)
              in (if map_of (symbol_rate_list c1) rate = None
                  then c1\<lparr>symbol_rate_list := omap_put rate 0 (symbol_rate_list c1)\<rparr> else c1))))"

text \<open>The second \<^verbatim>\<open>addCarriersGroup\<close>, which merges a group with one of the same symbol rate;
  a group of another access type is dropped.\<close>

definition add_allocated_group ::
  "u32 \<Rightarrow> fmt_group \<Rightarrow> u32 \<Rightarrow> u32 \<Rightarrow> rat \<Rightarrow> carrier_access \<Rightarrow> time_ms \<Rightarrow> dama_category \<Rightarrow>
   dama_category option" where
  "add_allocated_group i g number ratio rate access duration c =
     (case search_carriers_group c rate of
        Some k \<Rightarrow>
          (let old = carriers_groups c ! k in
           Some (c\<lparr>carriers_groups := (carriers_groups c)[k :=
             set_ratio (ratio + carriers_ratio old)
               (set_carriers_number (number + carriers_number old) old)]\<rparr>))
      | None \<Rightarrow>
          (case add_vcm_to i g ratio (carriers_groups c) of
             Some gs \<Rightarrow> Some (c\<lparr>carriers_groups := gs\<rparr>)
           | None \<Rightarrow>
               (if access = desired_access c
                then
                  (case set_capacity (cfloor (fl64 (fl64 (rate * num duration) / 1000)))
                          (set_carriers_number number
                            (add_vcm g ratio (new_carriers_dama i g ratio rate access))) of
                     None \<Rightarrow> None
                   | Some grp \<Rightarrow> Some (c\<lparr>carriers_groups := carriers_groups c @ [grp],
                       symbol_rate_list := add_to_rates rate number (symbol_rate_list c)\<rparr>))
                else Some (c\<lparr>symbol_rate_list :=
                       add_to_rates rate number (symbol_rate_list c)\<rparr>))))"

text \<open>\<^verbatim>\<open>deallocateCarriers\<close>: the loop over the groups, with the number of carriers still to be
  removed and the ratio removed so far.\<close>

fun deallocate_loop ::
  "rat \<Rightarrow> u32 \<Rightarrow> u32 \<Rightarrow> carriers_dama list \<Rightarrow> carriers_dama list \<times> u32 \<times> u32" where
  "deallocate_loop rate number assoc [] = ([], number, assoc)"
| "deallocate_loop rate number assoc (g # gs) =
     (let actual = carriers_number g; ratio = carriers_ratio g in
      if actual = 0 \<or> symbol_rate_symps g \<noteq> rate
      then (case deallocate_loop rate number assoc gs of (gs', n, a) \<Rightarrow> (g # gs', n, a))
      else if actual < number
      then (case deallocate_loop rate (number - actual) (assoc + ratio) gs of
              (gs', n, a) \<Rightarrow> (set_ratio 0 (set_carriers_number 0 g) # gs', n, a))
      else
        (let new_ratio = ratio * (actual - number) div actual
         in (set_carriers_number (actual - number) (set_ratio new_ratio g) # gs, 0,
             assoc + (ratio - new_ratio))))"

definition deallocate_carriers :: "rat \<Rightarrow> u32 \<Rightarrow> dama_category \<Rightarrow> dama_category \<times> u32 \<times> bool" where
  "deallocate_carriers rate number c =
     (case deallocate_loop rate number 0 (carriers_groups c) of
        (gs, left, assoc) \<Rightarrow> (c\<lparr>carriers_groups := gs\<rparr>, assoc, \<not> left > 0))"

section \<open>Deallocation\<close>

definition rate_carriers :: "rat \<Rightarrow> carriers_dama list \<Rightarrow> nat" where
  "rate_carriers rate gs =
     (\<Sum>g \<leftarrow> filter (\<lambda>g. symbol_rate_symps g = rate) gs. unat (carriers_number g))"

definition other_numbers :: "rat \<Rightarrow> carriers_dama list \<Rightarrow> u32 list" where
  "other_numbers rate gs = map carriers_number (filter (\<lambda>g. symbol_rate_symps g \<noteq> rate) gs)"

lemma group_updates [simp]:
  "carriers_number (set_carriers_number n g) = n" "carriers_ratio (set_carriers_number n g) = carriers_ratio g"
  "symbol_rate_symps (set_carriers_number n g) = symbol_rate_symps g"
  "carriers_number (set_ratio r g) = carriers_number g" "carriers_ratio (set_ratio r g) = r"
  "symbol_rate_symps (set_ratio r g) = symbol_rate_symps g"
  by (simp_all add: set_carriers_number_def set_ratio_def)

lemma deallocate_loop_counts:
  "deallocate_loop rate number assoc gs = (gs', left, assoc') \<Longrightarrow>
   rate_carriers rate gs' + unat number = rate_carriers rate gs + unat left \<and>
   (left \<noteq> 0 \<longrightarrow> rate_carriers rate gs' = 0) \<and> unat left \<le> unat number \<and>
   other_numbers rate gs' = other_numbers rate gs \<and>
   sum_list (map carriers_ratio gs') + assoc' = sum_list (map carriers_ratio gs) + assoc"
proof (induction rate number assoc gs arbitrary: gs' left assoc' rule: deallocate_loop.induct)
  case (1 rate number assoc)
  then show ?case by (auto simp: rate_carriers_def)
next
  case (2 rate number assoc g gs)
  let ?a = "carriers_number g"
  consider (skip) "?a = 0 \<or> symbol_rate_symps g \<noteq> rate"
    | (all) "\<not> (?a = 0 \<or> symbol_rate_symps g \<noteq> rate)" "?a < number"
    | (part) "\<not> (?a = 0 \<or> symbol_rate_symps g \<noteq> rate)" "\<not> ?a < number" by blast
  then show ?case
  proof cases
    case skip
    with 2(3) obtain gs1 where r: "deallocate_loop rate number assoc gs = (gs1, left, assoc')"
      "gs' = g # gs1" by (auto simp: Let_def split: prod.splits)
    from 2(1) [OF refl refl skip r(1)] skip r(2) show ?thesis
      by (auto simp: rate_carriers_def other_numbers_def add.assoc)
  next
    case all
    with 2(3) obtain gs1 where r:
      "deallocate_loop rate (number - ?a) (assoc + carriers_ratio g) gs = (gs1, left, assoc')"
      "gs' = set_ratio 0 (set_carriers_number 0 g) # gs1" by (auto simp: Let_def split: prod.splits)
    have "unat (number - ?a) + unat ?a = unat number"
      using all(2) by (simp add: word_less_nat_alt unat_sub word_le_nat_alt)
    with 2(2) [OF refl refl all r(1)] all r(2) show ?thesis
      by (auto simp: rate_carriers_def other_numbers_def algebra_simps)
  next
    case part
    then have "unat number \<le> unat ?a" by (simp add: word_less_nat_alt)
    then have "unat (?a - number) + unat number = unat ?a" by (simp add: unat_sub word_le_nat_alt)
    with 2(3) part show ?thesis
      by (auto simp: Let_def rate_carriers_def other_numbers_def algebra_simps)
  qed
qed

text \<open>Removing carriers of a symbol rate from a category.  The carriers of the other rates keep
  their number.  When the call succeeds, the number of carriers of that rate decreases by exactly
  the requested number; when it fails, there were too few of them and all are gone.  In both cases
  the ratio it reports is what the groups lost (modulo 2^32).\<close>

theorem deallocation_counts:
  assumes "deallocate_carriers rate number c = (c', assoc, ok)"
  shows "other_numbers rate (carriers_groups c') = other_numbers rate (carriers_groups c) \<and>
    (if ok then rate_carriers rate (carriers_groups c') + unat number =
         rate_carriers rate (carriers_groups c)
     else rate_carriers rate (carriers_groups c) < unat number \<and>
       rate_carriers rate (carriers_groups c') = 0) \<and>
    sum_list (map carriers_ratio (carriers_groups c')) + assoc =
      sum_list (map carriers_ratio (carriers_groups c))"
proof -
  obtain gs left where l: "deallocate_loop rate number 0 (carriers_groups c) = (gs, left, assoc)"
    "c' = c\<lparr>carriers_groups := gs\<rparr>" "ok \<longleftrightarrow> left = 0"
    using assms by (auto simp: deallocate_carriers_def word_gt_0 split: prod.splits)
  have "left \<noteq> 0 \<Longrightarrow> 0 < unat left" by (simp add: unat_gt_0)
  with deallocate_loop_counts [OF l(1)] l(2,3) show ?thesis by auto
qed

theorem deallocation_counts_witness:
  "let g = \<lparr>group_members = [], group_modcods = []\<rparr>;
       c = (new_category ''Standard'' DAMA)\<lparr>carriers_groups :=
             [set_carriers_number 5 (new_carriers_dama 1 g 10 1000 DAMA)]\<rparr>
   in map carriers_number (carriers_groups (fst (deallocate_carriers 1000 2 c))) = [3]"
proof -
  define g :: fmt_group where "g = \<lparr>group_members = [], group_modcods = []\<rparr>"
  define c where "c = (new_category ''Standard'' DAMA)\<lparr>carriers_groups :=
             [set_carriers_number 5 (new_carriers_dama 1 g 10 1000 DAMA)]\<rparr>"
  obtain c' assoc ok where d: "deallocate_carriers 1000 2 c = (c', assoc, ok)" by (cases "deallocate_carriers 1000 2 c")
  have r: "symbol_rate_symps (new_carriers_dama 1 g 10 1000 DAMA) = 1000"
    by (simp add: new_carriers_dama_def new_dama_group_def new_carriers_group_def
        dama_group.defs carriers_group.defs)
  have one: "rate_carriers 1000 (carriers_groups c) = 5" by (simp add: rate_carriers_def c_def r)
  have "length (carriers_groups c') = 1" "symbol_rate_symps (hd (carriers_groups c')) = 1000"
    using d by (auto simp: deallocate_carriers_def c_def r Let_def split: if_splits)
  then obtain h where h: "carriers_groups c' = [h]" "symbol_rate_symps h = 1000" by (cases "carriers_groups c'") auto
  from deallocation_counts [OF d] one h have "unat (carriers_number h) = 3"
    by (auto simp: rate_carriers_def split: if_splits)
  then have "carriers_number h = 3" by (simp add: word_unat_eq_iff)
  with d h show ?thesis unfolding c_def g_def by simp
qed

end
