(* ===== verification/Dama_Ctrl.thy ===== *)
theory Dama_Ctrl
  imports Sac Ttp Dama_Terminal Carriers Unit_Converter "HOL-Library.List_Lexorder" "HOL-Library.Char_ord"
begin

text \<open>
  The demand assignment controller of the network control centre
  (\<^verbatim>\<open>opensand-core/src/dvb/dama/DamaCtrl.cpp\<close>, \<^verbatim>\<open>DamaCtrlRcs2.cpp\<close>): the terminals
  that are logged on, their requests, the scheme and the carrier each is served with, and the time
  plan built from their allocations.  The controller and the categories hold pointers to the same
  terminal contexts; here the contexts are in the map of the controller and the categories list
  identifiers.  The figures that only feed probes per carrier and per category are left out.
\<close>

section \<open>The state\<close>

record dama_ctrl =
  converter :: unit_converter
  dama_terminals :: "(tal_id, terminal) omap"
  current_superframe :: time_sf
  dama_frame_duration :: time_ms
  rbdc_timeout_sf :: time_sf
  fca_kbps :: rate_kbps
  enable_rbdc :: bool
  enable_vbdc :: bool
  categories :: "(string, dama_category) omap"
  terminal_affectation :: "(tal_id, string option) omap"
  default_category :: "string option"
  input_sts :: st_list
  input_modcods :: fmt_table
  simulated :: bool
  gw_st_num :: int
  gw_rbdc_max :: int
  gw_rbdc_req_num :: int
  gw_vbdc_req_num :: int
  gw_cra_alloc :: int

text \<open>The constructor and \<^verbatim>\<open>initParent\<close>.  A category is named by its label; the label of a
  category that is not one of the DAMA categories is not in \<open>categories\<close>.\<close>

definition init_parent ::
  "time_ms \<Rightarrow> time_sf \<Rightarrow> rate_kbps \<Rightarrow> (string, dama_category) omap \<Rightarrow>
   (tal_id, string option) omap \<Rightarrow> string option \<Rightarrow> st_list \<Rightarrow> fmt_table \<Rightarrow> bool \<Rightarrow> dama_ctrl" where
  "init_parent duration timeout fca cats affectation default_cat stations modcods simu =
     \<lparr>converter = new_converter duration 0 0, dama_terminals = [], current_superframe = 0,
      dama_frame_duration = duration, rbdc_timeout_sf = timeout, fca_kbps = fca,
      enable_rbdc = False, enable_vbdc = False, categories = cats,
      terminal_affectation = affectation, default_category = default_cat, input_sts = stations,
      input_modcods = modcods, simulated = simu, gw_st_num = 0, gw_rbdc_max = 0,
      gw_rbdc_req_num = 0, gw_vbdc_req_num = 0, gw_cra_alloc = 0\<rparr>"

text \<open>\<^verbatim>\<open>DamaCtrlRcs2::init\<close>, with the burst length read in the configuration.\<close>

definition rcs2_init :: "vol_sym option \<Rightarrow> dama_ctrl \<Rightarrow> dama_ctrl \<times> bool" where
  "rcs2_init burst_length d =
     (case burst_length of
        None \<Rightarrow> (d, False)
      | Some l \<Rightarrow> (if l = 0 then (d, False)
                  else (d\<lparr>converter := new_converter (dama_frame_duration d) 0 l\<rparr>, True)))"

text \<open>\<^verbatim>\<open>DamaCtrlRcs2Legacy::init\<close>: one carrier per category, with at least one scheme.\<close>

definition legacy_category_ok :: "dama_category \<Rightarrow> bool option" where
  "legacy_category_ok c =
     (if length (carriers_groups c) > 1 then Some False
      else (case carriers_groups c of
              [] \<Rightarrow> None
            | g # _ \<Rightarrow> Some (\<not> carriers_number g > 1 \<and> group_members (fmt_group g) \<noteq> [])))"

fun legacy_categories_ok :: "(string \<times> dama_category) list \<Rightarrow> bool option" where
  "legacy_categories_ok [] = Some True"
| "legacy_categories_ok ((l, c) # cs) =
     (case legacy_category_ok c of
        None \<Rightarrow> None | Some ok \<Rightarrow> if ok then legacy_categories_ok cs else Some False)"

definition legacy_init :: "vol_sym option \<Rightarrow> dama_ctrl \<Rightarrow> (dama_ctrl \<times> bool) option" where
  "legacy_init burst_length d =
     (let (d1, ok) = rcs2_init burst_length d in
      if \<not> ok then Some (d1, False)
      else (case legacy_categories_ok (categories d1) of
              None \<Rightarrow> None | Some good \<Rightarrow> Some (d1, good)))"

definition update_terminal :: "(terminal \<Rightarrow> terminal) \<Rightarrow> tal_id \<Rightarrow> dama_ctrl \<Rightarrow> dama_ctrl" where
  "update_terminal f tal d = d\<lparr>dama_terminals := omap_update f tal (dama_terminals d)\<rparr>"

definition get_terminal_context :: "dama_ctrl \<Rightarrow> tal_id \<Rightarrow> terminal option" where
  "get_terminal_context d tal = map_of (dama_terminals d) tal"

section \<open>Logon and logoff\<close>

definition create_terminal ::
  "dama_ctrl \<Rightarrow> rate_kbps \<Rightarrow> tal_id \<Rightarrow> rate_kbps \<Rightarrow> rate_kbps \<Rightarrow> vol_kb \<Rightarrow> terminal" where
  "create_terminal d any_cra_alloc tal cra max_rbdc max_vbdc =
     (let t = new_terminal any_cra_alloc tal cra max_rbdc (rbdc_timeout_sf d) max_vbdc;
          best = get_max_id (input_modcods d)
      in if best = 0 then t else set_required_fmt (get_definition (input_modcods d) best) t)"

definition log_in_category ::
  "dama_ctrl \<Rightarrow> rate_kbps \<Rightarrow> tal_id \<Rightarrow> rate_kbps \<Rightarrow> rate_kbps \<Rightarrow> vol_kb \<Rightarrow> string \<Rightarrow>
   dama_ctrl \<times> bool" where
  "log_in_category d any_cra_alloc tal cra max_rbdc max_vbdc label =
     (if map_of (categories d) label = None then (d, True)
      else
        (let t = set_current_category label
               (create_terminal d any_cra_alloc tal cra max_rbdc max_vbdc)
         in (d\<lparr>dama_terminals := omap_put tal t (dama_terminals d),
               categories := omap_update (category_add_terminal tal) label (categories d),
               gw_st_num := gw_st_num d + 1,
               gw_rbdc_max := gw_rbdc_max d + int (unat max_rbdc)\<rparr>, True)))"

definition here_is_logon ::
  "dama_ctrl \<Rightarrow> rate_kbps \<Rightarrow> tal_id \<Rightarrow> rate_kbps \<Rightarrow> rate_kbps \<Rightarrow> vol_kb \<Rightarrow> dama_ctrl \<times> bool" where
  "here_is_logon d any_cra_alloc tal cra max_rbdc max_vbdc =
     (if get_terminal_context d tal \<noteq> None then (d, True)
      else
        (case map_of (terminal_affectation d) tal of
           None \<Rightarrow>
             (case default_category d of
                None \<Rightarrow> (d, False)
              | Some label \<Rightarrow> log_in_category d any_cra_alloc tal cra max_rbdc max_vbdc label)
         | Some None \<Rightarrow> (d, True)
         | Some (Some label) \<Rightarrow> log_in_category d any_cra_alloc tal cra max_rbdc max_vbdc label))"

definition here_is_logoff :: "dama_ctrl \<Rightarrow> tal_id \<Rightarrow> dama_ctrl \<times> bool" where
  "here_is_logoff d tal =
     (case get_terminal_context d tal of
        None \<Rightarrow> (d, False)
      | Some t \<Rightarrow>
          (let d1 = d\<lparr>gw_st_num := gw_st_num d - 1,
                 gw_rbdc_max := gw_rbdc_max d - int (unat (max_rbdc_kbps t)),
                 dama_terminals := omap_del (term_tal_id t) (dama_terminals d)\<rparr>
           in (case map_of (categories d1) (term_category t) of
                 None \<Rightarrow> (d1, True)
               | Some c \<Rightarrow>
                   (let (c', ok) = category_remove_terminal (term_tal_id t) c
                    in (d1\<lparr>categories := omap_update (\<lambda>_. c') (term_category t) (categories d1)\<rparr>,
                        ok)))))"

section \<open>Requests\<close>

definition request_vbdc :: "tal_id \<Rightarrow> u32 \<Rightarrow> dama_ctrl \<Rightarrow> dama_ctrl" where
  "request_vbdc tal v d =
     (update_terminal (\<lambda>t. set_required_vbdc (min (ucast v) (max_vbdc_kb t)) t) tal d)
       \<lparr>enable_vbdc := True\<rparr>"

definition request_rbdc :: "tal_id \<Rightarrow> u32 \<Rightarrow> dama_ctrl \<Rightarrow> dama_ctrl" where
  "request_rbdc tal v d =
     (update_terminal (\<lambda>t.
        (let r = word_of_int (max (int (unat (ucast v :: rate_kbps)) - int (unat (cra_request_kbps t))) 0)
         in set_required_rbdc (min r (max_rbdc_kbps t)) t)) tal d)
       \<lparr>enable_rbdc := True\<rparr>"

text \<open>A request of a station without a context (a gateway) dereferences a null pointer.\<close>

fun take_requests :: "tal_id \<Rightarrow> cr_info list \<Rightarrow> dama_ctrl \<Rightarrow> dama_ctrl option" where
  "take_requests tal [] d = Some d"
| "take_requests tal (r # rs) d =
     (if cr_type r = access_code dama_vbdc then
        (if get_terminal_context d tal = None then None
         else take_requests tal rs (request_vbdc tal (cr_value r) d))
      else if cr_type r = access_code dama_rbdc then
        (if get_terminal_context d tal = None then None
         else take_requests tal rs (request_rbdc tal (cr_value r) d))
      else take_requests tal rs d)"

definition here_is_sac ::
  "(tal_id \<Rightarrow> bool) \<Rightarrow> dama_ctrl \<Rightarrow> 'a dvb_frame_scheme \<Rightarrow> (dama_ctrl \<times> bool) option" where
  "here_is_sac is_gw d sac =
     (let tal = sac_terminal_id sac in
      case get_requests sac of
        None \<Rightarrow> None
      | Some requests \<Rightarrow>
          (if get_terminal_context d tal = None \<and> \<not> is_gw tal then Some (d, False)
           else (case take_requests tal requests d of None \<Rightarrow> None | Some d' \<Rightarrow> Some (d', True))))"

definition apply_pep_command ::
  "dama_ctrl \<Rightarrow> tal_id \<Rightarrow> rate_kbps \<Rightarrow> rate_kbps \<Rightarrow> rate_kbps \<Rightarrow> dama_ctrl \<times> bool" where
  "apply_pep_command d st cra max_rbdc rbdc =
     (case get_terminal_context d st of
        None \<Rightarrow> (d, False)
      | Some t \<Rightarrow>
          (let d1 = (if cra \<noteq> 0 then update_terminal (set_required_cra cra) st d else d);
               d2 = (if max_rbdc \<noteq> 0
                     then (update_terminal (set_max_rbdc max_rbdc) st d1)
                       \<lparr>gw_rbdc_max := gw_rbdc_max d1 - int (unat (max_rbdc_kbps t)) +
                          int (unat max_rbdc)\<rparr>
                     else d1);
               d3 = (if rbdc \<noteq> 0
                     then update_terminal (\<lambda>u. update_rbdc_timeout (rbdc_timeout_sf d)
                            (set_required_rbdc rbdc (update_rbdc_timeout 100 u))) st d2
                     else d2)
           in (d3, True)))"

section \<open>The time plan\<close>

definition terminal_allocation :: "unit_converter \<Rightarrow> terminal \<Rightarrow> vol_kb" where
  "terminal_allocation cv t =
     (if terminal_fmt_id t \<noteq> 0
      then total_volume_allocation t + ucast (ps_to_pf cv (ucast (total_rate_allocation t)))
      else 0)"

text \<open>The terminals in the order \<^verbatim>\<open>buildTTP\<close> visits them.\<close>

definition listed_terminals :: "dama_ctrl \<Rightarrow> terminal list" where
  "listed_terminals d =
     List.map_filter (get_terminal_context d)
       (concat (map (\<lambda>(l, c). cat_terminals c) (categories d)))"

definition build_ttp :: "(nat \<Rightarrow> u16) \<Rightarrow> dama_ctrl \<Rightarrow> ttp \<Rightarrow> ttp" where
  "build_ttp junk d msg =
     ttp_build junk (foldl (\<lambda>m t. fst (add_time_plan m 0 (term_tal_id t) 0
         (terminal_allocation (converter d) t) (ucast (terminal_fmt_id t)) 0)) msg (listed_terminals d))"

section \<open>Schemes and carriers of the terminals\<close>

fun required_fmts_loop :: "tal_id list \<Rightarrow> dama_ctrl \<Rightarrow> dama_ctrl" where
  "required_fmts_loop [] d = d"
| "required_fmts_loop (tal # tals) d =
     (let modcods = input_modcods d;
          (stations, chosen) =
            (if \<not> simulated d
             then (let (l, cni) = list_get_required_cni modcods (input_sts d) tal
                   in (l, get_required_modcod modcods cni))
             else (input_sts d, list_modcod_id (input_sts d) tal));
          i = (if chosen = 0 then get_min_id modcods else chosen)
      in required_fmts_loop tals
           (update_terminal (set_required_fmt (get_definition modcods i)) tal
             (d\<lparr>input_sts := stations\<rparr>)))"

definition update_required_fmts :: "dama_ctrl \<Rightarrow> dama_ctrl" where
  "update_required_fmts d = required_fmts_loop (map fst (dama_terminals d)) d"

definition current_carrier_fmt :: "carriers_dama list \<Rightarrow> u32 \<Rightarrow> u32 \<Rightarrow> u32" where
  "current_carrier_fmt gs carrier required =
     (case filter (\<lambda>g. carriers_id g = carrier \<and> nearest_fmt_id g required \<noteq> 0) gs of
        [] \<Rightarrow> 0 | g # _ \<Rightarrow> nearest_fmt_id g required)"

fun other_carrier_fmt :: "carriers_dama list \<Rightarrow> u32 \<Rightarrow> u32 \<Rightarrow> u32 \<Rightarrow> u32 \<times> u32" where
  "other_carrier_fmt [] required carrier available = (carrier, available)"
| "other_carrier_fmt (g # gs) required carrier available =
     (let fmt = nearest_fmt_id g required in
      if required \<le> fmt then (carriers_id g, fmt)
      else other_carrier_fmt gs required (carriers_id g) (max available fmt))"

definition update_wave_form :: "dama_ctrl \<Rightarrow> terminal \<Rightarrow> terminal" where
  "update_wave_form d t =
     (let required = (case req_fmt_def t of None \<Rightarrow> 0 | Some f \<Rightarrow> fmt_def_id f) in
      case map_of (categories d) (term_category t) of
        None \<Rightarrow> t
      | Some c \<Rightarrow>
          (let gs = carriers_groups c;
               available = current_carrier_fmt gs (term_carrier_id t) required;
               (carrier, fmt) =
                 (if available = 0 then other_carrier_fmt gs required (term_carrier_id t) 0
                  else (term_carrier_id t, available))
           in set_fmt (get_definition (input_modcods d) (ucast fmt)) (set_carrier_id carrier t)))"

definition update_wave_forms :: "dama_ctrl \<Rightarrow> dama_ctrl" where
  "update_wave_forms d =
     d\<lparr>dama_terminals := map (\<lambda>(i, t). (i, update_wave_form d t)) (dama_terminals d)\<rparr>"

section \<open>The start of a superframe\<close>

definition reset_carriers_capacity :: "dama_ctrl \<Rightarrow> dama_ctrl" where
  "reset_carriers_capacity d =
     d\<lparr>categories := map (\<lambda>(l, c). (l, c\<lparr>carriers_groups :=
         map (\<lambda>g. set_remaining_capacity (ucast (sym_to_pkt (converter d) (total_capacity g))) g)
           (carriers_groups c)\<rparr>)) (categories d)\<rparr>"

text \<open>The allocations of a terminal are cleared, its timer is decremented, and as long as the
  timer runs a credit is turned into one more packet of request.\<close>

definition reset_terminal :: "unit_converter \<Rightarrow> terminal \<Rightarrow> unit_converter \<times> terminal \<times> bool" where
  "reset_terminal cv t =
     (let t1 = decrement_timer (set_fca_allocation 0 (set_vbdc_allocation 0
                 (set_rbdc_allocation 0 (set_cra_allocation 0 t))))
      in if 0 < timer_sf t1 \<and> 0 < rbdc_credit t
         then (case term_fmt_def t1 of
                 None \<Rightarrow> (cv, set_rbdc_credit 0 t1, False)
               | Some f \<Rightarrow>
                   (let cv1 = set_modulation_efficiency (fmt_efficiency f) cv;
                        slot = pktpf_to_kbps cv1 1;
                        credit = max (fl64 (rbdc_credit t - num slot)) 0
                    in (cv1, set_rbdc_credit credit (set_required_rbdc (rbdc_request_kbps t + slot) t1),
                        True)))
         else (cv, t1, True))"

fun reset_terminals_loop ::
  "unit_converter \<Rightarrow> (tal_id \<times> terminal) list \<Rightarrow> unit_converter \<times> (tal_id \<times> terminal) list \<times> bool" where
  "reset_terminals_loop cv [] = (cv, [], True)"
| "reset_terminals_loop cv ((i, t) # ts) =
     (let (cv1, t1, ok1) = reset_terminal cv t;
          (cv2, ts2, ok2) = reset_terminals_loop cv1 ts
      in (cv2, (i, t1) # ts2, ok1 \<and> ok2))"

definition reset_terminals_allocations :: "dama_ctrl \<Rightarrow> dama_ctrl \<times> bool" where
  "reset_terminals_allocations d =
     (let (cv, ts, ok) = reset_terminals_loop (converter d) (dama_terminals d)
      in (d\<lparr>converter := cv, dama_terminals := ts\<rparr>, ok))"

end
