(* ===== verification/Dama_Legacy.thy ===== *)
theory Dama_Legacy
  imports Dama_Ctrl
begin

text \<open>
  The allocation of a superframe (\<^verbatim>\<open>opensand-core/src/dvb/dama/DamaCtrlRcs2Legacy.cpp\<close> and
  \<^verbatim>\<open>DamaCtrl::computeTerminalsAllocations\<close>): constant rates, then rate requests shared
  fairly, then volume requests, then what is left, for the terminals of each carrier.
\<close>

section \<open>Carriers and their terminals\<close>

definition carrier_slots :: "dama_ctrl \<Rightarrow> (string \<times> nat) list" where
  "carrier_slots d =
     concat (map (\<lambda>(l, c). map (\<lambda>i. (l, i)) [0..<length (carriers_groups c)]) (categories d))"

definition group_at :: "dama_ctrl \<Rightarrow> string \<Rightarrow> nat \<Rightarrow> carriers_dama" where
  "group_at d l i = carriers_groups (the (map_of (categories d) l)) ! i"

definition remaining_at :: "dama_ctrl \<Rightarrow> string \<Rightarrow> nat \<Rightarrow> rate_pktpf" where
  "remaining_at d l i = ucast (remaining_capacity (group_at d l i))"

definition set_remaining :: "string \<Rightarrow> nat \<Rightarrow> rate_pktpf \<Rightarrow> dama_ctrl \<Rightarrow> dama_ctrl" where
  "set_remaining l i n d =
     d\<lparr>categories := omap_update (\<lambda>c. c\<lparr>carriers_groups := (carriers_groups c)[i :=
         set_remaining_capacity (ucast n) (carriers_groups c ! i)]\<rparr>) l (categories d)\<rparr>"

definition terminals_in_group :: "dama_ctrl \<Rightarrow> string \<Rightarrow> nat \<Rightarrow> terminal list" where
  "terminals_in_group d l i =
     filter (\<lambda>t. term_carrier_id t = carriers_id (group_at d l i))
       (List.map_filter (get_terminal_context d) (cat_terminals (the (map_of (categories d) l))))"

text \<open>A terminal that is served: its context and its scheme.\<close>

definition served :: "dama_ctrl \<Rightarrow> tal_id \<Rightarrow> (terminal \<times> fmt_def) option" where
  "served d tal =
     (case get_terminal_context d tal of
        None \<Rightarrow> None
      | Some t \<Rightarrow> (case term_fmt_def t of None \<Rightarrow> None | Some f \<Rightarrow> Some (t, f)))"

definition use_scheme :: "fmt_def \<Rightarrow> dama_ctrl \<Rightarrow> dama_ctrl" where
  "use_scheme f d = d\<lparr>converter := set_modulation_efficiency (fmt_efficiency f) (converter d)\<rparr>"

text \<open>The conversions of the allocation: a rate with its error correction in packets per frame, and
  back.\<close>

definition rate_to_packets :: "unit_converter \<Rightarrow> fmt_def \<Rightarrow> rate_kbps \<Rightarrow> rate_pktpf" where
  "rate_to_packets cv f r = kbps_to_pktpf cv (ucast (add_fec f (ucast r)))"

definition packets_to_rate :: "unit_converter \<Rightarrow> fmt_def \<Rightarrow> rate_pktpf \<Rightarrow> rate_kbps" where
  "packets_to_rate cv f p = ucast (remove_fec f (ucast (pktpf_to_kbps cv p)))"

section \<open>Constant rates\<close>

fun cra_loop ::
  "tal_id list \<Rightarrow> dama_ctrl \<Rightarrow> rate_pktpf \<Rightarrow> rate_kbps \<Rightarrow> rate_kbps \<Rightarrow>
   dama_ctrl \<times> rate_pktpf \<times> rate_kbps \<times> rate_kbps" where
  "cra_loop [] d remaining request alloc = (d, remaining, request, alloc)"
| "cra_loop (tal # tals) d remaining request alloc =
     (case served d tal of
        None \<Rightarrow> cra_loop tals d remaining request alloc
      | Some (t, f) \<Rightarrow>
          (let d1 = use_scheme f d;
               cra = cra_request_kbps t;
               pkt = rate_to_packets (converter d1) f cra;
               rate = packets_to_rate (converter d1) f pkt
           in if remaining < pkt then cra_loop tals d1 remaining (request + cra) alloc
              else cra_loop tals (update_terminal (set_cra_allocation rate) tal d1)
                     (remaining - pkt) (request + cra) (alloc + rate)))"

definition cra_per_carrier :: "dama_ctrl \<Rightarrow> string \<Rightarrow> nat \<Rightarrow> dama_ctrl \<times> rate_kbps \<times> rate_kbps" where
  "cra_per_carrier d l i =
     (let (d1, remaining, request, alloc) =
            cra_loop (map term_tal_id (terminals_in_group d l i)) d (remaining_at d l i) 0 0
      in (set_remaining l i remaining d1, request, alloc))"

fun cra_carriers :: "(string \<times> nat) list \<Rightarrow> dama_ctrl \<Rightarrow> bool \<Rightarrow> dama_ctrl \<times> bool" where
  "cra_carriers [] d stat = (d, stat)"
| "cra_carriers ((l, i) # slots) d stat =
     (let (d1, request, alloc) = cra_per_carrier d l i
      in cra_carriers slots (d1\<lparr>gw_cra_alloc := gw_cra_alloc d1 + int (unat alloc)\<rparr>)
           (stat \<and> \<not> alloc < request))"

definition compute_cra :: "dama_ctrl \<Rightarrow> dama_ctrl \<times> bool" where
  "compute_cra d = cra_carriers (carrier_slots d) (d\<lparr>gw_cra_alloc := 0\<rparr>) True"

section \<open>Rate requests\<close>

fun rbdc_requests ::
  "tal_id list \<Rightarrow> dama_ctrl \<Rightarrow> (tal_id, rate_pktpf) omap \<Rightarrow> rate_pktpf \<Rightarrow> rate_kbps \<Rightarrow>
   dama_ctrl \<times> (tal_id, rate_pktpf) omap \<times> rate_pktpf \<times> rate_kbps" where
  "rbdc_requests [] d m total_pkt request = (d, m, total_pkt, request)"
| "rbdc_requests (tal # tals) d m total_pkt request =
     (case served d tal of
        None \<Rightarrow> rbdc_requests tals d m total_pkt request
      | Some (t, f) \<Rightarrow>
          (let d1 = use_scheme f d;
               pkt = rate_to_packets (converter d1) f (rbdc_request_kbps t);
               d2 = (if 0 < pkt then d1\<lparr>gw_rbdc_req_num := gw_rbdc_req_num d1 + 1\<rparr> else d1)
           in rbdc_requests tals d2 (omap_put tal pkt m) (total_pkt + pkt)
                (request + packets_to_rate (converter d1) f pkt)))"

definition packet_request :: "(tal_id, rate_pktpf) omap \<Rightarrow> tal_id \<Rightarrow> rate_pktpf" where
  "packet_request m tal = (case map_of m tal of None \<Rightarrow> 0 | Some p \<Rightarrow> p)"

definition fair_share :: "rate_pktpf \<Rightarrow> rate_pktpf \<Rightarrow> rat" where
  "fair_share total_pkt remaining =
     (let share = fl64 (num total_pkt / num remaining) in if share < 1 then 1 else share)"

definition fair_packets :: "rat \<Rightarrow> rate_pktpf \<Rightarrow> rat" where
  "fair_packets share request = fl64 (num request / share)"

fun rbdc_serve ::
  "tal_id list \<Rightarrow> dama_ctrl \<Rightarrow> (tal_id, rate_pktpf) omap \<Rightarrow> rat \<Rightarrow> rate_pktpf \<Rightarrow> rate_kbps \<Rightarrow>
   dama_ctrl \<times> rate_pktpf \<times> rate_kbps" where
  "rbdc_serve [] d m share remaining alloc = (d, remaining, alloc)"
| "rbdc_serve (tal # tals) d m share remaining alloc =
     (case served d tal of
        None \<Rightarrow> rbdc_serve tals d m share remaining alloc
      | Some (t, f) \<Rightarrow>
          (let d1 = use_scheme f d;
               cv = converter d1;
               fair = fair_packets share (packet_request m tal);
               pkt = cfloor fair;
               rate = packets_to_rate cv f pkt;
               d2 = update_terminal (set_rbdc_allocation rate) tal d1;
               credit = fl64 (fl64 (fl64 (fl64 (fair - num pkt) * num (packet_bit_length cv)) /
                          num (frame_duration_ms cv)) / coding_rate f);
               d3 = (if share > 1 then update_terminal (add_rbdc_credit credit) tal d2 else d2)
           in rbdc_serve tals d3 m share (remaining - pkt) (alloc + rate)))"

fun rbdc_extra ::
  "tal_id list \<Rightarrow> dama_ctrl \<Rightarrow> rate_pktpf \<Rightarrow> rate_kbps \<Rightarrow> dama_ctrl \<times> rate_pktpf \<times> rate_kbps" where
  "rbdc_extra [] d remaining alloc = (d, remaining, alloc)"
| "rbdc_extra (tal # tals) d remaining alloc =
     (if \<not> remaining > 0 then (d, remaining, alloc)
      else
        (case served d tal of
           None \<Rightarrow> rbdc_extra tals d remaining alloc
         | Some (t, f) \<Rightarrow>
             (let d1 = use_scheme f d;
                  slot = packets_to_rate (converter d1) f 1
              in if rbdc_credit t > num slot \<and>
                    int (unat (max_rbdc_kbps t)) - int (unat (rbdc_alloc_kbps t)) -
                      int (unat (cra_alloc_kbps t)) > int (unat slot)
                 then rbdc_extra tals
                        (update_terminal (\<lambda>u. add_rbdc_credit (- num slot)
                           (set_rbdc_allocation (rbdc_alloc_kbps t + slot) u)) tal d1)
                        (remaining - 1) (alloc + slot)
                 else rbdc_extra tals d1 remaining alloc)))"

definition contexts :: "dama_ctrl \<Rightarrow> tal_id list \<Rightarrow> terminal list" where
  "contexts d tals = List.map_filter (get_terminal_context d) tals"

definition rbdc_per_carrier :: "dama_ctrl \<Rightarrow> string \<Rightarrow> nat \<Rightarrow> dama_ctrl \<times> rate_kbps \<times> rate_kbps" where
  "rbdc_per_carrier d l i =
     (let remaining = remaining_at d l i;
          tals = map term_tal_id (terminals_in_group d l i)
      in if remaining = 0 then (d, 0, 0)
         else
           (let (d1, m, total_pkt, request) = rbdc_requests tals d [] 0 0 in
            if total_pkt = 0 then (d1, request, 0)
            else
              (let share = fair_share total_pkt remaining;
                   (d2, remaining2, alloc2) = rbdc_serve tals d1 m share remaining 0;
                   (d3, remaining3, alloc3) =
                     (if share > 1
                      then rbdc_extra (map term_tal_id (sort_by_credit (contexts d2 tals)))
                             d2 remaining2 alloc2
                      else (d2, remaining2, alloc2))
               in (set_remaining l i remaining3 d3, request, alloc3))))"

fun rbdc_carriers :: "(string \<times> nat) list \<Rightarrow> dama_ctrl \<Rightarrow> dama_ctrl" where
  "rbdc_carriers [] d = d"
| "rbdc_carriers ((l, i) # slots) d = rbdc_carriers slots (fst (rbdc_per_carrier d l i))"

definition compute_rbdc :: "dama_ctrl \<Rightarrow> dama_ctrl" where
  "compute_rbdc d = (rbdc_carriers (carrier_slots d) d)\<lparr>gw_rbdc_req_num := 0\<rparr>"

section \<open>Volume requests\<close>

text \<open>The loop also returns the terminals it did not reach.\<close>

fun vbdc_loop ::
  "tal_id list \<Rightarrow> dama_ctrl \<Rightarrow> rate_pktpf \<Rightarrow> vol_kb \<Rightarrow> vol_kb \<Rightarrow>
   dama_ctrl \<times> rate_pktpf \<times> vol_kb \<times> vol_kb \<times> tal_id list" where
  "vbdc_loop [] d remaining request alloc = (d, remaining, request, alloc, [])"
| "vbdc_loop (tal # tals) d remaining request alloc =
     (if \<not> 0 < remaining then (d, remaining, request, alloc, tal # tals)
      else
        (case served d tal of
           None \<Rightarrow> vbdc_loop tals d remaining request alloc
         | Some (t, f) \<Rightarrow>
             (let d1 = use_scheme f d;
                  cv = converter d1;
                  request_kb = ucast (add_fec f (ucast (vbdc_request_kb t)));
                  request_pkt = kbits_to_pkt cv request_kb
              in if request_pkt \<le> 0 then vbdc_loop tals d1 remaining request alloc
                 else
                   (let alloc_pkt = (if request_pkt \<le> remaining then request_pkt else remaining);
                        alloc_kb = ucast (remove_fec f (ucast (pkt_to_kbits cv alloc_pkt)));
                        d2 = (update_terminal (set_vbdc_allocation alloc_kb) tal d1)
                          \<lparr>gw_vbdc_req_num := gw_vbdc_req_num d1 + 1\<rparr>
                    in vbdc_loop tals d2 (remaining - alloc_pkt) (request + request_kb)
                         (alloc + alloc_kb)))))"

fun vbdc_rest :: "tal_id list \<Rightarrow> dama_ctrl \<Rightarrow> vol_kb \<Rightarrow> dama_ctrl \<times> vol_kb" where
  "vbdc_rest [] d request = (d, request)"
| "vbdc_rest (tal # tals) d request =
     (case get_terminal_context d tal of
        None \<Rightarrow> vbdc_rest tals d request
      | Some t \<Rightarrow>
          (if vbdc_request_kb t > 0
           then vbdc_rest tals (d\<lparr>gw_vbdc_req_num := gw_vbdc_req_num d + 1\<rparr>)
                  (request + vbdc_request_kb t)
           else vbdc_rest tals d request))"

definition vbdc_per_carrier :: "dama_ctrl \<Rightarrow> string \<Rightarrow> nat \<Rightarrow> dama_ctrl \<times> vol_kb \<times> vol_kb" where
  "vbdc_per_carrier d l i =
     (let remaining = remaining_at d l i;
          tals = map term_tal_id (sort_by_vbdc (sort_by_vbdc (terminals_in_group d l i)))
      in if remaining = 0 then (d, 0, 0)
         else if tals = [] then (d, 0, 0)
         else
           (let (d1, remaining1, request, alloc, rest) = vbdc_loop tals d remaining 0 0;
                (d2, request2) = vbdc_rest rest d1 request
            in (set_remaining l i remaining1 d2, request2, alloc)))"

fun vbdc_carriers :: "(string \<times> nat) list \<Rightarrow> dama_ctrl \<Rightarrow> dama_ctrl" where
  "vbdc_carriers [] d = d"
| "vbdc_carriers ((l, i) # slots) d = vbdc_carriers slots (fst (vbdc_per_carrier d l i))"

definition compute_vbdc :: "dama_ctrl \<Rightarrow> dama_ctrl" where
  "compute_vbdc d = (vbdc_carriers (carrier_slots d) d)\<lparr>gw_vbdc_req_num := 0\<rparr>"

section \<open>The free capacity\<close>

text \<open>\<^verbatim>\<open>computeDamaFcaPerCarrier\<close> goes to the next turn of its loop without advancing when it
  meets a terminal without a scheme: the loop may not end, which is the value \<open>None\<close>.\<close>

partial_function (option) fca_loop ::
  "tal_id list \<Rightarrow> dama_ctrl \<Rightarrow> rate_pktpf \<Rightarrow> rate_kbps \<Rightarrow> (dama_ctrl \<times> rate_pktpf \<times> rate_kbps) option" where
  "fca_loop tals d remaining alloc =
     (case tals of
        [] \<Rightarrow> Some (d, remaining, alloc)
      | tal # rest \<Rightarrow>
          (if \<not> 0 < remaining then Some (d, remaining, alloc)
           else
             (case served d tal of
                None \<Rightarrow> fca_loop tals d remaining alloc
              | Some (t, f) \<Rightarrow>
                  (let cv = converter d;
                       fca = kbps_to_pktpf cv (ucast (add_fec f (ucast (fca_kbps d))));
                       pkt = (if remaining > fca then fca else remaining);
                       rate = packets_to_rate cv f pkt
                   in fca_loop rest (update_terminal (set_fca_allocation rate) tal d)
                        (remaining - pkt) (alloc + rate)))))"

definition fca_per_carrier :: "dama_ctrl \<Rightarrow> string \<Rightarrow> nat \<Rightarrow> (dama_ctrl \<times> rate_kbps) option" where
  "fca_per_carrier d l i =
     (let ts = terminals_in_group d l i; remaining = remaining_at d l i in
      if ts = [] then Some (d, 0)
      else if remaining \<le> 0 then Some (d, 0)
      else (case fca_loop (map term_tal_id (sort_by_credit ts)) d remaining 0 of
              None \<Rightarrow> None
            | Some (d1, remaining1, alloc) \<Rightarrow> Some (set_remaining l i remaining1 d1, alloc)))"

fun fca_carriers :: "(string \<times> nat) list \<Rightarrow> dama_ctrl \<Rightarrow> dama_ctrl option" where
  "fca_carriers [] d = Some d"
| "fca_carriers ((l, i) # slots) d =
     (case fca_per_carrier d l i of None \<Rightarrow> None | Some (d1, _) \<Rightarrow> fca_carriers slots d1)"

definition compute_fca :: "dama_ctrl \<Rightarrow> dama_ctrl option" where
  "compute_fca d = (if fca_kbps d = 0 then Some d else fca_carriers (carrier_slots d) d)"

section \<open>The superframe\<close>

definition compute_allocations :: "dama_ctrl \<Rightarrow> (dama_ctrl \<times> bool) option" where
  "compute_allocations d =
     (let (d1, ok1) = reset_terminals_allocations d in
      if \<not> ok1 then Some (d1, False)
      else
        (let (d2, ok2) = compute_cra d1 in
         if \<not> ok2 then Some (d2, False)
         else
           (let d3 = (if enable_rbdc d2 then compute_rbdc d2 else d2);
                d4 = (if enable_vbdc d3 then compute_vbdc d3 else d3)
            in (case compute_fca d4 of None \<Rightarrow> None | Some d5 \<Rightarrow> Some (d5, True)))))"

text \<open>\<^verbatim>\<open>runOnSuperFrameChange\<close> ends with \<^verbatim>\<open>return 0\<close> in a function that returns a
  boolean.\<close>

definition run_on_super_frame_change :: "dama_ctrl \<Rightarrow> time_sf \<Rightarrow> (dama_ctrl \<times> bool) option" where
  "run_on_super_frame_change d sf =
     (case compute_allocations
             (update_wave_forms (reset_carriers_capacity (d\<lparr>current_superframe := sf\<rparr>))) of
        None \<Rightarrow> None | Some (d', _) \<Rightarrow> Some (d', False))"

section \<open>What the loops keep\<close>

lemma update_terminal_simps [simp]:
  "converter (update_terminal f tal d) = converter d"
  "categories (update_terminal f tal d) = categories d"
  "fca_kbps (update_terminal f tal d) = fca_kbps d"
  "get_terminal_context (update_terminal f tal d) x =
     (if x = tal then map_option f (get_terminal_context d x) else get_terminal_context d x)"
  by (simp_all add: update_terminal_def get_terminal_context_def map_of_omap_update)

lemma use_scheme_simps [simp]:
  "categories (use_scheme f d) = categories d" "fca_kbps (use_scheme f d) = fca_kbps d"
  "get_terminal_context (use_scheme f d) x = get_terminal_context d x"
  "converter (use_scheme f d) = set_modulation_efficiency (fmt_efficiency f) (converter d)"
  by (simp_all add: use_scheme_def get_terminal_context_def)

lemma set_modulation_twice [simp]:
  "set_modulation_efficiency e (set_modulation_efficiency e' c) = set_modulation_efficiency e c"
  by (simp add: set_modulation_efficiency_def)

text \<open>The scheme each terminal is served with, and the categories, do not change during the
  allocation of a carrier.\<close>

definition same_service :: "dama_ctrl \<Rightarrow> dama_ctrl \<Rightarrow> bool" where
  "same_service d d' \<longleftrightarrow>
     categories d' = categories d \<and> fca_kbps d' = fca_kbps d \<and>
     (\<forall>e. set_modulation_efficiency e (converter d') = set_modulation_efficiency e (converter d)) \<and>
     (\<forall>tal. map_option snd (served d' tal) = map_option snd (served d tal))"

lemma same_service_refl: "same_service d d"
  by (simp add: same_service_def)

lemma same_service_trans: "same_service d d' \<Longrightarrow> same_service d' d'' \<Longrightarrow> same_service d d''"
  by (simp add: same_service_def)

lemma same_service_use [simp]: "same_service d (use_scheme f d)"
  by (simp add: same_service_def served_def)

lemma same_service_update:
  "(\<And>t. term_fmt_def (f t) = term_fmt_def t) \<Longrightarrow> same_service d d' \<Longrightarrow>
   same_service d (update_terminal f tal d')"
  by (auto simp: same_service_def served_def split: option.splits)
    (metis (no_types, lifting) option.distinct(1) option.sel option.map_disc_iff)+

lemma same_service_gw [simp]:
  "same_service d (d'\<lparr>gw_rbdc_req_num := n\<rparr>) = same_service d d'"
  "same_service d (d'\<lparr>gw_vbdc_req_num := n\<rparr>) = same_service d d'"
  "same_service d (d'\<lparr>gw_cra_alloc := n\<rparr>) = same_service d d'"
  by (simp_all add: same_service_def served_def get_terminal_context_def)

definition is_served :: "dama_ctrl \<Rightarrow> tal_id \<Rightarrow> bool" where
  "is_served d tal \<longleftrightarrow> served d tal \<noteq> None"

lemma same_is_served: "same_service d d' \<Longrightarrow> is_served d' tal = is_served d tal"
  by (metis is_served_def option.map_disc_iff same_service_def)

lemma terminal_fmt_updates [simp]:
  "term_fmt_def (set_cra_allocation v t) = term_fmt_def t"
  "term_fmt_def (set_rbdc_allocation v t) = term_fmt_def t"
  "term_fmt_def (set_vbdc_allocation w t) = term_fmt_def t"
  "term_fmt_def (set_fca_allocation v t) = term_fmt_def t"
  "term_fmt_def (add_rbdc_credit c t) = term_fmt_def t"
  by (simp_all add: terminal_updates)

section \<open>The fair share\<close>

lemma num_less16: "num (w :: u16) < 2 ^ 16" "num w \<le> 65535"
  using unat_le_mask16 [of w] by (simp_all add: num_def del: of_nat_unat)

lemma fl64_gt_1:
  fixes a b :: u16
  assumes "b < a" "0 < b"
  shows "1 < fl64 (num a / num b)"
proof -
  from assms have "unat b + 1 \<le> unat a" by (simp add: word_less_nat_alt)
  then have "rat_of_nat (unat b + 1) \<le> of_nat (unat a)" by (simp only: of_nat_le_iff)
  then have ab: "num b + 1 \<le> num a" by (simp add: num_def del: of_nat_unat)
  have b: "0 < num b" "num b \<le> 65535"
    using assms(2) num_less16 [of b] by (simp_all add: num_def word_less_nat_alt del: of_nat_unat)
  have "1 + 1 / 65535 \<le> num a / num b"
  proof -
    have "(1 + 1 / 65535) * num b \<le> num a" using ab b(2) by (simp add: distrib_right)
    then show ?thesis using b(1) by (simp add: pos_le_divide_eq)
  qed
  moreover from this have "(1 + 1 / 65535) * (1 - 1 / 2 ^ 53) \<le> num a / num b * (1 - 1 / 2 ^ 53)"
    by (intro mult_right_mono) simp_all
  moreover have "num a / num b * (1 - 1 / 2 ^ 53) \<le> fl64 (num a / num b)"
    by (intro fl_bounds(1)) simp
  ultimately show ?thesis by simp
qed

lemma fl64_ge_1:
  fixes a b :: u16
  assumes "b \<le> a" "0 < b"
  shows "1 \<le> fl64 (num a / num b)"
proof (cases "a = b")
  case True
  have "0 < num b" using assms(2) by (simp add: num_def word_less_nat_alt del: of_nat_unat)
  with True fl_of_int [of 1 53] show ?thesis by simp
next
  case False
  with assms have "b < a" by simp
  from fl64_gt_1 [OF this assms(2)] show ?thesis by simp
qed

lemma fair_share_cases:
  assumes "0 < R"
  shows "T < R \<Longrightarrow> fair_share T R = 1" "R \<le> T \<Longrightarrow> fair_share T R = fl64 (num T / num R)"
proof -
  assume "T < R"
  then have "num T \<le> num R" "0 < num R"
    using assms by (simp_all add: num_def word_less_nat_alt del: of_nat_unat)
  then have "num T / num R \<le> of_int 1" by (simp add: pos_divide_le_eq)
  then have "fl64 (num T / num R) \<le> of_int 1" by (intro fl_le_of_int) simp_all
  then show "fair_share T R = 1" by (simp add: fair_share_def Let_def)
next
  assume "R \<le> T"
  with assms fl64_ge_1 [of R T] show "fair_share T R = fl64 (num T / num R)"
    by (simp add: fair_share_def Let_def)
qed

text \<open>The integer part of the fair share of a request, computed with doubles, is at most the exact
  share.\<close>

lemma fair_floor:
  fixes T R r :: u16
  assumes "0 < R" "R \<le> T"
  defines "k \<equiv> \<lfloor>fair_packets (fair_share T R) r\<rfloor>"
  shows "0 \<le> k" "k * int (unat T) \<le> int (unat r) * int (unat R)"
proof -
  let ?u = "1 / 2 ^ 53 :: rat"
  define s where "s = fl64 (num T / num R)"
  have share: "fair_share T R = s" using fair_share_cases(2) [OF assms(1,2)] by (simp add: s_def)
  have s1: "1 \<le> s" using fl64_ge_1 [OF assms(2,1)] by (simp add: s_def)
  define q where "q = fl64 (num r / s)"
  have k: "k = \<lfloor>q\<rfloor>" by (simp add: k_def share fair_packets_def q_def)
  have q0: "0 \<le> q" unfolding q_def using s1 by (intro fl_nonneg) simp
  then show k0: "0 \<le> k" by (simp add: k)
  have R: "0 < num R" using assms(1) by (simp add: num_def word_less_nat_alt del: of_nat_unat)
  have "num T / num R * (1 - ?u) \<le> s" unfolding s_def by (intro fl_bounds(1)) simp
  then have sR: "num T * (1 - ?u) \<le> s * num R" using R by (simp add: pos_divide_le_eq)
  have "q \<le> num r / s * (1 + ?u)" unfolding q_def using s1 by (intro fl_bounds(2)) simp
  then have qs: "q * s \<le> num r * (1 + ?u)" using s1 by (simp add: pos_le_divide_eq)
  have kq: "of_int k \<le> q" by (simp add: k)
  show "k * int (unat T) \<le> int (unat r) * int (unat R)"
  proof (rule ccontr)
    assume "\<not> k * int (unat T) \<le> int (unat r) * int (unat R)"
    then have "int (unat r) * int (unat R) + 1 \<le> k * int (unat T)" by linarith
    then have "rat_of_int (int (unat r) * int (unat R) + 1) \<le> of_int (k * int (unat T))"
      by (simp only: of_int_le_iff)
    then have rR: "num r * num R + 1 \<le> of_int k * num T" by (simp add: num_def del: of_nat_unat)
    have "of_int k * (num T * (1 - ?u)) \<le> of_int k * (s * num R)"
      using sR k0 by (intro mult_left_mono) simp_all
    also have "\<dots> \<le> q * (s * num R)" using kq s1 R by (intro mult_right_mono) simp_all
    also have "\<dots> = q * s * num R" by simp
    also have "\<dots> \<le> num r * (1 + ?u) * num R" using qs R by (intro mult_right_mono) simp_all
    finally have a: "of_int k * num T * (1 - ?u) \<le> num r * num R * (1 + ?u)" by (simp add: ac_simps)
    have "(num r * num R + 1) * (1 - ?u) \<le> of_int k * num T * (1 - ?u)"
      using rR by (intro mult_right_mono) simp_all
    with a have b: "(num r * num R + 1) * (1 - ?u) \<le> num r * num R * (1 + ?u)" by (rule order_trans [rotated])
    have "num r * num R \<le> 65535 * 65535" using num_less16 by (intro mult_mono) simp_all
    with b show False by (simp add: algebra_simps)
  qed
qed

lemma fair_floor_uncongested:
  assumes "0 < R" "T < R"
  shows "cfloor (fair_packets (fair_share T R) r) = r"
proof -
  have "fair_packets (fair_share T R) r = num r"
    using fair_share_cases(1) [OF assms] by (simp add: fair_packets_def fl_num)
  then show ?thesis by (simp add: cfloor_def trunc_def num_def floor_of_nat del: of_nat_unat) simp
qed

lemma unat_fair:
  assumes "0 < R" "R \<le> T" "r \<le> T"
  shows "unat (cfloor (fair_packets (fair_share T R) r) :: u16) * unat T \<le> unat r * unat R"
    "unat (cfloor (fair_packets (fair_share T R) r) :: u16) = nat \<lfloor>fair_packets (fair_share T R) r\<rfloor>"
proof -
  let ?x = "fair_packets (fair_share T R) r" and ?k = "\<lfloor>fair_packets (fair_share T R) r\<rfloor>"
  note f = fair_floor [OF assms(1,2), of r]
  have T: "0 < unat T" using assms(1,2) by (simp add: word_le_nat_alt word_less_nat_alt)
  have "int (unat r) * int (unat R) \<le> int (unat T) * int (unat R)"
    using assms(3) by (intro mult_right_mono) (simp_all add: word_le_nat_alt del: of_nat_unat)
  with f(2) have "?k * int (unat T) \<le> int (unat R) * int (unat T)" by (simp only: mult.commute)
  then have "?k \<le> int (unat R)" 
    by (rule mult_right_le_imp_le) (simp only: of_nat_0_less_iff T)
  moreover have "int (unat R) \<le> 65535"
    by (metis of_nat_le_iff of_nat_numeral unat_le_mask16)
  ultimately have "?k \<le> 65535" by (rule order_trans)
  then have "?k < 2 ^ 16" by simp
  with f(1) have "unat (cfloor ?x :: u16) = nat ?k"
    by (simp add: cfloor_def trunc_def unsigned_of_int take_bit_int_eq_self)
  moreover from f have "nat ?k * unat T \<le> unat r * unat R"
    by (metis int_nat_eq nat_int_comparison(3) of_nat_mult)
  ultimately show "unat (cfloor ?x :: u16) * unat T \<le> unat r * unat R"
    "unat (cfloor ?x :: u16) = nat ?k" by simp_all
qed

text \<open>It is no more than one packet below the exact share.\<close>

lemma fair_ceil:
  fixes T R r :: u16
  assumes "0 < R" "R \<le> T" "r \<le> T"
  shows "int (unat r) * int (unat R) \<le> (\<lfloor>fair_packets (fair_share T R) r\<rfloor> + 1) * int (unat T)"
proof -
  let ?u = "1 / 2 ^ 53 :: rat"
  define s where "s = fl64 (num T / num R)"
  have share: "fair_share T R = s" using fair_share_cases(2) [OF assms(1,2)] by (simp add: s_def)
  have s1: "1 \<le> s" using fl64_ge_1 [OF assms(2,1)] by (simp add: s_def)
  define q where "q = fl64 (num r / s)"
  define k1 where "k1 = \<lfloor>q\<rfloor> + 1"
  have k: "\<lfloor>fair_packets (fair_share T R) r\<rfloor> + 1 = k1" by (simp add: k1_def share fair_packets_def q_def)
  have R: "0 < num R" using assms(1) by (simp add: num_def word_less_nat_alt del: of_nat_unat)
  have "s \<le> num T / num R * (1 + ?u)" unfolding s_def by (intro fl_bounds(2)) simp
  then have sR: "s * num R \<le> num T * (1 + ?u)" using R by (simp add: pos_le_divide_eq)
  have "num r / s * (1 - ?u) \<le> q" unfolding q_def using s1 by (intro fl_bounds(1)) simp
  then have qs: "num r * (1 - ?u) \<le> q * s" using s1 by (simp add: pos_divide_le_eq)
  have q0: "0 \<le> q" unfolding q_def using s1 by (intro fl_nonneg) simp
  have kq: "q \<le> of_int k1" unfolding k1_def by linarith
  show ?thesis unfolding k
  proof (rule ccontr)
    assume "\<not> int (unat r) * int (unat R) \<le> k1 * int (unat T)"
    then have "k1 * int (unat T) + 1 \<le> int (unat r) * int (unat R)" by linarith
    then have "rat_of_int (k1 * int (unat T) + 1) \<le> of_int (int (unat r) * int (unat R))"
      by (simp only: of_int_le_iff)
    then have kT: "of_int k1 * num T + 1 \<le> num r * num R" by (simp add: num_def del: of_nat_unat)
    have "num r * (1 - ?u) * num R \<le> q * s * num R" using qs R by (intro mult_right_mono) simp_all
    also have "\<dots> \<le> of_int k1 * (s * num R)"
      unfolding mult.assoc using kq s1 R by (intro mult_right_mono) simp_all
    also have "\<dots> \<le> of_int k1 * (num T * (1 + ?u))"
      using sR kq q0 by (intro mult_left_mono) simp_all
    finally have a: "num r * num R * (1 - ?u) \<le> of_int k1 * num T * (1 + ?u)" by (simp add: ac_simps)
    have "of_int k1 * num T * (1 + ?u) \<le> (num r * num R - 1) * (1 + ?u)"
      using kT by (intro mult_right_mono) simp_all
    with a have b: "num r * num R * (1 - ?u) \<le> (num r * num R - 1) * (1 + ?u)" by (rule order_trans)
    have "num r * num R \<le> 65535 * 65535" using num_less16 by (intro mult_mono) simp_all
    with b show False by (simp add: algebra_simps)
  qed
qed

lemma unat_fair_ceil:
  assumes "0 < R" "R \<le> T" "r \<le> T"
  shows "unat r * unat R \<le> (unat (cfloor (fair_packets (fair_share T R) r) :: u16) + 1) * unat T"
proof -
  let ?k = "\<lfloor>fair_packets (fair_share T R) r\<rfloor>"
  have "0 \<le> ?k" by (rule fair_floor(1) [OF assms(1,2)])
  then have "int (nat ?k) = ?k" by simp
  with fair_ceil [OF assms] have "int (unat r * unat R) \<le> int ((nat ?k + 1) * unat T)"
    by (simp add: distrib_right del: of_nat_unat int_nat_eq)
  then show ?thesis by (simp only: of_nat_le_iff unat_fair(2) [OF assms])
qed

end
