(* ===== verification/Dama_Registry.thy ===== *)
theory Dama_Registry
  imports Dama_Legacy
begin

text \<open>
  The controller as a state machine: the events of the control centre drive it, and whatever they
  are, the terminals listed in the categories are exactly the registered ones.
\<close>

section \<open>The events\<close>

datatype dama_event =
    Logon rate_kbps tal_id rate_kbps rate_kbps vol_kb
  | Logoff tal_id
  | Sac_message dvb_frame
  | Pep tal_id rate_kbps rate_kbps rate_kbps
  | Required_fmts
  | Super_frame time_sf

fun dama_step :: "(tal_id \<Rightarrow> bool) \<Rightarrow> dama_ctrl \<Rightarrow> dama_event \<Rightarrow> dama_ctrl option" where
  "dama_step is_gw d (Logon any tal cra max_rbdc max_vbdc) =
     Some (fst (here_is_logon d any tal cra max_rbdc max_vbdc))"
| "dama_step is_gw d (Logoff tal) = Some (fst (here_is_logoff d tal))"
| "dama_step is_gw d (Sac_message sac) = map_option fst (here_is_sac is_gw d sac)"
| "dama_step is_gw d (Pep tal cra max_rbdc rbdc) = Some (fst (apply_pep_command d tal cra max_rbdc rbdc))"
| "dama_step is_gw d Required_fmts = Some (update_required_fmts d)"
| "dama_step is_gw d (Super_frame sf) = map_option fst (run_on_super_frame_change d sf)"

fun dama_run :: "(tal_id \<Rightarrow> bool) \<Rightarrow> dama_ctrl \<Rightarrow> dama_event list \<Rightarrow> dama_ctrl option" where
  "dama_run is_gw d [] = Some d"
| "dama_run is_gw d (e # es) =
     (case dama_step is_gw d e of None \<Rightarrow> None | Some d' \<Rightarrow> dama_run is_gw d' es)"

section \<open>The registry\<close>

text \<open>What the controller records of who is logged on: the key, identifier and category of every
  context, and the list of terminals of every category.\<close>

type_synonym registry = "(tal_id, tal_id \<times> string) omap \<times> (string, tal_id list) omap"

definition entry_of :: "tal_id \<times> terminal \<Rightarrow> tal_id \<times> tal_id \<times> string" where
  "entry_of p = (fst p, term_tal_id (snd p), term_category (snd p))"

definition members_of :: "string \<times> dama_category \<Rightarrow> string \<times> tal_id list" where
  "members_of p = (fst p, cat_terminals (snd p))"

definition registry :: "dama_ctrl \<Rightarrow> registry" where
  "registry d = (map entry_of (dama_terminals d), map members_of (categories d))"

definition members :: "(tal_id, tal_id \<times> string) omap \<Rightarrow> string \<Rightarrow> tal_id set" where
  "members ts l = fst ` set (filter (\<lambda>(i, j, k). k = l) ts)"

definition registry_wf :: "registry \<Rightarrow> bool" where
  "registry_wf r \<longleftrightarrow>
     omap_wf (fst r) \<and> omap_wf (snd r) \<and>
     (\<forall>(i, j, l) \<in> set (fst r). j = i \<and> l \<in> set (map fst (snd r))) \<and>
     (\<forall>(l, tals) \<in> set (snd r). distinct tals \<and> set tals = members (fst r) l)"

lemmas registry_defs = registry_def entry_of_def members_of_def

subsection \<open>Operations that leave the registry alone\<close>

lemma registry_update:
  assumes "\<And>t. term_tal_id (f t) = term_tal_id t" "\<And>t. term_category (f t) = term_category t"
  shows "registry (update_terminal f tal d) = registry d"
  using assms
  by (auto simp: registry_defs update_terminal_def omap_update_def)

lemma registry_fields [simp]:
  "registry (d\<lparr>gw_rbdc_req_num := n\<rparr>) = registry d" "registry (d\<lparr>gw_vbdc_req_num := n\<rparr>) = registry d"
  "registry (d\<lparr>gw_cra_alloc := n\<rparr>) = registry d" "registry (d\<lparr>gw_rbdc_max := n\<rparr>) = registry d"
  "registry (d\<lparr>gw_st_num := n\<rparr>) = registry d"
  "registry (d\<lparr>enable_vbdc := b\<rparr>) = registry d" "registry (d\<lparr>enable_rbdc := b\<rparr>) = registry d"
  "registry (d\<lparr>current_superframe := sf\<rparr>) = registry d"
  "registry (d\<lparr>input_sts := stn\<rparr>) = registry d"
  "registry (use_scheme f d) = registry d"
  by (simp_all add: registry_def use_scheme_def)

lemma terminal_identity [simp]:
  "term_tal_id (set_cra_allocation v t) = term_tal_id t" "term_category (set_cra_allocation v t) = term_category t"
  "term_tal_id (set_rbdc_allocation v t) = term_tal_id t" "term_category (set_rbdc_allocation v t) = term_category t"
  "term_tal_id (set_vbdc_allocation w t) = term_tal_id t" "term_category (set_vbdc_allocation w t) = term_category t"
  "term_tal_id (set_fca_allocation v t) = term_tal_id t" "term_category (set_fca_allocation v t) = term_category t"
  "term_tal_id (add_rbdc_credit c t) = term_tal_id t" "term_category (add_rbdc_credit c t) = term_category t"
  "term_tal_id (set_rbdc_credit c t) = term_tal_id t" "term_category (set_rbdc_credit c t) = term_category t"
  "term_tal_id (set_required_rbdc v t) = term_tal_id t" "term_category (set_required_rbdc v t) = term_category t"
  "term_tal_id (set_required_vbdc w t) = term_tal_id t" "term_category (set_required_vbdc w t) = term_category t"
  "term_tal_id (set_required_cra v t) = term_tal_id t" "term_category (set_required_cra v t) = term_category t"
  "term_tal_id (set_max_rbdc v t) = term_tal_id t" "term_category (set_max_rbdc v t) = term_category t"
  "term_tal_id (update_rbdc_timeout n t) = term_tal_id t" "term_category (update_rbdc_timeout n t) = term_category t"
  "term_tal_id (set_required_fmt o1 t) = term_tal_id t" "term_category (set_required_fmt o1 t) = term_category t"
  "term_tal_id (set_fmt o1 t) = term_tal_id t" "term_category (set_fmt o1 t) = term_category t"
  "term_tal_id (set_carrier_id k t) = term_tal_id t" "term_category (set_carrier_id k t) = term_category t"
  "term_tal_id (decrement_timer t) = term_tal_id t" "term_category (decrement_timer t) = term_category t"
  by (simp_all add: terminal_updates)

lemma registry_set_remaining [simp]: "registry (set_remaining l i n d) = registry d"
  by (auto simp: registry_defs set_remaining_def omap_update_def)

lemma registry_cra_loop: "registry (fst (cra_loop tals d remaining request alloc)) = registry d"
  by (induction tals d remaining request alloc rule: cra_loop.induct)
    (auto simp: registry_update Let_def split: option.splits)

lemma registry_cra_carriers: "registry (fst (cra_carriers slots d stat)) = registry d"
proof (induction slots d stat rule: cra_carriers.induct)
  case (1 d stat)
  then show ?case by simp
next
  case (2 l i slots d stat)
  have "registry (fst (cra_per_carrier d l i)) = registry d"
    using registry_cra_loop [of "map term_tal_id (terminals_in_group d l i)" d "remaining_at d l i" 0 0]
    by (auto simp: cra_per_carrier_def split: prod.splits)
  with 2 show ?case by (auto simp: split: prod.splits)
qed

lemma registry_rbdc_requests: "registry (fst (rbdc_requests tals d m total_pkt request)) = registry d"
  by (induction tals d m total_pkt request rule: rbdc_requests.induct)
    (auto simp: Let_def split: option.splits)

lemma registry_rbdc_serve: "registry (fst (rbdc_serve tals d m share remaining alloc)) = registry d"
  by (induction tals d m share remaining alloc rule: rbdc_serve.induct)
    (auto simp: registry_update Let_def split: option.splits)

lemma registry_rbdc_extra: "registry (fst (rbdc_extra tals d remaining alloc)) = registry d"
  by (induction tals d remaining alloc rule: rbdc_extra.induct)
    (auto simp: registry_update Let_def split: option.splits)

lemma registry_vbdc_loop: "registry (fst (vbdc_loop tals d remaining request alloc)) = registry d"
  by (induction tals d remaining request alloc rule: vbdc_loop.induct)
    (auto simp: registry_update Let_def split: option.splits)

lemma registry_vbdc_rest: "registry (fst (vbdc_rest tals d request)) = registry d"
  by (induction tals d request rule: vbdc_rest.induct) (auto split: option.splits)

lemma registry_rbdc_per_carrier: "registry (fst (rbdc_per_carrier d l i)) = registry d"
  using registry_rbdc_requests [of "map term_tal_id (terminals_in_group d l i)" d "[]" 0 0]
  by (auto simp: rbdc_per_carrier_def Let_def split: prod.splits if_splits)
    (metis fst_conv registry_rbdc_serve registry_rbdc_extra)+

lemma registry_vbdc_per_carrier: "registry (fst (vbdc_per_carrier d l i)) = registry d"
  by (auto simp: vbdc_per_carrier_def Let_def split: prod.splits if_splits)
    (metis fst_conv registry_vbdc_loop registry_vbdc_rest)+

lemma registry_rbdc_carriers: "registry (rbdc_carriers slots d) = registry d"
  by (induction slots d rule: rbdc_carriers.induct) (auto simp: registry_rbdc_per_carrier)

lemma registry_vbdc_carriers: "registry (vbdc_carriers slots d) = registry d"
  by (induction slots d rule: vbdc_carriers.induct) (auto simp: registry_vbdc_per_carrier)

lemma registry_fca_loop:
  "fca_loop tals d remaining alloc = Some r \<Longrightarrow> registry (fst r) = registry d"
proof (induction rule: fca_loop.raw_induct [rotated 1, consumes 1, case_names step])
  case (step loop tals d remaining alloc r)
  from step(2) show ?case
    by (auto simp: registry_update Let_def dest!: step(1) split: list.splits option.splits if_splits)
qed

lemma registry_fca_carriers: "fca_carriers slots d = Some d' \<Longrightarrow> registry d' = registry d"
proof (induction slots d rule: fca_carriers.induct)
  case (1 d)
  then show ?case by simp
next
  case (2 l i slots d)
  have "registry d1 = registry d" if "fca_per_carrier d l i = Some (d1, a)" for d1 a
    using that
    by (auto simp: fca_per_carrier_def Let_def dest!: registry_fca_loop split: if_splits option.splits prod.splits)
  with 2 show ?case by (auto split: option.splits prod.splits)
qed

lemma identity_reset_loop:
  "map entry_of (fst (snd (reset_terminals_loop cv ts))) = map entry_of ts"
proof (induction cv ts rule: reset_terminals_loop.induct)
  case (1 cv)
  then show ?case by simp
next
  case (2 cv i t ts)
  have "entry_of (i, fst (snd (reset_terminal cv t))) = entry_of (i, t)"
    by (auto simp: reset_terminal_def Let_def entry_of_def split: option.splits)
  with 2 show ?case by (auto split: prod.splits)
qed

lemma registry_reset: "registry (fst (reset_terminals_allocations d)) = registry d"
  using identity_reset_loop [of "converter d" "dama_terminals d"]
  by (auto simp: reset_terminals_allocations_def registry_def split: prod.splits)

lemma registry_compute:
  assumes "compute_allocations d = Some (d', ok)"
  shows "registry d' = registry d"
proof -
  obtain d1 ok1 where r: "reset_terminals_allocations d = (d1, ok1)" by fastforce
  obtain d2 ok2 where c: "compute_cra d1 = (d2, ok2)" by fastforce
  have r1: "registry d1 = registry d" using registry_reset [of d] by (simp add: r)
  have "registry d2 = registry d1"
    using registry_cra_carriers [of "carrier_slots d1" "d1\<lparr>gw_cra_alloc := 0\<rparr>" True] c
    by (simp add: compute_cra_def)
  then have r2: "registry d2 = registry d" by (simp add: r1)
  define d3 where "d3 = (if enable_rbdc d2 then compute_rbdc d2 else d2)"
  define d4 where "d4 = (if enable_vbdc d3 then compute_vbdc d3 else d3)"
  have "registry d4 = registry d2"
    by (simp add: d4_def d3_def compute_vbdc_def compute_rbdc_def registry_vbdc_carriers
        registry_rbdc_carriers)
  moreover have "registry d5 = registry d4" if "compute_fca d4 = Some d5" for d5
    using that by (auto simp: compute_fca_def dest: registry_fca_carriers split: if_splits)
  ultimately show ?thesis using assms r1 r2
    by (auto simp: compute_allocations_def r c Let_def d3_def [symmetric] d4_def [symmetric]
        split: if_splits option.splits)
qed

lemma registry_super_frame:
  assumes "run_on_super_frame_change d sf = Some r"
  shows "registry (fst r) = registry d"
proof -
  let ?d = "update_wave_forms (reset_carriers_capacity (d\<lparr>current_superframe := sf\<rparr>))"
  have "registry ?d = registry d"
    by (auto simp: registry_defs update_wave_forms_def reset_carriers_capacity_def update_wave_form_def Let_def
        split: prod.splits option.splits)
  with assms show ?thesis
    by (auto simp: run_on_super_frame_change_def dest!: registry_compute split: option.splits)
qed

lemma registry_required_fmts: "registry (required_fmts_loop tals d) = registry d"
  by (induction tals d rule: required_fmts_loop.induct)
    (auto simp: registry_update Let_def split: prod.splits if_splits)

lemma registry_take_requests: "take_requests tal rs d = Some d' \<Longrightarrow> registry d' = registry d"
  by (induction tal rs d rule: take_requests.induct)
    (auto simp: request_vbdc_def request_rbdc_def registry_update Let_def split: if_splits)

lemma registry_pep: "registry (fst (apply_pep_command d tal cra max_rbdc rbdc)) = registry d"
  by (auto simp: apply_pep_command_def Let_def registry_update split: option.splits)

subsection \<open>Logon and logoff\<close>

lemma set_omap_put_new: "k \<notin> fst ` set m \<Longrightarrow> set (omap_put k v m) = insert (k, v) (set m)"
  by (induction k v m rule: omap_put.induct) auto

lemma entries_put: "map entry_of (omap_put k t m) = omap_put k (term_tal_id t, term_category t) (map entry_of m)"
  by (induction k t m rule: omap_put.induct) (auto simp: entry_of_def)

lemma entries_del: "map entry_of (omap_del k m) = omap_del k (map entry_of m)"
  by (induction m) (auto simp: entry_of_def omap_del_def)

lemma in_omap_update:
  "(k, v') \<in> set (omap_update f l m) \<longleftrightarrow> (\<exists>v. (k, v) \<in> set m \<and> v' = (if k = l then f v else v))"
  by (force simp: omap_update_def)

lemma registry_wfI:
  assumes "omap_wf ts" "omap_wf cs"
    "\<And>i j l. (i, j, l) \<in> set ts \<Longrightarrow> j = i \<and> l \<in> set (map fst cs)"
    "\<And>l tals. (l, tals) \<in> set cs \<Longrightarrow> distinct tals \<and> set tals = members ts l"
  shows "registry_wf (ts, cs)"
  using assms unfolding registry_wf_def by auto

lemma registry_wfD:
  assumes "registry_wf (ts, cs)"
  shows "omap_wf ts" "omap_wf cs"
    "(i, j, l) \<in> set ts \<Longrightarrow> j = i \<and> l \<in> set (map fst cs)"
    "(l, tals) \<in> set cs \<Longrightarrow> distinct tals \<and> set tals = members ts l"
  using assms unfolding registry_wf_def by auto

definition reg_add :: "tal_id \<Rightarrow> string \<Rightarrow> registry \<Rightarrow> registry" where
  "reg_add tal l r = (omap_put tal (tal, l) (fst r), omap_update (\<lambda>tals. tals @ [tal]) l (snd r))"

definition reg_del :: "tal_id \<Rightarrow> string \<Rightarrow> registry \<Rightarrow> registry" where
  "reg_del tal l r = (omap_del tal (fst r), omap_update (remove1 tal) l (snd r))"

lemma reg_add_wf:
  assumes "registry_wf r" "tal \<notin> fst ` set (fst r)" "l \<in> fst ` set (snd r)"
  shows "registry_wf (reg_add tal l r)"
proof -
  obtain ts cs where r: "r = (ts, cs)" by (cases r)
  note wf = registry_wfD [OF assms(1) [unfolded r]]
  have new: "tal \<notin> fst ` set ts" using assms(2) by (simp add: r)
  have m: "members (omap_put tal (tal, l) ts) k =
      (if k = l then insert tal (members ts k) else members ts k)" for k
    unfolding members_def set_filter set_omap_put_new [OF new] by force
  have n: "tal \<notin> members ts k" for k using new by (auto simp: members_def)
  show ?thesis
    unfolding r reg_add_def fst_conv snd_conv
  proof (rule registry_wfI)
    fix k tals
    assume "(k, tals) \<in> set (omap_update (\<lambda>tals. tals @ [tal]) l cs)"
    then obtain v where "(k, v) \<in> set cs" "tals = (if k = l then v @ [tal] else v)"
      by (auto simp: in_omap_update)
    with wf(4) [of k v] n show "distinct tals \<and> set tals = members (omap_put tal (tal, l) ts) k"
      by (auto simp: m)
  next
    fix i j k
    assume "(i, j, k) \<in> set (omap_put tal (tal, l) ts)"
    with wf(3) [of i j k] assms(3) show "j = i \<and> k \<in> set (map fst (omap_update (\<lambda>tals. tals @ [tal]) l cs))"
      by (auto simp: set_omap_put_new [OF new] r)
  qed (simp_all add: wf omap_put_wf)
qed

lemma members_del:
  assumes "omap_wf ts" "(tal, j, l) \<in> set ts"
  shows "members (omap_del tal ts) k = (if k = l then members ts k - {tal} else members ts k)"
proof -
  have "x = (j, l)" if "(tal, x) \<in> set ts" for x
    using omap_wf_distinct [OF assms(1)] that assms(2) by (metis eq_key_imp_eq_value)
  then show ?thesis by (auto simp: members_def omap_del_def)
qed

lemma reg_del_wf:
  assumes "registry_wf r" "(tal, tal, l) \<in> set (fst r)"
  shows "registry_wf (reg_del tal l r)"
proof -
  obtain ts cs where r: "r = (ts, cs)" by (cases r)
  note wf = registry_wfD [OF assms(1) [unfolded r]]
  have "(tal, tal, l) \<in> set ts" using assms(2) by (simp add: r)
  note m = members_del [OF wf(1) this]
  show ?thesis
    unfolding r reg_del_def fst_conv snd_conv
  proof (rule registry_wfI)
    fix k tals
    assume "(k, tals) \<in> set (omap_update (remove1 tal) l cs)"
    then obtain v where "(k, v) \<in> set cs" "tals = (if k = l then remove1 tal v else v)"
      by (auto simp: in_omap_update)
    with wf(4) [of k v] show "distinct tals \<and> set tals = members (omap_del tal ts) k"
      by (auto simp: m)
  next
    fix i j k
    assume "(i, j, k) \<in> set (omap_del tal ts)"
    then have "(i, j, k) \<in> set ts" by (simp add: omap_del_def)
    with wf(3) [of i j k] show "j = i \<and> k \<in> set (map fst (omap_update (remove1 tal) l cs))" by simp
  qed (simp_all add: wf omap_del_wf)
qed

lemma registry_keys: "get_terminal_context d tal = None \<Longrightarrow> tal \<notin> fst ` set (fst (registry d))"
  by (force simp: get_terminal_context_def registry_defs map_of_eq_None_iff)

lemma registry_entry:
  "get_terminal_context d tal = Some t \<Longrightarrow> (tal, term_tal_id t, term_category t) \<in> set (fst (registry d))"
  by (force simp: get_terminal_context_def registry_defs dest!: map_of_SomeD)

lemma registry_category:
  "l \<in> fst ` set (snd (registry d)) \<longleftrightarrow> map_of (categories d) l \<noteq> None"
  by (force simp: registry_defs map_of_eq_None_iff)

lemma log_in_registry:
  assumes "registry_wf (registry d)" "get_terminal_context d tal = None"
  shows "registry_wf (registry (fst (log_in_category d any tal cra max_rbdc max_vbdc l)))"
proof (cases "map_of (categories d) l")
  case None
  with assms show ?thesis by (simp add: log_in_category_def)
next
  case (Some c)
  have new: "term_tal_id (create_terminal d any tal cra max_rbdc max_vbdc) = tal"
    by (simp add: create_terminal_def Let_def new_terminal_def)
  have "registry (fst (log_in_category d any tal cra max_rbdc max_vbdc l)) = reg_add tal l (registry d)"
    by (auto simp: log_in_category_def Some registry_def entries_put reg_add_def set_current_category_def
        new members_of_def omap_update_def category_add_terminal_def)
  then show ?thesis
    using reg_add_wf [OF assms(1) registry_keys [OF assms(2)]] Some registry_category [of l d] by simp
qed

lemma logon_registry:
  "registry_wf (registry d) \<Longrightarrow> registry_wf (registry (fst (here_is_logon d any tal cra max_rbdc max_vbdc)))"
  using log_in_registry [of d tal]
  by (auto simp: here_is_logon_def split: option.splits)

lemma logoff_registry:
  assumes wf: "registry_wf (registry d)"
  shows "registry_wf (registry (fst (here_is_logoff d tal)))"
    "snd (here_is_logoff d tal) = (get_terminal_context d tal \<noteq> None)"
proof -
  have "registry_wf (registry (fst (here_is_logoff d tal))) \<and>
    snd (here_is_logoff d tal) = (get_terminal_context d tal \<noteq> None)"
  proof (cases "get_terminal_context d tal")
    case None
    with wf show ?thesis by (simp add: here_is_logoff_def)
  next
    case (Some t)
    define l where "l = term_category t"
    obtain ts cs where r: "registry d = (ts, cs)" by (cases "registry d")
    note rwf = registry_wfD [OF wf [unfolded r]]
    have e: "(tal, term_tal_id t, l) \<in> set ts" using registry_entry [OF Some] by (simp add: r l_def)
    from rwf(3) [OF this] have t: "term_tal_id t = tal" and "l \<in> set (map fst cs)" by auto
    then have "map_of (categories d) l \<noteq> None" using registry_category [of l d] by (simp add: r)
    then obtain c where c: "map_of (categories d) l = Some c" by blast
    then have "(l, cat_terminals c) \<in> set cs"
      using r by (force simp: registry_defs dest: map_of_SomeD)
    from rwf(4) [OF this] e t have in_c: "tal \<in> set (cat_terminals c)" by (force simp: members_def)
    have "map members_of (omap_update (\<lambda>_. c\<lparr>cat_terminals := remove1 tal (cat_terminals c)\<rparr>) l (categories d)) =
      omap_update (remove1 tal) l (map members_of (categories d))"
    proof -
      have "distinct (map fst (categories d))"
        using omap_wf_distinct [OF rwf(2)] r by (auto simp: registry_defs comp_def)
      then have "c' = c" if "(l, c') \<in> set (categories d)" for c'
        using that c by (metis map_of_is_SomeI option.inject)
      then show ?thesis by (auto simp: members_of_def omap_update_def)
    qed
    then have "registry (fst (here_is_logoff d tal)) = reg_del tal l (registry d)"
      using in_c by (simp add: here_is_logoff_def Some t l_def [symmetric] c Let_def
          category_remove_terminal_def registry_def entries_del reg_del_def)
    moreover have "snd (here_is_logoff d tal)"
      using in_c by (simp add: here_is_logoff_def Some t l_def [symmetric] c Let_def
          category_remove_terminal_def)
    ultimately show ?thesis using reg_del_wf [OF wf, of tal l] e t by (simp add: r Some)
  qed
  then show "registry_wf (registry (fst (here_is_logoff d tal)))"
    "snd (here_is_logoff d tal) = (get_terminal_context d tal \<noteq> None)" by blast+
qed

section \<open>Every reachable controller\<close>

lemma dama_step_registry:
  "registry_wf (registry d) \<Longrightarrow> dama_step is_gw d e = Some d' \<Longrightarrow> registry_wf (registry d')"
  by (cases e)
    (auto simp: logon_registry logoff_registry registry_pep update_required_fmts_def
      registry_required_fmts here_is_sac_def Let_def dest!: registry_super_frame
      dest: registry_take_requests split: option.splits if_splits)

lemma dama_run_registry:
  "registry_wf (registry d) \<Longrightarrow> dama_run is_gw d es = Some d' \<Longrightarrow> registry_wf (registry d')"
  by (induction is_gw d es rule: dama_run.induct) (auto split: option.splits dest: dama_step_registry)

lemma legacy_init_registry: "legacy_init burst d = Some (d', ok) \<Longrightarrow> registry d' = registry d"
  by (auto simp: legacy_init_def rcs2_init_def registry_def split: option.splits if_splits)

definition fresh_categories :: "(string, dama_category) omap \<Rightarrow> bool" where
  "fresh_categories cats \<longleftrightarrow> omap_wf cats \<and> list_all (\<lambda>(l, c). cat_terminals c = []) cats"

lemma init_registry:
  assumes "fresh_categories cats"
  shows "registry_wf (registry (init_parent dur timeout fca cats aff def_cat stations modcods simu))"
proof -
  have "map fst (map members_of cats) = map fst cats" by (simp add: members_of_def)
  then have "omap_wf (map members_of cats)"
    using assms by (simp only: fresh_categories_def omap_wf_def)
  with assms show ?thesis
    by (auto simp: init_parent_def registry_def fresh_categories_def list_all_def members_of_def
        intro!: registry_wfI) (auto simp: members_def)
qed

lemma registry_wf_listed:
  assumes wf: "registry_wf (registry d)"
  shows "get_terminal_context d tal = Some t \<Longrightarrow>
      term_tal_id t = tal \<and> map_of (categories d) (term_category t) \<noteq> None"
    "map_of (categories d) l = Some c \<Longrightarrow> distinct (cat_terminals c) \<and>
      (tal \<in> set (cat_terminals c) \<longleftrightarrow> map_option term_category (get_terminal_context d tal) = Some l)"
proof -
  obtain ts cs where r: "registry d = (ts, cs)" by (cases "registry d")
  note rwf = registry_wfD [OF wf [unfolded r]]
  {
    assume "get_terminal_context d tal = Some t"
    from registry_entry [OF this] have "(tal, term_tal_id t, term_category t) \<in> set ts" by (simp add: r)
    from rwf(3) [OF this] show "term_tal_id t = tal \<and> map_of (categories d) (term_category t) \<noteq> None"
      using registry_category [of "term_category t" d] by (simp add: r)
  }
  assume "map_of (categories d) l = Some c"
  then have "(l, cat_terminals c) \<in> set cs" using r by (force simp: registry_defs dest: map_of_SomeD)
  note c = rwf(4) [OF this]
  have "tal \<in> members ts l \<longleftrightarrow> (\<exists>j. (tal, j, l) \<in> set ts)" by (force simp: members_def)
  also have "\<dots> \<longleftrightarrow> (\<exists>t. (tal, t) \<in> set (dama_terminals d) \<and> term_category t = l)"
    using r by (force simp: registry_defs)
  also have "\<dots> \<longleftrightarrow> (\<exists>t. get_terminal_context d tal = Some t \<and> term_category t = l)"
  proof -
    have "distinct (map fst (dama_terminals d))"
      using omap_wf_distinct [OF rwf(1)] r by (auto simp: registry_defs comp_def)
    then show ?thesis by (simp add: get_terminal_context_def)
  qed
  finally show "distinct (cat_terminals c) \<and>
      (tal \<in> set (cat_terminals c) \<longleftrightarrow> map_option term_category (get_terminal_context d tal) = Some l)"
    using c by auto
qed

text \<open>C10: Whatever logons, logoffs, requests, commands and superframes the controller handles after
  its initialisation: a registered terminal is registered under its own identifier and in a DAMA
  category; the list of a category holds each terminal registered in it once, and no other; and a
  logoff succeeds exactly for a registered terminal.\<close>

theorem registered_terminals_listed:
  assumes "fresh_categories cats"
    "legacy_init burst (init_parent dur timeout fca cats aff def_cat stations modcods simu) = Some (d0, ok)"
    "dama_run is_gw d0 events = Some d"
  shows "(\<forall>tal t. get_terminal_context d tal = Some t \<longrightarrow>
        term_tal_id t = tal \<and> map_of (categories d) (term_category t) \<noteq> None) \<and>
    (\<forall>l c tal. map_of (categories d) l = Some c \<longrightarrow> distinct (cat_terminals c) \<and>
        (tal \<in> set (cat_terminals c) \<longleftrightarrow> map_option term_category (get_terminal_context d tal) = Some l)) \<and>
    (\<forall>tal. snd (here_is_logoff d tal) \<longleftrightarrow> get_terminal_context d tal \<noteq> None)"
proof -
  have "registry_wf (registry d)"
    using dama_run_registry [OF _ assms(3)] init_registry [OF assms(1)]
      legacy_init_registry [OF assms(2)] by simp
  then show ?thesis using registry_wf_listed [of d] logoff_registry(2) [of d] by blast
qed

definition example_categories :: "(string, dama_category) omap" where
  "example_categories = [(''gold'', (new_category ''gold'' DAMA)\<lparr>carriers_groups :=
     [new_carriers_dama 1 \<lparr>group_members = [(1, 0)], group_modcods = []\<rparr> 10 1000 DAMA]\<rparr>)]"

definition example_init :: dama_ctrl where
  "example_init = init_parent 53 3 0 example_categories [(5, Some ''gold''), (7, Some ''gold'')] None
     new_st_list [] True"

lemma example_legacy_init:
  "legacy_init (Some 1000) example_init = Some (example_init\<lparr>converter := new_converter 53 0 1000\<rparr>, True)"
  by (simp add: legacy_init_def rcs2_init_def example_init_def init_parent_def example_categories_def
      legacy_category_ok_def new_category_def new_carriers_dama_def new_dama_group_def
      new_carriers_group_def dama_group.defs carriers_group.defs)

lemma example_fresh: "fresh_categories example_categories"
  by (simp add: fresh_categories_def example_categories_def omap_wf_def new_category_def)

theorem registered_terminals_listed_witness:
  "\<exists>d0 d c. legacy_init (Some 1000) example_init = Some (d0, True) \<and>
    dama_run (\<lambda>_. False) d0
      [Logon 0 5 100 200 300, Logon 0 7 0 1000 2000, Logoff 5, Pep 7 0 64 32, Required_fmts] = Some d \<and>
    map_of (categories d) ''gold'' = Some c \<and> distinct (cat_terminals c) \<and>
    7 \<in> set (cat_terminals c) \<and> 5 \<notin> set (cat_terminals c) \<and> snd (here_is_logoff d 7)"
proof -
  define events where "events = [Logon 0 5 100 200 300, Logon 0 7 0 1000 2000, Logoff 5, Pep 7 0 64 32,
    Required_fmts]"
  define d0 where "d0 = example_init\<lparr>converter := new_converter 53 0 1000\<rparr>"
  have i: "legacy_init (Some 1000) example_init = Some (d0, True)"
    by (simp add: d0_def example_legacy_init)
  have r: "map_option (\<lambda>d. (map_option term_category (get_terminal_context d 7),
      get_terminal_context d 5 = None, map_of (categories d) ''gold'' = None))
      (dama_run (\<lambda>_. False) (example_init\<lparr>converter := cv\<rparr>) events) = Some (Some ''gold'', True, False)" for cv
    unfolding events_def by code_simp
  from r [of "new_converter 53 0 1000"] obtain d where d: "dama_run (\<lambda>_. False) d0 events = Some d"
    "map_option term_category (get_terminal_context d 7) = Some ''gold''"
    "get_terminal_context d 5 = None" "map_of (categories d) ''gold'' \<noteq> None"
    by (auto simp: d0_def)
  from d(4) obtain c where c: "map_of (categories d) ''gold'' = Some c" by blast
  show ?thesis
    using registered_terminals_listed [OF example_fresh i [unfolded example_init_def] d(1)] i d c
    unfolding events_def by auto
qed

end
