(* ===== verification/Dama_Constant.thy ===== *)
theory Dama_Constant
  imports Dama_Registry
begin

text \<open>
  What the constant rate and the volume allocation of a carrier grant: the code's loops over
  machine integers against two short specifications on natural numbers, \<open>greedy\<close> and \<open>fill\<close>.
\<close>

section \<open>What an allocation keeps\<close>

text \<open>A field \<open>g\<close> of every terminal, the schemes and the categories are as before.\<close>

definition keeps :: "(terminal \<Rightarrow> 'a) \<Rightarrow> dama_ctrl \<Rightarrow> dama_ctrl \<Rightarrow> bool" where
  "keeps g d d' \<longleftrightarrow> same_service d d' \<and>
     (\<forall>tal. map_option g (get_terminal_context d' tal) = map_option g (get_terminal_context d tal))"

lemma keeps_refl [simp]: "keeps g d d"
  by (simp add: keeps_def same_service_refl)

lemma keeps_trans: "keeps g d d' \<Longrightarrow> keeps g d' d'' \<Longrightarrow> keeps g d d''"
  by (auto simp: keeps_def intro: same_service_trans)

lemma keeps_use [simp]: "keeps g d (use_scheme f d)"
  by (simp add: keeps_def)

lemma keeps_update:
  assumes "\<And>t. term_fmt_def (f t) = term_fmt_def t" "\<And>t. g (f t) = g t"
  shows "keeps g d (update_terminal f tal d)"
  using same_service_update [OF assms(1) same_service_refl, of d tal] assms(2)
  by (auto simp: keeps_def option.map_comp comp_def)

lemma keeps_gw [simp]:
  "keeps g d (d'\<lparr>gw_rbdc_req_num := n\<rparr>) = keeps g d d'"
  "keeps g d (d'\<lparr>gw_vbdc_req_num := n\<rparr>) = keeps g d d'"
  "keeps g d (d'\<lparr>gw_cra_alloc := n\<rparr>) = keeps g d d'"
  by (simp_all add: keeps_def) (simp_all add: get_terminal_context_def)

lemma keeps_is_served: "keeps g d d' \<Longrightarrow> is_served d' = is_served d"
  by (auto simp: keeps_def same_is_served)

definition demand :: "(terminal \<Rightarrow> rate_kbps) \<Rightarrow> dama_ctrl \<Rightarrow> tal_id \<Rightarrow> rate_pktpf" where
  "demand g d tal =
     (case served d tal of
        None \<Rightarrow> 0
      | Some (t, f) \<Rightarrow> rate_to_packets (converter (use_scheme f d)) f (g t))"

definition granted_rate :: "dama_ctrl \<Rightarrow> tal_id \<Rightarrow> rate_pktpf \<Rightarrow> rate_kbps" where
  "granted_rate d tal pkt =
     (case served d tal of
        None \<Rightarrow> 0
      | Some (t, f) \<Rightarrow> packets_to_rate (converter (use_scheme f d)) f pkt)"

lemma served_keeps:
  assumes "keeps g d d'" "served d tal = Some (t, f)"
  obtains t' where "served d' tal = Some (t', f)" "g t' = g t"
    "converter (use_scheme f d') = converter (use_scheme f d)"
proof -
  from assms(2) have t: "get_terminal_context d tal = Some t"
    by (auto simp: served_def split: option.splits)
  from assms have "map_option snd (served d' tal) = Some f" by (simp add: keeps_def same_service_def)
  then obtain t' where s: "served d' tal = Some (t', f)" by auto
  then have "get_terminal_context d' tal = Some t'" by (auto simp: served_def split: option.splits)
  moreover from assms(1) have
    "map_option g (get_terminal_context d' tal) = map_option g (get_terminal_context d tal)"
    unfolding keeps_def by blast
  ultimately have "g t' = g t" using t by simp
  moreover have "converter (use_scheme f d') = converter (use_scheme f d)"
    using assms(1) by (simp add: keeps_def same_service_def)
  ultimately show ?thesis using s that by blast
qed

lemma served_keeps_None: "keeps g d d' \<Longrightarrow> served d tal = None \<Longrightarrow> served d' tal = None"
  using keeps_is_served [of g d d'] by (metis is_served_def)

lemma demand_keeps: "keeps g d d' \<Longrightarrow> demand g d' tal = demand g d tal"
  by (cases "served d tal")
    (auto simp: demand_def served_keeps_None elim: served_keeps split: option.splits
      dest: served_keeps_None)

lemma granted_keeps: "keeps g d d' \<Longrightarrow> granted_rate d' tal pkt = granted_rate d tal pkt"
  by (cases "served d tal") (auto simp: granted_rate_def served_keeps_None elim: served_keeps)

section \<open>Constant rates\<close>

text \<open>The specification: the wishes are granted in order, and one that is more than what is left is
  passed over.\<close>

fun greedy :: "nat \<Rightarrow> ('a \<times> nat) list \<Rightarrow> ('a \<times> nat) list" where
  "greedy room [] = []"
| "greedy room ((x, n) # wishes) =
     (if n \<le> room then (x, n) # greedy (room - n) wishes else greedy room wishes)"

lemma greedy_fst: "set (map fst (greedy room wishes)) \<subseteq> set (map fst wishes)"
  by (induction room wishes rule: greedy.induct) auto

lemma greedy_fits: "sum_list (map snd (greedy room wishes)) \<le> room"
  by (induction room wishes rule: greedy.induct) (auto)

definition wishes :: "(terminal \<Rightarrow> rate_kbps) \<Rightarrow> dama_ctrl \<Rightarrow> tal_id list \<Rightarrow> (tal_id \<times> nat) list" where
  "wishes g d tals = map (\<lambda>tal. (tal, unat (demand g d tal))) (filter (is_served d) tals)"

lemma wishes_keeps: "keeps g d d' \<Longrightarrow> wishes g d' tals = wishes g d tals"
  by (simp add: wishes_def demand_keeps keeps_is_served)

lemma wishes_simps [simp]:
  "wishes g d [] = []"
  "served d tal = None \<Longrightarrow> wishes g d (tal # tals) = wishes g d tals"
  "served d tal = Some (t, f) \<Longrightarrow> wishes g d (tal # tals) = (tal, unat (demand g d tal)) # wishes g d tals"
  by (simp_all add: wishes_def is_served_def)

lemma wishes_fst: "set (map fst (wishes g d tals)) \<subseteq> set tals"
  by (auto simp: wishes_def)

definition cra_of :: "dama_ctrl \<Rightarrow> tal_id \<Rightarrow> rate_kbps option" where
  "cra_of d tal = map_option cra_alloc_kbps (get_terminal_context d tal)"

text \<open>What one loop over the terminals of a carrier gives: \<open>grants\<close> are the packets it hands out.\<close>

lemma cra_step:
  assumes "served d tal = Some (t, f)"
  shows "cra_loop (tal # tals) d remaining request alloc =
     (let d1 = use_scheme f d; pkt = demand cra_request_kbps d tal; rate = granted_rate d tal pkt
      in if remaining < pkt then cra_loop tals d1 remaining (request + cra_request_kbps t) alloc
         else cra_loop tals (update_terminal (set_cra_allocation rate) tal d1) (remaining - pkt)
                (request + cra_request_kbps t) (alloc + rate))"
  by (simp add: assms demand_def granted_rate_def Let_def)

lemma keeps_cra: "keeps cra_request_kbps d (update_terminal (set_cra_allocation rate) tal (use_scheme f d))"
  by (rule keeps_trans [OF keeps_use keeps_update]) (simp_all add: set_cra_allocation_def)

lemma cra_of_update:
  "cra_of (update_terminal (set_cra_allocation rate) tal (use_scheme f d)) x =
     (if x = tal then map_option (\<lambda>_. rate) (get_terminal_context d x) else cra_of d x)"
  by (simp add: cra_of_def option.map_comp comp_def set_cra_allocation_def)

lemma cra_of_use [simp]: "cra_of (use_scheme f d) x = cra_of d x"
  by (simp add: cra_of_def)

lemma cra_loop_keeps: "keeps cra_request_kbps d (fst (cra_loop tals d remaining request alloc))"
proof (induction tals arbitrary: d remaining request alloc)
  case Nil
  then show ?case by simp
next
  case (Cons tal tals)
  show ?case
  proof (cases "served d tal")
    case None
    with Cons show ?thesis by simp
  next
    case (Some tf)
    then obtain t f where s: "served d tal = Some (t, f)" by (cases tf) auto
    show ?thesis
      unfolding cra_step [OF s] Let_def
      by (auto intro: keeps_trans [OF keeps_use Cons.IH] keeps_trans [OF keeps_cra Cons.IH])
  qed
qed

lemma cra_loop_spec:
  assumes "cra_loop tals d remaining request alloc = (d', remaining', request', alloc')"
    "distinct tals"
  shows "unat remaining' +
           sum_list (map snd (greedy (unat remaining) (wishes cra_request_kbps d tals))) =
         unat remaining \<and>
       (\<forall>x. cra_of d' x =
         (if x \<in> set (map fst (greedy (unat remaining) (wishes cra_request_kbps d tals)))
          then Some (granted_rate d x (demand cra_request_kbps d x)) else cra_of d x))"
  using assms
proof (induction tals arbitrary: d remaining request alloc)
  case Nil
  then show ?case by simp
next
  case (Cons tal tals)
  from Cons.prems(2) have d: "tal \<notin> set tals" "distinct tals" by simp_all
  show ?case
  proof (cases "served d tal")
    case None
    with Cons show ?thesis by simp
  next
    case (Some tf)
    then obtain t f where s: "served d tal = Some (t, f)" by (cases tf) auto
    then have t: "get_terminal_context d tal = Some t"
      by (auto simp: served_def split: option.splits)
    let ?p = "demand cra_request_kbps d tal" and ?g = "granted_rate d tal (demand cra_request_kbps d tal)"
    let ?d = "update_terminal (set_cra_allocation ?g) tal (use_scheme f d)"
    show ?thesis
    proof (cases "remaining < ?p")
      case True
      have k: "keeps cra_request_kbps d (use_scheme f d)" by simp
      from True s Cons.prems(1) have
        "cra_loop tals (use_scheme f d) remaining (request + cra_request_kbps t) alloc =
          (d', remaining', request', alloc')"
        by (simp only: cra_step [OF s] Let_def if_True)
      from Cons.IH [OF this d(2)] True s show ?thesis
        by (simp add: wishes_keeps [OF k] granted_keeps [OF k] demand_keeps [OF k] word_less_nat_alt)
    next
      case False
      note k = keeps_cra [of d ?g tal f]
      from False s Cons.prems(1) have
        "cra_loop tals ?d (remaining - ?p) (request + cra_request_kbps t) (alloc + ?g) =
          (d', remaining', request', alloc')"
        by (simp only: cra_step [OF s] Let_def if_False)
      from Cons.IH [OF this d(2)]
      have IH: "unat remaining' + sum_list (map snd (greedy (unat (remaining - ?p))
            (wishes cra_request_kbps d tals))) = unat (remaining - ?p)"
        "\<And>x. cra_of d' x = (if x \<in> set (map fst (greedy (unat (remaining - ?p))
            (wishes cra_request_kbps d tals))) then Some (granted_rate d x (demand cra_request_kbps d x))
            else cra_of ?d x)"
        by (simp_all only: wishes_keeps [OF k] granted_keeps [OF k] demand_keeps [OF k])
      from False have le: "unat ?p \<le> unat remaining" by (simp only: word_less_nat_alt not_less)
      then have r: "unat (remaining - ?p) = unat remaining - unat ?p"
        by (simp add: unat_sub word_le_nat_alt)
      have n: "tal \<notin> set (map fst (greedy room (wishes cra_request_kbps d tals)))" for room
        by (meson d(1) greedy_fst wishes_fst subsetD)
      have "greedy (unat remaining) (wishes cra_request_kbps d (tal # tals)) =
          (tal, unat ?p) # greedy (unat (remaining - ?p)) (wishes cra_request_kbps d tals)"
        using le r s by simp
      with IH le r n show ?thesis by (auto simp: cra_of_update t)
    qed
  qed
qed

section \<open>The terminals and the capacity of a carrier\<close>

lemma map_filter_eq: "List.map_filter f xs = map (\<lambda>x. the (f x)) (filter (\<lambda>x. f x \<noteq> None) xs)"
  by (induction xs) (auto simp: List.map_filter_def)

lemma group_terminals_distinct:
  assumes "registry_wf (registry d)" "map_of (categories d) l = Some c"
  shows "distinct (map term_tal_id (terminals_in_group d l i))"
    "\<forall>t \<in> set (terminals_in_group d l i). get_terminal_context d (term_tal_id t) = Some t"
proof -
  note wf = registry_wf_listed [OF assms(1)]
  have id: "term_tal_id (the (get_terminal_context d x)) = x" if "get_terminal_context d x \<noteq> None" for x
    using that wf(1) by auto
  have "distinct (cat_terminals c)" using wf(2) [OF assms(2)] by simp
  moreover have "map term_tal_id (List.map_filter (get_terminal_context d) (cat_terminals c)) =
      filter (\<lambda>x. get_terminal_context d x \<noteq> None) (cat_terminals c)"
    unfolding map_filter_eq map_map comp_def by (rule map_idI) (simp add: id)
  ultimately have "distinct (map term_tal_id (List.map_filter (get_terminal_context d) (cat_terminals c)))"
    by simp
  then show "distinct (map term_tal_id (terminals_in_group d l i))"
    by (simp add: terminals_in_group_def assms(2) distinct_map_filter)
  show "\<forall>t \<in> set (terminals_in_group d l i). get_terminal_context d (term_tal_id t) = Some t"
    using wf(1) by (fastforce simp: terminals_in_group_def map_filter_eq)
qed

definition carrier_exists :: "dama_ctrl \<Rightarrow> string \<Rightarrow> nat \<Rightarrow> bool" where
  "carrier_exists d l i =
     (case map_of (categories d) l of None \<Rightarrow> False | Some c \<Rightarrow> i < length (carriers_groups c))"

lemma ucast_u32_u16: "ucast (ucast (n :: u16) :: u32) = n"
  using unat_le_mask16 [of n] by (simp add: word_unat_eq_iff unat_ucast_down)

lemma remaining_at_set:
  "carrier_exists d l i \<Longrightarrow> remaining_at (set_remaining l i n d) l i = n"
  by (auto simp: carrier_exists_def remaining_at_def group_at_def set_remaining_def map_of_omap_update
      set_remaining_capacity_def ucast_u32_u16 split: option.splits)

lemma get_context_set_remaining [simp]:
  "get_terminal_context (set_remaining l i n d) x = get_terminal_context d x"
  by (simp add: get_terminal_context_def set_remaining_def)

lemma carrier_exists_keeps: "keeps g d d' \<Longrightarrow> carrier_exists d' l i = carrier_exists d l i"
  by (simp add: carrier_exists_def keeps_def same_service_def)

lemma remaining_at_keeps: "keeps g d d' \<Longrightarrow> remaining_at d' l i = remaining_at d l i"
  by (simp add: remaining_at_def group_at_def keeps_def same_service_def)

definition carrier_tals :: "dama_ctrl \<Rightarrow> string \<Rightarrow> nat \<Rightarrow> tal_id list" where
  "carrier_tals d l i = map term_tal_id (terminals_in_group d l i)"

text \<open>C27: The constant rates of a carrier.  The terminals of the carrier are served in the order of
  their list; a terminal whose packets still fit in the remaining capacity is allocated the rate of
  exactly these packets, any other keeps the allocation it had (0 after the reset), and the
  capacity that remains is the capacity there was less the packets granted: nothing is allocated
  that the carrier does not have.\<close>

theorem constant_rates_granted:
  assumes "registry_wf (registry d)" "carrier_exists d l i"
    and "cra_per_carrier d l i = (d', request, alloc)"
    and "grants = greedy (unat (remaining_at d l i)) (wishes cra_request_kbps d (carrier_tals d l i))"
  shows "unat (remaining_at d' l i) + sum_list (map snd grants) = unat (remaining_at d l i) \<and>
    (\<forall>x. cra_of d' x =
      (if x \<in> set (map fst grants) then Some (granted_rate d x (demand cra_request_kbps d x))
       else cra_of d x))"
proof -
  let ?tals = "carrier_tals d l i"
  from assms(2) obtain c where "map_of (categories d) l = Some c"
    by (auto simp: carrier_exists_def split: option.splits)
  note distinct = group_terminals_distinct(1) [OF assms(1) this, of i, folded carrier_tals_def]
  obtain d1 r q a where loop: "cra_loop ?tals d (remaining_at d l i) 0 0 = (d1, r, q, a)"
    using prod_cases4 by blast
  have d': "d' = set_remaining l i r d1"
    using assms(3) loop by (simp add: cra_per_carrier_def carrier_tals_def)
  have "keeps cra_request_kbps d d1"
    using cra_loop_keeps [of d ?tals "remaining_at d l i" 0 0] by (simp add: loop)
  then have "remaining_at d' l i = r"
    unfolding d' using assms(2) by (intro remaining_at_set) (simp add: carrier_exists_keeps)
  moreover have "cra_of d' x = cra_of d1 x" for x by (simp add: cra_of_def d')
  ultimately show ?thesis
    using cra_loop_spec [OF loop distinct] by (simp add: assms(4))
qed

section \<open>An example\<close>

text \<open>Two terminals on a carrier whose packets are one symbol and whose frames are 1 ms, so that a
  packet is a kbit/s and no rounding shows.\<close>

definition unit_fmt :: fmt_def where
  "unit_fmt = new_fmt_def 0 0 1 ''BPSK'' ''none'' 1 0 None"

definition example_terminal :: "tal_id \<Rightarrow> rate_kbps \<Rightarrow> rate_kbps \<Rightarrow> vol_kb \<Rightarrow> terminal" where
  "example_terminal tal cra rbdc vbdc = (new_terminal 0 tal cra 2000 3 1000)\<lparr>term_category := ''gold'',
     term_fmt_def := Some unit_fmt, term_carrier_id := 1, rbdc_request_kbps := rbdc,
     vbdc_request_kb := vbdc, timer_sf := 3\<rparr>"

definition example_category :: "tal_id list \<Rightarrow> u32 \<Rightarrow> dama_category" where
  "example_category tals room = (new_category ''gold'' DAMA)\<lparr>cat_terminals := tals,
     carriers_groups := [(new_carriers_dama 1 \<lparr>group_members = [(1, 0)], group_modcods = []\<rparr>
        10 1000 DAMA)\<lparr>remaining_capacity := room\<rparr>]\<rparr>"

definition example_ctrl :: "terminal list \<Rightarrow> u32 \<Rightarrow> dama_ctrl" where
  "example_ctrl ts room =
     (init_parent 1 3 0 [(''gold'', example_category (map term_tal_id ts) room)] [] None new_st_list
        [] True)
     \<lparr>converter := new_converter 1 1 1, dama_terminals := map (\<lambda>t. (term_tal_id t, t)) ts\<rparr>"

lemma fl_one: "1 \<le> p \<Longrightarrow> fl p 1 = 1"
  using fl_of_int [of 1 p] by simp

lemma unit_inverse: "float_inverse 1 = 1"
  by (simp add: float_inverse_def num_def fl_one)

lemma ceil_num: "cceil (num (w :: u32)) = w" "cceil (num (v :: u16)) = v" "cfloor (num w) = w"
  "cceil (num (v :: u16)) = (ucast v :: u32)" "cfloor (num (v :: u16)) = (ucast v :: u32)"
  by (simp_all add: cceil_def cfloor_def trunc_def num_def floor_of_nat ceiling_of_nat del: of_nat_unat) simp_all

lemma unit_fmt_simps [simp]: "fmt_efficiency unit_fmt = 1" "coding_rate unit_fmt = 1"
  by (simp_all add: unit_fmt_def new_fmt_def_def efficiency_of_def modulation_efficiencies_def rate_of_def
      coding_fractions_def)

lemma unit_converter_same [simp]:
  "set_modulation_efficiency 1 (new_converter 1 1 1) = new_converter 1 1 1"
  by (simp add: new_converter_def set_modulation_efficiency_def set_packet_symbol_length_def
      set_frame_duration_def)

lemma num_up: "num (ucast (v :: u16) :: u32) = num v" "num (1 :: u32) = 1"
  by (simp_all add: num_def del: of_nat_unat)

lemma unit_rates [simp]:
  "rate_to_packets (new_converter 1 1 1) unit_fmt r = r"
  "packets_to_rate (new_converter 1 1 1) unit_fmt r = r"
  by (simp_all add: rate_to_packets_def packets_to_rate_def add_fec_def remove_fec_def fl_num ceil_num
      num_up fl_one ucast_u32_u16 kbps_to_pktpf_def pktpf_to_kbps_def new_converter_def unit_inverse
      set_modulation_efficiency_def set_packet_symbol_length_def set_frame_duration_def pkt_to_bits_def)

lemma example_simps [simp]:
  "converter (example_ctrl ts room) = new_converter 1 1 1"
  "categories (example_ctrl ts room) = [(''gold'', example_category (map term_tal_id ts) room)]"
  "dama_terminals (example_ctrl ts room) = map (\<lambda>t. (term_tal_id t, t)) ts"
  "cat_terminals (example_category tals room) = tals"
  "length (carriers_groups (example_category tals room)) = 1"
  "carriers_id (carriers_groups (example_category tals room) ! 0) = 1"
  "remaining_capacity (carriers_groups (example_category tals room) ! 0) = room"
  "term_tal_id (example_terminal tal cra rbdc vbdc) = tal"
  "term_fmt_def (example_terminal tal cra rbdc vbdc) = Some unit_fmt"
  "term_carrier_id (example_terminal tal cra rbdc vbdc) = 1"
  "term_category (example_terminal tal cra rbdc vbdc) = ''gold''"
  "cra_request_kbps (example_terminal tal cra rbdc vbdc) = cra"
  "rbdc_request_kbps (example_terminal tal cra rbdc vbdc) = rbdc"
  "vbdc_request_kb (example_terminal tal cra rbdc vbdc) = vbdc"
  by (simp_all add: example_ctrl_def init_parent_def example_category_def example_terminal_def
      new_terminal_def new_carriers_dama_def new_dama_group_def new_carriers_group_def
      dama_group.defs carriers_group.defs)

definition two_terminals :: "u32 \<Rightarrow> dama_ctrl" where
  "two_terminals room = example_ctrl [example_terminal 1 100 300 20, example_terminal 2 200 700 50] room"

lemma two_terminals_wf:
  "registry_wf (registry (two_terminals room))" "carrier_exists (two_terminals room) ''gold'' 0"
  by (auto simp: registry_wf_def two_terminals_def registry_defs omap_wf_def members_def carrier_exists_def)

lemma two_terminals_facts:
  "carrier_tals (two_terminals room) ''gold'' 0 = [1, 2]"
  "remaining_at (two_terminals room) ''gold'' 0 = ucast room"
  "is_served (two_terminals room) 1" "is_served (two_terminals room) 2"
  "demand g (two_terminals room) 1 = g (example_terminal 1 100 300 20)"
  "demand g (two_terminals room) 2 = g (example_terminal 2 200 700 50)"
  "granted_rate (two_terminals room) 1 p = p" "granted_rate (two_terminals room) 2 p = p"
  by (simp_all add: two_terminals_def carrier_tals_def terminals_in_group_def is_served_def served_def
      demand_def remaining_at_def group_at_def get_terminal_context_def granted_rate_def List.map_filter_def)

theorem constant_rates_granted_witness:
  "\<exists>d'. d' = fst (cra_per_carrier (two_terminals 250) ''gold'' 0) \<and>
    remaining_at d' ''gold'' 0 = 150 \<and> cra_of d' 1 = Some 100 \<and> cra_of d' 2 = Some 0"
proof -
  let ?d = "two_terminals 250"
  obtain d' q a where run: "cra_per_carrier ?d ''gold'' 0 = (d', q, a)" using prod_cases3 by blast
  have w: "wishes cra_request_kbps ?d [1, 2] = [(1, 100), (2, 200)]"
    by (simp add: wishes_def two_terminals_facts)
  have old: "cra_of ?d 2 = Some 0"
    by (simp add: cra_of_def two_terminals_def get_terminal_context_def example_terminal_def new_terminal_def)
  have "unat (remaining_at d' ''gold'' 0) + 100 = 250" "cra_of d' 1 = Some 100" "cra_of d' 2 = Some 0"
    using constant_rates_granted [OF two_terminals_wf run refl] old
    by (simp_all add: two_terminals_facts w)
  then show ?thesis by (simp add: run word_unat_eq_iff)
qed

end
