(* ===== verification/Dama_Rate.thy ===== *)
theory Dama_Rate
  imports Dama_Constant
begin

text \<open>
  How the rate requests of a carrier are shared: nobody is given more than the fair share of what
  was asked, computed with double precision numbers, and the carrier is never overcommitted.
\<close>

section \<open>The requests\<close>

lemma request_step:
  assumes "served d tal = Some (t, f)"
  obtains d2 q where
    "rbdc_requests (tal # tals) d m T q0 =
       rbdc_requests tals d2 (omap_put tal (demand rbdc_request_kbps d tal) m)
         (T + demand rbdc_request_kbps d tal) q"
    "keeps g d d2"
proof -
  let ?d1 = "use_scheme f d" and ?p = "demand rbdc_request_kbps d tal"
  let ?d2 = "if 0 < ?p then ?d1\<lparr>gw_rbdc_req_num := gw_rbdc_req_num ?d1 + 1\<rparr> else ?d1"
  have "rbdc_requests (tal # tals) d m T q0 =
      rbdc_requests tals ?d2 (omap_put tal ?p m) (T + ?p) (q0 + packets_to_rate (converter ?d1) f ?p)"
    by (simp only: rbdc_requests.simps assms option.case prod.case Let_def demand_def)
  moreover have "keeps g d ?d2" by simp
  ultimately show ?thesis by (rule that)
qed

lemma packet_request_put: "packet_request (omap_put tal p m) x = (if x = tal then p else packet_request m x)"
  by (simp add: packet_request_def map_of_omap_put)

lemma rbdc_requests_spec:
  assumes "rbdc_requests tals d m T q = (d', m', T', q')"
  shows "keeps g d d' \<and>
    T' = T + sum_list (map (demand rbdc_request_kbps d) (filter (is_served d) tals)) \<and>
    (\<forall>x. packet_request m' x =
      (if x \<in> set tals \<and> is_served d x then demand rbdc_request_kbps d x else packet_request m x))"
  using assms
proof (induction tals arbitrary: d m T q)
  case Nil
  then show ?case by simp
next
  case (Cons tal tals)
  show ?case
  proof (cases "served d tal")
    case None
    with Cons show ?thesis by (auto simp: is_served_def)
  next
    case (Some tf)
    then obtain t f where s: "served d tal = Some (t, f)" by (cases tf) auto
    then have i: "is_served d tal" by (simp add: is_served_def)
    from request_step [OF s] obtain d2 q2 where step:
      "rbdc_requests (tal # tals) d m T q =
         rbdc_requests tals d2 (omap_put tal (demand rbdc_request_kbps d tal) m)
           (T + demand rbdc_request_kbps d tal) q2"
      and k: "keeps (\<lambda>t. t) d d2" .
    have kg: "keeps h d d2" for h using k by (auto simp: keeps_def option.map_ident)
    from Cons.IH [OF Cons.prems [unfolded step]] i show ?thesis
      by (auto simp: demand_keeps [OF kg] keeps_is_served [OF kg] packet_request_put add.assoc
          intro: keeps_trans [OF kg])
  qed
qed

section \<open>The fair shares\<close>

definition rbdc_of :: "dama_ctrl \<Rightarrow> tal_id \<Rightarrow> rate_kbps option" where
  "rbdc_of d tal = map_option rbdc_alloc_kbps (get_terminal_context d tal)"

lemma rbdc_of_use [simp]: "rbdc_of (use_scheme f d) x = rbdc_of d x"
  by (simp add: rbdc_of_def)

lemma rbdc_of_update:
  assumes "\<And>t. rbdc_alloc_kbps (f t) = g (rbdc_alloc_kbps t)"
  shows "rbdc_of (update_terminal f tal d) x = (if x = tal then map_option g (rbdc_of d x) else rbdc_of d x)"
  using assms by (simp add: rbdc_of_def option.map_comp comp_def)

lemma serve_step:
  assumes s: "served d tal = Some (t, f)"
    and p: "p = cfloor (fair_packets share (packet_request m tal))"
  obtains d3 where
    "rbdc_serve (tal # tals) d m share R a = rbdc_serve tals d3 m share (R - p) (a + granted_rate d tal p)"
    "keeps rbdc_request_kbps d d3"
    "\<And>x. rbdc_of d3 x = (if x = tal then Some (granted_rate d tal p) else rbdc_of d x)"
proof -
  let ?d1 = "use_scheme f d" and ?g = "granted_rate d tal p"
  let ?fair = "fair_packets share (packet_request m tal)"
  let ?credit = "fl64 (fl64 (fl64 (fl64 (?fair - num p) * num (packet_bit_length (converter ?d1))) /
    num (frame_duration_ms (converter ?d1))) / coding_rate f)"
  let ?d2 = "update_terminal (set_rbdc_allocation ?g) tal ?d1"
  let ?d3 = "if share > 1 then update_terminal (add_rbdc_credit ?credit) tal ?d2 else ?d2"
  have g: "?g = packets_to_rate (converter ?d1) f p" by (simp add: granted_rate_def s)
  have t: "get_terminal_context d tal = Some t" using s by (auto simp: served_def split: option.splits)
  have "rbdc_serve (tal # tals) d m share R a = rbdc_serve tals ?d3 m share (R - p) (a + ?g)"
    unfolding g by (simp only: rbdc_serve.simps s option.case prod.case Let_def p)
  moreover have k2: "keeps rbdc_request_kbps d ?d2"
    by (rule keeps_trans [OF keeps_use keeps_update]) (simp_all add: set_rbdc_allocation_def)
  moreover have "keeps rbdc_request_kbps d ?d3"
    using keeps_trans [OF k2 keeps_update, of "add_rbdc_credit ?credit" tal] k2
    by (simp add: add_rbdc_credit_def)
  moreover have "rbdc_of ?d3 x = (if x = tal then Some ?g else rbdc_of d x)" for x
    using t by (auto simp: rbdc_of_def set_rbdc_allocation_def add_rbdc_credit_def)
  ultimately show ?thesis using that by blast
qed

lemma rbdc_serve_spec:
  assumes "rbdc_serve tals d m share R a = (d', R', a')"
    and "P = (\<lambda>x. cfloor (fair_packets share (packet_request m x)))"
  shows "keeps rbdc_request_kbps d d' \<and>
    R' = R - sum_list (map P (filter (is_served d) tals)) \<and>
    (\<forall>x. rbdc_of d' x = (if x \<in> set tals \<and> is_served d x then Some (granted_rate d x (P x)) else rbdc_of d x))"
  using assms(1)
proof (induction tals arbitrary: d R a)
  case Nil
  then show ?case by simp
next
  case (Cons tal tals)
  show ?case
  proof (cases "served d tal")
    case None
    with Cons show ?thesis by (auto simp: is_served_def)
  next
    case (Some tf)
    then obtain t f where s: "served d tal = Some (t, f)" by (cases tf) auto
    then have i: "is_served d tal" by (simp add: is_served_def)
    have p: "P tal = cfloor (fair_packets share (packet_request m tal))" by (simp add: assms(2))
    from serve_step [OF s p] obtain d3 where step:
      "rbdc_serve (tal # tals) d m share R a =
         rbdc_serve tals d3 m share (R - P tal) (a + granted_rate d tal (P tal))"
      and k: "keeps rbdc_request_kbps d d3"
      and r: "\<And>x. rbdc_of d3 x = (if x = tal then Some (granted_rate d tal (P tal)) else rbdc_of d x)"
      by blast
    from Cons.IH [OF Cons.prems [unfolded step]] i show ?thesis
      by (auto simp: granted_keeps [OF k] keeps_is_served [OF k] r diff_diff_eq intro: keeps_trans [OF k])
  qed
qed

section \<open>The packets that are left\<close>

text \<open>The condition for one more packet, whose rate is \<open>slot\<close>, and the terminal that got it.\<close>

definition takes_extra :: "rate_kbps \<Rightarrow> terminal \<Rightarrow> bool" where
  "takes_extra slot t \<longleftrightarrow> rbdc_credit t > num slot \<and>
     int (unat (max_rbdc_kbps t)) - int (unat (rbdc_alloc_kbps t)) - int (unat (cra_alloc_kbps t)) >
       int (unat slot)"

definition one_more :: "rate_kbps \<Rightarrow> terminal \<Rightarrow> terminal" where
  "one_more slot t = add_rbdc_credit (- num slot) (set_rbdc_allocation (rbdc_alloc_kbps t + slot) t)"

lemma one_more_rate:
  assumes "takes_extra slot t"
  shows "rbdc_alloc_kbps (one_more slot t) = rbdc_alloc_kbps t + slot"
    "unat (rbdc_alloc_kbps (one_more slot t)) + unat (cra_alloc_kbps (one_more slot t)) <
      unat (max_rbdc_kbps (one_more slot t))"
proof -
  show eq: "rbdc_alloc_kbps (one_more slot t) = rbdc_alloc_kbps t + slot"
    by (simp add: one_more_def add_rbdc_credit_def set_rbdc_allocation_def)
  have room: "unat (rbdc_alloc_kbps t) + unat slot + unat (cra_alloc_kbps t) < unat (max_rbdc_kbps t)"
    using assms unfolding takes_extra_def by linarith
  moreover have "unat (max_rbdc_kbps t) \<le> 65535" by (rule unat_le_mask16)
  ultimately have "unat (rbdc_alloc_kbps t + slot) = unat (rbdc_alloc_kbps t) + unat slot"
    by (intro unat_add_small) simp
  with room show "unat (rbdc_alloc_kbps (one_more slot t)) + unat (cra_alloc_kbps (one_more slot t)) <
      unat (max_rbdc_kbps (one_more slot t))"
    unfolding eq by (simp add: one_more_def add_rbdc_credit_def set_rbdc_allocation_def)
qed

lemma extra_unfold:
  assumes s: "served d tal = Some (t, f)" and R: "0 < R"
    and slot: "slot = granted_rate d tal 1"
  shows "rbdc_extra (tal # tals) d R a =
      (if takes_extra slot t
       then rbdc_extra tals
         (update_terminal (\<lambda>u. add_rbdc_credit (- num slot)
            (set_rbdc_allocation (rbdc_alloc_kbps t + slot) u)) tal (use_scheme f d)) (R - 1) (a + slot)
       else rbdc_extra tals (use_scheme f d) R a)"
proof -
  have "packets_to_rate (converter (use_scheme f d)) f 1 = slot" by (simp add: granted_rate_def s slot)
  with R show ?thesis
    by (simp only: rbdc_extra.simps s option.case prod.case Let_def takes_extra_def not_True_eq_False
        not_not if_False if_True simp_thms)
qed

lemma extra_taken:
  assumes s: "served d tal = Some (t, f)" and R: "0 < R"
    and slot: "slot = granted_rate d tal 1" and takes: "takes_extra slot t"
  obtains d2 where
    "rbdc_extra (tal # tals) d R a = rbdc_extra tals d2 (R - 1) (a + slot)"
    "keeps rbdc_request_kbps d d2" "get_terminal_context d tal = Some t"
    "\<And>x. get_terminal_context d2 x =
      (if x = tal then Some (one_more slot t) else get_terminal_context d x)"
proof
  let ?u = "\<lambda>u. add_rbdc_credit (- num slot) (set_rbdc_allocation (rbdc_alloc_kbps t + slot) u)"
  let ?d2 = "update_terminal ?u tal (use_scheme f d)"
  show t: "get_terminal_context d tal = Some t"
    using s by (auto simp: served_def split: option.splits)
  show "rbdc_extra (tal # tals) d R a = rbdc_extra tals ?d2 (R - 1) (a + slot)"
    by (simp only: extra_unfold [OF s R slot] takes if_True)
  show "keeps rbdc_request_kbps d ?d2"
    by (rule keeps_trans [OF keeps_use keeps_update])
      (simp_all add: add_rbdc_credit_def set_rbdc_allocation_def)
  show "get_terminal_context ?d2 x = (if x = tal then Some (one_more slot t) else get_terminal_context d x)"
    for x using t by (simp add: one_more_def)
qed

text \<open>The terminals that get one more packet: each once, while packets are left, and every other one
  is as it was because no packet was left or it did not meet the condition.\<close>

lemma rbdc_extra_spec:
  assumes "rbdc_extra tals d R a = (d', R', a')" "distinct tals"
  shows "\<exists>E \<subseteq> set tals. keeps rbdc_request_kbps d d' \<and> unat R' + card E = unat R \<and>
    (\<forall>x \<in> E. is_served d x \<and> (\<exists>t. get_terminal_context d x = Some t \<and>
      takes_extra (granted_rate d x 1) t \<and>
      get_terminal_context d' x = Some (one_more (granted_rate d x 1) t))) \<and>
    (\<forall>x. x \<notin> E \<longrightarrow> get_terminal_context d' x = get_terminal_context d x) \<and>
    (\<forall>x \<in> set tals - E. is_served d x \<longrightarrow> R' = 0 \<or>
      (\<exists>t. get_terminal_context d x = Some t \<and> \<not> takes_extra (granted_rate d x 1) t))"
    (is "\<exists>E \<subseteq> set tals. ?spec tals d R E")
  using assms
proof (induction tals arbitrary: d R a)
  case Nil
  then show ?case by simp
next
  case (Cons tal tals)
  from Cons.prems have n: "tal \<notin> set tals" and dist: "distinct tals" by simp_all
  consider "\<not> 0 < R" | "0 < R" "served d tal = None" | t f where "0 < R" "served d tal = Some (t, f)"
    by (cases "served d tal") auto
  then show ?case
  proof cases
    case 1
    then have "R = 0" using word_neq_0_conv by blast
    moreover from 1 Cons.prems(1) have "d' = d" "R' = R" by simp_all
    ultimately show ?thesis by (intro exI [of _ "{}"]) simp
  next
    case 2
    then have "rbdc_extra (tal # tals) d R a = rbdc_extra tals d R a" by simp
    with Cons.IH [of d R a] Cons.prems obtain E where "E \<subseteq> set tals" "?spec tals d R E" by auto
    moreover have "\<not> is_served d tal" using 2 by (simp add: is_served_def)
    ultimately show ?thesis by (intro exI [of _ E]) auto
  next
    case 3
    define slot where "slot = granted_rate d tal 1"
    have t: "get_terminal_context d tal = Some t"
      using 3(2) by (auto simp: served_def split: option.splits)
    show ?thesis
    proof (cases "takes_extra slot t")
      case True
      from extra_taken [OF 3(2,1) slot_def True] obtain d2 where
        step: "rbdc_extra (tal # tals) d R a = rbdc_extra tals d2 (R - 1) (a + slot)"
        and k: "keeps rbdc_request_kbps d d2"
        and c: "\<And>x. get_terminal_context d2 x =
          (if x = tal then Some (one_more slot t) else get_terminal_context d x)"
        by blast
      from Cons.IH [OF Cons.prems(1) [unfolded step] dist] obtain E
        where E: "E \<subseteq> set tals" and sp: "?spec tals d2 (R - 1) E" by blast
      have "tal \<notin> E" "finite E" using E n by (auto intro: finite_subset)
      moreover have "unat (R - 1) + 1 = unat R"
        using 3(1) by (simp add: unat_sub word_le_nat_alt word_less_nat_alt)
      ultimately have "unat R' + card (insert tal E) = unat R" using sp by simp
      moreover have "keeps rbdc_request_kbps d d'" using sp by (blast intro: keeps_trans [OF k])
      moreover have "is_served d tal" using 3 by (simp add: is_served_def)
      ultimately have "?spec (tal # tals) d R (insert tal E)"
        using sp t True n \<open>tal \<notin> E\<close>
        unfolding granted_keeps [OF k] keeps_is_served [OF k] c slot_def
        by (intro conjI ballI allI impI) (auto split: if_splits)
      moreover have "insert tal E \<subseteq> set (tal # tals)" using E by auto
      ultimately show ?thesis by blast
    next
      case False
      have k: "keeps rbdc_request_kbps d (use_scheme f d)" by simp
      from Cons.IH [OF Cons.prems(1) [unfolded extra_unfold [OF 3(2,1) slot_def] if_not_P [OF False]] dist]
      obtain E where E: "E \<subseteq> set tals" and sp: "?spec tals (use_scheme f d) R E" by blast
      have "?spec (tal # tals) d R E"
        using sp t False n
        unfolding granted_keeps [OF k] keeps_is_served [OF k] slot_def
        by (auto intro: keeps_trans [OF k])
      with E show ?thesis by (intro exI [of _ E]) auto
    qed
  qed
qed

section \<open>Sums\<close>

lemma unat_sum_list:
  "sum_list (map unat ws) < 2 ^ LENGTH('a) \<Longrightarrow> unat (sum_list ws) = sum_list (map unat (ws :: 'a::len word list))"
  by (induction ws) (simp_all add: unat_add_small)

lemma sum_list_scaled: "(\<And>x. x \<in> set xs \<Longrightarrow> f x * T \<le> g x * R) \<Longrightarrow>
   sum_list (map f xs) * T \<le> sum_list (map g xs) * (R :: nat)"
  by (induction xs) (simp_all add: distrib_right add_mono)

lemma fair_uncongested:
  assumes "0 < R" "T \<le> R"
  shows "fair_share T R = 1" "cfloor (fair_packets (fair_share T R) r) = r"
proof -
  show "fair_share T R = 1"
  proof (cases "T = R")
    case True
    have "0 < num R" using assms(1) by (simp add: num_def word_less_nat_alt del: of_nat_unat)
    with True fl_of_int [of 1 53] show ?thesis by (simp add: fair_share_def Let_def)
  next
    case False
    with assms fair_share_cases(1) [of R T] show ?thesis by simp
  qed
  then have "fair_packets (fair_share T R) r = num r" by (simp add: fair_packets_def fl_num)
  then show "cfloor (fair_packets (fair_share T R) r) = r"
    by (simp add: cfloor_def trunc_def num_def floor_of_nat del: of_nat_unat) simp
qed

lemma fair_share_congested:
  assumes "0 < R" "R < T"
  shows "fair_share T R > 1"
proof -
  from assms have "R \<le> T" by simp
  with assms fl64_gt_1 [of R T] fair_share_cases(2) [of R T] show ?thesis by simp
qed

section \<open>A carrier's rate requests\<close>

lemma contexts_ids:
  assumes "registry_wf (registry d)"
  shows "map term_tal_id (contexts d tals) = filter (\<lambda>x. get_terminal_context d x \<noteq> None) tals"
proof -
  have "term_tal_id (the (get_terminal_context d x)) = x" if "get_terminal_context d x \<noteq> None" for x
    using that registry_wf_listed(1) [OF assms] by auto
  then show ?thesis
    unfolding contexts_def map_filter_eq map_map comp_def by (intro map_idI) simp
qed

lemma extra_order_distinct:
  assumes "registry_wf (registry d)" "distinct tals"
  shows "distinct (map term_tal_id (sort_by_credit (contexts d tals)))"
proof -
  have "mset (map term_tal_id (sort_by_credit (contexts d tals))) = mset (map term_tal_id (contexts d tals))"
    by (simp add: sort_by_credit_def)
  moreover have "distinct (map term_tal_id (contexts d tals))"
    using assms by (simp add: contexts_ids)
  ultimately show ?thesis by (metis distinct_count_atmost_1 set_mset_mset)
qed

text \<open>The serving stage, on the demands of the carrier's terminals.\<close>

definition fair_pkt :: "dama_ctrl \<Rightarrow> rate_pktpf \<Rightarrow> rate_pktpf \<Rightarrow> tal_id \<Rightarrow> rate_pktpf" where
  "fair_pkt d T R x = cfloor (fair_packets (fair_share T R) (demand rbdc_request_kbps d x))"

definition served_tals :: "dama_ctrl \<Rightarrow> string \<Rightarrow> nat \<Rightarrow> tal_id list" where
  "served_tals d l i = filter (is_served d) (carrier_tals d l i)"

definition total_demand :: "dama_ctrl \<Rightarrow> string \<Rightarrow> nat \<Rightarrow> rate_pktpf" where
  "total_demand d l i = sum_list (map (demand rbdc_request_kbps d) (served_tals d l i))"

lemma serving_spec:
  assumes rq: "rbdc_requests (carrier_tals d l i) d [] 0 0 = (d1, m, T, q)"
    and sv: "rbdc_serve (carrier_tals d l i) d1 m (fair_share T R) R 0 = (d2, R2, a2)"
  shows "T = total_demand d l i" "keeps rbdc_request_kbps d d2" "registry d2 = registry d"
    "R2 = R - sum_list (map (fair_pkt d T R) (served_tals d l i))"
    "x \<in> set (served_tals d l i) \<Longrightarrow> rbdc_of d2 x = Some (granted_rate d x (fair_pkt d T R x))"
proof -
  let ?tals = "carrier_tals d l i" and ?s = "served_tals d l i"
  note rs = rbdc_requests_spec [OF rq, of rbdc_request_kbps]
  show T: "T = total_demand d l i" using rs by (simp add: total_demand_def served_tals_def)
  from rs have k1: "keeps rbdc_request_kbps d d1" by simp
  define Q where "Q x = (cfloor (fair_packets (fair_share T R) (packet_request m x)) :: rate_pktpf)" for x
  have Q: "Q x = fair_pkt d T R x" if "x \<in> set ?s" for x
    using rs that by (simp add: Q_def fair_pkt_def served_tals_def)
  have tals1: "filter (is_served d1) ?tals = ?s"
    by (simp add: keeps_is_served [OF k1] served_tals_def)
  from rbdc_serve_spec [OF sv, of Q] have k2: "keeps rbdc_request_kbps d1 d2"
    and R2: "R2 = R - sum_list (map Q ?s)"
    and r2: "\<And>x. rbdc_of d2 x =
      (if x \<in> set ?tals \<and> is_served d1 x then Some (granted_rate d1 x (Q x)) else rbdc_of d1 x)"
    unfolding tals1 by (simp_all add: fun_eq_iff Q_def)
  show "keeps rbdc_request_kbps d d2" by (rule keeps_trans [OF k1 k2])
  have "map Q ?s = map (fair_pkt d T R) ?s" using Q by simp
  with R2 show "R2 = R - sum_list (map (fair_pkt d T R) ?s)" by simp
  show "registry d2 = registry d"
    using registry_rbdc_requests [of ?tals d "[]" 0 0] registry_rbdc_serve [of ?tals d1 m "fair_share T R" R 0]
    by (simp add: rq sv)
  assume x: "x \<in> set ?s"
  then have "x \<in> set ?tals" "is_served d1 x" by (simp_all add: served_tals_def keeps_is_served [OF k1])
  then have "rbdc_of d2 x = Some (granted_rate d1 x (Q x))" using r2 [of x] by simp
  then show "rbdc_of d2 x = Some (granted_rate d x (fair_pkt d T R x))"
    by (simp only: Q [OF x] granted_keeps [OF k1])
qed

lemma extra_order_set:
  assumes "registry_wf (registry d)"
  shows "set (map term_tal_id (sort_by_credit (contexts d tals))) =
    {x \<in> set tals. get_terminal_context d x \<noteq> None}"
proof -
  have "set (map term_tal_id (sort_by_credit (contexts d tals))) = set (map term_tal_id (contexts d tals))"
    by (simp add: sort_by_credit_def)
  then show ?thesis by (simp only: contexts_ids [OF assms] set_filter)
qed

text \<open>A terminal after the allocation that gave it the rate of \<open>p\<close> packets, and of one more when
  it is in \<open>E\<close>; one that is not in \<open>E\<close> was refused because no packet was left, or by the
  condition.\<close>

definition shared_rate :: "rate_kbps \<Rightarrow> rate_kbps \<Rightarrow> bool \<Rightarrow> bool \<Rightarrow> terminal \<Rightarrow> bool" where
  "shared_rate rate slot extra none_left t \<longleftrightarrow>
     (if extra
      then rbdc_alloc_kbps t = rate + slot \<and>
        unat (rbdc_alloc_kbps t) + unat (cra_alloc_kbps t) < unat (max_rbdc_kbps t)
      else rbdc_alloc_kbps t = rate \<and> (none_left \<or> \<not> takes_extra slot t))"

lemma one_more_shared:
  "takes_extra slot t \<Longrightarrow> shared_rate (rbdc_alloc_kbps t) slot True none_left (one_more slot t)"
  using one_more_rate [of slot t] by (simp add: shared_rate_def)

lemma served_in_order:
  assumes "keeps g d d2" "registry_wf (registry d2)" "x \<in> set (served_tals d l i)"
  shows "x \<in> set (map term_tal_id (sort_by_credit (contexts d2 (carrier_tals d l i))))" "is_served d2 x"
proof -
  from assms(3) have x: "x \<in> set (carrier_tals d l i)" "is_served d x" by (simp_all add: served_tals_def)
  then show s: "is_served d2 x" by (simp add: keeps_is_served [OF assms(1)])
  then have "get_terminal_context d2 x \<noteq> None"
    by (auto simp: is_served_def served_def split: option.splits)
  with x(1) show "x \<in> set (map term_tal_id (sort_by_credit (contexts d2 (carrier_tals d l i))))"
    by (simp only: extra_order_set [OF assms(2)]) simp
qed

text \<open>The whole carrier, when it has capacity and requests.\<close>

lemma rbdc_per_carrier_stages:
  assumes wf: "registry_wf (registry d)" and ex: "carrier_exists d l i"
    and run: "rbdc_per_carrier d l i = (d', request, alloc)"
    and T: "T = total_demand d l i" "0 < T"
    and R: "R = remaining_at d l i" "0 < R"
  obtains d2 R2 a2 d3 R3 a3 ord where
    "keeps rbdc_request_kbps d d2" "registry d2 = registry d"
    "R2 = R - sum_list (map (fair_pkt d T R) (served_tals d l i))"
    "\<forall>x \<in> set (served_tals d l i). rbdc_of d2 x = Some (granted_rate d x (fair_pkt d T R x))"
    "ord = map term_tal_id (sort_by_credit (contexts d2 (carrier_tals d l i)))" "distinct ord"
    "(if fair_share T R > 1 then rbdc_extra ord d2 R2 a2 else (d2, R2, a2)) = (d3, R3, a3)"
    "d' = set_remaining l i R3 d3"
proof -
  let ?tals = "carrier_tals d l i"
  obtain d1 m T1 q where rq: "rbdc_requests ?tals d [] 0 0 = (d1, m, T1, q)" using prod_cases4 by blast
  obtain d2 R2 a2 where sv: "rbdc_serve ?tals d1 m (fair_share T1 R) R 0 = (d2, R2, a2)"
    using prod_cases3 by blast
  note sp = serving_spec [OF rq sv]
  have T1: "T1 = T" by (simp add: sp(1) T(1))
  define ord where "ord = map term_tal_id (sort_by_credit (contexts d2 ?tals))"
  obtain d3 R3 a3 where fin: "(if fair_share T R > 1 then rbdc_extra ord d2 R2 a2 else (d2, R2, a2)) = (d3, R3, a3)"
    using prod_cases3 by blast
  from ex obtain c where "map_of (categories d) l = Some c"
    by (auto simp: carrier_exists_def split: option.splits)
  note distinct = group_terminals_distinct(1) [OF wf this, of i, folded carrier_tals_def]
  have dist: "distinct ord"
    unfolding ord_def by (rule extra_order_distinct [OF _ distinct]) (simp add: sp(3) wf)
  have nz: "R \<noteq> 0" "T \<noteq> 0" using R(2) T(2) by auto
  have "rbdc_per_carrier d l i = (set_remaining l i R3 d3, q, a3)"
    unfolding rbdc_per_carrier_def carrier_tals_def [symmetric] R(1) [symmetric]
    using fin by (auto simp: Let_def nz rq sv [unfolded T1] T1 ord_def [symmetric])
  with run have "d' = set_remaining l i R3 d3" by simp
  moreover have "\<forall>x \<in> set (served_tals d l i). rbdc_of d2 x = Some (granted_rate d x (fair_pkt d T R x))"
    using sp(5) by (simp add: T1)
  ultimately show ?thesis using that [OF sp(2,3) _ _ ord_def dist fin] sp(4) by (simp add: T1)
qed

lemma rbdc_per_carrier_fits:
  assumes "registry_wf (registry d)" "carrier_exists d l i"
    and "rbdc_per_carrier d l i = (d', request, alloc)"
    and "T = total_demand d l i" "0 < T" "R = remaining_at d l i" "0 < R"
    and share: "fair_share T R \<le> 1"
  shows "remaining_at d' l i = R - sum_list (map (fair_pkt d T R) (served_tals d l i))"
    "x \<in> set (served_tals d l i) \<Longrightarrow> rbdc_of d' x = Some (granted_rate d x (fair_pkt d T R x))"
proof -
  obtain d2 R2 a2 d3 R3 a3 ord where
    k: "keeps rbdc_request_kbps d d2" and g: "registry d2 = registry d"
    and R2: "R2 = R - sum_list (map (fair_pkt d T R) (served_tals d l i))"
    and r: "\<forall>x \<in> set (served_tals d l i). rbdc_of d2 x = Some (granted_rate d x (fair_pkt d T R x))"
    and ord: "ord = map term_tal_id (sort_by_credit (contexts d2 (carrier_tals d l i)))"
    and dist: "distinct ord"
    and fin: "(if fair_share T R > 1 then rbdc_extra ord d2 R2 a2 else (d2, R2, a2)) = (d3, R3, a3)"
    and d': "d' = set_remaining l i R3 d3" by (rule rbdc_per_carrier_stages [OF assms(1-7)]) (rule that)
  from fin share have "d3 = d2" "R3 = R2" by simp_all
  moreover have "remaining_at d' l i = R3" if "d3 = d2"
    unfolding d' that using assms(2) by (intro remaining_at_set) (simp add: carrier_exists_keeps [OF k])
  ultimately show "remaining_at d' l i = R - sum_list (map (fair_pkt d T R) (served_tals d l i))"
    by (simp add: R2)
  show "x \<in> set (served_tals d l i) \<Longrightarrow> rbdc_of d' x = Some (granted_rate d x (fair_pkt d T R x))"
    using r \<open>d3 = d2\<close> by (simp add: rbdc_of_def d')
qed

lemma rbdc_per_carrier_congested:
  assumes "registry_wf (registry d)" "carrier_exists d l i"
    and "rbdc_per_carrier d l i = (d', request, alloc)"
    and "T = total_demand d l i" "0 < T" "R = remaining_at d l i" "0 < R"
    and share: "fair_share T R > 1"
  obtains E where "E \<subseteq> set (served_tals d l i)"
    "unat (remaining_at d' l i) + card E =
      unat (R - sum_list (map (fair_pkt d T R) (served_tals d l i)))"
    "\<And>x. x \<in> set (served_tals d l i) \<Longrightarrow> \<exists>t. get_terminal_context d' x = Some t \<and>
      shared_rate (granted_rate d x (fair_pkt d T R x)) (granted_rate d x 1) (x \<in> E)
        (remaining_at d' l i = 0) t"
proof -
  obtain d2 R2 a2 d3 R3 a3 ord where
    k: "keeps rbdc_request_kbps d d2" and g: "registry d2 = registry d"
    and R2: "R2 = R - sum_list (map (fair_pkt d T R) (served_tals d l i))"
    and r: "\<forall>x \<in> set (served_tals d l i). rbdc_of d2 x = Some (granted_rate d x (fair_pkt d T R x))"
    and ord: "ord = map term_tal_id (sort_by_credit (contexts d2 (carrier_tals d l i)))"
    and dist: "distinct ord"
    and fin: "(if fair_share T R > 1 then rbdc_extra ord d2 R2 a2 else (d2, R2, a2)) = (d3, R3, a3)"
    and d': "d' = set_remaining l i R3 d3" by (rule rbdc_per_carrier_stages [OF assms(1-7)]) (rule that)
  from fin share have "rbdc_extra ord d2 R2 a2 = (d3, R3, a3)" by simp
  from rbdc_extra_spec [OF this dist] obtain E where E: "E \<subseteq> set ord"
    and k3: "keeps rbdc_request_kbps d2 d3" and sum: "unat R3 + card E = unat R2"
    and got: "\<forall>x \<in> E. is_served d2 x \<and> (\<exists>t. get_terminal_context d2 x = Some t \<and>
      takes_extra (granted_rate d2 x 1) t \<and>
      get_terminal_context d3 x = Some (one_more (granted_rate d2 x 1) t))"
    and same: "\<forall>x. x \<notin> E \<longrightarrow> get_terminal_context d3 x = get_terminal_context d2 x"
    and refused: "\<forall>x \<in> set ord - E. is_served d2 x \<longrightarrow> R3 = 0 \<or>
      (\<exists>t. get_terminal_context d2 x = Some t \<and> \<not> takes_extra (granted_rate d2 x 1) t)"
    by (elim exE conjE) (rule that)
  have wf2: "registry_wf (registry d2)" using assms(1) by (simp add: g)
  have rem: "remaining_at d' l i = R3"
    unfolding d' using assms(2)
    by (intro remaining_at_set) (simp add: carrier_exists_keeps [OF keeps_trans [OF k k3]])
  have ctx: "get_terminal_context d' x = get_terminal_context d3 x" for x by (simp add: d')
  have "E \<subseteq> set (served_tals d l i)"
    using E got by (auto simp: served_tals_def keeps_is_served [OF k] ord extra_order_set [OF wf2]
        simp del: set_map)
  moreover have "unat (remaining_at d' l i) + card E =
      unat (R - sum_list (map (fair_pkt d T R) (served_tals d l i)))"
    by (simp only: rem sum R2)
  moreover have "\<exists>t. get_terminal_context d' x = Some t \<and>
      shared_rate (granted_rate d x (fair_pkt d T R x)) (granted_rate d x 1) (x \<in> E)
        (remaining_at d' l i = 0) t" if x: "x \<in> set (served_tals d l i)" for x
  proof (cases "x \<in> E")
    case True
    from bspec [OF got True] obtain t where t: "get_terminal_context d2 x = Some t"
      "takes_extra (granted_rate d x 1) t"
      "get_terminal_context d3 x = Some (one_more (granted_rate d x 1) t)"
      by (auto simp: granted_keeps [OF k])
    moreover from t(1) bspec [OF r x] have "rbdc_alloc_kbps t = granted_rate d x (fair_pkt d T R x)"
      by (simp add: rbdc_of_def)
    ultimately show ?thesis using one_more_shared [OF t(2)] by (simp add: ctx True)
  next
    case False
    from bspec [OF r x] obtain t where t: "get_terminal_context d2 x = Some t"
      "rbdc_alloc_kbps t = granted_rate d x (fair_pkt d T R x)" by (auto simp: rbdc_of_def)
    from served_in_order [OF k wf2 x] False have "x \<in> set ord - E" "is_served d2 x" by (simp_all add: ord)
    from refused this t show ?thesis
      by (auto simp: ctx same False shared_rate_def rem granted_keeps [OF k])
  qed
  ultimately show ?thesis using that by blast
qed

text \<open>The fair floors fit, when the total of the demands does not wrap.\<close>

lemma fair_floors_fit:
  assumes "sum_list (map (\<lambda>x. unat (demand rbdc_request_kbps d x)) xs) < 2 ^ 16"
    and "T = sum_list (map (demand rbdc_request_kbps d) xs)" "0 < R" "R \<le> T"
  shows "unat (sum_list (map (fair_pkt d T R) xs)) \<le> unat R"
    "unat (sum_list (map (fair_pkt d T R) xs)) = sum_list (map (\<lambda>x. unat (fair_pkt d T R x)) xs)"
    "x \<in> set xs \<Longrightarrow> unat (fair_pkt d T R x) * unat T \<le> unat (demand rbdc_request_kbps d x) * unat R"
    "x \<in> set xs \<Longrightarrow> unat (demand rbdc_request_kbps d x) * unat R \<le> (unat (fair_pkt d T R x) + 1) * unat T"
proof -
  let ?r = "demand rbdc_request_kbps d"
  have uT: "unat T = sum_list (map (\<lambda>x. unat (?r x)) xs)"
    using unat_sum_list [of "map ?r xs"] assms(1) by (simp add: assms(2) comp_def)
  have le: "?r x \<le> T" if "x \<in> set xs" for x
    using member_le_sum_list [of "unat (?r x)" "map (\<lambda>x. unat (?r x)) xs"] that
    by (simp add: word_le_nat_alt uT)
  have f: "unat (fair_pkt d T R x) * unat T \<le> unat (?r x) * unat R" if "x \<in> set xs" for x
    using unat_fair(1) [OF assms(3,4) le [OF that]] by (simp add: fair_pkt_def)
  then show "x \<in> set xs \<Longrightarrow> unat (fair_pkt d T R x) * unat T \<le> unat (?r x) * unat R" .
  show "x \<in> set xs \<Longrightarrow> unat (?r x) * unat R \<le> (unat (fair_pkt d T R x) + 1) * unat T"
    using unat_fair_ceil [OF assms(3,4) le] by (simp add: fair_pkt_def)
  have "sum_list (map (\<lambda>x. unat (fair_pkt d T R x)) xs) * unat T \<le> unat T * unat R"
    using sum_list_scaled [of xs "\<lambda>x. unat (fair_pkt d T R x)" "unat T" "\<lambda>x. unat (?r x)" "unat R"] f
    by (simp add: uT)
  moreover have "0 < unat T" using assms(3,4) by (simp add: word_le_nat_alt word_less_nat_alt)
  ultimately have "sum_list (map (\<lambda>x. unat (fair_pkt d T R x)) xs) \<le> unat R"
    by (simp add: mult.commute)
  moreover from this have "sum_list (map unat (map (fair_pkt d T R) xs)) < 2 ^ 16"
    using unat_le_mask16 [of R] by (simp add: comp_def)
  ultimately show "unat (sum_list (map (fair_pkt d T R) xs)) \<le> unat R"
    "unat (sum_list (map (fair_pkt d T R) xs)) = sum_list (map (\<lambda>x. unat (fair_pkt d T R x)) xs)"
    using unat_sum_list [of "map (fair_pkt d T R) xs"] by (simp_all add: comp_def)
qed

text \<open>C8: The rate requests of a carrier with capacity \<open>R\<close> and requests of \<open>T\<close> packets, whose sum
  fits the 16 bits the program computes it in.  When the requests fit, every served terminal gets
  the rate of exactly the packets it asked for and the carrier keeps the rest.  When they do not,
  a terminal gets the rate of a number \<open>p\<close> of packets in proportion to its request, at most the
  exact share \<open>request * R / T\<close> and less than one packet below it (up to equality) although the
  code divides doubles.  What the rounding left goes, one packet each, to a set \<open>E\<close> of served
  terminals that stay within their maximum; a terminal outside \<open>E\<close> is refused because nothing is
  left or because it does not meet the condition.  The capacity is accounted to the packet: what
  remains, the shares and the extra packets are \<open>R\<close>, so the carrier is never overcommitted.\<close>

theorem rate_requests_shared:
  assumes "registry_wf (registry d)" "carrier_exists d l i"
    and "rbdc_per_carrier d l i = (d', request, alloc)"
    and "sum_list (map (\<lambda>x. unat (demand rbdc_request_kbps d x)) (served_tals d l i)) < 2 ^ 16"
    and "R = remaining_at d l i" "0 < R" "T = total_demand d l i" "0 < T"
  shows "(T \<le> R \<longrightarrow> unat (remaining_at d' l i) + unat T = unat R \<and>
      (\<forall>x \<in> set (served_tals d l i).
        rbdc_of d' x = Some (granted_rate d x (demand rbdc_request_kbps d x)))) \<and>
    (R < T \<longrightarrow> (\<exists>p E. E \<subseteq> set (served_tals d l i) \<and>
      unat (remaining_at d' l i) + sum_list (map (\<lambda>x. unat (p x)) (served_tals d l i)) + card E = unat R \<and>
      (\<forall>x \<in> set (served_tals d l i).
        unat (p x) * unat T \<le> unat (demand rbdc_request_kbps d x) * unat R \<and>
        unat (demand rbdc_request_kbps d x) * unat R \<le> (unat (p x) + 1) * unat T \<and>
        (\<exists>t. get_terminal_context d' x = Some t \<and>
          shared_rate (granted_rate d x (p x)) (granted_rate d x 1) (x \<in> E)
            (remaining_at d' l i = 0) t))))"
proof -
  let ?xs = "served_tals d l i" and ?p = "fair_pkt d T R"
  note hyps = assms(1-3,7,8,5,6)
  have T: "T = sum_list (map (demand rbdc_request_kbps d) ?xs)" by (simp add: assms(7) total_demand_def)
  consider "T \<le> R" | "R < T" by (rule le_less_linear [THEN disjE])
  then show ?thesis
  proof cases
    case 1
    note fair = fair_uncongested [OF assms(6) 1]
    have "?p = demand rbdc_request_kbps d" by (simp add: fun_eq_iff fair_pkt_def fair(2))
    then have "remaining_at d' l i = R - T"
      and "\<And>x. x \<in> set ?xs \<Longrightarrow> rbdc_of d' x = Some (granted_rate d x (demand rbdc_request_kbps d x))"
      using rbdc_per_carrier_fits [OF hyps] fair(1) by (simp_all add: T)
    moreover have "unat (R - T) + unat T = unat R" using 1 by (simp add: unat_sub word_le_nat_alt)
    ultimately show ?thesis using 1 by auto
  next
    case 2
    then have le: "R \<le> T" by simp
    note fit = fair_floors_fit [OF assms(4) T assms(6) le]
    from rbdc_per_carrier_congested [OF hyps fair_share_congested [OF assms(6) 2]] obtain E
      where E: "E \<subseteq> set ?xs"
        "unat (remaining_at d' l i) + card E = unat (R - sum_list (map ?p ?xs))"
        "\<And>x. x \<in> set ?xs \<Longrightarrow> \<exists>t. get_terminal_context d' x = Some t \<and>
          shared_rate (granted_rate d x (?p x)) (granted_rate d x 1) (x \<in> E) (remaining_at d' l i = 0) t"
      by blast
    have "unat (R - sum_list (map ?p ?xs)) = unat R - sum_list (map (\<lambda>x. unat (?p x)) ?xs)"
      using fit(1,2) by (simp add: unat_sub word_le_nat_alt)
    with E(2) fit(1,2)
    have "unat (remaining_at d' l i) + sum_list (map (\<lambda>x. unat (?p x)) ?xs) + card E = unat R" by simp
    with E(1,3) fit(3,4) 2 show ?thesis
      by (intro conjI impI exI [of _ ?p] exI [of _ E] ballI) simp_all
  qed
qed

theorem rate_requests_shared_witness:
  "\<exists>d' p E. d' = fst (rbdc_per_carrier (two_terminals 200) ''gold'' 0) \<and>
    59 \<le> unat (p (1 :: tal_id) :: u16) \<and> unat (p 1) \<le> 60 \<and> E \<subseteq> {1, 2 :: tal_id} \<and>
    unat (remaining_at d' ''gold'' 0) + (unat (p 1) + unat (p 2)) + card E = 200"
proof -
  let ?d = "two_terminals 200"
  obtain d' q a where run: "rbdc_per_carrier ?d ''gold'' 0 = (d', q, a)" using prod_cases3 by blast
  have xs: "served_tals ?d ''gold'' 0 = [1, 2]" by (simp add: served_tals_def two_terminals_facts)
  have "sum_list (map (\<lambda>x. unat (demand rbdc_request_kbps ?d x)) (served_tals ?d ''gold'' 0)) < 2 ^ 16"
    "(200 :: u16) = remaining_at ?d ''gold'' 0" "(1000 :: u16) = total_demand ?d ''gold'' 0"
    by (simp_all add: xs total_demand_def two_terminals_facts)
  note hyps = this
  from rate_requests_shared [OF two_terminals_wf run hyps(1,2) _ hyps(3)] obtain p :: "tal_id \<Rightarrow> u16"
    and E where "E \<subseteq> {1, 2 :: tal_id}" "unat (p 1) * 1000 \<le> 300 * 200"
      "300 * 200 \<le> (unat (p 1) + 1) * 1000"
      "unat (remaining_at d' ''gold'' 0) + (unat (p 1) + unat (p 2)) + card E = 200"
    by (auto simp: xs two_terminals_facts)
  then show ?thesis by (intro exI [of _ d'] exI [of _ p] exI [of _ E]) (simp add: run)
qed

end
