(* ===== verification/Dama_Volume.thy ===== *)
theory Dama_Volume
  imports Dama_Constant
begin

text \<open>
  The volume requests of a carrier, the free capacity, and the superframe as a whole.
\<close>

section \<open>Volume requests\<close>

text \<open>The specification: the requests are filled in order until the room is used up; the last one
  may be filled in part.\<close>

fun fill :: "nat \<Rightarrow> ('a \<times> nat) list \<Rightarrow> ('a \<times> nat) list" where
  "fill room [] = []"
| "fill room ((x, n) # ws) =
     (if room = 0 then []
      else if n = 0 then fill room ws
      else (x, min n room) # fill (room - min n room) ws)"

lemma fill_zero [simp]: "fill 0 ws = []"
  by (induction ws) auto

lemma fill_fst: "fst ` set (fill room ws) \<subseteq> fst ` set ws"
  by (induction room ws rule: fill.induct) auto

lemma fill_fits: "sum_list (map snd (fill room ws)) = min room (sum_list (map snd ws))"
  by (induction room ws rule: fill.induct) (auto simp: min_def)

definition volume_demand :: "dama_ctrl \<Rightarrow> tal_id \<Rightarrow> vol_pkt" where
  "volume_demand d tal =
     (case served d tal of
        None \<Rightarrow> 0
      | Some (t, f) \<Rightarrow> kbits_to_pkt (converter (use_scheme f d))
          (ucast (add_fec f (ucast (vbdc_request_kb t)))))"

definition granted_volume :: "dama_ctrl \<Rightarrow> tal_id \<Rightarrow> vol_pkt \<Rightarrow> vol_kb" where
  "granted_volume d tal pkt =
     (case served d tal of
        None \<Rightarrow> 0
      | Some (t, f) \<Rightarrow> ucast (remove_fec f (ucast (pkt_to_kbits (converter (use_scheme f d)) pkt))))"

text \<open>A controller in which the schemes and the categories are those of \<open>d\<close>, and so are the contexts
  of the terminals \<open>xs\<close>.\<close>

definition alike :: "tal_id set \<Rightarrow> dama_ctrl \<Rightarrow> dama_ctrl \<Rightarrow> bool" where
  "alike xs d d' \<longleftrightarrow> same_service d d' \<and>
     (\<forall>x \<in> xs. get_terminal_context d' x = get_terminal_context d x)"

lemma alike_refl [simp]: "alike xs d d"
  by (simp add: alike_def same_service_refl)

lemma alike_trans: "alike xs d d' \<Longrightarrow> alike ys d' d'' \<Longrightarrow> zs \<subseteq> xs \<inter> ys \<Longrightarrow> alike zs d d''"
  by (auto simp: alike_def subset_iff intro: same_service_trans)

lemma served_alike: "alike xs d d' \<Longrightarrow> x \<in> xs \<Longrightarrow> served d' x = served d x"
  by (simp add: served_def alike_def)

lemma converter_alike: "alike xs d d' \<Longrightarrow> converter (use_scheme f d') = converter (use_scheme f d)"
  by (simp add: alike_def same_service_def)

lemma volume_alike:
  assumes "alike xs d d'" "x \<in> xs"
  shows "volume_demand d' x = volume_demand d x" "granted_volume d' x p = granted_volume d x p"
  using served_alike [OF assms] converter_alike [OF assms(1)]
  by (simp_all add: volume_demand_def granted_volume_def split: option.split)

lemma volume_step:
  assumes "served d tal = Some (t, f)" "0 < R" "p = min (volume_demand d tal) R"
  obtains d2 q2 a2 where
    "vbdc_loop (tal # tals) d R q a = vbdc_loop tals d2 (R - p) q2 a2"
    "alike (- {tal}) d d2"
    "get_terminal_context d2 tal =
      (if p = 0 then Some t else Some (set_vbdc_allocation (granted_volume d tal p) t))"
proof -
  let ?d1 = "use_scheme f d" and ?g = "granted_volume d tal p" and ?n = "volume_demand d tal"
  have t: "get_terminal_context d tal = Some t" using assms(1) by (auto simp: served_def split: option.splits)
  have n: "?n = kbits_to_pkt (converter ?d1) (ucast (add_fec f (ucast (vbdc_request_kb t))))"
    by (simp add: volume_demand_def assms(1))
  have g: "?g = ucast (remove_fec f (ucast (pkt_to_kbits (converter ?d1) p)))"
    by (simp add: granted_volume_def assms(1))
  show ?thesis
  proof (cases "?n = 0")
    case True
    then have "p = 0" by (simp add: assms(3))
    moreover have "vbdc_loop (tal # tals) d R q a = vbdc_loop tals ?d1 (R - 0) q a"
      using True assms(1,2) by (simp add: n Let_def)
    ultimately show ?thesis using that [of ?d1 q a] t by (simp add: alike_def)
  next
    case False
    then have p0: "p \<noteq> 0" using assms(2) by (auto simp: assms(3) min_def)
    have pn: "(if ?n \<le> R then ?n else R) = p" by (simp add: assms(3) min_def)
    let ?d2 = "(update_terminal (set_vbdc_allocation ?g) tal ?d1)
      \<lparr>gw_vbdc_req_num := gw_vbdc_req_num ?d1 + 1\<rparr>"
    let ?q2 = "q + ucast (add_fec f (ucast (vbdc_request_kb t)))"
    have "vbdc_loop (tal # tals) d R q a = vbdc_loop tals ?d2 (R - p) ?q2 (a + ?g)"
      using False assms(2)
      by (simp only: vbdc_loop.simps assms(1) option.case prod.case Let_def n [symmetric] pn g [symmetric]
          not_not if_False if_True word_le_0_iff simp_thms)
    moreover have "same_service d (update_terminal (set_vbdc_allocation ?g) tal ?d1)"
      by (rule same_service_update) simp_all
    then have "same_service d ?d2" by simp
    then have "alike (- {tal}) d ?d2"
      by (simp add: alike_def) (simp add: get_terminal_context_def use_scheme_def update_terminal_def
          map_of_omap_update)
    moreover have "get_terminal_context ?d2 tal = Some (set_vbdc_allocation ?g t)"
      using t by (simp add: get_terminal_context_def use_scheme_def update_terminal_def map_of_omap_update)
    ultimately show ?thesis using that p0 by simp
  qed
qed

text \<open>What a context becomes when its terminal is granted the packets of a list of grants.\<close>

definition with_grants :: "dama_ctrl \<Rightarrow> (tal_id \<times> nat) list \<Rightarrow> tal_id \<Rightarrow> terminal option" where
  "with_grants d grants x =
     (case map_of grants x of
        None \<Rightarrow> get_terminal_context d x
      | Some n \<Rightarrow> map_option (set_vbdc_allocation (granted_volume d x (of_nat n)))
          (get_terminal_context d x))"

definition volume_wishes :: "dama_ctrl \<Rightarrow> tal_id list \<Rightarrow> (tal_id \<times> nat) list" where
  "volume_wishes d tals = map (\<lambda>x. (x, unat (volume_demand d x))) (filter (is_served d) tals)"

lemma volume_wishes_alike:
  assumes "alike xs d d'" "set tals \<subseteq> xs"
  shows "volume_wishes d' tals = volume_wishes d tals"
  unfolding volume_wishes_def
  by (rule map_cong) (use assms served_alike [OF assms(1)] volume_alike [OF assms(1)] in
      \<open>auto simp: is_served_def subset_iff cong: filter_cong\<close>)

lemma volume_wishes_Cons [simp]:
  "volume_wishes d [] = []"
  "served d tal = None \<Longrightarrow> volume_wishes d (tal # tals) = volume_wishes d tals"
  "served d tal = Some tf \<Longrightarrow>
   volume_wishes d (tal # tals) = (tal, unat (volume_demand d tal)) # volume_wishes d tals"
  by (simp_all add: volume_wishes_def is_served_def)

lemma not_granted: "tal \<notin> set tals \<Longrightarrow> map_of (fill room (volume_wishes d tals)) tal = None"
  using fill_fst [of room "volume_wishes d tals"]
  by (auto simp: map_of_eq_None_iff volume_wishes_def subset_iff)

lemma vbdc_loop_spec:
  assumes "vbdc_loop tals d R q a = (d', R', q', a', rest)" "distinct tals"
  shows "unat R' + sum_list (map snd (fill (unat R) (volume_wishes d tals))) = unat R \<and>
    same_service d d' \<and>
    (\<forall>x. get_terminal_context d' x = with_grants d (fill (unat R) (volume_wishes d tals)) x)"
  using assms
proof (induction tals arbitrary: d R q a)
  case Nil
  then show ?case by (simp add: with_grants_def same_service_refl)
next
  case (Cons tal tals)
  from Cons.prems have n: "tal \<notin> set tals" and dist: "distinct tals" by simp_all
  consider "R = 0" | "0 < R" "served d tal = None" | t f where "0 < R" "served d tal = Some (t, f)"
    by (cases "served d tal") (auto simp: word_gt_0)
  then show ?case
  proof cases
    case 1
    with Cons.prems(1) show ?thesis by (simp add: with_grants_def same_service_refl)
  next
    case 2
    then have "vbdc_loop (tal # tals) d R q a = vbdc_loop tals d R q a" by simp
    with Cons.IH [of d R q a] Cons.prems 2 show ?thesis by simp
  next
    case 3
    define p where "p = min (volume_demand d tal) R"
    from volume_step [OF 3(2,1) p_def, of tals q a] obtain d2 q2 a2 where
      step: "vbdc_loop (tal # tals) d R q a = vbdc_loop tals d2 (R - p) q2 a2"
      and al: "alike (- {tal}) d d2"
      and ctx: "get_terminal_context d2 tal =
        (if p = 0 then Some t else Some (set_vbdc_allocation (granted_volume d tal p) t))" .
    have t: "get_terminal_context d tal = Some t" using 3(2) by (auto simp: served_def split: option.splits)
    have sub: "set tals \<subseteq> - {tal}" using n by auto
    have up: "unat p = min (unat (volume_demand d tal)) (unat R)" "unat p \<le> unat R"
      by (simp_all add: p_def unat_min)
    have uR: "unat (R - p) = unat R - unat p" using up(2) by (simp add: unat_sub word_le_nat_alt)
    define gs where "gs = fill (unat (R - p)) (volume_wishes d tals)"
    from Cons.IH [OF Cons.prems(1) [unfolded step] dist]
    have IH: "unat R' + sum_list (map snd gs) = unat (R - p)" "same_service d2 d'"
      "\<And>x. get_terminal_context d' x = with_grants d2 gs x"
      by (simp_all only: volume_wishes_alike [OF al sub] gs_def)
    have g: "map_of gs tal = None" unfolding gs_def by (rule not_granted [OF n])
    have R0: "unat R \<noteq> 0" using 3(1) by (simp add: unat_eq_0)
    have all: "fill (unat R) (volume_wishes d (tal # tals)) = (if p = 0 then gs else (tal, unat p) # gs)"
    proof (cases "unat (volume_demand d tal) = 0")
      case True
      then have "unat p = 0" using up(1) by simp
      then show ?thesis using True 3(2) R0 uR by (simp add: gs_def unat_eq_0)
    next
      case False
      then have "unat p \<noteq> 0" using R0 up(1) by simp
      then have "p \<noteq> 0" by (simp add: unat_eq_0)
      then show ?thesis using False 3(2) R0 uR by (simp add: gs_def flip: up(1))
    qed
    have "get_terminal_context d' x = with_grants d (fill (unat R) (volume_wishes d (tal # tals))) x" for x
    proof (cases "x = tal")
      case True
      show ?thesis using ctx g t by (simp add: True IH(3) with_grants_def all)
    next
      case False
      then have "get_terminal_context d2 x = get_terminal_context d x"
        "granted_volume d2 x = granted_volume d x"
        using al volume_alike(2) [OF al, of x] by (auto simp: alike_def)
      then show ?thesis using False by (simp add: IH(3) with_grants_def all split: option.split)
    qed
    moreover have "same_service d d'" using al IH(2) same_service_trans by (auto simp: alike_def)
    moreover have "unat R' + sum_list (map snd (fill (unat R) (volume_wishes d (tal # tals)))) = unat R"
      using IH(1) uR up(2) by (cases "p = 0") (simp_all add: all)
    ultimately show ?thesis by blast
  qed
qed

lemma vbdc_rest_keeps:
  "get_terminal_context (fst (vbdc_rest tals d q)) x = get_terminal_context d x"
  "categories (fst (vbdc_rest tals d q)) = categories d"
  by (induction tals d q rule: vbdc_rest.induct)
    (auto simp: get_terminal_context_def split: option.splits)

definition volume_order :: "dama_ctrl \<Rightarrow> string \<Rightarrow> nat \<Rightarrow> tal_id list" where
  "volume_order d l i = map term_tal_id (sort_by_vbdc (terminals_in_group d l i))"

lemma sort_by_vbdc_twice [simp]: "sort_by_vbdc (sort_by_vbdc ts) = sort_by_vbdc ts"
  unfolding sort_by_vbdc_def by (rule sort_key_id_if_sorted [OF sorted_sort_key])

lemma volume_order_distinct:
  assumes "registry_wf (registry d)" "carrier_exists d l i"
  shows "distinct (volume_order d l i)"
proof -
  from assms(2) obtain c where "map_of (categories d) l = Some c"
    by (auto simp: carrier_exists_def split: option.splits)
  note dist = group_terminals_distinct(1) [OF assms(1) this, of i]
  have "mset (volume_order d l i) = mset (map term_tal_id (terminals_in_group d l i))"
    by (simp add: volume_order_def sort_by_vbdc_def)
  with dist show ?thesis by (metis distinct_count_atmost_1 set_mset_mset)
qed

text \<open>C28: The volume requests of a carrier: the terminals are served by decreasing request until the
  capacity is used up, the last one in part; each is allocated the volume of exactly the packets it
  was granted, and its request is lowered by it; all the others keep their context; and the
  capacity that remains is the capacity there was less the packets granted.\<close>

theorem volume_requests_filled:
  assumes "registry_wf (registry d)" "carrier_exists d l i"
    and "vbdc_per_carrier d l i = (d', request, alloc)"
    and "grants = fill (unat (remaining_at d l i)) (volume_wishes d (volume_order d l i))"
  shows "unat (remaining_at d' l i) + sum_list (map snd grants) = unat (remaining_at d l i) \<and>
    (\<forall>x. get_terminal_context d' x = with_grants d grants x)"
proof -
  let ?R = "remaining_at d l i" and ?tals = "volume_order d l i"
  have per: "vbdc_per_carrier d l i =
      (if ?R = 0 then (d, 0, 0) else if ?tals = [] then (d, 0, 0)
       else (let (d1, R1, q, a, rest) = vbdc_loop ?tals d ?R 0 0; (d2, q2) = vbdc_rest rest d1 q
             in (set_remaining l i R1 d2, q2, a)))"
    by (simp add: vbdc_per_carrier_def volume_order_def Let_def)
  show ?thesis
  proof (cases "?R = 0 \<or> ?tals = []")
    case True
    then have "vbdc_per_carrier d l i = (d, 0, 0)" unfolding per by auto
    moreover have "grants = []" using True assms(4) by (auto simp: volume_wishes_def)
    ultimately show ?thesis using assms(3) by (simp add: with_grants_def)
  next
    case False
    obtain d1 R1 q a rest where loop: "vbdc_loop ?tals d ?R 0 0 = (d1, R1, q, a, rest)"
      using prod_cases5 by blast
    obtain d2 q2 where rest: "vbdc_rest rest d1 q = (d2, q2)" by fastforce
    note spec = vbdc_loop_spec [OF loop volume_order_distinct [OF assms(1,2)]]
    have d': "d' = set_remaining l i R1 d2" using False assms(3) by (simp add: per loop rest)
    have c2: "categories d2 = categories d"
      using vbdc_rest_keeps(2) [of rest d1 q] spec by (simp add: rest same_service_def)
    have "get_terminal_context d' x = get_terminal_context d1 x" for x
      using vbdc_rest_keeps(1) [of rest d1 q x] by (simp add: rest d')
    moreover have "remaining_at d' l i = R1"
      unfolding d' using assms(2) by (intro remaining_at_set) (simp add: carrier_exists_def c2)
    ultimately show ?thesis using spec by (simp add: assms(4))
  qed
qed

lemma fl_numeral: "(numeral k :: int) < 2 ^ p \<Longrightarrow> fl p (numeral k) = numeral k"
  using fl_of_int [of "numeral k" p] by simp

lemma cceil_numeral: "cceil (numeral k) = numeral k" "cfloor (numeral k) = numeral k"
  by (simp_all add: cceil_def cfloor_def trunc_def)

lemma num_numeral: "num (numeral k :: 'a::len word) = of_nat (numeral k mod 2 ^ LENGTH('a))"
  by (simp add: num_def take_bit_nat_def del: of_nat_unat)

lemma unit_volumes:
  "kbits_to_pkt (new_converter 1 1 1) 20 = 20000" "kbits_to_pkt (new_converter 1 1 1) 50 = 50000"
  "pkt_to_kbits (new_converter 1 1 1) 10000 = 10" "pkt_to_kbits (new_converter 1 1 1) 50000 = 50"
  "add_fec unit_fmt 20 = 20" "add_fec unit_fmt 50 = 50"
  "remove_fec unit_fmt 10 = 10" "remove_fec unit_fmt 50 = 50"
  by (simp_all add: kbits_to_pkt_def pkt_to_kbits_def new_converter_def unit_inverse num_up fl_num
      fl_one set_modulation_efficiency_def set_packet_symbol_length_def set_frame_duration_def
      pkt_to_bits_def num_numeral fl_numeral cceil_numeral add_fec_def remove_fec_def)

lemma two_volumes:
  "volume_order (two_terminals r) ''gold'' 0 = [2, 1]"
  "volume_wishes (two_terminals r) [2, 1] = [(2, 50000), (1, 20000)]"
  "granted_volume (two_terminals r) 2 50000 = 50" "granted_volume (two_terminals r) 1 10000 = 10"
  by (simp_all add: volume_order_def two_terminals_def terminals_in_group_def List.map_filter_def
      get_terminal_context_def group_at_def sort_by_vbdc_def volume_wishes_def is_served_def
      volume_demand_def served_def unit_volumes granted_volume_def)

theorem volume_requests_filled_witness:
  "\<exists>d'. d' = fst (vbdc_per_carrier (two_terminals 60000) ''gold'' 0) \<and>
    remaining_at d' ''gold'' 0 = 0 \<and>
    map_option vbdc_request_kb (get_terminal_context d' 2) = Some 0 \<and>
    map_option vbdc_alloc_kb (get_terminal_context d' 1) = Some 10"
proof -
  let ?d = "two_terminals 60000"
  obtain d' q a where run: "vbdc_per_carrier ?d ''gold'' 0 = (d', q, a)" using prod_cases3 by blast
  have ctx: "get_terminal_context ?d 1 = Some (example_terminal 1 100 300 20)"
    "get_terminal_context ?d 2 = Some (example_terminal 2 200 700 50)"
    by (simp_all add: two_terminals_def get_terminal_context_def)
  show ?thesis
    using volume_requests_filled [OF two_terminals_wf run refl]
    by (auto simp: two_terminals_facts two_volumes with_grants_def run ctx set_vbdc_allocation_def
        unat_eq_0)
qed

end
