(* ===== verification/Dama_Superframe.thy ===== *)
theory Dama_Superframe
  imports Dama_Volume Dama_Rate
begin

text \<open>
  The free capacity, and whole superframes: what they keep of the rate requests of the terminals and
  of the timers of these requests.
\<close>

section \<open>The free capacity\<close>

lemma fca_loop_stuck:
  "fca_loop tals d R a = Some r \<Longrightarrow> tals \<noteq> [] \<Longrightarrow> 0 < R \<Longrightarrow> served d (hd tals) = None \<Longrightarrow> False"
proof (induction rule: fca_loop.raw_induct [rotated 1, consumes 1, case_names step])
  case (step loop tals d R a r)
  from step(2-5) show ?case
    by (auto dest: step(1) split: list.splits)
qed

lemma fca_loop_ends:
  assumes "\<forall>x \<in> set tals. is_served d x"
  shows "\<exists>d' R' a'. fca_loop tals d R a = Some (d', R', a') \<and> unat R' \<le> unat R \<and> same_service d d'"
  using assms
proof (induction tals arbitrary: d R a)
  case Nil
  then show ?case by (simp add: fca_loop.simps same_service_refl)
next
  case (Cons tal tals)
  show ?case
  proof (cases "0 < R")
    case False
    then show ?thesis by (simp add: fca_loop.simps same_service_refl)
  next
    case True
    from Cons.prems obtain t f where s: "served d tal = Some (t, f)" by (auto simp: is_served_def)
    define fca where "fca = kbps_to_pktpf (converter d) (ucast (add_fec f (ucast (fca_kbps d))))"
    define pkt where "pkt = (if R > fca then fca else R)"
    define rate where "rate = packets_to_rate (converter d) f pkt"
    define d1 where "d1 = update_terminal (set_fca_allocation rate) tal d"
    have step: "fca_loop (tal # tals) d R a = fca_loop tals d1 (R - pkt) (a + rate)"
      by (subst fca_loop.simps) (use True in \<open>simp add: s Let_def fca_def pkt_def rate_def d1_def\<close>)
    have same: "same_service d d1"
      unfolding d1_def by (rule same_service_update [OF _ same_service_refl]) simp
    with Cons.prems have "\<forall>x \<in> set tals. is_served d1 x" by (simp add: same_is_served)
    from Cons.IH [OF this, of "R - pkt" "a + rate"] obtain d' R' a' where
      IH: "fca_loop tals d1 (R - pkt) (a + rate) = Some (d', R', a')" "unat R' \<le> unat (R - pkt)"
        "same_service d1 d'" by blast
    have "unat (R - pkt) \<le> unat R"
      by (auto simp: pkt_def unat_sub word_le_nat_alt word_less_nat_alt)
    with IH same show ?thesis by (auto simp: step intro: same_service_trans)
  qed
qed

lemma mem_sort_by_credit [simp]: "set (sort_by_credit ts) = set ts"
  by (simp add: sort_by_credit_def)

lemma registered_in_group:
  assumes "registry_wf (registry d)" "carrier_exists d l i" "t \<in> set (terminals_in_group d l i)"
  shows "is_served d (term_tal_id t) \<longleftrightarrow> term_fmt_def t \<noteq> None"
proof -
  from assms(2) obtain c where "map_of (categories d) l = Some c"
    by (auto simp: carrier_exists_def split: option.splits)
  from group_terminals_distinct(2) [OF assms(1) this, of i] assms(3)
  have "get_terminal_context d (term_tal_id t) = Some t" by blast
  then show ?thesis by (auto simp: is_served_def served_def split: option.splits)
qed

text \<open>The allocation of the free capacity of a carrier.  When every terminal of the carrier has a
  scheme it ends, and the remaining capacity only decreases.  When capacity remains and the
  terminal with the largest credit has no scheme, it never ends: the loop goes to its next turn
  without advancing.\<close>

theorem free_capacity_ends:
  assumes "registry_wf (registry d)" "carrier_exists d l i"
  shows "((\<forall>t \<in> set (terminals_in_group d l i). term_fmt_def t \<noteq> None) \<longrightarrow>
      (\<exists>d' alloc. fca_per_carrier d l i = Some (d', alloc) \<and>
        unat (remaining_at d' l i) \<le> unat (remaining_at d l i))) \<and>
    (terminals_in_group d l i \<noteq> [] \<and> 0 < remaining_at d l i \<and>
      term_fmt_def (hd (sort_by_credit (terminals_in_group d l i))) = None \<longrightarrow>
      fca_per_carrier d l i = None)"
proof (intro conjI impI)
  let ?ts = "terminals_in_group d l i" and ?R = "remaining_at d l i"
  let ?tals = "map term_tal_id (sort_by_credit ?ts)"
  {
    assume "\<forall>t \<in> set ?ts. term_fmt_def t \<noteq> None"
    then have "\<forall>x \<in> set ?tals. is_served d x" using registered_in_group [OF assms] by auto
    from fca_loop_ends [OF this, of ?R 0] obtain d1 R1 a1 where
      loop: "fca_loop ?tals d ?R 0 = Some (d1, R1, a1)" "unat R1 \<le> unat ?R" "same_service d d1" by blast
    have "remaining_at (set_remaining l i R1 d1) l i = R1"
      using assms(2) loop(3) by (intro remaining_at_set) (simp add: carrier_exists_def same_service_def)
    then show "\<exists>d' alloc. fca_per_carrier d l i = Some (d', alloc) \<and>
        unat (remaining_at d' l i) \<le> unat ?R"
      using loop(1,2) by (auto simp: fca_per_carrier_def Let_def)
  }
  assume stuck: "?ts \<noteq> [] \<and> 0 < ?R \<and> term_fmt_def (hd (sort_by_credit ?ts)) = None"
  then have ne: "sort_by_credit ?ts \<noteq> []" by (metis mem_sort_by_credit set_empty)
  then have "hd (sort_by_credit ?ts) \<in> set ?ts" using hd_in_set mem_sort_by_credit by blast
  from registered_in_group [OF assms this] stuck ne have "served d (hd ?tals) = None"
    by (metis hd_map is_served_def)
  with fca_loop_stuck [of ?tals d ?R 0] stuck ne have "fca_loop ?tals d ?R 0 = None"
    by (metis list.map_disc_iff not_None_eq)
  with stuck show "fca_per_carrier d l i = None"
    by (auto simp: fca_per_carrier_def Let_def)
qed

text \<open>A carrier with one terminal whose scheme is unknown: the loop does not end.\<close>

theorem free_capacity_ends_witness:
  "fca_per_carrier (example_ctrl [(example_terminal 1 100 300 20)\<lparr>term_fmt_def := None\<rparr>] 40) ''gold'' 0 = None
   \<and> fca_per_carrier (two_terminals 40) ''gold'' 0 \<noteq> None"
proof -
  let ?t = "(example_terminal 1 100 300 20)\<lparr>term_fmt_def := None\<rparr>"
  let ?d = "example_ctrl [?t] 40"
  have wf: "registry_wf (registry ?d)" "carrier_exists ?d ''gold'' 0"
    by (auto simp: registry_wf_def registry_defs omap_wf_def members_def carrier_exists_def)
  have "terminals_in_group ?d ''gold'' 0 = [?t]" "remaining_at ?d ''gold'' 0 = 40"
    by (simp_all add: terminals_in_group_def List.map_filter_def get_terminal_context_def group_at_def
        remaining_at_def)
  with free_capacity_ends [OF wf] have "fca_per_carrier ?d ''gold'' 0 = None"
    by (simp add: sort_by_credit_def)
  moreover have "fca_per_carrier (two_terminals 40) ''gold'' 0 \<noteq> None"
    using free_capacity_ends [OF two_terminals_wf, of 40]
    by (auto simp: two_terminals_def terminals_in_group_def List.map_filter_def get_terminal_context_def
        group_at_def)
  ultimately show ?thesis ..
qed

section \<open>The reset\<close>

text \<open>What each terminal asked for and how long it stays valid, in the order of the map, with what
  the controller does with it.\<close>

definition life_of :: "terminal \<Rightarrow> rate_kbps \<times> time_sf" where
  "life_of t = (rbdc_request_kbps t, timer_sf t)"

definition rate_lives :: "dama_ctrl \<Rightarrow> bool \<times> rate_kbps \<times> (tal_id \<times> rate_kbps \<times> time_sf) list" where
  "rate_lives d = (enable_rbdc d, fca_kbps d, map (\<lambda>(i, t). (i, life_of t)) (dama_terminals d))"

lemma rate_lives_context:
  "map_option life_of (get_terminal_context d tal) = map_of (snd (snd (rate_lives d))) tal"
  by (simp add: rate_lives_def get_terminal_context_def map_of_map)

lemma rate_lives_eq:
  assumes "rate_lives d' = rate_lives d" "get_terminal_context d tal = Some t"
  obtains t' where "get_terminal_context d' tal = Some t'" "life_of t' = life_of t"
proof -
  have "map_option life_of (get_terminal_context d' tal) = Some (life_of t)"
    using rate_lives_context [of d' tal] rate_lives_context [of d tal] assms by simp
  then show ?thesis using that by auto
qed

lemma rate_lives_update:
  assumes "\<And>t. life_of (f t) = life_of t"
  shows "rate_lives (update_terminal f tal d) = rate_lives d"
  using assms by (auto simp: rate_lives_def update_terminal_def omap_update_def)

lemma rate_lives_fields [simp]:
  "rate_lives (d\<lparr>gw_rbdc_req_num := n\<rparr>) = rate_lives d" "rate_lives (d\<lparr>gw_vbdc_req_num := n\<rparr>) = rate_lives d"
  "rate_lives (d\<lparr>gw_cra_alloc := k\<rparr>) = rate_lives d" "rate_lives (d\<lparr>current_superframe := sf\<rparr>) = rate_lives d"
  "rate_lives (use_scheme f d) = rate_lives d" "rate_lives (set_remaining l i m d) = rate_lives d"
  "rate_lives (reset_carriers_capacity d) = rate_lives d"
  by (simp_all add: rate_lives_def use_scheme_def set_remaining_def reset_carriers_capacity_def)

lemma life_of_updates [simp]:
  "life_of (set_cra_allocation v t) = life_of t" "life_of (set_rbdc_allocation v t) = life_of t"
  "life_of (set_vbdc_allocation w t) = life_of t" "life_of (set_fca_allocation v t) = life_of t"
  "life_of (add_rbdc_credit c t) = life_of t"
  by (simp_all add: life_of_def terminal_updates)

lemma rate_lives_wave_forms [simp]: "rate_lives (update_wave_forms d) = rate_lives d"
  by (auto simp: rate_lives_def update_wave_forms_def update_wave_form_def life_of_def terminal_updates Let_def
      split: option.splits prod.splits)

lemma rate_lives_cra_loop: "rate_lives (fst (cra_loop tals d remaining request alloc)) = rate_lives d"
  by (induction tals d remaining request alloc rule: cra_loop.induct)
    (auto simp: rate_lives_update Let_def split: option.splits)

lemma rate_lives_cra: "rate_lives (fst (compute_cra d)) = rate_lives d"
proof -
  have "rate_lives (fst (cra_per_carrier d l i)) = rate_lives d" for d l i
    using rate_lives_cra_loop [of "map term_tal_id (terminals_in_group d l i)" d "remaining_at d l i" 0 0]
    by (auto simp: cra_per_carrier_def split: prod.splits)
  then have "rate_lives (fst (cra_carriers slots d stat)) = rate_lives d" for slots d stat
    by (induction slots d stat rule: cra_carriers.induct) (auto split: prod.splits, metis fst_conv)
  then show ?thesis by (simp add: compute_cra_def)
qed

lemma rate_lives_rbdc_loops:
  "rate_lives (fst (rbdc_requests tals d m total_pkt request)) = rate_lives d"
  "rate_lives (fst (rbdc_serve tals d m share remaining alloc)) = rate_lives d"
  "rate_lives (fst (rbdc_extra tals d remaining alloc)) = rate_lives d"
proof -
  show "rate_lives (fst (rbdc_requests tals d m total_pkt request)) = rate_lives d"
    by (induction tals d m total_pkt request rule: rbdc_requests.induct) (auto simp: Let_def split: option.splits)
  show "rate_lives (fst (rbdc_serve tals d m share remaining alloc)) = rate_lives d"
    by (induction tals d m share remaining alloc rule: rbdc_serve.induct)
      (auto simp: rate_lives_update Let_def split: option.splits)
  show "rate_lives (fst (rbdc_extra tals d remaining alloc)) = rate_lives d"
    by (induction tals d remaining alloc rule: rbdc_extra.induct)
      (auto simp: rate_lives_update Let_def split: option.splits)
qed

lemma rate_lives_rbdc: "rate_lives (compute_rbdc d) = rate_lives d"
proof -
  have "rate_lives (fst (rbdc_per_carrier d l i)) = rate_lives d" for d l i
    using rate_lives_rbdc_loops(1) [of "map term_tal_id (terminals_in_group d l i)" d "[]" 0 0]
    by (auto simp: rbdc_per_carrier_def Let_def split: prod.splits if_splits)
      (metis fst_conv rate_lives_rbdc_loops(2,3))+
  then have "rate_lives (rbdc_carriers slots d) = rate_lives d" for slots d
    by (induction slots d rule: rbdc_carriers.induct) simp_all
  then show ?thesis by (simp add: compute_rbdc_def)
qed

lemma rate_lives_vbdc: "rate_lives (compute_vbdc d) = rate_lives d"
proof -
  have loop: "rate_lives (fst (vbdc_loop tals d remaining request alloc)) = rate_lives d"
    for tals d remaining request alloc
    by (induction tals d remaining request alloc rule: vbdc_loop.induct)
      (auto simp: rate_lives_update Let_def split: option.splits)
  have rest: "rate_lives (fst (vbdc_rest tals d request)) = rate_lives d" for tals d request
    by (induction tals d request rule: vbdc_rest.induct) (auto split: option.splits)
  have "rate_lives (fst (vbdc_per_carrier d l i)) = rate_lives d" for d l i
    by (auto simp: vbdc_per_carrier_def Let_def split: prod.splits if_splits) (metis fst_conv loop rest)+
  then have "rate_lives (vbdc_carriers slots d) = rate_lives d" for slots d
    by (induction slots d rule: vbdc_carriers.induct) simp_all
  then show ?thesis by (simp add: compute_vbdc_def)
qed

lemma rate_lives_fca:
  assumes "compute_fca d = Some d'"
  shows "rate_lives d' = rate_lives d"
proof -
  have loop: "rate_lives (fst r) = rate_lives d" if "fca_loop tals d remaining alloc = Some r"
    for tals d remaining alloc r
    using that
  proof (induction rule: fca_loop.raw_induct [rotated 1, consumes 1, case_names step])
    case (step loop tals d remaining alloc r)
    from step(2) show ?case
      by (auto simp: rate_lives_update Let_def dest!: step(1) split: list.splits option.splits if_splits)
  qed
  have "rate_lives d1 = rate_lives d" if "fca_per_carrier d l i = Some (d1, a)" for d d1 l i a
    using that
    by (auto simp: fca_per_carrier_def Let_def dest!: loop split: if_splits option.splits prod.splits)
  note one = this
  have "fca_carriers slots d = Some d1 \<Longrightarrow> rate_lives d1 = rate_lives d" for slots d d1
  proof (induction slots d rule: fca_carriers.induct)
    case (2 l i slots d)
    then show ?case by (auto dest: one split: option.splits prod.splits)
  qed simp
  with assms show ?thesis by (auto simp: compute_fca_def split: if_splits)
qed

section \<open>The life of a rate request\<close>

lemma reset_loop_context:
  "map_of ts tal = Some t \<Longrightarrow>
   \<exists>cv'. map_of (fst (snd (reset_terminals_loop cv ts))) tal = Some (fst (snd (reset_terminal cv' t)))"
proof (induction cv ts rule: reset_terminals_loop.induct)
  case (1 cv)
  then show ?case by simp
next
  case (2 cv i t0 ts)
  obtain cv1 t1 ok1 where r: "reset_terminal cv t0 = (cv1, t1, ok1)" using prod_cases3 by blast
  obtain cv2 ts2 ok2 where l: "reset_terminals_loop cv1 ts = (cv2, ts2, ok2)" using prod_cases3 by blast
  have "fst (snd (reset_terminal cv t0)) = t1" by (simp add: r)
  moreover have "reset_terminals_loop cv ((i, t0) # ts) = (cv2, (i, t1) # ts2, ok1 \<and> ok2)"
    by (simp add: r l)
  ultimately show ?case
    using "2.IH" [OF r [symmetric] refl refl] "2.prems" l
    by (cases "tal = i") auto
qed

text \<open>When at most one superframe is left to the timer, the reset leaves the request alone,
  whatever the credit.\<close>

lemma reset_terminal_late:
  assumes "timer_sf t \<le> 1"
  shows "life_of (fst (snd (reset_terminal cv t))) = (rbdc_request_kbps t, 0)"
proof -
  have "timer_sf t = 0 \<or> timer_sf t = 1"
    using assms by (cases "timer_sf t = 0") (auto simp: word_le_nat_alt word_unat_eq_iff le_Suc_eq)
  then show ?thesis by (auto simp: reset_terminal_def Let_def life_of_def terminal_updates)
qed

definition at_most_one :: "dama_ctrl \<Rightarrow> tal_id \<Rightarrow> rate_kbps \<Rightarrow> bool" where
  "at_most_one d tal r \<longleftrightarrow> (\<exists>t. get_terminal_context d tal = Some t \<and> rbdc_request_kbps t = r \<and> timer_sf t \<le> 1)"

definition run_out :: "dama_ctrl \<Rightarrow> tal_id \<Rightarrow> rate_kbps \<Rightarrow> bool" where
  "run_out d tal r \<longleftrightarrow> (\<exists>t. get_terminal_context d tal = Some t \<and> rbdc_request_kbps t = r \<and> timer_sf t = 0)"

lemma run_out_eq: "rate_lives d' = rate_lives d \<Longrightarrow> run_out d tal r \<Longrightarrow> run_out d' tal r"
  by (auto simp: run_out_def life_of_def elim: rate_lives_eq)

lemma at_most_one_eq: "rate_lives d' = rate_lives d \<Longrightarrow> at_most_one d tal r \<Longrightarrow> at_most_one d' tal r"
  by (auto simp: at_most_one_def life_of_def elim: rate_lives_eq)

lemma reset_runs_out:
  assumes "at_most_one d tal r"
  shows "run_out (fst (reset_terminals_allocations d)) tal r \<and>
    enable_rbdc (fst (reset_terminals_allocations d)) = enable_rbdc d"
proof -
  from assms obtain t where t: "get_terminal_context d tal = Some t" "rbdc_request_kbps t = r" "timer_sf t \<le> 1"
    by (auto simp: at_most_one_def)
  from reset_loop_context [OF t(1) [unfolded get_terminal_context_def], of "converter d"] obtain cv where
    "get_terminal_context (fst (reset_terminals_allocations d)) tal = Some (fst (snd (reset_terminal cv t)))"
    by (auto simp: get_terminal_context_def reset_terminals_allocations_def case_prod_unfold Let_def)
  with reset_terminal_late [OF t(3), of cv] t(2) show ?thesis
    by (auto simp: run_out_def life_of_def reset_terminals_allocations_def case_prod_unfold Let_def)
qed

text \<open>The two halves of a superframe: until the rate requests are shared, and from there.\<close>

definition before_rates :: "dama_ctrl \<Rightarrow> time_sf \<Rightarrow> dama_ctrl \<times> bool" where
  "before_rates d sf =
     (let (d1, ok1) = reset_terminals_allocations
            (update_wave_forms (reset_carriers_capacity (d\<lparr>current_superframe := sf\<rparr>)))
      in if ok1 then compute_cra d1 else (d1, False))"

definition after_rates :: "dama_ctrl \<Rightarrow> dama_ctrl option" where
  "after_rates d = compute_fca (if enable_vbdc d then compute_vbdc d else d)"

lemma super_frame_halves:
  "run_on_super_frame_change d sf =
    (case before_rates d sf of
       (d2, ok) \<Rightarrow>
         if ok then map_option (\<lambda>d'. (d', False)) (after_rates (if enable_rbdc d2 then compute_rbdc d2 else d2))
         else Some (d2, False))"
  by (auto simp: run_on_super_frame_change_def compute_allocations_def before_rates_def after_rates_def Let_def
      split: prod.splits option.splits)

lemma before_rates_runs_out:
  assumes "at_most_one d tal r" "before_rates d sf = (d2, ok)"
  shows "run_out d2 tal r" "enable_rbdc d2 = enable_rbdc d"
proof -
  let ?d = "update_wave_forms (reset_carriers_capacity (d\<lparr>current_superframe := sf\<rparr>))"
  obtain d1 ok1 where r: "reset_terminals_allocations ?d = (d1, ok1)" by fastforce
  have l: "rate_lives ?d = rate_lives d" by simp
  from reset_runs_out [OF at_most_one_eq [OF l assms(1)]] l
  have d1: "run_out d1 tal r" "enable_rbdc d1 = enable_rbdc d" by (simp_all add: r rate_lives_def)
  from assms(2) have "d2 = d1 \<or> d2 = fst (compute_cra d1)"
    by (auto simp: before_rates_def r split: if_splits)
  then have "rate_lives d2 = rate_lives d1" using rate_lives_cra by auto
  with d1 show "run_out d2 tal r" "enable_rbdc d2 = enable_rbdc d"
    by (auto intro: run_out_eq) (simp_all add: rate_lives_def)
qed

lemma after_rates_lives: "after_rates d = Some d' \<Longrightarrow> rate_lives d' = rate_lives d"
  by (auto simp: after_rates_def dest!: rate_lives_fca split: if_splits) (simp_all add: rate_lives_vbdc)

lemma super_frame_runs_out:
  assumes "at_most_one d tal r" "run_on_super_frame_change d sf = Some (d', ok)"
  shows "run_out d' tal r \<and> enable_rbdc d' = enable_rbdc d"
proof -
  obtain d2 ok2 where b: "before_rates d sf = (d2, ok2)" by fastforce
  note d2 = before_rates_runs_out [OF assms(1) b]
  have "rate_lives d' = rate_lives d2"
  proof (cases ok2)
    case True
    with assms(2) have "after_rates (if enable_rbdc d2 then compute_rbdc d2 else d2) = Some d'"
      by (auto simp: super_frame_halves b)
    from after_rates_lives [OF this] show ?thesis by (simp add: rate_lives_rbdc)
  qed (use assms(2) in \<open>simp add: super_frame_halves b\<close>)
  then show ?thesis using d2 run_out_eq by (auto simp: rate_lives_def)
qed

lemma run_out_at_most_one: "run_out d tal r \<Longrightarrow> at_most_one d tal r"
  by (auto simp: run_out_def at_most_one_def)

fun superframes :: "time_sf list \<Rightarrow> dama_ctrl \<Rightarrow> dama_ctrl option" where
  "superframes [] d = Some d"
| "superframes (sf # sfs) d =
     (case run_on_super_frame_change d sf of None \<Rightarrow> None | Some (d', _) \<Rightarrow> superframes sfs d')"

lemma superframes_run_out:
  "superframes sfs d = Some d' \<Longrightarrow> at_most_one d tal r \<Longrightarrow>
   at_most_one d' tal r \<and> enable_rbdc d' = enable_rbdc d \<and> (sfs \<noteq> [] \<longrightarrow> run_out d' tal r)"
proof (induction sfs arbitrary: d)
  case (Cons sf sfs)
  from Cons.prems(1) obtain d1 ok where s: "run_on_super_frame_change d sf = Some (d1, ok)"
    "superframes sfs d1 = Some d'" by (auto split: option.splits)
  from super_frame_runs_out [OF Cons.prems(2) s(1)] have d1: "run_out d1 tal r" "enable_rbdc d1 = enable_rbdc d"
    by blast+
  with Cons.IH [OF s(2) run_out_at_most_one] s(2) show ?case by (cases sfs) auto
qed simp

text \<open>C35: A rate request outlives its timer.  Take a terminal whose timer is about to run out or has,
  and any number of superframes in which it sends nothing: carriers reset, wave forms updated,
  allocations computed.  The controller still holds the same request, with a timer of 0; and in the
  superframe that follows, when the stages before succeed, the capacity is shared among requests of
  which this one is as large as ever: nothing looks at the timer.\<close>

theorem rate_requests_never_expire:
  assumes "get_terminal_context d tal = Some t" "timer_sf t \<le> 1" "superframes sfs d = Some d'"
  shows "(\<exists>t'. get_terminal_context d' tal = Some t' \<and> rbdc_request_kbps t' = rbdc_request_kbps t \<and>
      (sfs \<noteq> [] \<longrightarrow> timer_sf t' = 0)) \<and>
    (\<forall>sf d2. before_rates d' sf = (d2, True) \<and> enable_rbdc d \<longrightarrow>
      run_on_super_frame_change d' sf = map_option (\<lambda>d3. (d3, False)) (after_rates (compute_rbdc d2)) \<and>
      demand rbdc_request_kbps d2 tal =
        (case served d2 tal of
           None \<Rightarrow> 0
         | Some (_, f) \<Rightarrow> rate_to_packets (converter (use_scheme f d2)) f (rbdc_request_kbps t)))"
proof -
  have "at_most_one d tal (rbdc_request_kbps t)" using assms(1,2) by (auto simp: at_most_one_def)
  note out = superframes_run_out [OF assms(3) this]
  have held: "\<exists>t'. get_terminal_context d' tal = Some t' \<and> rbdc_request_kbps t' = rbdc_request_kbps t \<and>
      (sfs \<noteq> [] \<longrightarrow> timer_sf t' = 0)"
    using out by (auto simp: run_out_def at_most_one_def)
  have "run_on_super_frame_change d' sf = map_option (\<lambda>d3. (d3, False)) (after_rates (compute_rbdc d2)) \<and>
      demand rbdc_request_kbps d2 tal =
        (case served d2 tal of
           None \<Rightarrow> 0
         | Some (_, f) \<Rightarrow> rate_to_packets (converter (use_scheme f d2)) f (rbdc_request_kbps t))"
    if b: "before_rates d' sf = (d2, True)" "enable_rbdc d" for sf d2
  proof -
    from before_rates_runs_out [OF conjunct1 [OF out] b(1)] obtain t2
      where t2: "get_terminal_context d2 tal = Some t2" "rbdc_request_kbps t2 = rbdc_request_kbps t"
      and e: "enable_rbdc d2" using out b(2) by (auto simp: run_out_def)
    have "demand rbdc_request_kbps d2 tal =
        (case served d2 tal of
           None \<Rightarrow> 0
         | Some (_, f) \<Rightarrow> rate_to_packets (converter (use_scheme f d2)) f (rbdc_request_kbps t))"
      using t2 by (auto simp: demand_def served_def split: option.splits)
    with e b(1) show ?thesis by (simp add: super_frame_halves)
  qed
  with held show ?thesis by blast
qed

text \<open>Without free capacity every superframe ends.\<close>

lemma super_frame_ends:
  assumes "fca_kbps d = 0"
  obtains d' ok where "run_on_super_frame_change d sf = Some (d', ok)" "fca_kbps d' = 0"
proof -
  let ?d = "update_wave_forms (reset_carriers_capacity (d\<lparr>current_superframe := sf\<rparr>))"
  obtain d2 ok2 where b: "before_rates d sf = (d2, ok2)" by fastforce
  have "fca_kbps (fst (reset_terminals_allocations ?d)) = fca_kbps ?d"
    by (simp add: reset_terminals_allocations_def case_prod_unfold Let_def)
  moreover have l: "rate_lives ?d = rate_lives d" by simp
  moreover have "d2 = fst (reset_terminals_allocations ?d) \<or>
      d2 = fst (compute_cra (fst (reset_terminals_allocations ?d)))"
    using b by (auto simp: before_rates_def split: prod.splits if_splits)
  moreover have "fca_kbps (fst (compute_cra e)) = fca_kbps e" for e
    using rate_lives_cra [of e] by (simp add: rate_lives_def)
  ultimately have f2: "fca_kbps d2 = 0" using assms by (auto simp: rate_lives_def)
  show ?thesis
  proof (cases ok2)
    case False
    then show ?thesis using that [of d2 False] f2 by (simp add: super_frame_halves b)
  next
    case True
    define d3 where "d3 = (if enable_rbdc d2 then compute_rbdc d2 else d2)"
    define d4 where "d4 = (if enable_vbdc d3 then compute_vbdc d3 else d3)"
    have "rate_lives d4 = rate_lives d2" by (simp add: d4_def d3_def rate_lives_rbdc rate_lives_vbdc)
    then have "fca_kbps d4 = 0" using f2 by (simp add: rate_lives_def)
    then have "after_rates d3 = Some d4" by (simp add: after_rates_def compute_fca_def flip: d4_def)
    then show ?thesis using that [of d4 False] True \<open>fca_kbps d4 = 0\<close>
      by (simp add: super_frame_halves b flip: d3_def)
  qed
qed

lemma superframes_end: "fca_kbps d = 0 \<Longrightarrow> \<exists>d'. superframes sfs d = Some d'"
proof (induction sfs arbitrary: d)
  case (Cons sf sfs)
  obtain d1 ok where "run_on_super_frame_change d sf = Some (d1, ok)" "fca_kbps d1 = 0"
    by (rule super_frame_ends [OF Cons.prems])
  with Cons.IH [of d1] show ?case by auto
qed simp

theorem rate_requests_never_expire_witness:
  "\<exists>d' t'. superframes [5, 6, 7]
      (example_ctrl [(example_terminal 1 100 300 20)\<lparr>timer_sf := 1\<rparr>, example_terminal 2 200 700 50] 40) = Some d' \<and>
    get_terminal_context d' 1 = Some t' \<and> rbdc_request_kbps t' = 300 \<and> timer_sf t' = 0"
proof -
  let ?t = "(example_terminal 1 100 300 20)\<lparr>timer_sf := 1\<rparr>"
  let ?d = "example_ctrl [?t, example_terminal 2 200 700 50] 40"
  have "fca_kbps ?d = 0" by (simp add: example_ctrl_def init_parent_def)
  then obtain d' where d': "superframes [5, 6, 7] ?d = Some d'" using superframes_end by blast
  have "get_terminal_context ?d 1 = Some ?t" by (simp add: get_terminal_context_def)
  from rate_requests_never_expire [OF this _ d'] d' show ?thesis by auto
qed

end
