(* ===== verification/Dama_System.thy ===== *)
theory Dama_System
  imports Dama_Superframe
begin

text \<open>
  The messages between a terminal and the controller: a request that a terminal writes in its SAC
  and the controller reads, and a time plan that the controller writes and a terminal reads.
\<close>

section \<open>From a SAC to the context of the terminal\<close>

lemma decoded_rbdc_request:
  assumes "v \<le> 16320"
  obtains r where "cr_type (decoded_request prio dama_rbdc v) = access_code dama_rbdc"
    "unat (ucast (cr_value (decoded_request prio dama_rbdc v)) :: u16) = r"
    "2 * r \<le> 2 * unat v + cr_step v" "2 * unat v \<le> 2 * r + cr_step v"
proof -
  obtain scale val where g: "get_scale_and_value (access_code dama_rbdc) v = (scale, val)" by fastforce
  from rbdc_scaling_bounds [OF assms] have
    "2 * unat (get_decoded_cr_value (access_code dama_rbdc) scale val) \<le> 2 * unat v + cr_step v"
    "2 * unat v \<le> 2 * unat (get_decoded_cr_value (access_code dama_rbdc) scale val) + cr_step v"
    by (simp_all only: g prod.case)
  moreover have "cr_value (decoded_request prio dama_rbdc v) =
      ucast (get_decoded_cr_value (access_code dama_rbdc) scale val)"
    "cr_type (decoded_request prio dama_rbdc v) = access_code dama_rbdc"
    using g by (simp_all add: decoded_request_def)
  ultimately show ?thesis using that by (simp add: ucast_u32_u16)
qed

definition clamped_request :: "terminal \<Rightarrow> nat \<Rightarrow> nat" where
  "clamped_request t r = min (r - unat (cra_request_kbps t)) (unat (max_rbdc_kbps t))"

lemma request_rbdc_context:
  fixes t :: terminal
  assumes "get_terminal_context d tal = Some t" "unat (ucast v :: u16) = r"
  shows "\<exists>t'. get_terminal_context (request_rbdc tal v d) tal = Some t' \<and>
    unat (rbdc_request_kbps t') = clamped_request t r \<and> timer_sf t' = rbdc_timeout t \<and>
    enable_rbdc (request_rbdc tal v d) \<and>
    (\<forall>x. x \<noteq> tal \<longrightarrow> get_terminal_context (request_rbdc tal v d) x = get_terminal_context d x)"
proof -
  let ?c = "unat (cra_request_kbps t)"
  have "max (int a - int b) 0 = int (a - b)" for a b by simp
  note this [of r ?c]
  moreover have "r - ?c < 2 ^ 16" using assms(2) unat_le_mask16 [of "ucast v"] by simp
  ultimately have "unat (word_of_int (max (int r - int ?c) 0) :: u16) = r - ?c"
    by (simp add: unat_of_nat take_bit_nat_eq_self)
  then show ?thesis
    using assms
    by (simp add: request_rbdc_def get_terminal_context_def update_terminal_def map_of_omap_update Let_def
        set_required_rbdc_def unat_min clamped_request_def del: of_nat_unat)
qed

lemma sac_rbdc_handled:
  assumes "get_requests sac = Some [decoded_request prio dama_rbdc v]" "sac_terminal_id sac = tal"
    and "get_terminal_context d tal = Some t" "v \<le> 16320"
  shows "\<exists>d' t' r. here_is_sac is_gw d sac = Some (d', True) \<and> get_terminal_context d' tal = Some t' \<and>
    2 * r \<le> 2 * unat v + cr_step v \<and> 2 * unat v \<le> 2 * r + cr_step v \<and>
    unat (rbdc_request_kbps t') = clamped_request t r \<and> timer_sf t' = rbdc_timeout t \<and>
    enable_rbdc d' \<and> (\<forall>x. x \<noteq> tal \<longrightarrow> get_terminal_context d' x = get_terminal_context d x)"
proof -
  obtain r where r: "cr_type (decoded_request prio dama_rbdc v) = access_code dama_rbdc"
    "unat (ucast (cr_value (decoded_request prio dama_rbdc v)) :: u16) = r"
    "2 * r \<le> 2 * unat v + cr_step v" "2 * unat v \<le> 2 * r + cr_step v"
    by (rule decoded_rbdc_request [OF assms(4)])
  let ?d' = "request_rbdc tal (cr_value (decoded_request prio dama_rbdc v)) d"
  have "here_is_sac is_gw d sac = Some (?d', True)"
    using assms(3) r(1) by (simp add: here_is_sac_def assms(1,2))
  with request_rbdc_context [OF assms(3) r(2)] r(3,4) show ?thesis by blast
qed

section \<open>From the allocations to the time plan of a terminal\<close>

definition plan_of :: "unit_converter \<Rightarrow> terminal \<Rightarrow> plan" where
  "plan_of cv t = (term_tal_id t, 0, terminal_allocation cv t, ucast (terminal_fmt_id t), 0)"

lemma add_plans_foldl:
  "foldl (\<lambda>m t. fst (add_time_plan m 0 (term_tal_id t) 0 (terminal_allocation cv t)
       (ucast (terminal_fmt_id t)) 0)) msg ts = add_plans msg 0 (map (plan_of cv) ts)"
  by (induction ts arbitrary: msg) (simp_all add: plan_of_def)

lemma build_ttp_plans:
  "build_ttp junk d msg = ttp_build junk (add_plans msg 0 (map (plan_of (converter d)) (listed_terminals d)))"
  by (simp add: build_ttp_def add_plans_foldl)

lemma listed_terminals_registered:
  assumes "registry_wf (registry d)"
  shows "t \<in> set (listed_terminals d) \<longleftrightarrow> get_terminal_context d (term_tal_id t) = Some t"
proof
  assume "t \<in> set (listed_terminals d)"
  then obtain x where "get_terminal_context d x = Some t"
    by (auto simp: listed_terminals_def map_filter_eq)
  with registry_wf_listed(1) [OF assms this] show "get_terminal_context d (term_tal_id t) = Some t" by simp
next
  let ?x = "term_tal_id t"
  assume t: "get_terminal_context d ?x = Some t"
  with registry_wf_listed(1) [OF assms t] obtain c where c: "map_of (categories d) (term_category t) = Some c"
    by blast
  from registry_wf_listed(2) [OF assms c, of ?x] t have "?x \<in> set (cat_terminals c)" by simp
  moreover have "(term_category t, c) \<in> set (categories d)" using c by (rule map_of_SomeD)
  ultimately show "t \<in> set (listed_terminals d)"
    using t unfolding listed_terminals_def map_filter_eq by force
qed

lemma find_member: "find P xs = Some x \<Longrightarrow> x \<in> set xs \<and> P x"
  by (induction xs) (auto split: if_splits)

lemma find_plan:
  assumes "registry_wf (registry d)"
  shows "find (\<lambda>p. fst p = tal) (rev (map (plan_of cv) (listed_terminals d))) =
    map_option (plan_of cv) (get_terminal_context d tal)"
proof (cases "get_terminal_context d tal")
  case None
  then have "term_tal_id t \<noteq> tal" if "t \<in> set (listed_terminals d)" for t
    using that listed_terminals_registered [OF assms] by force
  with None show ?thesis by (auto simp: find_None_iff plan_of_def)
next
  case (Some t)
  with registry_wf_listed(1) [OF assms Some] have mem: "t \<in> set (listed_terminals d)" "term_tal_id t = tal"
    using listed_terminals_registered [OF assms] by auto
  have same: "u = t" if "u \<in> set (listed_terminals d)" "term_tal_id u = tal" for u
    using that listed_terminals_registered [OF assms] Some by force
  let ?ps = "rev (map (plan_of cv) (listed_terminals d))"
  have "find (\<lambda>p. fst p = tal) ?ps \<noteq> None"
    using mem by (auto simp: find_None_iff plan_of_def)
  then obtain p where p: "find (\<lambda>p. fst p = tal) ?ps = Some p" by blast
  note find_member [OF p]
  then obtain u where "u \<in> set (listed_terminals d)" "p = plan_of cv u" "term_tal_id u = tal"
    by (auto simp: plan_of_def)
  with same p Some show ?thesis by simp
qed

end
