(* ===== verification/Net_Burst.thy ===== *)
theory Net_Burst
  imports Net_Packet
begin

text \<open>
  Bursts of packets (\<^verbatim>\<open>opensand-core/src/common/NetBurst.cpp\<close>): a list of packets with an
  optional maximum length, 0 meaning none.
\<close>

record net_burst =
  burst_packets :: "net_packet list"
  max_packets :: u32

definition new_burst :: "u32 \<Rightarrow> net_burst" where
  "new_burst mx = \<lparr>burst_packets = [], max_packets = mx\<rparr>"

definition set_max_packets :: "u32 \<Rightarrow> net_burst \<Rightarrow> net_burst" where
  "set_max_packets mx b = b\<lparr>max_packets := mx\<rparr>"

definition burst_length :: "net_burst \<Rightarrow> u32" where
  "burst_length b = of_nat (length (burst_packets b))"

definition burst_is_full :: "net_burst \<Rightarrow> bool" where
  "burst_is_full b \<longleftrightarrow> max_packets b \<noteq> 0 \<and> burst_length b \<ge> max_packets b"

text \<open>A null pointer is not added.\<close>

definition burst_add :: "net_packet option \<Rightarrow> net_burst \<Rightarrow> net_burst \<times> bool" where
  "burst_add packet b =
     (case packet of
        None \<Rightarrow> (b, False)
      | Some p \<Rightarrow>
          (if burst_is_full b then (b, False)
           else (b\<lparr>burst_packets := burst_packets b @ [p]\<rparr>, True)))"

definition burst_data :: "net_burst \<Rightarrow> bytes" where
  "burst_data b = concat (map cont_data (burst_packets b))"

definition burst_bytes :: "net_burst \<Rightarrow> nat" where
  "burst_bytes b = sum_list (map get_total_length (burst_packets b))"

definition burst_type :: "net_burst \<Rightarrow> u16" where
  "burst_type b = (case burst_packets b of [] \<Rightarrow> NET_PROTO_ERROR | p # _ \<Rightarrow> pkt_type p)"

definition burst_name :: "net_burst \<Rightarrow> string" where
  "burst_name b = (case burst_packets b of [] \<Rightarrow> ''unknown'' | p # _ \<Rightarrow> cont_name p)"

text \<open>The packets of a burst are those added, in order, up to its maximum.\<close>

lemma burst_bytes_data: "burst_bytes b = length (burst_data b)"
  by (simp add: burst_bytes_def burst_data_def length_concat get_total_length_def [abs_def] comp_def)

lemma add_all_unlimited:
  "max_packets b = 0 \<Longrightarrow>
   foldl (\<lambda>b p. fst (burst_add (Some p) b)) b ps = b\<lparr>burst_packets := burst_packets b @ ps\<rparr>"
  by (induction ps arbitrary: b) (simp_all add: burst_add_def burst_is_full_def)

lemma add_all_limited:
  assumes "0 < unat (max_packets b)" "length (burst_packets b) \<le> unat (max_packets b)"
  shows "burst_packets (foldl (\<lambda>b p. fst (burst_add (Some p) b)) b ps) =
    take (unat (max_packets b)) (burst_packets b @ ps)"
  using assms
proof (induction ps arbitrary: b)
  case (Cons p ps)
  have mx: "max_packets b \<noteq> 0" using Cons.prems(1) by auto
  have "unat (max_packets b) < 2 ^ 32" using unsigned_less [of "max_packets b", where ?'a = nat] by simp
  with Cons.prems(2) have "unat (of_nat (length (burst_packets b)) :: u32) = length (burst_packets b)"
    by (simp add: unsigned_of_nat take_bit_nat_eq_self)
  then have full: "burst_is_full b \<longleftrightarrow> length (burst_packets b) = unat (max_packets b)"
    using mx Cons.prems(2) by (auto simp: burst_is_full_def burst_length_def word_le_nat_alt)
  show ?case
  proof (cases "burst_is_full b")
    case True
    then have "fst (burst_add (Some p) b) = b" by (simp add: burst_add_def)
    with Cons.IH [OF Cons.prems] True full show ?thesis by simp
  next
    case False
    let ?b = "b\<lparr>burst_packets := burst_packets b @ [p]\<rparr>"
    have b: "fst (burst_add (Some p) b) = ?b" using False by (simp add: burst_add_def)
    have "length (burst_packets ?b) \<le> unat (max_packets ?b)" using False full Cons.prems(2) by simp
    with Cons.IH [of ?b] Cons.prems(1) show ?thesis by (simp only: foldl_Cons b) simp
  qed
qed simp

end
