(* ===== verification/Encap.thy ===== *)
theory Encap
  imports Net_Burst Dvb_Fifo
begin

text \<open>
  The interface of the encapsulation schemes (\<^verbatim>\<open>opensand-core/src/common/EncapPlugin.cpp\<close>).  A
  scheme cuts a packet for the room left in a frame (\<^verbatim>\<open>getChunk\<close>), knows the length of the packet
  that starts a byte string and builds packets from bytes; these three are arguments, provided by the
  plugins.  The schedulers call \<^verbatim>\<open>encapNextPacket\<close>, which a plugin may replace by one that keeps a
  state between calls: it is an argument of the schedulers, with its state.
\<close>

type_synonym pkt_more = "unit net_packet_ext"
type_synonym pkt_fifo = "pkt_more dvb_fifo"
type_synonym pkt_elem = "pkt_more fifo_elem"
type_synonym pkt_fifos = "(qos \<times> pkt_fifo) list"

type_synonym chunker = "net_packet \<Rightarrow> nat \<Rightarrow> bool \<times> net_packet option \<times> net_packet option"

type_synonym 'h encapsulate =
  "'h \<Rightarrow> net_packet \<Rightarrow> nat \<Rightarrow> bool \<Rightarrow> 'h \<times> bool \<times> net_packet option \<times> net_packet option"

section \<open>Cutting and reading packets\<close>

definition encap_next_packet :: "chunker \<Rightarrow> unit encapsulate" where
  "encap_next_packet chunk h packet remaining_length first =
     (let (success, encap_packet, remaining_data) = chunk packet remaining_length
      in (h, success \<and> (encap_packet \<noteq> None \<or> remaining_data \<noteq> None), encap_packet, remaining_data))"

text \<open>The first byte of the rest is at least the terminating null of its string.\<close>

fun decap_loop ::
  "(bytes \<Rightarrow> nat) \<Rightarrow> (bytes \<Rightarrow> nat \<Rightarrow> net_packet) \<Rightarrow> 'a net_container_scheme \<Rightarrow> nat \<Rightarrow> nat \<Rightarrow>
   net_packet list \<Rightarrow> (bool \<times> net_packet list) option" where
  "decap_loop len build packet 0 previous packets = Some (True, packets)"
| "decap_loop len build packet (Suc n) previous packets = do {
     payload \<leftarrow> get_payload_from packet previous;
     let cur = len payload;
     (if cur = 0 then Some (False, [])
      else decap_loop len build packet n (previous + cur) (packets @ [build payload cur])) }"

definition get_encapsulated_packets ::
  "(bytes \<Rightarrow> nat) \<Rightarrow> (bytes \<Rightarrow> nat \<Rightarrow> net_packet) \<Rightarrow> 'a net_container_scheme \<Rightarrow> nat \<Rightarrow>
   (bool \<times> net_packet list) option" where
  "get_encapsulated_packets len build packet cnt = decap_loop len build packet cnt 0 []"

section \<open>What the schedulers rely on\<close>

text \<open>Data that is produced fits the room it was asked for and is not empty.\<close>

definition handler_fits :: "'h encapsulate \<Rightarrow> bool" where
  "handler_fits enc \<longleftrightarrow> (\<forall>h p n new h' data rest. enc h p n new = (h', True, Some data, rest) \<longrightarrow>
     0 < length (cont_data data) \<and> length (cont_data data) \<le> n)"

text \<open>A scheme that cuts a packet anywhere, for the examples.\<close>

definition cut_anywhere :: chunker where
  "cut_anywhere p n =
     (if cont_data p = [] then (False, None, None)
      else if n = 0 then (True, None, Some p)
      else if length (cont_data p) \<le> n then (True, Some p, None)
      else (True, Some (p\<lparr>cont_data := take n (cont_data p)\<rparr>), Some (p\<lparr>cont_data := drop n (cont_data p)\<rparr>)))"

lemma cut_anywhere_ok: "handler_fits (encap_next_packet cut_anywhere)"
  by (auto simp: handler_fits_def encap_next_packet_def cut_anywhere_def Let_def
      split: if_splits)

end
