(* ===== verification/Return_Schedule.thy ===== *)
theory Return_Schedule
  imports Encap Dvb_Frame
begin

text \<open>
  The scheduling of the return link (\<^verbatim>\<open>opensand-core/src/dvb/dama/ReturnSchedulingRcs2.cpp\<close>): the
  packets of the MAC FIFOs are cut and put in DVB-RCS frames within the allocation of the terminal.
  The loop of \<^verbatim>\<open>macSchedule\<close> is a state machine; \<open>mac_step\<close> is its body, with the states of the
  source, and \<open>mac_run\<close> the loop.  The counters of packets and frames that only feed the log are left
  out.
\<close>

datatype sched_state =
  State_next_fifo | State_get_fifo | State_next_encap_pkt | State_get_chunk | State_add_data
  | State_finalize_frame | State_end | State_error

text \<open>The local variables of the loop; \<open>ms_frame\<close> is the incomplete frame, \<open>ms_fifo\<close> the position of
  the iterator over the FIFOs.\<close>

record 'h mac_sched =
  ms_state :: sched_state
  ms_fifos :: pkt_fifos
  ms_fifo :: nat
  ms_frame :: "dvb_frame option"
  ms_frame_length_b :: vol_b
  ms_complete :: "dvb_frame list"
  ms_remaining_b :: vol_b
  ms_elem :: "pkt_elem option"
  ms_packet :: "net_packet option"
  ms_data :: "net_packet option"
  ms_handler :: 'h

section \<open>Frames\<close>

definition allocate_rcs_frame :: "vol_b \<Rightarrow> dvb_frame option" where
  "allocate_rcs_frame max_burst_length_b =
     (let length_bytes = drop_bit 3 max_burst_length_b
      in if length_bytes = 0 then None
         else
           (let f = new_rcs_frame;
                n = unat (length_bytes + of_nat (header_length f))
            in Some (set_max_frame_size (if MSG_DVB_RCS_SIZE_MAX < n then MSG_DVB_RCS_SIZE_MAX else n) f)))"

text \<open>\<^verbatim>\<open>(vol_b_t)std::max((int)(remaining - frame_length), 0)\<close>\<close>

definition less_frame :: "vol_b \<Rightarrow> vol_b \<Rightarrow> vol_b" where
  "less_frame remaining frame_length = word_of_int (max (sint (remaining - frame_length)) 0)"

section \<open>The states\<close>

definition current_fifo :: "'h mac_sched \<Rightarrow> pkt_fifo option" where
  "current_fifo m = (if ms_fifo m < length (ms_fifos m) then Some (snd (ms_fifos m ! ms_fifo m)) else None)"

definition set_fifo :: "pkt_fifo \<Rightarrow> 'h mac_sched \<Rightarrow> 'h mac_sched" where
  "set_fifo f m = m\<lparr>ms_fifos := (ms_fifos m)[ms_fifo m := (fst (ms_fifos m ! ms_fifo m), f)]\<rparr>"

definition step_get_fifo :: "'h mac_sched \<Rightarrow> 'h mac_sched" where
  "step_get_fifo m =
     (case current_fifo m of
        None \<Rightarrow> m\<lparr>ms_state := State_end\<rparr>
      | Some f \<Rightarrow>
          (if access_eq (fifo_access f) (Return_access saloha) then m\<lparr>ms_state := State_next_fifo\<rparr>
           else m\<lparr>ms_state := State_next_encap_pkt\<rparr>))"

definition step_next_packet :: "'h mac_sched \<Rightarrow> 'h mac_sched option" where
  "step_next_packet m = do {
     f \<leftarrow> current_fifo m;
     (if get_current_size f \<le> 0 then Some (m\<lparr>ms_state := State_next_fifo\<rparr>)
      else
        (let (f', e) = pop f in
         (case e of
            None \<Rightarrow> None
          | Some elem \<Rightarrow>
              Some ((set_fifo f' m)\<lparr>ms_elem := Some elem, ms_packet := Some (fe_elem elem),
                 ms_state := State_get_chunk\<rparr>)))) }"

definition step_get_chunk :: "'h encapsulate \<Rightarrow> 'h mac_sched \<Rightarrow> 'h mac_sched option" where
  "step_get_chunk enc m = do {
     p \<leftarrow> ms_packet m;
     frame \<leftarrow> ms_frame m;
     elem \<leftarrow> ms_elem m;
     f \<leftarrow> current_fifo m;
     let (h, ret, data, remaining) = enc (ms_handler m) p (get_free_space frame) (num_packets frame = 0);
     let m1 = m\<lparr>ms_handler := h, ms_packet := None\<rparr>;
     (if \<not> ret then Some (m1\<lparr>ms_elem := None, ms_state := State_next_encap_pkt\<rparr>)
      else
        (let m2 = m1\<lparr>ms_data := data, ms_elem := None,
                ms_state := (if data \<noteq> None then State_add_data else State_finalize_frame)\<rparr>
         in case remaining of
              None \<Rightarrow> Some m2
            | Some r \<Rightarrow> Some (set_fifo (fst (push_front f (set_elem elem r))) m2))) }"

definition step_add_data :: "'h mac_sched \<Rightarrow> 'h mac_sched option" where
  "step_add_data m = do {
     data \<leftarrow> ms_data m;
     frame \<leftarrow> ms_frame m;
     let (frame', ok) = rcs_add_packet frame (cont_data data);
     (if \<not> ok then Some (m\<lparr>ms_frame := Some frame', ms_state := State_error\<rparr>)
      else
        (let n = ms_frame_length_b m + push_bit 3 (of_nat (get_total_length data));
             m' = m\<lparr>ms_frame := Some frame', ms_frame_length_b := n\<rparr>
         in if get_free_space frame' \<le> 0 \<or> ms_remaining_b m \<le> n
            then Some (m'\<lparr>ms_state := State_finalize_frame\<rparr>)
            else Some (m'\<lparr>ms_state := State_next_encap_pkt\<rparr>))) }"

definition step_finalize :: "vol_b \<Rightarrow> 'h mac_sched \<Rightarrow> 'h mac_sched option" where
  "step_finalize max_burst m = do {
     frame \<leftarrow> ms_frame m;
     (if rcs_num_packets frame \<le> 0 then Some (m\<lparr>ms_frame_length_b := 0, ms_state := State_error\<rparr>)
      else
        (let m' = m\<lparr>ms_complete := ms_complete m @ [frame],
                    ms_remaining_b := less_frame (ms_remaining_b m) (ms_frame_length_b m)\<rparr>
         in if ms_remaining_b m' \<le> 0 then Some (m'\<lparr>ms_frame := None, ms_state := State_end\<rparr>)
            else
              (case allocate_rcs_frame max_burst of
                 None \<Rightarrow> Some (m'\<lparr>ms_frame := None, ms_state := State_error\<rparr>)
               | Some g \<Rightarrow> Some (m'\<lparr>ms_frame := Some g, ms_frame_length_b := 0,
                               ms_state := State_next_encap_pkt\<rparr>)))) }"

definition mac_step :: "'h encapsulate \<Rightarrow> vol_b \<Rightarrow> 'h mac_sched \<Rightarrow> 'h mac_sched option" where
  "mac_step enc max_burst m =
     (case ms_state m of
        State_next_fifo \<Rightarrow> Some (m\<lparr>ms_fifo := ms_fifo m + 1, ms_state := State_get_fifo\<rparr>)
      | State_get_fifo \<Rightarrow> Some (step_get_fifo m)
      | State_next_encap_pkt \<Rightarrow> step_next_packet m
      | State_get_chunk \<Rightarrow> step_get_chunk enc m
      | State_add_data \<Rightarrow> step_add_data m
      | State_finalize_frame \<Rightarrow> step_finalize max_burst m
      | _ \<Rightarrow> Some (m\<lparr>ms_state := State_error\<rparr>))"

partial_function (option) mac_run :: "'h encapsulate \<Rightarrow> vol_b \<Rightarrow> 'h mac_sched \<Rightarrow> 'h mac_sched option" where
  "mac_run enc max_burst m =
     (if ms_state m = State_end \<or> ms_state m = State_error then Some m
      else
        (case mac_step enc max_burst m of
           None \<Rightarrow> None
         | Some m' \<Rightarrow> mac_run enc max_burst m'))"

section \<open>The scheduler\<close>

text \<open>The result: whether it succeeded, the FIFOs, the complete frames, the remaining allocation and
  the state of the encapsulation.\<close>

definition finish_schedule :: "'h mac_sched \<Rightarrow> 'h mac_sched \<times> bool" where
  "finish_schedule m =
     (if ms_state m = State_error then (m\<lparr>ms_frame := None\<rparr>, False)
      else
        (case ms_frame m of
           Some frame \<Rightarrow>
             (if 0 < rcs_num_packets frame
              then (m\<lparr>ms_complete := ms_complete m @ [frame],
                      ms_remaining_b := less_frame (ms_remaining_b m) (ms_frame_length_b m)\<rparr>, True)
              else (m\<lparr>ms_frame := None\<rparr>, True))
         | None \<Rightarrow> (m, True)))"

definition start_schedule :: "pkt_fifos \<Rightarrow> dvb_frame list \<Rightarrow> vol_b \<Rightarrow> 'h \<Rightarrow> dvb_frame option \<Rightarrow> 'h mac_sched" where
  "start_schedule fifos frames remaining h frame =
     \<lparr>ms_state = State_get_fifo, ms_fifos = fifos, ms_fifo = 0, ms_frame = frame,
      ms_frame_length_b = 0, ms_complete = frames, ms_remaining_b = remaining, ms_elem = None,
      ms_packet = None, ms_data = None, ms_handler = h\<rparr>"

definition mac_schedule ::
  "'h encapsulate \<Rightarrow> vol_b \<Rightarrow> pkt_fifos \<Rightarrow> dvb_frame list \<Rightarrow> vol_b \<Rightarrow> 'h \<Rightarrow> ('h mac_sched \<times> bool) option" where
  "mac_schedule enc max_burst fifos frames remaining h =
     (case allocate_rcs_frame max_burst of
        None \<Rightarrow> Some (start_schedule fifos frames remaining h None, False)
      | Some frame \<Rightarrow>
          map_option finish_schedule
            (mac_run enc max_burst (start_schedule fifos frames remaining h (Some frame))))"

definition return_schedule ::
  "'h encapsulate \<Rightarrow> vol_b \<Rightarrow> pkt_fifos \<Rightarrow> dvb_frame list \<Rightarrow> vol_b \<Rightarrow> 'h \<Rightarrow> ('h mac_sched \<times> bool) option" where
  "return_schedule enc max_burst fifos frames remaining h =
     (if max_burst \<le> 0 then Some (start_schedule fifos frames remaining h None, True)
      else mac_schedule enc max_burst fifos frames remaining h)"

section \<open>Invariant of the loop\<close>

definition burst_bytes_of :: "vol_b \<Rightarrow> nat" where
  "burst_bytes_of max_burst = unat (drop_bit 3 max_burst :: vol_b)"

definition payload_bits :: "dvb_frame \<Rightarrow> nat" where
  "payload_bits f = 8 * (length (cont_data f) - 6)"

text \<open>A frame under construction: its packets are not empty, so their number does not wrap.\<close>

definition frame_ok :: "vol_b \<Rightarrow> dvb_frame \<Rightarrow> bool" where
  "frame_ok max_burst f \<longleftrightarrow> burst_wf 6 f \<and> max_size f \<le> min MSG_DVB_RCS_SIZE_MAX (6 + burst_bytes_of max_burst) \<and>
     unat (num_packets f) \<le> length (cont_data f) - 6 \<and>
     (num_packets f = 0 \<longrightarrow> length (cont_data f) = 6)"

lemma rcs_num_packets_ok: "burst_wf 6 f \<Longrightarrow> rcs_num_packets f = num_packets f"
  by (simp add: burst_wf_def rcs_num_packets_def)

lemma new_rcs_frame_fields: "length (cont_data new_rcs_frame) = 6" "num_packets new_rcs_frame = 0"
  "header_length new_rcs_frame = 6"
  by (simp_all add: new_rcs_frame_def frame_defs)

lemma allocated_frame:
  assumes "allocate_rcs_frame b = Some f"
  shows "frame_ok b f \<and> num_packets f = 0 \<and> length (cont_data f) = 6"
proof -
  let ?n = "unat (drop_bit 3 b + 6 :: u32)"
  have "unat (drop_bit 3 b :: u32) < 2 ^ 29"
    using unsigned_less [of b, where ?'a = nat]
    by (simp add: drop_bit_eq_div unat_div_distrib less_mult_imp_div_less)
  then have n: "?n = burst_bytes_of b + 6" by (simp add: burst_bytes_of_def unat_word_ariths)
  from assms have b: "0 < burst_bytes_of b"
    by (auto simp: allocate_rcs_frame_def burst_bytes_of_def Let_def unat_gt_0 split: if_splits)
  from assms have f: "f = set_max_frame_size (if MSG_DVB_RCS_SIZE_MAX < ?n then MSG_DVB_RCS_SIZE_MAX else ?n) new_rcs_frame"
    by (auto simp: allocate_rcs_frame_def Let_def new_rcs_frame_fields split: if_splits)
  with new_rcs_frame_wf n b show ?thesis
    by (auto simp: frame_ok_def burst_wf_def set_max_frame_size_def get_message_length_def
        new_rcs_frame_fields MSG_DVB_RCS_SIZE_MAX_def)
qed

lemma frame_ok_add:
  assumes "frame_ok b f" "0 < length p" "length p \<le> get_free_space f"
  shows "snd (rcs_add_packet f p) \<and> frame_ok b (fst (rcs_add_packet f p)) \<and>
    num_packets (fst (rcs_add_packet f p)) \<noteq> 0 \<and>
    length (cont_data (fst (rcs_add_packet f p))) = length (cont_data f) + length p \<and>
    drop 6 (cont_data (fst (rcs_add_packet f p))) = drop 6 (cont_data f) @ p"
proof -
  let ?g = "fst (rcs_add_packet f p)"
  from assms(1) have f: "burst_wf 6 f" "max_size f \<le> MSG_DVB_RCS_SIZE_MAX"
    "max_size f \<le> 6 + burst_bytes_of b" "unat (num_packets f) \<le> length (cont_data f) - 6"
    by (simp_all add: frame_ok_def)
  then have l: "6 \<le> length (cont_data f)" "length (cont_data f) \<le> max_size f" by (simp_all add: burst_wf_def)
  from rcs_add_fits [OF f(1), of p] assms(3) free_space_burst [OF f(1)] have g: "snd (rcs_add_packet f p)"
    "burst_wf 6 ?g" "drop 6 (cont_data ?g) = drop 6 (cont_data f) @ p" "num_packets ?g = num_packets f + 1"
    by simp_all
  have m: "max_size ?g = max_size f"
    by (simp add: rcs_add_packet_def add_packet_def Let_def split: prod.split)
  have "length (cont_data ?g) - 6 = length (cont_data f) - 6 + length p"
    using arg_cong [OF g(3), of length] by simp
  moreover have "6 \<le> length (cont_data ?g)" using g(2) by (simp add: burst_wf_def)
  ultimately have len: "length (cont_data ?g) = length (cont_data f) + length p" using l(1) by simp
  have "unat (num_packets f) < 2 ^ 16 - 1" using f(2,4) l by (simp add: MSG_DVB_RCS_SIZE_MAX_def)
  then have n: "unat (num_packets f + 1) = unat (num_packets f) + 1" by (simp add: unat_word_ariths)
  then have "num_packets f + 1 \<noteq> 0" by auto
  moreover have "1 \<le> length p" using assms(2) by linarith
  ultimately show ?thesis using g f m len n l by (simp add: frame_ok_def)
qed

text \<open>Every state but the last two has a frame, and what the previous states have put in the local
  variables; \<open>frame_kept\<close>: once something is in the frame, the allocation is larger.  The frames
  completed so far took their bits from the allocation, all but perhaps the last frame.\<close>

definition frame_kept :: "vol_b \<Rightarrow> 'h mac_sched \<Rightarrow> dvb_frame \<Rightarrow> bool" where
  "frame_kept b m f \<longleftrightarrow> ms_frame m = Some f \<and> frame_ok b f \<and>
     unat (ms_frame_length_b m) = payload_bits f \<and>
     (ms_state m \<noteq> State_finalize_frame \<longrightarrow> payload_bits f = 0 \<or> ms_frame_length_b m < ms_remaining_b m)"

definition state_ok :: "'h mac_sched \<Rightarrow> dvb_frame \<Rightarrow> bool" where
  "state_ok m f \<longleftrightarrow>
     (ms_state m = State_get_fifo \<or> ms_state m = State_end \<or> ms_fifo m < length (ms_fifos m)) \<and>
     (ms_state m = State_get_chunk \<longrightarrow> ms_elem m \<noteq> None \<and> ms_packet m \<noteq> None) \<and>
     (ms_state m = State_add_data \<longrightarrow> (\<exists>d. ms_data m = Some d \<and> 0 < length (cont_data d) \<and>
        length (cont_data d) \<le> get_free_space f))"

definition bits_of :: "dvb_frame list \<Rightarrow> nat" where
  "bits_of fs = sum_list (map payload_bits fs)"

definition sent_ok :: "vol_b \<Rightarrow> dvb_frame list \<Rightarrow> vol_b \<Rightarrow> 'h mac_sched \<Rightarrow> bool" where
  "sent_ok b fs rem m \<longleftrightarrow> (\<exists>new. ms_complete m = fs @ new \<and>
     (\<forall>f \<in> set new. frame_ok b f \<and> 0 < payload_bits f) \<and>
     (if ms_frame m = None \<and> ms_state m = State_end
      then ms_remaining_b m = 0 \<and> unat rem \<le> bits_of new \<and> bits_of new \<le> unat rem + 8 * burst_bytes_of b
      else bits_of new + unat (ms_remaining_b m) = unat rem))"

definition mac_ok :: "vol_b \<Rightarrow> dvb_frame list \<Rightarrow> vol_b \<Rightarrow> 'h mac_sched \<Rightarrow> bool" where
  "mac_ok b fs rem m \<longleftrightarrow> sent_ok b fs rem m \<and>
     (ms_state m = State_error \<or> (ms_state m = State_end \<and> ms_frame m = None) \<or>
      (\<exists>f. frame_kept b m f \<and> state_ok m f))"

text \<open>The measures that decrease, in this order: the bits left in the allocation, the packets in the
  FIFOs and in hand, whether the frame has data, and the place in the cycle of the states.\<close>

definition bits_left :: "'h mac_sched \<Rightarrow> nat" where
  "bits_left m = unat (ms_remaining_b m) + 1 - unat (ms_frame_length_b m)"

definition packets_left :: "'h mac_sched \<Rightarrow> nat" where
  "packets_left m = sum_list (map (\<lambda>(_, f). length (queue f)) (ms_fifos m)) +
     (case ms_elem m of None \<Rightarrow> 0 | Some _ \<Rightarrow> 1)"

definition frame_started :: "'h mac_sched \<Rightarrow> nat" where
  "frame_started m = (case ms_frame m of None \<Rightarrow> 0 | Some f \<Rightarrow> (if payload_bits f = 0 then 0 else 1))"

definition state_rank :: "'h mac_sched \<Rightarrow> nat" where
  "state_rank m = 10 * (length (ms_fifos m) - ms_fifo m) +
     (case ms_state m of State_get_fifo \<Rightarrow> 9 | State_next_encap_pkt \<Rightarrow> 8 | State_get_chunk \<Rightarrow> 7
      | State_add_data \<Rightarrow> 6 | State_finalize_frame \<Rightarrow> 5 | State_next_fifo \<Rightarrow> 1 | _ \<Rightarrow> 0)"

definition mac_order :: "('h mac_sched \<times> 'h mac_sched) set" where
  "mac_order = measures [bits_left, packets_left, frame_started, state_rank]"

lemma payload_bound:
  assumes "frame_ok b f"
  shows "payload_bits f \<le> 8 * burst_bytes_of b" "payload_bits f \<le> 8 * 1198"
  using assms by (auto simp: frame_ok_def burst_wf_def payload_bits_def MSG_DVB_RCS_SIZE_MAX_def)

lemma payload_zero: "frame_ok b f \<Longrightarrow> payload_bits f = 0 \<longleftrightarrow> rcs_num_packets f = 0"
  by (auto simp: frame_ok_def rcs_num_packets_ok payload_bits_def burst_wf_def unat_eq_0[symmetric])

lemma unat_less_frame:
  assumes "unat r < 2 ^ 31" "unat l < 2 ^ 31"
  shows "unat (less_frame r l) = unat r - unat l"
proof -
  have b: "uint r < 2 ^ 31" "uint l < 2 ^ 31"
    using assms [THEN of_nat_less_iff [where 'a = int, THEN iffD2]] by simp_all
  have d: "r - l = word_of_int (int (unat r) - int (unat l))" by simp
  have "sint (r - l) = int (unat r) - int (unat l)"
    unfolding d sint_sbintrunc'
    using b unsigned_greater_eq [where 'a = int, of r] unsigned_greater_eq [where 'a = int, of l]
    by (intro signed_take_bit_int_eq_self; simp; linarith)
  moreover have "max (int (unat r) - int (unat l)) 0 = int (unat r - unat l)" by linarith
  ultimately have "less_frame r l = of_nat (unat r - unat l)" by (simp only: less_frame_def of_int_of_nat_eq)
  then show ?thesis using assms by (simp add: unat_of_nat take_bit_nat_eq_self)
qed

lemma set_fifo_simps [simp]:
  "ms_state (set_fifo f m) = ms_state m" "ms_fifo (set_fifo f m) = ms_fifo m"
  "ms_frame (set_fifo f m) = ms_frame m" "ms_frame_length_b (set_fifo f m) = ms_frame_length_b m"
  "ms_complete (set_fifo f m) = ms_complete m" "ms_remaining_b (set_fifo f m) = ms_remaining_b m"
  "ms_elem (set_fifo f m) = ms_elem m" "ms_packet (set_fifo f m) = ms_packet m"
  "ms_data (set_fifo f m) = ms_data m" "length (ms_fifos (set_fifo f m)) = length (ms_fifos m)"
  by (simp_all add: set_fifo_def)

lemma packets_set_fifo:
  assumes "ms_fifo m < length (ms_fifos m)"
  shows "packets_left (set_fifo f m) + length (queue (snd (ms_fifos m ! ms_fifo m))) =
    packets_left m + length (queue f)"
proof -
  let ?h = "\<lambda>(_ :: qos, f :: pkt_fifo). length (queue f)"
  have "sum_list (map ?h ((ms_fifos m)[ms_fifo m := (fst (ms_fifos m ! ms_fifo m), f)])) +
      ?h (ms_fifos m ! ms_fifo m) = sum_list (map ?h (ms_fifos m)) + length (queue f)"
    using assms
    by (simp add: map_update sum_list_update elem_le_sum_list)
      (metis (no_types, lifting) add.commute elem_le_sum_list le_add_diff_inverse length_map nth_map trans_le_add1)
  then show ?thesis by (simp add: packets_left_def set_fifo_def case_prod_unfold)
qed

definition final_state :: "'h mac_sched \<Rightarrow> bool" where
  "final_state m \<longleftrightarrow> ms_state m = State_end \<or> ms_state m = State_error"

lemma in_mac_order:
  "bits_left m' < bits_left m \<Longrightarrow> (m', m) \<in> mac_order"
  "bits_left m' \<le> bits_left m \<Longrightarrow> packets_left m' < packets_left m \<Longrightarrow> (m', m) \<in> mac_order"
  "bits_left m' \<le> bits_left m \<Longrightarrow> packets_left m' \<le> packets_left m \<Longrightarrow>
     frame_started m' < frame_started m \<Longrightarrow> (m', m) \<in> mac_order"
  "bits_left m' \<le> bits_left m \<Longrightarrow> packets_left m' \<le> packets_left m \<Longrightarrow>
     frame_started m' \<le> frame_started m \<Longrightarrow> state_rank m' < state_rank m \<Longrightarrow> (m', m) \<in> mac_order"
  by (auto simp: mac_order_def)

lemma sent_ok_cong:
  "sent_ok b fs rem m \<Longrightarrow> ms_complete m' = ms_complete m \<Longrightarrow> ms_remaining_b m' = ms_remaining_b m \<Longrightarrow>
   ms_frame m \<noteq> None \<Longrightarrow> ms_frame m' \<noteq> None \<Longrightarrow> sent_ok b fs rem m'"
  by (auto simp: sent_ok_def)

lemma step_next_fifo_ok:
  assumes "mac_ok b fs rem m" "ms_state m = State_next_fifo"
  shows "\<exists>m'. mac_step enc b m = Some m' \<and> mac_ok b fs rem m' \<and> (m', m) \<in> mac_order"
proof -
  let ?m = "m\<lparr>ms_fifo := ms_fifo m + 1, ms_state := State_get_fifo\<rparr>"
  from assms obtain f where f: "frame_kept b m f" "state_ok m f" by (auto simp: mac_ok_def)
  have "mac_ok b fs rem ?m"
    using assms f by (auto simp: mac_ok_def frame_kept_def state_ok_def intro: sent_ok_cong)
  moreover have "(?m, m) \<in> mac_order"
    using f(2) assms(2) by (intro in_mac_order(4))
      (auto simp: bits_left_def packets_left_def frame_started_def state_rank_def state_ok_def)
  ultimately show ?thesis using assms(2) by (simp add: mac_step_def)
qed

lemma step_get_fifo_ok:
  assumes "mac_ok b fs rem m" "ms_state m = State_get_fifo"
  shows "\<exists>m'. mac_step enc b m = Some m' \<and> mac_ok b fs rem m' \<and> (m', m) \<in> mac_order"
proof -
  let ?m = "step_get_fifo m"
  from assms obtain f where f: "frame_kept b m f" "state_ok m f" by (auto simp: mac_ok_def)
  define s where "s = (case current_fifo m of None \<Rightarrow> State_end
    | Some f \<Rightarrow> if access_eq (fifo_access f) (Return_access saloha) then State_next_fifo
                else State_next_encap_pkt)"
  have s: "?m = m\<lparr>ms_state := s\<rparr>" "s \<in> {State_end, State_next_fifo, State_next_encap_pkt}"
    "s \<noteq> State_end \<longrightarrow> ms_fifo m < length (ms_fifos m)"
    by (simp_all add: s_def step_get_fifo_def current_fifo_def)
  have "mac_ok b fs rem ?m"
    using assms f s by (auto simp: mac_ok_def frame_kept_def state_ok_def intro: sent_ok_cong)
  moreover have "(?m, m) \<in> mac_order"
    using s assms(2) by (intro in_mac_order(4))
      (auto simp: bits_left_def packets_left_def frame_started_def state_rank_def)
  ultimately show ?thesis using assms(2) by (simp add: mac_step_def)
qed

lemma step_next_packet_ok:
  assumes "mac_ok b fs rem m" "ms_state m = State_next_encap_pkt"
  shows "\<exists>m'. mac_step enc b m = Some m' \<and> mac_ok b fs rem m' \<and> (m', m) \<in> mac_order"
proof -
  from assms obtain f where f: "frame_kept b m f" "state_ok m f" by (auto simp: mac_ok_def)
  then have i: "ms_fifo m < length (ms_fifos m)" using assms(2) by (simp add: state_ok_def)
  let ?f = "snd (ms_fifos m ! ms_fifo m)"
  have cf: "current_fifo m = Some ?f" using i by (simp add: current_fifo_def)
  show ?thesis
  proof (cases "get_current_size ?f = 0")
    case True
    let ?m = "m\<lparr>ms_state := State_next_fifo\<rparr>"
    have "mac_ok b fs rem ?m"
      using assms f by (auto simp: mac_ok_def frame_kept_def state_ok_def intro: sent_ok_cong)
    moreover have "(?m, m) \<in> mac_order"
      using assms(2) by (intro in_mac_order(4))
        (auto simp: bits_left_def packets_left_def frame_started_def state_rank_def)
    ultimately show ?thesis using assms(2) True cf by (simp add: mac_step_def step_next_packet_def)
  next
    case False
    then obtain e q where q: "queue ?f = e # q" by (cases "queue ?f") (auto simp: get_current_size_def)
    let ?g = "fst (pop ?f)"
    let ?m = "(set_fifo ?g m)\<lparr>ms_elem := Some e, ms_packet := Some (fe_elem e), ms_state := State_get_chunk\<rparr>"
    have p: "snd (pop ?f) = Some e" "queue ?g = q" using q by (simp_all add: pop_def Let_def)
    have "mac_ok b fs rem ?m"
      using assms f i by (auto simp: mac_ok_def frame_kept_def state_ok_def intro: sent_ok_cong)
    moreover have "packets_left ?m \<le> packets_left m"
      using packets_set_fifo [OF i, of ?g] p(2) q
      by (auto simp: packets_left_def split: option.splits)
    then have "(?m, m) \<in> mac_order"
      using assms(2) by (intro in_mac_order(4))
        (auto simp: bits_left_def frame_started_def state_rank_def)
    ultimately show ?thesis using assms(2) False cf p(1)
      by (simp add: mac_step_def step_next_packet_def Let_def case_prod_beta)
  qed
qed

lemma push_front_queue:
  "length (queue (fst (push_front f e))) \<le> Suc (length (queue f))"
  by (simp add: push_front_def push_fragment_def Let_def)

lemma step_get_chunk_ok:
  assumes "handler_fits enc" "mac_ok b fs rem m" "ms_state m = State_get_chunk"
  shows "\<exists>m'. mac_step enc b m = Some m' \<and> mac_ok b fs rem m' \<and> (m', m) \<in> mac_order"
proof -
  from assms obtain f where f: "frame_kept b m f" "state_ok m f" by (auto simp: mac_ok_def)
  from f(2) assms(3) obtain e p where ep: "ms_elem m = Some e" "ms_packet m = Some p"
    by (auto simp: state_ok_def)
  from f assms(3) have i: "ms_fifo m < length (ms_fifos m)" by (simp add: state_ok_def)
  let ?f = "snd (ms_fifos m ! ms_fifo m)"
  have cf: "current_fifo m = Some ?f" using i by (simp add: current_fifo_def)
  obtain h ret data rest where enc: "enc (ms_handler m) p (get_free_space f) (num_packets f = 0) = (h, ret, data, rest)"
    by (metis prod_cases4)
  have fr: "ms_frame m = Some f" using f(1) by (simp add: frame_kept_def)
  note base = assms(3) ep cf enc fr
  show ?thesis
  proof (cases ret)
    case False
    let ?m = "m\<lparr>ms_handler := h, ms_packet := None, ms_elem := None, ms_state := State_next_encap_pkt\<rparr>"
    have "mac_ok b fs rem ?m"
      using assms(2,3) f i by (auto simp: mac_ok_def frame_kept_def state_ok_def intro: sent_ok_cong)
    moreover have "(?m, m) \<in> mac_order"
      by (rule in_mac_order(2)) (simp_all add: bits_left_def packets_left_def ep)
    ultimately show ?thesis using False base by (simp add: mac_step_def step_get_chunk_def)
  next
    case True
    let ?s = "if data \<noteq> None then State_add_data else State_finalize_frame"
    let ?m2 = "m\<lparr>ms_handler := h, ms_packet := None, ms_data := data, ms_elem := None, ms_state := ?s\<rparr>"
    let ?g = "\<lambda>r. fst (push_front ?f (set_elem e r))"
    let ?m = "case rest of None \<Rightarrow> ?m2 | Some r \<Rightarrow> set_fifo (?g r) ?m2"
    have d: "\<And>d. data = Some d \<Longrightarrow> 0 < length (cont_data d) \<and> length (cont_data d) \<le> get_free_space f"
      using assms(1) [unfolded handler_fits_def, rule_format, of "ms_handler m" p "get_free_space f" "num_packets f = 0" h]
        enc True by simp
    have m: "ms_state ?m = ?s" "ms_frame ?m = ms_frame m" "ms_data ?m = data" "ms_fifo ?m = ms_fifo m"
      "ms_frame_length_b ?m = ms_frame_length_b m" "ms_complete ?m = ms_complete m"
      "ms_remaining_b ?m = ms_remaining_b m" "length (ms_fifos ?m) = length (ms_fifos m)"
      by (simp_all split: option.split)
    have "sent_ok b fs rem ?m"
      by (rule sent_ok_cong [of b fs rem m]) (use assms(2) fr in \<open>simp_all only: m mac_ok_def, simp_all\<close>)
    moreover have "frame_kept b ?m f" using f(1) assms(3) by (simp add: frame_kept_def m)
    moreover have "state_ok ?m f" using i d by (auto simp: state_ok_def m)
    ultimately have "mac_ok b fs rem ?m" unfolding mac_ok_def by blast
    moreover have "packets_left ?m \<le> packets_left m"
    proof (cases rest)
      case (Some r)
      have "packets_left (set_fifo (?g r) ?m2) + length (queue ?f) = packets_left ?m2 + length (queue (?g r))"
        using packets_set_fifo [of ?m2] i by simp
      moreover have "packets_left m = packets_left ?m2 + 1" by (simp add: packets_left_def ep)
      ultimately show ?thesis using push_front_queue [of ?f "set_elem e r"] Some by simp
    qed (simp add: packets_left_def ep)
    then have "(?m, m) \<in> mac_order"
      by (intro in_mac_order(4)) (simp_all add: bits_left_def frame_started_def state_rank_def m assms(3))
    moreover have "mac_step enc b m = Some ?m"
      using True base by (cases rest; cases data) (simp_all add: mac_step_def step_get_chunk_def Let_def)
    ultimately show ?thesis by blast
  qed
qed

lemma step_add_data_ok:
  assumes "mac_ok b fs rem m" "ms_state m = State_add_data"
  shows "\<exists>m'. mac_step enc b m = Some m' \<and> mac_ok b fs rem m' \<and> (m', m) \<in> mac_order"
proof -
  from assms obtain f where f: "frame_kept b m f" "state_ok m f" by (auto simp: mac_ok_def)
  from f(2) assms(2) obtain d where d: "ms_data m = Some d" "0 < length (cont_data d)"
    "length (cont_data d) \<le> get_free_space f" by (auto simp: state_ok_def)
  from f have fr: "ms_frame m = Some f" "frame_ok b f" "unat (ms_frame_length_b m) = payload_bits f"
    "payload_bits f = 0 \<or> ms_frame_length_b m < ms_remaining_b m"
    using assms(2) by (auto simp: frame_kept_def)
  obtain g ok where g: "rcs_add_packet f (cont_data d) = (g, ok)" by (cases "rcs_add_packet f (cont_data d)")
  from frame_ok_add [OF fr(2) d(2,3)] g have ok: ok "frame_ok b g"
    "length (cont_data g) = length (cont_data f) + length (cont_data d)" by simp_all
  let ?n = "ms_frame_length_b m + push_bit 3 (of_nat (get_total_length d))"
  have l: "6 \<le> length (cont_data f)" using fr(2) by (simp add: frame_ok_def burst_wf_def)
  then have pb: "payload_bits g = payload_bits f + 8 * length (cont_data d)"
    by (simp add: payload_bits_def ok(3))
  with payload_bound(2) [OF ok(2)] have "payload_bits f + 8 * length (cont_data d) < 2 ^ 32" by simp
  moreover have "ms_frame_length_b m = of_nat (payload_bits f)" by (simp flip: fr(3))
  then have "?n = of_nat (payload_bits g)"
    unfolding pb get_total_length_def push_bit_eq_mult of_nat_add of_nat_mult by simp
  ultimately have n: "unat ?n = payload_bits g" by (simp only: pb unat_of_nat take_bit_nat_eq_self) (simp add: take_bit_nat_eq_self)
  let ?s = "if get_free_space g \<le> 0 \<or> ms_remaining_b m \<le> ?n then State_finalize_frame else State_next_encap_pkt"
  let ?m = "m\<lparr>ms_frame := Some g, ms_frame_length_b := ?n, ms_state := ?s\<rparr>"
  have "frame_kept b ?m g" using ok(2) n by (auto simp: frame_kept_def)
  moreover have "state_ok ?m g" using f(2) assms(2) by (auto simp: state_ok_def)
  moreover have "sent_ok b fs rem m" using assms(1) unfolding mac_ok_def by blast
  then have "sent_ok b fs rem ?m" by (rule sent_ok_cong) (simp_all add: fr(1))
  ultimately have "mac_ok b fs rem ?m" unfolding mac_ok_def by blast
  moreover have "(?m, m) \<in> mac_order"
  proof (rule in_mac_order(1))
    have "payload_bits f < payload_bits g" using pb d(2) by linarith
    moreover have "payload_bits f < unat (ms_remaining_b m) + 1" using fr(3,4) by (auto simp: word_less_nat_alt)
    ultimately show "bits_left ?m < bits_left m" using fr(3) n by (simp add: bits_left_def)
  qed
  moreover have "mac_step enc b m = Some ?m"
    using assms(2) d(1) fr(1) g ok(1) by (auto simp: mac_step_def step_add_data_def Let_def)
  ultimately show ?thesis by blast
qed

lemma step_finalize_ok:
  assumes "unat rem < 2 ^ 31" "allocate_rcs_frame b = Some f0"
    and "mac_ok b fs rem m" "ms_state m = State_finalize_frame"
  shows "\<exists>m'. mac_step enc b m = Some m' \<and> mac_ok b fs rem m' \<and> ((m', m) \<in> mac_order \<or> final_state m')"
proof -
  from assms obtain f where f: "frame_kept b m f" "state_ok m f" "sent_ok b fs rem m" by (auto simp: mac_ok_def)
  then have i: "ms_fifo m < length (ms_fifos m)" using assms(4) by (simp add: state_ok_def)
  from f have fr: "ms_frame m = Some f" "frame_ok b f" "unat (ms_frame_length_b m) = payload_bits f"
    by (auto simp: frame_kept_def)
  show ?thesis
  proof (cases "payload_bits f = 0")
    case True
    let ?m = "m\<lparr>ms_frame_length_b := 0, ms_state := State_error\<rparr>"
    have "mac_ok b fs rem ?m" using f(3) fr(1) by (auto simp: mac_ok_def intro: sent_ok_cong [of b fs rem m])
    moreover have "mac_step enc b m = Some ?m"
      using assms(4) fr True payload_zero [OF fr(2)] by (simp add: mac_step_def step_finalize_def)
    ultimately show ?thesis by (simp add: final_state_def)
  next
    case False
    let ?r = "less_frame (ms_remaining_b m) (ms_frame_length_b m)"
    from f(3) fr(1) obtain new where new: "ms_complete m = fs @ new"
      "\<forall>f \<in> set new. frame_ok b f \<and> 0 < payload_bits f" "bits_of new + unat (ms_remaining_b m) = unat rem"
      by (auto simp: sent_ok_def)
    note pb = payload_bound [OF fr(2)]
    have r: "unat ?r = unat (ms_remaining_b m) - payload_bits f"
      using unat_less_frame [of "ms_remaining_b m" "ms_frame_length_b m"] new(3) assms(1) fr(3) pb by simp
    have n: "rcs_num_packets f \<noteq> 0" using False payload_zero [OF fr(2)] by simp
    let ?m1 = "m\<lparr>ms_complete := ms_complete m @ [f], ms_remaining_b := ?r\<rparr>"
    have nf: "\<forall>x \<in> set (new @ [f]). frame_ok b x \<and> 0 < payload_bits x" "bits_of (new @ [f]) = bits_of new + payload_bits f"
      using new(2) fr(2) False by (auto simp: bits_of_def)
    show ?thesis
    proof (cases "?r = 0")
      case True
      let ?m = "?m1\<lparr>ms_frame := None, ms_state := State_end\<rparr>"
      have "sent_ok b fs rem ?m"
        unfolding sent_ok_def
        by (rule exI [of _ "new @ [f]"]) (use nf new(1,3) r True pb in auto)
      then have "mac_ok b fs rem ?m" by (simp add: mac_ok_def)
      moreover have "mac_step enc b m = Some ?m"
        using assms(4) fr(1) n True by (simp add: mac_step_def step_finalize_def Let_def)
      ultimately show ?thesis by (simp add: final_state_def)
    next
      case gt: False
      then have pos: "payload_bits f < unat (ms_remaining_b m)" using r by (metis gr0I unat_eq_0 zero_less_diff)
      let ?m = "?m1\<lparr>ms_frame := Some f0, ms_frame_length_b := 0, ms_state := State_next_encap_pkt\<rparr>"
      from allocated_frame [OF assms(2)] have f0: "frame_ok b f0" "payload_bits f0 = 0"
        by (simp_all add: payload_bits_def)
      have "sent_ok b fs rem ?m"
        unfolding sent_ok_def
        by (rule exI [of _ "new @ [f]"]) (use nf new(1,3) r pos in auto)
      moreover have "frame_kept b ?m f0" using f0 by (simp add: frame_kept_def)
      moreover have "state_ok ?m f0" using i by (simp add: state_ok_def)
      ultimately have "mac_ok b fs rem ?m" unfolding mac_ok_def by blast
      moreover have "(?m, m) \<in> mac_order"
        using r fr(1,3) f0(2) False pos
        by (intro in_mac_order(3)) (simp_all add: bits_left_def packets_left_def frame_started_def)
      moreover have "mac_step enc b m = Some ?m"
        using assms(2,4) fr(1) n gt by (simp add: mac_step_def step_finalize_def Let_def)
      ultimately show ?thesis by blast
    qed
  qed
qed

lemma mac_step_ok:
  assumes "handler_fits enc" "unat rem < 2 ^ 31" "allocate_rcs_frame b = Some f0"
    and "mac_ok b fs rem m" "\<not> final_state m"
  shows "\<exists>m'. mac_step enc b m = Some m' \<and> mac_ok b fs rem m' \<and> ((m', m) \<in> mac_order \<or> final_state m')"
  using step_next_fifo_ok [OF assms(4)] step_get_fifo_ok [OF assms(4)] step_next_packet_ok [OF assms(4)]
    step_get_chunk_ok [OF assms(1,4)] step_add_data_ok [OF assms(4)] step_finalize_ok [OF assms(2-4)] assms(5)
  by (cases "ms_state m") (fastforce simp: final_state_def)+

lemma mac_run_ends:
  assumes "handler_fits enc" "unat rem < 2 ^ 31" "allocate_rcs_frame b = Some f0" "mac_ok b fs rem m"
  shows "\<exists>m'. mac_run enc b m = Some m' \<and> mac_ok b fs rem m' \<and> final_state m'"
proof -
  have "wf (mac_order :: ('a mac_sched \<times> 'a mac_sched) set)" by (simp add: mac_order_def)
  then show ?thesis using assms(4)
  proof (induction m rule: wf_induct_rule)
    case (less m)
    show ?case
    proof (cases "final_state m")
      case True
      with less.prems show ?thesis by (auto simp: mac_run.simps final_state_def)
    next
      case False
      from mac_step_ok [OF assms(1-3) less.prems False] obtain m' where m':
        "mac_step enc b m = Some m'" "mac_ok b fs rem m'" "(m', m) \<in> mac_order \<or> final_state m'" by blast
      have run: "mac_run enc b m = mac_run enc b m'"
        using False m'(1) by (subst mac_run.simps) (simp add: final_state_def)
      show ?thesis
      proof (cases "final_state m'")
        case True
        with m'(2) run show ?thesis by (auto simp: mac_run.simps [of enc b m'] final_state_def)
      next
        case False
        with less.IH [of m'] m' run show ?thesis by simp
      qed
    qed
  qed
qed

section \<open>What is sent\<close>

lemma start_schedule_simps [simp]:
  "ms_complete (start_schedule fifos fs rem h fr) = fs" "ms_remaining_b (start_schedule fifos fs rem h fr) = rem"
  "ms_frame (start_schedule fifos fs rem h fr) = fr" "ms_state (start_schedule fifos fs rem h fr) = State_get_fifo"
  "ms_frame_length_b (start_schedule fifos fs rem h fr) = 0"
  by (simp_all add: start_schedule_def)

lemma start_schedule_ok:
  assumes "allocate_rcs_frame b = Some f0"
  shows "mac_ok b fs rem (start_schedule fifos fs rem h (Some f0))"
proof -
  have "frame_kept b (start_schedule fifos fs rem h (Some f0)) f0"
    using allocated_frame [OF assms] by (simp add: frame_kept_def payload_bits_def)
  moreover have "state_ok (start_schedule fifos fs rem h (Some f0)) f0" by (simp add: state_ok_def)
  ultimately show ?thesis by (auto simp: mac_ok_def sent_ok_def bits_of_def)
qed

lemma finish_schedule_sent:
  assumes "mac_ok b fs rem m" "final_state m" "unat rem < 2 ^ 31"
  shows "\<exists>new. ms_complete (fst (finish_schedule m)) = fs @ new \<and>
    (\<forall>f \<in> set new. frame_ok b f \<and> 0 < payload_bits f) \<and>
    unat (ms_remaining_b (fst (finish_schedule m))) = unat rem - bits_of new \<and>
    bits_of new \<le> unat rem + 8 * burst_bytes_of b"
proof -
  from assms(1) have "sent_ok b fs rem m" by (simp add: mac_ok_def)
  then obtain new where new: "ms_complete m = fs @ new"
    "\<forall>f \<in> set new. frame_ok b f \<and> 0 < payload_bits f"
    "if ms_frame m = None \<and> ms_state m = State_end
     then ms_remaining_b m = 0 \<and> unat rem \<le> bits_of new \<and> bits_of new \<le> unat rem + 8 * burst_bytes_of b
     else bits_of new + unat (ms_remaining_b m) = unat rem" by (auto simp: sent_ok_def)
  consider (error) "ms_state m = State_error" | (none) "ms_state m = State_end" "ms_frame m = None"
    | (frame) f where "ms_state m = State_end" "frame_kept b m f"
    using assms(1,2) by (auto simp: mac_ok_def final_state_def)
  then show ?thesis
  proof cases
    case (frame f)
    then have f: "ms_frame m = Some f" "frame_ok b f" "unat (ms_frame_length_b m) = payload_bits f"
      "payload_bits f = 0 \<or> payload_bits f < unat (ms_remaining_b m)"
      by (auto simp: frame_kept_def word_less_nat_alt)
    show ?thesis
    proof (cases "payload_bits f = 0")
      case True
      with payload_zero [OF f(2)] f(1) frame(1) new show ?thesis
        by (intro exI [of _ new]) (simp add: finish_schedule_def)
    next
      case False
      then have "rcs_num_packets f \<noteq> 0" using payload_zero [OF f(2)] by simp
      then have "finish_schedule m = (m\<lparr>ms_complete := ms_complete m @ [f],
          ms_remaining_b := less_frame (ms_remaining_b m) (ms_frame_length_b m)\<rparr>, True)"
        using f(1) frame(1) by (simp add: finish_schedule_def word_gt_0)
      moreover have "unat (less_frame (ms_remaining_b m) (ms_frame_length_b m)) =
          unat (ms_remaining_b m) - payload_bits f"
        using unat_less_frame [of "ms_remaining_b m" "ms_frame_length_b m"] f(3) new(3) f(1) assms(3)
          payload_bound(2) [OF f(2)] by simp
      ultimately show ?thesis
        using new f False by (intro exI [of _ "new @ [f]"]) (auto simp: bits_of_def)
    qed
  qed (use new in \<open>auto simp: finish_schedule_def intro!: exI [of _ new]\<close>)
qed

text \<open>C29: The scheduling of the return link ends, whatever is in the FIFOs: when the encapsulation cuts
  non-empty data that fits the frame, it adds well-formed frames with data within the burst, takes
  exactly their payload from the allocation, and exceeds the allocation by at most one burst.\<close>

theorem return_schedule_ends:
  assumes "handler_fits enc" "unat rem < 2 ^ 31"
  shows "\<exists>m ok new. return_schedule enc max_burst fifos fs rem h = Some (m, ok) \<and>
    ms_complete m = fs @ new \<and> (\<forall>f \<in> set new. frame_ok max_burst f \<and> 0 < payload_bits f) \<and>
    unat (ms_remaining_b m) = unat rem - bits_of new \<and>
    bits_of new \<le> unat rem + 8 * burst_bytes_of max_burst"
proof (cases "allocate_rcs_frame max_burst")
  case None
  then have "\<exists>ok. return_schedule enc max_burst fifos fs rem h = Some (start_schedule fifos fs rem h None, ok)"
    by (auto simp: return_schedule_def mac_schedule_def)
  then show ?thesis by (auto simp: bits_of_def intro!: exI [of _ "[]"])
next
  case f0: (Some f0)
  from mac_run_ends [OF assms f0 start_schedule_ok [OF f0]] obtain m where
    m: "mac_run enc max_burst (start_schedule fifos fs rem h (Some f0)) = Some m"
    "mac_ok max_burst fs rem m" "final_state m" by blast
  have "max_burst \<noteq> 0" using f0 by (auto simp: allocate_rcs_frame_def)
  then have "return_schedule enc max_burst fifos fs rem h = Some (finish_schedule m)"
    by (simp add: return_schedule_def mac_schedule_def f0 m(1))
  moreover obtain m' ok where "finish_schedule m = (m', ok)" by (cases "finish_schedule m")
  ultimately show ?thesis using finish_schedule_sent [OF m(2,3) assms(2)] by auto
qed

definition one_packet_fifo :: "bytes \<Rightarrow> pkt_fifo" where
  "one_packet_fifo d = fst (push (new_fifo 0 ''NM'' ''DAMA_RBDC'' 10)
     \<lparr>fe_elem = new_packet d, tick_in = 0, tick_out = 0\<rparr>)"

theorem return_schedule_ends_witness:
  "\<exists>m ok new. return_schedule (encap_next_packet cut_anywhere) 800 [(0, one_packet_fifo [1, 2, 3])] [] 0 () =
     Some (m, ok) \<and> ms_complete m = new \<and> bits_of new \<le> 800"
proof -
  have "burst_bytes_of 800 = 100" by (simp add: burst_bytes_of_def drop_bit_eq_div)
  then show ?thesis
    using return_schedule_ends [OF cut_anywhere_ok, of 0 800 "[(0, one_packet_fifo [1, 2, 3])]" "[]" "()"]
    by auto
qed

text \<open>A terminal without any allocation still sends a packet: with nothing left to send with, the
  first packet of the first FIFO that is not Slotted Aloha leaves in a frame of its own.\<close>

theorem zero_allocation_sends:
  assumes "allocate_rcs_frame b = Some f0" "\<not> access_eq (fifo_access f) (Return_access saloha)"
    and "queue f = e # q" "length (queue f) < 2 ^ 16"
    and "enc h (fe_elem e) (get_free_space f0) True = (h', True, Some d, rest)"
    and "0 < length (cont_data d)" "length (cont_data d) \<le> get_free_space f0"
  shows "\<exists>m g. return_schedule enc b ((k, f) # fifos) fs 0 h = Some (m, True) \<and>
    ms_complete m = fs @ [g] \<and> drop 6 (cont_data g) = cont_data d \<and> ms_remaining_b m = 0"
proof -
  let ?m0 = "start_schedule ((k, f) # fifos) fs 0 h (Some f0)"
  from allocated_frame [OF assms(1)] have f0: "frame_ok b f0" "num_packets f0 = 0" "length (cont_data f0) = 6"
    by simp_all
  obtain g ok where g: "rcs_add_packet f0 (cont_data d) = (g, ok)" by (cases "rcs_add_packet f0 (cont_data d)")
  from frame_ok_add [OF f0(1) assms(6,7)] g f0(3) have ok: ok "frame_ok b g" "num_packets g \<noteq> 0"
    "drop 6 (cont_data g) = cont_data d" by simp_all
  have np: "rcs_num_packets g \<noteq> 0" using ok(2,3) by (simp add: rcs_num_packets_ok frame_ok_def)
  have sz: "get_current_size f \<noteq> 0"
  proof -
    have "unat (get_current_size f) = length (queue f)"
      using assms(4) by (simp add: get_current_size_def unat_of_nat take_bit_nat_eq_self)
    then show ?thesis using assms(3) by auto
  qed
  define f1 where "f1 = fst (pop f)"
  have pop: "pop f = (f1, Some e)" using assms(3) by (simp add: pop_def f1_def Let_def)
  note steps = mac_run.simps mac_step_def
  define m1 where "m1 = ?m0\<lparr>ms_state := State_next_encap_pkt\<rparr>"
  have 1: "mac_step enc b ?m0 = Some m1"
    using assms(2) by (simp add: mac_step_def step_get_fifo_def current_fifo_def m1_def start_schedule_def)
  define m2 where "m2 = (set_fifo f1 m1)\<lparr>ms_elem := Some e, ms_packet := Some (fe_elem e), ms_state := State_get_chunk\<rparr>"
  have 2: "mac_step enc b m1 = Some m2"
    using sz pop by (simp add: mac_step_def step_next_packet_def current_fifo_def m1_def m2_def start_schedule_def)
  define m3 where "m3 = (let m = m2\<lparr>ms_handler := h', ms_packet := None, ms_data := Some d, ms_elem := None,
      ms_state := State_add_data\<rparr> in case rest of None \<Rightarrow> m
    | Some r \<Rightarrow> set_fifo (fst (push_front f1 (set_elem e r))) m)"
  have 3: "mac_step enc b m2 = Some m3"
    using assms(5) f0(2) by (cases rest) (simp_all add: mac_step_def step_get_chunk_def current_fifo_def m1_def m2_def
        m3_def start_schedule_def set_fifo_def Let_def)
  have m3: "ms_state m3 = State_add_data" "ms_data m3 = Some d" "ms_frame m3 = Some f0" "ms_remaining_b m3 = 0"
    "ms_complete m3 = fs"
    by (simp_all add: m3_def m2_def m1_def Let_def split: option.split)
  define m4 where "m4 = m3\<lparr>ms_frame := Some g, ms_frame_length_b := ms_frame_length_b m3 +
      push_bit 3 (of_nat (get_total_length d)), ms_state := State_finalize_frame\<rparr>"
  have 4: "mac_step enc b m3 = Some m4"
    using g ok(1) by (simp add: mac_step_def step_add_data_def m3 m4_def Let_def)
  have fl: "unat (ms_frame_length_b m4) < 2 ^ 31"
  proof -
    have "get_free_space f0 \<le> 1198"
      using f0(1) free_space_burst [of 6 f0] by (auto simp: frame_ok_def burst_room_def burst_wf_def MSG_DVB_RCS_SIZE_MAX_def)
    then have "8 * length (cont_data d) < 2 ^ 31" using assms(7) by simp
    moreover have "ms_frame_length_b m4 = of_nat (8 * length (cont_data d))"
      by (simp add: m4_def m3_def m2_def m1_def Let_def push_bit_eq_mult get_total_length_def split: option.split)
    ultimately show ?thesis by (simp only: unat_of_nat) (simp add: take_bit_nat_eq_self)
  qed
  have z: "less_frame 0 (ms_frame_length_b m4) = 0"
    using unat_less_frame [of 0 "ms_frame_length_b m4"] fl by (simp add: unat_eq_0)
  define m5 where "m5 = m4\<lparr>ms_complete := fs @ [g], ms_remaining_b := 0, ms_frame := None, ms_state := State_end\<rparr>"
  have 5: "mac_step enc b m4 = Some m5"
    using np z by (simp add: mac_step_def step_finalize_def m4_def m5_def m3 Let_def)
  have r: "mac_run enc b m = mac_run enc b m'" if "mac_step enc b m = Some m'" "\<not> final_state m" for m m' :: "'a mac_sched"
    using that by (subst mac_run.simps) (simp add: final_state_def)
  have "mac_run enc b ?m0 = Some m5"
    using r [OF 1] r [OF 2] r [OF 3] r [OF 4] r [OF 5]
    by (simp add: final_state_def m1_def m2_def m3 m4_def mac_run.simps [of enc b m5]) (simp add: m5_def)
  moreover have "finish_schedule m5 = (m5, True)" by (simp add: finish_schedule_def m5_def)
  moreover have "b \<noteq> 0" using assms(1) by (auto simp: allocate_rcs_frame_def)
  ultimately have "return_schedule enc b ((k, f) # fifos) fs 0 h = Some (m5, True)"
    by (simp add: return_schedule_def mac_schedule_def assms(1))
  then show ?thesis using ok(4) by (auto simp: m5_def)
qed

theorem zero_allocation_sends_witness:
  "\<exists>m g. return_schedule (encap_next_packet cut_anywhere) 800 [(0, one_packet_fifo [1, 2, 3])] [] 0 () =
     Some (m, True) \<and> ms_complete m = [g] \<and> drop 6 (cont_data g) = [1, 2, 3] \<and> ms_remaining_b m = 0"
proof -
  let ?f = "one_packet_fifo [1, 2, 3]"
  let ?e = "\<lparr>fe_elem = new_packet [1, 2, 3], tick_in = 0, tick_out = 0\<rparr>"
  have d: "cont_data (new_packet [1, 2, 3]) = [1, 2, 3]"
    by (simp add: new_packet_def new_container_def net_container.defs)
  have f: "queue ?f = [?e]" "\<not> access_eq (fifo_access ?f) (Return_access saloha)"
    by (simp_all add: one_packet_fifo_def push_def new_fifo_def access_of_name_def Let_def)
  obtain f0 where f0: "allocate_rcs_frame 800 = Some f0"
    by (auto simp: allocate_rcs_frame_def drop_bit_eq_div Let_def)
  have "get_free_space f0 = 100"
    using allocated_frame [OF f0] free_space_burst [of 6 f0] f0
    by (auto simp: frame_ok_def burst_room_def allocate_rcs_frame_def drop_bit_eq_div set_max_frame_size_def
        MSG_DVB_RCS_SIZE_MAX_def new_rcs_frame_fields Let_def)
  then have "encap_next_packet cut_anywhere () (new_packet [1, 2, 3]) (get_free_space f0) True =
      ((), True, Some (new_packet [1, 2, 3]), None)"
    by (simp add: encap_next_packet_def cut_anywhere_def d)
  with zero_allocation_sends [OF f0 f(2), of ?e "[]" "encap_next_packet cut_anywhere" "()" "()"
      "new_packet [1, 2, 3]" None 0 "[]" "[]"] f(1) d \<open>get_free_space f0 = 100\<close>
  show ?thesis by simp
qed

end
