(* ===== verification/Dvb_Session.thy ===== *)
theory Dvb_Session
  imports Dvb_Frame
begin

unbundle bit_operations_syntax

text \<open>
  The messages of a session (\<^verbatim>\<open>opensand-core/src/dvb/utils/Logon.cpp\<close>, \<^verbatim>\<open>Logoff.cpp\<close>,
  \<^verbatim>\<open>Sof.cpp\<close>): the request and the response of a logon, the logoff and the start of frame.
  Each is a frame whose bytes are a packed structure of \<^verbatim>\<open>OpenSandFrames.h\<close>: after the header of 3
  bytes, the logon request has the terminal at 3, the three rates at 5, 7 and 9 and the SCPC flag
  at 11; the response has the terminal at 3, the group at 5 (in host order) and the logon identifier
  at 7; the logoff and the start of frame have one number at 3.
\<close>

section \<open>Building\<close>

definition session_frame :: "nat \<Rightarrow> u8 \<Rightarrow> dvb_frame" where
  "session_frame n t = set_message_length (of_nat n) (set_message_type t (empty_frame n))"

definition T_DVB_LOGON_REQ :: nat where "T_DVB_LOGON_REQ = 12"
definition T_DVB_LOGON_RESP :: nat where "T_DVB_LOGON_RESP = 9"
definition T_DVB_LOGOFF :: nat where "T_DVB_LOGOFF = 5"
definition T_DVB_SOF :: nat where "T_DVB_SOF = 5"

definition new_logon_request ::
  "tal_id \<Rightarrow> rate_kbps \<Rightarrow> rate_kbps \<Rightarrow> vol_kb \<Rightarrow> bool \<Rightarrow> dvb_frame" where
  "new_logon_request mac rt_bandwidth max_rbdc max_vbdc is_scpc =
     (let f = session_frame T_DVB_LOGON_REQ MSG_SessionLogonReq
      in f\<lparr>cont_data :=
           write8 (write16 (write16 (write16 (write16 (cont_data f)
             3 (htons mac)) 5 (htons rt_bandwidth)) 7 (htons max_rbdc)) 9 (htons max_vbdc))
             11 (if is_scpc then 1 else 0)\<rparr>)"

text \<open>The constructor without the flag clears it.\<close>

definition new_logon_request_dama ::
  "tal_id \<Rightarrow> rate_kbps \<Rightarrow> rate_kbps \<Rightarrow> vol_kb \<Rightarrow> dvb_frame" where
  "new_logon_request_dama mac rt_bandwidth max_rbdc max_vbdc =
     new_logon_request mac rt_bandwidth max_rbdc max_vbdc False"

definition new_logon_response :: "tal_id \<Rightarrow> group_id \<Rightarrow> tal_id \<Rightarrow> dvb_frame" where
  "new_logon_response mac group_id logon_id =
     (let f = session_frame T_DVB_LOGON_RESP MSG_SessionLogonResp
      in f\<lparr>cont_data :=
           write16 (write16 (write16 (cont_data f) 3 (htons mac)) 5 group_id) 7 (htons logon_id)\<rparr>)"

definition new_logoff :: "tal_id \<Rightarrow> dvb_frame" where
  "new_logoff mac =
     (let f = session_frame T_DVB_LOGOFF MSG_SessionLogoff
      in f\<lparr>cont_data := write16 (cont_data f) 3 (htons mac)\<rparr>)"

definition new_sof :: "time_sf \<Rightarrow> dvb_frame" where
  "new_sof sf_nbr =
     (let f = session_frame T_DVB_SOF MSG_Sof
      in f\<lparr>cont_data := write16 (cont_data f) 3 (htons sf_nbr)\<rparr>)"

section \<open>Reading\<close>

definition session_mac :: "'a dvb_frame_scheme \<Rightarrow> tal_id" where
  "session_mac f = ntohs (read16 (cont_data f) 3)"

definition logon_rt_bandwidth :: "'a dvb_frame_scheme \<Rightarrow> rate_kbps" where
  "logon_rt_bandwidth f = ntohs (read16 (cont_data f) 5)"

definition logon_max_rbdc :: "'a dvb_frame_scheme \<Rightarrow> rate_kbps" where
  "logon_max_rbdc f = ntohs (read16 (cont_data f) 7)"

definition logon_max_vbdc :: "'a dvb_frame_scheme \<Rightarrow> rate_kbps" where
  "logon_max_vbdc f = ntohs (read16 (cont_data f) 9)"

definition logon_is_scpc :: "'a dvb_frame_scheme \<Rightarrow> bool" where
  "logon_is_scpc f \<longleftrightarrow> read8 (cont_data f) 11 \<noteq> 0"

definition response_group_id :: "'a dvb_frame_scheme \<Rightarrow> group_id" where
  "response_group_id f = read16 (cont_data f) 5"

definition response_logon_id :: "'a dvb_frame_scheme \<Rightarrow> tal_id" where
  "response_logon_id f = ntohs (read16 (cont_data f) 7)"

definition sof_superframe :: "'a dvb_frame_scheme \<Rightarrow> time_sf" where
  "sof_superframe f = ntohs (read16 (cont_data f) 3)"

section \<open>Layouts\<close>

lemma session_frame_bytes:
  assumes "3 \<le> n" "t \<in> {1, 50, 51, 52}"
  shows "cont_data (session_frame n t) = bytes16 (htons (of_nat n)) @ t # replicate (n - 3) 0"
proof -
  define k where "k = n - 3"
  then have n: "n = Suc (Suc (Suc k))" using assms(1) by simp
  have t: "t AND mask 7 = t" using assms(2) by (auto simp: mask_eq_exp_minus_1)
  show ?thesis
    by (simp add: session_frame_def set_message_length_def set_message_type_def empty_frame_def n
        new_container_def net_container.defs write_at_def bytes16_def read8_def t)
qed

lemma logon_request_bytes:
  "cont_data (new_logon_request mac rt rbdc vbdc scpc) =
     bytes16 (htons 12) @ 50 # bytes16 (htons mac) @ bytes16 (htons rt) @ bytes16 (htons rbdc) @
     bytes16 (htons vbdc) @ [if scpc then 1 else 0]"
proof -
  have z: "replicate 9 (0 :: u8) = [0, 0] @ [0, 0] @ [0, 0] @ [0, 0] @ [0]" by (simp add: numeral_eq_Suc)
  have w: "write_at [b] 0 [c] = [c]" for b c :: u8 by (simp add: write_at_def)
  have n: "of_nat 12 = (12 :: u16)" "(12 :: nat) - 3 = 9" by simp_all
  have b: "cont_data (session_frame T_DVB_LOGON_REQ MSG_SessionLogonReq) =
      bytes16 (htons 12) @ 50 # [0, 0] @ [0, 0] @ [0, 0] @ [0, 0] @ [0]"
    using session_frame_bytes [of 12 50] unfolding z n T_DVB_LOGON_REQ_def MSG_SessionLogonReq_def by simp
  show ?thesis
    unfolding new_logon_request_def Let_def
    by (simp add: b field_layout w del: append_Cons append_Nil)
qed

lemma logon_response_bytes:
  "cont_data (new_logon_response mac grp l) =
     bytes16 (htons 9) @ 52 # bytes16 (htons mac) @ bytes16 grp @ bytes16 (htons l)"
proof -
  have b: "cont_data (session_frame T_DVB_LOGON_RESP MSG_SessionLogonResp) =
      bytes16 (htons 9) @ 52 # [0, 0] @ [0, 0] @ [0, 0]"
    using session_frame_bytes [of 9 52]
    by (simp add: T_DVB_LOGON_RESP_def MSG_SessionLogonResp_def numeral_eq_Suc)
  have w: "write_at [0, 0] 0 (bytes16 c) = bytes16 c" for c :: u16 by (simp add: write_at_def)
  show ?thesis
    unfolding new_logon_response_def Let_def
    by (simp add: b field_layout w del: append_Cons append_Nil)
qed

lemma short_session_bytes:
  assumes "t \<in> {1, 50, 51, 52}"
  shows "write16 (cont_data (session_frame 5 t)) 3 w = bytes16 (htons 5) @ t # bytes16 w"
proof -
  have b: "cont_data (session_frame 5 t) = bytes16 (htons 5) @ t # [0, 0]"
    using session_frame_bytes [of 5 t] assms by (simp add: numeral_eq_Suc)
  have "write_at [0, 0] 0 (bytes16 w) = bytes16 w" by (simp add: write_at_def)
  then show ?thesis by (simp add: b field_layout del: append_Cons append_Nil)
qed

lemma short_bytes:
  "cont_data (new_logoff mac) = bytes16 (htons 5) @ 51 # bytes16 (htons mac)"
  "cont_data (new_sof sf) = bytes16 (htons 5) @ 1 # bytes16 (htons sf)"
  by (simp_all add: new_logoff_def new_sof_def short_session_bytes T_DVB_LOGOFF_def T_DVB_SOF_def
      MSG_SessionLogoff_def MSG_Sof_def)

section \<open>The messages are received\<close>

lemma received_session:
  assumes "cont_data f = bytes16 (htons n) @ t # d" "t \<in> {1, 50, 51, 52}"
  shows "\<exists>g. received_frame k (cont_data f @ e) = Some g \<and> cont_data g = cont_data f @ e \<and>
    get_message_type g = t \<and> header_length g = k \<and>
    trailer_length g = nat ((int (length (cont_data f @ e)) - int (unat n)) mod 2 ^ 64)"
proof -
  have t: "t AND mask 7 = t" using assms(2) by (auto simp: mask_eq_exp_minus_1)
  have "read8 (bytes16 (htons n) @ t # d @ e) 2 = t" by (simp add: read8_def nth_append)
  with t show ?thesis
    by (simp add: received_frame_def assms(1) get_message_type_def get_message_length_def
        net_container.defs new_container_def Let_def read16_bytes16)
qed

text \<open>The messages of a session are read back as they were written: the terminal, the rates and
  the SCPC flag of a logon request, the terminal, the group and the identifier of its response, the
  terminal of a logoff and the number of a superframe, whatever the physical layer appends.\<close>

theorem session_messages_received:
  "(\<exists>g. received_frame T_DVB_LOGON_REQ (cont_data (new_logon_request mac rt rbdc vbdc scpc) @ e) = Some g \<and>
      get_message_type g = MSG_SessionLogonReq \<and> session_mac g = mac \<and> logon_rt_bandwidth g = rt \<and>
      logon_max_rbdc g = rbdc \<and> logon_max_vbdc g = vbdc \<and> logon_is_scpc g = scpc) \<and>
   (\<exists>g. received_frame T_DVB_LOGON_RESP (cont_data (new_logon_response mac grp l) @ e) = Some g \<and>
      get_message_type g = MSG_SessionLogonResp \<and> session_mac g = mac \<and>
      response_group_id g = grp \<and> response_logon_id g = l) \<and>
   (\<exists>g. received_frame T_DVB_LOGOFF (cont_data (new_logoff mac) @ e) = Some g \<and>
      get_message_type g = MSG_SessionLogoff \<and> session_mac g = mac) \<and>
   (\<exists>g. received_frame T_DVB_SOF (cont_data (new_sof sf) @ e) = Some g \<and>
      get_message_type g = MSG_Sof \<and> sof_superframe g = sf)"
proof -
  have b: "read8 (bytes16 a @ x) 11 = read8 x 9" "read8 (y # x) 9 = read8 x 8"
    "read8 (bytes16 a @ x) 8 = read8 x 6" "read8 (bytes16 a @ x) 6 = read8 x 4"
    "read8 (bytes16 a @ x) 4 = read8 x 2" "read8 (bytes16 a @ x) 2 = read8 x 0"
    "read8 (y # x) 0 = y" for a x y
    by (simp_all add: read8_def nth_append)
  note fields = session_mac_def logon_rt_bandwidth_def logon_max_rbdc_def logon_max_vbdc_def
    logon_is_scpc_def response_group_id_def response_logon_id_def sof_superframe_def msg_types
    field_layout b
  obtain g1 g2 g3 g4 where
    "received_frame T_DVB_LOGON_REQ (cont_data (new_logon_request mac rt rbdc vbdc scpc) @ e) = Some g1"
    "cont_data g1 = cont_data (new_logon_request mac rt rbdc vbdc scpc) @ e" "get_message_type g1 = 50"
    "received_frame T_DVB_LOGON_RESP (cont_data (new_logon_response mac grp l) @ e) = Some g2"
    "cont_data g2 = cont_data (new_logon_response mac grp l) @ e" "get_message_type g2 = 52"
    "received_frame T_DVB_LOGOFF (cont_data (new_logoff mac) @ e) = Some g3"
    "cont_data g3 = cont_data (new_logoff mac) @ e" "get_message_type g3 = 51"
    "received_frame T_DVB_SOF (cont_data (new_sof sf) @ e) = Some g4"
    "cont_data g4 = cont_data (new_sof sf) @ e" "get_message_type g4 = 1"
    using received_session [OF logon_request_bytes, where e = e and k = T_DVB_LOGON_REQ]
      received_session [OF logon_response_bytes, where e = e and k = T_DVB_LOGON_RESP]
      received_session [OF short_bytes(1), where e = e and k = T_DVB_LOGOFF]
      received_session [OF short_bytes(2), where e = e and k = T_DVB_SOF] by blast
  then show ?thesis
    by (simp add: logon_request_bytes logon_response_bytes short_bytes fields)
qed

end
