(* ===== verification/Dama_Agent.thy ===== *)
theory Dama_Agent
  imports Return_Schedule Circular_Buffer Sac Ttp Unit_Converter Fmt Dvb_Session
begin

text \<open>
  The agent of the demand assignment in a terminal (\<^verbatim>\<open>opensand-core/src/dvb/dama/DamaAgent.cpp\<close>,
  \<^verbatim>\<open>DamaAgentRcs2.cpp\<close>, \<^verbatim>\<open>DamaAgentRcs2Legacy.cpp\<close>): it measures the MAC FIFOs, asks the control
  centre for capacity in a SAC, reads its allocation in the time plan and has the return link scheduled
  within it.  The FIFOs are in the order of their map; probes and logs are left out.
\<close>

definition C_MAX_RBDC_IN_SAC :: rate_kbps where "C_MAX_RBDC_IN_SAC = 16320"
definition C_MAX_VBDC_IN_SAC :: vol_kb where "C_MAX_VBDC_IN_SAC = 4080"

record dama_agent =
  ag_parent_init :: bool
  ag_fifos :: pkt_fifos
  ag_tal_id :: tal_id
  ag_group_id :: group_id
  ag_superframe :: time_sf
  ag_rbdc_enabled :: bool
  ag_vbdc_enabled :: bool
  ag_frame_duration :: time_ms
  ag_cra_kbps :: rate_kbps
  ag_max_rbdc_kbps :: rate_kbps
  ag_rbdc_timeout_sf :: time_sf
  ag_max_vbdc_kb :: vol_kb
  ag_msl_sf :: time_sf
  ag_sync_period_sf :: time_sf
  ag_allocated_kb :: vol_kb
  ag_dynamic_allocation_kb :: vol_kb
  ag_remaining_allocation_b :: vol_b
  ag_burst_length_b :: vol_b
  ag_rbdc_buffer :: "circular_buffer option"
  ag_converter :: unit_converter
  ag_rbdc_timer_sf :: time_sf
  ag_modcod_def :: fmt_table
  ag_modcod_id :: fmt_id
  ag_vbdc_credit_kb :: vol_kb

section \<open>Initialisation\<close>

text \<open>The constructor leaves the terminal, the period and the burst length unset: \<open>any\<close>.  The converter
  does not exist before \<^verbatim>\<open>init\<close>; its first value is never used.\<close>

definition new_agent :: "tal_id \<Rightarrow> time_sf \<Rightarrow> vol_b \<Rightarrow> unit_converter \<Rightarrow> fmt_table \<Rightarrow> dama_agent" where
  "new_agent any_tal any_period any_burst any_converter table =
     \<lparr>ag_parent_init = False, ag_fifos = [], ag_tal_id = any_tal, ag_group_id = 0, ag_superframe = 0,
      ag_rbdc_enabled = False, ag_vbdc_enabled = False, ag_frame_duration = 0, ag_cra_kbps = 0,
      ag_max_rbdc_kbps = 0, ag_rbdc_timeout_sf = 0, ag_max_vbdc_kb = 0, ag_msl_sf = 0,
      ag_sync_period_sf = any_period, ag_allocated_kb = 0, ag_dynamic_allocation_kb = 0,
      ag_remaining_allocation_b = 0, ag_burst_length_b = any_burst, ag_rbdc_buffer = None,
      ag_converter = any_converter, ag_rbdc_timer_sf = 0, ag_modcod_def = table, ag_modcod_id = 0,
      ag_vbdc_credit_kb = 0\<rparr>"

fun enable_requests :: "pkt_fifos \<Rightarrow> dama_agent \<Rightarrow> dama_agent \<times> bool" where
  "enable_requests [] a = (a, True)"
| "enable_requests ((q, f) # fs) a =
     (case fifo_access f of
        Return_access dama_rbdc \<Rightarrow> enable_requests fs (a\<lparr>ag_rbdc_enabled := True\<rparr>)
      | Return_access dama_vbdc \<Rightarrow> enable_requests fs (a\<lparr>ag_vbdc_enabled := True\<rparr>)
      | Return_access dama_cra \<Rightarrow> enable_requests fs a
      | Return_access saloha \<Rightarrow> enable_requests fs a
      | _ \<Rightarrow> (a, False))"

definition agent_init_parent ::
  "time_ms \<Rightarrow> rate_kbps \<Rightarrow> rate_kbps \<Rightarrow> time_sf \<Rightarrow> vol_kb \<Rightarrow> time_sf \<Rightarrow> time_sf \<Rightarrow> pkt_fifos \<Rightarrow>
   dama_agent \<Rightarrow> dama_agent \<times> bool" where
  "agent_init_parent dur cra max_rbdc rbdc_timeout max_vbdc msl sync_period fifos a =
     (let (a', ok) = enable_requests fifos
            (a\<lparr>ag_frame_duration := dur, ag_cra_kbps := cra, ag_max_rbdc_kbps := max_rbdc,
              ag_rbdc_timeout_sf := rbdc_timeout, ag_max_vbdc_kb := max_vbdc, ag_msl_sf := msl,
              ag_sync_period_sf := sync_period, ag_fifos := fifos\<rparr>)
      in if ok then (a'\<lparr>ag_parent_init := True\<rparr>, True) else (a', False))"

text \<open>\<open>burst\<close> is the length the configuration gives.\<close>

definition agent_init :: "vol_sym option \<Rightarrow> dama_agent \<Rightarrow> (dama_agent \<times> bool) option" where
  "agent_init burst a = do {
     a1 \<leftarrow> (if ag_rbdc_enabled a
            then
              (if ag_sync_period_sf a = 0 then None
               else Some (a\<lparr>ag_rbdc_buffer :=
                      Some (new_buffer True (unat (ag_msl_sf a) div unat (ag_sync_period_sf a)))\<rparr>))
            else Some a);
     (case burst of
        None \<Rightarrow> Some (a1, False)
      | Some length_sym \<Rightarrow>
          (if length_sym = 0 then Some (a1, False)
           else
             (let i = get_max_id (ag_modcod_def a1);
                  c = new_converter (ag_frame_duration a1) 0 length_sym;
                  c' = (case get_definition (ag_modcod_def a1) i of
                          None \<Rightarrow> c
                        | Some d \<Rightarrow> set_modulation_efficiency (fmt_efficiency d) c)
              in Some (a1\<lparr>ag_converter := c', ag_modcod_id := i\<rparr>, True)))) }"

section \<open>The session\<close>

definition agent_logon_resp :: "'a dvb_frame_scheme \<Rightarrow> dama_agent \<Rightarrow> dama_agent" where
  "agent_logon_resp response a =
     a\<lparr>ag_group_id := response_group_id response, ag_tal_id := response_logon_id response\<rparr>"

definition agent_sof :: "time_sf \<Rightarrow> dama_agent \<Rightarrow> dama_agent" where
  "agent_sof sf a =
     a\<lparr>ag_superframe := sf, ag_rbdc_timer_sf := ag_rbdc_timer_sf a + 1,
       ag_dynamic_allocation_kb := ag_allocated_kb a, ag_allocated_kb := 0\<rparr>"

definition agent_frame_tick :: "dama_agent \<Rightarrow> dama_agent \<times> bool" where
  "agent_frame_tick a =
     (let a1 = a\<lparr>ag_remaining_allocation_b := ucast (ag_dynamic_allocation_kb a) * 1000,
                 ag_burst_length_b := packet_bit_length (ag_converter a)\<rparr>
      in case get_definition (ag_modcod_def a1) (ag_modcod_id a1) of
           None \<Rightarrow> (a1, False)
         | Some d \<Rightarrow> (a1\<lparr>ag_burst_length_b := remove_fec d (ag_burst_length_b a1)\<rparr>, True))"

section \<open>The allocation\<close>

text \<open>One plan of the time plan; a plan with an unknown scheme is left out but its scheme is kept.\<close>

definition take_plan :: "emu_tp \<Rightarrow> dama_agent \<Rightarrow> dama_agent" where
  "take_plan tp a =
     (let a1 = a\<lparr>ag_modcod_id := tp_fmt_id tp\<rparr>
      in case get_definition (ag_modcod_def a1) (ag_modcod_id a1) of
           None \<Rightarrow> a1\<lparr>ag_converter := set_modulation_efficiency 0 (ag_converter a1)\<rparr>
         | Some d \<Rightarrow>
             a1\<lparr>ag_converter := set_modulation_efficiency (fmt_efficiency d) (ag_converter a1),
                ag_allocated_kb := ag_allocated_kb a1 + tp_assignment_count tp\<rparr>)"

definition agent_ttp :: "'a dvb_frame_scheme \<Rightarrow> dama_agent \<Rightarrow> (dama_agent \<times> bool) option" where
  "agent_ttp ttp a =
     (let a1 = a\<lparr>ag_allocated_kb := 0\<rparr>
      in if ag_group_id a1 \<noteq> ttp_group_id ttp then Some (a1, True)
         else
           (case get_tp ttp (ag_tal_id a1) [] of
              None \<Rightarrow> None
            | Some (ttp', tps, ok) \<Rightarrow>
                (if \<not> ok then Some (a1, True)
                 else Some (foldl (\<lambda>a (i, tp). take_plan tp a) a1 tps, True))))"

definition set_frame_modcod :: "fmt_id \<Rightarrow> dvb_frame \<Rightarrow> dvb_frame" where
  "set_frame_modcod i f = (if get_message_type f = MSG_DvbBurst then set_modcod_id i f else f)"

definition agent_schedule ::
  "'h encapsulate \<Rightarrow> dvb_frame list \<Rightarrow> 'h \<Rightarrow> dama_agent \<Rightarrow>
     (dama_agent \<times> dvb_frame list \<times> 'h \<times> bool) option" where
  "agent_schedule enc frames h a = do {
     (m, ok) \<leftarrow> return_schedule enc (ag_burst_length_b a) (ag_fifos a) frames
                  (ag_remaining_allocation_b a) h;
     let a1 = a\<lparr>ag_fifos := ms_fifos m\<rparr>;
     (if \<not> ok then Some (a1, ms_complete m, ms_handler m, False)
      else Some (a1\<lparr>ag_remaining_allocation_b := ms_remaining_b m\<rparr>,
                 map (set_frame_modcod (ag_modcod_id a1)) (ms_complete m), ms_handler m, True)) }"

section \<open>The requests\<close>

definition fifos_bits :: "(pkt_fifo \<Rightarrow> vol_bytes) \<Rightarrow> return_access \<Rightarrow> dama_agent \<Rightarrow> vol_b" where
  "fifos_bits len acc a =
     foldl (\<lambda>n (q, f). if access_eq (fifo_access f) (Return_access acc) then n + push_bit 3 (len f) else n)
       0 (ag_fifos a)"

definition mac_buffer_length :: "return_access \<Rightarrow> dama_agent \<Rightarrow> vol_b" where
  "mac_buffer_length = fifos_bits cur_length_bytes"

definition mac_buffer_arrivals :: "return_access \<Rightarrow> dama_agent \<Rightarrow> vol_b" where
  "mac_buffer_arrivals = fifos_bits new_length_bytes"

definition check_rbdc_request :: "rate_kbps \<Rightarrow> rate_kbps" where
  "check_rbdc_request r = min r C_MAX_RBDC_IN_SAC"

definition check_vbdc_request :: "vol_kb \<Rightarrow> vol_kb" where
  "check_vbdc_request v = min v C_MAX_VBDC_IN_SAC"

text \<open>The quotients are taken of integers, so \<^verbatim>\<open>ceil\<close> changes nothing.\<close>

definition int_quotient :: "int \<Rightarrow> int \<Rightarrow> int option" where
  "int_quotient x y = (if x = - (2 ^ 31) \<and> y = - 1 then None else cdiv x y)"

definition compute_rbdc_request :: "dama_agent \<Rightarrow> rate_kbps option" where
  "compute_rbdc_request a = do {
     buffer \<leftarrow> ag_rbdc_buffer a;
     let rbdc_length_b = mac_buffer_length dama_rbdc a;
     let arrival_b = mac_buffer_arrivals dama_rbdc a;
     let period_ms = ucast (ag_rbdc_timer_sf a) * ag_frame_duration a;
     req \<leftarrow> int_quotient (sint (rbdc_length_b - period_ms * ucast (get_sum buffer)))
              (sint (ag_frame_duration a * ucast (ag_msl_sf a)));
     (if ag_rbdc_timer_sf a \<noteq> 0
      then do {
        rate \<leftarrow> udiv arrival_b period_ms;
        let total_kbps = int (unat rate) + max 0 req;
        (if 2 ^ 31 \<le> int (unat rate) \<or> 2 ^ 31 \<le> total_kbps then None
         else Some (check_rbdc_request (word_of_int total_kbps))) }
      else Some (check_rbdc_request (word_of_int (max 0 req)))) }"

definition compute_vbdc_request :: "dama_agent \<Rightarrow> (dama_agent \<times> vol_kb) option" where
  "compute_vbdc_request a =
     (let need = \<lceil>fl64 (num (mac_buffer_length dama_vbdc a) / 1000)\<rceil>
      in if 2 ^ 16 \<le> need then None
         else
           (let v = check_vbdc_request (word_of_int (max 0 need))
            in Some (a\<lparr>ag_vbdc_credit_kb := v\<rparr>, v)))"

definition reset_arrivals :: "dama_agent \<Rightarrow> dama_agent" where
  "reset_arrivals a = a\<lparr>ag_fifos := map (\<lambda>(q, f). (q, reset_new f (Return_access dama_rbdc))) (ag_fifos a)\<rparr>"

text \<open>The rate request, and whether it is sent; the buffer exists when rate requests are enabled.\<close>

definition rbdc_to_send :: "dama_agent \<Rightarrow> (rate_kbps \<times> bool) option" where
  "rbdc_to_send a =
     (if ag_rbdc_enabled a
      then do {
        r \<leftarrow> compute_rbdc_request a;
        buffer \<leftarrow> ag_rbdc_buffer a;
        Some (r, 0 < r \<or> r \<noteq> get_previous_value buffer) }
      else Some (0, False))"

definition vbdc_to_send :: "dama_agent \<Rightarrow> (dama_agent \<times> vol_kb \<times> bool) option" where
  "vbdc_to_send a =
     (if ag_vbdc_enabled a
      then do { (a', v) \<leftarrow> compute_vbdc_request a; Some (a', v, 0 < v) }
      else Some (a, 0, False))"

definition update_rbdc_buffer :: "rate_kbps \<Rightarrow> dama_agent \<Rightarrow> dama_agent option" where
  "update_rbdc_buffer r a = do {
     buffer \<leftarrow> ag_rbdc_buffer a;
     Some (a\<lparr>ag_rbdc_buffer := Some (update_buffer buffer r)\<rparr>) }"

text \<open>The result: the agent, the SAC and whether it is empty.  The result of \<^verbatim>\<open>addRequest\<close> is not
  looked at.\<close>

definition build_sac :: "sac \<Rightarrow> dama_agent \<Rightarrow> (dama_agent \<times> sac \<times> bool) option" where
  "build_sac s a = do {
     (r, send_rbdc) \<leftarrow> rbdc_to_send a;
     (a1, v, send_vbdc) \<leftarrow> vbdc_to_send a;
     (if \<not> send_rbdc \<and> \<not> send_vbdc then Some (a1, s, True)
      else do {
        (a2, s1) \<leftarrow>
          (if send_rbdc
           then do {
             a' \<leftarrow> update_rbdc_buffer r (a1\<lparr>ag_rbdc_timer_sf := 0\<rparr>);
             Some (reset_arrivals a', fst (add_request s 0 dama_rbdc (ucast r))) }
           else do { a' \<leftarrow> update_rbdc_buffer 0 a1; Some (a', s) });
        Some (a2, (if send_vbdc then fst (add_request s1 0 dama_vbdc (ucast v)) else s1), False) }) }"

section \<open>Requests fit the message\<close>

lemma check_bounds: "check_rbdc_request r \<le> 16320" "check_vbdc_request v \<le> 4080"
  by (simp_all add: check_rbdc_request_def check_vbdc_request_def C_MAX_RBDC_IN_SAC_def C_MAX_VBDC_IN_SAC_def)

lemma compute_rbdc_bound: "compute_rbdc_request a = Some r \<Longrightarrow> r \<le> 16320"
  by (auto simp: compute_rbdc_request_def Let_def check_bounds split: if_splits bind_splits)

lemma rbdc_to_send_bound: "rbdc_to_send a = Some (r, s) \<Longrightarrow> r \<le> 16320"
  by (auto simp: rbdc_to_send_def dest: compute_rbdc_bound split: if_splits bind_splits)

lemma vbdc_to_send_bound: "vbdc_to_send a = Some (a', v, s) \<Longrightarrow> v \<le> 4080"
  by (auto simp: vbdc_to_send_def compute_vbdc_request_def Let_def check_bounds split: if_splits bind_splits)

lemma vbdc_to_send_agent: "vbdc_to_send a = Some (a', v, s) \<Longrightarrow> \<exists>c. a' = a\<lparr>ag_vbdc_credit_kb := c\<rparr>"
  by (auto simp: vbdc_to_send_def compute_vbdc_request_def Let_def split: if_splits bind_splits
      intro: exI [of _ "ag_vbdc_credit_kb a"])

section \<open>The buffer of the rate requests\<close>

text \<open>What happens to an agent between its initialisation and the end: start of frames, time plans,
  frame ticks, requests, scheduling, and packets that other blocks put in its FIFOs.\<close>

inductive agent_step :: "'h encapsulate \<Rightarrow> dama_agent \<Rightarrow> dama_agent \<Rightarrow> bool" for enc where
  Logon_response: "agent_step enc a (agent_logon_resp (response :: dvb_frame) a)"
| Start_of_frame: "agent_step enc a (agent_sof sf a)"
| Time_plan: "agent_ttp (ttp :: dvb_frame) a = Some (a', ok) \<Longrightarrow> agent_step enc a a'"
| Frame_tick: "agent_step enc a (fst (agent_frame_tick a))"
| Request: "build_sac s a = Some (a', s', e) \<Longrightarrow> agent_step enc a a'"
| Schedule: "agent_schedule enc frames h a = Some (a', frames', h', ok) \<Longrightarrow> agent_step enc a a'"
| Packets: "map (\<lambda>(q, f). (q, fifo_access f)) fifos = map (\<lambda>(q, f). (q, fifo_access f)) (ag_fifos a) \<Longrightarrow>
    agent_step enc a (a\<lparr>ag_fifos := fifos\<rparr>)"

definition same_requests :: "dama_agent \<Rightarrow> dama_agent \<Rightarrow> bool" where
  "same_requests a a' \<longleftrightarrow> ag_rbdc_enabled a' = ag_rbdc_enabled a \<and> ag_vbdc_enabled a' = ag_vbdc_enabled a \<and>
     (ag_rbdc_buffer a' = None \<longleftrightarrow> ag_rbdc_buffer a = None)"

lemma take_plans_frame:
  "same_requests a (foldl (\<lambda>a (i, tp). take_plan tp a) a tps)"
proof (induction tps arbitrary: a)
  case (Cons x tps)
  obtain i tp where x: "x = (i, tp)" by (cases x)
  have "same_requests a (take_plan tp a)"
    by (simp add: take_plan_def same_requests_def Let_def split: option.split)
  with Cons [of "take_plan tp a"] show ?case by (simp add: x same_requests_def)
qed (simp add: same_requests_def)

lemma agent_ttp_plans:
  assumes "agent_ttp ttp a = Some (a', ok)"
  shows "\<exists>tps :: (u8 \<times> emu_tp) list. a' = foldl (\<lambda>a (i, tp). take_plan tp a) (a\<lparr>ag_allocated_kb := 0\<rparr>) tps"
proof (cases "get_tp ttp (ag_tal_id a) []")
  case (Some x)
  obtain ttp' tps found where x: "x = (ttp', tps, found)" by (cases x)
  with assms Some show ?thesis
    by (intro exI [of _ "if ag_group_id a = ttp_group_id ttp \<and> found then tps else []"])
      (simp add: agent_ttp_def Let_def split: if_splits)
qed (use assms in \<open>auto simp: agent_ttp_def Let_def intro!: exI [of _ "[]"] split: if_splits\<close>)

lemma build_sac_frame: "build_sac s a = Some (a', s', e) \<Longrightarrow> same_requests a a'"
  by (auto simp: build_sac_def same_requests_def update_rbdc_buffer_def reset_arrivals_def
      dest!: vbdc_to_send_agent split: if_splits bind_splits)

lemma agent_step_frame: "agent_step enc a a' \<Longrightarrow> same_requests a a'"
proof (induction rule: agent_step.induct)
  case (Time_plan ttp a a' ok)
  then obtain tps :: "(u8 \<times> emu_tp) list" where "a' = foldl (\<lambda>a (i, tp). take_plan tp a) (a\<lparr>ag_allocated_kb := 0\<rparr>) tps"
    using agent_ttp_plans by blast
  then show ?case using take_plans_frame [of "a\<lparr>ag_allocated_kb := 0\<rparr>" tps] by (simp add: same_requests_def)
next
  case (Request s a a' s' e)
  then show ?case by (rule build_sac_frame)
qed (auto simp: same_requests_def agent_logon_resp_def agent_sof_def agent_frame_tick_def agent_schedule_def
    Let_def split: option.splits if_splits bind_splits)

lemma enable_requests_rbdc:
  "enable_requests fs a = (a', True) \<Longrightarrow> Return_access dama_rbdc \<notin> (\<lambda>(q, f). fifo_access f) ` set fs \<Longrightarrow>
   ag_rbdc_enabled a' = ag_rbdc_enabled a \<and> ag_rbdc_buffer a' = ag_rbdc_buffer a"
proof (induction fs arbitrary: a)
  case (Cons x fs)
  obtain q f where x: "x = (q, f)" by (cases x)
  from Cons show ?case
    by (cases "fifo_access f" ; cases "case fifo_access f of Return_access r \<Rightarrow> r | _ \<Rightarrow> dama_cra")
      (auto simp: x split: access_type.splits return_access.splits)
qed simp

text \<open>A terminal whose FIFOs ask for volume only never gets a request through: in every state after
  its initialisation, building a SAC either faults, on the missing buffer of rate requests, or gives an
  empty SAC.\<close>

theorem volume_requests_fault:
  assumes "Return_access dama_rbdc \<notin> (\<lambda>(q, f). fifo_access f) ` set fifos"
    and "agent_init_parent dur cra mr rt mv msl sp fifos (new_agent t p bu c table) = (a0, True)"
    and "agent_init burst a0 = Some (a1, True)"
    and "rtranclp (agent_step enc) a1 a"
  shows "build_sac s a = None \<or> (\<exists>a'. build_sac s a = Some (a', s, True))"
proof -
  from assms(1,2) have "\<not> ag_rbdc_enabled a0 \<and> ag_rbdc_buffer a0 = None"
    by (auto simp: agent_init_parent_def new_agent_def Let_def split: prod.splits if_splits
        dest!: enable_requests_rbdc)
  with assms(3) have a1: "\<not> ag_rbdc_enabled a1 \<and> ag_rbdc_buffer a1 = None"
    by (auto simp: agent_init_def Let_def split: option.splits if_splits)
  from assms(4) have "\<not> ag_rbdc_enabled a \<and> ag_rbdc_buffer a = None"
    by (induction rule: rtranclp_induct) (use a1 agent_step_frame in \<open>auto simp: same_requests_def\<close>)
  then show ?thesis
    by (auto simp: build_sac_def rbdc_to_send_def update_rbdc_buffer_def dest: vbdc_to_send_agent
        split: bind_splits if_splits)
qed

lemma small_volume:
  assumes "0 < unat b" "unat b \<le> 1000"
  shows "\<lceil>fl64 (num b / 1000)\<rceil> = 1"
proof -
  have x: "0 < num b" "num b \<le> 1000" using assms by (simp_all add: num_def del: of_nat_unat)
  have "num b / 1000 * (1 - 1 / 2 ^ 53) \<le> fl64 (num b / 1000)" using x(1) by (intro fl_bounds(1)) simp
  moreover have "0 < num b / 1000 * (1 - 1 / 2 ^ 53)" using x(1) by simp
  ultimately have "0 < fl64 (num b / 1000)" by linarith
  moreover have "fl64 (num b / 1000) \<le> 1"
    using fl_le_of_int [of "num b / 1000" 1 53] x by simp
  ultimately show ?thesis by (simp add: ceiling_eq_iff)
qed

theorem volume_requests_fault_witness:
  "\<exists>fifos a0 a1 table. Return_access dama_rbdc \<notin> (\<lambda>(q, f). fifo_access f) ` set fifos \<and>
    agent_init_parent 10 0 0 5 100 2 1 fifos (new_agent 0 0 0 (new_converter 1 1 1) table) = (a0, True) \<and>
    agent_init (Some 1000) a0 = Some (a1, True) \<and>
    build_sac (new_sac 3 1) a1 = None \<and> unat (mac_buffer_length dama_vbdc a1) = 24"
proof -
  define f where "f = fst (push (new_fifo 0 ''EF'' ''DAMA_VBDC'' 10 :: pkt_fifo)
     \<lparr>fe_elem = new_packet [1, 2, 3], tick_in = 0, tick_out = 0\<rparr>)"
  have f: "fifo_access f = Return_access dama_vbdc" "cur_length_bytes f = 3"
    by (simp_all add: f_def push_def new_fifo_def access_of_name_def Let_def elem_length_def get_total_length_def
        new_packet_def new_container_def net_container.defs)
  let ?n = "new_agent 0 0 0 (new_converter 1 1 1) []"
  define a0 where "a0 = ?n\<lparr>ag_frame_duration := 10, ag_cra_kbps := 0, ag_max_rbdc_kbps := 0,
    ag_rbdc_timeout_sf := 5, ag_max_vbdc_kb := 100, ag_msl_sf := 2, ag_sync_period_sf := 1,
    ag_fifos := [(0, f)], ag_vbdc_enabled := True, ag_parent_init := True\<rparr>"
  have p: "agent_init_parent 10 0 0 5 100 2 1 [(0, f)] ?n = (a0, True)"
    by (simp add: agent_init_parent_def a0_def f)
  define a1 where "a1 = a0\<lparr>ag_converter := new_converter 10 0 1000, ag_modcod_id := 0\<rparr>"
  have i: "agent_init (Some 1000) a0 = Some (a1, True)"
    by (simp add: agent_init_def a1_def a0_def new_agent_def get_max_id_def get_definition_def)
  have b: "mac_buffer_length dama_vbdc a1 = 24"
    by (simp add: mac_buffer_length_def fifos_bits_def a1_def a0_def f push_bit_eq_mult)
  have v: "compute_vbdc_request a1 \<noteq> None" "\<forall>x. compute_vbdc_request a1 \<noteq> Some (x, 0)"
    using small_volume [of "24 :: u32"]
    by (simp_all add: compute_vbdc_request_def b check_vbdc_request_def C_MAX_VBDC_IN_SAC_def)
  have e: "ag_vbdc_enabled a1" by (simp add: a1_def a0_def)
  have "build_sac s a1 \<noteq> Some (a', s, True)" for s a'
    using v e by (auto simp: build_sac_def vbdc_to_send_def word_gt_0 split: bind_splits if_splits)
  with volume_requests_fault [OF _ p i rtranclp.rtrancl_refl, of "new_sac 3 1"] f
  have "build_sac (new_sac 3 1) a1 = None" by auto
  with p i b f show ?thesis by (intro exI [of _ "[(0, f)]"] exI [of _ a0] exI [of _ a1]) auto
qed

end
