(* ===== verification/Dama_Link.thy ===== *)
theory Dama_Link
  imports Dama_System Dama_Agent
begin

text \<open>
  The two ends of the demand assignment together: the request an agent puts in a SAC, and the
  allocation it takes from the time plan of the controller and spends in frames.
\<close>

section \<open>From the agent to the SAC\<close>

lemma build_sac_requests:
  assumes "rbdc_to_send a = Some (r, True)" "vbdc_to_send a = Some (a1, v, sv)"
  shows "\<exists>a'. build_sac s a = Some (a',
      add_requests s ((0, dama_rbdc, ucast r) # (if sv then [(0, dama_vbdc, ucast v)] else [])), False) \<and>
    ag_rbdc_timer_sf a' = 0"
proof -
  from assms(1) obtain b where b: "ag_rbdc_buffer a = Some b" "ag_rbdc_enabled a"
    by (auto simp: rbdc_to_send_def split: if_splits bind_splits)
  with vbdc_to_send_agent [OF assms(2)] have "ag_rbdc_buffer a1 = Some b" by auto
  with assms show ?thesis by (simp add: build_sac_def update_rbdc_buffer_def reset_arrivals_def)
qed

section \<open>From the time plan to the frames\<close>

lemma take_plan_known:
  assumes "get_definition (ag_modcod_def a) (tp_fmt_id tp) = Some fd"
  shows "take_plan tp a = a\<lparr>ag_modcod_id := tp_fmt_id tp,
    ag_converter := set_modulation_efficiency (fmt_efficiency fd) (ag_converter a),
    ag_allocated_kb := ag_allocated_kb a + tp_assignment_count tp\<rparr>"
  using assms by (simp add: take_plan_def Let_def)

lemma agent_takes_plan:
  assumes "ttp_group_id msg = ag_group_id a"
    and "get_tp msg (ag_tal_id a) [] = Some (msg', [(i, tp)], True)"
    and "get_definition (ag_modcod_def a) (tp_fmt_id tp) = Some fd"
  shows "\<exists>a1. agent_ttp msg a = Some (a1, True) \<and> ag_allocated_kb a1 = tp_assignment_count tp \<and>
    ag_modcod_id a1 = tp_fmt_id tp \<and> ag_modcod_def a1 = ag_modcod_def a \<and> ag_fifos a1 = ag_fifos a"
  using assms take_plan_known [of "a\<lparr>ag_allocated_kb := 0\<rparr>" tp fd] by (simp add: agent_ttp_def)

lemma tick_allocation:
  assumes "get_definition (ag_modcod_def a) (ag_modcod_id a) = Some fd"
  shows "\<exists>a2. agent_frame_tick (agent_sof sf a) = (a2, True) \<and>
    unat (ag_remaining_allocation_b a2) = 1000 * unat (ag_allocated_kb a) \<and>
    ag_modcod_id a2 = ag_modcod_id a \<and> ag_fifos a2 = ag_fifos a"
proof -
  have "unat (ag_allocated_kb a) < 2 ^ 16" using unsigned_less [of "ag_allocated_kb a", where ?'a = nat] by simp
  then have "unat (ucast (ag_allocated_kb a) * 1000 :: vol_b) = 1000 * unat (ag_allocated_kb a)"
    by (simp add: unat_word_ariths unat_ucast_promotions)
  with assms show ?thesis by (simp add: agent_frame_tick_def agent_sof_def)
qed

lemma set_frame_modcod_bits:
  assumes "frame_ok b f"
  shows "payload_bits (set_frame_modcod i f) = payload_bits f"
proof -
  have "6 \<le> length (cont_data f)" using assms by (simp add: frame_ok_def burst_wf_def)
  then show ?thesis by (simp add: set_frame_modcod_def set_modcod_id_def payload_bits_def)
qed

lemma agent_schedule_bits:
  assumes "handler_fits enc" "unat (ag_remaining_allocation_b a) < 2 ^ 31"
  shows "\<exists>a' frames h' ok. agent_schedule enc [] h a = Some (a', frames, h', ok) \<and>
    (\<forall>f \<in> set frames. 0 < payload_bits f) \<and>
    bits_of frames \<le> unat (ag_remaining_allocation_b a) + 8 * burst_bytes_of (ag_burst_length_b a)"
proof -
  from return_schedule_ends [OF assms, of "ag_burst_length_b a" "ag_fifos a" "[]" h]
  obtain m ok new where m: "return_schedule enc (ag_burst_length_b a) (ag_fifos a) []
      (ag_remaining_allocation_b a) h = Some (m, ok)" "ms_complete m = new"
    "\<forall>f \<in> set new. frame_ok (ag_burst_length_b a) f \<and> 0 < payload_bits f"
    "bits_of new \<le> unat (ag_remaining_allocation_b a) + 8 * burst_bytes_of (ag_burst_length_b a)" by auto
  have "bits_of (map (set_frame_modcod i) new) = bits_of new" for i
    using m(3) by (auto simp: bits_of_def comp_def set_frame_modcod_bits [of "ag_burst_length_b a"] intro!: arg_cong [of _ _ sum_list])
  with m show ?thesis by (cases ok) (auto simp: agent_schedule_def set_frame_modcod_bits [of "ag_burst_length_b a"])
qed

end
