(* ===== verification/Saloha_Packet.thy ===== *)
theory Saloha_Packet
  imports Dvb_Frame
begin

unbundle bit_operations_syntax

text \<open>
  The packets of Slotted Aloha (\<^verbatim>\<open>opensand-core/src/dvb/utils/SlottedAlohaPacket.h\<close>,
  \<^verbatim>\<open>SlottedAlohaPacketData.cpp\<close>, \<^verbatim>\<open>SlottedAlohaPacketCtrl.cpp\<close>).  A data packet is an
  encapsulation packet behind a 15-byte header and the table of the time slots of its replicas; a
  control packet carries the identifier of an acknowledged data packet as text.  The theory shows
  what is read back from a packet, and for which packets the identifier survives the text.
\<close>

section \<open>Byte strings that grow and shrink\<close>

text \<open>\<^verbatim>\<open>basic_string::insert\<close> and \<^verbatim>\<open>erase\<close> throw when the position is past the end.\<close>

definition insert_bytes :: "bytes \<Rightarrow> nat \<Rightarrow> bytes \<Rightarrow> bytes option" where
  "insert_bytes d k bs = (if k \<le> length d then Some (take k d @ bs @ drop k d) else None)"

definition erase_bytes :: "bytes \<Rightarrow> nat \<Rightarrow> nat \<Rightarrow> bytes option" where
  "erase_bytes d k n = (if k \<le> length d then Some (take k d @ drop (k + n) d) else None)"

section \<open>Data packets\<close>

record saloha_data = net_packet +
  sa_timeout :: time_sf
  sa_retransmissions :: u16

text \<open>The packed header: identifier at 0, time slot at 4, sequence at 6, number of packets at 8,
  number of replicas at 10, QoS at 12, total length at 13, replicas from 15 on.\<close>

definition SALOHA_DATA_HDR :: nat where "SALOHA_DATA_HDR = 15"

definition sa_get_id :: "saloha_data \<Rightarrow> u32" where
  "sa_get_id p = ntohl (read32 (cont_data p) 0)"

definition sa_get_ts :: "saloha_data \<Rightarrow> u16" where
  "sa_get_ts p = ntohs (read16 (cont_data p) 4)"

definition sa_get_seq :: "saloha_data \<Rightarrow> u16" where
  "sa_get_seq p = ntohs (read16 (cont_data p) 6)"

definition sa_get_pdu_nb :: "saloha_data \<Rightarrow> u16" where
  "sa_get_pdu_nb p = ntohs (read16 (cont_data p) 8)"

definition sa_get_nb_replicas :: "saloha_data \<Rightarrow> u16" where
  "sa_get_nb_replicas p = ntohs (read16 (cont_data p) 10)"

definition sa_get_qos :: "saloha_data \<Rightarrow> qos" where
  "sa_get_qos p = read8 (cont_data p) 12"

definition sa_packet_length :: "bytes \<Rightarrow> nat" where
  "sa_packet_length d = unat (ntohs (read16 d 13))"

definition sa_total_length :: "saloha_data \<Rightarrow> nat" where
  "sa_total_length p = sa_packet_length (cont_data p)"

definition sa_replicas_length :: "saloha_data \<Rightarrow> nat" where
  "sa_replicas_length p = unat (sa_get_nb_replicas p) * 2"

text \<open>The slot of a replica; the guard lets the position just after the last one through.\<close>

definition sa_get_replica :: "saloha_data \<Rightarrow> u16 \<Rightarrow> u16 option" where
  "sa_get_replica p pos =
     (if sa_get_nb_replicas p < pos then Some 0
      else if 15 + 2 * unat pos + 2 \<le> length (cont_data p)
           then Some (ntohs (read16 (cont_data p) (15 + 2 * unat pos)))
           else None)"

definition sa_set_ts :: "u16 \<Rightarrow> saloha_data \<Rightarrow> saloha_data" where
  "sa_set_ts ts p = p\<lparr>cont_data := write16 (cont_data p) 4 (htons ts)\<rparr>"

fun write_replicas :: "bytes \<Rightarrow> nat \<Rightarrow> u16 list \<Rightarrow> bytes option" where
  "write_replicas d i [] = Some d"
| "write_replicas d i (r # rs) =
     (if 15 + 2 * i + 2 \<le> length d
      then write_replicas (write16 d (15 + 2 * i) (htons r)) (Suc i) rs
      else None)"

text \<open>The table is enlarged or reduced at the end of the header, the number of replicas is set and
  the slots are written; a null array leaves the table as it is.\<close>

definition sa_resize :: "nat \<Rightarrow> saloha_data \<Rightarrow> bytes option" where
  "sa_resize nb p =
     (let cur = unat (sa_get_nb_replicas p) in
      if cur < nb
      then insert_bytes (cont_data p) (header_length p) (replicate ((nb - cur) * 2) 0)
      else if nb < cur
      then erase_bytes (cont_data p) (header_length p) ((cur - nb) * 2 * 2)
      else Some (cont_data p))"

definition sa_set_replicas :: "u16 list option \<Rightarrow> nat \<Rightarrow> saloha_data \<Rightarrow> saloha_data option" where
  "sa_set_replicas replicas nb p = do {
     d \<leftarrow> sa_resize nb p;
     let d1 = write16 d 10 (htons (of_nat nb));
     (case replicas of
        None \<Rightarrow> Some (p\<lparr>cont_data := d1\<rparr>)
      | Some rs \<Rightarrow>
          (if length rs < nb then None
           else do { d2 \<leftarrow> write_replicas d1 0 (take nb rs); Some (p\<lparr>cont_data := d2\<rparr>) })) }"

text \<open>The header is filled in a local structure whose QoS is not set: \<open>q\<close> is what the memory
  held.\<close>

definition new_saloha_data ::
  "qos \<Rightarrow> bytes \<Rightarrow> u32 \<Rightarrow> u16 \<Rightarrow> u16 \<Rightarrow> u16 \<Rightarrow> u16 \<Rightarrow> time_sf \<Rightarrow> saloha_data option" where
  "new_saloha_data q d i ts seq pdu_nb nb_replicas timeout =
     (let hdr = bytes32 (htonl i) @ bytes16 (htons ts) @ bytes16 (htons seq) @
            bytes16 (htons pdu_nb) @ bytes16 0 @ [q] @ bytes16 0;
          p = net_packet.extend
            ((new_packet d)\<lparr>cont_name := ''Slotted Aloha data'', header_length := 15,
               cont_data := hdr @ d\<rparr>)
            \<lparr>sa_timeout = timeout, sa_retransmissions = 0\<rparr>
      in do {
        p1 \<leftarrow> sa_set_replicas None (unat nb_replicas) p;
        Some (p1\<lparr>header_length := 15 + unat nb_replicas * 2,
          cont_data := write16 (cont_data p1) 13 (htons (of_nat (length (cont_data p1))))\<rparr>) })"

text \<open>A packet made from received bytes leaves its timeout and retransmissions unset: \<open>t\<close> and
  \<open>n\<close> are what the memory held.\<close>

definition received_saloha_data :: "time_sf \<Rightarrow> u16 \<Rightarrow> bytes \<Rightarrow> nat \<Rightarrow> saloha_data" where
  "received_saloha_data t n d len =
     net_packet.extend
       ((new_packet (take len d))\<lparr>cont_name := ''Slotted Aloha data'', header_length := 15\<rparr>)
       \<lparr>sa_timeout = t, sa_retransmissions = n\<rparr>"

definition sa_is_timeout :: "saloha_data \<Rightarrow> bool" where
  "sa_is_timeout p \<longleftrightarrow> sa_timeout p \<le> 0"

definition sa_set_timeout :: "time_sf \<Rightarrow> saloha_data \<Rightarrow> saloha_data" where
  "sa_set_timeout t p = p\<lparr>sa_timeout := t\<rparr>"

definition sa_dec_timeout :: "saloha_data \<Rightarrow> saloha_data" where
  "sa_dec_timeout p = p\<lparr>sa_timeout := word_of_int (max (uint (sa_timeout p) - 1) 0)\<rparr>"

definition sa_can_be_retransmitted :: "saloha_data \<Rightarrow> u16 \<Rightarrow> bool" where
  "sa_can_be_retransmitted p max_retransmissions \<longleftrightarrow> sa_retransmissions p < max_retransmissions"

definition sa_inc_retransmissions :: "saloha_data \<Rightarrow> saloha_data" where
  "sa_inc_retransmissions p = p\<lparr>sa_retransmissions := sa_retransmissions p + 1\<rparr>"

definition sa_set_qos :: "qos \<Rightarrow> saloha_data \<Rightarrow> saloha_data" where
  "sa_set_qos q p = p\<lparr>pkt_qos := q, cont_data := write8 (cont_data p) 12 q\<rparr>"

definition sa_payload_length :: "saloha_data \<Rightarrow> nat" where
  "sa_payload_length p =
     nat ((int (sa_total_length p) - 15 - int (sa_replicas_length p)) mod 2 ^ 64)"

definition sa_get_payload :: "saloha_data \<Rightarrow> bytes option" where
  "sa_get_payload p = substr (cont_data p) (15 + sa_replicas_length p) (sa_payload_length p)"

section \<open>Identifiers as text\<close>

text \<open>A number in decimal, as bytes; the identifier of a packet is its PDU, its sequence, the
  number of packets of the PDU and the QoS, separated by colons.  The PDU is printed as an
  \<^verbatim>\<open>int\<close>.\<close>

type_synonym saloha_id = bytes

fun show_nat :: "nat \<Rightarrow> bytes" where
  "show_nat n = (if n < 10 then [of_nat (48 + n)] else show_nat (n div 10) @ [of_nat (48 + n mod 10)])"

declare show_nat.simps [simp del]

definition show_int :: "int \<Rightarrow> bytes" where
  "show_int i = (if i < 0 then 45 # show_nat (nat (- i)) else show_nat (nat i))"

definition sa_unique_id :: "saloha_data \<Rightarrow> saloha_id" where
  "sa_unique_id p =
     show_int (sint (sa_get_id p)) @ [58] @ show_nat (unat (sa_get_seq p)) @ [58] @
     show_nat (unat (sa_get_pdu_nb p)) @ [58] @ show_nat (unat (sa_get_qos p))"

text \<open>Reading a 16-bit number from a stream: blanks are skipped, a sign is allowed (the negative
  of a number in range wraps around), a number out of range reads as 65535 and fails, as does the
  absence of digits, which reads as 0.\<close>

fun skip_white :: "bytes \<Rightarrow> bytes" where
  "skip_white (b # bs) = (if b \<in> {9, 10, 11, 12, 13, 32} then skip_white bs else b # bs)"
| "skip_white [] = []"

fun span_digits :: "bytes \<Rightarrow> nat \<Rightarrow> nat \<times> bytes" where
  "span_digits (b # bs) n =
     (if 48 \<le> b \<and> b \<le> 57 then span_digits bs (10 * n + (unat b - 48)) else (n, b # bs))"
| "span_digits [] n = (n, [])"

definition extract_u16 :: "bytes \<Rightarrow> u16 \<times> bytes option" where
  "extract_u16 s =
     (let t = skip_white s;
          neg = (t \<noteq> [] \<and> hd t = 45);
          u = (if t \<noteq> [] \<and> hd t \<in> {43, 45} then tl t else t);
          (n, rest) = span_digits u 0
      in if length rest = length u then (0, None)
         else if 65535 < n then (65535, None)
         else (if neg then - of_nat n else of_nat n, Some rest))"

definition extract_char :: "bytes \<Rightarrow> bytes option" where
  "extract_char s = (case skip_white s of [] \<Rightarrow> None | b # bs \<Rightarrow> Some bs)"

text \<open>After a failure the stream extracts nothing: the other entries of the table keep what the
  memory held.\<close>

fun read_ids :: "bytes \<Rightarrow> u16 list \<Rightarrow> u16 list" where
  "read_ids s [] = []"
| "read_ids s (g # gs) =
     (case extract_u16 s of
        (v, None) \<Rightarrow> v # gs
      | (v, Some s1) \<Rightarrow>
          v # (case extract_char s1 of None \<Rightarrow> gs | Some s2 \<Rightarrow> read_ids s2 gs))"

definition convert_packet_id :: "u16 list \<Rightarrow> saloha_id \<Rightarrow> u16 list" where
  "convert_packet_id garbage i = read_ids (takeWhile (\<lambda>b. b \<noteq> 0) i) (take 4 garbage)"

section \<open>Control packets\<close>

text \<open>The header holds the type at 0, the total length at 1 and the terminal at 3.\<close>

definition SALOHA_CTRL_ACK :: u8 where "SALOHA_CTRL_ACK = 1"

definition new_saloha_ctrl :: "bytes \<Rightarrow> u8 \<Rightarrow> tal_id \<Rightarrow> net_packet" where
  "new_saloha_ctrl d ctrl_type tal =
     (new_packet d)\<lparr>cont_name := ''Slotted Aloha control'', header_length := 5,
        cont_data := [ctrl_type] @ bytes16 (htons (of_nat (5 + length d))) @
          bytes16 (htons tal) @ d\<rparr>"

definition received_saloha_ctrl :: "bytes \<Rightarrow> nat \<Rightarrow> net_packet" where
  "received_saloha_ctrl d len =
     (new_packet (take len d))\<lparr>cont_name := ''Slotted Aloha control'', header_length := 5\<rparr>"

definition ctrl_type :: "net_packet \<Rightarrow> u8" where
  "ctrl_type p = read8 (cont_data p) 0"

definition ctrl_terminal_id :: "net_packet \<Rightarrow> u16" where
  "ctrl_terminal_id p = ntohs (read16 (cont_data p) 3)"

definition ctrl_packet_length :: "bytes \<Rightarrow> nat" where
  "ctrl_packet_length d = unat (ntohs (read16 d 1))"

definition ctrl_get_id :: "net_packet \<Rightarrow> saloha_id option" where
  "ctrl_get_id p = substr (cont_data p) 5 (nat ((int (ctrl_packet_length (cont_data p)) - 5) mod 2 ^ 64))"

section \<open>The layout of a data packet\<close>

text \<open>The bytes of a packet with the given fields; every packet the terminal builds has this
  layout, and the operations keep it.\<close>

definition slots_bytes :: "u16 list \<Rightarrow> bytes" where
  "slots_bytes rs = concat (map (\<lambda>r. bytes16 (htons r)) rs)"

definition data_layout ::
  "u32 \<Rightarrow> u16 \<Rightarrow> u16 \<Rightarrow> u16 \<Rightarrow> u16 \<Rightarrow> qos \<Rightarrow> u16 \<Rightarrow> bytes \<Rightarrow> bytes" where
  "data_layout i ts seq pdu n q tot rest =
     bytes32 (htonl i) @ bytes16 (htons ts) @ bytes16 (htons seq) @ bytes16 (htons pdu) @
     bytes16 (htons n) @ [q] @ bytes16 (htons tot) @ rest"

lemma length_slots_bytes [simp]: "length (slots_bytes rs) = 2 * length rs"
  by (induction rs) (simp_all add: slots_bytes_def)

lemma slots_bytes_simps [simp]:
  "slots_bytes [] = []" "slots_bytes (r # rs) = bytes16 (htons r) @ slots_bytes rs"
  by (simp_all add: slots_bytes_def)

lemma slots_bytes_append: "slots_bytes (rs @ ss) = slots_bytes rs @ slots_bytes ss"
  by (simp add: slots_bytes_def)

lemma slots_bytes_zeros: "slots_bytes (replicate n 0) = replicate (n * 2) 0"
  by (induction n) (simp_all add: bytes16_def bswap16_def)

lemma length_data_layout [simp]: "length (data_layout i ts seq pdu n q tot rest) = 15 + length rest"
  by (simp add: data_layout_def)

lemma drop_data_layout: "drop (15 + k) (data_layout i ts seq pdu n q tot rest) = drop k rest"
  by (simp add: data_layout_def numeral_eq_Suc)

lemma data_layout_fields [simp]:
  "read32 (data_layout i ts seq pdu n q tot rest) 0 = htonl i"
  "read16 (data_layout i ts seq pdu n q tot rest) 4 = htons ts"
  "read16 (data_layout i ts seq pdu n q tot rest) 6 = htons seq"
  "read16 (data_layout i ts seq pdu n q tot rest) 8 = htons pdu"
  "read16 (data_layout i ts seq pdu n q tot rest) 10 = htons n"
  "read8 (data_layout i ts seq pdu n q tot rest) 12 = q"
  "read16 (data_layout i ts seq pdu n q tot rest) 13 = htons tot"
  by (simp_all add: data_layout_def read32_bytes32 read16_skip read16_bytes16 read8_def nth_append
      read16_Cons)

lemma data_layout_writes [simp]:
  "write16 (data_layout i ts seq pdu n q tot rest) 4 (htons ts') = data_layout i ts' seq pdu n q tot rest"
  "write16 (data_layout i ts seq pdu n q tot rest) 10 (htons n') = data_layout i ts seq pdu n' q tot rest"
  "write8 (data_layout i ts seq pdu n q tot rest) 12 q' = data_layout i ts seq pdu n q' tot rest"
  "write16 (data_layout i ts seq pdu n q tot rest) 13 (htons t') = data_layout i ts seq pdu n q t' rest"
  by (simp_all add: data_layout_def write_at_skip write_at_front write_at_Cons)
    (simp add: write_at_def)

lemma write_slots:
  "length old = length rs \<Longrightarrow>
   write_replicas (data_layout i ts seq pdu n q tot (slots_bytes done @ slots_bytes old @ pl)) (length done) rs
     = Some (data_layout i ts seq pdu n q tot (slots_bytes done @ slots_bytes rs @ pl))"
proof (induction rs arbitrary: old "done")
  case Nil
  then show ?case by simp
next
  case (Cons r rs)
  then obtain x old' where old: "old = x # old'" "length old' = length rs"
    by (cases old) auto
  have "write16 (data_layout i ts seq pdu n q tot (slots_bytes done @ slots_bytes old @ pl))
      (15 + 2 * length done) (htons r)
    = data_layout i ts seq pdu n q tot (slots_bytes (done @ [r]) @ slots_bytes old' @ pl)"
    by (simp add: data_layout_def old write_at_skip write_at_Cons write_at_front slots_bytes_append)
  with Cons.IH [OF old(2), of "done @ [r]"] show ?case by (simp add: old slots_bytes_append)
qed

text \<open>A packet with its fields.\<close>

lemma unat_of_nat_len: "n < 2 ^ LENGTH('a) \<Longrightarrow> unat (of_nat n :: 'a::len word) = n"
  by (simp add: unsigned_of_nat take_bit_nat_eq_self)

lemma bswap16_0 [simp]: "bswap16 0 = 0"
  by (simp add: bswap16_def)

definition layout_total :: "u16 list \<Rightarrow> bytes \<Rightarrow> u16" where
  "layout_total rs pl = of_nat (15 + 2 * length rs + length pl)"

definition has_layout ::
  "saloha_data \<Rightarrow> u32 \<Rightarrow> u16 \<Rightarrow> u16 \<Rightarrow> u16 \<Rightarrow> qos \<Rightarrow> u16 list \<Rightarrow> bytes \<Rightarrow> bool" where
  "has_layout p i ts seq pdu q rs pl \<longleftrightarrow>
     15 + 2 * length rs + length pl < 2 ^ 16 \<and>
     cont_data p = data_layout i ts seq pdu (of_nat (length rs)) q
       (layout_total rs pl) (slots_bytes rs @ pl)"

lemma unat_layout_total:
  "15 + 2 * length rs + length pl < 2 ^ 16 \<Longrightarrow>
   unat (layout_total rs pl) = 15 + 2 * length rs + length pl"
  unfolding layout_total_def by (rule unat_of_nat_len) simp

lemma layout_getters:
  assumes "has_layout p i ts seq pdu q rs pl"
  shows "sa_get_id p = i" "sa_get_ts p = ts" "sa_get_seq p = seq" "sa_get_pdu_nb p = pdu"
    "sa_get_qos p = q" "unat (sa_get_nb_replicas p) = length rs"
    "sa_total_length p = length (cont_data p)"
    "length (cont_data p) = 15 + 2 * length rs + length pl"
  using assms
  by (simp_all add: has_layout_def sa_get_id_def sa_get_ts_def sa_get_seq_def sa_get_pdu_nb_def
      sa_get_qos_def sa_get_nb_replicas_def sa_total_length_def sa_packet_length_def unat_of_nat_len unat_layout_total)

lemma layout_payload:
  assumes "has_layout p i ts seq pdu q rs pl"
  shows "sa_get_payload p = Some pl"
proof -
  note g = layout_getters [OF assms]
  have "sa_payload_length p = length pl"
    using g by (simp add: sa_payload_length_def sa_replicas_length_def nat_mod_distrib)
      (use assms in \<open>simp add: has_layout_def\<close>)
  moreover have "drop (15 + 2 * length rs) (cont_data p) = pl"
    using assms by (simp add: has_layout_def drop_data_layout)
  ultimately show ?thesis
    using g by (simp add: sa_get_payload_def substr_def sa_replicas_length_def mult.commute)
qed

lemma layout_set_ts: "has_layout p i ts seq pdu q rs pl \<Longrightarrow> has_layout (sa_set_ts t p) i t seq pdu q rs pl"
  by (simp add: has_layout_def sa_set_ts_def)

lemma layout_set_qos: "has_layout p i ts seq pdu q rs pl \<Longrightarrow> has_layout (sa_set_qos c p) i ts seq pdu c rs pl"
  by (simp add: has_layout_def sa_set_qos_def)

lemma layout_set_replicas:
  assumes "has_layout p i ts seq pdu q rs pl" "length rs' = length rs"
  shows "\<exists>p'. sa_set_replicas (Some rs') (length rs) p = Some p' \<and>
    has_layout p' i ts seq pdu q rs' pl \<and> p' = p\<lparr>cont_data := cont_data p'\<rparr>"
proof -
  have "sa_resize (length rs) p = Some (cont_data p)"
    using layout_getters(6) [OF assms(1)] by (simp add: sa_resize_def)
  with assms write_slots [of rs rs' i ts seq pdu "of_nat (length rs)" q _ "[]" pl] show ?thesis
    by (simp add: sa_set_replicas_def has_layout_def layout_total_def)
qed

lemma layout_new:
  assumes "15 + 2 * unat n + length d < 2 ^ 16"
  shows "\<exists>p. new_saloha_data q d i ts seq pdu n t = Some p \<and>
    has_layout p i ts seq pdu q (replicate (unat n) 0) d \<and> sa_timeout p = t \<and>
    sa_retransmissions p = 0 \<and> src_tal_id p = 0"
proof -
  let ?h = "bytes32 (htonl i) @ bytes16 (htons ts) @ bytes16 (htons seq) @ bytes16 (htons pdu) @
      bytes16 0 @ [q] @ bytes16 0"
  let ?p = "net_packet.extend ((new_packet d)\<lparr>cont_name := ''Slotted Aloha data'',
      header_length := 15, cont_data := ?h @ d\<rparr>) \<lparr>sa_timeout = t, sa_retransmissions = 0\<rparr>"
  let ?z = "slots_bytes (replicate (unat n) 0)"
  have h: "?h @ r = data_layout i ts seq pdu 0 q 0 r" for r
    by (simp add: data_layout_def)
  have p: "cont_data ?p = data_layout i ts seq pdu 0 q 0 d" "header_length ?p = 15"
    using h [of d] by (simp_all add: net_packet.defs)
  have "unat (sa_get_nb_replicas ?p) = 0"
    by (simp only: sa_get_nb_replicas_def p) simp
  moreover have "insert_bytes (data_layout i ts seq pdu 0 q 0 d) 15 ?z
      = Some (data_layout i ts seq pdu 0 q 0 (?z @ d))"
    using drop_data_layout [of 0 i ts seq pdu 0 q 0 d]
    by (simp add: insert_bytes_def) (simp add: data_layout_def)
  moreover have "?z = replicate (unat n * 2) 0" by (rule slots_bytes_zeros)
  ultimately have "sa_resize (unat n) ?p = Some (data_layout i ts seq pdu 0 q 0 (?z @ d))"
    unfolding sa_resize_def p Let_def by (cases "unat n = 0") simp_all
  then have "sa_set_replicas None (unat n) ?p = Some (?p\<lparr>cont_data := data_layout i ts seq pdu n q 0 (?z @ d)\<rparr>)"
    by (simp add: sa_set_replicas_def)
  then show ?thesis
    using assms
    by (simp add: new_saloha_data_def has_layout_def layout_total_def net_packet.defs new_packet_def
        net_container.defs add.assoc)
qed

section \<open>What a packet carries\<close>

lemma read16_slots: "k < length rs \<Longrightarrow> read16 (slots_bytes rs @ d) (2 * k) = htons (rs ! k)"
proof (induction rs arbitrary: k)
  case (Cons r rs)
  then show ?case by (cases k) (simp_all add: read16_bytes16 read16_skip)
qed simp

lemma layout_replica:
  assumes "has_layout p i ts seq pdu q rs pl" "k < length rs"
  shows "sa_get_replica p (of_nat k) = Some (rs ! k)"
proof -
  note g = layout_getters [OF assms(1)]
  have "length rs < 2 ^ 16" using assms(1) by (simp add: has_layout_def)
  with assms(2) have k: "unat (of_nat k :: u16) = k" by (intro unat_of_nat_len) simp
  have "read16 (cont_data p) (15 + 2 * k) = htons (rs ! k)"
    using assms
    by (simp add: has_layout_def data_layout_def read16_skip read16_Cons read16_slots)
  with g k assms(2) show ?thesis
    by (simp add: sa_get_replica_def word_less_nat_alt)
qed

lemma layout_received:
  assumes "has_layout p i ts seq pdu q rs pl"
  shows "sa_packet_length (cont_data p @ e) = length (cont_data p)"
    "has_layout (received_saloha_data t m (cont_data p @ e) (length (cont_data p)))
       i ts seq pdu q rs pl"
proof -
  have "read16 (cont_data p @ e) 13 = read16 (cont_data p) 13"
    using layout_getters(8) [OF assms] by (intro read16_append) simp
  then show "sa_packet_length (cont_data p @ e) = length (cont_data p)"
    using layout_getters(7) [OF assms] by (simp add: sa_packet_length_def sa_total_length_def)
  show "has_layout (received_saloha_data t m (cont_data p @ e) (length (cont_data p)))
       i ts seq pdu q rs pl"
    using assms
    by (simp add: has_layout_def received_saloha_data_def net_packet.defs new_packet_def
        net_container.defs new_container_def)
qed

text \<open>A data packet built for the terminal is read back by the control centre: identifier,
  time slot, sequence, number of packets, QoS, slots of the replicas and the encapsulated packet,
  whatever follows it in the frame.\<close>

theorem saloha_packet_received:
  assumes "15 + 2 * unat n + length d < 2 ^ 16" "length rs = unat n" "k < unat n"
  shows "\<exists>p0 p. new_saloha_data g d i 0 seq pdu n t = Some p0 \<and>
    sa_set_replicas (Some rs) (unat n) (sa_set_qos q p0) = Some p \<and>
    (let bs = cont_data (sa_set_ts ts p) @ e;
         r = received_saloha_data t' m bs (sa_packet_length bs)
     in sa_get_id r = i \<and> sa_get_ts r = ts \<and> sa_get_seq r = seq \<and> sa_get_pdu_nb r = pdu \<and>
        sa_get_qos r = q \<and> sa_get_nb_replicas r = n \<and>
        sa_get_replica r (of_nat k) = Some (rs ! k) \<and> sa_get_payload r = Some d)"
proof -
  obtain p0 where p0: "new_saloha_data g d i 0 seq pdu n t = Some p0"
    "has_layout p0 i 0 seq pdu g (replicate (unat n) 0) d"
    using layout_new [OF assms(1)] by blast
  from layout_set_replicas [OF layout_set_qos [OF p0(2)], of rs q] assms(2)
  obtain p where p: "sa_set_replicas (Some rs) (unat n) (sa_set_qos q p0) = Some p"
    "has_layout p i 0 seq pdu q rs d" by auto
  note l = layout_set_ts [OF p(2), of ts]
  note r = layout_received [OF l]
  have n: "unat (sa_get_nb_replicas (received_saloha_data t' m (cont_data (sa_set_ts ts p) @ e)
      (length (cont_data (sa_set_ts ts p))))) = unat n"
    using layout_getters(6) [OF r(2)] assms(2) by simp
  from p0(1) p(1) layout_getters(1-5) [OF r(2)] n layout_payload [OF r(2)]
    layout_replica [OF r(2), of k] assms(2,3) r(1)
  show ?thesis by (auto simp: Let_def word_unat_eq_iff)
qed

theorem saloha_packet_received_witness:
  "\<exists>p0 p. new_saloha_data 0 [7, 8, 9] 5 0 1 2 3 10 = Some p0 \<and>
    sa_set_replicas (Some [11, 22, 33]) 3 (sa_set_qos 4 p0) = Some p \<and>
    (let bs = cont_data (sa_set_ts 22 p) @ [1]; r = received_saloha_data 0 0 bs (sa_packet_length bs)
     in sa_get_replica r 2 = Some 33 \<and> sa_get_payload r = Some [7, 8, 9])"
  using saloha_packet_received [of 3 "[7, 8, 9]" "[11, 22, 33]" 2 0 5 1 2 10 4 22 "[1]" 0 0]
  by (fastforce simp: Let_def)

section \<open>Identifiers\<close>

definition digits :: "bytes \<Rightarrow> bool" where
  "digits bs \<longleftrightarrow> bs \<noteq> [] \<and> (\<forall>b \<in> set bs. 48 \<le> b \<and> b \<le> 57)"

lemma span_digits_app:
  "\<forall>b \<in> set bs. 48 \<le> b \<and> b \<le> 57 \<Longrightarrow> span_digits (bs @ cs) n = span_digits cs (foldl (\<lambda>n b. 10 * n + (unat b - 48)) n bs)"
  by (induction bs arbitrary: n) auto

lemma show_nat_digits: "digits (show_nat n)"
proof (induction n rule: show_nat.induct)
  case (1 n)
  have d: "48 \<le> (of_nat (48 + m) :: u8) \<and> (of_nat (48 + m) :: u8) \<le> 57" if "m < 10" for m
  proof -
    from that have "unat (of_nat (48 + m) :: u8) = 48 + m" by (intro unat_of_nat_len) simp
    with that show ?thesis by (simp add: word_le_nat_alt)
  qed
  from 1 d [of n] d [of "n mod 10"] show ?case
    by (subst show_nat.simps) (auto simp: digits_def)
qed

lemma fold_show_nat: "foldl (\<lambda>n b. 10 * n + (unat b - 48)) 0 (show_nat n) = n"
proof (induction n rule: show_nat.induct)
  case (1 n)
  have d: "unat (of_nat (48 + m) :: u8) = 48 + m" if "m < 10" for m
    using that by (intro unat_of_nat_len) simp
  from 1 d [of n] d [of "n mod 10"] show ?case
    by (subst show_nat.simps) (auto simp del: of_nat_add)
qed

lemma span_show_nat:
  assumes "\<not> (\<exists>b cs. rest = b # cs \<and> 48 \<le> b \<and> b \<le> 57)"
  shows "span_digits (show_nat n @ rest) 0 = (n, rest)"
proof -
  have "span_digits rest m = (m, rest)" for m
    using assms by (cases rest) auto
  with show_nat_digits [of n] show ?thesis
    by (simp add: digits_def span_digits_app fold_show_nat)
qed

text \<open>Reading a number that was printed, before a colon or the end of the text.\<close>

lemma show_nat_head:
  obtains b bs where "show_nat n = b # bs" "48 \<le> b" "b \<le> 57"
  using show_nat_digits [of n] by (cases "show_nat n") (auto simp: digits_def)

lemma extract_show_nat:
  assumes "rest = [] \<or> hd rest = 58"
  shows "extract_u16 (show_nat n @ rest) =
    (if 65535 < n then (65535, None) else (of_nat n, Some rest))"
proof -
  obtain b bs where b: "show_nat n = b # bs" "48 \<le> b" "b \<le> 57" by (rule show_nat_head)
  have ne: "b \<notin> {9, 10, 11, 12, 13, 32}" "b \<notin> {43, 45}"
    using b(2) by (auto simp: word_le_nat_alt)
  have "span_digits (show_nat n @ rest) 0 = (n, rest)"
    using assms by (intro span_show_nat) (auto simp: word_le_nat_alt)
  with ne show ?thesis by (simp add: extract_u16_def b(1) Let_def)
qed

lemma extract_show_int:
  assumes "rest = [] \<or> hd rest = 58"
  shows "extract_u16 (show_int z @ rest) =
    (if 65535 < \<bar>z\<bar> then (65535, None) else (of_int z, Some rest))"
proof (cases "z < 0")
  case False
  then show ?thesis
    using extract_show_nat [OF assms, of "nat z"] by (auto simp: show_int_def)
next
  case True
  obtain b bs where b: "show_nat (nat (- z)) = b # bs" by (rule show_nat_head)
  have "span_digits (show_nat (nat (- z)) @ rest) 0 = (nat (- z), rest)"
    using assms by (intro span_show_nat) (auto simp: word_le_nat_alt)
  with True b show ?thesis
    by (auto simp: extract_u16_def show_int_def Let_def)
qed

lemma no_zero_show_nat: "0 \<notin> set (show_nat n)"
  using show_nat_digits [of n] by (auto simp: digits_def word_le_nat_alt)

lemma takeWhile_unique_id: "takeWhile (\<lambda>b. b \<noteq> 0) (sa_unique_id p) = sa_unique_id p"
  using no_zero_show_nat
  by (intro takeWhile_eq_all_conv [THEN iffD2]) (auto simp: sa_unique_id_def show_int_def)

lemma extract_char_colon: "extract_char (58 # bs) = Some bs"
  by (simp add: extract_char_def)

lemma extract_char_Nil: "extract_char [] = None"
  by (simp add: extract_char_def)

lemma packet_id_text:
  assumes "length g = 4"
  shows "convert_packet_id g (sa_unique_id p) =
    (if \<bar>sint (sa_get_id p)\<bar> \<le> 65535
     then [ucast (sa_get_id p), sa_get_seq p, sa_get_pdu_nb p, ucast (sa_get_qos p)]
     else 65535 # tl g)"
proof -
  obtain g0 g1 g2 g3 where g: "g = [g0, g1, g2, g3]"
    using assms by (auto simp: length_Suc_conv numeral_eq_Suc)
  have s: "\<not> 65535 < unat (w :: u16)" for w using unat_le_mask16 [of w] by simp
  have q: "\<not> 65535 < unat (w :: u8)" for w using unat_le_mask8 [of w] by simp
  have last: "extract_u16 (show_nat (unat (sa_get_qos p))) = (of_nat (unat (sa_get_qos p)), Some [])"
    using extract_show_nat [of "[]" "unat (sa_get_qos p)"] q by simp
  have i: "(scast (sa_get_id p) :: u16) = ucast (sa_get_id p)"
    by (rule bit_word_eqI) (auto simp: bit_simps)
  show ?thesis
    unfolding convert_packet_id_def takeWhile_unique_id
    by (simp add: g sa_unique_id_def extract_show_int extract_show_nat extract_char_colon s last i
        extract_char_Nil)
qed

text \<open>The identifier of a packet is read back from its text when its PDU number, printed as a
  signed integer, has a magnitude of at most 65535; otherwise the reading fails at the PDU number,
  and the sequence, the number of packets and the QoS are what the memory held.\<close>

theorem packet_id_read_back:
  assumes "length g = 4"
  shows "convert_packet_id g (sa_unique_id p) =
    (if \<bar>sint (sa_get_id p)\<bar> \<le> 65535
     then [ucast (sa_get_id p), sa_get_seq p, sa_get_pdu_nb p, ucast (sa_get_qos p)]
     else 65535 # tl g)"
  using assms by (rule packet_id_text)

theorem packet_id_read_back_witness:
  "\<exists>p. new_saloha_data 5 [] 65536 0 0 1 3 10 = Some p \<and>
    convert_packet_id [1, 2, 3, 4] (sa_unique_id p) = [65535, 2, 3, 4]"
proof -
  obtain p where p: "new_saloha_data 5 [] 65536 0 0 1 3 10 = Some p" "sa_get_id p = 65536"
    using layout_new [of 3 "[]" 5 65536 0 0 1 10] layout_getters(1) by auto
  have "convert_packet_id [1, 2, 3, 4] (sa_unique_id p) = [65535, 2, 3, 4]"
    using packet_id_read_back [of "[1, 2, 3, 4]" p] p(2) by simp
  with p(1) show ?thesis by auto
qed

section \<open>Control packets carry an identifier\<close>

lemma ctrl_received:
  fixes d e :: bytes and ty :: u8 and tal :: tal_id
  assumes "length d < 65531"
  defines "bs \<equiv> cont_data (new_saloha_ctrl d ty tal) @ e"
  shows "ctrl_packet_length bs = 5 + length d"
    "ctrl_type (received_saloha_ctrl bs (5 + length d)) = ty"
    "ctrl_terminal_id (received_saloha_ctrl bs (5 + length d)) = tal"
    "ctrl_get_id (received_saloha_ctrl bs (5 + length d)) = Some d"
proof -
  have tot: "unat (of_nat (5 + length d) :: u16) = 5 + length d"
    using assms(1) by (intro unat_of_nat_len) simp
  have len: "length (cont_data (new_saloha_ctrl d ty tal)) = 5 + length d"
    by (simp add: new_saloha_ctrl_def)
  have c: "cont_data (received_saloha_ctrl bs (5 + length d)) = cont_data (new_saloha_ctrl d ty tal)"
    using len by (simp add: bs_def received_saloha_ctrl_def new_packet_def net_container.defs
        new_container_def)
  have r: "read16 (cont_data (new_saloha_ctrl d ty tal) @ x) 1 = htons (of_nat (5 + length d))" for x
    by (simp add: new_saloha_ctrl_def read16_Cons read16_bytes16 del: of_nat_add)
  show "ctrl_packet_length bs = 5 + length d"
    using r [of e] tot by (simp add: ctrl_packet_length_def bs_def del: of_nat_add)
  have l: "ctrl_packet_length (cont_data (new_saloha_ctrl d ty tal)) = 5 + length d"
    using r [of "[]"] tot by (simp add: ctrl_packet_length_def del: of_nat_add)
  show "ctrl_type (received_saloha_ctrl bs (5 + length d)) = ty"
    by (simp add: ctrl_type_def c) (simp add: new_saloha_ctrl_def read8_def)
  show "ctrl_terminal_id (received_saloha_ctrl bs (5 + length d)) = tal"
    by (simp add: ctrl_terminal_id_def c)
      (simp add: new_saloha_ctrl_def read16_Cons read16_skip read16_bytes16)
  show "ctrl_get_id (received_saloha_ctrl bs (5 + length d)) = Some d"
    using assms(1)
    by (simp add: ctrl_get_id_def c l substr_def)
      (simp add: new_saloha_ctrl_def nat_mod_distrib numeral_eq_Suc)
qed

end
