(* ===== verification/Saloha_Backoff.thy ===== *)
theory Saloha_Backoff
  imports Floating
begin

text \<open>
  The backoff of Slotted Aloha (\<^verbatim>\<open>opensand-core/src/dvb/saloha/SlottedAlohaBackoff.cpp\<close>,
  \<^verbatim>\<open>SlottedAlohaBackoffBeb.cpp\<close>, \<^verbatim>\<open>SlottedAlohaBackoffEied.cpp\<close>,
  \<^verbatim>\<open>SlottedAlohaBackoffMimd.cpp\<close>): how many Slotted Aloha frames a terminal waits before it
  sends again.  Every value of \<^verbatim>\<open>rand()\<close> is an argument.  The contract of a backoff policy is
  a locale, of which the three classes are the instances.
\<close>

section \<open>Random draws\<close>

definition RAND_MAX :: nat where "RAND_MAX = 2147483647"

text \<open>\<^verbatim>\<open>(rand() / (double)RAND_MAX) * n\<close> for an integer \<open>n\<close>.\<close>

definition random_scaled :: "nat \<Rightarrow> nat \<Rightarrow> rat" where
  "random_scaled r n = fl64 (fl64 (of_nat r / of_nat RAND_MAX) * of_nat n)"

lemma random_scaled_nonneg: "0 \<le> random_scaled r n"
  by (simp add: random_scaled_def fl_nonneg)

lemma random_scaled_le:
  assumes "r \<le> RAND_MAX" "n < 2 ^ 53"
  shows "random_scaled r n \<le> of_nat n"
proof -
  have "(of_nat r / of_nat RAND_MAX :: rat) \<le> of_int 1"
    using assms(1) by (simp add: RAND_MAX_def)
  then have u: "fl64 (of_nat r / of_nat RAND_MAX) \<le> of_int 1"
    by (intro fl_le_of_int) simp_all
  have "fl64 (of_nat r / of_nat RAND_MAX) * of_nat n \<le> 1 * of_nat n"
    using u by (intro mult_right_mono) simp_all
  then have "random_scaled r n \<le> of_int (int n)"
    unfolding random_scaled_def using assms(2)
    by (intro fl_le_of_int) (simp_all add: fl_nonneg)
  then show ?thesis by simp
qed

lemma random_scaled_max: "n < 2 ^ 53 \<Longrightarrow> random_scaled RAND_MAX n = of_nat n"
  using fl_of_int [of 1 53] fl_of_int [of "int n" 53] by (simp add: random_scaled_def RAND_MAX_def)

lemma unat_trunc:
  assumes "0 \<le> x" "x < 2 ^ LENGTH('a)"
  shows "unat (trunc x :: 'a::len word) = nat \<lfloor>x\<rfloor>"
proof -
  have "0 \<le> \<lfloor>x\<rfloor>" "\<lfloor>x\<rfloor> < 2 ^ LENGTH('a)" using assms by (simp_all add: floor_less_iff)
  then show ?thesis using assms by (simp add: trunc_def unsigned_of_int take_bit_int_eq_self)
qed

section \<open>State and common operations\<close>

record backoff =
  cw_min :: u16
  cw_max :: u16
  cw :: u16
  backoff_frames :: u16
  backoff_multiple :: u16

definition new_backoff :: "u16 \<Rightarrow> u16 \<Rightarrow> backoff" where
  "new_backoff mx m =
     \<lparr>cw_min = 1, cw_max = mx, cw = 0, backoff_frames = 0, backoff_multiple = m\<rparr>"

definition backoff_tick :: "backoff \<Rightarrow> backoff" where
  "backoff_tick b = b\<lparr>backoff_frames := word_of_int (max (uint (backoff_frames b) - 1) 0)\<rparr>"

definition randomize :: "nat \<Rightarrow> backoff \<Rightarrow> backoff" where
  "randomize r b = b\<lparr>backoff_frames := trunc (random_scaled r (unat (cw b)))\<rparr>"

definition backoff_is_ready :: "backoff \<Rightarrow> bool" where
  "backoff_is_ready b \<longleftrightarrow> backoff_frames b \<le> 0"

section \<open>The three policies\<close>

text \<open>A product of two 16-bit values is computed as an \<^verbatim>\<open>int\<close>, which it can overflow.\<close>

definition int_product :: "u16 \<Rightarrow> u16 \<Rightarrow> int option" where
  "int_product a b = (let p = uint a * uint b in if p < 2 ^ 31 then Some p else None)"

definition set_window :: "nat \<Rightarrow> int \<Rightarrow> backoff \<Rightarrow> backoff" where
  "set_window r w b = randomize r (b\<lparr>cw := word_of_int (min w (uint (cw_max b)))\<rparr>)"

text \<open>The policies return the backoff too; it is the one of the new state.\<close>

definition beb_set_ready :: "nat \<Rightarrow> backoff \<Rightarrow> backoff option" where
  "beb_set_ready r b = Some (randomize r (b\<lparr>cw := cw_min b\<rparr>))"

definition beb_set_collision :: "nat \<Rightarrow> backoff \<Rightarrow> backoff option" where
  "beb_set_collision r b = do {
     w \<leftarrow> int_product (cw b) (backoff_multiple b);
     Some (set_window r w b) }"

text \<open>\<^verbatim>\<open>(int)sqrt(n)\<close> of a 16-bit value.\<close>

function isqrt_from :: "nat \<Rightarrow> nat \<Rightarrow> nat" where
  "isqrt_from k n = (if Suc k * Suc k \<le> n then isqrt_from (Suc k) n else k)"
  by auto
termination
proof (relation "measure (\<lambda>(k, n). n - k)")
  fix k n :: nat
  assume "Suc k * Suc k \<le> n"
  then have "Suc k \<le> n" by (rule order.trans [rotated]) simp
  then show "((Suc k, n), k, n) \<in> measure (\<lambda>(k, n). n - k)" by simp
qed simp

declare isqrt_from.simps [simp del]

definition isqrt :: "nat \<Rightarrow> nat" where
  "isqrt n = isqrt_from 0 n"

definition eied_set_ready :: "nat \<Rightarrow> backoff \<Rightarrow> backoff option" where
  "eied_set_ready r b = do {
     w \<leftarrow> int_product (cw b) (of_nat (isqrt (unat (backoff_multiple b))));
     Some (set_window r w b) }"

definition eied_set_collision :: "nat \<Rightarrow> backoff \<Rightarrow> backoff option" where
  "eied_set_collision r b = do {
     w \<leftarrow> int_product (cw b) (backoff_multiple b);
     Some (set_window r w b) }"

definition mimd_set_ready :: "nat \<Rightarrow> backoff \<Rightarrow> backoff option" where
  "mimd_set_ready r b = do {
     w \<leftarrow> cdiv (uint (cw b)) (uint (backoff_multiple b));
     Some (set_window r w b) }"

definition mimd_set_collision :: "nat \<Rightarrow> backoff \<Rightarrow> backoff option" where
  "mimd_set_collision r b = do {
     w \<leftarrow> int_product (cw b) (backoff_multiple b);
     Some (set_window r w b) }"

text \<open>The object a terminal holds is one of the three; the constructors call
  \<^verbatim>\<open>setReady\<close>.\<close>

datatype backoff_algo = BEB | EIED | MIMD

fun set_ready :: "backoff_algo \<Rightarrow> nat \<Rightarrow> backoff \<Rightarrow> backoff option" where
  "set_ready BEB = beb_set_ready"
| "set_ready EIED = eied_set_ready"
| "set_ready MIMD = mimd_set_ready"

fun set_collision :: "backoff_algo \<Rightarrow> nat \<Rightarrow> backoff \<Rightarrow> backoff option" where
  "set_collision BEB = beb_set_collision"
| "set_collision EIED = eied_set_collision"
| "set_collision MIMD = mimd_set_collision"

definition new_beb :: "nat \<Rightarrow> u16 \<Rightarrow> u16 \<Rightarrow> backoff option" where
  "new_beb r mx m = beb_set_ready r (new_backoff mx m)"

definition new_eied :: "nat \<Rightarrow> u16 \<Rightarrow> u16 \<Rightarrow> backoff option" where
  "new_eied r mx m = eied_set_ready r (new_backoff mx m)"

definition new_mimd :: "nat \<Rightarrow> u16 \<Rightarrow> u16 \<Rightarrow> backoff option" where
  "new_mimd r mx m = mimd_set_ready r (new_backoff mx m)"

fun new_policy :: "backoff_algo \<Rightarrow> nat \<Rightarrow> u16 \<Rightarrow> u16 \<Rightarrow> backoff option" where
  "new_policy BEB = new_beb"
| "new_policy EIED = new_eied"
| "new_policy MIMD = new_mimd"

section \<open>The interface: a backoff policy\<close>

text \<open>The window is bounded by its maximum (or 1), the backoff by the window.\<close>

definition bounded_backoff :: "u16 \<Rightarrow> backoff \<Rightarrow> bool" where
  "bounded_backoff mx b \<longleftrightarrow>
     cw_min b = 1 \<and> cw_max b = mx \<and> cw b \<le> max 1 mx \<and> backoff_frames b \<le> cw b"

datatype backoff_event = Tick | Ready nat | Collision nat

fun draws_ok :: "backoff_event \<Rightarrow> bool" where
  "draws_ok Tick = True"
| "draws_ok (Ready r) = (r \<le> RAND_MAX)"
| "draws_ok (Collision r) = (r \<le> RAND_MAX)"

lemma bounded_randomize:
  assumes "r \<le> RAND_MAX" "cw_min b = 1" "cw_max b = mx" "cw b \<le> max 1 mx"
  shows "bounded_backoff mx (randomize r b)"
proof -
  have c: "unat (cw b) < 2 ^ 16" using unsigned_less [of "cw b", where ?'a = nat] by simp
  have le: "random_scaled r (unat (cw b)) \<le> of_nat (unat (cw b))"
    using c by (intro random_scaled_le assms(1)) simp
  also have "(of_nat (unat (cw b)) :: rat) < of_nat (2 ^ 16)" using c by (simp only: of_nat_less_iff)
  finally have "unat (trunc (random_scaled r (unat (cw b))) :: u16) = nat \<lfloor>random_scaled r (unat (cw b))\<rfloor>"
    by (intro unat_trunc random_scaled_nonneg) simp
  also have "\<dots> \<le> unat (cw b)"
    using le by (simp add: floor_le_iff nat_le_iff del: of_nat_unat)
  finally have "trunc (random_scaled r (unat (cw b))) \<le> cw b" by (simp add: word_le_nat_alt)
  with assms show ?thesis by (simp add: bounded_backoff_def randomize_def)
qed

lemma bounded_set_window:
  assumes "r \<le> RAND_MAX" "bounded_backoff mx b" "0 \<le> w"
  shows "bounded_backoff mx (set_window r w b)"
proof -
  have mx: "cw_max b = mx" using assms(2) by (simp add: bounded_backoff_def)
  have "uint mx < 2 ^ 16" using unsigned_less [of mx, where ?'a = int] by simp
  then have "unat (word_of_int (min w (uint mx)) :: u16) = nat (min w (uint mx))"
    using assms(3) by (simp add: unsigned_of_int take_bit_int_eq_self)
  also have "\<dots> \<le> unat mx" by (simp add: nat_le_iff)
  finally have "word_of_int (min w (uint mx)) \<le> mx" by (simp add: word_le_nat_alt)
  then have "word_of_int (min w (uint mx)) \<le> max 1 mx" by (rule order.trans) simp
  with mx assms(1,2) show ?thesis
    unfolding set_window_def by (intro bounded_randomize) (simp_all add: bounded_backoff_def)
qed

lemma unat_tick: "unat (backoff_frames (backoff_tick b)) = unat (backoff_frames b) - 1"
proof -
  have n: "uint (backoff_frames b) = int (unat (backoff_frames b))" by simp
  have "unat (backoff_frames b) < 2 ^ 16"
    using unsigned_less [of "backoff_frames b", where ?'a = nat] by simp
  moreover have "nat (int k - 1) = k - Suc 0" for k by arith
  ultimately show ?thesis
    unfolding backoff_tick_def n
    by (simp add: unsigned_of_int take_bit_int_eq_self max_def del: of_nat_unat)
qed

lemma bounded_tick:
  assumes "bounded_backoff mx b"
  shows "bounded_backoff mx (backoff_tick b)"
proof -
  have "unat (backoff_frames (backoff_tick b)) \<le> unat (cw b)"
    using assms unfolding unat_tick bounded_backoff_def word_le_nat_alt by (meson diff_le_self order.trans)
  then have "backoff_frames (backoff_tick b) \<le> cw b" by (simp add: word_le_nat_alt)
  with assms show ?thesis by (simp add: bounded_backoff_def backoff_tick_def)
qed

lemma ticks_count_down:
  "unat (backoff_frames ((backoff_tick ^^ n) b)) = unat (backoff_frames b) - n"
  by (induction n) (simp_all add: unat_tick)

locale backoff_policy =
  fixes ready :: "nat \<Rightarrow> backoff \<Rightarrow> backoff option"
    and collision :: "nat \<Rightarrow> backoff \<Rightarrow> backoff option"
  assumes ready_bounded: "r \<le> RAND_MAX \<Longrightarrow> bounded_backoff mx b \<Longrightarrow> ready r b = Some b' \<Longrightarrow>
      bounded_backoff mx b'"
    and collision_bounded: "r \<le> RAND_MAX \<Longrightarrow> bounded_backoff mx b \<Longrightarrow> collision r b = Some b' \<Longrightarrow>
      bounded_backoff mx b'"
begin

fun step :: "backoff_event \<Rightarrow> backoff \<Rightarrow> backoff option" where
  "step Tick b = Some (backoff_tick b)"
| "step (Ready r) b = ready r b"
| "step (Collision r) b = collision r b"

fun run :: "backoff_event list \<Rightarrow> backoff \<Rightarrow> backoff option" where
  "run [] b = Some b"
| "run (e # es) b = do { c \<leftarrow> step e b; run es c }"

lemma step_bounded:
  "draws_ok e \<Longrightarrow> bounded_backoff mx b \<Longrightarrow> step e b = Some b' \<Longrightarrow> bounded_backoff mx b'"
  by (cases e) (auto intro: bounded_tick ready_bounded collision_bounded)

lemma run_bounded:
  "list_all draws_ok es \<Longrightarrow> bounded_backoff mx b \<Longrightarrow> run es b = Some b' \<Longrightarrow> bounded_backoff mx b'"
proof (induction es arbitrary: b)
  case (Cons e es)
  from Cons.prems(3) obtain c where c: "step e b = Some c" "run es c = Some b'"
    by (auto split: bind_splits)
  with Cons.prems step_bounded [of e mx b c] show ?case by (intro Cons.IH [of c]) simp_all
qed simp

lemma run_then_ready:
  assumes "list_all draws_ok es" "bounded_backoff mx b" "run es b = Some b'"
    "unat (max 1 mx) \<le> n"
  shows "backoff_is_ready ((backoff_tick ^^ n) b')"
proof -
  from run_bounded [OF assms(1-3)] have "backoff_frames b' \<le> max 1 mx"
    unfolding bounded_backoff_def by (meson order.trans)
  with assms(4) have "unat (backoff_frames b') \<le> n" by (simp add: word_le_nat_alt)
  then have "unat (backoff_frames ((backoff_tick ^^ n) b')) = 0" by (simp add: ticks_count_down)
  then show ?thesis by (simp add: backoff_is_ready_def unsigned_eq_0_iff)
qed

end

lemma cdiv_nonneg_result: "cdiv a b = Some w \<Longrightarrow> 0 \<le> a \<Longrightarrow> 0 \<le> b \<Longrightarrow> 0 \<le> w"
  by (cases "b = 0") (auto simp: cdiv_nonneg cdiv_def [of a 0] pos_imp_zdiv_nonneg_iff)

lemma int_product_nonneg: "int_product a b = Some w \<Longrightarrow> 0 \<le> w"
  by (auto simp: int_product_def Let_def split: if_splits)

lemmas window_defs = beb_set_collision_def eied_set_ready_def eied_set_collision_def
  mimd_set_ready_def mimd_set_collision_def

text \<open>Every operation but the reset of BEB sets the window to a nonnegative value, cut at its
  maximum.\<close>

lemma set_ready_window:
  "a \<noteq> BEB \<Longrightarrow> set_ready a r b = Some b' \<Longrightarrow> \<exists>w \<ge> 0. b' = set_window r w b"
  by (cases a)
    (auto simp: window_defs dest!: int_product_nonneg cdiv_nonneg_result split: bind_splits)

lemma set_collision_window: "set_collision a r b = Some b' \<Longrightarrow> \<exists>w \<ge> 0. b' = set_window r w b"
  by (cases a) (auto simp: window_defs dest!: int_product_nonneg split: bind_splits)

interpretation policy: backoff_policy "set_ready a" "set_collision a" for a
proof
  fix r mx b b'
  assume r: "r \<le> RAND_MAX" and b: "bounded_backoff mx b"
  show "bounded_backoff mx b'" if "set_ready a r b = Some b'"
  proof (cases "a = BEB")
    case True
    with that b show ?thesis
      by (auto simp: beb_set_ready_def bounded_backoff_def [of mx b] intro!: bounded_randomize [OF r])
  next
    case False
    with that set_ready_window bounded_set_window [OF r b] show ?thesis by blast
  qed
  show "bounded_backoff mx b'" if "set_collision a r b = Some b'"
    using that set_collision_window bounded_set_window [OF r b] by blast
qed

section \<open>Properties\<close>

lemma bounded_new: "bounded_backoff mx (new_backoff mx m)"
  by (simp add: bounded_backoff_def new_backoff_def)

lemma new_policy_ready: "new_policy a r mx m = set_ready a r (new_backoff mx m)"
  by (cases a) (simp_all add: new_beb_def new_eied_def new_mimd_def)

text \<open>C37: Whatever acknowledgements, losses and ticks a terminal has seen, and whatever the draws
  were, its backoff is over after at most as many Slotted Aloha frames as the maximum window (or
  one frame).\<close>

theorem backoff_ends:
  assumes "r \<le> RAND_MAX" "new_policy a r mx m = Some b" "list_all draws_ok es"
    "policy.run a es b = Some b'" "unat (max 1 mx) \<le> n"
  shows "backoff_is_ready ((backoff_tick ^^ n) b')"
proof -
  have "bounded_backoff mx b"
    using policy.ready_bounded [OF assms(1) bounded_new] assms(2) by (simp add: new_policy_ready)
  from policy.run_then_ready [OF assms(3) this assms(4,5)] show ?thesis .
qed

theorem backoff_ends_witness:
  "\<exists>b b'. new_policy BEB 7 8 2 = Some b \<and> policy.run BEB [Collision 5, Tick, Collision 6] b = Some b' \<and>
     backoff_is_ready ((backoff_tick ^^ 8) b')"
proof -
  define b where "b = randomize 7 (new_backoff 8 2\<lparr>cw := 1\<rparr>)"
  have b: "new_policy BEB 7 8 2 = Some b"
    by (simp add: new_beb_def beb_set_ready_def b_def new_backoff_def)
  have c: "cw b = 1" "backoff_multiple b = 2" "cw_max b = 8"
    by (simp_all add: b_def randomize_def new_backoff_def)
  then have "\<exists>b'. policy.run BEB [Collision 5, Tick, Collision 6] b = Some b'"
    unfolding policy.run.simps policy.step.simps
    by (simp add: beb_set_collision_def int_product_def set_window_def randomize_def backoff_tick_def)
  then obtain b' where b': "policy.run BEB [Collision 5, Tick, Collision 6] b = Some b'" ..
  from b b' backoff_ends [of 7 BEB 8 2 b "[Collision 5, Tick, Collision 6]" b' 8] show ?thesis
    by (auto simp: RAND_MAX_def)
qed

lemma window_zero:
  assumes "cw b = 0" "backoff_frames b = 0"
  shows "a \<noteq> BEB \<Longrightarrow> set_ready a r b = Some b' \<Longrightarrow> cw b' = 0 \<and> backoff_frames b' = 0"
    "a \<noteq> BEB \<Longrightarrow> set_collision a r b = Some b' \<Longrightarrow> cw b' = 0 \<and> backoff_frames b' = 0"
    "cw (backoff_tick b) = 0 \<and> backoff_frames (backoff_tick b) = 0"
  using assms
  by (cases a; auto simp: window_defs int_product_def set_window_def randomize_def random_scaled_def
      trunc_def cdiv_def min_def backoff_tick_def Let_def split: if_splits bind_splits)+

lemma run_window_zero:
  assumes "a \<noteq> BEB"
  shows "cw b = 0 \<Longrightarrow> backoff_frames b = 0 \<Longrightarrow> policy.run a es b = Some b' \<Longrightarrow>
    cw b' = 0 \<and> backoff_frames b' = 0"
proof (induction es arbitrary: b)
  case (Cons e es)
  from Cons.prems(3) obtain c where c: "policy.step a e b = Some c" "policy.run a es c = Some b'"
    by (auto split: bind_splits)
  from c(1) window_zero [OF Cons.prems(1,2)] assms have "cw c = 0 \<and> backoff_frames c = 0"
    by (cases e) auto
  with Cons.IH c(2) show ?case by blast
qed simp

text \<open>With EIED and MIMD the window starts at 0 and is only multiplied, divided and cut: it
  stays 0 and a terminal never backs off, however many packets it loses.\<close>

theorem eied_mimd_never_wait:
  assumes "a \<noteq> BEB" "new_policy a r mx m = Some b" "policy.run a es b = Some b'"
  shows "cw b' = 0 \<and> backoff_is_ready b'"
proof -
  have "cw b = 0 \<and> backoff_frames b = 0"
    using window_zero(1) [OF _ _ assms(1), of "new_backoff mx m" r b] assms(2)
    by (simp add: new_policy_ready new_backoff_def)
  with run_window_zero [OF assms(1)] assms(3) show ?thesis
    by (auto simp: backoff_is_ready_def)
qed

theorem eied_mimd_never_wait_witness:
  "\<exists>b b'. new_policy EIED 7 8 4 = Some b \<and> policy.run EIED [Collision 5, Collision 6] b = Some b' \<and>
     backoff_is_ready b'"
proof -
  have "\<exists>b. new_policy EIED 7 8 4 = Some b"
    by (simp add: new_eied_def eied_set_ready_def int_product_def new_backoff_def)
  then obtain b where b: "new_policy EIED 7 8 4 = Some b" ..
  then have "cw b = 0"
    by (auto simp: new_eied_def eied_set_ready_def int_product_def new_backoff_def set_window_def
        randomize_def)
  then have "\<exists>b'. policy.run EIED [Collision 5, Collision 6] b = Some b'"
    unfolding policy.run.simps policy.step.simps
    by (simp add: eied_set_collision_def int_product_def set_window_def randomize_def)
  then obtain b' where b': "policy.run EIED [Collision 5, Collision 6] b = Some b'" ..
  from b b' eied_mimd_never_wait [OF _ b b'] show ?thesis by auto
qed

end
