(* ===== verification/Saloha_Collision.thy ===== *)
theory Saloha_Collision
  imports Saloha_Packet Ordered_Map "HOL-Library.Sublist"
begin

text \<open>
  The slots of Slotted Aloha and the removal of collisions
  (\<^verbatim>\<open>opensand-core/src/dvb/utils/Slot.cpp\<close>,
  \<^verbatim>\<open>opensand-core/src/dvb/saloha/SlottedAlohaAlgoDsa.cpp\<close>,
  \<^verbatim>\<open>SlottedAlohaAlgoCrdsa.cpp\<close>).  A slot is a vector of owning pointers: \<open>None\<close> is the
  null pointer that a move leaves behind, and using it is a fault.  Both algorithms go through
  the slots in the order of their numbers.
\<close>

section \<open>Slots\<close>

record slot =
  slot_carriers_id :: u32
  slot_number :: u32
  slot_packets :: "saloha_data option list"

type_synonym slots = "(u32, slot) omap"

definition new_slot :: "u32 \<Rightarrow> u32 \<Rightarrow> slot" where
  "new_slot carriers n = \<lparr>slot_carriers_id = carriers, slot_number = n, slot_packets = []\<rparr>"

definition slot_release :: "slot \<Rightarrow> slot" where
  "slot_release s = s\<lparr>slot_packets := []\<rparr>"

definition slot_push :: "saloha_data \<Rightarrow> slot \<Rightarrow> slot" where
  "slot_push p s = s\<lparr>slot_packets := slot_packets s @ [Some p]\<rparr>"

definition release_all :: "slots \<Rightarrow> slots" where
  "release_all = map (\<lambda>(k, s). (k, slot_release s))"

text \<open>The identifiers accepted so far, per terminal; a terminal without an entry has none.\<close>

type_synonym accepted_ids = "tal_id \<Rightarrow> saloha_id list"

definition sa_terminal :: "saloha_data \<Rightarrow> tal_id" where
  "sa_terminal p = ucast (src_tal_id p)"

definition accept_id :: "saloha_data \<Rightarrow> accepted_ids \<Rightarrow> accepted_ids" where
  "accept_id p ids = ids(sa_terminal p := ids (sa_terminal p) @ [sa_unique_id p])"

definition already_accepted :: "saloha_data \<Rightarrow> accepted_ids \<Rightarrow> bool" where
  "already_accepted p ids \<longleftrightarrow> sa_unique_id p \<in> set (ids (sa_terminal p))"

section \<open>DSA\<close>

definition dsa_slot ::
  "accepted_ids \<Rightarrow> saloha_data list \<Rightarrow> u16 \<Rightarrow> slot \<Rightarrow>
     (slot \<times> accepted_ids \<times> saloha_data list \<times> u16) option" where
  "dsa_slot ids acc nbr s =
     (case slot_packets s of
        [] \<Rightarrow> Some (s, ids, acc, nbr)
      | [None] \<Rightarrow> None
      | [Some p] \<Rightarrow>
          (if already_accepted p ids then Some (slot_release s, ids, acc, nbr)
           else Some (slot_release s, accept_id p ids, acc @ [p], nbr))
      | ps \<Rightarrow> Some (slot_release s, ids, acc, nbr + of_nat (length ps)))"

fun dsa_loop ::
  "accepted_ids \<Rightarrow> saloha_data list \<Rightarrow> u16 \<Rightarrow> slots \<Rightarrow> (slots \<times> saloha_data list \<times> u16) option" where
  "dsa_loop ids acc nbr [] = Some ([], acc, nbr)"
| "dsa_loop ids acc nbr ((k, s) # m) = do {
     (s', ids', acc', nbr') \<leftarrow> dsa_slot ids acc nbr s;
     (m', r) \<leftarrow> dsa_loop ids' acc' nbr' m;
     Some ((k, s') # m', r) }"

definition dsa_remove_collisions ::
  "slots \<Rightarrow> saloha_data list \<Rightarrow> (slots \<times> saloha_data list \<times> u16) option" where
  "dsa_remove_collisions slots acc = dsa_loop (\<lambda>_. []) acc 0 slots"

section \<open>CRDSA\<close>

text \<open>The packets of a slot whose identifier was accepted are taken out of it.\<close>

fun suppress :: "accepted_ids \<Rightarrow> saloha_data option list \<Rightarrow> saloha_data option list option" where
  "suppress ids [] = Some []"
| "suppress ids (None # ps) = None"
| "suppress ids (Some p # ps) =
     (if already_accepted p ids then suppress ids ps
      else map_option (Cons (Some p)) (suppress ids ps))"

text \<open>One pass over the slots.  A packet alone in its slot is moved to the accepted packets; the
  slot keeps the pointer, now null.\<close>

definition crdsa_slot ::
  "accepted_ids \<Rightarrow> saloha_data list \<Rightarrow> bool \<Rightarrow> slot \<Rightarrow>
     (slot \<times> accepted_ids \<times> saloha_data list \<times> bool) option" where
  "crdsa_slot ids acc stop s =
     (if slot_packets s = [] then Some (s, ids, acc, stop)
      else do {
        ps \<leftarrow> suppress ids (slot_packets s);
        (case ps of
           [Some p] \<Rightarrow> Some (s\<lparr>slot_packets := [None]\<rparr>, accept_id p ids, acc @ [p], False)
         | _ \<Rightarrow> Some (s\<lparr>slot_packets := ps\<rparr>, ids, acc, stop)) })"

fun crdsa_pass ::
  "accepted_ids \<Rightarrow> saloha_data list \<Rightarrow> bool \<Rightarrow> slots \<Rightarrow>
     (slots \<times> accepted_ids \<times> saloha_data list \<times> bool) option" where
  "crdsa_pass ids acc stop [] = Some ([], ids, acc, stop)"
| "crdsa_pass ids acc stop ((k, s) # m) = do {
     (s', ids', acc', stop') \<leftarrow> crdsa_slot ids acc stop s;
     (m', r) \<leftarrow> crdsa_pass ids' acc' stop' m;
     Some ((k, s') # m', r) }"

definition live :: "saloha_data option list \<Rightarrow> nat" where
  "live ps = length (filter (\<lambda>p. p \<noteq> None) ps)"

definition live_packets :: "slots \<Rightarrow> nat" where
  "live_packets m = sum_list (map (\<lambda>(k, s). live (slot_packets s)) m)"

lemma live_suppress: "suppress ids ps = Some qs \<Longrightarrow> live qs \<le> live ps"
  by (induction ids ps arbitrary: qs rule: suppress.induct)
    (fastforce simp: live_def split: if_splits)+

lemma live_packets_Cons [simp]: "live_packets ((k, s) # m) = live (slot_packets s) + live_packets m"
  by (simp add: live_packets_def)

lemma suppress_live: "suppress ids ps = Some qs \<Longrightarrow> None \<notin> set qs \<and> None \<notin> set ps"
  by (induction ids ps arbitrary: qs rule: suppress.induct) (auto split: if_splits)

lemma crdsa_slot_cases:
  assumes "crdsa_slot ids acc stop s = Some (s', ids', acc', stop')"
  obtains (same) "slot_packets s = []" "s' = s" "ids' = ids" "acc' = acc" "stop' = stop"
  | (kept) ps where "slot_packets s \<noteq> []" "suppress ids (slot_packets s) = Some ps"
      "\<forall>p. ps \<noteq> [Some p]" "s' = s\<lparr>slot_packets := ps\<rparr>" "ids' = ids" "acc' = acc" "stop' = stop"
  | (accepted) p where "suppress ids (slot_packets s) = Some [Some p]"
      "s' = s\<lparr>slot_packets := [None]\<rparr>" "ids' = accept_id p ids" "acc' = acc @ [p]" "\<not> stop'"
  using assms
  by (auto simp: crdsa_slot_def split: if_splits bind_splits list.splits option.splits
      dest: suppress_live)

lemma crdsa_slot_live:
  assumes "crdsa_slot ids acc stop s = Some (s', ids', acc', stop')"
  shows "live (slot_packets s') \<le> live (slot_packets s)" "stop' \<Longrightarrow> stop"
    "stop \<Longrightarrow> \<not> stop' \<Longrightarrow> live (slot_packets s') < live (slot_packets s)"
  using assms
  by (cases rule: crdsa_slot_cases; fastforce simp: live_def dest: live_suppress)+

lemma crdsa_pass_live:
  "crdsa_pass ids acc stop m = Some (m', ids', acc', stop') \<Longrightarrow>
   live_packets m' \<le> live_packets m \<and> (stop \<and> \<not> stop' \<longrightarrow> live_packets m' < live_packets m)"
proof (induction m arbitrary: ids acc stop m')
  case (Cons e m)
  obtain k s where e: "e = (k, s)" by (cases e)
  from Cons.prems obtain s1 i1 a1 st1 m1 where
    1: "crdsa_slot ids acc stop s = Some (s1, i1, a1, st1)"
    "crdsa_pass i1 a1 st1 m = Some (m1, ids', acc', stop')" "m' = (k, s1) # m1"
    by (auto simp: e split: bind_splits)
  from Cons.IH [OF 1(2)] crdsa_slot_live [OF 1(1)] show ?case
    by (cases stop; cases st1) (auto simp: e 1(3))
qed simp

function crdsa_iterate ::
  "accepted_ids \<Rightarrow> saloha_data list \<Rightarrow> slots \<Rightarrow> (slots \<times> saloha_data list) option" where
  "crdsa_iterate ids acc m =
     (case crdsa_pass ids acc True m of
        None \<Rightarrow> None
      | Some (m', ids', acc', stop) \<Rightarrow>
          if stop then Some (m', acc') else crdsa_iterate ids' acc' m')"
  by auto
termination
  by (relation "measure (\<lambda>(ids, acc, m). live_packets m)") (auto dest: crdsa_pass_live)

declare crdsa_iterate.simps [simp del]

definition count_collisions :: "slots \<Rightarrow> u16" where
  "count_collisions m =
     foldl (\<lambda>n (k, s). if 1 < length (slot_packets s) then n + of_nat (length (slot_packets s)) else n) 0 m"

definition crdsa_remove_collisions ::
  "slots \<Rightarrow> saloha_data list \<Rightarrow> (slots \<times> saloha_data list \<times> u16) option" where
  "crdsa_remove_collisions slots acc = do {
     (m, acc') \<leftarrow> crdsa_iterate (\<lambda>_. []) acc slots;
     Some (release_all m, acc', count_collisions m) }"

datatype saloha_algo = DSA | CRDSA

fun remove_collisions_with ::
  "saloha_algo \<Rightarrow> slots \<Rightarrow> saloha_data list \<Rightarrow> (slots \<times> saloha_data list \<times> u16) option" where
  "remove_collisions_with DSA = dsa_remove_collisions"
| "remove_collisions_with CRDSA = crdsa_remove_collisions"

section \<open>DSA keeps the packets alone in their slot, once\<close>

definition all_live :: "slots \<Rightarrow> bool" where
  "all_live m \<longleftrightarrow> (\<forall>(k, s) \<in> set m. None \<notin> set (slot_packets s))"

lemma all_live_Cons [simp]:
  "all_live [] = True" "all_live ((k, s) # m) \<longleftrightarrow> None \<notin> set (slot_packets s) \<and> all_live m"
  by (auto simp: all_live_def)

text \<open>The reference: the packets alone in their slot, in the order of the slots, each identifier
  of a terminal taken once; every packet of the other slots is a collision.\<close>

definition packet_key :: "saloha_data \<Rightarrow> tal_id \<times> saloha_id" where
  "packet_key p = (sa_terminal p, sa_unique_id p)"

definition singles :: "slots \<Rightarrow> saloha_data list" where
  "singles m = concat (map (\<lambda>(k, s). case slot_packets s of [Some p] \<Rightarrow> [p] | _ \<Rightarrow> []) m)"

fun once :: "('a \<Rightarrow> 'b) \<Rightarrow> 'b set \<Rightarrow> 'a list \<Rightarrow> 'a list" where
  "once f seen [] = []"
| "once f seen (x # xs) =
     (if f x \<in> seen then once f seen xs else x # once f (insert (f x) seen) xs)"

definition collided :: "slots \<Rightarrow> nat" where
  "collided m = sum_list (map (\<lambda>(k, s). let n = length (slot_packets s) in if 1 < n then n else 0) m)"

lemma once_set: "f ` set (once f seen xs) = f ` set xs - seen"
  by (induction f seen xs rule: once.induct) auto

lemma once_distinct: "distinct (map f (once f seen xs))"
  by (induction f seen xs rule: once.induct) (simp_all add: once_set)

lemma once_subseq: "subseq (once f seen xs) xs"
  by (induction f seen xs rule: once.induct) auto

definition keys_of :: "accepted_ids \<Rightarrow> (tal_id \<times> saloha_id) set" where
  "keys_of ids = {(t, i). i \<in> set (ids t)}"

lemma keys_of_simps:
  "already_accepted p ids \<longleftrightarrow> packet_key p \<in> keys_of ids"
  "keys_of (accept_id p ids) = insert (packet_key p) (keys_of ids)"
  "keys_of (\<lambda>_. []) = {}"
  by (auto simp: already_accepted_def accept_id_def keys_of_def packet_key_def split: if_splits)

lemma dsa_loop_spec:
  "all_live m \<Longrightarrow> dsa_loop ids acc nbr m =
     Some (release_all m, acc @ once packet_key (keys_of ids) (singles m), nbr + of_nat (collided m))"
proof (induction m arbitrary: ids acc nbr)
  case Nil
  then show ?case by (simp add: release_all_def singles_def collided_def)
next
  case (Cons e m)
  obtain k s where e: "e = (k, s)" by (cases e)
  have IH: "dsa_loop i a n m =
      Some (release_all m, a @ once packet_key (keys_of i) (singles m), n + of_nat (collided m))" for i a n
    using Cons by (simp add: e)
  note sp = release_all_def singles_def collided_def e
  show ?case
  proof (cases "slot_packets s")
    case Nil
    then show ?thesis by (simp add: dsa_slot_def IH sp slot_release_def)
  next
    case p: (Cons p ps)
    with Cons.prems obtain q where q: "p = Some q" by (cases p) (auto simp: e)
    show ?thesis
    proof (cases ps)
      case Nil
      then show ?thesis by (simp add: dsa_slot_def IH sp p q keys_of_simps)
    next
      case (Cons x xs)
      then show ?thesis by (simp add: dsa_slot_def IH sp p q Let_def add.assoc)
    qed
  qed
qed

text \<open>C21: DSA computes the reference: it keeps the packets that were alone in their slot, in the
  order of the slots and each identifier once, empties every slot and counts the packets of the
  others as collisions, modulo 16 bits.\<close>

theorem dsa_keeps_singles:
  assumes "all_live m"
  shows "dsa_remove_collisions m acc =
    Some (release_all m, acc @ once packet_key {} (singles m), of_nat (collided m))"
  using dsa_loop_spec [OF assms, of "\<lambda>_. []" acc 0]
  by (simp add: dsa_remove_collisions_def keys_of_simps)

definition slot_of :: "u32 \<Rightarrow> saloha_data list \<Rightarrow> u32 \<times> slot" where
  "slot_of k ps = (k, foldl (\<lambda>s p. slot_push p s) (new_slot 1 k) ps)"

lemma slot_of_simps: "fst (slot_of k ps) = k" "slot_packets (snd (slot_of k ps)) = map Some ps"
proof -
  have "slot_packets (foldl (\<lambda>s p. slot_push p s) s ps) = slot_packets s @ map Some ps" for s
    by (induction ps arbitrary: s) (simp_all add: slot_push_def)
  then show "slot_packets (snd (slot_of k ps)) = map Some ps"
    by (simp add: slot_of_def new_slot_def)
qed (simp add: slot_of_def)

lemma two_packets:
  "\<exists>p q. new_saloha_data 0 [7, 8] 1 0 0 1 1 10 = Some p \<and> new_saloha_data 0 [9] 2 0 0 1 1 11 = Some q"
  using layout_new [of 1 "[7, 8]" 0 1 0 0 1 10] layout_new [of 1 "[9]" 0 2 0 0 1 11] by auto

theorem dsa_keeps_singles_witness:
  "\<exists>p q. new_saloha_data 0 [7, 8] 1 0 0 1 1 10 = Some p \<and> new_saloha_data 0 [9] 2 0 0 1 1 11 = Some q \<and>
     dsa_remove_collisions [slot_of 0 [p], slot_of 1 [p, q], slot_of 2 [p]] [] =
       Some (release_all [slot_of 0 [p], slot_of 1 [p, q], slot_of 2 [p]], [p], 2)"
proof -
  from two_packets obtain p q where pq: "new_saloha_data 0 [7, 8] 1 0 0 1 1 10 = Some p"
    "new_saloha_data 0 [9] 2 0 0 1 1 11 = Some q" by auto
  let ?m = "[slot_of 0 [p], slot_of 1 [p, q], slot_of 2 [p]]"
  have "all_live ?m" using slot_of_simps by (auto simp: all_live_def case_prod_unfold)
  moreover have "singles ?m = [p, p]" "collided ?m = 2"
    by (simp_all add: singles_def collided_def case_prod_unfold slot_of_simps)
  ultimately show ?thesis using dsa_keeps_singles [of ?m "[]"] pq by (intro exI [of _ p] exI [of _ q]) simp
qed

section \<open>CRDSA\<close>

lemma suppress_none: "None \<notin> set ps \<Longrightarrow> suppress (\<lambda>_. []) ps = Some ps"
proof (induction ps)
  case (Cons p ps)
  then show ?case by (cases p) (auto simp: already_accepted_def)
qed simp

lemma crdsa_pass_null: "(k, s) \<in> set m \<Longrightarrow> None \<in> set (slot_packets s) \<Longrightarrow> crdsa_pass ids acc stop m = None"
proof (induction m arbitrary: ids acc stop)
  case (Cons e m)
  show ?case
  proof (cases "e = (k, s)")
    case True
    with Cons.prems(2) have "crdsa_slot ids acc stop s = None"
      by (cases "suppress ids (slot_packets s)") (auto simp: crdsa_slot_def dest: suppress_live)
    with True show ?thesis by simp
  next
    case False
    with Cons have "crdsa_pass i a st m = None" for i a st by simp
    then show ?thesis by (cases e) (auto split: Option.bind_split)
  qed
qed simp

lemma crdsa_pass_single:
  assumes "crdsa_pass ids acc stop m = Some (m', ids', acc', stop')" "stop" "\<not> stop'"
  shows "\<exists>k s. (k, s) \<in> set m' \<and> None \<in> set (slot_packets s)"
  using assms
proof (induction m arbitrary: ids acc stop m')
  case (Cons e m)
  obtain k s where e: "e = (k, s)" by (cases e)
  from Cons.prems obtain s1 i1 a1 st1 m1 where
    1: "crdsa_slot ids acc stop s = Some (s1, i1, a1, st1)"
    "crdsa_pass i1 a1 st1 m = Some (m1, ids', acc', stop')" "m' = (k, s1) # m1"
    by (auto simp: e split: bind_splits)
  show ?case
  proof (cases st1)
    case True
    with Cons.IH [OF 1(2)] Cons.prems(3) 1(3) show ?thesis by auto
  next
    case False
    with 1(1) Cons.prems(2) have "slot_packets s1 = [None]" by (cases rule: crdsa_slot_cases) auto
    then show ?thesis by (intro exI [of _ k] exI [of _ s1]) (simp add: 1(3))
  qed
qed simp

lemma crdsa_pass_stop: "crdsa_pass ids acc False m = Some (m', ids', acc', stop') \<Longrightarrow> \<not> stop'"
proof (induction m arbitrary: ids acc m')
  case (Cons e m)
  obtain k s where e: "e = (k, s)" by (cases e)
  from Cons.prems obtain s1 i1 a1 st1 m1 where
    1: "crdsa_slot ids acc False s = Some (s1, i1, a1, st1)"
    "crdsa_pass i1 a1 st1 m = Some (m1, ids', acc', stop')"
    by (auto simp: e split: bind_splits)
  from crdsa_slot_live(2) [OF 1(1)] have "\<not> st1" by blast
  with Cons.IH 1(2) show ?case by simp
qed simp

lemma crdsa_first_pass:
  assumes "all_live m"
  shows "if singles m = [] then crdsa_pass (\<lambda>_. []) acc True m = Some (m, (\<lambda>_. []), acc, True)
    else \<forall>m' i a st. crdsa_pass (\<lambda>_. []) acc True m = Some (m', i, a, st) \<longrightarrow> \<not> st"
  using assms
proof (induction m)
  case Nil
  then show ?case by (simp add: singles_def)
next
  case (Cons e m)
  obtain k s where e: "e = (k, s)" by (cases e)
  have sup: "suppress (\<lambda>_. []) (slot_packets s) = Some (slot_packets s)"
    using Cons.prems by (intro suppress_none) (simp add: e)
  show ?case
  proof (cases "\<exists>p. slot_packets s = [Some p]")
    case True
    with sup show ?thesis
      by (auto simp: e singles_def crdsa_slot_def dest: crdsa_pass_stop split: bind_splits)
  next
    case False
    with sup have s: "crdsa_slot (\<lambda>_. []) acc True s = Some (s, (\<lambda>_. []), acc, True)"
      by (auto simp: crdsa_slot_def split: list.split option.split)
    have "singles (e # m) = singles m"
      using False by (auto simp: e singles_def split: list.split option.split)
    with Cons s show ?thesis by (auto simp: e split: if_splits bind_splits)
  qed
qed

lemma count_collisions_collided: "count_collisions m = of_nat (collided m)"
proof -
  have "foldl (\<lambda>n (k, s). if 1 < length (slot_packets s) then n + of_nat (length (slot_packets s)) else n)
      (x :: u16) m = x + of_nat (collided m)" for x
    by (induction m arbitrary: x) (auto simp: collided_def Let_def)
  then show ?thesis by (simp add: count_collisions_def)
qed

lemma crdsa_result:
  assumes "all_live m"
  shows "crdsa_remove_collisions m acc =
    (if singles m = [] then Some (release_all m, acc, of_nat (collided m)) else None)"
proof (cases "singles m = []")
  case True
  with crdsa_first_pass [OF assms, of acc] show ?thesis
    by (simp add: crdsa_remove_collisions_def crdsa_iterate.simps count_collisions_collided)
next
  case False
  have "crdsa_iterate (\<lambda>_. []) acc m = None"
  proof (cases "crdsa_pass (\<lambda>_. []) acc True m")
    case None
    then show ?thesis by (simp add: crdsa_iterate.simps)
  next
    case (Some r)
    obtain m' i a st where r: "r = (m', i, a, st)" by (cases r)
    with Some False crdsa_first_pass [OF assms, of acc] have st: "\<not> st" by auto
    from crdsa_pass_single [of _ acc True m m' i a st] Some r st
    obtain k s where "(k, s) \<in> set m'" "None \<in> set (slot_packets s)" by blast
    then have "crdsa_pass i a True m' = None" by (rule crdsa_pass_null)
    then have "crdsa_iterate i a m' = None" by (simp add: crdsa_iterate.simps)
    with Some r st show ?thesis by (simp add: crdsa_iterate.simps [of "\<lambda>_. []"])
  qed
  with False show ?thesis by (simp add: crdsa_remove_collisions_def)
qed

text \<open>CRDSA never accepts a packet: as soon as a packet is alone in its slot, its pointer is
  moved out of the slot and the next pass over the slots uses it.  When every slot is empty or
  collided it empties the slots and counts their packets.\<close>

theorem crdsa_faults_on_singles:
  assumes "all_live m"
  shows "crdsa_remove_collisions m acc =
    (if singles m = [] then Some (release_all m, acc, of_nat (collided m)) else None)"
  using assms by (rule crdsa_result)

theorem crdsa_faults_on_singles_witness:
  "\<exists>p q. new_saloha_data 0 [7, 8] 1 0 0 1 1 10 = Some p \<and> new_saloha_data 0 [9] 2 0 0 1 1 11 = Some q \<and>
     crdsa_remove_collisions [slot_of 0 [p], slot_of 1 [p, q]] [] = None \<and>
     crdsa_remove_collisions [slot_of 0 [p, q]] [] = Some (release_all [slot_of 0 [p, q]], [], 2)"
proof -
  from two_packets obtain p q where pq: "new_saloha_data 0 [7, 8] 1 0 0 1 1 10 = Some p"
    "new_saloha_data 0 [9] 2 0 0 1 1 11 = Some q" by auto
  let ?m = "[slot_of 0 [p], slot_of 1 [p, q]]" and ?n = "[slot_of 0 [p, q]]"
  have "all_live ?m" "all_live ?n" using slot_of_simps by (auto simp: all_live_def case_prod_unfold)
  moreover have "singles ?m = [p]" "singles ?n = []" "collided ?n = 2"
    by (simp_all add: singles_def collided_def case_prod_unfold slot_of_simps)
  ultimately show ?thesis
    using crdsa_faults_on_singles [of ?m "[]"] crdsa_faults_on_singles [of ?n "[]"] pq
    by (intro exI [of _ p] exI [of _ q]) simp
qed

section \<open>The interface: removing collisions\<close>

text \<open>What the controller relies on: the slots are emptied, and only packets that were alone in
  their slot are accepted, each identifier once.\<close>

locale collision_algorithm =
  fixes remove :: "slots \<Rightarrow> saloha_data list \<Rightarrow> (slots \<times> saloha_data list \<times> u16) option"
  assumes remove_releases: "all_live m \<Longrightarrow> remove m acc = Some (m', acc', n) \<Longrightarrow> m' = release_all m"
    and remove_accepts: "all_live m \<Longrightarrow> remove m acc = Some (m', acc', n) \<Longrightarrow>
      \<exists>new. acc' = acc @ new \<and> subseq new (singles m) \<and> distinct (map packet_key new)"
begin

lemma remove_live: "all_live m \<Longrightarrow> remove m acc = Some (m', acc', n) \<Longrightarrow> all_live m'"
  by (drule (1) remove_releases) (auto simp: all_live_def release_all_def slot_release_def)

lemma singles_release: "singles (release_all m) = []"
  by (induction m) (auto simp: singles_def release_all_def slot_release_def)

lemma remove_again:
  assumes "all_live m" "remove m acc = Some (m1, acc1, n1)" "remove m1 acc1 = Some (m2, acc2, n2)"
  shows "m2 = m1 \<and> acc2 = acc1"
proof -
  have m1: "m1 = release_all m" using assms(1,2) by (rule remove_releases)
  have l: "all_live m1" using assms(1,2) by (rule remove_live)
  have "m2 = release_all m1" using l assms(3) by (rule remove_releases)
  moreover have "release_all m1 = m1" unfolding m1 by (auto simp: release_all_def slot_release_def)
  moreover obtain new where "acc2 = acc1 @ new" "subseq new (singles m1)"
    using remove_accepts [OF l assms(3)] by blast
  moreover have "singles m1 = []" unfolding m1 by (rule singles_release)
  ultimately show ?thesis by simp
qed

lemma remove_accepted_from:
  assumes "all_live m" "remove m acc = Some (m', acc', n)"
  shows "set acc' \<subseteq> set acc \<union> set (singles m)"
  using remove_accepts [OF assms] by (auto dest: list_emb_set)

end

interpretation dsa: collision_algorithm dsa_remove_collisions
proof
  fix m acc m' acc' n
  assume m: "all_live m" "dsa_remove_collisions m acc = Some (m', acc', n)"
  from dsa_loop_spec [OF m(1), of "\<lambda>_. []" acc 0] m(2)
  have r: "m' = release_all m" "acc' = acc @ once packet_key {} (singles m)"
    by (simp_all add: dsa_remove_collisions_def keys_of_simps)
  then show "m' = release_all m" by simp
  show "\<exists>new. acc' = acc @ new \<and> subseq new (singles m) \<and> distinct (map packet_key new)"
    by (intro exI [of _ "once packet_key {} (singles m)"] conjI r(2) once_subseq once_distinct)
qed

lemma crdsa_accepts_nothing:
  "all_live m \<Longrightarrow> crdsa_remove_collisions m acc = Some (m', acc', n) \<Longrightarrow> m' = release_all m \<and> acc' = acc"
  by (simp add: crdsa_result split: if_splits)

interpretation crdsa: collision_algorithm crdsa_remove_collisions
  by unfold_locales (auto dest: crdsa_accepts_nothing)

interpretation saloha_algorithm: collision_algorithm "remove_collisions_with a" for a
proof (cases a)
  case DSA
  then show "collision_algorithm (remove_collisions_with a)"
    using dsa.collision_algorithm_axioms by simp
next
  case CRDSA
  then show "collision_algorithm (remove_collisions_with a)"
    using crdsa.collision_algorithm_axioms by simp
qed

end
