(* ===== verification/Saloha_Context.thy ===== *)
theory Saloha_Context
  imports Saloha_Collision Carriers Unit_Converter "HOL-Library.Multiset"
begin

text \<open>
  What the control centre keeps for Slotted Aloha: the carriers and their slots
  (\<^verbatim>\<open>opensand-core/src/dvb/utils/CarriersGroupSaloha.cpp\<close>), the categories of terminals
  (\<^verbatim>\<open>TerminalCategorySaloha.cpp\<close>) and the context of each terminal, in which the packets of
  an incomplete PDU wait (\<^verbatim>\<open>TerminalContextSaloha.cpp\<close>).
\<close>

section \<open>Carriers and their slots\<close>

record carriers_saloha = carriers_group +
  group_slots :: slots

definition new_carriers_saloha ::
  "u32 \<Rightarrow> fmt_group \<Rightarrow> u32 \<Rightarrow> rat \<Rightarrow> carrier_access \<Rightarrow> carriers_saloha" where
  "new_carriers_saloha i g ratio rate access =
     carriers_group.extend (new_carriers_group i g ratio rate access) \<lparr>group_slots = []\<rparr>"

text \<open>The loop runs from \<open>last_id\<close> while it is below the unsigned sum.\<close>

definition set_slots_number :: "u32 \<Rightarrow> u32 \<Rightarrow> carriers_saloha \<Rightarrow> carriers_saloha" where
  "set_slots_number slots_nbr last_id g =
     g\<lparr>group_slots :=
         foldl (\<lambda>m i. omap_put (of_nat i) (new_slot (carriers_id g) (of_nat i)) m) (group_slots g)
           [unat last_id ..< unat (last_id + slots_nbr * carriers_number g)]\<rparr>"

definition group_slots_number :: "carriers_saloha \<Rightarrow> u32" where
  "group_slots_number g = of_nat (length (group_slots g))"

section \<open>Categories\<close>

record saloha_category =
  sc_label :: string
  sc_access :: carrier_access
  sc_groups :: "carriers_saloha list"
  sc_accepted :: "saloha_data list"
  sc_received :: u32
  sc_terminals :: "tal_id list"

definition new_saloha_category :: "string \<Rightarrow> carrier_access \<Rightarrow> saloha_category" where
  "new_saloha_category label access =
     \<lparr>sc_label = label, sc_access = access, sc_groups = [], sc_accepted = [], sc_received = 0,
      sc_terminals = []\<rparr>"

text \<open>The number of slots of a carrier follows from the first scheme of its group.\<close>

definition group_fmt :: "carriers_saloha \<Rightarrow> fmt_def option" where
  "group_fmt g =
     (case group_members (fmt_group g) of
        [] \<Rightarrow> None
      | (i, _) # _ \<Rightarrow> get_definition (group_modcods (fmt_group g)) i)"

definition slots_per_carrier_of :: "unit_converter \<Rightarrow> carriers_saloha \<Rightarrow> unit_converter \<times> u32" where
  "slots_per_carrier_of cv g =
     (case group_fmt g of
        None \<Rightarrow> (cv, 0)
      | Some f \<Rightarrow>
          (let cv' = set_modulation_efficiency (fmt_efficiency f) cv
           in (cv', slots_number cv' (symbol_rate_symps g))))"

fun number_slots ::
  "unit_converter \<Rightarrow> u32 \<Rightarrow> carriers_saloha list \<Rightarrow> unit_converter \<times> carriers_saloha list" where
  "number_slots cv next_id [] = (cv, [])"
| "number_slots cv next_id (g # gs) =
     (let (cv1, n) = slots_per_carrier_of cv g;
          g1 = set_slots_number n next_id g;
          (cv2, gs1) = number_slots cv1 (next_id + group_slots_number g1) gs
      in (cv2, g1 # gs1))"

definition compute_slots_number ::
  "unit_converter \<Rightarrow> saloha_category \<Rightarrow> unit_converter \<times> saloha_category" where
  "compute_slots_number cv c =
     (let (cv', gs) = number_slots cv 0 (sc_groups c) in (cv', c\<lparr>sc_groups := gs\<rparr>))"

definition category_slots_number :: "saloha_category \<Rightarrow> u32" where
  "category_slots_number c = sum_list (map group_slots_number (sc_groups c))"

definition saloha_carriers_number :: "saloha_category \<Rightarrow> u32" where
  "saloha_carriers_number c = sum_list (map carriers_number (sc_groups c))"

text \<open>\<^verbatim>\<open>map::insert\<close> keeps the entry a key already has.\<close>

definition insert_slots :: "slots \<Rightarrow> slots \<Rightarrow> slots" where
  "insert_slots m new =
     foldl (\<lambda>m (k, s). if map_of m k = None then omap_put k s m else m) m new"

definition category_slots :: "saloha_category \<Rightarrow> slots" where
  "category_slots c = foldl (\<lambda>m g. insert_slots m (group_slots g)) [] (sc_groups c)"

text \<open>The map of slots the category hands out shares the slots of the groups: what is done to a
  slot of it is done to the slot of the first group that has its number.\<close>

fun store_slot :: "u32 \<Rightarrow> slot \<Rightarrow> carriers_saloha list \<Rightarrow> carriers_saloha list" where
  "store_slot k s [] = []"
| "store_slot k s (g # gs) =
     (if map_of (group_slots g) k = None then g # store_slot k s gs
      else g\<lparr>group_slots := omap_update (\<lambda>_. s) k (group_slots g)\<rparr> # gs)"

definition store_slots :: "slots \<Rightarrow> saloha_category \<Rightarrow> saloha_category" where
  "store_slots m c = c\<lparr>sc_groups := foldl (\<lambda>gs (k, s). store_slot k s gs) (sc_groups c) m\<rparr>"

definition increase_received :: "saloha_category \<Rightarrow> saloha_category" where
  "increase_received c = c\<lparr>sc_received := sc_received c + 1\<rparr>"

definition reset_received :: "saloha_category \<Rightarrow> saloha_category" where
  "reset_received c = c\<lparr>sc_received := 0\<rparr>"

definition saloha_category_add :: "tal_id \<Rightarrow> saloha_category \<Rightarrow> saloha_category" where
  "saloha_category_add t c = c\<lparr>sc_terminals := sc_terminals c @ [t]\<rparr>"

section \<open>Terminal contexts\<close>

type_synonym pdus = "(u32, saloha_data list) omap"

record term_saloha =
  ts_tal_id :: tal_id
  ts_category :: string
  wait_propagation :: "(qos, pdus) omap"
  oldest_id :: "(qos, u32) omap"
  old_count :: u32

definition new_term_saloha :: "tal_id \<Rightarrow> term_saloha" where
  "new_term_saloha t =
     \<lparr>ts_tal_id = t, ts_category = '''', wait_propagation = [], oldest_id = [], old_count = 0\<rparr>"

definition MAX_OLD_COUNTER :: u32 where "MAX_OLD_COUNTER = 0xFFFF"

text \<open>\<^verbatim>\<open>operator[]\<close> of a map: an absent key gets the default value.\<close>

definition omap_get :: "'v \<Rightarrow> 'k \<Rightarrow> ('k, 'v) omap \<Rightarrow> 'v" where
  "omap_get d k m = (case map_of m k of None \<Rightarrow> d | Some v \<Rightarrow> v)"

definition pdus_of :: "qos \<Rightarrow> term_saloha \<Rightarrow> pdus" where
  "pdus_of q t = omap_get [] q (wait_propagation t)"

definition set_pdus :: "qos \<Rightarrow> pdus \<Rightarrow> term_saloha \<Rightarrow> term_saloha" where
  "set_pdus q m t = t\<lparr>wait_propagation := omap_put q m (wait_propagation t)\<rparr>"

text \<open>The PDU nearest to the oldest one, in unsigned arithmetic.  The smallest distance starts from
  the conversion of 2 to the power of 32 to a 32-bit integer, which the language leaves undefined:
  it is the parameter \<open>md\<close>.\<close>

fun oldest_loop :: "qos \<Rightarrow> u32 \<Rightarrow> u32 \<Rightarrow> pdus \<Rightarrow> term_saloha \<Rightarrow> term_saloha" where
  "oldest_loop q oldest min_diff [] t = t"
| "oldest_loop q oldest min_diff ((i, _) # m) t =
     (if i - oldest < min_diff
      then oldest_loop q oldest (i - oldest) m (t\<lparr>oldest_id := omap_put q i (oldest_id t), old_count := 0\<rparr>)
      else oldest_loop q oldest min_diff m t)"

definition find_oldest :: "u32 \<Rightarrow> qos \<Rightarrow> term_saloha \<Rightarrow> term_saloha" where
  "find_oldest md q t =
     (let oldest = omap_get 0 q (oldest_id t); t0 = t\<lparr>oldest_id := omap_put q oldest (oldest_id t)\<rparr>;
          t1 = set_pdus q (pdus_of q t0) t0
      in if pdus_of q t1 = [] then t1\<lparr>oldest_id := omap_del q (oldest_id t1)\<rparr>
         else oldest_loop q oldest md (pdus_of q t1) t1)"

text \<open>Erasing a PDU that is not in the map is a fault.\<close>

definition handle_oldest :: "u32 \<Rightarrow> qos \<Rightarrow> u32 \<Rightarrow> term_saloha \<Rightarrow> term_saloha option" where
  "handle_oldest md q current t =
     (let oldest = omap_get 0 q (oldest_id t); t0 = t\<lparr>oldest_id := omap_put q oldest (oldest_id t)\<rparr>
      in if oldest = current then Some (find_oldest md q t0)
         else if old_count t0 > MAX_OLD_COUNTER then
           (if map_of (pdus_of q t0) oldest = None then None
            else Some (find_oldest md q (set_pdus q (omap_del oldest (pdus_of q t0)) t0)))
         else Some t0)"

datatype propagate_state = NoPropagation | Propagation

text \<open>The count of packets of the PDU is compared with the size of a local vector that stays
  empty.  The result is the new context, the PDU to propagate and whether there is one.  A vector
  of fewer than 17 packets is sorted by insertion, which is stable.\<close>

definition ctx_add_packet ::
  "u32 \<Rightarrow> u16 list \<Rightarrow> saloha_data \<Rightarrow> term_saloha \<Rightarrow>
     (term_saloha \<times> saloha_data list \<times> propagate_state) option" where
  "ctx_add_packet md garbage p t =
     (let pdu_id = sa_get_id p; q = sa_get_qos p;
          ids = convert_packet_id garbage (sa_unique_id p);
          sa_packets = [] :: saloha_data list;
          t1 = set_pdus q (omap_put pdu_id (omap_get [] pdu_id (pdus_of q t) @ [p]) (pdus_of q t)) t
      in if unat (ids ! 2) = length sa_packets then
           (let pdu = sort_key sa_get_seq (omap_get [] pdu_id (pdus_of q t1));
                t2 = set_pdus q (omap_del pdu_id (pdus_of q t1)) t1;
                t3 = t2\<lparr>old_count := old_count t2 + 1\<rparr>
            in do { t4 \<leftarrow> handle_oldest md q pdu_id t3; Some (t4, pdu, Propagation) })
         else if map_of (oldest_id t1) q = None
         then Some (t1\<lparr>oldest_id := omap_put q pdu_id (oldest_id t1), old_count := 0\<rparr>, [], NoPropagation)
         else Some (t1, [], NoPropagation))"

section \<open>The slots of a category\<close>

lemma omap_put_last:
  "\<forall>p \<in> set m. fst p < k \<Longrightarrow> omap_put k v m = m @ [(k, v)]"
  by (induction m) auto

lemma put_range:
  assumes "a \<le> b" "b < 2 ^ 32" "\<forall>p \<in> set m. unat (fst p) < a"
  shows "foldl (\<lambda>m i. omap_put (of_nat i :: u32) (f i) m) m [a ..< b] =
    m @ map (\<lambda>i. (of_nat i, f i)) [a ..< b]"
  using assms(1,2)
proof (induction b)
  case 0
  then show ?case by simp
next
  case (Suc b)
  show ?case
  proof (cases "a = Suc b")
    case False
    with Suc.prems have ab: "a \<le> b" by simp
    have u: "unat (of_nat i :: u32) = i" if "i \<le> b" for i
      using that Suc.prems(2) by (intro unat_of_nat_len) simp
    have "\<forall>p \<in> set (m @ map (\<lambda>i. (of_nat i, f i)) [a ..< b]). fst p < (of_nat b :: u32)"
      using assms(3) ab u by (auto simp: word_less_nat_alt)
    then have "omap_put (of_nat b) (f b) (m @ map (\<lambda>i. (of_nat i, f i)) [a ..< b]) =
        (m @ map (\<lambda>i. (of_nat i, f i)) [a ..< b]) @ [(of_nat b, f b)]"
      by (rule omap_put_last)
    with ab Suc show ?thesis by simp
  qed simp
qed

lemma insert_slots_last:
  "\<forall>p \<in> set m. \<forall>q \<in> set new. fst p < fst q \<Longrightarrow> sorted_wrt (<) (map fst new) \<Longrightarrow>
   insert_slots m new = m @ new"
proof (induction new arbitrary: m)
  case Nil
  then show ?case by (simp add: insert_slots_def)
next
  case (Cons e new)
  obtain k s where e: "e = (k, s)" by (cases e)
  have "map_of m k = None" using Cons.prems(1) by (force simp: e map_of_eq_None_iff)
  moreover have "omap_put k s m = m @ [(k, s)]"
    using Cons.prems(1) by (intro omap_put_last) (simp add: e)
  ultimately have "insert_slots m (e # new) = insert_slots (m @ [(k, s)]) new"
    by (simp add: insert_slots_def e)
  also have "\<dots> = (m @ [(k, s)]) @ new" using Cons.prems by (intro Cons.IH) (auto simp: e)
  finally show ?case by (simp add: e)
qed

text \<open>The slots a group asks for: those of one carrier, for each carrier.  They do not depend on
  the group the converter was last used for.\<close>

definition wanted_slots :: "unit_converter \<Rightarrow> carriers_saloha \<Rightarrow> nat" where
  "wanted_slots cv g = unat (snd (slots_per_carrier_of cv g)) * unat (carriers_number g)"

lemma wanted_slots_step: "wanted_slots (fst (slots_per_carrier_of cv h)) g = wanted_slots cv g"
  by (auto simp: wanted_slots_def slots_per_carrier_of_def Let_def set_modulation_efficiency_def
      split: option.split)

lemma set_slots_number_range:
  assumes "group_slots g = []" "unat a + unat n * unat (carriers_number g) < 2 ^ 32"
  defines "b \<equiv> unat a + unat n * unat (carriers_number g)"
  shows "group_slots (set_slots_number n a g) =
      map (\<lambda>i. (of_nat i, new_slot (carriers_id g) (of_nat i))) [unat a ..< b]"
proof -
  have "unat (n * carriers_number g) = unat n * unat (carriers_number g)"
    using assms(2) by (simp add: unat_word_ariths)
  then have "unat (a + n * carriers_number g) = b"
    using assms(2) by (simp add: b_def unat_word_ariths)
  with assms(2) put_range [of "unat a" b "[]" "\<lambda>i. new_slot (carriers_id g) (of_nat i)"] assms(1)
  show ?thesis by (simp add: set_slots_number_def b_def)
qed

lemma category_slots_range:
  assumes "\<forall>g \<in> set gs. group_slots g = []"
    "unat a + sum_list (map (wanted_slots cv) gs) < 2 ^ 32"
    "\<forall>p \<in> set m. unat (fst p) < unat a"
  defines "b \<equiv> unat a + sum_list (map (wanted_slots cv) gs)"
  shows "map fst (foldl (\<lambda>m g. insert_slots m (group_slots g)) m (snd (number_slots cv a gs))) =
      map fst m @ map of_nat [unat a ..< b] \<and>
    unat (sum_list (map group_slots_number (snd (number_slots cv a gs)))) = b - unat a"
  using assms(1,2,3) unfolding b_def
proof (induction gs arbitrary: cv a m)
  case Nil
  then show ?case by simp
next
  case (Cons g gs)
  obtain cv1 n where n: "slots_per_carrier_of cv g = (cv1, n)" by (cases "slots_per_carrier_of cv g")
  let ?w = "unat n * unat (carriers_number g)"
  let ?g1 = "set_slots_number n a g"
  have w: "wanted_slots cv g = ?w" by (simp add: wanted_slots_def n)
  have rest: "map (wanted_slots cv1) gs = map (wanted_slots cv) gs"
    using wanted_slots_step [of cv g] by (simp add: n)
  have lt: "unat a + ?w + sum_list (map (wanted_slots cv) gs) < 2 ^ 32"
    using Cons.prems(2) by (simp add: w)
  have g1: "group_slots ?g1 = map (\<lambda>i. (of_nat i, new_slot (carriers_id g) (of_nat i)))
      [unat a ..< unat a + ?w]"
    using Cons.prems(1) lt by (intro set_slots_number_range) simp_all
  have len: "unat (group_slots_number ?g1) = ?w"
    using lt unfolding group_slots_number_def g1 by (subst unat_of_nat_len) simp_all
  have a1: "unat (a + group_slots_number ?g1) = unat a + ?w"
    using lt by (subst unat_add_small) (simp_all add: len)
  have keys: "unat (of_nat i :: u32) = i" if "i < unat a + ?w" for i
    using that lt by (intro unat_of_nat_len) simp
  have ins: "insert_slots m (group_slots ?g1) = m @ group_slots ?g1"
  proof (rule insert_slots_last)
    show "\<forall>p \<in> set m. \<forall>q \<in> set (group_slots ?g1). fst p < fst q"
      using Cons.prems(3) keys by (fastforce simp: g1 word_less_nat_alt)
    show "sorted_wrt (<) (map fst (group_slots ?g1))"
      unfolding g1 list.map_comp sorted_wrt_map
      by (rule sorted_wrt_mono_rel [OF _ sorted_wrt_upt]) (simp add: word_less_nat_alt keys)
  qed
  have pre: "\<forall>p \<in> set (m @ group_slots ?g1). unat (fst p) < unat (a + group_slots_number ?g1)"
  proof
    fix p assume "p \<in> set (m @ group_slots ?g1)"
    then consider "p \<in> set m" | i where "p = (of_nat i, new_slot (carriers_id g) (of_nat i))"
        "i < unat a + ?w"
      by (auto simp: g1)
    then show "unat (fst p) < unat (a + group_slots_number ?g1)"
    proof cases
      case 1
      with Cons.prems(3) have "unat (fst p) < unat a" by blast
      then show ?thesis unfolding a1 by (rule trans_less_add1)
    next
      case 2
      then have "unat (fst p) = i" by (simp only: fst_conv keys)
      with 2(2) show ?thesis by (simp only: a1)
    qed
  qed
  let ?r = "snd (number_slots cv1 (a + group_slots_number ?g1) gs)"
  have IH: "map fst (foldl (\<lambda>m g. insert_slots m (group_slots g)) (m @ group_slots ?g1) ?r) =
      map fst (m @ group_slots ?g1) @
        map of_nat [unat a + ?w ..< unat a + ?w + sum_list (map (wanted_slots cv) gs)] \<and>
    unat (sum_list (map group_slots_number ?r)) = sum_list (map (wanted_slots cv) gs)"
    using Cons.IH [of "a + group_slots_number ?g1" cv1 "m @ group_slots ?g1", OF _ _ pre]
      Cons.prems(1) lt
    by (simp add: a1 rest)
  have step: "snd (number_slots cv a (g # gs)) = ?g1 # ?r"
    by (simp add: n Let_def case_prod_unfold)
  have "unat (group_slots_number ?g1 + sum_list (map group_slots_number ?r)) =
      ?w + sum_list (map (wanted_slots cv) gs)"
    using lt IH by (subst unat_add_small) (simp_all add: len)
  moreover have "[unat a ..< unat a + (?w + sum_list (map (wanted_slots cv) gs))] =
      [unat a ..< unat a + ?w] @
      [unat a + ?w ..< unat a + ?w + sum_list (map (wanted_slots cv) gs)]"
    by (simp only: add.assoc [symmetric] upt_add_eq_append [OF le_add1])
  ultimately show ?case
    using IH unfolding step by (simp add: ins [unfolded g1] w g1 comp_def add.assoc)
qed

text \<open>The slots of a category are numbered from 0 without a gap or a duplicate over its groups
  of carriers, as many as the carriers ask for.\<close>

theorem slots_numbered:
  assumes "\<forall>g \<in> set (sc_groups c). group_slots g = []"
    "sum_list (map (wanted_slots cv) (sc_groups c)) < 2 ^ 32"
  shows "map fst (category_slots (snd (compute_slots_number cv c))) =
      map of_nat [0 ..< sum_list (map (wanted_slots cv) (sc_groups c))] \<and>
    unat (category_slots_number (snd (compute_slots_number cv c))) =
      sum_list (map (wanted_slots cv) (sc_groups c))"
  using category_slots_range [of "sc_groups c" 0 cv "[]"] assms
  by (simp add: compute_slots_number_def category_slots_def category_slots_number_def
      case_prod_unfold Let_def)

theorem slots_numbered_witness:
  "\<exists>c. map fst (category_slots (snd (compute_slots_number (new_converter 1 1 1) c))) = [] \<and> sc_groups c \<noteq> []"
proof -
  let ?g = "new_carriers_saloha 1 \<lparr>group_members = [], group_modcods = []\<rparr> 1 1000 ALOHA"
  let ?c = "new_saloha_category ''Standard'' ALOHA\<lparr>sc_groups := [?g]\<rparr>"
  have w: "wanted_slots (new_converter 1 1 1) ?g = 0" "group_slots ?g = []" "sc_groups ?c = [?g]"
    by (simp_all add: wanted_slots_def slots_per_carrier_of_def group_fmt_def new_carriers_saloha_def
        carriers_group.defs new_carriers_group_def)
  with slots_numbered [of ?c "new_converter 1 1 1"] show ?thesis
    by (intro exI [of _ ?c]) simp
qed

section \<open>Packets wait in the contexts\<close>

text \<open>The packets a context holds, as a multiset.\<close>

definition entries :: "('v \<Rightarrow> 'a multiset) \<Rightarrow> ('k \<times> 'v) list \<Rightarrow> 'a multiset" where
  "entries f m = sum_list (map (\<lambda>(k, v). f v) m)"

lemma entries_mset_put:
  "omap_wf m \<Longrightarrow> f d = {#} \<Longrightarrow> entries f (omap_put k v m) + f (omap_get d k m) = entries f m + f v"
proof (induction k v m rule: omap_put.induct)
  case (2 k v k' v' m)
  show ?case
  proof (cases k k' rule: linorder_cases)
    case less
    with 2 have "map_of m k = None" by (force simp: omap_wf_Cons map_of_eq_None_iff)
    with less less_imp_neq [OF less] 2 show ?thesis
      by (simp add: entries_def omap_get_def add.commute)
  next
    case equal
    then show ?thesis by (simp add: entries_def omap_get_def ac_simps)
  next
    case greater
    with 2 have "entries f (omap_put k v m) + f (omap_get d k m) = entries f m + f v"
      by (simp add: omap_wf_Cons)
    moreover have "omap_get d k ((k', v') # m) = omap_get d k m"
      using less_imp_neq [OF greater] by (simp add: omap_get_def)
    ultimately show ?thesis
      using less_imp_neq [OF greater] less_not_sym [OF greater] by (simp add: entries_def add.assoc)
  qed
qed (simp add: entries_def omap_get_def)

definition held :: "term_saloha \<Rightarrow> saloha_data multiset" where
  "held t = entries (entries mset) (wait_propagation t)"

definition ctx_wf :: "term_saloha \<Rightarrow> bool" where
  "ctx_wf t \<longleftrightarrow> omap_wf (wait_propagation t) \<and> (\<forall>m \<in> snd ` set (wait_propagation t). omap_wf m)"

lemma pdus_wf: "ctx_wf t \<Longrightarrow> omap_wf (pdus_of q t)"
  by (auto simp: ctx_wf_def pdus_of_def omap_get_def split: option.split dest!: map_of_SomeD)

lemma set_omap_put_subset: "set (omap_put k v m) \<subseteq> insert (k, v) (set m)"
  by (induction k v m rule: omap_put.induct) auto

lemma ctx_wf_set_pdus: "ctx_wf t \<Longrightarrow> omap_wf m \<Longrightarrow> ctx_wf (set_pdus q m t)"
  using set_omap_put_subset [of q m "wait_propagation t"]
  by (fastforce simp: ctx_wf_def set_pdus_def omap_put_wf)

lemma held_set_pdus:
  "ctx_wf t \<Longrightarrow> held (set_pdus q m t) + entries mset (pdus_of q t) = held t + entries mset m"
  by (simp add: held_def set_pdus_def pdus_of_def ctx_wf_def entries_mset_put entries_def [of mset "[]"])

text \<open>A packet whose identifier can be read and whose PDU has a packet stays in the context.\<close>

definition ordinary :: "saloha_data \<Rightarrow> bool" where
  "ordinary p \<longleftrightarrow> \<bar>sint (sa_get_id p)\<bar> \<le> 65535 \<and> sa_get_pdu_nb p \<noteq> 0"

lemma ctx_add_ordinary:
  assumes "length garbage = 4" "ordinary p" "ctx_wf t"
  shows "\<exists>t'. ctx_add_packet md garbage p t = Some (t', [], NoPropagation) \<and> ctx_wf t' \<and>
    held t' = add_mset p (held t)"
proof -
  let ?q = "sa_get_qos p" and ?i = "sa_get_id p"
  let ?m = "omap_put ?i (omap_get [] ?i (pdus_of ?q t) @ [p]) (pdus_of ?q t)"
  let ?t1 = "set_pdus ?q ?m t"
  have ids: "convert_packet_id garbage (sa_unique_id p) ! 2 = sa_get_pdu_nb p"
    using assms(1,2) packet_id_text [OF assms(1), of p] by (simp add: ordinary_def)
  have wf: "omap_wf (pdus_of ?q t)" using assms(3) by (rule pdus_wf)
  have "entries mset ?m + mset (omap_get [] ?i (pdus_of ?q t)) =
      entries mset (pdus_of ?q t) + mset (omap_get [] ?i (pdus_of ?q t) @ [p])"
    using wf by (intro entries_mset_put) simp_all
  then have m: "entries mset ?m = add_mset p (entries mset (pdus_of ?q t))" by simp
  have h: "held ?t1 = add_mset p (held t)"
    using held_set_pdus [OF assms(3), of ?q ?m] by (simp add: m)
  have w: "ctx_wf ?t1" using assms(3) wf by (intro ctx_wf_set_pdus) (simp_all add: omap_put_wf)
  have fields: "held (?t1\<lparr>oldest_id := o', old_count := 0\<rparr>) = held ?t1"
    "ctx_wf (?t1\<lparr>oldest_id := o', old_count := 0\<rparr>) = ctx_wf ?t1" for o'
    by (simp_all add: held_def ctx_wf_def)
  have nz: "unat (sa_get_pdu_nb p) \<noteq> 0" using assms(2) by (simp add: ordinary_def unat_eq_0)
  show ?thesis
    using ids nz h w fields by (simp add: ctx_add_packet_def Let_def)
qed

fun ctx_run :: "u32 \<Rightarrow> u16 list \<Rightarrow> saloha_data list \<Rightarrow> term_saloha \<Rightarrow> (term_saloha \<times> saloha_data list list) option" where
  "ctx_run md garbage [] t = Some (t, [])"
| "ctx_run md garbage (p # ps) t = do {
     (t1, pdu, st) \<leftarrow> ctx_add_packet md garbage p t;
     (t2, out) \<leftarrow> ctx_run md garbage ps t1;
     Some (t2, if st = Propagation then pdu # out else out) }"

lemma ctx_run_ordinary:
  "length garbage = 4 \<Longrightarrow> \<forall>p \<in> set ps. ordinary p \<Longrightarrow> ctx_wf t \<Longrightarrow>
   \<exists>t'. ctx_run md garbage ps t = Some (t', []) \<and> held t' = held t + mset ps"
proof (induction ps arbitrary: t)
  case (Cons p ps)
  then obtain t1 where t1: "ctx_add_packet md garbage p t = Some (t1, [], NoPropagation)"
    "ctx_wf t1" "held t1 = add_mset p (held t)"
    using ctx_add_ordinary [of garbage p t md] by auto
  with Cons.IH [of t1] Cons.prems obtain t2 where
    "ctx_run md garbage ps t1 = Some (t2, [])" "held t2 = held t1 + mset ps" by auto
  with t1 show ?case by simp
qed simp

text \<open>The control centre never completes a PDU: whatever packets a terminal sends (with readable
  identifiers and at least one packet per PDU), none is propagated and all of them stay in the
  context of the terminal.\<close>

theorem pdus_never_complete:
  assumes "length garbage = 4" "\<forall>p \<in> set ps. ordinary p"
  shows "\<exists>t'. ctx_run md garbage ps (new_term_saloha tal) = Some (t', []) \<and> held t' = mset ps"
  using ctx_run_ordinary [OF assms, of "new_term_saloha tal" md]
  by (simp add: ctx_wf_def new_term_saloha_def held_def entries_def)

theorem pdus_never_complete_witness:
  "\<exists>p t'. new_saloha_data 0 [7, 8, 9] 5 0 0 1 3 10 = Some p \<and> sa_get_pdu_nb p = 1 \<and>
    ctx_run 0 [0, 0, 0, 0] [p] (new_term_saloha 3) = Some (t', []) \<and> held t' = {#p#}"
proof -
  obtain p where p: "new_saloha_data 0 [7, 8, 9] 5 0 0 1 3 10 = Some p" "sa_get_id p = 5"
    "sa_get_pdu_nb p = 1"
    using layout_new [of 3 "[7, 8, 9]" 0 5 0 0 1 10] layout_getters(1,4) by fastforce
  then have "\<forall>x \<in> set [p]. ordinary x" by (simp add: ordinary_def)
  with p pdus_never_complete [of "[0, 0, 0, 0]" "[p]" 0 3] show ?thesis by auto
qed

end
