(* ===== verification/Saloha_Tal.thy ===== *)
theory Saloha_Tal
  imports Saloha_Context Saloha_Backoff Dvb_Fifo
begin

text \<open>
  Slotted Aloha in the terminal (\<^verbatim>\<open>opensand-core/src/dvb/saloha/SlottedAlohaTal.cpp\<close> over
  \<^verbatim>\<open>SlottedAloha.cpp\<close>).  A terminal sends each packet in several slots drawn at random, keeps
  it until it is acknowledged, sends it again after a timeout a bounded number of times, and backs
  off when a packet is lost.

  The values of \<^verbatim>\<open>rand()\<close> are a list that the operations consume; \<open>None\<close> is a fault
  (or, in the loop that draws distinct slots, a list of draws that is too short to end it).  The
  probes are represented by the QoS for which they exist: using another one is a fault.
\<close>

section \<open>State\<close>

type_synonym saloha_more = "unit saloha_data_ext net_packet_ext"
type_synonym draws = "nat list"

text \<open>Retransmitted packets whose insertion in a frame failed leave a null pointer.\<close>

record saloha_tal =
  sf_per_saframe :: time_sf
  saloha_frame_duration :: time_ms
  is_parent_init :: bool
  own_tal_id :: tal_id
  timeout_saf :: time_sf
  packets_wait_ack :: "(qos, saloha_data list) omap"
  retransmission_packets :: "saloha_data option list"
  nb_success :: u16
  nb_max_packets :: u16
  nb_replicas :: u16
  nb_max_retransmissions :: u16
  base_id :: u32
  tal_backoff :: "(backoff_algo \<times> backoff) option"
  tal_saloha_category :: "saloha_category option"
  tal_fifos :: "(qos, saloha_more dvb_fifo) omap"
  probe_qos :: "qos list"

definition new_saloha_tal :: saloha_tal where
  "new_saloha_tal =
     \<lparr>sf_per_saframe = 0, saloha_frame_duration = 0, is_parent_init = False, own_tal_id = 0,
      timeout_saf = 0, packets_wait_ack = [], retransmission_packets = [], nb_success = 0,
      nb_max_packets = 0, nb_replicas = 0, nb_max_retransmissions = 0, base_id = 0,
      tal_backoff = None, tal_saloha_category = None, tal_fifos = [], probe_qos = []\<rparr>"

definition sa_init_parent :: "time_ms \<Rightarrow> time_sf option \<Rightarrow> saloha_tal \<Rightarrow> saloha_tal \<times> bool" where
  "sa_init_parent frame_ms conf st =
     (let st1 = st\<lparr>saloha_frame_duration := frame_ms\<rparr> in
      case conf of
        None \<Rightarrow> (st1, False)
      | Some n \<Rightarrow> (st1\<lparr>sf_per_saframe := n, is_parent_init := True\<rparr>, True))"

definition is_saloha_frame_tick :: "time_sf \<Rightarrow> time_sf \<Rightarrow> bool option" where
  "is_saloha_frame_tick sf_per superframe_counter =
     (if sf_per = 0 then None else Some (superframe_counter mod sf_per = 0))"

section \<open>Initialisation\<close>

text \<open>The parameters of the configuration, absent or present.\<close>

record saloha_config =
  conf_max_packets :: "int option"
  conf_replicas :: "int option"
  conf_timeout :: "int option"
  conf_sat_delay :: "time_ms option"
  conf_max_retry :: "int option"
  conf_backoff_algo :: "string option"
  conf_max_cw :: "int option"
  conf_backoff_multiple :: "int option"

text \<open>At most as many packets as one carrier has slots for.\<close>

definition limit_packets :: "saloha_category \<Rightarrow> saloha_tal \<Rightarrow> saloha_tal option" where
  "limit_packets c st = do {
     n \<leftarrow> int_product (nb_max_packets st) (nb_replicas st);
     per_carrier \<leftarrow> udiv (category_slots_number c) (saloha_carriers_number c);
     if word_of_int n > per_carrier
     then do {
       m \<leftarrow> udiv (category_slots_number c) (ucast (nb_replicas st) * saloha_carriers_number c);
       Some (st\<lparr>nb_max_packets := ucast m\<rparr>) }
     else Some st }"

definition backoff_of_name :: "string \<Rightarrow> backoff_algo option" where
  "backoff_of_name n =
     (if n = ''BEB'' then Some BEB else if n = ''EIED'' then Some EIED
      else if n = ''MIMD'' then Some MIMD else None)"

definition timeout_too_low :: "time_ms \<Rightarrow> saloha_tal \<Rightarrow> bool" where
  "timeout_too_low sat_delay st \<longleftrightarrow>
     ucast (timeout_saf st) * saloha_frame_duration st * ucast (sf_per_saframe st)
       \<le> 2 * sat_delay + ucast (sf_per_saframe st) * saloha_frame_duration st"

definition is_saloha_fifo :: "saloha_more dvb_fifo \<Rightarrow> bool" where
  "is_saloha_fifo f \<longleftrightarrow> \<not> access_neq (fifo_access f) (Return_access saloha)"

definition init_backoff ::
  "nat \<Rightarrow> saloha_config \<Rightarrow> saloha_tal \<Rightarrow> (saloha_tal \<times> bool) option" where
  "init_backoff r conf st =
     (case (conf_max_retry conf, conf_backoff_algo conf, conf_max_cw conf, conf_backoff_multiple conf) of
        (None, _, _, _) \<Rightarrow> Some (st, False)
      | (Some retry, name, wmax, mlt) \<Rightarrow>
          (let st1 = st\<lparr>nb_max_retransmissions := word_of_int retry\<rparr> in
           case (name, wmax, mlt) of
             (Some n, Some mx, Some m) \<Rightarrow>
               (case backoff_of_name n of
                  None \<Rightarrow> Some (st1, False)
                | Some a \<Rightarrow> do {
                    b \<leftarrow> new_policy a r (word_of_int mx) (word_of_int m);
                    Some (st1\<lparr>tal_backoff := Some (a, b),
                        probe_qos := map fst (filter (\<lambda>(q, f). is_saloha_fifo f) (tal_fifos st1))\<rparr>, True) })
           | _ \<Rightarrow> Some (st1, False)))"

definition saloha_tal_init ::
  "nat \<Rightarrow> saloha_config \<Rightarrow> tal_id \<Rightarrow> unit_converter \<Rightarrow> saloha_category \<Rightarrow>
     (qos, saloha_more dvb_fifo) omap \<Rightarrow> saloha_tal \<Rightarrow> (saloha_tal \<times> bool) option" where
  "saloha_tal_init r conf tal cv category fifos st =
     (if \<not> is_parent_init st then Some (st, False)
      else
        (let c = snd (compute_slots_number cv category);
             st1 = st\<lparr>own_tal_id := tal, tal_saloha_category := Some c, tal_fifos := fifos\<rparr>
         in case conf_max_packets conf of
              None \<Rightarrow> Some (st1, False)
            | Some mp \<Rightarrow>
                (let st2 = st1\<lparr>nb_max_packets := word_of_int mp\<rparr> in
                 case conf_replicas conf of
                   None \<Rightarrow> Some (st2, False)
                 | Some rp \<Rightarrow> do {
                     st3 \<leftarrow> limit_packets c (st2\<lparr>nb_replicas := word_of_int rp\<rparr>);
                     (case conf_timeout conf of
                        None \<Rightarrow> Some (st3, False)
                      | Some tm \<Rightarrow>
                          (let st4 = st3\<lparr>timeout_saf := word_of_int tm\<rparr> in
                           case conf_sat_delay conf of
                             None \<Rightarrow> Some (st4, False)
                           | Some d \<Rightarrow>
                               (if timeout_too_low d st4 then Some (st4, False)
                                else init_backoff r conf st4))) })))"

section \<open>From encapsulated packets to Slotted Aloha packets\<close>

definition add_saloha_header ::
  "qos \<Rightarrow> net_packet \<Rightarrow> u16 \<Rightarrow> u16 \<Rightarrow> saloha_tal \<Rightarrow> (saloha_tal \<times> saloha_data) option" where
  "add_saloha_header garbage encap offset burst_size st = do {
     p \<leftarrow> new_saloha_data garbage (cont_data encap) (base_id st) 0 offset burst_size (nb_replicas st)
            (timeout_saf st);
     let p1 = sa_set_qos (pkt_qos encap) (p\<lparr>src_tal_id := src_tal_id encap\<rparr>);
     Some (if int (unat offset) = int (unat burst_size) - 1 then st\<lparr>base_id := base_id st + 1\<rparr> else st, p1) }"

section \<open>Acknowledgements\<close>

definition use_draw :: "draws \<Rightarrow> (nat \<times> draws) option" where
  "use_draw rs = (case rs of [] \<Rightarrow> None | r # rs' \<Rightarrow> Some (r, rs'))"

fun remove_by_id :: "saloha_id \<Rightarrow> saloha_data list \<Rightarrow> saloha_data list option" where
  "remove_by_id i [] = None"
| "remove_by_id i (p # ps) =
     (if sa_unique_id p = i then Some ps else map_option (Cons p) (remove_by_id i ps))"

definition backoff_ready :: "draws \<Rightarrow> saloha_tal \<Rightarrow> (saloha_tal \<times> draws) option" where
  "backoff_ready rs st = do {
     (a, b) \<leftarrow> tal_backoff st;
     (r, rs') \<leftarrow> use_draw rs;
     b' \<leftarrow> set_ready a r b;
     Some (st\<lparr>tal_backoff := Some (a, b')\<rparr>, rs') }"

definition backoff_collision :: "draws \<Rightarrow> saloha_tal \<Rightarrow> (saloha_tal \<times> draws) option" where
  "backoff_collision rs st = do {
     (a, b) \<leftarrow> tal_backoff st;
     (r, rs') \<leftarrow> use_draw rs;
     b' \<leftarrow> set_collision a r b;
     Some (st\<lparr>tal_backoff := Some (a, b')\<rparr>, rs') }"

text \<open>The queue of the QoS found in the identifier is created when it does not exist.\<close>

definition rcv_ack :: "u16 list \<Rightarrow> saloha_id \<Rightarrow> draws \<Rightarrow> saloha_tal \<Rightarrow> (saloha_tal \<times> draws) option" where
  "rcv_ack garbage i rs st =
     (let q = ucast (convert_packet_id garbage i ! 3) :: qos;
          waiting = omap_get [] q (packets_wait_ack st);
          st1 = st\<lparr>packets_wait_ack := omap_put q waiting (packets_wait_ack st)\<rparr>
      in case remove_by_id i waiting of
           None \<Rightarrow> Some (st1, rs)
         | Some rest \<Rightarrow> do {
             (st2, rs') \<leftarrow> backoff_ready rs (st1\<lparr>nb_success := nb_success st1 + 1\<rparr>);
             Some (st2\<lparr>packets_wait_ack := omap_put q rest (packets_wait_ack st2)\<rparr>, rs') })"

text \<open>A byte string is followed by a null byte, which the reading of a field may use.\<close>

fun tal_rcv_loop ::
  "u16 list \<Rightarrow> nat \<Rightarrow> nat \<Rightarrow> dvb_frame \<Rightarrow> draws \<Rightarrow> saloha_tal \<Rightarrow> (saloha_tal \<times> draws) option" where
  "tal_rcv_loop garbage 0 previous f rs st = Some (st, rs)"
| "tal_rcv_loop garbage (Suc n) previous f rs st = do {
     payload \<leftarrow> get_payload_from f previous;
     if length payload < 2 then None
     else
       (let cur = ctrl_packet_length (payload @ [0]) in
        if length payload + 1 < cur \<or> cur < 4 then None
        else
          (let p = received_saloha_ctrl (payload @ [0]) cur in
           if ctrl_terminal_id (p\<lparr>cont_data := cont_data p @ [0]\<rparr>) \<noteq> own_tal_id st
           then tal_rcv_loop garbage n (previous + cur) f rs st
           else if ctrl_type p = SALOHA_CTRL_ACK then do {
             i \<leftarrow> ctrl_get_id p;
             (st', rs') \<leftarrow> rcv_ack garbage i rs st;
             tal_rcv_loop garbage n (previous + cur) f rs' st' }
           else tal_rcv_loop garbage n (previous + cur) f rs st)) }"

definition tal_on_rcv_frame ::
  "u16 list \<Rightarrow> dvb_frame \<Rightarrow> draws \<Rightarrow> saloha_tal \<Rightarrow> (saloha_tal \<times> draws) option" where
  "tal_on_rcv_frame garbage frame rs st =
     (let f = frame\<lparr>header_length := 5\<rparr> in
      if saloha_data_length f \<le> 0 then Some (st, rs)
      else tal_rcv_loop garbage (unat (saloha_data_length f)) 0 f rs st)"

section \<open>Time slots\<close>

fun draw_distinct :: "nat \<Rightarrow> nat \<Rightarrow> draws \<Rightarrow> u16 list \<Rightarrow> (u16 list \<times> draws) option" where
  "draw_distinct mx per_carrier rs tmp =
     (if mx \<le> length tmp then Some (tmp, rs)
      else case rs of
             [] \<Rightarrow> None
           | r # rs' \<Rightarrow> draw_distinct mx per_carrier rs' (insort_insert (trunc (random_scaled r per_carrier)) tmp))"

declare draw_distinct.simps [simp del]

fun spread_slots :: "u32 \<Rightarrow> u32 \<Rightarrow> draws \<Rightarrow> u16 list \<Rightarrow> u16 list \<Rightarrow> (u16 list \<times> draws) option" where
  "spread_slots carriers per_carrier rs [] acc = Some (acc, rs)"
| "spread_slots carriers per_carrier [] (i # is) acc = None"
| "spread_slots carriers per_carrier (r # rs) (i # is) acc =
     spread_slots carriers per_carrier rs is
       (insort_insert (ucast (trunc (random_scaled r (unat carriers)) * per_carrier + ucast i)) acc)"

definition packets_to_send :: "saloha_tal \<Rightarrow> u16" where
  "packets_to_send st =
     foldl (\<lambda>n (q, f). if is_saloha_fifo f then n + get_current_size f else n)
       (of_nat (length (retransmission_packets st))) (tal_fifos st)"

definition get_time_slots :: "draws \<Rightarrow> saloha_tal \<Rightarrow> (u16 list \<times> draws) option" where
  "get_time_slots rs st = do {
     c \<leftarrow> tal_saloha_category st;
     per_carrier \<leftarrow> udiv (category_slots_number c) (saloha_carriers_number c);
     let mx = min (packets_to_send st) (nb_max_packets st) * nb_replicas st;
     (tmp, rs1) \<leftarrow> draw_distinct (unat mx) (unat per_carrier) rs [];
     spread_slots (saloha_carriers_number c) per_carrier rs1 tmp [] }"

section \<open>Frames\<close>

text \<open>A frame checks and counts the length a packet declares, and appends its bytes.\<close>

definition saloha_frame_add :: "nat \<Rightarrow> bytes \<Rightarrow> dvb_frame \<Rightarrow> dvb_frame \<times> bool" where
  "saloha_frame_add len d f =
     (if len > get_free_space f then (f, False)
      else
        (let g = f\<lparr>cont_data := cont_data f @ d, num_packets := num_packets f + 1\<rparr>
         in (set_count (htons (num_packets g))
               (set_message_length (get_message_length g + of_nat len) g), True)))"

lemma saloha_frame_add_eq: "saloha_frame_add (length d) d f = saloha_add_packet f d"
  by (simp add: saloha_frame_add_def saloha_add_packet_def add_packet_def Let_def)

fun add_replicas ::
  "u16 list \<Rightarrow> saloha_data \<Rightarrow> dvb_frame list \<Rightarrow> dvb_frame \<Rightarrow> saloha_data \<times> dvb_frame list \<times> dvb_frame \<times> bool" where
  "add_replicas [] p frames f = (p, frames, f, True)"
| "add_replicas (r # rs) p frames f =
     (let (frames1, f1) =
        (if get_free_space f < sa_total_length p then (frames @ [f], new_saloha_frame MSG_SalohaData)
         else (frames, f));
          p1 = sa_set_ts r p;
          (f2, ok) = saloha_frame_add (sa_total_length p1) (cont_data p1) f1
      in if ok then add_replicas rs p1 frames1 f2 else (p1, frames1, f2, False))"

text \<open>The slots still to use are a list; using more of them than there are is a fault.\<close>

record send_state =
  complete_frames :: "dvb_frame list"
  current_frame :: dvb_frame
  slots_left :: "u16 list"
  packets_sent :: u16
  sender :: saloha_tal

definition add_packet_in_frames ::
  "saloha_data \<Rightarrow> qos \<Rightarrow> send_state \<Rightarrow> (send_state \<times> bool) option" where
  "add_packet_in_frames p q s =
     (let n = unat (sa_get_nb_replicas p) in
      if length (slots_left s) < n then None
      else do {
        p1 \<leftarrow> sa_set_replicas (Some (take n (slots_left s))) n p;
        let (p2, frames, f, ok) = add_replicas (take n (slots_left s)) p1 (complete_frames s) (current_frame s);
        let s1 = s\<lparr>complete_frames := frames, current_frame := f, slots_left := drop n (slots_left s)\<rparr>;
        if ok
        then
          (let st = sender s1
           in Some (s1\<lparr>sender := st\<lparr>packets_wait_ack :=
                  omap_put q (omap_get [] q (packets_wait_ack st) @ [p2]) (packets_wait_ack st)\<rparr>\<rparr>, True))
        else Some (s1, False) })"

section \<open>Scheduling\<close>

definition put_probe :: "qos \<Rightarrow> saloha_tal \<Rightarrow> unit option" where
  "put_probe q st = (if q \<in> set (probe_qos st) then Some () else None)"

definition decrease_timeouts :: "saloha_tal \<Rightarrow> saloha_tal" where
  "decrease_timeouts st =
     st\<lparr>packets_wait_ack := map (\<lambda>(q, ps). (q, map sa_dec_timeout ps)) (packets_wait_ack st)\<rparr>"

text \<open>The packets of one QoS that wait: those whose time is out go to the retransmissions, behind
  the ones already moved in this call, or are lost.\<close>

fun collect_timeouts ::
  "saloha_data list \<Rightarrow> u16 \<Rightarrow> draws \<Rightarrow> saloha_tal \<Rightarrow>
     (saloha_data list \<times> u16 \<times> draws \<times> saloha_tal) option" where
  "collect_timeouts [] nb rs st = Some ([], nb, rs, st)"
| "collect_timeouts (p # ps) nb rs st =
     (if \<not> sa_is_timeout p then do {
        (kept, r) \<leftarrow> collect_timeouts ps nb rs st;
        Some (p # kept, r) }
      else if sa_can_be_retransmitted p (nb_max_retransmissions st) then
        (let p1 = sa_set_timeout (timeout_saf st) (sa_inc_retransmissions p);
             l = retransmission_packets st
         in collect_timeouts ps (nb + 1) rs
              (st\<lparr>retransmission_packets := take (unat nb) l @ Some p1 # drop (unat nb) l\<rparr>))
      else do {
        _ \<leftarrow> put_probe (sa_get_qos p) st;
        (st1, rs1) \<leftarrow> backoff_collision rs st;
        collect_timeouts ps nb rs1 st1 })"

fun collect_all ::
  "(qos, saloha_data list) omap \<Rightarrow> u16 \<Rightarrow> draws \<Rightarrow> saloha_tal \<Rightarrow>
     ((qos, saloha_data list) omap \<times> u16 \<times> draws \<times> saloha_tal) option" where
  "collect_all [] nb rs st = Some ([], nb, rs, st)"
| "collect_all ((q, ps) # m) nb rs st = do {
     (kept, nb1, rs1, st1) \<leftarrow> collect_timeouts ps nb rs st;
     (m', r) \<leftarrow> collect_all m nb1 rs1 st1;
     Some ((q, kept) # m', r) }"

text \<open>Retransmissions go first, in their order.  A packet that does not fit in a frame is skipped
  and its place keeps the null pointer.\<close>

fun send_retransmissions ::
  "nat \<Rightarrow> saloha_data option list \<Rightarrow> send_state \<Rightarrow> (saloha_data option list \<times> send_state) option" where
  "send_retransmissions n [] s = Some ([], s)"
| "send_retransmissions n (None # ps) s = None"
| "send_retransmissions n (Some p # ps) s =
     (if unat (packets_sent s) + unat (sa_get_nb_replicas p) \<le> n then do {
        (s1, ok) \<leftarrow> add_packet_in_frames p (sa_get_qos p) s;
        if ok then do {
          _ \<leftarrow> put_probe (sa_get_qos p) (sender s1);
          send_retransmissions n ps (s1\<lparr>packets_sent := packets_sent s1 + sa_get_nb_replicas p\<rparr>) }
        else do {
          (rest, s2) \<leftarrow> send_retransmissions n ps s1;
          Some (None # rest, s2) } }
      else Some (Some p # ps, s))"

lemma current_size_queue: "get_current_size f \<noteq> 0 \<Longrightarrow> queue f \<noteq> []"
  by (auto simp: get_current_size_def)

lemma popped_front: "pop f = (f1, Some e) \<Longrightarrow> queue f = e # queue f1"
  by (auto simp: pop_def Let_def split: list.splits)

text \<open>New packets are popped from a FIFO while it has packets and there are slots for one more.\<close>

function send_fifo ::
  "nat \<Rightarrow> qos \<Rightarrow> saloha_more dvb_fifo \<Rightarrow> send_state \<Rightarrow> (saloha_more dvb_fifo \<times> send_state) option" where
  "send_fifo n q f s =
     (if get_current_size f \<noteq> 0 \<and> unat (packets_sent s) + unat (nb_replicas (sender s)) \<le> n then
        (case pop f of
           (f1, None) \<Rightarrow> None
         | (f1, Some e) \<Rightarrow>
             (case add_packet_in_frames (fe_elem e) q s of
                None \<Rightarrow> None
              | Some (s1, ok) \<Rightarrow>
                  send_fifo n q f1
                    (if ok then s1\<lparr>packets_sent := packets_sent s1 + sa_get_nb_replicas (fe_elem e)\<rparr>
                     else s1)))
      else Some (f, s))"
  by auto
termination
  by (relation "measure (\<lambda>(n, q, f, s). length (queue f))")
    (auto dest!: popped_front [OF sym])

declare send_fifo.simps [simp del]

fun send_new ::
  "nat \<Rightarrow> (qos, saloha_more dvb_fifo) omap \<Rightarrow> send_state \<Rightarrow>
     ((qos, saloha_more dvb_fifo) omap \<times> send_state) option" where
  "send_new n [] s = Some ([], s)"
| "send_new n ((q, f) # m) s =
     (if n \<le> unat (packets_sent s) then Some ((q, f) # m, s)
      else if \<not> is_saloha_fifo f then do {
        (m', s') \<leftarrow> send_new n m s;
        Some ((q, f) # m', s') }
      else do {
        (f', s1) \<leftarrow> send_fifo n q f s;
        (m', s') \<leftarrow> send_new n m s1;
        Some ((q, f') # m', s') })"

text \<open>At the end of every call the probes of the waiting queues and of the FIFOs are refreshed.\<close>

definition refresh_probes :: "saloha_tal \<Rightarrow> unit option" where
  "refresh_probes st =
     (if (\<forall>q \<in> fst ` set (packets_wait_ack st). q \<in> set (probe_qos st)) \<and>
         (\<forall>(q, f) \<in> set (tal_fifos st). is_saloha_fifo f \<longrightarrow> q \<in> set (probe_qos st))
      then Some () else None)"

definition send_packets ::
  "dvb_frame list \<Rightarrow> draws \<Rightarrow> saloha_tal \<Rightarrow> (saloha_tal \<times> dvb_frame list \<times> draws) option" where
  "send_packets frames rs st = do {
     (ts, rs1) \<leftarrow> get_time_slots rs st;
     let s = \<lparr>complete_frames = frames, current_frame = new_saloha_frame MSG_SalohaData,
              slots_left = ts, packets_sent = 0, sender = st\<rparr>;
     (retr, s1) \<leftarrow> send_retransmissions (length ts) (retransmission_packets st) s;
     let s2 = s1\<lparr>sender := (sender s1)\<lparr>retransmission_packets := retr\<rparr>\<rparr>;
     (fifos, s3) \<leftarrow> send_new (length ts) (tal_fifos st) s2;
     Some ((sender s3)\<lparr>tal_fifos := fifos\<rparr>,
       (if saloha_data_length (current_frame s3) \<noteq> 0 then complete_frames s3 @ [current_frame s3]
        else complete_frames s3), rs1) }"

definition saloha_tal_schedule ::
  "dvb_frame list \<Rightarrow> time_sf \<Rightarrow> draws \<Rightarrow> saloha_tal \<Rightarrow> (saloha_tal \<times> dvb_frame list \<times> draws) option" where
  "saloha_tal_schedule frames sf_counter rs st = do {
     tick \<leftarrow> is_saloha_frame_tick (sf_per_saframe st) sf_counter;
     (st', frames', rs') \<leftarrow>
       (if \<not> tick then Some (st, frames, rs)
        else do {
          (a, b) \<leftarrow> tal_backoff st;
          let b1 = backoff_tick b;
          let st1 = decrease_timeouts (st\<lparr>tal_backoff := Some (a, b1)\<rparr>);
          if \<not> backoff_is_ready b1 then Some (st1, frames, rs)
          else do {
            (m, nb, rs1, st2) \<leftarrow> collect_all (packets_wait_ack st1) 0 rs st1;
            let st3 = st2\<lparr>packets_wait_ack := m, nb_success := (if nb \<noteq> 0 then 0 else nb_success st2)\<rparr>;
            send_packets frames rs1 st3 } });
     _ \<leftarrow> refresh_probes st';
     Some (st', frames', rs') }"

section \<open>No packet is sent again more often than allowed\<close>

abbreviation rt :: "saloha_data \<Rightarrow> u16" where "rt \<equiv> sa_retransmissions"

definition waits_ok :: "u16 \<Rightarrow> (qos, saloha_data list) omap \<Rightarrow> bool" where
  "waits_ok m w \<longleftrightarrow> (\<forall>(q, ps) \<in> set w. \<forall>p \<in> set ps. rt p \<le> m)"

definition retr_ok :: "u16 \<Rightarrow> saloha_data option list \<Rightarrow> bool" where
  "retr_ok m l \<longleftrightarrow> (\<forall>p. Some p \<in> set l \<longrightarrow> rt p \<le> m)"

definition fifo_ok :: "u16 \<Rightarrow> saloha_more dvb_fifo \<Rightarrow> bool" where
  "fifo_ok m f \<longleftrightarrow> (\<forall>e \<in> set (queue f). rt (fe_elem e) \<le> m)"

definition tal_ok :: "saloha_tal \<Rightarrow> bool" where
  "tal_ok st \<longleftrightarrow>
     (let m = nb_max_retransmissions st in
      waits_ok m (packets_wait_ack st) \<and> retr_ok m (retransmission_packets st) \<and>
      (\<forall>f \<in> snd ` set (tal_fifos st). fifo_ok m f))"

lemma rt_simps [simp]:
  "rt (sa_dec_timeout p) = rt p" "rt (sa_set_ts t p) = rt p" "rt (sa_set_timeout n p) = rt p"
  by (simp_all add: sa_dec_timeout_def sa_set_ts_def sa_set_timeout_def)

lemma rt_set_replicas: "sa_set_replicas r n p = Some p' \<Longrightarrow> rt p' = rt p"
  by (auto simp: sa_set_replicas_def Let_def split: bind_splits option.splits if_splits)

lemma rt_add_replicas: "add_replicas rs p frames f = (p', r) \<Longrightarrow> rt p' = rt p"
  by (induction rs p frames f rule: add_replicas.induct) (auto simp: Let_def split: prod.splits if_splits)

lemma waits_ok_put:
  "waits_ok m w \<Longrightarrow> \<forall>p \<in> set ps. rt p \<le> m \<Longrightarrow> waits_ok m (omap_put q ps w)"
  using set_omap_put_subset [of q ps w] by (fastforce simp: waits_ok_def)

lemma waits_ok_get: "waits_ok m w \<Longrightarrow> p \<in> set (omap_get [] q w) \<Longrightarrow> rt p \<le> m"
  by (cases "map_of w q") (auto simp: waits_ok_def omap_get_def dest!: map_of_SomeD)

text \<open>Sending a packet changes the sender in its waiting queues only.\<close>

lemma add_packet_ok:
  assumes "add_packet_in_frames p q s = Some (s1, ok)" "rt p \<le> m" "waits_ok m (packets_wait_ack (sender s))"
  shows "waits_ok m (packets_wait_ack (sender s1))"
    "\<exists>w. sender s1 = (sender s)\<lparr>packets_wait_ack := w\<rparr>"
proof -
  let ?n = "unat (sa_get_nb_replicas p)" and ?l = "take (unat (sa_get_nb_replicas p)) (slots_left s)"
  from assms(1) obtain p1 where p1: "sa_set_replicas (Some ?l) ?n p = Some p1"
    by (auto simp: add_packet_in_frames_def Let_def split: if_splits bind_splits)
  obtain p2 fr f b where a: "add_replicas ?l p1 (complete_frames s) (current_frame s) = (p2, fr, f, b)"
    by (cases "add_replicas ?l p1 (complete_frames s) (current_frame s)")
  have r: "rt p2 \<le> m" using rt_set_replicas [OF p1] rt_add_replicas [OF a] assms(2) by simp
  from assms(1) p1 a show "\<exists>w. sender s1 = (sender s)\<lparr>packets_wait_ack := w\<rparr>"
    by (auto simp: add_packet_in_frames_def Let_def split: if_splits)
      (metis saloha_tal.surjective saloha_tal.update_convs(6))
  have "\<forall>x \<in> set (omap_get [] q (packets_wait_ack (sender s)) @ [p2]). rt x \<le> m"
    using waits_ok_get [OF assms(3)] r by auto
  note waits_ok_put [OF assms(3) this, of q]
  with assms(1,3) p1 a show "waits_ok m (packets_wait_ack (sender s1))"
    by (auto simp: add_packet_in_frames_def Let_def split: if_splits)
qed

lemma send_retransmissions_ok:
  assumes "send_retransmissions n l s = Some (l', s')" "retr_ok m l"
    "waits_ok m (packets_wait_ack (sender s))"
  shows "retr_ok m l' \<and> waits_ok m (packets_wait_ack (sender s')) \<and>
    (\<exists>w. sender s' = (sender s)\<lparr>packets_wait_ack := w\<rparr>)"
  using assms
proof (induction n l s arbitrary: l' s' rule: send_retransmissions.induct)
  case (1 n s)
  then show ?case by (auto intro: exI [of _ "packets_wait_ack (sender s)"])
next
  case (2 n ps s)
  then show ?case by simp
next
  case (3 n p ps s)
  show ?case
  proof (cases "unat (packets_sent s) + unat (sa_get_nb_replicas p) \<le> n")
    case False
    with 3 show ?thesis by (auto intro: exI [of _ "packets_wait_ack (sender s)"])
  next
    case True
    with "3.prems"(1) obtain s1 ok where a: "add_packet_in_frames p (sa_get_qos p) s = Some (s1, ok)"
      by (auto split: bind_splits)
    have p: "rt p \<le> m" "retr_ok m ps" using "3.prems"(2) by (auto simp: retr_ok_def)
    note s1 = add_packet_ok [OF a p(1) "3.prems"(3)]
    show ?thesis
    proof (cases ok)
      case True
      let ?s2 = "s1\<lparr>packets_sent := packets_sent s1 + sa_get_nb_replicas p\<rparr>"
      from "3.prems"(1) \<open>unat _ + unat _ \<le> n\<close> a True have
        "send_retransmissions n ps ?s2 = Some (l', s')" "put_probe (sa_get_qos p) (sender s1) = Some ()"
        by (auto split: bind_splits)
      with "3.IH"(1) [OF \<open>unat _ + unat _ \<le> n\<close> a refl True, of "()" l' s'] s1 p(2) show ?thesis
        by auto
    next
      case False
      from "3.prems"(1) \<open>unat _ + unat _ \<le> n\<close> a False obtain l1 where
        "send_retransmissions n ps s1 = Some (l1, s')" "l' = None # l1"
        by (auto split: bind_splits)
      with "3.IH"(2) [OF \<open>unat _ + unat _ \<le> n\<close> a refl False, of l1 s'] s1 p(2) show ?thesis
        by (auto simp: retr_ok_def)
    qed
  qed
qed

lemma send_fifo_ok:
  assumes "send_fifo n q f s = Some (f', s')" "fifo_ok m f" "waits_ok m (packets_wait_ack (sender s))"
  shows "fifo_ok m f' \<and> waits_ok m (packets_wait_ack (sender s')) \<and>
    (\<exists>w. sender s' = (sender s)\<lparr>packets_wait_ack := w\<rparr>)"
  using assms
proof (induction n q f s arbitrary: f' s' rule: send_fifo.induct)
  case (1 n q f s)
  show ?case
  proof (cases "get_current_size f \<noteq> 0 \<and> unat (packets_sent s) + unat (nb_replicas (sender s)) \<le> n")
    case False
    with "1.prems" show ?thesis
      by (subst (asm) send_fifo.simps) (auto intro: exI [of _ "packets_wait_ack (sender s)"])
  next
    case c: True
    with "1.prems"(1) obtain f1 e where e: "pop f = (f1, Some e)"
      by (subst (asm) send_fifo.simps) (auto split: prod.splits option.splits)
    with c "1.prems"(1) obtain s1 ok where a: "add_packet_in_frames (fe_elem e) q s = Some (s1, ok)"
      by (subst (asm) send_fifo.simps) (auto split: prod.splits option.splits)
    let ?s2 = "if ok then s1\<lparr>packets_sent := packets_sent s1 + sa_get_nb_replicas (fe_elem e)\<rparr> else s1"
    have r: "send_fifo n q f1 ?s2 = Some (f', s')"
      using c "1.prems"(1) e a by (subst (asm) send_fifo.simps) simp
    have f: "rt (fe_elem e) \<le> m" "fifo_ok m f1"
      using "1.prems"(2) popped_front [OF e] by (auto simp: fifo_ok_def)
    note s1 = add_packet_ok [OF a f(1) "1.prems"(3)]
    have w: "waits_ok m (packets_wait_ack (sender ?s2))" "sender ?s2 = sender s1"
      using s1(1) by simp_all
    from "1.IH" [OF c e [symmetric] refl a refl r f(2) w(1)] s1(2) w(2) show ?thesis by auto
  qed
qed

lemma send_new_ok:
  assumes "send_new n fs s = Some (fs', s')" "\<forall>f \<in> snd ` set fs. fifo_ok m f"
    "waits_ok m (packets_wait_ack (sender s))"
  shows "(\<forall>f \<in> snd ` set fs'. fifo_ok m f) \<and> waits_ok m (packets_wait_ack (sender s')) \<and>
    (\<exists>w. sender s' = (sender s)\<lparr>packets_wait_ack := w\<rparr>)"
  using assms
proof (induction fs arbitrary: s fs')
  case Nil
  then show ?case by (auto intro: exI [of _ "packets_wait_ack (sender s)"])
next
  case (Cons e fs)
  obtain q f where e: "e = (q, f)" by (cases e)
  consider (full) "n \<le> unat (packets_sent s)" | (other) "\<not> n \<le> unat (packets_sent s)" "\<not> is_saloha_fifo f"
    | (saloha) "\<not> n \<le> unat (packets_sent s)" "is_saloha_fifo f" by blast
  then show ?case
  proof cases
    case full
    with Cons.prems show ?thesis by (auto simp: e intro: exI [of _ "packets_wait_ack (sender s)"])
  next
    case other
    with Cons.prems(1) obtain m' where "send_new n fs s = Some (m', s')" "fs' = (q, f) # m'"
      by (auto simp: e split: bind_splits)
    with Cons.IH [of s m'] Cons.prems(2,3) show ?thesis by (auto simp: e)
  next
    case saloha
    with Cons.prems(1) obtain f' s1 m' where 1: "send_fifo n q f s = Some (f', s1)"
      "send_new n fs s1 = Some (m', s')" "fs' = (q, f') # m'"
      by (auto simp: e split: bind_splits)
    from send_fifo_ok [OF 1(1), of m] Cons.IH [OF 1(2)] Cons.prems(2,3) 1(3) show ?thesis
      by (auto simp: e)
  qed
qed

lemma rt_inc: "sa_can_be_retransmitted p m \<Longrightarrow> rt (sa_inc_retransmissions p) \<le> m"
  by (simp add: sa_can_be_retransmitted_def sa_inc_retransmissions_def inc_le)

lemma retr_ok_insert:
  "retr_ok m l \<Longrightarrow> rt p \<le> m \<Longrightarrow> retr_ok m (take k l @ Some p # drop k l)"
  by (auto simp: retr_ok_def dest: in_set_takeD in_set_dropD)

lemma backoff_collision_frame:
  "backoff_collision rs st = Some (st', rs') \<Longrightarrow> \<exists>b. st' = st\<lparr>tal_backoff := b\<rparr>"
  by (auto simp: backoff_collision_def split: bind_splits) (rule exI, rule refl)

text \<open>What the collection of the timeouts keeps.\<close>

definition same_but_retr :: "saloha_tal \<Rightarrow> saloha_tal \<Rightarrow> bool" where
  "same_but_retr st st' \<longleftrightarrow> nb_max_retransmissions st' = nb_max_retransmissions st \<and>
     tal_fifos st' = tal_fifos st"

lemma collect_timeouts_ok:
  assumes "collect_timeouts ps nb rs st = Some (kept, nb', rs', st')" "\<forall>p \<in> set ps. rt p \<le> m"
    "nb_max_retransmissions st = m" "retr_ok m (retransmission_packets st)"
  shows "(\<forall>p \<in> set kept. rt p \<le> m) \<and> retr_ok m (retransmission_packets st') \<and> same_but_retr st st'"
  using assms
proof (induction ps arbitrary: nb rs st kept)
  case Nil
  then show ?case by (simp add: same_but_retr_def)
next
  case (Cons p ps)
  consider (keep) "\<not> sa_is_timeout p" | (again) "sa_is_timeout p" "sa_can_be_retransmitted p m"
    | (lost) "sa_is_timeout p" "\<not> sa_can_be_retransmitted p m" by blast
  then show ?case
  proof cases
    case keep
    with Cons.prems(1) obtain k1 where "collect_timeouts ps nb rs st = Some (k1, nb', rs', st')"
      "kept = p # k1" by (auto split: bind_splits)
    with Cons.IH Cons.prems(2-4) show ?thesis by auto
  next
    case again
    let ?st = "st\<lparr>retransmission_packets := take (unat nb) (retransmission_packets st) @
        Some (sa_set_timeout (timeout_saf st) (sa_inc_retransmissions p)) #
        drop (unat nb) (retransmission_packets st)\<rparr>"
    have "collect_timeouts ps (nb + 1) rs ?st = Some (kept, nb', rs', st')"
      using again Cons.prems(1,3) by (simp add: Let_def)
    from Cons.IH [OF this] Cons.prems(2-4) again rt_inc [of p m] show ?thesis
      by (simp add: retr_ok_insert same_but_retr_def)
  next
    case lost
    with Cons.prems(1,3) obtain st1 rs1 where c: "backoff_collision rs st = Some (st1, rs1)"
      "collect_timeouts ps nb rs1 st1 = Some (kept, nb', rs', st')"
      by (auto split: bind_splits)
    from backoff_collision_frame [OF c(1)] obtain b where "st1 = st\<lparr>tal_backoff := b\<rparr>" ..
    with Cons.IH [OF c(2)] Cons.prems(2-4) show ?thesis by (simp add: same_but_retr_def)
  qed
qed

lemma collect_all_ok:
  assumes "collect_all w nb rs st = Some (w', nb', rs', st')" "waits_ok m w"
    "nb_max_retransmissions st = m" "retr_ok m (retransmission_packets st)"
  shows "waits_ok m w' \<and> retr_ok m (retransmission_packets st') \<and> same_but_retr st st'"
  using assms
proof (induction w arbitrary: nb rs st w')
  case Nil
  then show ?case by (simp add: same_but_retr_def)
next
  case (Cons e w)
  obtain q ps where e: "e = (q, ps)" by (cases e)
  from Cons.prems(1) obtain kept nb1 rs1 st1 w1 where 1:
    "collect_timeouts ps nb rs st = Some (kept, nb1, rs1, st1)"
    "collect_all w nb1 rs1 st1 = Some (w1, nb', rs', st')" "w' = (q, kept) # w1"
    by (auto simp: e split: bind_splits)
  from Cons.prems(2) have ps: "\<forall>p \<in> set ps. rt p \<le> m" "waits_ok m w"
    by (auto simp: e waits_ok_def)
  note c = collect_timeouts_ok [OF 1(1) ps(1) Cons.prems(3,4)]
  with Cons.IH [OF 1(2) ps(2)] Cons.prems(3) show ?case
    by (auto simp: same_but_retr_def 1(3) waits_ok_def)
qed

lemma send_packets_ok:
  assumes "send_packets frames rs st = Some (st', frames', rs')" "tal_ok st"
  shows "tal_ok st' \<and> nb_max_retransmissions st' = nb_max_retransmissions st"
proof -
  let ?m = "nb_max_retransmissions st"
  from assms(1) obtain ts rs1 retr s1 fifos s3 where 1:
    "send_retransmissions (length ts) (retransmission_packets st)
       \<lparr>complete_frames = frames, current_frame = new_saloha_frame MSG_SalohaData, slots_left = ts,
        packets_sent = 0, sender = st\<rparr> = Some (retr, s1)"
    "send_new (length ts) (tal_fifos st) (s1\<lparr>sender := (sender s1)\<lparr>retransmission_packets := retr\<rparr>\<rparr>)
       = Some (fifos, s3)"
    "st' = (sender s3)\<lparr>tal_fifos := fifos\<rparr>"
    by (auto simp: send_packets_def Let_def split: bind_splits)
  from assms(2) have ok: "waits_ok ?m (packets_wait_ack st)" "retr_ok ?m (retransmission_packets st)"
    "\<forall>f \<in> snd ` set (tal_fifos st). fifo_ok ?m f"
    by (simp_all add: tal_ok_def Let_def)
  from send_retransmissions_ok [OF 1(1) ok(2)] ok(1) obtain w where w:
    "retr_ok ?m retr" "waits_ok ?m (packets_wait_ack (sender s1))" "sender s1 = st\<lparr>packets_wait_ack := w\<rparr>"
    by auto
  from send_new_ok [OF 1(2) ok(3)] w obtain w' where
    "\<forall>f \<in> snd ` set fifos. fifo_ok ?m f" "waits_ok ?m (packets_wait_ack (sender s3))"
    "sender s3 = (sender s1)\<lparr>retransmission_packets := retr, packets_wait_ack := w'\<rparr>"
    by auto
  with w show ?thesis by (simp add: 1(3) tal_ok_def Let_def)
qed

lemma waits_ok_decrease:
  assumes "waits_ok m w"
  shows "waits_ok m (map (\<lambda>(q, ps). (q, map sa_dec_timeout ps)) w)"
proof -
  have "rt p \<le> m" if "(q, ps) \<in> set w" "p \<in> set ps" for q ps p
    using assms that by (auto simp: waits_ok_def)
  then show ?thesis by (auto simp: waits_ok_def)
qed

lemma schedule_ok:
  assumes "saloha_tal_schedule frames sf rs st = Some (st', frames', rs')" "tal_ok st"
  shows "tal_ok st' \<and> nb_max_retransmissions st' = nb_max_retransmissions st"
proof -
  from assms(1) obtain tick where t: "is_saloha_frame_tick (sf_per_saframe st) sf = Some tick"
    by (auto simp: saloha_tal_schedule_def split: bind_splits)
  show ?thesis
  proof (cases tick)
    case False
    with assms t show ?thesis by (auto simp: saloha_tal_schedule_def split: bind_splits)
  next
    case tick: True
    with assms(1) t obtain a b where b: "tal_backoff st = Some (a, b)"
      by (auto simp: saloha_tal_schedule_def split: bind_splits)
    let ?st1 = "decrease_timeouts (st\<lparr>tal_backoff := Some (a, backoff_tick b)\<rparr>)"
    have ok1: "tal_ok ?st1" "nb_max_retransmissions ?st1 = nb_max_retransmissions st"
      using assms(2) by (simp_all add: tal_ok_def Let_def decrease_timeouts_def waits_ok_decrease)
    show ?thesis
    proof (cases "backoff_is_ready (backoff_tick b)")
      case False
      with assms(1) t tick b ok1 show ?thesis
        by (auto simp: saloha_tal_schedule_def split: bind_splits)
    next
      case True
      with assms(1) t tick b obtain w nb rs1 st2 where 2:
        "collect_all (packets_wait_ack ?st1) 0 rs ?st1 = Some (w, nb, rs1, st2)"
        "send_packets frames rs1 (st2\<lparr>packets_wait_ack := w,
           nb_success := (if nb \<noteq> 0 then 0 else nb_success st2)\<rparr>) = Some (st', frames', rs')"
        by (auto simp: saloha_tal_schedule_def Let_def split: bind_splits)
      from ok1(1) have "waits_ok (nb_max_retransmissions ?st1) (packets_wait_ack ?st1)"
        "retr_ok (nb_max_retransmissions ?st1) (retransmission_packets ?st1)"
        by (simp_all add: tal_ok_def Let_def)
      from collect_all_ok [OF 2(1) this(1) refl this(2)] ok1 have
        "tal_ok (st2\<lparr>packets_wait_ack := w, nb_success := (if nb \<noteq> 0 then 0 else nb_success st2)\<rparr>)"
        "nb_max_retransmissions st2 = nb_max_retransmissions st"
        by (simp_all add: tal_ok_def Let_def same_but_retr_def)
      with send_packets_ok [OF 2(2)] show ?thesis by simp
    qed
  qed
qed

lemma remove_by_id_subset: "remove_by_id i ps = Some qs \<Longrightarrow> set qs \<subseteq> set ps"
  by (induction i ps arbitrary: qs rule: remove_by_id.induct) (auto split: if_splits)

lemma backoff_ready_frame: "backoff_ready rs st = Some (st', rs') \<Longrightarrow> \<exists>b. st' = st\<lparr>tal_backoff := b\<rparr>"
  by (auto simp: backoff_ready_def split: bind_splits) (rule exI, rule refl)

lemma tal_ok_waits:
  "tal_ok st \<Longrightarrow> \<forall>p \<in> set ps. rt p \<le> nb_max_retransmissions st \<Longrightarrow>
   tal_ok (st\<lparr>packets_wait_ack := omap_put q ps (packets_wait_ack st)\<rparr>)"
  by (simp add: tal_ok_def Let_def waits_ok_put)

lemma tal_ok_get: "tal_ok st \<Longrightarrow> \<forall>p \<in> set (omap_get [] q (packets_wait_ack st)). rt p \<le> nb_max_retransmissions st"
  by (auto simp: tal_ok_def Let_def dest: waits_ok_get)

lemma rcv_ack_ok:
  assumes "rcv_ack g i rs st = Some (st', rs')" "tal_ok st"
  shows "tal_ok st' \<and> nb_max_retransmissions st' = nb_max_retransmissions st"
proof -
  let ?q = "ucast (convert_packet_id g i ! 3) :: qos"
  let ?w = "omap_get [] ?q (packets_wait_ack st)"
  let ?st1 = "st\<lparr>packets_wait_ack := omap_put ?q ?w (packets_wait_ack st)\<rparr>"
  have ok1: "tal_ok ?st1" using assms(2) by (intro tal_ok_waits tal_ok_get)
  show ?thesis
  proof (cases "remove_by_id i ?w")
    case None
    with assms(1) ok1 show ?thesis by (auto simp: rcv_ack_def Let_def)
  next
    case (Some l)
    with assms(1) obtain st2 where b: "backoff_ready rs (?st1\<lparr>nb_success := nb_success ?st1 + 1\<rparr>) = Some (st2, rs')"
      "st' = st2\<lparr>packets_wait_ack := omap_put ?q l (packets_wait_ack st2)\<rparr>"
      by (auto simp: rcv_ack_def Let_def split: bind_splits)
    from backoff_ready_frame [OF b(1)] obtain x where
      "st2 = ?st1\<lparr>nb_success := nb_success ?st1 + 1, tal_backoff := x\<rparr>" by auto
    moreover have "\<forall>p \<in> set l. rt p \<le> nb_max_retransmissions st"
      using remove_by_id_subset [OF Some] tal_ok_get [OF assms(2), of ?q] by auto
    ultimately show ?thesis
      unfolding b(2) using ok1 by (intro conjI tal_ok_waits) (simp_all add: tal_ok_def Let_def)
  qed
qed

lemma tal_rcv_loop_ok:
  "tal_rcv_loop g n prev f rs st = Some (st', rs') \<Longrightarrow> tal_ok st \<Longrightarrow>
   tal_ok st' \<and> nb_max_retransmissions st' = nb_max_retransmissions st"
proof (induction n arbitrary: prev rs st)
  case (Suc n)
  from Suc.prems(1) obtain cur where
    "(tal_rcv_loop g n (prev + cur) f rs st = Some (st', rs')) \<or>
     (\<exists>i st1 rs1. rcv_ack g i rs st = Some (st1, rs1) \<and> tal_rcv_loop g n (prev + cur) f rs1 st1 = Some (st', rs'))"
    by (auto simp: Let_def split: bind_splits if_splits)
  then show ?case
  proof
    assume "tal_rcv_loop g n (prev + cur) f rs st = Some (st', rs')"
    from Suc.IH [OF this Suc.prems(2)] show ?thesis .
  next
    assume "\<exists>i st1 rs1. rcv_ack g i rs st = Some (st1, rs1) \<and> tal_rcv_loop g n (prev + cur) f rs1 st1 = Some (st', rs')"
    then obtain i st1 rs1 where a: "rcv_ack g i rs st = Some (st1, rs1)"
      "tal_rcv_loop g n (prev + cur) f rs1 st1 = Some (st', rs')" by blast
    from rcv_ack_ok [OF a(1) Suc.prems(2)] Suc.IH [OF a(2)] show ?thesis by simp
  qed
qed simp

text \<open>What can happen to a terminal: it schedules, it receives a control frame, and it gets a new
  packet, which is put in the FIFO of a QoS.\<close>

inductive tal_step :: "saloha_tal \<Rightarrow> saloha_tal \<Rightarrow> bool" where
  Schedule: "saloha_tal_schedule frames sf rs st = Some (st', frames', rs') \<Longrightarrow> tal_step st st'"
| Receive: "tal_on_rcv_frame g f rs st = Some (st', rs') \<Longrightarrow> tal_step st st'"
| Enqueue: "add_saloha_header gq e offset n st = Some (st1, p) \<Longrightarrow>
    map_of (tal_fifos st1) q = Some fifo \<Longrightarrow>
    fifo' = fst (push fifo \<lparr>fe_elem = p, tick_in = t, tick_out = t\<rparr>) \<Longrightarrow>
    tal_step st (st1\<lparr>tal_fifos := omap_put q fifo' (tal_fifos st1)\<rparr>)"

inductive_cases tal_stepE: "tal_step st st'"

lemma new_saloha_data_rt: "new_saloha_data q d i ts seq pdu n t = Some p \<Longrightarrow> rt p = 0"
  by (auto simp: new_saloha_data_def Let_def net_packet.defs dest!: rt_set_replicas split: bind_splits)

lemma add_header_ok:
  assumes "add_saloha_header g e offset n st = Some (st1, p)"
  shows "rt p = 0" "\<exists>b. st1 = st\<lparr>base_id := b\<rparr>"
proof -
  from assms obtain p0 where p0: "new_saloha_data g (cont_data e) (base_id st) 0 offset n (nb_replicas st)
      (timeout_saf st) = Some p0" "p = sa_set_qos (pkt_qos e) (p0\<lparr>src_tal_id := src_tal_id e\<rparr>)"
    by (auto simp: add_saloha_header_def Let_def split: bind_splits)
  then show "rt p = 0" using new_saloha_data_rt [OF p0(1)] by (simp add: sa_set_qos_def)
  from assms p0(1) have "st1 = st\<lparr>base_id := base_id st1\<rparr>"
    by (auto simp: add_saloha_header_def Let_def split: bind_splits if_splits)
  then show "\<exists>b. st1 = st\<lparr>base_id := b\<rparr>" ..
qed

lemma tal_step_ok:
  "tal_step st st' \<Longrightarrow> tal_ok st \<Longrightarrow> tal_ok st' \<and> nb_max_retransmissions st' = nb_max_retransmissions st"
proof (induction rule: tal_step.induct)
  case (Schedule frames sf rs st st' frames' rs')
  then show ?case by (intro schedule_ok)
next
  case (Receive g f rs st st' rs')
  then show ?case
    by (auto simp: tal_on_rcv_frame_def Let_def split: if_splits dest: tal_rcv_loop_ok)
next
  case (Enqueue gq e offset n st st1 p q fifo fifo' t)
  from add_header_ok [OF Enqueue(1)] obtain b where p: "rt p = 0" "st1 = st\<lparr>base_id := b\<rparr>" by blast
  have "(q, fifo) \<in> set (tal_fifos st)" using Enqueue(2) p(2) by (auto dest: map_of_SomeD)
  with Enqueue(4) have f: "fifo_ok (nb_max_retransmissions st) fifo"
    by (force simp: tal_ok_def Let_def)
  have "set (queue fifo') \<subseteq> set (queue fifo) \<union> {\<lparr>fe_elem = p, tick_in = t, tick_out = t\<rparr>}"
    by (auto simp: Enqueue(3) push_def Let_def)
  with f p(1) have "fifo_ok (nb_max_retransmissions st) fifo'" by (auto simp: fifo_ok_def)
  then have "\<forall>f \<in> snd ` set (omap_put q fifo' (tal_fifos st)). fifo_ok (nb_max_retransmissions st) f"
    using Enqueue(4) set_omap_put_subset [of q fifo' "tal_fifos st"]
    by (fastforce simp: tal_ok_def Let_def)
  with Enqueue(4) p(2) show ?case by (simp add: tal_ok_def Let_def)
qed

definition packets_of :: "saloha_tal \<Rightarrow> saloha_data set" where
  "packets_of st =
     (\<Union>(q, ps) \<in> set (packets_wait_ack st). set ps) \<union> {p. Some p \<in> set (retransmission_packets st)} \<union>
     (\<Union>f \<in> snd ` set (tal_fifos st). fe_elem ` set (queue f))"

lemma tal_ok_packets: "tal_ok st \<Longrightarrow> p \<in> packets_of st \<Longrightarrow> rt p \<le> nb_max_retransmissions st"
  by (force simp: tal_ok_def Let_def packets_of_def waits_ok_def retr_ok_def fifo_ok_def)

lemma limit_packets_frame:
  "limit_packets c st = Some st' \<Longrightarrow> packets_wait_ack st' = packets_wait_ack st \<and>
    tal_fifos st' = tal_fifos st \<and> retransmission_packets st' = retransmission_packets st"
  by (auto simp: limit_packets_def Let_def split: bind_splits if_splits)

lemma init_backoff_frame:
  assumes "init_backoff r conf st = Some (st', ok)"
  shows "packets_wait_ack st' = packets_wait_ack st \<and> tal_fifos st' = tal_fifos st \<and>
    retransmission_packets st' = retransmission_packets st"
  using assms by (auto simp: init_backoff_def Let_def split: option.splits bind_splits)

lemma init_frame:
  assumes "saloha_tal_init r conf tal cv c fifos st = Some (st', True)"
  shows "packets_wait_ack st' = packets_wait_ack st \<and> tal_fifos st' = fifos \<and>
    retransmission_packets st' = retransmission_packets st"
  using assms
  by (auto simp: saloha_tal_init_def Let_def split: if_splits option.splits bind_splits
      dest!: limit_packets_frame init_backoff_frame)

text \<open>C26: In every state a terminal reaches after its initialisation, no packet it holds, in a FIFO,
  waiting for an acknowledgement or to be sent again, has been retransmitted more often than
  configured.\<close>

theorem retransmissions_bounded:
  assumes "saloha_tal_init r conf tal cv c fifos (fst (sa_init_parent ms (Some n) new_saloha_tal)) = Some (st0, True)"
    "\<forall>f \<in> snd ` set fifos. queue f = []"
    "rtranclp tal_step st0 st" "p \<in> packets_of st"
  shows "sa_retransmissions p \<le> nb_max_retransmissions st0"
proof -
  have "tal_ok st0"
    using init_frame [OF assms(1)] assms(2)
    by (simp add: tal_ok_def Let_def sa_init_parent_def new_saloha_tal_def waits_ok_def retr_ok_def
        fifo_ok_def)
  from assms(3) this have "tal_ok st \<and> nb_max_retransmissions st = nb_max_retransmissions st0"
  proof (induction rule: rtranclp_induct)
    case (step y z)
    with tal_step_ok [OF step(2)] show ?case by simp
  qed simp
  with tal_ok_packets assms(4) show ?thesis by fastforce
qed

theorem retransmissions_bounded_witness:
  "\<exists>conf c fifos st0 st p.
    saloha_tal_init 0 conf 3 (new_converter 1 1 1) c fifos (fst (sa_init_parent 1 (Some 1) new_saloha_tal))
      = Some (st0, True) \<and>
    tal_step st0 st \<and> p \<in> packets_of st \<and> sa_retransmissions p \<le> nb_max_retransmissions st0"
proof -
  define g where "g = (new_carriers_saloha 1 \<lparr>group_members = [], group_modcods = []\<rparr> 1 1000 ALOHA)
    \<lparr>carriers_number := 1\<rparr>"
  define c where "c = (new_saloha_category ''Standard'' ALOHA)\<lparr>sc_groups := [g]\<rparr>"
  define fifos :: "(qos, saloha_more dvb_fifo) omap"
    where "fifos = [(2, new_fifo 2 ''BE'' ''SALOHA'' 10)]"
  define conf where "conf = \<lparr>conf_max_packets = Some 1, conf_replicas = Some 3, conf_timeout = Some 5,
    conf_sat_delay = Some 1, conf_max_retry = Some 4, conf_backoff_algo = Some ''BEB'',
    conf_max_cw = Some 8, conf_backoff_multiple = Some 2\<rparr>"
  have g: "slots_per_carrier_of cv g = (cv, 0)" "group_slots g = []" "carriers_number g = 1" for cv
    by (simp_all add: g_def slots_per_carrier_of_def group_fmt_def new_carriers_saloha_def
        carriers_group.defs new_carriers_group_def)
  have c: "category_slots_number (snd (compute_slots_number cv c)) = 0"
    "saloha_carriers_number (snd (compute_slots_number cv c)) = 1" for cv
    by (simp_all add: c_def compute_slots_number_def g set_slots_number_def category_slots_number_def
        saloha_carriers_number_def group_slots_number_def)
  have "\<exists>st0. saloha_tal_init 0 conf 3 (new_converter 1 1 1) c fifos
      (fst (sa_init_parent 1 (Some 1) new_saloha_tal)) = Some (st0, True) \<and> tal_fifos st0 = fifos \<and>
      nb_replicas st0 = 3"
    by (simp add: saloha_tal_init_def sa_init_parent_def conf_def limit_packets_def c int_product_def
        timeout_too_low_def init_backoff_def backoff_of_name_def new_beb_def beb_set_ready_def Let_def)
  then obtain st0 where st0: "saloha_tal_init 0 conf 3 (new_converter 1 1 1) c fifos
      (fst (sa_init_parent 1 (Some 1) new_saloha_tal)) = Some (st0, True)" "tal_fifos st0 = fifos"
    "nb_replicas st0 = 3" by blast
  have "\<exists>st1 p. add_saloha_header 0 (new_packet []) 0 1 st0 = Some (st1, p)"
    using layout_new [of "nb_replicas st0" "[]" 0 "base_id st0" 0 0 1 "timeout_saf st0"] st0(3)
    by (auto simp: add_saloha_header_def new_packet_def new_container_def net_container.defs Let_def)
  then obtain st1 p where p: "add_saloha_header 0 (new_packet []) 0 1 st0 = Some (st1, p)" by blast
  define f where "f = fst (push (new_fifo 2 ''BE'' ''SALOHA'' 10 :: saloha_more dvb_fifo)
    \<lparr>fe_elem = p, tick_in = 0, tick_out = 0\<rparr>)"
  define st where "st = st1\<lparr>tal_fifos := omap_put 2 f (tal_fifos st1)\<rparr>"
  have fs: "tal_fifos st1 = fifos" using add_header_ok(2) [OF p] st0(2) by auto
  have step: "tal_step st0 st"
    unfolding st_def by (rule Enqueue [OF p _ f_def]) (simp add: fs fifos_def)
  have q: "queue f = [\<lparr>fe_elem = p, tick_in = 0, tick_out = 0\<rparr>]"
    by (simp add: f_def push_def new_fifo_def Let_def)
  have mem: "p \<in> packets_of st"
    by (simp add: st_def packets_of_def fs fifos_def q)
  have "\<forall>f \<in> snd ` set fifos. queue f = []" by (simp add: fifos_def new_fifo_def Let_def)
  from retransmissions_bounded [OF st0(1) this r_into_rtranclp [of tal_step, OF step] mem] st0(1) step mem
  show ?thesis by blast
qed

section \<open>The slots a terminal draws\<close>

lemma random_scaled_less:
  assumes "r < RAND_MAX" "0 < n"
  shows "random_scaled r n < of_nat n"
proof -
  let ?e = "1 + 1 / 2 ^ 53 :: rat" and ?q = "of_nat r / of_nat RAND_MAX :: rat"
  have "fl64 ?q \<le> ?q * ?e" by (rule fl_bounds(2)) simp
  then have "fl64 ?q * of_nat n \<le> (?q * ?e) * of_nat n" by (rule mult_right_mono) simp
  moreover have "random_scaled r n \<le> fl64 ?q * of_nat n * ?e"
    unfolding random_scaled_def by (rule fl_bounds(2)) (simp add: fl_nonneg)
  ultimately have "random_scaled r n \<le> (?q * ?e) * of_nat n * ?e"
    by (meson mult_right_mono order.trans zero_le_divide_1_iff add_nonneg_nonneg zero_le_one
        zero_le_power zero_le_numeral)
  also have "\<dots> = (?q * (?e * ?e)) * of_nat n" by (simp add: mult.commute mult.left_commute)
  also have "\<dots> < 1 * of_nat n"
  proof (rule mult_strict_right_mono)
    have "?q \<le> (of_nat (RAND_MAX - 1)) / of_nat RAND_MAX"
      using assms(1) by (intro divide_right_mono) (simp_all add: RAND_MAX_def)
    then have "?q * (?e * ?e) \<le> (of_nat (RAND_MAX - 1)) / of_nat RAND_MAX * (?e * ?e)"
      by (rule mult_right_mono) simp
    also have "\<dots> < 1" by (simp add: RAND_MAX_def)
    finally show "?q * (?e * ?e) < 1" .
  qed (use assms(2) in simp)
  finally show ?thesis by simp
qed

lemma unat_random_slot:
  assumes "r < RAND_MAX" "0 < n" "n \<le> 2 ^ LENGTH('a)"
  shows "unat (trunc (random_scaled r n) :: 'a::len word) < n"
proof -
  have lt: "random_scaled r n < of_nat n" using assms(1,2) by (rule random_scaled_less)
  also have "(of_nat n :: rat) \<le> of_nat (2 ^ LENGTH('a))" using assms(3) by (simp only: of_nat_le_iff)
  finally have "unat (trunc (random_scaled r n) :: 'a word) = nat \<lfloor>random_scaled r n\<rfloor>"
    by (intro unat_trunc random_scaled_nonneg) simp
  also have "\<dots> < n"
    using lt assms(2) by (simp add: nat_less_iff floor_less_iff random_scaled_nonneg)
  finally show ?thesis .
qed

lemma length_insort_insert:
  "length (insort_insert x xs) = (if x \<in> set xs then length xs else Suc (length xs))"
  by (simp add: insort_insert_key_def)

lemma draw_distinct_spec:
  assumes "draw_distinct mx pc rs tmp = Some (tmp', rs')" "\<forall>r \<in> set rs. r < RAND_MAX"
    "0 < pc" "pc \<le> 2 ^ 16"
    "sorted tmp" "distinct tmp" "length tmp \<le> mx" "\<forall>i \<in> set tmp. unat i < pc"
  shows "sorted tmp' \<and> distinct tmp' \<and> length tmp' = mx \<and> (\<forall>i \<in> set tmp'. unat i < pc) \<and> set rs' \<subseteq> set rs"
  using assms
proof (induction rs arbitrary: tmp)
  case Nil
  then show ?case by (subst (asm) draw_distinct.simps) (auto split: if_splits)
next
  case (Cons r rs)
  show ?case
  proof (cases "mx \<le> length tmp")
    case True
    with Cons.prems show ?thesis by (subst (asm) draw_distinct.simps) auto
  next
    case False
    let ?t = "insort_insert (trunc (random_scaled r pc)) tmp"
    have "draw_distinct mx pc rs ?t = Some (tmp', rs')"
      using Cons.prems(1) False by (subst (asm) draw_distinct.simps) simp
    moreover have "unat (trunc (random_scaled r pc) :: u16) < pc"
      using Cons.prems by (intro unat_random_slot) simp_all
    ultimately have "sorted tmp' \<and> distinct tmp' \<and> length tmp' = mx \<and> (\<forall>i \<in> set tmp'. unat i < pc) \<and>
        set rs' \<subseteq> set rs"
      using Cons.prems False
      by (intro Cons.IH [of ?t]) (auto simp: sorted_insort_insert distinct_insort_insert length_insort_insert
          set_insort_insert)
    then show ?thesis by auto
  qed
qed

lemma mod_mult_add: "i < m \<Longrightarrow> (a * m + i) mod m = (i :: nat)"
  by simp

lemma spread_slots_spec:
  assumes "spread_slots cn pc rs is acc = Some (ts, rs')" "\<forall>r \<in> set rs. r < RAND_MAX"
    "0 < unat cn" "unat cn * unat pc < 2 ^ 16" "\<forall>i \<in> set is. unat i < unat pc" "distinct is"
    "sorted acc" "distinct acc" "\<forall>a \<in> set acc. unat a < unat cn * unat pc"
    "\<forall>a \<in> set acc. unat a mod unat pc \<notin> unat ` set is"
  shows "sorted ts \<and> distinct ts \<and> length ts = length acc + length is \<and>
    (\<forall>a \<in> set ts. unat a < unat cn * unat pc)"
  using assms
proof (induction cn pc rs "is" acc rule: spread_slots.induct)
  case (3 cn pc r rs i js acc)
  let ?c = "trunc (random_scaled r (unat cn)) :: u32"
  let ?s = "ucast (?c * pc + ucast i) :: u16"
  have c: "unat ?c < unat cn"
    using "3.prems"(2,3) unsigned_less [of cn, where ?'a = nat] by (intro unat_random_slot) simp_all
  have i: "unat i < unat pc" using "3.prems"(5) by simp
  have "unat ?c * unat pc + unat i < Suc (unat ?c) * unat pc" using i by simp
  also have "\<dots> \<le> unat cn * unat pc" using c by (intro mult_right_mono) simp_all
  finally have lt: "unat ?c * unat pc + unat i < unat cn * unat pc" .
  have "unat (?c * pc + ucast i) = unat ?c * unat pc + unat i"
    using lt "3.prems"(4) by (simp add: unat_word_ariths)
  then have s: "unat ?s = unat ?c * unat pc + unat i"
    using lt "3.prems"(4) by (subst unat_ucast_down) simp_all
  have m: "unat ?s mod unat pc = unat i" unfolding s using i by simp
  have new: "?s \<notin> set acc" using "3.prems"(10) m by force
  have "sorted ts \<and> distinct ts \<and> length ts = length (insort_insert ?s acc) + length js \<and>
      (\<forall>a \<in> set ts. unat a < unat cn * unat pc)"
  proof (rule "3.IH")
    show "spread_slots cn pc rs js (insort_insert ?s acc) = Some (ts, rs')" using "3.prems"(1) by simp
    show "\<forall>a \<in> set (insort_insert ?s acc). unat a < unat cn * unat pc"
      using "3.prems"(9) lt s by (simp add: set_insort_insert)
    have "unat i \<notin> unat ` set js" using "3.prems"(6) by (auto dest: word_unat_eq_iff [THEN iffD2])
    with m "3.prems"(10) show "\<forall>a \<in> set (insort_insert ?s acc). unat a mod unat pc \<notin> unat ` set js"
      by (simp add: set_insort_insert)
  qed (use "3.prems" in \<open>simp_all add: sorted_insort_insert distinct_insort_insert\<close>)
  with new show ?case by (simp add: length_insort_insert)
qed simp_all

text \<open>When no draw is the largest random number, the slots a terminal sends in are distinct
  existing slots of its category, as many as its packets and their replicas need.\<close>

theorem time_slots_exist:
  assumes "get_time_slots rs st = Some (ts, rs')" "tal_saloha_category st = Some c"
    "\<forall>r \<in> set rs. r < RAND_MAX" "unat (category_slots_number c) < 2 ^ 16"
    "saloha_carriers_number c \<le> category_slots_number c"
  shows "sorted ts \<and> distinct ts \<and> (\<forall>t \<in> set ts. unat t < unat (category_slots_number c)) \<and>
    length ts = unat (min (packets_to_send st) (nb_max_packets st) * nb_replicas st)"
proof -
  let ?n = "category_slots_number c" and ?cn = "saloha_carriers_number c"
  let ?mx = "min (packets_to_send st) (nb_max_packets st) * nb_replicas st"
  from assms(1,2) obtain pc where pc: "udiv ?n ?cn = Some pc"
    by (auto simp: get_time_slots_def split: bind_splits)
  with assms(1,2) obtain tmp rs1 where d: "draw_distinct (unat ?mx) (unat pc) rs [] = Some (tmp, rs1)"
    "spread_slots ?cn pc rs1 tmp [] = Some (ts, rs')"
    by (auto simp: get_time_slots_def Let_def split: bind_splits)
  have cn: "0 < unat ?cn" using pc by (cases "?cn = 0") (auto simp: unat_gt_0)
  have pcv: "unat pc = unat ?n div unat ?cn" using pc by (auto simp: udiv_def unat_div split: if_splits)
  have le: "unat ?cn * unat pc \<le> unat ?n" by (simp add: pcv)
  have pos: "0 < unat pc"
    using assms(5) cn by (simp add: pcv div_greater_zero_iff word_le_nat_alt)
  have "unat pc \<le> unat ?n" by (simp add: pcv)
  with assms(4) have "unat pc \<le> 2 ^ 16" by simp
  from draw_distinct_spec [OF d(1) assms(3) pos this] have tmp:
    "sorted tmp" "distinct tmp" "length tmp = unat ?mx" "\<forall>i \<in> set tmp. unat i < unat pc"
    "set rs1 \<subseteq> set rs" by auto
  from spread_slots_spec [OF d(2)] assms(3,4) cn le tmp show ?thesis by fastforce
qed

theorem time_slots_exist_witness:
  "\<exists>st c. tal_saloha_category st = Some c \<and> get_time_slots [0, 0] st = Some ([0], []) \<and>
    unat (0 :: u16) < unat (category_slots_number c)"
proof -
  define g where "g = (new_carriers_saloha 1 \<lparr>group_members = [], group_modcods = []\<rparr> 1 1000 ALOHA)
    \<lparr>carriers_number := 1, group_slots := [(0, new_slot 1 0), (1, new_slot 1 1)]\<rparr>"
  define c where "c = (new_saloha_category ''Standard'' ALOHA)\<lparr>sc_groups := [g]\<rparr>"
  define st where "st = new_saloha_tal\<lparr>tal_saloha_category := Some c, retransmission_packets := [None],
    nb_max_packets := 1, nb_replicas := 1\<rparr>"
  have c: "category_slots_number c = 2" "saloha_carriers_number c = 1"
    by (simp_all add: c_def g_def category_slots_number_def saloha_carriers_number_def group_slots_number_def)
  have z: "random_scaled 0 n = 0" for n by (simp add: random_scaled_def)
  have d: "draw_distinct (Suc 0) m [0, 0] [] = Some ([0], [0])" for m
    by (simp add: draw_distinct.simps z trunc_def insort_insert_key_def)
  have st: "tal_saloha_category st = Some c" "packets_to_send st = 1" "nb_max_packets st = 1" "nb_replicas st = 1"
    by (simp_all add: st_def packets_to_send_def new_saloha_tal_def)
  then have ts: "get_time_slots [0, 0] st = Some ([0], [])"
    by (simp add: get_time_slots_def c d z trunc_def insort_insert_key_def)
  from time_slots_exist [OF ts st(1)] have "unat (0 :: u16) < unat (category_slots_number c)"
    by (simp add: c RAND_MAX_def)
  with ts st(1) show ?thesis by blast
qed

end
