(* ===== verification/Saloha_Ncc.thy ===== *)
theory Saloha_Ncc
  imports Saloha_Tal Net_Burst "HOL-Library.List_Lexorder" "HOL-Library.Char_ord"
begin

text \<open>
  Slotted Aloha in the network control centre (\<^verbatim>\<open>opensand-core/src/dvb/saloha/SlottedAlohaNcc.cpp\<close>,
  \<^verbatim>\<open>SlottedAlohaNcc.h\<close>).  Received packets are put in the slots of the category of their
  terminal; at each Slotted Aloha frame the collisions are removed, the packets left are
  acknowledged, and complete PDUs are handed to the encapsulation.

  The encapsulation plugin is a parameter (the source and QoS it reads in a packet, and the packet
  it builds), and so is the order \<^verbatim>\<open>std::sort\<close> leaves the accepted packets in.
\<close>

section \<open>Parameters\<close>

record packet_handler =
  handler_src :: "bytes \<Rightarrow> tal_id"
  handler_qos :: "bytes \<Rightarrow> qos"
  handler_build :: "bytes \<Rightarrow> nat \<Rightarrow> net_packet option"

type_synonym packet_sort =
  "(saloha_data \<Rightarrow> saloha_data \<Rightarrow> bool) \<Rightarrow> saloha_data list \<Rightarrow> saloha_data list"

definition BROADCAST_TAL_ID :: u8 where "BROADCAST_TAL_ID = 0x1F"

section \<open>Simulated traffic\<close>

record saloha_simu =
  simu_category :: string
  simu_replicas :: u16
  simu_nb_tal :: tal_id
  simu_packets_per_tal :: u16

definition slots_per_carrier :: "saloha_category \<Rightarrow> u16 option" where
  "slots_per_carrier c =
     map_option ucast (udiv (category_slots_number c) (saloha_carriers_number c))"

text \<open>The divisions are those of 16-bit integers promoted to \<^verbatim>\<open>int\<close>.\<close>

definition new_saloha_simu :: "saloha_category \<Rightarrow> u16 \<Rightarrow> u16 \<Rightarrow> u8 \<Rightarrow> saloha_simu option" where
  "new_saloha_simu c mx replicas ratio = do {
     spc \<leftarrow> slots_per_carrier c;
     let nb_slots = (ucast (category_slots_number c * ucast ratio div 100) :: u16);
     let nb_pkts = nb_slots * replicas;
     nb_tal \<leftarrow> udiv nb_slots mx;
     each \<leftarrow> udiv nb_slots nb_tal;
     let per_tal = each * replicas;
     if per_tal > spc
     then do {
       k \<leftarrow> udiv spc replicas;
       let per_tal' = k * replicas;
       pk \<leftarrow> udiv per_tal' replicas;
       tals \<leftarrow> udiv nb_pkts pk;
       Some \<lparr>simu_category = sc_label c, simu_replicas = replicas, simu_nb_tal = tals,
             simu_packets_per_tal = per_tal'\<rparr> }
     else Some \<lparr>simu_category = sc_label c, simu_replicas = replicas, simu_nb_tal = nb_tal,
                simu_packets_per_tal = per_tal\<rparr> }"

text \<open>The packets of one simulated terminal: groups of replicas over the slots drawn.  Reading past
  the last slot is a fault, and without replicas the loop would never end.\<close>

fun simulate_replicas ::
  "qos \<Rightarrow> u8 \<Rightarrow> u16 \<Rightarrow> u16 list \<Rightarrow> u16 list \<Rightarrow> slots \<Rightarrow> saloha_category \<Rightarrow> saloha_category option" where
  "simulate_replicas g tal pdu [] replicas slots c = Some c"
| "simulate_replicas g tal pdu (r # rs) replicas slots c = do {
     p \<leftarrow> new_saloha_data g [] (ucast pdu) 0 0 0 (of_nat (length replicas)) 0;
     p1 \<leftarrow> sa_set_replicas (Some replicas) (length replicas) (p\<lparr>src_tal_id := tal\<rparr>);
     s \<leftarrow> map_of slots (ucast r);
     let s' = slot_push (sa_set_ts r p1) s;
     simulate_replicas g tal pdu rs replicas (omap_update (\<lambda>_. s') (ucast r) slots)
       (store_slots [(ucast r, s')] c) }"

function simulate_pdus ::
  "qos \<Rightarrow> u8 \<Rightarrow> nat \<Rightarrow> u16 \<Rightarrow> u16 list \<Rightarrow> saloha_category \<Rightarrow> saloha_category option" where
  "simulate_pdus g tal n pdu ts c =
     (if ts = [] then Some c
      else if n = 0 \<or> length ts < n then None
      else case simulate_replicas g tal pdu (take n ts) (take n ts) (category_slots c) c of
             None \<Rightarrow> None
           | Some c' \<Rightarrow> simulate_pdus g tal n (pdu + 1) (drop n ts) c')"
  by auto
termination
  by (relation "measure (\<lambda>(g, tal, n, pdu, ts, c). length ts)") auto

declare simulate_pdus.simps [simp del]

fun simulate_terminals ::
  "qos \<Rightarrow> nat \<Rightarrow> nat \<Rightarrow> saloha_simu \<Rightarrow> draws \<Rightarrow> saloha_category \<Rightarrow> (saloha_category \<times> draws) option" where
  "simulate_terminals g 0 cpt s rs c = Some (c, rs)"
| "simulate_terminals g (Suc n) cpt s rs c = do {
     spc \<leftarrow> slots_per_carrier c;
     (tmp, rs1) \<leftarrow> draw_distinct (unat (simu_packets_per_tal s)) (unat spc) rs [];
     (ts, rs2) \<leftarrow> spread_slots (saloha_carriers_number c) (ucast spc) rs1 tmp [];
     c' \<leftarrow> simulate_pdus g (BROADCAST_TAL_ID + 1 + of_nat cpt) (unat (simu_replicas s)) 0 ts c;
     simulate_terminals g n (Suc cpt) s rs2 c' }"

definition simulate_traffic ::
  "qos \<Rightarrow> saloha_simu \<Rightarrow> draws \<Rightarrow> saloha_category \<Rightarrow> (saloha_category \<times> draws) option" where
  "simulate_traffic g s rs c = simulate_terminals g (unat (simu_nb_tal s)) 0 s rs c"

section \<open>State\<close>

text \<open>Categories are referred to by their labels; an affectation without a category is the null
  pointer.\<close>

record saloha_ncc =
  ncc_sf_per_saframe :: time_sf
  ncc_parent_init :: bool
  ncc_handler :: packet_handler
  ncc_categories :: "(string, saloha_category) omap"
  ncc_affectation :: "(tal_id, string option) omap"
  ncc_default :: "string option"
  ncc_spot :: spot_id
  ncc_terminals :: "(tal_id, term_saloha) omap"
  ncc_algo :: "saloha_algo option"
  ncc_simu :: "saloha_simu list"

record simu_config =
  sim_label :: "string option"
  sim_max_packets :: "int option"
  sim_replicas :: "int option"
  sim_ratio :: "int option"

fun init_simulations :: "simu_config list \<Rightarrow> saloha_ncc \<Rightarrow> (saloha_ncc \<times> bool) option" where
  "init_simulations [] st = Some (st, True)"
| "init_simulations (s # ss) st =
     (case (sim_label s, sim_max_packets s, sim_replicas s, sim_ratio s) of
        (Some label, Some mx, Some rp, Some ratio) \<Rightarrow>
          (if (word_of_int mx :: u16) = 0 then init_simulations ss st
           else case map_of (ncc_categories st) label of
                  None \<Rightarrow> init_simulations ss st
                | Some c \<Rightarrow> do {
                    simu \<leftarrow> new_saloha_simu c (word_of_int mx) (word_of_int rp) (word_of_int ratio);
                    init_simulations ss (st\<lparr>ncc_simu := ncc_simu st @ [simu]\<rparr>) })
      | _ \<Rightarrow> Some (st, False))"

text \<open>The converter keeps the scheme of the last group it was used for.\<close>

fun compute_all_slots ::
  "unit_converter \<Rightarrow> (string, saloha_category) omap \<Rightarrow> unit_converter \<times> (string, saloha_category) omap" where
  "compute_all_slots cv [] = (cv, [])"
| "compute_all_slots cv ((l, c) # m) =
     (let (cv1, c1) = compute_slots_number cv c; (cv2, m1) = compute_all_slots cv1 m
      in (cv2, (l, c1) # m1))"

definition algo_of_name :: "string \<Rightarrow> saloha_algo option" where
  "algo_of_name n = (if n = ''DSA'' then Some DSA else if n = ''CRDSA'' then Some CRDSA else None)"

definition saloha_ncc_init ::
  "string option \<Rightarrow> simu_config list \<Rightarrow> (string, saloha_category) omap \<Rightarrow>
     (tal_id, string option) omap \<Rightarrow> string option \<Rightarrow> spot_id \<Rightarrow> unit_converter \<Rightarrow> saloha_ncc \<Rightarrow>
     (saloha_ncc \<times> bool) option" where
  "saloha_ncc_init algo sims cats affectation dflt spot cv st =
     (let st1 = st\<lparr>ncc_spot := spot\<rparr> in
      if \<not> ncc_parent_init st1 then Some (st1, False)
      else
        (let st2 = st1\<lparr>ncc_categories := snd (compute_all_slots cv cats), ncc_affectation := affectation,
             ncc_default := dflt\<rparr>
         in case algo of
              None \<Rightarrow> Some (st2, False)
            | Some name \<Rightarrow>
                (case algo_of_name name of
                   None \<Rightarrow> Some (st2, False)
                 | Some a \<Rightarrow> init_simulations sims (st2\<lparr>ncc_algo := Some a\<rparr>))))"

section \<open>Terminals\<close>

definition saloha_add_terminal :: "tal_id \<Rightarrow> saloha_ncc \<Rightarrow> saloha_ncc \<times> bool" where
  "saloha_add_terminal tal st =
     (if map_of (ncc_terminals st) tal \<noteq> None then (st, True)
      else if tal \<ge> ucast BROADCAST_TAL_ID then (st, False)
      else
        (case (case map_of (ncc_affectation st) tal of
                 None \<Rightarrow> map_option Some (ncc_default st)
               | Some l \<Rightarrow> Some l) of
           None \<Rightarrow> (st, False)
         | Some None \<Rightarrow> (st, True)
         | Some (Some label) \<Rightarrow>
             (case map_of (ncc_categories st) label of
                None \<Rightarrow> (st, True)
              | Some c \<Rightarrow>
                  (st\<lparr>ncc_terminals := omap_put tal ((new_term_saloha tal)\<lparr>ts_category := label\<rparr>) (ncc_terminals st),
                      ncc_categories := omap_put label (saloha_category_add tal c) (ncc_categories st)\<rparr>,
                   True))))"

section \<open>Reception\<close>

definition slot_packet :: "tal_id \<Rightarrow> saloha_data \<Rightarrow> saloha_ncc \<Rightarrow> saloha_ncc option" where
  "slot_packet src p st =
     (case map_of (ncc_terminals st) src of
        None \<Rightarrow> Some st
      | Some t \<Rightarrow>
          (case map_of (ncc_categories st) (ts_category t) of
             None \<Rightarrow> None
           | Some c \<Rightarrow>
               (case map_of (category_slots c) (ucast (sa_get_ts p)) of
                  None \<Rightarrow> Some st
                | Some s \<Rightarrow>
                    (let c' = increase_received (store_slots [(ucast (sa_get_ts p), slot_push p s)] c)
                     in Some (st\<lparr>ncc_categories := omap_put (ts_category t) c' (ncc_categories st)\<rparr>)))))"

text \<open>The header of a packet is read in the payload, which a null byte follows; \<open>t\<close> and
  \<open>n\<close> are what the memory of the new packet held.\<close>

fun ncc_rcv_loop ::
  "time_sf \<Rightarrow> u16 \<Rightarrow> nat \<Rightarrow> nat \<Rightarrow> dvb_frame \<Rightarrow> saloha_ncc \<Rightarrow> saloha_ncc option" where
  "ncc_rcv_loop t n 0 previous f st = Some st"
| "ncc_rcv_loop t n (Suc k) previous f st = do {
     payload \<leftarrow> get_payload_from f previous;
     if length payload < 14 then None
     else
       (let cur = sa_packet_length (payload @ [0]); p = received_saloha_data t n payload cur in
        if length (cont_data p) < 11 then None
        else do {
          encap \<leftarrow> sa_get_payload p;
          let src = handler_src (ncc_handler st) encap;
          let p1 = sa_set_qos (handler_qos (ncc_handler st) encap) (p\<lparr>src_tal_id := ucast src\<rparr>);
          st' \<leftarrow> slot_packet src p1 st;
          ncc_rcv_loop t n k (previous + cur) f st' }) }"

definition ncc_on_rcv_frame :: "time_sf \<Rightarrow> u16 \<Rightarrow> dvb_frame \<Rightarrow> saloha_ncc \<Rightarrow> saloha_ncc option" where
  "ncc_on_rcv_frame t n frame st =
     (let f = frame\<lparr>header_length := 5\<rparr> in
      if saloha_data_length f \<le> 0 then Some st
      else ncc_rcv_loop t n (unat (saloha_data_length f)) 0 f st)"

section \<open>Collisions\<close>

text \<open>Two packets of a terminal other than 0 are ordered by the slots of their first replicas.\<close>

definition first_slot :: "saloha_data \<Rightarrow> u16" where
  "first_slot p = (case sa_get_replica p 0 of None \<Rightarrow> 0 | Some r \<Rightarrow> r)"

definition aloha_before :: "saloha_data \<Rightarrow> saloha_data \<Rightarrow> bool" where
  "aloha_before p q \<longleftrightarrow>
     first_slot p < first_slot q \<and> src_tal_id p = src_tal_id q \<and> src_tal_id p \<noteq> 0"

definition ncc_remove_collisions ::
  "packet_sort \<Rightarrow> saloha_algo \<Rightarrow> saloha_category \<Rightarrow> saloha_category option" where
  "ncc_remove_collisions srt algo c = do {
     _ \<leftarrow> slots_per_carrier c;
     (m, acc, nbr) \<leftarrow> remove_collisions_with algo (category_slots c) (sc_accepted c);
     _ \<leftarrow> udiv (ucast nbr * 100) (category_slots_number c);
     if 1 < length acc \<and> (\<exists>p \<in> set acc. sa_get_replica p 0 = None) then None
     else Some ((store_slots m c)\<lparr>sc_accepted := srt aloha_before acc\<rparr>) }"

section \<open>Scheduling\<close>

text \<open>The terminals, the frames and the burst change while the accepted packets are handled.\<close>

record ncc_send =
  ns_terminals :: "(tal_id, term_saloha) omap"
  ns_frames :: "dvb_frame list"
  ns_frame :: dvb_frame
  ns_burst :: net_burst

definition new_ctrl_frame :: "spot_id \<Rightarrow> dvb_frame" where
  "new_ctrl_frame spot = (new_saloha_frame MSG_SalohaCtrl)\<lparr>cont_spot := spot\<rparr>"

definition remove_saloha_header :: "packet_handler \<Rightarrow> saloha_data \<Rightarrow> net_packet option option" where
  "remove_saloha_header h p = do {
     d \<leftarrow> sa_get_payload p;
     Some (handler_build h d (sa_payload_length p)) }"

fun propagate :: "packet_handler \<Rightarrow> saloha_data list \<Rightarrow> net_burst \<Rightarrow> net_burst option" where
  "propagate h [] b = Some b"
| "propagate h (p # ps) b = do {
     e \<leftarrow> remove_saloha_header h p;
     propagate h ps (fst (burst_add e b)) }"

text \<open>The acknowledgement of a packet goes to the current control frame, or to a new one when
  there is no room left.\<close>

definition put_ack :: "spot_id \<Rightarrow> saloha_id \<Rightarrow> tal_id \<Rightarrow> ncc_send \<Rightarrow> ncc_send \<times> bool" where
  "put_ack spot i tal s =
     (let ack = new_saloha_ctrl i SALOHA_CTRL_ACK tal; len = ctrl_packet_length (cont_data ack);
          s1 = (if get_free_space (ns_frame s) < len
                then s\<lparr>ns_frames := ns_frames s @ [ns_frame s], ns_frame := new_ctrl_frame spot\<rparr>
                else s);
          (f, ok) = saloha_frame_add len (cont_data ack) (ns_frame s1)
      in (s1\<lparr>ns_frame := f\<rparr>, ok))"

text \<open>An accepted packet of a known terminal of the category is acknowledged and added to the
  context of the terminal; a simulated one is dropped.  The identifiers \<open>g\<close> and the distance
  \<open>md\<close> are those of the terminal contexts.\<close>

definition accept_packet ::
  "u32 \<Rightarrow> u16 list \<Rightarrow> packet_handler \<Rightarrow> spot_id \<Rightarrow> string \<Rightarrow> saloha_data \<Rightarrow> ncc_send \<Rightarrow> ncc_send option" where
  "accept_packet md g h spot label p s =
     (let tal = sa_terminal p in
      if tal > ucast BROADCAST_TAL_ID then Some s
      else case map_of (ns_terminals s) tal of
             None \<Rightarrow> Some s
           | Some t \<Rightarrow>
               (if ts_category t \<noteq> label then Some s
                else
                  (let (s1, ok) = put_ack spot (sa_unique_id p) tal s in
                   if \<not> ok then Some s1
                   else do {
                     (t', pdu, state) \<leftarrow> ctx_add_packet md g p t;
                     let s2 = s1\<lparr>ns_terminals := omap_put tal t' (ns_terminals s1)\<rparr>;
                     (case state of
                        NoPropagation \<Rightarrow> Some s2
                      | Propagation \<Rightarrow> do {
                          b \<leftarrow> propagate h pdu (ns_burst s2);
                          Some (s2\<lparr>ns_burst := b\<rparr>) }) })))"

fun accept_all ::
  "u32 \<Rightarrow> u16 list \<Rightarrow> packet_handler \<Rightarrow> spot_id \<Rightarrow> string \<Rightarrow> saloha_data list \<Rightarrow> ncc_send \<Rightarrow> ncc_send option" where
  "accept_all md g h spot label [] s = Some s"
| "accept_all md g h spot label (p # ps) s = do {
     s' \<leftarrow> accept_packet md g h spot label p s;
     accept_all md g h spot label ps s' }"

fun simulate_all ::
  "qos \<Rightarrow> saloha_simu list \<Rightarrow> draws \<Rightarrow> saloha_category \<Rightarrow> (saloha_category \<times> draws) option" where
  "simulate_all gq [] rs c = Some (c, rs)"
| "simulate_all gq (s # ss) rs c =
     (if simu_category s = sc_label c
      then do { (c', rs') \<leftarrow> simulate_traffic gq s rs c; simulate_all gq ss rs' c' }
      else simulate_all gq ss rs c)"

text \<open>What the memory holds where the code reads it unset: the QoS of new headers, the table of an
  identifier that could not be read, and the smallest distance of \<^verbatim>\<open>findOldest\<close>.\<close>

record garbage =
  any_qos :: qos
  any_ids :: "u16 list"
  any_distance :: u32

definition ncc_schedule_category ::
  "garbage \<Rightarrow> packet_sort \<Rightarrow> string \<Rightarrow> net_burst option \<Rightarrow> dvb_frame list \<Rightarrow> draws \<Rightarrow> saloha_ncc \<Rightarrow>
     (saloha_ncc \<times> net_burst option \<times> dvb_frame list \<times> draws) option" where
  "ncc_schedule_category g srt label burst frames rs st = do {
     c \<leftarrow> map_of (ncc_categories st) label;
     if sc_received c = 0 then Some (st, burst, frames, rs)
     else do {
       (c1, rs1) \<leftarrow> simulate_all (any_qos g) (ncc_simu st) rs c;
       algo \<leftarrow> ncc_algo st;
       c2 \<leftarrow> ncc_remove_collisions srt algo (reset_received c1);
       s \<leftarrow> accept_all (any_distance g) (any_ids g) (ncc_handler st) (ncc_spot st) (sc_label c2)
              (sc_accepted c2)
              \<lparr>ns_terminals = ncc_terminals st, ns_frames = frames,
               ns_frame = new_ctrl_frame (ncc_spot st), ns_burst = new_burst 0\<rparr>;
       Some (st\<lparr>ncc_terminals := ns_terminals s,
                ncc_categories := omap_put label (c2\<lparr>sc_accepted := []\<rparr>) (ncc_categories st)\<rparr>,
         Some (ns_burst s),
         (if saloha_data_length (ns_frame s) \<noteq> 0 then ns_frames s @ [ns_frame s] else ns_frames s),
         rs1) } }"

text \<open>Every category replaces the burst of the one before it.\<close>

fun ncc_schedule_loop ::
  "garbage \<Rightarrow> packet_sort \<Rightarrow> string list \<Rightarrow> net_burst option \<Rightarrow> dvb_frame list \<Rightarrow> draws \<Rightarrow> saloha_ncc \<Rightarrow>
     (saloha_ncc \<times> net_burst option \<times> dvb_frame list \<times> draws) option" where
  "ncc_schedule_loop g srt [] burst frames rs st = Some (st, burst, frames, rs)"
| "ncc_schedule_loop g srt (l # ls) burst frames rs st = do {
     (st', burst', frames', rs') \<leftarrow> ncc_schedule_category g srt l burst frames rs st;
     ncc_schedule_loop g srt ls burst' frames' rs' st' }"

definition saloha_ncc_schedule ::
  "garbage \<Rightarrow> packet_sort \<Rightarrow> net_burst option \<Rightarrow> dvb_frame list \<Rightarrow> time_sf \<Rightarrow> draws \<Rightarrow> saloha_ncc \<Rightarrow>
     (saloha_ncc \<times> net_burst option \<times> dvb_frame list \<times> draws) option" where
  "saloha_ncc_schedule g srt burst frames sf_counter rs st = do {
     tick \<leftarrow> is_saloha_frame_tick (ncc_sf_per_saframe st) sf_counter;
     if \<not> tick then Some (st, burst, frames, rs)
     else ncc_schedule_loop g srt (map fst (ncc_categories st)) burst frames rs st }"

section \<open>Every terminal has its category\<close>

definition ncc_wf :: "saloha_ncc \<Rightarrow> bool" where
  "ncc_wf st \<longleftrightarrow> (\<forall>tal t. map_of (ncc_terminals st) tal = Some t \<longrightarrow>
     map_of (ncc_categories st) (ts_category t) \<noteq> None)"

lemma add_terminal_wf:
  assumes "ncc_wf st"
  shows "ncc_wf (fst (saloha_add_terminal tal st))"
proof (cases "\<exists>label c. fst (saloha_add_terminal tal st) =
    st\<lparr>ncc_terminals := omap_put tal ((new_term_saloha tal)\<lparr>ts_category := label\<rparr>) (ncc_terminals st),
       ncc_categories := omap_put label (saloha_category_add tal c) (ncc_categories st)\<rparr>")
  case True
  then obtain label c where a: "fst (saloha_add_terminal tal st) =
    st\<lparr>ncc_terminals := omap_put tal ((new_term_saloha tal)\<lparr>ts_category := label\<rparr>) (ncc_terminals st),
       ncc_categories := omap_put label (saloha_category_add tal c) (ncc_categories st)\<rparr>" by blast
  show ?thesis
    unfolding a using assms
    by (auto simp: ncc_wf_def map_of_omap_put)
next
  case False
  then have "fst (saloha_add_terminal tal st) = st"
    by (auto simp: saloha_add_terminal_def split: option.splits) blast+
  with assms show ?thesis by simp
qed

lemma slot_packet_total: "ncc_wf st \<Longrightarrow> slot_packet src p st \<noteq> None"
proof (cases "map_of (ncc_terminals st) src")
  case (Some t)
  moreover assume "ncc_wf st"
  ultimately obtain c where "map_of (ncc_categories st) (ts_category t) = Some c"
    unfolding ncc_wf_def by blast
  with Some show ?thesis by (auto simp: slot_packet_def Let_def split: option.split)
qed (simp add: slot_packet_def)

lemma slot_packet_wf:
  assumes "ncc_wf st" "slot_packet src p st = Some st'"
  shows "ncc_wf st'"
proof -
  from assms consider "st' = st" | l c where "st' = st\<lparr>ncc_categories := omap_put l c (ncc_categories st)\<rparr>"
    by (auto simp: slot_packet_def Let_def split: option.splits)
  then show ?thesis
    using assms(1) by cases (auto simp: ncc_wf_def map_of_omap_put)
qed

lemma rcv_loop_wf: "ncc_rcv_loop t n k prev f st = Some st' \<Longrightarrow> ncc_wf st \<Longrightarrow> ncc_wf st'"
proof (induction k arbitrary: prev st)
  case (Suc k)
  from Suc.prems(1) obtain cur src p st1 where 1: "slot_packet src p st = Some st1"
    "ncc_rcv_loop t n k (prev + cur) f st1 = Some st'"
    by (auto simp: Let_def split: bind_splits if_splits)
  from Suc.IH [OF 1(2)] slot_packet_wf [OF Suc.prems(2) 1(1)] show ?case by blast
qed simp

lemma set_pdus_category [simp]: "ts_category (set_pdus q m t) = ts_category t"
  by (simp add: set_pdus_def)

lemma find_oldest_category: "ts_category (find_oldest md q t) = ts_category t"
proof -
  have "ts_category (oldest_loop q oldest d m t) = ts_category t" for oldest d m t
    by (induction q oldest d m t rule: oldest_loop.induct) auto
  then show ?thesis by (simp add: find_oldest_def Let_def)
qed

lemma ctx_add_category: "ctx_add_packet md g p t = Some (t', r) \<Longrightarrow> ts_category t' = ts_category t"
  by (auto simp: ctx_add_packet_def handle_oldest_def Let_def find_oldest_category
      split: if_splits bind_splits)

lemma put_ack_terminals: "put_ack spot i tal s = (s', ok) \<Longrightarrow> ns_terminals s' = ns_terminals s"
  by (auto simp: put_ack_def Let_def split: prod.splits)

lemma accept_packet_cases:
  assumes "accept_packet md g h spot label p s = Some s'"
  shows "ns_terminals s' = ns_terminals s \<or>
    (\<exists>t t' r. map_of (ns_terminals s) (sa_terminal p) = Some t \<and> ctx_add_packet md g p t = Some (t', r) \<and>
      ns_terminals s' = omap_put (sa_terminal p) t' (ns_terminals s))"
proof (cases "sa_terminal p > ucast BROADCAST_TAL_ID")
  case False
  show ?thesis
  proof (cases "map_of (ns_terminals s) (sa_terminal p)")
    case None
    with False assms show ?thesis by (simp add: accept_packet_def)
  next
    case (Some t)
    obtain s1 ok where s1: "put_ack spot (sa_unique_id p) (sa_terminal p) s = (s1, ok)"
      by (cases "put_ack spot (sa_unique_id p) (sa_terminal p) s")
    note t1 = put_ack_terminals [OF s1]
    show ?thesis
    proof (cases "ts_category t \<noteq> label \<or> \<not> ok")
      case True
      with False Some s1 t1 assms show ?thesis by (auto simp: accept_packet_def Let_def split: if_splits)
    next
      case ok: False
      with False Some s1 assms obtain t' pdu state where c: "ctx_add_packet md g p t = Some (t', pdu, state)"
        by (auto simp: accept_packet_def Let_def split: bind_splits)
      with False Some s1 t1 assms ok have
        "ns_terminals s' = omap_put (sa_terminal p) t' (ns_terminals s)"
        by (cases state) (auto simp: accept_packet_def Let_def split: bind_splits)
      with Some c show ?thesis by blast
    qed
  qed
qed (use assms in \<open>simp add: accept_packet_def\<close>)

lemma accept_packet_category:
  assumes "accept_packet md g h spot label p s = Some s'"
  shows "ts_category ` ran (map_of (ns_terminals s')) \<subseteq> ts_category ` ran (map_of (ns_terminals s))"
  using accept_packet_cases [OF assms]
proof (elim disjE exE conjE)
  fix t t' r
  assume t: "map_of (ns_terminals s) (sa_terminal p) = Some t" "ctx_add_packet md g p t = Some (t', r)"
    "ns_terminals s' = omap_put (sa_terminal p) t' (ns_terminals s)"
  have "ran (map_of (ns_terminals s')) \<subseteq> insert t' (ran (map_of (ns_terminals s)))"
    unfolding t(3) map_of_omap_put by (auto simp: ran_def)
  with ctx_add_category [OF t(2)] t(1) show ?thesis by (auto simp: ran_def)
qed simp

lemma accept_all_category:
  "accept_all md g h spot label ps s = Some s' \<Longrightarrow>
   ts_category ` ran (map_of (ns_terminals s')) \<subseteq> ts_category ` ran (map_of (ns_terminals s))"
proof (induction ps arbitrary: s)
  case (Cons p ps)
  from Cons.prems obtain s1 where s1: "accept_packet md g h spot label p s = Some s1"
    "accept_all md g h spot label ps s1 = Some s'" by (auto split: bind_splits)
  from accept_packet_category [OF s1(1)] Cons.IH [OF s1(2)] show ?case by (rule order.trans [rotated])
qed simp

lemma schedule_category_wf:
  assumes "ncc_schedule_category g srt label burst frames rs st = Some (st', r)" "ncc_wf st"
  shows "ncc_wf st'"
proof -
  from assms(1) obtain c where c: "map_of (ncc_categories st) label = Some c"
    by (auto simp: ncc_schedule_category_def split: bind_splits)
  show ?thesis
  proof (cases "sc_received c = 0")
    case True
    with assms c show ?thesis by (simp add: ncc_schedule_category_def)
  next
    case False
    with assms(1) c obtain s c2 where s:
      "accept_all (any_distance g) (any_ids g) (ncc_handler st) (ncc_spot st) (sc_label c2) (sc_accepted c2)
         \<lparr>ns_terminals = ncc_terminals st, ns_frames = frames, ns_frame = new_ctrl_frame (ncc_spot st),
          ns_burst = new_burst 0\<rparr> = Some s"
      "st' = st\<lparr>ncc_terminals := ns_terminals s,
          ncc_categories := omap_put label (c2\<lparr>sc_accepted := []\<rparr>) (ncc_categories st)\<rparr>"
      by (auto simp: ncc_schedule_category_def Let_def split: bind_splits)
    note sub = accept_all_category [OF s(1)]
    have "map_of (ncc_categories st) (ts_category t) \<noteq> None" if "map_of (ns_terminals s) tal = Some t" for tal t
    proof -
      from that have "ts_category t \<in> ts_category ` ran (map_of (ns_terminals s))" by (auto simp: ran_def)
      with sub obtain t0 where "t0 \<in> ran (map_of (ncc_terminals st))" "ts_category t = ts_category t0"
        by auto
      with assms(2) show ?thesis by (auto simp: ncc_wf_def ran_def)
    qed
    then show ?thesis by (auto simp: s(2) ncc_wf_def map_of_omap_put)
  qed
qed

lemma schedule_loop_wf:
  "ncc_schedule_loop g srt ls burst frames rs st = Some (st', r) \<Longrightarrow> ncc_wf st \<Longrightarrow> ncc_wf st'"
proof (induction ls arbitrary: burst frames rs st)
  case (Cons l ls)
  from Cons.prems(1) obtain st1 b1 f1 rs1 where 1:
    "ncc_schedule_category g srt l burst frames rs st = Some (st1, b1, f1, rs1)"
    "ncc_schedule_loop g srt ls b1 f1 rs1 st1 = Some (st', r)"
    by (auto split: bind_splits)
  from Cons.IH [OF 1(2)] schedule_category_wf [OF 1(1) Cons.prems(2)] show ?case by blast
qed simp

text \<open>What can happen to the controller.\<close>

inductive ncc_step :: "saloha_ncc \<Rightarrow> saloha_ncc \<Rightarrow> bool" where
  Logon: "ncc_step st (fst (saloha_add_terminal tal st))"
| Frame: "ncc_on_rcv_frame t n f st = Some st' \<Longrightarrow> ncc_step st st'"
| Superframe: "saloha_ncc_schedule g srt burst frames sf rs st = Some (st', r) \<Longrightarrow> ncc_step st st'"

inductive_cases ncc_stepE: "ncc_step st st'"

lemma ncc_step_wf: "ncc_step st st' \<Longrightarrow> ncc_wf st \<Longrightarrow> ncc_wf st'"
proof (induction rule: ncc_step.induct)
  case (Logon st tal)
  then show ?case by (rule add_terminal_wf)
next
  case (Frame t n f st st')
  then show ?case by (auto simp: ncc_on_rcv_frame_def Let_def split: if_splits dest: rcv_loop_wf)
next
  case (Superframe g srt burst frames sf rs st st' r)
  then show ?case
    by (auto simp: saloha_ncc_schedule_def split: bind_splits if_splits dest: schedule_loop_wf)
qed

text \<open>From a controller without terminals, whatever terminals log on and whatever is received and
  scheduled, the category of every terminal exists, so that putting a received packet in its slot
  never uses a null category.\<close>

theorem terminal_categories_exist:
  assumes "ncc_terminals st0 = []" "rtranclp ncc_step st0 st"
  shows "(\<forall>tal t. map_of (ncc_terminals st) tal = Some t \<longrightarrow>
      map_of (ncc_categories st) (ts_category t) \<noteq> None) \<and>
    slot_packet src p st \<noteq> None"
proof -
  have "ncc_wf st0" using assms(1) by (simp add: ncc_wf_def)
  from assms(2) this have "ncc_wf st"
    by (induction rule: rtranclp_induct) (auto dest: ncc_step_wf)
  then show ?thesis using slot_packet_total by (auto simp: ncc_wf_def)
qed

theorem terminal_categories_exist_witness:
  "\<exists>st0 st t. ncc_step st0 st \<and> map_of (ncc_terminals st) 3 = Some t \<and>
    map_of (ncc_categories st) (ts_category t) \<noteq> None"
proof -
  define st0 where "st0 = \<lparr>ncc_sf_per_saframe = 1, ncc_parent_init = True,
    ncc_handler = \<lparr>handler_src = (\<lambda>_. 0), handler_qos = (\<lambda>_. 0), handler_build = (\<lambda>_ _. None)\<rparr>,
    ncc_categories = [(''Standard'', new_saloha_category ''Standard'' ALOHA)], ncc_affectation = [],
    ncc_default = Some ''Standard'', ncc_spot = 1, ncc_terminals = [], ncc_algo = Some DSA, ncc_simu = []\<rparr>"
  let ?st = "fst (saloha_add_terminal 3 st0)"
  have s: "ncc_step st0 ?st" by (rule ncc_step.Logon)
  have t: "map_of (ncc_terminals ?st) 3 = Some ((new_term_saloha 3)\<lparr>ts_category := ''Standard''\<rparr>)"
    by (simp add: saloha_add_terminal_def st0_def BROADCAST_TAL_ID_def)
  have "ncc_terminals st0 = []" by (simp add: st0_def)
  from terminal_categories_exist [OF this r_into_rtranclp [of ncc_step, OF s]] s t show ?thesis by blast
qed

section \<open>Acknowledgements reach the terminal\<close>

lemma new_saloha_frame_wf:
  "burst_wf 5 (new_saloha_frame t)" "drop 5 (cont_data (new_saloha_frame t)) = []"
  "num_packets (new_saloha_frame t) = 0" "trailer_length (new_saloha_frame t) = 0"
  "burst_room (new_saloha_frame t) = 1199"
  by (simp_all add: burst_wf_def burst_room_def new_saloha_frame_def frame_defs get_message_length_def
      field_simps_rw read16_write_at_other bswap16_def)

lemma new_ctrl_frame_wf:
  "burst_wf 5 (new_ctrl_frame spot)" "drop 5 (cont_data (new_ctrl_frame spot)) = []"
  "num_packets (new_ctrl_frame spot) = 0"
  using new_saloha_frame_wf [of MSG_SalohaCtrl]
  by (simp_all add: new_ctrl_frame_def burst_wf_def get_message_length_def)

abbreviation ack_bytes :: "saloha_id \<times> tal_id \<Rightarrow> bytes" where
  "ack_bytes a \<equiv> cont_data (new_saloha_ctrl (fst a) SALOHA_CTRL_ACK (snd a))"

text \<open>What the acknowledgements of a frame mean for the terminal: those addressed to it are handled
  in their order, the others are ignored.\<close>

fun rcv_acks ::
  "u16 list \<Rightarrow> (saloha_id \<times> tal_id) list \<Rightarrow> draws \<Rightarrow> saloha_tal \<Rightarrow> (saloha_tal \<times> draws) option" where
  "rcv_acks g [] rs st = Some (st, rs)"
| "rcv_acks g ((i, tal) # as) rs st =
     (if tal \<noteq> own_tal_id st then rcv_acks g as rs st
      else do { (st', rs') \<leftarrow> rcv_ack g i rs st; rcv_acks g as rs' st' })"

lemma rcv_ack_own: "rcv_ack g i rs st = Some (st', rs') \<Longrightarrow> own_tal_id st' = own_tal_id st"
  by (auto simp: rcv_ack_def Let_def split: option.splits bind_splits dest!: backoff_ready_frame)

lemma rcv_loop_acks:
  assumes "header_length f = 5" "trailer_length f = 0" "length (cont_data f) < 2 ^ 16"
    "5 \<le> length (cont_data f)"
    "drop (5 + prev) (cont_data f) = concat (map ack_bytes as)" "5 + prev \<le> length (cont_data f)"
  shows "tal_rcv_loop g (length as) prev f rs st = rcv_acks g as rs st"
  using assms(5,6)
proof (induction as arbitrary: prev rs st)
  case (Cons a as)
  obtain i tal where a: "a = (i, tal)" by (cases a)
  let ?rest = "concat (map ack_bytes as)" and ?b = "cont_data (new_saloha_ctrl i SALOHA_CTRL_ACK tal)"
  have d: "drop (5 + prev) (cont_data f) = ?b @ ?rest" using Cons.prems(1) by (simp add: a)
  have lb: "length ?b = 5 + length i" by (simp add: new_saloha_ctrl_def)
  have tot: "length (cont_data f) - (5 + prev) = 5 + length i + length ?rest"
    using arg_cong [OF d, of length] lb by simp
  then have li: "length i < 65531" using assms(3) by simp
  have "get_payload_length f = length (cont_data f) - 5"
    using assms(1-4) by (simp add: get_payload_length_def get_total_length_def flip: of_nat_diff)
  moreover have whole: "take (length (cont_data f) - 5) (drop (5 + prev) (cont_data f)) = drop (5 + prev) (cont_data f)"
    by simp
  ultimately have pl: "get_payload_from f prev = Some (?b @ ?rest)"
    using assms(1) Cons.prems(2) whole by (simp only: get_payload_from_def substr_def d) simp
  note c = ctrl_received [OF li, of SALOHA_CTRL_ACK tal "?rest @ [0]"]
  let ?p = "received_saloha_ctrl (?b @ ?rest @ [0]) (5 + length i)"
  have cd: "cont_data ?p = ?b"
    using lb by (simp add: received_saloha_ctrl_def new_packet_def new_container_def net_container.defs)
  have t: "ctrl_terminal_id (?p\<lparr>cont_data := ?b @ [0]\<rparr>) = tal"
    using c(3) lb by (simp add: ctrl_terminal_id_def cd read16_append)
  have "drop (5 + length i) (drop (5 + prev) (cont_data f)) = ?rest" unfolding d using lb by simp
  then have next1: "drop (5 + (prev + (5 + length i))) (cont_data f) = ?rest"
    unfolding drop_drop by (simp only: ac_simps)
  have next2: "5 + (prev + (5 + length i)) \<le> length (cont_data f)"
    using tot Cons.prems(2) by linarith
  note IH = Cons.IH [OF next1 next2]
  show ?case
  proof (cases "own_tal_id st = tal")
    case True
    then show ?thesis by (simp add: pl c t cd a lb IH Let_def)
  next
    case False
    then show ?thesis by (auto simp: pl c t cd a lb IH Let_def)
  qed
qed simp

text \<open>C36: A terminal handles a control frame of the controller as the list of acknowledgements that
  were put in it: all those addressed to it, in their order, and no other.\<close>

theorem control_frame_received:
  assumes "add_all saloha_add_packet (new_ctrl_frame spot) (map ack_bytes as) = (f, map ack_bytes as)"
    "received_saloha_frame (cont_data f) = Some f'"
  shows "tal_on_rcv_frame g f' rs st = rcv_acks g as rs st"
proof -
  from saloha_burst.add_all_collects [OF new_ctrl_frame_wf(1) assms(1)] new_ctrl_frame_wf have f:
    "burst_wf 5 f" "drop 5 (cont_data f) = concat (map ack_bytes as)" "num_packets f = of_nat (length as)"
    by simp_all
  have len: "5 \<le> length (cont_data f)" "length (cont_data f) < 2 ^ 16" using f(1) by (auto simp: burst_wf_def)
  have "5 * length as \<le> length (concat (map ack_bytes as))"
    by (induction "as") (simp_all add: new_saloha_ctrl_def)
  also have "\<dots> = length (cont_data f) - 5" by (simp flip: f(2))
  finally have "length as < 2 ^ 16" using len(2) by simp
  then have n: "unat (of_nat (length as) :: u16) = length as" by (intro unat_of_nat_len) simp
  from assms(2) len have f': "cont_data f' = cont_data f"
    "trailer_length f' = nat ((int (length (cont_data f)) - int (unat (get_message_length f))) mod 2 ^ 64)"
    by (auto simp: received_saloha_frame_def received_frame_def net_container.defs new_container_def
        get_message_length_def set_max_frame_size_def split: bind_splits)
  with burst_total [OF f(1)] have tr: "trailer_length f' = 0" by simp
  have dl: "saloha_data_length (f'\<lparr>header_length := 5\<rparr>) = of_nat (length as)"
    using f(1,3) by (simp add: saloha_data_length_def f'(1) burst_wf_def)
  have "tal_rcv_loop g (length as) 0 (f'\<lparr>header_length := 5\<rparr>) rs st = rcv_acks g as rs st"
    using f(2) len tr by (intro rcv_loop_acks) (simp_all add: f'(1))
  moreover have "as = []" if "(of_nat (length as) :: u16) \<le> 0"
    using n that by auto
  ultimately show ?thesis by (auto simp: tal_on_rcv_frame_def Let_def dl n)
qed

theorem control_frame_received_witness:
  "\<exists>f f'. add_all saloha_add_packet (new_ctrl_frame 1) (map ack_bytes [([53], 3)]) = (f, map ack_bytes [([53], 3)]) \<and>
    received_saloha_frame (cont_data f) = Some f' \<and>
    tal_on_rcv_frame [0, 0, 0, 0] f' [] new_saloha_tal = rcv_acks [0, 0, 0, 0] [([53], 3)] [] new_saloha_tal"
proof -
  let ?b = "ack_bytes ([53], 3)"
  obtain f ok where f: "saloha_add_packet (new_ctrl_frame 1) ?b = (f, ok)"
    by (cases "saloha_add_packet (new_ctrl_frame 1) ?b")
  have "burst_room (new_ctrl_frame 1) = 1199"
    using new_saloha_frame_wf(5) by (simp add: new_ctrl_frame_def burst_room_def)
  then have "length ?b \<le> burst_room (new_ctrl_frame 1)" by (simp add: new_saloha_ctrl_def)
  from saloha_burst.add_fits [OF new_ctrl_frame_wf(1) this] f have ok: "ok" "burst_wf 5 f" by simp_all
  then have a: "add_all saloha_add_packet (new_ctrl_frame 1) (map ack_bytes [([53], 3)]) =
      (f, map ack_bytes [([53], 3)])" using f by simp
  have "5 \<le> length (cont_data f)" using ok(2) by (auto simp: burst_wf_def)
  then obtain f' where f': "received_saloha_frame (cont_data f) = Some f'"
    by (auto simp: received_saloha_frame_def received_frame_def Let_def)
  from control_frame_received [OF a f'] a f' show ?thesis by blast
qed

text \<open>The acknowledgement of a packet releases the packet, the first with its identifier, from the
  queue of its QoS and resets the backoff, provided its PDU number can be read back from the text;
  otherwise the acknowledgement is looked up in the queue of a QoS read from unset memory, and every
  packet of the other queues waits on.\<close>

theorem ack_releases_packet:
  assumes "length g = 4" "map_of (packets_wait_ack st) (sa_get_qos p) = Some ps"
    "remove_by_id (sa_unique_id p) ps = Some rest" "backoff_ready rs st = Some (st1, rs1)"
  shows "(\<bar>sint (sa_get_id p)\<bar> \<le> 65535 \<longrightarrow>
      (\<exists>st'. rcv_ack g (sa_unique_id p) rs st = Some (st', rs1) \<and>
         map_of (packets_wait_ack st') = (map_of (packets_wait_ack st))(sa_get_qos p \<mapsto> rest) \<and>
         tal_backoff st' = tal_backoff st1 \<and> nb_success st' = nb_success st + 1)) \<and>
    (65535 < \<bar>sint (sa_get_id p)\<bar> \<longrightarrow> ucast (g ! 3) \<noteq> sa_get_qos p \<longrightarrow>
      (\<forall>st' rs'. rcv_ack g (sa_unique_id p) rs st = Some (st', rs') \<longrightarrow>
         map_of (packets_wait_ack st') (sa_get_qos p) = Some ps))"
proof (intro conjI impI allI)
  let ?i = "sa_unique_id p" and ?q = "sa_get_qos p"
  obtain g0 g1 g2 g3 where g: "g = [g0, g1, g2, g3]"
    using assms(1) by (auto simp: length_Suc_conv numeral_eq_Suc)
  from assms(4) obtain a b r b' where b: "tal_backoff st = Some (a, b)" "use_draw rs = Some (r, rs1)"
    "set_ready a r b = Some b'" "st1 = st\<lparr>tal_backoff := Some (a, b')\<rparr>"
    by (auto simp: backoff_ready_def split: bind_splits)
  {
    assume "\<bar>sint (sa_get_id p)\<bar> \<le> 65535"
    moreover have "ucast (ucast ?q :: u16) = ?q"
      by (rule bit_word_eqI) (auto simp: bit_simps)
    ultimately have "ucast (convert_packet_id g ?i ! 3) = ?q"
      using packet_id_text [OF assms(1), of p] by simp
    then show "\<exists>st'. rcv_ack g ?i rs st = Some (st', rs1) \<and>
         map_of (packets_wait_ack st') = (map_of (packets_wait_ack st))(?q \<mapsto> rest) \<and>
         tal_backoff st' = tal_backoff st1 \<and> nb_success st' = nb_success st + 1"
      using assms(2,3) b by (simp add: rcv_ack_def omap_get_def backoff_ready_def map_of_omap_put Let_def)
  }
  fix st' rs'
  assume big: "65535 < \<bar>sint (sa_get_id p)\<bar>" "ucast (g ! 3) \<noteq> ?q"
    and r: "rcv_ack g ?i rs st = Some (st', rs')"
  from big have q: "convert_packet_id g ?i ! 3 = g ! 3"
    using packet_id_text [OF assms(1), of p] by (simp add: g)
  with r big(2) assms(2) show "map_of (packets_wait_ack st') ?q = Some ps"
    by (auto simp: rcv_ack_def Let_def map_of_omap_put split: option.splits bind_splits
        dest!: backoff_ready_frame)
qed

theorem ack_releases_packet_witness:
  "\<exists>p st st'. sa_get_id p = 5 \<and> packets_wait_ack st = [(4, [p])] \<and>
    rcv_ack [0, 0, 0, 0] (sa_unique_id p) [0] st = Some (st', []) \<and>
    map_of (packets_wait_ack st') = [4 \<mapsto> []]"
proof -
  obtain p where p: "sa_get_id p = 5" "sa_get_qos p = 4"
    using layout_new [of 3 "[]" 4 5 0 0 1 10] layout_getters(1,5) by fastforce
  define st where "st = new_saloha_tal\<lparr>packets_wait_ack := [(4, [p])],
    tal_backoff := Some (BEB, new_backoff 8 2)\<rparr>"
  have w: "packets_wait_ack st = [(4, [p])]" by (simp add: st_def)
  have "\<exists>st1. backoff_ready [0] st = Some (st1, [])"
    by (simp add: backoff_ready_def st_def use_draw_def beb_set_ready_def)
  then obtain st1 where st1: "backoff_ready [0] st = Some (st1, [])" ..
  from ack_releases_packet [of "[0, 0, 0, 0]" st p "[p]" "[]" "[0]" st1 "[]"] p w st1
  obtain st' where "rcv_ack [0, 0, 0, 0] (sa_unique_id p) [0] st = Some (st', [])"
    "map_of (packets_wait_ack st') = [4 \<mapsto> []]" by auto
  with p w show ?thesis by blast
qed

end
