(* ===== verification/Forward_Schedule.thy ===== *)
theory Forward_Schedule
  imports Encap Dvb_Frame Carriers
begin

text \<open>
  The scheduling of the forward link (\<^verbatim>\<open>opensand-core/src/dvb/dama/ForwardSchedulingS2.cpp\<close>): the
  packets for the terminals are put in BB frames, one under construction per MODCOD, and the frames
  are sent within the capacity of the carriers, in symbols.  A frame may be referred to by the map of
  the incomplete frames and by their list at the same time, so frames are kept in a heap (\<open>fs_heap\<close>)
  and the containers hold references to it.  \<open>fs_complete\<close> are the frames this call adds to the
  caller's list.  Probes and logs are left out.
\<close>

section \<open>The size of the frames\<close>

text \<open>The payload for a coding rate, in bytes (EN 302 307, table 5a).\<close>

definition payload_sizes :: "(string \<times> nat) list" where
  "payload_sizes =
     [(''1/4'', 2001), (''1/3'', 2676), (''2/5'', 3216), (''1/2'', 4026), (''3/5'', 4836),
      (''2/3'', 5380), (''3/4'', 6051), (''4/5'', 6456), (''5/6'', 6730), (''8/9'', 7184),
      (''9/10'', 7274)]"

definition get_payload_size :: "string \<Rightarrow> nat" where
  "get_payload_size rate = (case map_of payload_sizes rate of None \<Rightarrow> 8100 | Some n \<Rightarrow> n)"

definition bbframe_size_bytes :: "fmt_table \<Rightarrow> u32 \<Rightarrow> nat" where
  "bbframe_size_bytes t modcod =
     (case get_definition t (ucast modcod) of
        None \<Rightarrow> get_payload_size ''''
      | Some d \<Rightarrow> get_payload_size (coding_type d))"

text \<open>The symbols a frame takes; an unknown MODCOD is an error (the second component is then unused).
  The conversion of a quotient that is not a 32-bit number is undefined.\<close>

definition bbframe_size_sym :: "fmt_table \<Rightarrow> nat \<Rightarrow> u32 \<Rightarrow> (bool \<times> vol_sym) option" where
  "bbframe_size_sym t n modcod =
     (if \<not> do_fmt_id_exist t (ucast modcod) then Some (False, 0)
      else
        (let eff = fl32 (table_spectral_efficiency t (ucast modcod));
             q = fl32 (fl32 (of_nat (n * 8)) / eff)
         in if eff \<le> 0 \<or> 2 ^ 32 \<le> q then None else Some (True, trunc q)))"

section \<open>State\<close>

record 'h fwd_sched =
  fs_fifos :: pkt_fifos
  fs_heap :: "dvb_frame list"
  fs_incomplete :: "(u32, nat) omap"
  fs_ordered :: "nat list"
  fs_pending :: "nat list"
  fs_complete :: "nat list"
  fs_handler :: 'h

datatype sched_status = Status_ok | Status_error | Status_full

definition fs_frame :: "'h fwd_sched \<Rightarrow> nat \<Rightarrow> dvb_frame" where
  "fs_frame s p = fs_heap s ! p"

definition frame_modcod :: "'h fwd_sched \<Rightarrow> nat \<Rightarrow> u32" where
  "frame_modcod s p = ucast (get_modcod_id (fs_frame s p))"

section \<open>Frames under construction\<close>

definition create_bbframe :: "fmt_table \<Rightarrow> u32 \<Rightarrow> 'h fwd_sched \<Rightarrow> 'h fwd_sched \<times> nat" where
  "create_bbframe t modcod s =
     (let f = set_max_frame_size (bbframe_size_bytes t modcod) (set_modcod_id (ucast modcod) new_bb_frame)
      in (s\<lparr>fs_heap := fs_heap s @ [f]\<rparr>, length (fs_heap s)))"

text \<open>\<open>None\<close>: the packet cannot be served, its terminal or a MODCOD for it is unknown.\<close>

definition get_incomplete_bbframe ::
  "st_list \<Rightarrow> fmt_table \<Rightarrow> tal_id \<Rightarrow> 'a carriers_group_scheme \<Rightarrow> 'h fwd_sched \<Rightarrow> 'h fwd_sched \<times> nat option" where
  "get_incomplete_bbframe sl t tal carriers s =
     (if \<not> is_st_present sl tal then (s, None)
      else
        (let desired = ucast (list_modcod_id sl tal) :: u32
         in if desired = 0 then (s, None)
            else
              (let modcod = nearest_fmt_id carriers desired
               in if modcod = 0 then (s, None)
                  else
                    (case map_of (fs_incomplete s) modcod of
                       Some p \<Rightarrow> (s, Some p)
                     | None \<Rightarrow>
                         (let (s1, p) = create_bbframe t modcod s
                          in (s1\<lparr>fs_incomplete := omap_put modcod p (fs_incomplete s1),
                                 fs_ordered := fs_ordered s1 @ [p]\<rparr>, Some p))))))"

definition add_complete_bbframe ::
  "fmt_table \<Rightarrow> nat \<Rightarrow> vol_sym \<Rightarrow> 'h fwd_sched \<Rightarrow> ('h fwd_sched \<times> vol_sym \<times> sched_status) option" where
  "add_complete_bbframe t p capacity s = do {
     (ok, sym) \<leftarrow> bbframe_size_sym t (max_size (fs_frame s p)) (frame_modcod s p);
     (if \<not> ok then Some (s, capacity, Status_error)
      else if capacity < sym then Some (s, capacity, Status_full)
      else Some (s\<lparr>fs_complete := fs_complete s @ [p]\<rparr>, capacity - sym, Status_ok)) }"

section \<open>Pending frames\<close>

text \<open>A pending frame whose MODCOD the carriers do not support, or that does not fit, stays; one with an
  unknown MODCOD is dropped.\<close>

fun pending_loop ::
  "fmt_table \<Rightarrow> fmt_id list \<Rightarrow> nat list \<Rightarrow> nat list \<Rightarrow> vol_sym \<Rightarrow> 'h fwd_sched \<Rightarrow>
   ('h fwd_sched \<times> vol_sym \<times> nat list) option" where
  "pending_loop t supported [] new_pending capacity s = Some (s, capacity, new_pending)"
| "pending_loop t supported (p # ps) new_pending capacity s =
     (if frame_modcod s p \<in> ucast ` set supported
      then do {
        (s1, capacity1, status) \<leftarrow> add_complete_bbframe t p capacity s;
        pending_loop t supported ps (if status = Status_full then new_pending @ [p] else new_pending)
          capacity1 s1 }
      else pending_loop t supported ps (new_pending @ [p]) capacity s)"

definition schedule_pending ::
  "fmt_table \<Rightarrow> fmt_id list \<Rightarrow> vol_sym \<Rightarrow> 'h fwd_sched \<Rightarrow> ('h fwd_sched \<times> vol_sym) option" where
  "schedule_pending t supported capacity s =
     (if fs_pending s = [] then Some (s, capacity)
      else do {
        (s1, capacity1, new_pending) \<leftarrow> pending_loop t supported (fs_pending s) [] capacity s;
        Some (s1\<lparr>fs_pending := new_pending\<rparr>, capacity1) })"

section \<open>The packets of a FIFO\<close>

definition group_fmt_ids :: "'a carriers_group_scheme \<Rightarrow> fmt_id list" where
  "group_fmt_ids c = map fst (group_members (fmt_group c))"

definition BROADCAST_DST :: tal_id where "BROADCAST_DST = 31"

definition fs_fifo :: "nat \<Rightarrow> 'h fwd_sched \<Rightarrow> pkt_fifo" where
  "fs_fifo i s = snd (fs_fifos s ! i)"

definition set_fs_fifo :: "nat \<Rightarrow> pkt_fifo \<Rightarrow> 'h fwd_sched \<Rightarrow> 'h fwd_sched" where
  "set_fs_fifo i f s = s\<lparr>fs_fifos := (fs_fifos s)[i := (fst (fs_fifos s ! i), f)]\<rparr>"

text \<open>What becomes of a packet: the loop goes on, ends (the carrier is full), or fails.\<close>

datatype packet_result = Packet_done | Carrier_full | Packet_error

text \<open>The frame is complete: it is sent, kept for the next superframe when the carrier is full, or its
  MODCOD is unknown.\<close>

definition close_bbframe ::
  "fmt_table \<Rightarrow> time_sf \<Rightarrow> nat \<Rightarrow> 'h fwd_sched \<Rightarrow> 'a dama_group_scheme \<Rightarrow> vol_sym \<Rightarrow>
   ('h fwd_sched \<times> 'a dama_group_scheme \<times> vol_sym \<times> packet_result) option" where
  "close_bbframe t sf p s carriers capacity = do {
     (s1, capacity1, status) \<leftarrow> add_complete_bbframe t p capacity s;
     (if status = Status_error then Some (s1, carriers, capacity1, Packet_error)
      else
        (let s2 = s1\<lparr>fs_ordered := filter (\<lambda>q. q \<noteq> p) (fs_ordered s1),
                     fs_incomplete := omap_del (frame_modcod s1 p) (fs_incomplete s1)\<rparr>
         in if status = Status_full
            then Some (s2\<lparr>fs_pending := fs_pending s2 @ [p]\<rparr>,
                       carriers\<lparr>previous_capacity := capacity1, previous_sf := sf + 1\<rparr>, capacity1,
                       Carrier_full)
            else Some (s2, carriers, capacity1, Packet_done))) }"

text \<open>A packet taken from FIFO \<open>i\<close> for the frame \<open>p\<close>.  When the encapsulation fails the element of the
  FIFO is deleted and used again, which is undefined.\<close>

definition put_packet ::
  "'h encapsulate \<Rightarrow> fmt_table \<Rightarrow> time_sf \<Rightarrow> nat \<Rightarrow> pkt_elem \<Rightarrow> nat \<Rightarrow> 'h fwd_sched \<Rightarrow> 'a dama_group_scheme \<Rightarrow> vol_sym \<Rightarrow>
   ('h fwd_sched \<times> 'a dama_group_scheme \<times> vol_sym \<times> packet_result) option" where
  "put_packet enc t sf i elem p s carriers capacity =
     (let frame = fs_frame s p;
          (h, ret, data, remaining) = enc (fs_handler s) (fe_elem elem) (get_free_space frame)
            (num_packets frame = 0);
          s1 = s\<lparr>fs_handler := h\<rparr>
      in if \<not> ret then None
         else
           (let (frame', ok) = (case data of None \<Rightarrow> (frame, True) | Some d \<Rightarrow> bb_add_packet frame (cont_data d));
                s2 = s1\<lparr>fs_heap := (fs_heap s1)[p := frame']\<rparr>
            in if \<not> ok then Some (s2, carriers, capacity, Packet_error)
               else
                 (let s3 = (case remaining of
                        None \<Rightarrow> s2
                      | Some r \<Rightarrow> set_fs_fifo i (fst (push_front (fs_fifo i s2) (set_elem elem r))) s2)
                  in if get_free_space frame' \<le> 0 \<or> remaining \<noteq> None
                     then close_bbframe t sf p s3 carriers capacity
                     else Some (s3, carriers, capacity, Packet_done))))"

text \<open>The destination of a packet; a packet to all goes with the most robust MODCOD in use, and there
  may be no terminal at all.\<close>

definition packet_destination :: "st_list \<Rightarrow> net_packet \<Rightarrow> tal_id option" where
  "packet_destination sl pkt =
     (let tal = ucast (dst_tal_id pkt) :: tal_id
      in if tal = BROADCAST_DST
         then (let low = tal_with_lower_modcod sl in if low = - 1 then None else Some low)
         else Some tal)"

definition take_packet ::
  "'h encapsulate \<Rightarrow> st_list \<Rightarrow> fmt_table \<Rightarrow> time_sf \<Rightarrow> nat \<Rightarrow> 'h fwd_sched \<Rightarrow> dama_group \<Rightarrow> vol_sym \<Rightarrow>
   ('h fwd_sched \<times> dama_group \<times> vol_sym \<times> packet_result) option" where
  "take_packet enc sl t sf i s carriers capacity = do {
     let (f, e) = pop (fs_fifo i s);
     elem \<leftarrow> e;
     let s1 = set_fs_fifo i f s;
     (case packet_destination sl (fe_elem elem) of
        None \<Rightarrow> Some (s1, carriers, capacity, Packet_error)
      | Some tal \<Rightarrow>
          (case get_incomplete_bbframe sl t tal carriers s1 of
             (s2, None) \<Rightarrow> Some (s2, carriers, capacity, Packet_done)
           | (s2, Some p) \<Rightarrow> put_packet enc t sf i elem p s2 carriers capacity)) }"

partial_function (option) packets_loop ::
  "'h encapsulate \<Rightarrow> st_list \<Rightarrow> fmt_table \<Rightarrow> time_sf \<Rightarrow> int \<Rightarrow> nat \<Rightarrow> 'h fwd_sched \<Rightarrow> dama_group \<Rightarrow> vol_sym \<Rightarrow>
   ('h fwd_sched \<times> dama_group \<times> vol_sym \<times> bool) option" where
  "packets_loop enc sl t sf time i s carriers capacity =
     (if get_current_size (fs_fifo i s) \<le> 0 \<or> get_tick_out (fs_fifo i s) > time
      then Some (s, carriers, capacity, True)
      else
        (case take_packet enc sl t sf i s carriers capacity of
           None \<Rightarrow> None
         | Some (s1, carriers1, capacity1, r) \<Rightarrow>
             (if r = Packet_error then Some (s1, carriers1, capacity1, False)
              else if r = Carrier_full then Some (s1, carriers1, capacity1, True)
              else packets_loop enc sl t sf time i s1 carriers1 capacity1)))"

definition schedule_encap_packets ::
  "'h encapsulate \<Rightarrow> st_list \<Rightarrow> fmt_table \<Rightarrow> time_sf \<Rightarrow> int \<Rightarrow> nat \<Rightarrow> vol_sym \<Rightarrow> 'h fwd_sched \<Rightarrow> dama_group \<Rightarrow>
   vol_sym \<Rightarrow> ('h fwd_sched \<times> dama_group \<times> vol_sym \<times> bool) option" where
  "schedule_encap_packets enc sl t sf time i init_capa s carriers capacity =
     (let max_to_send = get_current_size (fs_fifo i s)
      in if max_to_send \<le> 0 \<and> fs_pending s = [] then Some (s, carriers, capacity, True)
         else do {
           (s1, capacity1) \<leftarrow> schedule_pending t (group_fmt_ids carriers) capacity s;
           let capacity2 = (if fs_incomplete s1 = [] then min init_capa capacity1 else capacity1);
           (if max_to_send \<le> 0 then Some (s1, carriers, capacity2, True)
            else packets_loop enc sl t sf time i s1 carriers capacity2) })"

section \<open>Construction\<close>

definition new_fwd_sched :: "pkt_fifos \<Rightarrow> 'h \<Rightarrow> 'h fwd_sched" where
  "new_fwd_sched fifos h = \<lparr>fs_fifos = fifos, fs_heap = [], fs_incomplete = [], fs_ordered = [],
     fs_pending = [], fs_complete = [], fs_handler = h\<rparr>"

text \<open>The MODCODs of a group reported as not usable at construction, those whose frame is longer than a
  carrier; without a carrier the length is divided by zero.\<close>

definition check_bbframe_size :: "fmt_table \<Rightarrow> dama_group \<Rightarrow> fmt_id list option" where
  "check_bbframe_size t c = do {
     carrier_size \<leftarrow> udiv (total_capacity c) (carriers_number c);
     foldl (\<lambda>acc i. do {
         bad \<leftarrow> acc;
         (ok, sym) \<leftarrow> bbframe_size_sym t (bbframe_size_bytes t (ucast i)) (ucast i);
         Some (if ok \<and> carrier_size < sym then bad @ [i] else bad) })
       (Some []) (group_fmt_ids c) }"

definition check_category :: "fmt_table \<Rightarrow> dama_category \<Rightarrow> bool" where
  \<comment> \<open>the constructor returns\<close>
  "check_category t cat \<longleftrightarrow>
     (\<forall>c \<in> set (concat (map vcm_carriers (carriers_groups cat))). check_bbframe_size t c \<noteq> None)"

section \<open>A superframe\<close>

text \<open>Whether a FIFO may send on a carrier: the only one of its group serves the ACM FIFOs, one of several
  the VCM FIFOs of its number.\<close>

definition fifo_allowed :: "nat \<Rightarrow> u32 \<Rightarrow> pkt_fifo \<Rightarrow> bool" where
  "fifo_allowed vcm_number vid f \<longleftrightarrow>
     (if vcm_number \<le> 1 then \<not> access_neq (fifo_access f) (Forward_access acm)
      else \<not> access_neq (fifo_access f) (Forward_access vcm) \<and> vcm_id f = vid)"

fun fifos_loop ::
  "'h encapsulate \<Rightarrow> st_list \<Rightarrow> fmt_table \<Rightarrow> time_sf \<Rightarrow> int \<Rightarrow> nat \<Rightarrow> u32 \<Rightarrow> vol_sym \<Rightarrow> nat list \<Rightarrow> 'h fwd_sched \<Rightarrow>
   dama_group \<Rightarrow> vol_sym \<Rightarrow> ('h fwd_sched \<times> dama_group \<times> vol_sym \<times> bool) option" where
  "fifos_loop enc sl t sf time n vid init [] s carriers capacity = Some (s, carriers, capacity, True)"
| "fifos_loop enc sl t sf time n vid init (i # is) s carriers capacity =
     (if \<not> fifo_allowed n vid (fs_fifo i s)
      then fifos_loop enc sl t sf time n vid init is s carriers capacity
      else
        (case schedule_encap_packets enc sl t sf time i init s carriers capacity of
           None \<Rightarrow> None
         | Some (s1, carriers1, capacity1, ok) \<Rightarrow>
             (if \<not> ok then Some (s1, carriers1, capacity1, False)
              else if get_current_size (fs_fifo i s1) > 0 then Some (s1, carriers1, capacity1, True)
              else fifos_loop enc sl t sf time n vid init is s1 carriers1 capacity1)))"

text \<open>Incomplete frames fill what is left of the carrier, whatever their MODCOD; the result holds the
  frames that stay.\<close>

fun fill_loop ::
  "fmt_table \<Rightarrow> time_sf \<Rightarrow> vol_sym \<Rightarrow> nat list \<Rightarrow> 'h fwd_sched \<Rightarrow> 'a dama_group_scheme \<Rightarrow> vol_sym \<Rightarrow>
   ('h fwd_sched \<times> 'a dama_group_scheme \<times> vol_sym \<times> bool) option" where
  "fill_loop t sf init [] s carriers capacity = Some (s\<lparr>fs_ordered := []\<rparr>, carriers, capacity, True)"
| "fill_loop t sf init (p # ps) s carriers capacity =
     (if capacity \<le> 0 then Some (s\<lparr>fs_ordered := p # ps\<rparr>, carriers, capacity, True)
      else
        (case add_complete_bbframe t p capacity s of
           None \<Rightarrow> None
         | Some (s1, capacity1, Status_error) \<Rightarrow> Some (s1\<lparr>fs_ordered := p # ps\<rparr>, carriers, capacity1, False)
         | Some (s1, capacity1, Status_full) \<Rightarrow>
             Some (s1\<lparr>fs_ordered := p # ps\<rparr>,
                   carriers\<lparr>previous_capacity := min capacity1 init, previous_sf := sf + 1\<rparr>,
                   capacity1, True)
         | Some (s1, capacity1, Status_ok) \<Rightarrow>
             fill_loop t sf init ps
               (s1\<lparr>fs_incomplete := omap_del (frame_modcod s1 p) (fs_incomplete s1)\<rparr>) carriers capacity1))"

definition schedule_vcm ::
  "'h encapsulate \<Rightarrow> st_list \<Rightarrow> fmt_table \<Rightarrow> time_sf \<Rightarrow> int \<Rightarrow> nat \<Rightarrow> u32 \<Rightarrow> 'h fwd_sched \<Rightarrow> dama_group \<Rightarrow>
   ('h fwd_sched \<times> dama_group \<times> bool) option" where
  "schedule_vcm enc sl t sf time n vid s carriers = do {
     let init = total_capacity carriers + remaining_capacity carriers;
     let capacity = init + get_previous_capacity sf carriers;
     (s1, c1, capacity1, ok) \<leftarrow> fifos_loop enc sl t sf time n vid init [0..<length (fs_fifos s)] s
        (carriers\<lparr>remaining_capacity := init\<rparr>) capacity;
     (if \<not> ok then Some (s1, c1, False)
      else do {
        (s2, c2, capacity2, ok2) \<leftarrow> fill_loop t sf init (fs_ordered s1) s1
          (c1\<lparr>previous_capacity := capacity1, previous_sf := sf + 1\<rparr>) capacity1;
        (if \<not> ok2 then Some (s2, c2, False)
         else Some (s2, c2\<lparr>remaining_capacity := min capacity2 init\<rparr>, True)) }) }"

fun schedule_vcms ::
  "'h encapsulate \<Rightarrow> st_list \<Rightarrow> fmt_table \<Rightarrow> time_sf \<Rightarrow> int \<Rightarrow> nat \<Rightarrow> u32 \<Rightarrow> 'h fwd_sched \<Rightarrow> dama_group list \<Rightarrow>
   ('h fwd_sched \<times> dama_group list \<times> bool) option" where
  "schedule_vcms enc sl t sf time n vid s [] = Some (s, [], True)"
| "schedule_vcms enc sl t sf time n vid s (c # cs) = do {
     (s1, c1, ok) \<leftarrow> schedule_vcm enc sl t sf time n vid s c;
     (if \<not> ok then Some (s1, c1 # cs, False)
      else do {
        (s2, cs', ok2) \<leftarrow> schedule_vcms enc sl t sf time n (vid + 1) s1 cs;
        Some (s2, c1 # cs', ok2) }) }"

fun schedule_groups ::
  "'h encapsulate \<Rightarrow> st_list \<Rightarrow> fmt_table \<Rightarrow> time_sf \<Rightarrow> int \<Rightarrow> 'h fwd_sched \<Rightarrow> carriers_dama list \<Rightarrow>
   ('h fwd_sched \<times> carriers_dama list \<times> bool) option" where
  "schedule_groups enc sl t sf time s [] = Some (s, [], True)"
| "schedule_groups enc sl t sf time s (g # gs) = do {
     (s1, vcms, ok) \<leftarrow> schedule_vcms enc sl t sf time (length (vcm_carriers g)) 0 s (vcm_carriers g);
     let g1 = g\<lparr>vcm_carriers := vcms\<rparr>;
     (if \<not> ok then Some (s1, g1 # gs, False)
      else do {
        (s2, gs', ok2) \<leftarrow> schedule_groups enc sl t sf time s1 gs;
        Some (s2, g1 # gs', ok2) }) }"

text \<open>What is left is added to the result and kept for the next superframe.  For carriers with one MODCOD
  a rate is computed for the probes, with a division by the period.\<close>

definition keep_capacity :: "time_sf \<Rightarrow> dama_group \<Rightarrow> dama_group" where
  "keep_capacity sf c =
     c\<lparr>previous_capacity := remaining_capacity c, previous_sf := sf + 1, remaining_capacity := 0\<rparr>"

definition forward_schedule ::
  "'h encapsulate \<Rightarrow> st_list \<Rightarrow> fmt_table \<Rightarrow> time_ms \<Rightarrow> time_sf \<Rightarrow> int \<Rightarrow> 'h fwd_sched \<Rightarrow> dama_category \<Rightarrow> u32 \<Rightarrow>
   ('h fwd_sched \<times> dama_category \<times> u32 \<times> bool) option" where
  "forward_schedule enc sl t period sf time s category remaining = do {
     (s1, gs, ok) \<leftarrow> schedule_groups enc sl t sf time s (carriers_groups category);
     (if \<not> ok then Some (s1, category\<lparr>carriers_groups := gs\<rparr>, remaining, False)
      else
        (let vcms = concat (map vcm_carriers gs) in
         if period = 0 \<and> (\<exists>c \<in> set vcms. length (group_fmt_ids c) = 1) then None
         else Some (s1,
           category\<lparr>carriers_groups := map (\<lambda>g. g\<lparr>vcm_carriers := map (keep_capacity sf) (vcm_carriers g)\<rparr>) gs\<rparr>,
           remaining + sum_list (map remaining_capacity vcms), True))) }"

end
