(* ===== verification/Forward_Capacity.thy ===== *)
theory Forward_Capacity
  imports Forward_Schedule
begin

text \<open>
  What the scheduling of the forward link guarantees (\<^verbatim>\<open>opensand-core/src/dvb/dama/ForwardSchedulingS2.cpp\<close>):
  the invariant of the frames it keeps, the capacity each carrier spends, and the end of its loops.
\<close>

section \<open>The frames in use\<close>

definition bb_ok :: "fmt_table \<Rightarrow> dvb_frame \<Rightarrow> bool" where
  "bb_ok t f \<longleftrightarrow> 6 \<le> length (cont_data f) \<and> max_size f = bbframe_size_bytes t (ucast (get_modcod_id f))"

definition fs_refs :: "'h fwd_sched \<Rightarrow> nat list" where
  "fs_refs s = fs_complete s @ fs_pending s @ fs_ordered s"

text \<open>A frame is in one place only, and the map of the incomplete frames refers to those of their list.\<close>

definition fs_ok :: "fmt_table \<Rightarrow> 'h fwd_sched \<Rightarrow> bool" where
  "fs_ok t s \<longleftrightarrow>
     (\<forall>f \<in> set (fs_heap s). bb_ok t f) \<and> (\<forall>p \<in> set (fs_refs s). p < length (fs_heap s)) \<and>
     distinct (fs_refs s) \<and>
     (\<forall>m p. map_of (fs_incomplete s) m = Some p \<longleftrightarrow> p \<in> set (fs_ordered s) \<and> frame_modcod s p = m)"

definition frame_meta :: "dvb_frame \<Rightarrow> nat \<times> u8" where
  "frame_meta f = (max_size f, get_modcod_id f)"

definition frame_cost :: "fmt_table \<Rightarrow> 'h fwd_sched \<Rightarrow> nat \<Rightarrow> nat" where
  "frame_cost t s p =
     (case bbframe_size_sym t (max_size (fs_frame s p)) (frame_modcod s p) of
        Some (True, n) \<Rightarrow> unat n | _ \<Rightarrow> 0)"

text \<open>From one state to another the frames keep their MODCOD, and the frames completed are paid for.\<close>

definition spends :: "fmt_table \<Rightarrow> 'h fwd_sched \<Rightarrow> nat \<Rightarrow> 'h fwd_sched \<Rightarrow> nat \<Rightarrow> bool" where
  "spends t s cap s' cap' \<longleftrightarrow>
     fs_ok t s' \<and> length (fs_fifos s') = length (fs_fifos s) \<and>
     length (fs_heap s) \<le> length (fs_heap s') \<and>
     (\<forall>p < length (fs_heap s). frame_meta (fs_frame s' p) = frame_meta (fs_frame s p)) \<and>
     (\<exists>new. fs_complete s' = fs_complete s @ new \<and>
       cap' + sum_list (map (frame_cost t s') new) \<le> cap)"

lemma frame_cost_cong: "frame_meta (fs_frame s' p) = frame_meta (fs_frame s p) \<Longrightarrow> frame_cost t s' p = frame_cost t s p"
  by (simp add: frame_cost_def frame_meta_def frame_modcod_def)

lemma frame_modcod_cong: "frame_meta (fs_frame s' p) = frame_meta (fs_frame s p) \<Longrightarrow> frame_modcod s' p = frame_modcod s p"
  by (simp add: frame_meta_def frame_modcod_def)

lemma spends_refl: "fs_ok t s \<Longrightarrow> cap' \<le> cap \<Longrightarrow> spends t s cap s cap'"
  by (auto simp: spends_def)

lemma spends_more:
  assumes "spends t s cap s' cap'"
  shows "spends t s (cap + n) s' (cap' + n)"
  using assms unfolding spends_def by fastforce

lemma spends_ok: "spends t s cap s' cap' \<Longrightarrow> fs_ok t s'"
  by (simp add: spends_def)

lemma spends_trans:
  assumes a: "spends t s cap s1 cap1" and b: "spends t s1 cap1 s2 cap2"
  shows "spends t s cap s2 cap2"
proof -
  obtain n1 where n1: "fs_complete s1 = fs_complete s @ n1"
    "cap1 + sum_list (map (frame_cost t s1) n1) \<le> cap" using a unfolding spends_def by blast
  obtain n2 where n2: "fs_complete s2 = fs_complete s1 @ n2"
    "cap2 + sum_list (map (frame_cost t s2) n2) \<le> cap1" using b unfolding spends_def by blast
  have "\<forall>p \<in> set n1. p < length (fs_heap s1)"
    using spends_ok [OF a] n1(1) by (auto simp: fs_ok_def fs_refs_def)
  then have "map (frame_cost t s2) n1 = map (frame_cost t s1) n1"
    using b by (auto simp: spends_def intro: frame_cost_cong)
  then have "sum_list (map (frame_cost t s2) n1) = sum_list (map (frame_cost t s1) n1)" by (rule arg_cong)
  with n1 n2 have "fs_complete s2 = fs_complete s @ (n1 @ n2) \<and>
      cap2 + sum_list (map (frame_cost t s2) (n1 @ n2)) \<le> cap" by simp
  moreover have "frame_meta (fs_frame s2 p) = frame_meta (fs_frame s p)" if "p < length (fs_heap s)" for p
    using a b that by (simp add: spends_def)
  moreover have "fs_ok t s2" "length (fs_fifos s2) = length (fs_fifos s)" "length (fs_heap s) \<le> length (fs_heap s2)"
    using a b by (simp_all add: spends_def)
  ultimately show ?thesis unfolding spends_def by blast
qed

lemma fs_frame_updates [simp]:
  "fs_frame (s\<lparr>fs_fifos := x\<rparr>) = fs_frame s" "fs_frame (s\<lparr>fs_incomplete := i\<rparr>) = fs_frame s"
  "fs_frame (s\<lparr>fs_ordered := l\<rparr>) = fs_frame s" "fs_frame (s\<lparr>fs_pending := l\<rparr>) = fs_frame s"
  "fs_frame (s\<lparr>fs_complete := l\<rparr>) = fs_frame s" "fs_frame (s\<lparr>fs_handler := h\<rparr>) = fs_frame s"
  by (simp_all add: fs_frame_def fun_eq_iff)

lemma frame_modcod_updates [simp]:
  "frame_modcod (s\<lparr>fs_fifos := x\<rparr>) = frame_modcod s" "frame_modcod (s\<lparr>fs_incomplete := i\<rparr>) = frame_modcod s"
  "frame_modcod (s\<lparr>fs_ordered := l\<rparr>) = frame_modcod s" "frame_modcod (s\<lparr>fs_pending := l\<rparr>) = frame_modcod s"
  "frame_modcod (s\<lparr>fs_complete := l\<rparr>) = frame_modcod s" "frame_modcod (s\<lparr>fs_handler := h\<rparr>) = frame_modcod s"
  by (simp_all add: frame_modcod_def fun_eq_iff)

lemma frame_cost_updates [simp]:
  "frame_cost t (s\<lparr>fs_fifos := x\<rparr>) = frame_cost t s" "frame_cost t (s\<lparr>fs_incomplete := i\<rparr>) = frame_cost t s"
  "frame_cost t (s\<lparr>fs_ordered := l\<rparr>) = frame_cost t s" "frame_cost t (s\<lparr>fs_pending := l\<rparr>) = frame_cost t s"
  "frame_cost t (s\<lparr>fs_complete := l\<rparr>) = frame_cost t s" "frame_cost t (s\<lparr>fs_handler := h\<rparr>) = frame_cost t s"
  by (simp_all add: frame_cost_def fun_eq_iff)

section \<open>Completing a frame\<close>

lemma add_complete_cases:
  assumes "add_complete_bbframe t p cap s = Some (s', cap', st)"
  shows "(st = Status_ok \<and> s' = s\<lparr>fs_complete := fs_complete s @ [p]\<rparr> \<and>
       unat cap' + frame_cost t s p = unat cap \<and>
       bbframe_size_sym t (max_size (fs_frame s p)) (frame_modcod s p) = Some (True, cap - cap')) \<or>
     (st \<noteq> Status_ok \<and> s' = s \<and> cap' = cap)"
proof -
  obtain ok sym where b: "bbframe_size_sym t (max_size (fs_frame s p)) (frame_modcod s p) = Some (ok, sym)"
    using assms by (cases "bbframe_size_sym t (max_size (fs_frame s p)) (frame_modcod s p)")
      (auto simp: add_complete_bbframe_def)
  consider (bad) "\<not> ok" | (full) "ok" "cap < sym" | (fits) "ok" "sym \<le> cap" by fastforce
  then show ?thesis
  proof cases
    case fits
    then have "cap' = cap - sym" "st = Status_ok" "s' = s\<lparr>fs_complete := fs_complete s @ [p]\<rparr>"
      using assms b by (simp_all add: add_complete_bbframe_def not_less [symmetric])
    with fits b show ?thesis by (simp add: frame_cost_def unat_sub word_le_nat_alt)
  qed (use assms b in \<open>auto simp: add_complete_bbframe_def\<close>)
qed

lemma ok_complete_ordered:
  assumes ok: "fs_ok t s" and p: "p \<in> set (fs_ordered s)"
  shows "fs_ok t (s\<lparr>fs_complete := fs_complete s @ [p], fs_ordered := filter (\<lambda>q. q \<noteq> p) (fs_ordered s),
    fs_incomplete := omap_del (frame_modcod s p) (fs_incomplete s)\<rparr>)"
proof -
  have "map_of (fs_incomplete s) (frame_modcod s p) = Some p" using ok p by (simp add: fs_ok_def)
  then have "\<And>q. q \<in> set (fs_ordered s) \<Longrightarrow> frame_modcod s q = frame_modcod s p \<Longrightarrow> q = p"
    using ok unfolding fs_ok_def by (metis option.inject)
  with ok p show ?thesis by (auto simp: fs_ok_def fs_refs_def map_of_omap_del)
qed

lemma ok_pend_ordered:
  assumes ok: "fs_ok t s" and p: "p \<in> set (fs_ordered s)"
  shows "fs_ok t (s\<lparr>fs_ordered := filter (\<lambda>q. q \<noteq> p) (fs_ordered s),
    fs_incomplete := omap_del (frame_modcod s p) (fs_incomplete s), fs_pending := fs_pending s @ [p]\<rparr>)"
proof -
  have "map_of (fs_incomplete s) (frame_modcod s p) = Some p" using ok p by (simp add: fs_ok_def)
  then have "\<And>q. q \<in> set (fs_ordered s) \<Longrightarrow> frame_modcod s q = frame_modcod s p \<Longrightarrow> q = p"
    using ok unfolding fs_ok_def by (metis option.inject)
  with ok p show ?thesis by (auto simp: fs_ok_def fs_refs_def map_of_omap_del)
qed

lemma close_bbframe_ok:
  assumes c: "close_bbframe t sf p s carriers cap = Some (s', carriers', cap', r)"
    and ok: "fs_ok t s" and p: "p \<in> set (fs_ordered s)"
  shows "spends t s (unat cap) s' (unat cap') \<and> fs_fifos s' = fs_fifos s \<and>
    (r = Packet_done \<longrightarrow> unat cap' + frame_cost t s p = unat cap \<and>
       bbframe_size_sym t (max_size (fs_frame s p)) (frame_modcod s p) = Some (True, cap - cap'))"
proof -
  obtain s1 cap1 st where a: "add_complete_bbframe t p cap s = Some (s1, cap1, st)"
    using c by (auto simp: close_bbframe_def split: bind_splits)
  note cs = add_complete_cases [OF a]
  show ?thesis
  proof (cases st)
    case Status_ok
    with cs have sent: "st = Status_ok" "s1 = s\<lparr>fs_complete := fs_complete s @ [p]\<rparr>"
      "unat cap1 + frame_cost t s p = unat cap"
      "bbframe_size_sym t (max_size (fs_frame s p)) (frame_modcod s p) = Some (True, cap - cap1)" by simp_all
    then have e: "s' = s\<lparr>fs_complete := fs_complete s @ [p], fs_ordered := filter (\<lambda>q. q \<noteq> p) (fs_ordered s),
        fs_incomplete := omap_del (frame_modcod s p) (fs_incomplete s)\<rparr>" "cap' = cap1"
      using c a by (auto simp: close_bbframe_def)
    show ?thesis
      using ok_complete_ordered [OF ok p] sent e by (simp add: spends_def)
  next
    case Status_full
    with cs have full: "st = Status_full" "s1 = s" "cap1 = cap" by simp_all
    then have e: "s' = s\<lparr>fs_ordered := filter (\<lambda>q. q \<noteq> p) (fs_ordered s),
        fs_incomplete := omap_del (frame_modcod s p) (fs_incomplete s), fs_pending := fs_pending s @ [p]\<rparr>"
        "cap' = cap" "r = Carrier_full"
      using c a by (auto simp: close_bbframe_def)
    show ?thesis
      using ok_pend_ordered [OF ok p] e by (simp add: spends_def)
  next
    case Status_error
    with cs have "st = Status_error" "s1 = s" "cap1 = cap" by simp_all
    then show ?thesis using c a ok by (auto simp: close_bbframe_def intro: spends_refl)
  qed
qed

section \<open>Pending frames\<close>

lemma pending_loop_ok:
  "pending_loop t supported ps np cap s = Some (s', cap', np') \<Longrightarrow> fs_ok t (s\<lparr>fs_pending := np @ ps\<rparr>) \<Longrightarrow>
   spends t (s\<lparr>fs_pending := np @ ps\<rparr>) (unat cap) (s'\<lparr>fs_pending := np'\<rparr>) (unat cap') \<and> fs_fifos s' = fs_fifos s"
proof (induction ps arbitrary: np cap s)
  case Nil
  then show ?case by (auto intro: spends_refl)
next
  case (Cons p ps)
  show ?case
  proof (cases "frame_modcod s p \<in> ucast ` set supported")
    case False
    with Cons.prems have "pending_loop t supported ps (np @ [p]) cap s = Some (s', cap', np')"
      "fs_ok t (s\<lparr>fs_pending := (np @ [p]) @ ps\<rparr>)" by simp_all
    from Cons.IH [OF this] show ?thesis by simp
  next
    case True
    then obtain s1 cap1 st where a: "add_complete_bbframe t p cap s = Some (s1, cap1, st)"
      and r: "pending_loop t supported ps (if st = Status_full then np @ [p] else np) cap1 s1 = Some (s', cap', np')"
      using Cons.prems(1) by (auto split: bind_splits)
    let ?np = "if st = Status_full then np @ [p] else np"
    have "spends t (s\<lparr>fs_pending := np @ p # ps\<rparr>) (unat cap) (s1\<lparr>fs_pending := ?np @ ps\<rparr>) (unat cap1) \<and> fs_fifos s1 = fs_fifos s"
      using add_complete_cases [OF a] Cons.prems(2) by (auto simp: spends_def fs_ok_def fs_refs_def)
    with Cons.IH [OF r] show ?thesis by (metis spends_ok spends_trans)
  qed
qed

lemma schedule_pending_ok:
  assumes "schedule_pending t supported cap s = Some (s', cap')" and ok: "fs_ok t s"
  shows "spends t s (unat cap) s' (unat cap') \<and> fs_fifos s' = fs_fifos s"
proof (cases "fs_pending s = []")
  case True
  then show ?thesis using assms by (auto simp: schedule_pending_def intro: spends_refl)
next
  case False
  then obtain s1 np where "pending_loop t supported (fs_pending s) [] cap s = Some (s1, cap', np)"
    "s' = s1\<lparr>fs_pending := np\<rparr>"
    using assms(1) by (auto simp: schedule_pending_def split: bind_splits)
  with pending_loop_ok [of t supported "fs_pending s" "[]" cap s s1 cap' np] ok show ?thesis by simp
qed

section \<open>A packet\<close>

lemma new_bb_frame_bytes: "length (cont_data new_bb_frame) = 6"
  by (simp add: new_bb_frame_def empty_frame_def set_modcod_id_def frame_defs net_container.defs
      new_container_def)

lemma created_frame:
  "let f = set_max_frame_size n (set_modcod_id m new_bb_frame)
   in length (cont_data f) = 6 \<and> max_size f = n \<and> get_modcod_id f = m"
  by (simp add: Let_def set_modcod_id_def get_modcod_id_def new_bb_frame_bytes read8_write8_same)

lemma bb_add_packet_meta:
  assumes "bb_add_packet f d = (f', ok)" and n: "6 \<le> length (cont_data f)"
  shows "frame_meta f' = frame_meta f \<and> 6 \<le> length (cont_data f')"
proof -
  have "get_modcod_id (set_count w (set_message_length k g)) = get_modcod_id g"
    if "6 \<le> length (cont_data g)" for w k and g :: dvb_frame
    using that by (simp add: get_modcod_id_def set_count_def set_message_length_def field_simps_rw)
  with assms show ?thesis
    by (auto simp: bb_add_packet_def add_packet_def Let_def frame_meta_def get_modcod_id_def
        read8_append split: if_splits prod.splits)
qed

lemma ucast_u32_u8 [simp]: "ucast (ucast (n :: u8) :: u32) = n"
  using unat_le_mask8 [of n] by (simp add: word_unat_eq_iff unat_ucast_down)

lemma new_bbframe_ok:
  assumes ok: "fs_ok t s" and none: "map_of (fs_incomplete s) (ucast (m :: u8)) = None"
    and create: "create_bbframe t (ucast m) s = (s1, p)"
    and s': "s' = s1\<lparr>fs_incomplete := omap_put (ucast m) p (fs_incomplete s1), fs_ordered := fs_ordered s1 @ [p]\<rparr>"
  shows "spends t s cap s' cap \<and> fs_fifos s' = fs_fifos s \<and> p \<in> set (fs_ordered s')"
proof -
  let ?n = "bbframe_size_bytes t (ucast m)"
  define f where "f = set_max_frame_size ?n (set_modcod_id m new_bb_frame)"
  have f: "length (cont_data f) = 6" "max_size f = ?n" "get_modcod_id f = m"
    using created_frame [of ?n m] by (simp_all add: f_def Let_def)
  have e: "s1 = s\<lparr>fs_heap := fs_heap s @ [f]\<rparr>" "p = length (fs_heap s)"
    using create by (simp_all add: create_bbframe_def Let_def f_def)
  have old: "fs_frame s' q = fs_frame s q" if "q < length (fs_heap s)" for q
    using that by (simp add: s' e fs_frame_def nth_append)
  have newf: "fs_frame s' p = f" by (simp add: s' e fs_frame_def)
  have m: "frame_modcod s' p = ucast m" by (simp add: frame_modcod_def newf f)
  have old_m: "frame_modcod s' q = frame_modcod s q" if "q < length (fs_heap s)" for q
    using old [OF that] by (simp add: frame_modcod_def)
  have bb: "bb_ok t f" using f by (simp add: bb_ok_def)
  have fields: "fs_incomplete s' = omap_put (ucast m) p (fs_incomplete s)" "fs_ordered s' = fs_ordered s @ [p]"
    by (simp_all add: s' e(1))
  have inc: "map_of (fs_incomplete s') k = Some q \<longleftrightarrow> q \<in> set (fs_ordered s') \<and> frame_modcod s' q = k" for k q
  proof (cases "q < length (fs_heap s)")
    case True
    then have "q \<noteq> p" by (simp add: e)
    have "map_of (fs_incomplete s) (ucast m) \<noteq> Some q" using none by simp
    with True \<open>q \<noteq> p\<close> ok show ?thesis
      by (auto simp: fields map_of_omap_put old_m fs_ok_def)
  next
    case False
    with ok have "q \<notin> set (fs_ordered s)" "map_of (fs_incomplete s) k \<noteq> Some q" by (auto simp: fs_ok_def fs_refs_def)
    with m show ?thesis by (auto simp: fields map_of_omap_put)
  qed
  have refs: "fs_refs s' = fs_refs s @ [length (fs_heap s)]" "fs_heap s' = fs_heap s @ [f]"
    by (simp_all add: s' e fs_refs_def)
  have bounds: "\<forall>q \<in> set (fs_refs s). q < length (fs_heap s)" using ok by (simp add: fs_ok_def)
  have "fs_ok t s'"
    unfolding fs_ok_def refs using ok bb bounds inc by (auto simp: fs_ok_def less_SucI)
  with s' e old show ?thesis by (auto simp: spends_def)
qed

lemma get_incomplete_ok:
  assumes g: "get_incomplete_bbframe sl t tal carriers s = (s', r)" and ok: "fs_ok t s"
  shows "spends t s cap s' cap \<and> fs_fifos s' = fs_fifos s \<and> (\<forall>p. r = Some p \<longrightarrow> p \<in> set (fs_ordered s'))"
proof -
  consider (none) "s' = s" "r = None" | (old) p m where "s' = s" "r = Some p" "map_of (fs_incomplete s) m = Some p"
    | (new) m s1 p where "map_of (fs_incomplete s) (ucast (m :: u8)) = None"
        "create_bbframe t (ucast m) s = (s1, p)" "r = Some p"
        "s' = s1\<lparr>fs_incomplete := omap_put (ucast m) p (fs_incomplete s1), fs_ordered := fs_ordered s1 @ [p]\<rparr>"
    using g unfolding get_incomplete_bbframe_def nearest_fmt_id_def Let_def
    by (auto split: if_splits option.splits prod.splits)
  then show ?thesis
  proof cases
    case none
    with ok show ?thesis by (simp add: spends_refl)
  next
    case old
    with ok show ?thesis by (auto simp: spends_refl fs_ok_def)
  next
    case new
    from new_bbframe_ok [OF ok new(1,2,4)] new(3) show ?thesis by simp
  qed
qed

text \<open>Every frame of a known MODCOD takes at least one symbol.\<close>

definition frames_cost :: "fmt_table \<Rightarrow> bool" where
  "frames_cost t = list_all (\<lambda>(m, _).
     (case bbframe_size_sym t (bbframe_size_bytes t (ucast m)) (ucast m) of
        None \<Rightarrow> False | Some (ok, n) \<Rightarrow> n \<noteq> 0)) t"

lemma frames_costD:
  assumes "frames_cost t" "do_fmt_id_exist t m"
  shows "\<exists>ok n. bbframe_size_sym t (bbframe_size_bytes t (ucast m)) (ucast m) = Some (ok, n) \<and> n \<noteq> 0"
proof -
  obtain d where "(m, d) \<in> set t"
    using assms(2) by (auto simp: do_fmt_id_exist_def dest: map_of_SomeD)
  with assms(1) have "case bbframe_size_sym t (bbframe_size_bytes t (ucast m)) (ucast m) of
      None \<Rightarrow> False | Some (ok, n) \<Rightarrow> n \<noteq> 0" by (fastforce simp: frames_cost_def list_all_iff)
  then show ?thesis by (auto split: option.splits)
qed

lemma frame_cost_pos:
  assumes "frames_cost t" "bb_ok t (fs_frame s p)"
    and b: "bbframe_size_sym t (max_size (fs_frame s p)) (frame_modcod s p) = Some (True, n)"
  shows "n \<noteq> 0"
proof -
  have "do_fmt_id_exist t (get_modcod_id (fs_frame s p))"
    using b by (auto simp: bbframe_size_sym_def frame_modcod_def split: if_splits)
  from frames_costD [OF assms(1) this] assms(2) b show ?thesis by (simp add: bb_ok_def frame_modcod_def)
qed

lemma spends_fields:
  assumes "fs_ok t s"
  shows "spends t s cap (s\<lparr>fs_handler := h\<rparr>) cap" "spends t s cap (set_fs_fifo i f s) cap"
  using assms by (simp_all add: spends_def fs_ok_def fs_refs_def set_fs_fifo_def)

lemma spends_frame:
  assumes ok: "fs_ok t s" and p: "p \<in> set (fs_ordered s)"
    and f: "frame_meta f = frame_meta (fs_frame s p)" "6 \<le> length (cont_data f)"
  shows "spends t s cap (s\<lparr>fs_heap := (fs_heap s)[p := f]\<rparr>) cap"
proof -
  let ?s = "s\<lparr>fs_heap := (fs_heap s)[p := f]\<rparr>"
  have p: "p < length (fs_heap s)" using ok p by (auto simp: fs_ok_def fs_refs_def)
  have meta: "frame_meta (fs_frame ?s q) = frame_meta (fs_frame s q)" for q
    using f p by (auto simp: fs_frame_def nth_list_update)
  have "bb_ok t (fs_frame s p)" using ok p by (simp add: fs_ok_def fs_frame_def)
  with f have "bb_ok t f" by (simp add: bb_ok_def frame_meta_def)
  then have "\<forall>g \<in> set (fs_heap ?s). bb_ok t g"
    using ok set_update_subset_insert [of "fs_heap s" p f] by (auto simp: fs_ok_def)
  then have "fs_ok t ?s" using ok frame_modcod_cong [OF meta] by (simp add: fs_ok_def fs_refs_def)
  with meta show ?thesis by (simp add: spends_def)
qed

lemma put_packet_ok:
  assumes pp: "put_packet enc t sf i elem p s carriers cap = Some (s', carriers', cap', r)"
    and ok: "fs_ok t s" and p: "p \<in> set (fs_ordered s)"
  shows "spends t s (unat cap) s' (unat cap') \<and>
    (frames_cost t \<and> r = Packet_done \<longrightarrow> unat cap' < unat cap \<or> cap' = cap \<and> fs_fifos s' = fs_fifos s)"
proof -
  obtain h ret data rest where e: "enc (fs_handler s) (fe_elem elem) (get_free_space (fs_frame s p))
      (num_packets (fs_frame s p) = 0) = (h, ret, data, rest)" by (metis prod_cases4)
  define s1 where "s1 = s\<lparr>fs_handler := h\<rparr>"
  obtain f' fits where f: "(case data of None \<Rightarrow> (fs_frame s p, True) | Some d \<Rightarrow> bb_add_packet (fs_frame s p) (cont_data d)) = (f', fits)"
    by (meson surj_pair)
  define s2 where "s2 = s1\<lparr>fs_heap := (fs_heap s1)[p := f']\<rparr>"
  define s3 where "s3 = (case rest of None \<Rightarrow> s2
    | Some r \<Rightarrow> set_fs_fifo i (fst (push_front (fs_fifo i s2) (set_elem elem r))) s2)"
  have "6 \<le> length (cont_data (fs_frame s p))" using ok p by (auto simp: fs_ok_def fs_refs_def fs_frame_def bb_ok_def)
  then have meta: "frame_meta f' = frame_meta (fs_frame s p)" "6 \<le> length (cont_data f')"
    using f by (auto split: option.splits dest: bb_add_packet_meta)
  have st1: "spends t s (unat cap) s1 (unat cap)" unfolding s1_def by (rule spends_fields [OF ok])
  have p1: "p \<in> set (fs_ordered s1)" "fs_frame s1 = fs_frame s" using p by (simp_all add: s1_def)
  have st2: "spends t s (unat cap) s2 (unat cap)"
    using spends_trans [OF st1 spends_frame [OF spends_ok [OF st1] p1(1)]] meta p1(2) unfolding s2_def by simp
  have st3: "spends t s (unat cap) s3 (unat cap)"
    using spends_trans [OF st2 spends_fields(2) [OF spends_ok [OF st2]]] st2
    by (cases rest) (simp_all add: s3_def)
  have p3: "p \<in> set (fs_ordered s3)" using p by (auto simp: s3_def s2_def s1_def set_fs_fifo_def split: option.split)
  have whole: "put_packet enc t sf i elem p s carriers cap =
      (if \<not> ret then None else if \<not> fits then Some (s2, carriers, cap, Packet_error)
       else if get_free_space f' \<le> 0 \<or> rest \<noteq> None then close_bbframe t sf p s3 carriers cap
       else Some (s3, carriers, cap, Packet_done))"
    by (cases rest) (simp_all add: put_packet_def e f Let_def s1_def s2_def s3_def)
  consider (bad) "s' = s2" "cap' = cap" "r = Packet_error"
    | (close) "close_bbframe t sf p s3 carriers cap = Some (s', carriers', cap', r)"
    | (keep) "s' = s3" "cap' = cap" "rest = None"
    using pp [unfolded whole] by (auto split: if_splits simp: s3_def)
  then show ?thesis
  proof cases
    case bad
    with st2 show ?thesis by simp
  next
    case close
    have bb: "bb_ok t (fs_frame s3 p)"
      using spends_ok [OF st3] p3 by (auto simp: fs_ok_def fs_refs_def fs_frame_def)
    from close_bbframe_ok [OF close spends_ok [OF st3] p3] have c: "spends t s3 (unat cap) s' (unat cap')"
      "r = Packet_done \<Longrightarrow> bbframe_size_sym t (max_size (fs_frame s3 p)) (frame_modcod s3 p) = Some (True, cap - cap')"
      "r = Packet_done \<Longrightarrow> cap' \<le> cap"
      by (auto simp: word_le_nat_alt)
    have "unat cap' < unat cap" if "frames_cost t" "r = Packet_done"
    proof -
      have "cap - cap' \<noteq> 0" using frame_cost_pos [OF that(1) bb c(2) [OF that(2)]] .
      with c(3) [OF that(2)] have "cap' < cap" by (auto intro: order_le_neq_trans)
      then show ?thesis by (simp add: word_less_nat_alt)
    qed
    with spends_trans [OF st3 c(1)] show ?thesis by simp
  next
    case keep
    with st3 show ?thesis by (simp add: s3_def s2_def s1_def)
  qed
qed

lemma fs_fifo_set [simp]: "i < length (fs_fifos s) \<Longrightarrow> fs_fifo i (set_fs_fifo i f s) = f"
  by (simp add: fs_fifo_def set_fs_fifo_def)

lemma fs_fifo_cong: "fs_fifos s' = fs_fifos s \<Longrightarrow> fs_fifo i s' = fs_fifo i s"
  by (simp add: fs_fifo_def)

lemma pop_Cons: "queue f = e # q \<Longrightarrow> \<exists>f'. pop f = (f', Some e) \<and> queue f' = q"
  by (simp add: pop_def Let_def)

lemma take_packet_ok:
  assumes tp: "take_packet enc sl t sf i s carriers cap = Some (s', carriers', cap', r)"
    and ok: "fs_ok t s" and i: "i < length (fs_fifos s)"
  shows "spends t s (unat cap) s' (unat cap') \<and> (frames_cost t \<and> r = Packet_done \<longrightarrow>
    unat cap' < unat cap \<or> cap' = cap \<and> length (queue (fs_fifo i s')) < length (queue (fs_fifo i s)))"
proof -
  obtain e q where q: "queue (fs_fifo i s) = e # q"
    using tp by (cases "queue (fs_fifo i s)") (auto simp: take_packet_def pop_def)
  then obtain f where f: "pop (fs_fifo i s) = (f, Some e)" "queue f = q" using pop_Cons by blast
  define s1 where "s1 = set_fs_fifo i f s"
  have st1: "spends t s (unat cap) s1 (unat cap)" unfolding s1_def by (rule spends_fields(2) [OF ok])
  have q1: "fs_fifo i s1 = f" using i by (simp add: s1_def)
  show ?thesis
  proof (cases "packet_destination sl (fe_elem e)")
    case None
    with tp f st1 show ?thesis by (auto simp: take_packet_def s1_def)
  next
    case (Some tal)
    obtain s2 g where g: "get_incomplete_bbframe sl t tal carriers s1 = (s2, g)" by fastforce
    note gi = get_incomplete_ok [OF g spends_ok [OF st1]]
    then have st2: "spends t s (unat cap) s2 (unat cap)" using spends_trans [OF st1] by blast
    have q2: "fs_fifo i s2 = f" using gi q1 by (metis fs_fifo_cong)
    show ?thesis
    proof (cases g)
      case None
      with tp f Some g have "s' = s2" "cap' = cap" by (auto simp: take_packet_def s1_def)
      with st2 q2 q f show ?thesis by simp
    next
      case (Some p)
      with gi have "p \<in> set (fs_ordered s2)" by simp
      moreover have "put_packet enc t sf i e p s2 carriers cap = Some (s', carriers', cap', r)"
        using tp f \<open>packet_destination sl (fe_elem e) = Some tal\<close> g Some by (simp add: take_packet_def s1_def)
      ultimately have pp: "spends t s2 (unat cap) s' (unat cap')" "frames_cost t \<Longrightarrow> r = Packet_done \<Longrightarrow>
          unat cap' < unat cap \<or> cap' = cap \<and> fs_fifos s' = fs_fifos s2"
        using put_packet_ok spends_ok [OF st2] by blast+
      have "length (queue (fs_fifo i s2)) < length (queue (fs_fifo i s))" using q q2 f by simp
      with spends_trans [OF st2 pp(1)] pp(2) show ?thesis by (metis fs_fifo_cong)
    qed
  qed
qed

text \<open>The encapsulation never refuses a packet.\<close>

definition handler_accepts :: "'h encapsulate \<Rightarrow> bool" where
  "handler_accepts enc \<longleftrightarrow> (\<forall>h p n new. fst (snd (enc h p n new)))"

lemma add_complete_defined:
  assumes "frames_cost t" "bb_ok t (fs_frame s p)"
  shows "add_complete_bbframe t p cap s \<noteq> None"
proof -
  let ?m = "get_modcod_id (fs_frame s p)"
  have "bbframe_size_sym t (max_size (fs_frame s p)) (frame_modcod s p) \<noteq> None"
  proof (cases "do_fmt_id_exist t ?m")
    case False
    then show ?thesis by (simp add: bbframe_size_sym_def frame_modcod_def)
  next
    case True
    from frames_costD [OF assms(1) True] assms(2) show ?thesis by (auto simp: bb_ok_def frame_modcod_def)
  qed
  then show ?thesis by (auto simp: add_complete_bbframe_def)
qed

lemma close_defined:
  assumes "add_complete_bbframe t p cap s \<noteq> None"
  shows "close_bbframe t sf p s carriers cap \<noteq> None"
  using assms by (auto simp: close_bbframe_def Let_def)

lemma put_packet_defined:
  assumes "handler_accepts enc" "frames_cost t" and ok: "fs_ok t s" and p: "p \<in> set (fs_ordered s)"
  shows "put_packet enc t sf i elem p s carriers cap \<noteq> None"
proof -
  obtain h ret data rest where e: "enc (fs_handler s) (fe_elem elem) (get_free_space (fs_frame s p))
      (num_packets (fs_frame s p) = 0) = (h, ret, data, rest)" by (metis prod_cases4)
  then have "ret" using assms(1) unfolding handler_accepts_def by (metis fst_conv snd_conv)
  have p': "p < length (fs_heap s)" using ok p by (auto simp: fs_ok_def fs_refs_def)
  have bb: "bb_ok t (fs_frame s p)" using ok p' by (simp add: fs_ok_def fs_frame_def)
  obtain f' fits where f: "(case data of None \<Rightarrow> (fs_frame s p, True) | Some d \<Rightarrow> bb_add_packet (fs_frame s p) (cont_data d)) = (f', fits)"
    by (meson surj_pair)
  have "frame_meta f' = frame_meta (fs_frame s p)" "6 \<le> length (cont_data f')"
    using f bb by (auto simp: bb_ok_def split: option.splits dest: bb_add_packet_meta)
  then have "bb_ok t f'" using bb by (simp add: bb_ok_def frame_meta_def)
  then have "close_bbframe t sf p S carriers cap \<noteq> None" if "fs_heap S = (fs_heap s)[p := f']" for S
    using p' assms(2) that by (intro close_defined add_complete_defined) (simp_all add: fs_frame_def)
  then have close: "\<exists>a b c d. close_bbframe t sf p S carriers cap = Some (a, b, c, d)"
    if "fs_heap S = (fs_heap s)[p := f']" for S using that by fastforce
  show ?thesis
    unfolding put_packet_def e f Let_def prod.case using \<open>ret\<close>
    by (cases rest) (auto simp: set_fs_fifo_def intro!: close)
qed

lemma take_packet_defined:
  assumes "handler_accepts enc" "frames_cost t" and ok: "fs_ok t s"
    and q: "queue (fs_fifo i s) \<noteq> []"
  shows "take_packet enc sl t sf i s carriers cap \<noteq> None"
proof -
  obtain e f where f: "pop (fs_fifo i s) = (f, Some e)" using q pop_Cons by (metis neq_Nil_conv)
  have ok1: "fs_ok t (set_fs_fifo i f s)" using spends_fields(2) [OF ok] by (rule spends_ok)
  show ?thesis
  proof (cases "packet_destination sl (fe_elem e)")
    case None
    with f show ?thesis by (simp add: take_packet_def)
  next
    case (Some tal)
    obtain s2 g where g: "get_incomplete_bbframe sl t tal carriers (set_fs_fifo i f s) = (s2, g)" by fastforce
    have "put_packet enc t sf i e p s2 carriers cap \<noteq> None" if "g = Some p" for p
    proof -
      from get_incomplete_ok [OF g ok1] that have "fs_ok t s2" "p \<in> set (fs_ordered s2)"
        by (auto dest: spends_ok)
      with assms(1,2) show ?thesis by (rule put_packet_defined)
    qed
    with f Some g show ?thesis by (simp add: take_packet_def split: option.split)
  qed
qed

section \<open>The packets of a FIFO\<close>

lemma packets_loop_ok:
  assumes "packets_loop enc sl t sf time i s carriers cap = Some (s', carriers', cap', b)"
    and "fs_ok t s" "i < length (fs_fifos s)"
  shows "spends t s (unat cap) s' (unat cap')"
proof -
  let ?P = "\<lambda>enc sl t sf time i s carriers cap y. fs_ok t s \<longrightarrow> i < length (fs_fifos s) \<longrightarrow>
    (case y of (s', carriers', cap', b) \<Rightarrow> spends t s (unat cap) s' (unat cap'))"
  have "?P enc sl t sf time i s carriers cap (s', carriers', cap', b)"
    using assms(1)
  proof (rule packets_loop.raw_induct [where P = ?P, rotated])
    fix loop enc sl t sf time i s carriers cap y
    assume 1: "\<And>enc sl t sf time i s carriers cap y. loop enc sl t sf time i s carriers cap = Some y \<Longrightarrow>
        ?P enc sl t sf time i s carriers cap y"
      "(if get_current_size (fs_fifo i s) \<le> 0 \<or> get_tick_out (fs_fifo i s) > time
        then Some (s, carriers, cap, True)
        else (case take_packet enc sl t sf i s carriers cap of
             None \<Rightarrow> None
           | Some (s1, carriers1, capacity1, r) \<Rightarrow>
               (if r = Packet_error then Some (s1, carriers1, capacity1, False)
                else if r = Carrier_full then Some (s1, carriers1, capacity1, True)
                else loop enc sl t sf time i s1 carriers1 capacity1))) = Some y"
    show "?P enc sl t sf time i s carriers cap y"
    proof (intro impI)
      assume ok: "fs_ok t s" and i: "i < length (fs_fifos s)"
      show "case y of (s', carriers', cap', b) \<Rightarrow> spends t s (unat cap) s' (unat cap')"
      proof (cases "get_current_size (fs_fifo i s) \<le> 0 \<or> get_tick_out (fs_fifo i s) > time")
        case True
        with 1(2) ok show ?thesis by (auto intro: spends_refl)
      next
        case False
        then obtain s1 c1 cap1 r where tp: "take_packet enc sl t sf i s carriers cap = Some (s1, c1, cap1, r)"
          using 1(2) by (auto split: option.splits prod.splits)
        note st = take_packet_ok [OF tp ok i, THEN conjunct1]
        have i1: "i < length (fs_fifos s1)" using st i by (simp add: spends_def)
        show ?thesis
        proof (cases "r = Packet_done")
          case True
          then have "loop enc sl t sf time i s1 c1 cap1 = Some y"
            using 1(2) False tp by (cases r) (simp_all split: if_splits)
          from 1(1) [OF this] spends_ok [OF st] i1 spends_trans [OF st] show ?thesis by auto
        next
          case False
          with 1(2) tp \<open>\<not> (_ \<or> _)\<close> st show ?thesis by (cases r) auto
        qed
      qed
    qed
  qed
  with assms show ?thesis by auto
qed

lemma packets_loop_ends:
  assumes "handler_accepts enc" "frames_cost t" "fs_ok t s" "i < length (fs_fifos s)"
  shows "packets_loop enc sl t sf time i s carriers cap \<noteq> None"
  using assms(3,4)
proof (induction "(unat cap, length (queue (fs_fifo i s)))" arbitrary: s carriers cap
    rule: wf_induct_rule [OF wf_lex_prod [OF wf_less_than wf_less_than]])
  case (1 s cap carriers)
  show ?case
  proof (cases "get_current_size (fs_fifo i s) \<le> 0 \<or> get_tick_out (fs_fifo i s) > time")
    case True
    then show ?thesis by (subst packets_loop.simps) simp
  next
    case False
    then have "queue (fs_fifo i s) \<noteq> []" by (auto simp: get_current_size_def)
    from take_packet_defined [OF assms(1,2) 1(2) this] obtain s1 c1 cap1 r where
      tp: "take_packet enc sl t sf i s carriers cap = Some (s1, c1, cap1, r)" by (metis not_None_eq prod_cases4)
    note st = take_packet_ok [OF tp 1(2,3)]
    have i1: "i < length (fs_fifos s1)" using st 1(3) by (simp add: spends_def)
    show ?thesis
    proof (cases "r = Packet_done")
      case True
      have "packets_loop enc sl t sf time i s1 c1 cap1 \<noteq> None"
        using st True assms(2) spends_ok i1 by (intro 1(1)) auto
      with True False tp show ?thesis by (subst packets_loop.simps) simp
    next
      case False
      with tp show ?thesis by (subst packets_loop.simps) (cases r, auto)
    qed
  qed
qed

lemma pending_loop_defined:
  assumes "frames_cost t"
  shows "(\<forall>p \<in> set ps. bb_ok t (fs_frame s p)) \<Longrightarrow> pending_loop t supported ps np cap s \<noteq> None"
proof (induction ps arbitrary: np cap s)
  case Nil
  then show ?case by simp
next
  case (Cons p ps)
  then obtain s1 cap1 st where a: "add_complete_bbframe t p cap s = Some (s1, cap1, st)"
    using add_complete_defined [OF assms, of s p cap] by auto
  with add_complete_cases [OF a] have "fs_frame s1 = fs_frame s" by auto
  with Cons a show ?case by simp
qed

lemma schedule_pending_defined:
  assumes "frames_cost t" "fs_ok t s"
  shows "schedule_pending t supported cap s \<noteq> None"
proof -
  have "\<forall>p \<in> set (fs_pending s). bb_ok t (fs_frame s p)"
    using assms(2) by (auto simp: fs_ok_def fs_refs_def fs_frame_def)
  from pending_loop_defined [OF assms(1) this, of supported "[]" cap] show ?thesis
    by (auto simp: schedule_pending_def)
qed

lemma unat_min_le: "unat (min a b) \<le> unat (b :: vol_sym)"
  by (simp add: unat_min)

lemma schedule_encap_ok:
  assumes se: "schedule_encap_packets enc sl t sf time i init s carriers cap = Some (s', carriers', cap', b)"
    and ok: "fs_ok t s" and i: "i < length (fs_fifos s)"
  shows "spends t s (unat cap) s' (unat cap')"
proof (cases "get_current_size (fs_fifo i s) \<le> 0 \<and> fs_pending s = []")
  case True
  with se ok show ?thesis by (auto simp: schedule_encap_packets_def Let_def intro: spends_refl)
next
  case False
  then obtain s1 cap1 where p: "schedule_pending t (group_fmt_ids carriers) cap s = Some (s1, cap1)"
    using se by (auto simp: schedule_encap_packets_def Let_def split: bind_splits)
  define cap2 where "cap2 = (if fs_incomplete s1 = [] then min init cap1 else cap1)"
  from schedule_pending_ok [OF p ok] have s1: "spends t s (unat cap) s1 (unat cap1)" "fs_fifos s1 = fs_fifos s" by auto
  have "unat cap2 \<le> unat cap1" by (simp add: cap2_def unat_min_le)
  from spends_trans [OF s1(1) spends_refl [OF spends_ok [OF s1(1)] this]]
  have s2: "spends t s (unat cap) s1 (unat cap2)" .
  have "schedule_encap_packets enc sl t sf time i init s carriers cap =
      (if get_current_size (fs_fifo i s) \<le> 0 then Some (s1, carriers, cap2, True)
       else packets_loop enc sl t sf time i s1 carriers cap2)"
    unfolding schedule_encap_packets_def Let_def using False p by (simp only: if_False bind.bind_lunit prod.case cap2_def)
  with se consider "s' = s1" "cap' = cap2"
    | "packets_loop enc sl t sf time i s1 carriers cap2 = Some (s', carriers', cap', b)"
    by (cases "get_current_size (fs_fifo i s) \<le> 0") simp_all
  then show ?thesis
  proof cases
    case 1
    with s2 show ?thesis by simp
  next
    case 2
    with packets_loop_ok [OF 2 spends_ok [OF s2]] i s1(2) spends_trans [OF s2] show ?thesis by simp
  qed
qed

lemma schedule_encap_defined:
  assumes "handler_accepts enc" "frames_cost t" and ok: "fs_ok t s" and i: "i < length (fs_fifos s)"
  shows "schedule_encap_packets enc sl t sf time i init s carriers cap \<noteq> None"
proof -
  obtain s1 cap1 where p: "schedule_pending t (group_fmt_ids carriers) cap s = Some (s1, cap1)"
    using schedule_pending_defined [OF assms(2) ok] by fast
  from schedule_pending_ok [OF p ok] have "fs_ok t s1" "i < length (fs_fifos s1)"
    using i by (auto dest: spends_ok)
  from packets_loop_ends [OF assms(1,2) this] p show ?thesis
    by (auto simp: schedule_encap_packets_def Let_def)
qed

section \<open>The loops of a superframe\<close>

lemma fifos_loop_ok:
  "fifos_loop enc sl t sf time n vid init is s carriers cap = Some (s', carriers', cap', b) \<Longrightarrow>
   fs_ok t s \<Longrightarrow> \<forall>i \<in> set is. i < length (fs_fifos s) \<Longrightarrow> spends t s (unat cap) s' (unat cap')"
proof (induction "is" arbitrary: s carriers cap)
  case Nil
  then show ?case by (auto intro: spends_refl)
next
  case (Cons i "is")
  show ?case
  proof (cases "fifo_allowed n vid (fs_fifo i s)")
    case False
    with Cons show ?thesis by simp
  next
    case True
    then obtain s1 c1 cap1 ok where se: "schedule_encap_packets enc sl t sf time i init s carriers cap = Some (s1, c1, cap1, ok)"
      using Cons.prems(1) by (auto split: option.splits prod.splits)
    have st: "spends t s (unat cap) s1 (unat cap1)"
      using schedule_encap_ok [OF se Cons.prems(2)] Cons.prems(3) by simp
    consider "s' = s1" "cap' = cap1"
      | "fifos_loop enc sl t sf time n vid init is s1 c1 cap1 = Some (s', carriers', cap', b)"
      using Cons.prems(1) True se by (auto split: if_splits)
    then show ?thesis
    proof cases
      case 2
      have "\<forall>i \<in> set is. i < length (fs_fifos s1)" using Cons.prems(3) st by (simp add: spends_def)
      from spends_trans [OF st Cons.IH [OF 2 spends_ok [OF st] this]] show ?thesis .
    qed (use st in simp)
  qed
qed

lemma fifos_loop_defined:
  assumes "handler_accepts enc" "frames_cost t"
  shows "fs_ok t s \<Longrightarrow> \<forall>i \<in> set is. i < length (fs_fifos s) \<Longrightarrow>
    fifos_loop enc sl t sf time n vid init is s carriers cap \<noteq> None"
proof (induction "is" arbitrary: s carriers cap)
  case Nil
  then show ?case by simp
next
  case (Cons i "is")
  then have i: "i < length (fs_fifos s)" by simp
  from schedule_encap_defined [OF assms Cons.prems(1) i] obtain s1 c1 cap1 ok where
    se: "schedule_encap_packets enc sl t sf time i init s carriers cap = Some (s1, c1, cap1, ok)"
    by (metis not_None_eq prod_cases4)
  have st: "spends t s (unat cap) s1 (unat cap1)" by (rule schedule_encap_ok [OF se Cons.prems(1) i])
  have "\<forall>i \<in> set is. i < length (fs_fifos s1)" using Cons.prems(2) st by (simp add: spends_def)
  with Cons.IH [OF spends_ok [OF st]] Cons.IH [OF Cons.prems(1)] Cons.prems(2) se show ?case by auto
qed

lemma fs_updates_commute: "s\<lparr>fs_incomplete := a, fs_ordered := b\<rparr> = s\<lparr>fs_ordered := b, fs_incomplete := a\<rparr>" by simp

lemma fill_loop_step:
  assumes ok: "fs_ok t (s\<lparr>fs_ordered := p # ps\<rparr>)"
    and a: "add_complete_bbframe t p cap s = Some (s1, cap1, Status_ok)"
  shows "spends t (s\<lparr>fs_ordered := p # ps\<rparr>) (unat cap)
    (s1\<lparr>fs_incomplete := omap_del (frame_modcod s1 p) (fs_incomplete s1), fs_ordered := ps\<rparr>) (unat cap1)"
proof -
  have s1: "s1 = s\<lparr>fs_complete := fs_complete s @ [p]\<rparr>" "unat cap1 + frame_cost t s p = unat cap"
    using add_complete_cases [OF a] by simp_all
  have "filter (\<lambda>q. q \<noteq> p) ps = ps"
    using ok by (auto simp: fs_ok_def fs_refs_def filter_id_conv)
  with ok_complete_ordered [OF ok, of p] s1 show ?thesis by (simp add: spends_def fs_updates_commute)
qed

lemma fill_loop_ok:
  "fill_loop t sf init ps s carriers cap = Some (s', carriers', cap', b) \<Longrightarrow>
   fs_ok t (s\<lparr>fs_ordered := ps\<rparr>) \<Longrightarrow> spends t (s\<lparr>fs_ordered := ps\<rparr>) (unat cap) s' (unat cap')"
proof (induction ps arbitrary: s carriers cap)
  case Nil
  then show ?case by (auto intro: spends_refl)
next
  case (Cons p ps)
  show ?case
  proof (cases "cap \<le> 0")
    case True
    with Cons.prems show ?thesis by (auto intro: spends_refl)
  next
    case False
    then obtain s1 cap1 st where a: "add_complete_bbframe t p cap s = Some (s1, cap1, st)"
      using Cons.prems(1) by (auto split: option.splits prod.splits)
    show ?thesis
    proof (cases st)
      case Status_ok
      let ?s1 = "s1\<lparr>fs_incomplete := omap_del (frame_modcod s1 p) (fs_incomplete s1)\<rparr>"
      have st: "spends t (s\<lparr>fs_ordered := p # ps\<rparr>) (unat cap) (?s1\<lparr>fs_ordered := ps\<rparr>) (unat cap1)"
        using fill_loop_step [OF Cons.prems(2)] a Status_ok by simp
      have "fill_loop t sf init ps ?s1 carriers cap1 = Some (s', carriers', cap', b)"
        using Cons.prems(1) False a Status_ok by simp
      from spends_trans [OF st Cons.IH [OF this spends_ok [OF st]]] show ?thesis .
    next
      case Status_error
      with Cons.prems False a add_complete_cases [OF a] show ?thesis by (auto intro: spends_refl)
    next
      case Status_full
      with Cons.prems False a add_complete_cases [OF a] show ?thesis by (auto intro: spends_refl)
    qed
  qed
qed

lemma fill_loop_defined:
  assumes "frames_cost t"
  shows "\<forall>p \<in> set ps. bb_ok t (fs_frame s p) \<Longrightarrow> fill_loop t sf init ps s carriers cap \<noteq> None"
proof (induction ps arbitrary: s carriers cap)
  case Nil
  then show ?case by simp
next
  case (Cons p ps)
  then obtain s1 cap1 st where a: "add_complete_bbframe t p cap s = Some (s1, cap1, st)"
    using add_complete_defined [OF assms, of s p cap] by auto
  from add_complete_cases [OF a] have "fs_frame s1 = fs_frame s" by auto
  with Cons a show ?case by (cases st) auto
qed

text \<open>The symbols a carrier may spend in a superframe.\<close>

definition vcm_budget :: "time_sf \<Rightarrow> dama_group \<Rightarrow> vol_sym" where
  "vcm_budget sf c = total_capacity c + remaining_capacity c + get_previous_capacity sf c"

lemma get_previous_capacity_remaining [simp]:
  "get_previous_capacity sf (c\<lparr>remaining_capacity := n\<rparr>) = get_previous_capacity sf c"
  by (simp add: get_previous_capacity_def)

abbreviation vcm_init :: "dama_group \<Rightarrow> vol_sym" where
  "vcm_init c \<equiv> total_capacity c + remaining_capacity c"

abbreviation vcm_fifos where
  "vcm_fifos enc sl t sf time n vid s c \<equiv> fifos_loop enc sl t sf time n vid (vcm_init c) [0..<length (fs_fifos s)] s
     (c\<lparr>remaining_capacity := vcm_init c\<rparr>) (vcm_budget sf c)"

abbreviation vcm_fill where
  "vcm_fill t sf c s1 c1 cap1 \<equiv> fill_loop t sf (vcm_init c) (fs_ordered s1) s1
     (c1\<lparr>previous_capacity := cap1, previous_sf := sf + 1\<rparr>) cap1"

lemma schedule_vcm_cases:
  "schedule_vcm enc sl t sf time n vid s c =
     (case vcm_fifos enc sl t sf time n vid s c of
        None \<Rightarrow> None
      | Some (s1, c1, cap1, ok) \<Rightarrow>
          (if \<not> ok then Some (s1, c1, False)
           else
             (case vcm_fill t sf c s1 c1 cap1 of
                None \<Rightarrow> None
              | Some (s2, c2, cap2, ok2) \<Rightarrow>
                  (if \<not> ok2 then Some (s2, c2, False)
                   else Some (s2, c2\<lparr>remaining_capacity := min cap2 (vcm_init c)\<rparr>, True)))))"
proof (cases "vcm_fifos enc sl t sf time n vid s c")
  case None
  then show ?thesis by (simp add: schedule_vcm_def Let_def vcm_budget_def)
next
  case (Some r)
  obtain s1 c1 cap1 ok where r: "r = (s1, c1, cap1, ok)" by (cases r)
  show ?thesis
    using Some r by (cases ok; cases "vcm_fill t sf c s1 c1 cap1") (simp_all add: schedule_vcm_def Let_def vcm_budget_def)
qed

lemma schedule_vcm_ok:
  assumes sv: "schedule_vcm enc sl t sf time n vid s c = Some (s', c', ok)" and s: "fs_ok t s"
  shows "\<exists>left. spends t s (unat (vcm_budget sf c)) s' (unat left) \<and>
    (ok \<longrightarrow> remaining_capacity c' = min left (vcm_init c))"
proof -
  obtain s1 c1 cap1 ok1 where f: "vcm_fifos enc sl t sf time n vid s c = Some (s1, c1, cap1, ok1)"
    using sv by (cases "vcm_fifos enc sl t sf time n vid s c") (auto simp: schedule_vcm_cases)
  have st: "spends t s (unat (vcm_budget sf c)) s1 (unat cap1)" using fifos_loop_ok [OF f s] by simp
  show ?thesis
  proof (cases ok1)
    case False
    with sv f have "s' = s1" "\<not> ok" by (simp_all add: schedule_vcm_cases)
    with st show ?thesis by blast
  next
    case True
    then obtain s2 c2 cap2 ok2 where g: "vcm_fill t sf c s1 c1 cap1 = Some (s2, c2, cap2, ok2)"
      using sv f by (cases "vcm_fill t sf c s1 c1 cap1") (auto simp: schedule_vcm_cases)
    then have "s' = s2" "ok \<longrightarrow> remaining_capacity c' = min cap2 (vcm_init c)"
      using sv f True by (cases ok2; auto simp: schedule_vcm_cases)+
    moreover have "spends t s1 (unat cap1) s2 (unat cap2)" using fill_loop_ok [OF g] spends_ok [OF st] by simp
    ultimately show ?thesis using spends_trans [OF st] by blast
  qed
qed

lemma schedule_vcm_defined:
  assumes "handler_accepts enc" "frames_cost t" and s: "fs_ok t s"
  shows "schedule_vcm enc sl t sf time n vid s c \<noteq> None"
proof -
  have "vcm_fifos enc sl t sf time n vid s c \<noteq> None" by (rule fifos_loop_defined [OF assms(1,2) s]) simp
  then obtain s1 c1 cap1 ok1 where f: "vcm_fifos enc sl t sf time n vid s c = Some (s1, c1, cap1, ok1)" by auto
  then have "fs_ok t s1" using fifos_loop_ok [OF f s] by (simp add: spends_def)
  then have "\<forall>p \<in> set (fs_ordered s1). bb_ok t (fs_frame s1 p)" by (auto simp: fs_ok_def fs_refs_def fs_frame_def)
  then have "vcm_fill t sf c s1 c1 cap1 \<noteq> None" by (rule fill_loop_defined [OF assms(2)])
  then obtain s2 c2 cap2 ok2 where "vcm_fill t sf c s1 c1 cap1 = Some (s2, c2, cap2, ok2)" by auto
  with f show ?thesis by (auto simp: schedule_vcm_cases)
qed

lemma schedule_vcms_ok:
  "schedule_vcms enc sl t sf time n vid s cs = Some (s', cs', ok) \<Longrightarrow> fs_ok t s \<Longrightarrow>
   spends t s (\<Sum>c \<leftarrow> cs. unat (vcm_budget sf c)) s' (if ok then \<Sum>c \<leftarrow> cs'. unat (remaining_capacity c) else 0)"
proof (induction cs arbitrary: vid s cs')
  case Nil
  then show ?case by (auto intro: spends_refl)
next
  case (Cons c cs)
  let ?B = "\<Sum>c \<leftarrow> cs. unat (vcm_budget sf c)"
  obtain s1 c1 ok1 where v: "schedule_vcm enc sl t sf time n vid s c = Some (s1, c1, ok1)"
    using Cons.prems(1) by (auto split: bind_splits)
  obtain left where l: "spends t s (unat (vcm_budget sf c)) s1 (unat left)"
    "ok1 \<longrightarrow> remaining_capacity c1 = min left (vcm_init c)"
    using schedule_vcm_ok [OF v Cons.prems(2)] by blast
  have st: "spends t s (unat (vcm_budget sf c) + ?B) s1 (unat left + ?B)" by (rule spends_more [OF l(1)])
  show ?case
  proof (cases ok1)
    case False
    with Cons.prems(1) v have "s' = s1" "\<not> ok" by auto
    with spends_trans [OF st spends_refl [OF spends_ok [OF st]], of 0] show ?thesis by simp
  next
    case True
    then obtain cs1 where r: "schedule_vcms enc sl t sf time n (vid + 1) s1 cs = Some (s', cs1, ok)"
      "cs' = c1 # cs1"
      using Cons.prems(1) v by (auto split: bind_splits)
    let ?L = "if ok then \<Sum>c \<leftarrow> cs1. unat (remaining_capacity c) else 0"
    have "spends t s1 (?B + unat left) s' (?L + unat left)"
      by (rule spends_more [OF Cons.IH [OF r(1) spends_ok [OF st]]])
    from spends_trans [OF st this [unfolded add.commute [of ?B]]]
    have whole: "spends t s (unat (vcm_budget sf c) + ?B) s' (?L + unat left)" .
    have "unat (remaining_capacity c1) \<le> unat left" using l(2) True by (simp add: unat_min)
    then have "(if ok then \<Sum>c \<leftarrow> cs'. unat (remaining_capacity c) else 0) \<le> ?L + unat left" by (simp add: r(2))
    from spends_trans [OF whole spends_refl [OF spends_ok [OF whole] this]] show ?thesis by simp
  qed
qed

lemma schedule_vcms_defined:
  assumes "handler_accepts enc" "frames_cost t"
  shows "fs_ok t s \<Longrightarrow> schedule_vcms enc sl t sf time n vid s cs \<noteq> None"
proof (induction cs arbitrary: vid s)
  case Nil
  then show ?case by simp
next
  case (Cons c cs)
  then obtain s1 c1 ok1 where v: "schedule_vcm enc sl t sf time n vid s c = Some (s1, c1, ok1)"
    using schedule_vcm_defined [OF assms Cons.prems, of sl sf time n vid c] by auto
  with schedule_vcm_ok [OF v Cons.prems] have "fs_ok t s1" by (auto dest: spends_ok)
  with Cons.IH [of s1 "vid + 1"] v show ?case by auto
qed

lemma schedule_groups_ok:
  "schedule_groups enc sl t sf time s gs = Some (s', gs', ok) \<Longrightarrow> fs_ok t s \<Longrightarrow>
   spends t s (\<Sum>c \<leftarrow> concat (map vcm_carriers gs). unat (vcm_budget sf c)) s'
     (if ok then \<Sum>c \<leftarrow> concat (map vcm_carriers gs'). unat (remaining_capacity c) else 0)"
proof (induction gs arbitrary: s gs')
  case Nil
  then show ?case by (auto intro: spends_refl)
next
  case (Cons g gs)
  let ?A = "\<Sum>c \<leftarrow> vcm_carriers g. unat (vcm_budget sf c)"
  let ?B = "\<Sum>c \<leftarrow> concat (map vcm_carriers gs). unat (vcm_budget sf c)"
  obtain s1 vcms ok1 where v:
    "schedule_vcms enc sl t sf time (length (vcm_carriers g)) 0 s (vcm_carriers g) = Some (s1, vcms, ok1)"
    using Cons.prems(1) by (auto split: bind_splits)
  let ?a = "if ok1 then \<Sum>c \<leftarrow> vcms. unat (remaining_capacity c) else 0"
  have st: "spends t s (?A + ?B) s1 (?a + ?B)"
    by (rule spends_more [OF schedule_vcms_ok [OF v Cons.prems(2)]])
  show ?case
  proof (cases ok1)
    case False
    with Cons.prems(1) v have "s' = s1" "\<not> ok" by auto
    with spends_trans [OF st spends_refl [OF spends_ok [OF st]], of 0] show ?thesis by simp
  next
    case True
    then obtain gs1 where r: "schedule_groups enc sl t sf time s1 gs = Some (s', gs1, ok)"
      "gs' = g\<lparr>vcm_carriers := vcms\<rparr> # gs1"
      using Cons.prems(1) v by (auto simp: Let_def split: bind_splits)
    let ?b = "if ok then \<Sum>c \<leftarrow> concat (map vcm_carriers gs1). unat (remaining_capacity c) else 0"
    have "spends t s1 (?B + ?a) s' (?b + ?a)"
      by (rule spends_more [OF Cons.IH [OF r(1) spends_ok [OF st]]])
    from spends_trans [OF st this [unfolded add.commute [of ?B]]]
    have whole: "spends t s (?A + ?B) s' (?b + ?a)" .
    have "(if ok then \<Sum>c \<leftarrow> concat (map vcm_carriers gs'). unat (remaining_capacity c) else 0) \<le> ?b + ?a"
      using True by (simp add: r(2))
    from spends_trans [OF whole spends_refl [OF spends_ok [OF whole] this]] show ?thesis by simp
  qed
qed

lemma schedule_groups_defined:
  assumes "handler_accepts enc" "frames_cost t"
  shows "fs_ok t s \<Longrightarrow> schedule_groups enc sl t sf time s gs \<noteq> None"
proof (induction gs arbitrary: s)
  case Nil
  then show ?case by simp
next
  case (Cons g gs)
  obtain s1 vcms ok1 where v:
    "schedule_vcms enc sl t sf time (length (vcm_carriers g)) 0 s (vcm_carriers g) = Some (s1, vcms, ok1)"
    using schedule_vcms_defined [OF assms Cons.prems] by fast
  have "fs_ok t s1" using schedule_vcms_ok [OF v Cons.prems] by (rule spends_ok)
  from Cons.IH [OF this] v show ?case by (auto simp: Let_def)
qed

definition category_budget :: "time_sf \<Rightarrow> dama_category \<Rightarrow> nat" where
  "category_budget sf cat = (\<Sum>c \<leftarrow> concat (map vcm_carriers (carriers_groups cat)). unat (vcm_budget sf c))"

definition category_kept :: "dama_category \<Rightarrow> nat" where
  "category_kept cat = (\<Sum>c \<leftarrow> concat (map vcm_carriers (carriers_groups cat)). unat (previous_capacity c))"

lemma keep_capacity_kept:
  "category_kept (cat\<lparr>carriers_groups := map (\<lambda>g. g\<lparr>vcm_carriers := map (keep_capacity sf) (vcm_carriers g)\<rparr>) gs\<rparr>) =
   (\<Sum>c \<leftarrow> concat (map vcm_carriers gs). unat (remaining_capacity c))"
  by (simp add: category_kept_def comp_def map_concat keep_capacity_def)

lemma forward_schedule_spends:
  assumes f: "forward_schedule enc sl t period sf time s cat rem = Some (s', cat', rem', ok)" and s: "fs_ok t s"
  shows "spends t s (category_budget sf cat) s' (if ok then category_kept cat' else 0)"
proof -
  obtain gs ok1 where g: "schedule_groups enc sl t sf time s (carriers_groups cat) = Some (s', gs, ok1)"
    "ok = ok1" "ok \<Longrightarrow> cat' = cat\<lparr>carriers_groups := map (\<lambda>g. g\<lparr>vcm_carriers := map (keep_capacity sf) (vcm_carriers g)\<rparr>) gs\<rparr>"
    using f by (auto simp: forward_schedule_def Let_def split: bind_splits if_splits)
  have "(if ok1 then \<Sum>c \<leftarrow> concat (map vcm_carriers gs). unat (remaining_capacity c) else 0) =
      (if ok then category_kept cat' else 0)"
    using g by (auto simp: keep_capacity_kept)
  with schedule_groups_ok [OF g(1) s] show ?thesis by (simp add: category_budget_def)
qed

lemma forward_schedule_defined:
  assumes "handler_accepts enc" "frames_cost t" "fs_ok t s" "period \<noteq> 0"
  shows "forward_schedule enc sl t period sf time s cat rem \<noteq> None"
  using schedule_groups_defined [OF assms(1-3), of sl sf time "carriers_groups cat"] assms(4)
  by (auto simp: forward_schedule_def Let_def)

section \<open>Properties\<close>

lemma new_fwd_sched_ok: "fs_ok t (new_fwd_sched fifos h)"
  by (simp add: fs_ok_def fs_refs_def new_fwd_sched_def)

text \<open>A gateway with one terminal, one MODCOD of one bit per symbol and one carrier.\<close>

definition qpsk_table :: fmt_table where
  "qpsk_table = [(1, new_fmt_def 0 0 1 ''QPSK'' ''1/2'' 1 1 None)]"

definition one_st :: st_list where
  "one_st = fst (add_st new_st_list 3 1)"

definition one_carrier :: "u32 \<Rightarrow> dama_category" where
  "one_carrier n =
     (let g = \<lparr>group_members = [(1, 1)], group_modcods = qpsk_table\<rparr>;
          c = add_vcm g 1 (new_carriers_dama 1 g 1 1 DAMA)
      in (new_category ''Standard'' DAMA)\<lparr>carriers_groups :=
        [c\<lparr>vcm_carriers := map (\<lambda>v. v\<lparr>carriers_number := 1, capacity_sym := n\<rparr>) (vcm_carriers c)\<rparr>]\<rparr>)"

definition acm_fifo :: "bytes \<Rightarrow> pkt_fifo" where
  "acm_fifo d = fst (push (new_fifo 0 ''NM'' ''ACM'' 10)
     \<lparr>fe_elem = (new_packet d)\<lparr>dst_tal_id := 3\<rparr>, tick_in = 0, tick_out = 0\<rparr>)"

text \<open>A scheme that never refuses and puts whole packets only.\<close>

definition whole_packets :: "unit encapsulate" where
  "whole_packets h p n new =
     (if length (cont_data p) \<le> n then (h, True, Some p, None) else (h, True, None, Some p))"

lemma whole_packets_accepts: "handler_accepts whole_packets"
  by (simp add: handler_accepts_def whole_packets_def)

lemma qpsk_frame_sym: "bbframe_size_sym qpsk_table (bbframe_size_bytes qpsk_table 1) 1 = Some (True, 32208)"
proof -
  have "fl32 (1 :: rat) = 1" "fl32 (32208 :: rat) = 32208"
    using fl_of_int [of 1 24] fl_of_int [of 32208 24] by simp_all
  then show ?thesis
    by (simp add: qpsk_table_def bbframe_size_sym_def bbframe_size_bytes_def get_definition_def
        do_fmt_id_exist_def table_spectral_efficiency_def get_payload_size_def payload_sizes_def
        new_fmt_def_def Let_def trunc_def)
qed

lemma qpsk_frames_cost: "frames_cost qpsk_table"
  using qpsk_frame_sym by (simp add: frames_cost_def qpsk_table_def)

lemma one_carrier_budget: "category_budget sf (one_carrier 40000) = 40000"
  by (simp add: category_budget_def one_carrier_def vcm_budget_def add_vcm_def new_carriers_dama_def
      new_dama_group_def new_carriers_group_def new_category_def dama_group.defs carriers_group.defs
      total_capacity_def get_previous_capacity_def Let_def)

text \<open>C14: A forward superframe never sends more than its capacity.  The symbols of all the BB frames
  completed by \<^verbatim>\<open>schedule\<close>, and what the carriers then keep for the next superframe when it
  succeeds, are at most the capacities of the carriers with what they had kept from the last one.\<close>

theorem forward_capacity:
  assumes "forward_schedule enc sl t period sf time s cat rem = Some (s', cat', rem', ok)" and "fs_ok t s"
  shows "\<exists>new. fs_complete s' = fs_complete s @ new \<and>
    sum_list (map (frame_cost t s') new) + (if ok then category_kept cat' else 0) \<le> category_budget sf cat"
  using forward_schedule_spends [OF assms] by (auto simp: spends_def add.commute)

theorem forward_capacity_witness:
  "\<exists>s' cat' rem' ok. forward_schedule whole_packets one_st qpsk_table 53 7 0
       (new_fwd_sched [(0, acm_fifo [1, 2, 3])] ()) (one_carrier 40000) 0 = Some (s', cat', rem', ok) \<and>
     sum_list (map (frame_cost qpsk_table s') (fs_complete s')) \<le> 40000"
proof -
  let ?s = "new_fwd_sched [(0, acm_fifo [1, 2, 3])] ()"
  obtain s' cat' rem' ok where
    f: "forward_schedule whole_packets one_st qpsk_table 53 7 0 ?s (one_carrier 40000) 0 = Some (s', cat', rem', ok)"
    using forward_schedule_defined [OF whole_packets_accepts qpsk_frames_cost new_fwd_sched_ok,
        of 53 one_st 7 0 "[(0, acm_fifo [1, 2, 3])]" "()" "one_carrier 40000" 0] by auto
  from forward_capacity [OF f new_fwd_sched_ok] show ?thesis
    using f by (auto simp: one_carrier_budget new_fwd_sched_def)
qed

text \<open>C17: A forward frame has one owner.  After \<^verbatim>\<open>schedule\<close>, no frame was handed over twice and none
  that was handed over is still pending or under construction; the frames under construction are
  exactly those in the map, at the MODCOD their header carries, so no MODCOD has two.\<close>

theorem forward_frames_once:
  assumes "forward_schedule enc sl t period sf time s cat rem = Some (s', cat', rem', ok)" and "fs_ok t s"
  shows "distinct (fs_complete s' @ fs_pending s' @ fs_ordered s') \<and>
    (\<forall>m p. map_of (fs_incomplete s') m = Some p \<longleftrightarrow> p \<in> set (fs_ordered s') \<and> frame_modcod s' p = m)"
  using spends_ok [OF forward_schedule_spends [OF assms]] by (simp add: fs_ok_def fs_refs_def)

theorem forward_frames_once_witness:
  "\<exists>s' cat' rem' ok. forward_schedule whole_packets one_st qpsk_table 53 7 0
       (new_fwd_sched [(0, acm_fifo [1, 2, 3])] ()) (one_carrier 10) 0 = Some (s', cat', rem', ok) \<and>
     distinct (fs_complete s' @ fs_pending s' @ fs_ordered s')"
proof -
  let ?s = "new_fwd_sched [(0, acm_fifo [1, 2, 3])] ()"
  obtain s' cat' rem' ok where
    f: "forward_schedule whole_packets one_st qpsk_table 53 7 0 ?s (one_carrier 10) 0 = Some (s', cat', rem', ok)"
    using forward_schedule_defined [OF whole_packets_accepts qpsk_frames_cost new_fwd_sched_ok,
        of 53 one_st 7 0 "[(0, acm_fifo [1, 2, 3])]" "()" "one_carrier 10" 0] by auto
  from forward_frames_once [OF f new_fwd_sched_ok] f show ?thesis by blast
qed

text \<open>C32: The forward scheduling ends.  When the encapsulation refuses no packet, every frame of a known
  MODCOD takes at least one symbol and the period is not zero, \<^verbatim>\<open>schedule\<close> returns, for all
  FIFOs, terminals and carriers.\<close>

theorem forward_schedule_returns:
  assumes "handler_accepts enc" "frames_cost t" "fs_ok t s" "period \<noteq> 0"
  shows "\<exists>s' cat' rem' ok. forward_schedule enc sl t period sf time s cat rem = Some (s', cat', rem', ok)"
  using forward_schedule_defined [OF assms, of sl sf time cat rem] by auto

theorem forward_schedule_returns_witness:
  "\<exists>s' cat' rem' ok. forward_schedule whole_packets one_st qpsk_table 53 7 0
     (new_fwd_sched [(0, acm_fifo [1, 2, 3])] ()) (one_carrier 40000) 0 = Some (s', cat', rem', ok)"
  using forward_schedule_returns [OF whole_packets_accepts qpsk_frames_cost new_fwd_sched_ok, of 53] by auto

text \<open>A packet the encapsulation refuses is used after it was deleted.  When the first packet of a FIFO
  is due, its frame is found and \<^verbatim>\<open>encapNextPacket\<close> fails, the element is deleted twice or written
  to after its deletion: the behaviour is undefined.\<close>

theorem refused_packet_faults:
  assumes "get_current_size (fs_fifo i s) \<noteq> 0" "get_tick_out (fs_fifo i s) \<le> time"
    and "pop (fs_fifo i s) = (f, Some e)" "packet_destination sl (fe_elem e) = Some tal"
    and "get_incomplete_bbframe sl t tal carriers (set_fs_fifo i f s) = (s2, Some p)"
    and "enc (fs_handler s2) (fe_elem e) (get_free_space (fs_frame s2 p)) (num_packets (fs_frame s2 p) = 0) =
      (h, False, data, rest)"
  shows "packets_loop enc sl t sf time i s carriers cap = None"
proof -
  have "take_packet enc sl t sf i s carriers cap = None"
    using assms(3-6) by (simp add: take_packet_def put_packet_def)
  with assms(1,2) show ?thesis by (subst packets_loop.simps) simp
qed

theorem refused_packet_faults_witness:
  "let c = hd (vcm_carriers (hd (carriers_groups (one_carrier 40000))))
   in packets_loop (encap_next_packet cut_anywhere) one_st qpsk_table 7 0 0
        (new_fwd_sched [(0, acm_fifo [])] ()) c 40000 = None"
proof -
  let ?s = "new_fwd_sched [(0, acm_fifo [])] ()"
  let ?c = "hd (vcm_carriers (hd (carriers_groups (one_carrier 40000))))"
  let ?e = "\<lparr>fe_elem = (new_packet [])\<lparr>dst_tal_id := 3\<rparr>, tick_in = 0, tick_out = 0\<rparr>"
  have q: "queue (fs_fifo 0 ?s) = [?e]"
    by (simp add: fs_fifo_def new_fwd_sched_def acm_fifo_def push_def new_fifo_def Let_def)
  then obtain f where f: "pop (fs_fifo 0 ?s) = (f, Some ?e)" using pop_Cons by fast
  have dst: "packet_destination one_st (fe_elem ?e) = Some 3"
    by (simp add: packet_destination_def BROADCAST_DST_def)
  have st: "is_st_present one_st 3" "list_modcod_id one_st 3 = 1"
    by (simp_all add: one_st_def add_st_def new_st_list_def is_st_present_def del_st_def list_modcod_id_def
        new_st_fmt_def)
  have fl: "fl32 (1 :: rat) = 1" using fl_of_int [of 1 24] by simp
  have "nearest_fmt_id ?c 1 = 1"
    by (simp add: nearest_fmt_id_def one_carrier_def add_vcm_def new_dama_group_def new_carriers_group_def
        carriers_group.defs get_nearest_def table_es_n0_def get_definition_def qpsk_table_def new_fmt_def_def
        new_carriers_dama_def dama_group.defs Let_def fl)
  then obtain s2 p where g: "get_incomplete_bbframe one_st qpsk_table 3 ?c (set_fs_fifo 0 f ?s) = (s2, Some p)"
    by (cases "create_bbframe qpsk_table 1 (set_fs_fifo 0 f ?s)")
      (simp add: get_incomplete_bbframe_def st set_fs_fifo_def new_fwd_sched_def)
  have "get_current_size (fs_fifo 0 ?s) \<noteq> 0" "get_tick_out (fs_fifo 0 ?s) \<le> 0"
    using q by (simp_all add: get_current_size_def get_tick_out_def)
  from refused_packet_faults [OF this f dst g, of "encap_next_packet cut_anywhere" "()" None None 7 40000]
  show ?thesis by (simp add: encap_next_packet_def cut_anywhere_def new_packet_def new_container_def net_container.defs)
qed

end
