(* ===== verification/Scpc_Schedule.thy ===== *)
theory Scpc_Schedule
  imports Forward_Capacity
begin

text \<open>
  The scheduling of a terminal that owns its carriers, SCPC (\<^verbatim>\<open>opensand-core/src/dvb/dama/ScpcScheduling.cpp\<close>):
  BB frames for the gateway, as on the forward link.  Where the code repeats that of
  \<^verbatim>\<open>ForwardSchedulingS2.cpp\<close> the definitions are equal to those of \<open>Forward_Schedule\<close>; the state has
  the same fields.  The differences are the one destination, the handling of the pending frames, which are
  kept only when the carriers do not support their MODCOD, and the capacity, kept in the carriers from one
  FIFO to the next.
\<close>

section \<open>The size of the frames\<close>

definition scpc_payload_size :: "string \<Rightarrow> nat" where
  "scpc_payload_size rate = get_payload_size rate"

definition scpc_size_bytes :: "fmt_table \<Rightarrow> u32 \<Rightarrow> nat" where
  "scpc_size_bytes t modcod =
     (case get_definition t (ucast modcod) of
        None \<Rightarrow> scpc_payload_size ''''
      | Some d \<Rightarrow> scpc_payload_size (coding_type d))"

definition scpc_size_sym :: "fmt_table \<Rightarrow> nat \<Rightarrow> u32 \<Rightarrow> (bool \<times> vol_sym) option" where
  "scpc_size_sym t n modcod = bbframe_size_sym t n modcod"

section \<open>Frames\<close>

definition scpc_create_bbframe :: "fmt_table \<Rightarrow> u32 \<Rightarrow> 'h fwd_sched \<Rightarrow> 'h fwd_sched \<times> nat" where
  "scpc_create_bbframe t modcod s =
     (let f = set_max_frame_size (scpc_size_bytes t modcod) (set_modcod_id (ucast modcod) new_bb_frame)
      in (s\<lparr>fs_heap := fs_heap s @ [f]\<rparr>, length (fs_heap s)))"

text \<open>The frame for the gateway, with the most robust MODCOD of the table when the carriers cannot serve it.\<close>

definition scpc_modcod :: "st_list \<Rightarrow> fmt_table \<Rightarrow> tal_id \<Rightarrow> 'a carriers_group_scheme \<Rightarrow> u32" where
  "scpc_modcod sl t gw carriers =
     (let near = nearest_fmt_id carriers (ucast (list_modcod_id sl gw))
      in if near = 0 then ucast (get_min_id t) else near)"

definition scpc_incomplete_bbframe ::
  "st_list \<Rightarrow> fmt_table \<Rightarrow> tal_id \<Rightarrow> 'a carriers_group_scheme \<Rightarrow> 'h fwd_sched \<Rightarrow> 'h fwd_sched \<times> nat" where
  "scpc_incomplete_bbframe sl t gw carriers s =
     (let modcod = scpc_modcod sl t gw carriers
      in case map_of (fs_incomplete s) modcod of
           Some p \<Rightarrow> (s, p)
         | None \<Rightarrow>
             (let (s1, p) = scpc_create_bbframe t modcod s
              in (s1\<lparr>fs_incomplete := omap_put modcod p (fs_incomplete s1),
                     fs_ordered := fs_ordered s1 @ [p]\<rparr>, p)))"

definition scpc_add_complete ::
  "fmt_table \<Rightarrow> nat \<Rightarrow> vol_sym \<Rightarrow> 'h fwd_sched \<Rightarrow> ('h fwd_sched \<times> vol_sym \<times> sched_status) option" where
  "scpc_add_complete t p capacity s = do {
     (ok, sym) \<leftarrow> scpc_size_sym t (max_size (fs_frame s p)) (frame_modcod s p);
     (if \<not> ok then Some (s, capacity, Status_error)
      else if capacity < sym then Some (s, capacity, Status_full)
      else Some (s\<lparr>fs_complete := fs_complete s @ [p]\<rparr>, capacity - sym, Status_ok)) }"

section \<open>Pending frames\<close>

text \<open>A frame that does not fit is not kept.\<close>

fun scpc_pending_loop ::
  "fmt_table \<Rightarrow> fmt_id list \<Rightarrow> nat list \<Rightarrow> nat list \<Rightarrow> vol_sym \<Rightarrow> 'h fwd_sched \<Rightarrow>
   ('h fwd_sched \<times> vol_sym \<times> nat list) option" where
  "scpc_pending_loop t supported [] new_pending capacity s = Some (s, capacity, new_pending)"
| "scpc_pending_loop t supported (p # ps) new_pending capacity s =
     (if frame_modcod s p \<in> ucast ` set supported
      then do {
        (s1, capacity1, status) \<leftarrow> scpc_add_complete t p capacity s;
        scpc_pending_loop t supported ps new_pending capacity1 s1 }
      else scpc_pending_loop t supported ps (new_pending @ [p]) capacity s)"

definition scpc_schedule_pending ::
  "fmt_table \<Rightarrow> fmt_id list \<Rightarrow> vol_sym \<Rightarrow> 'h fwd_sched \<Rightarrow> ('h fwd_sched \<times> vol_sym) option" where
  "scpc_schedule_pending t supported capacity s =
     (if fs_pending s = [] then Some (s, capacity)
      else do {
        (s1, capacity1, new_pending) \<leftarrow> scpc_pending_loop t supported (fs_pending s) [] capacity s;
        Some (s1\<lparr>fs_pending := new_pending\<rparr>, capacity1) })"

section \<open>The packets of a FIFO\<close>

text \<open>As on the forward link, but a packet of which nothing is made stops the program (an assertion), and
  the capacity is used up when the carrier is full.\<close>

definition scpc_put_packet ::
  "'h encapsulate \<Rightarrow> fmt_table \<Rightarrow> time_sf \<Rightarrow> nat \<Rightarrow> pkt_elem \<Rightarrow> nat \<Rightarrow> 'h fwd_sched \<Rightarrow> carriers_dama \<Rightarrow> vol_sym \<Rightarrow>
   ('h fwd_sched \<times> carriers_dama \<times> vol_sym \<times> packet_result) option" where
  "scpc_put_packet enc t sf i elem p s carriers capacity =
     (let frame = fs_frame s p;
          (h, ret, data, remaining) = enc (fs_handler s) (fe_elem elem) (get_free_space frame)
            (num_packets frame = 0)
      in if data = None \<and> remaining = None then None
         else do {
           (s1, carriers1, capacity1, r) \<leftarrow> put_packet enc t sf i elem p s carriers capacity;
           Some (s1, carriers1, if r = Carrier_full then 0 else capacity1, r) })"

definition scpc_take_packet ::
  "'h encapsulate \<Rightarrow> st_list \<Rightarrow> fmt_table \<Rightarrow> tal_id \<Rightarrow> time_sf \<Rightarrow> nat \<Rightarrow> 'h fwd_sched \<Rightarrow> carriers_dama \<Rightarrow> vol_sym \<Rightarrow>
   ('h fwd_sched \<times> carriers_dama \<times> vol_sym \<times> packet_result) option" where
  "scpc_take_packet enc sl t gw sf i s carriers capacity = do {
     let (f, e) = pop (fs_fifo i s);
     elem \<leftarrow> e;
     let (s1, p) = scpc_incomplete_bbframe sl t gw carriers (set_fs_fifo i f s);
     scpc_put_packet enc t sf i elem p s1 carriers capacity }"

partial_function (option) scpc_packets_loop ::
  "'h encapsulate \<Rightarrow> st_list \<Rightarrow> fmt_table \<Rightarrow> tal_id \<Rightarrow> time_sf \<Rightarrow> int \<Rightarrow> nat \<Rightarrow> 'h fwd_sched \<Rightarrow> carriers_dama \<Rightarrow>
   vol_sym \<Rightarrow> ('h fwd_sched \<times> carriers_dama \<times> vol_sym \<times> bool) option" where
  "scpc_packets_loop enc sl t gw sf time i s carriers capacity =
     (if get_current_size (fs_fifo i s) \<le> 0 \<or> get_tick_out (fs_fifo i s) > time
      then Some (s, carriers, capacity, True)
      else
        (case scpc_take_packet enc sl t gw sf i s carriers capacity of
           None \<Rightarrow> None
         | Some (s1, carriers1, capacity1, r) \<Rightarrow>
             (if r = Packet_error then Some (s1, carriers1, capacity1, False)
              else if r = Carrier_full then Some (s1, carriers1, capacity1, True)
              else scpc_packets_loop enc sl t gw sf time i s1 carriers1 capacity1)))"

definition reset_previous :: "carriers_dama \<Rightarrow> carriers_dama" where
  "reset_previous c = c\<lparr>previous_capacity := 0, previous_sf := 0\<rparr>"

definition scpc_fifo ::
  "'h encapsulate \<Rightarrow> st_list \<Rightarrow> fmt_table \<Rightarrow> tal_id \<Rightarrow> time_sf \<Rightarrow> int \<Rightarrow> nat \<Rightarrow> 'h fwd_sched \<Rightarrow> carriers_dama \<Rightarrow>
   ('h fwd_sched \<times> carriers_dama \<times> bool) option" where
  "scpc_fifo enc sl t gw sf time i s c =
     (let max_to_send = get_current_size (fs_fifo i s);
          capacity = remaining_capacity c + get_previous_capacity sf c
      in if max_to_send \<le> 0 \<and> fs_pending s = []
         then Some (s, (reset_previous c)\<lparr>remaining_capacity := capacity\<rparr>, True)
         else
           (case scpc_schedule_pending t (group_fmt_ids c) capacity s of
              None \<Rightarrow> None
            | Some (s1, capacity1) \<Rightarrow>
                (let capacity2 = (if fs_incomplete s1 = [] then min (remaining_capacity c) capacity1 else capacity1)
                 in if max_to_send \<le> 0
                    then Some (s1, (reset_previous c)\<lparr>remaining_capacity := capacity2\<rparr>, True)
                    else
                      (case scpc_packets_loop enc sl t gw sf time i s1 (reset_previous c) capacity2 of
                         None \<Rightarrow> None
                       | Some (s2, c2, capacity3, ok) \<Rightarrow>
                           Some (s2, if ok then c2\<lparr>remaining_capacity := capacity3\<rparr> else c2, ok)))))"

section \<open>A superframe\<close>

fun scpc_fifos_loop ::
  "'h encapsulate \<Rightarrow> st_list \<Rightarrow> fmt_table \<Rightarrow> tal_id \<Rightarrow> time_sf \<Rightarrow> int \<Rightarrow> nat list \<Rightarrow> 'h fwd_sched \<Rightarrow> carriers_dama \<Rightarrow>
   ('h fwd_sched \<times> carriers_dama \<times> bool) option" where
  "scpc_fifos_loop enc sl t gw sf time [] s c = Some (s, c, True)"
| "scpc_fifos_loop enc sl t gw sf time (i # is) s c =
     (case scpc_fifo enc sl t gw sf time i s c of
        None \<Rightarrow> None
      | Some (s1, c1, ok) \<Rightarrow>
          (if \<not> ok then Some (s1, c1, False) else scpc_fifos_loop enc sl t gw sf time is s1 c1))"

definition scpc_carrier ::
  "'h encapsulate \<Rightarrow> st_list \<Rightarrow> fmt_table \<Rightarrow> tal_id \<Rightarrow> time_sf \<Rightarrow> int \<Rightarrow> 'h fwd_sched \<Rightarrow> carriers_dama \<Rightarrow>
   ('h fwd_sched \<times> carriers_dama \<times> bool) option" where
  "scpc_carrier enc sl t gw sf time s c =
     (let init = total_capacity c + remaining_capacity c
      in case scpc_fifos_loop enc sl t gw sf time [0..<length (fs_fifos s)] s (c\<lparr>remaining_capacity := init\<rparr>) of
           None \<Rightarrow> None
         | Some (s1, c1, ok) \<Rightarrow>
             (if \<not> ok then Some (s1, c1, False)
              else
                (case fill_loop t sf init (fs_ordered s1) s1 c1 (remaining_capacity c1) of
                   None \<Rightarrow> None
                 | Some (s2, c2, capacity2, ok2) \<Rightarrow>
                     (if \<not> ok2 then Some (s2, c2, False)
                      else Some (s2, c2\<lparr>remaining_capacity := min capacity2 init\<rparr>, True)))))"

fun scpc_carriers ::
  "'h encapsulate \<Rightarrow> st_list \<Rightarrow> fmt_table \<Rightarrow> tal_id \<Rightarrow> time_sf \<Rightarrow> int \<Rightarrow> 'h fwd_sched \<Rightarrow> carriers_dama list \<Rightarrow>
   ('h fwd_sched \<times> carriers_dama list \<times> bool) option" where
  "scpc_carriers enc sl t gw sf time s [] = Some (s, [], True)"
| "scpc_carriers enc sl t gw sf time s (c # cs) =
     (case scpc_carrier enc sl t gw sf time s c of
        None \<Rightarrow> None
      | Some (s1, c1, ok) \<Rightarrow>
          (if \<not> ok then Some (s1, c1 # cs, False)
           else
             (case scpc_carriers enc sl t gw sf time s1 cs of
                None \<Rightarrow> None
              | Some (s2, cs', ok2) \<Rightarrow> Some (s2, c1 # cs', ok2))))"

definition scpc_schedule ::
  "'h encapsulate \<Rightarrow> st_list \<Rightarrow> fmt_table \<Rightarrow> tal_id \<Rightarrow> time_ms \<Rightarrow> time_sf \<Rightarrow> int \<Rightarrow> 'h fwd_sched \<Rightarrow> dama_category \<Rightarrow>
   u32 \<Rightarrow> ('h fwd_sched \<times> dama_category \<times> u32 \<times> bool) option" where
  "scpc_schedule enc sl t gw period sf time s cat remaining =
     (case scpc_carriers enc sl t gw sf time s (carriers_groups cat) of
        None \<Rightarrow> None
      | Some (s1, cs, ok) \<Rightarrow>
          (if \<not> ok then Some (s1, cat\<lparr>carriers_groups := cs\<rparr>, remaining, False)
           else if period = 0 \<and> (\<exists>c \<in> set cs. length (group_fmt_ids c) = 1) then None
           else Some (s1, cat\<lparr>carriers_groups := map (\<lambda>c. c\<lparr>remaining_capacity := 0\<rparr>) cs\<rparr>,
             remaining + sum_list (map remaining_capacity cs), True)))"

text \<open>The constructor compares the frames with the carriers, and divides by the number of carriers.\<close>

definition scpc_check_size :: "fmt_table \<Rightarrow> carriers_dama \<Rightarrow> fmt_id list option" where
  "scpc_check_size t c = do {
     carrier_size \<leftarrow> udiv (total_capacity c) (carriers_number c);
     foldl (\<lambda>acc i. do {
         bad \<leftarrow> acc;
         (ok, sym) \<leftarrow> scpc_size_sym t (scpc_size_bytes t (ucast i)) (ucast i);
         Some (if ok \<and> carrier_size < sym then bad @ [i] else bad) })
       (Some []) (group_fmt_ids c) }"

section \<open>What is shared with the forward link\<close>

lemma scpc_same:
  "scpc_payload_size = get_payload_size" "scpc_size_bytes = bbframe_size_bytes" "scpc_size_sym = bbframe_size_sym"
  "scpc_create_bbframe = create_bbframe" "scpc_add_complete = add_complete_bbframe"
  by (simp_all add: fun_eq_iff scpc_payload_size_def scpc_size_bytes_def bbframe_size_bytes_def scpc_size_sym_def
      scpc_create_bbframe_def create_bbframe_def scpc_add_complete_def add_complete_bbframe_def split: option.split)

lemma scpc_incomplete_ok:
  assumes g: "scpc_incomplete_bbframe sl t gw carriers s = (s', p)" and ok: "fs_ok t s"
  shows "spends t s cap s' cap \<and> fs_fifos s' = fs_fifos s \<and> p \<in> set (fs_ordered s')"
proof -
  have "\<exists>m :: u8. scpc_modcod sl t gw carriers = ucast m"
    unfolding scpc_modcod_def nearest_fmt_id_def Let_def by metis
  then obtain m :: u8 where m: "scpc_modcod sl t gw carriers = ucast m" by blast
  show ?thesis
  proof (cases "map_of (fs_incomplete s) (ucast m)")
    case None
    then obtain s1 where s1: "create_bbframe t (ucast m) s = (s1, p)"
      "s' = s1\<lparr>fs_incomplete := omap_put (ucast m) p (fs_incomplete s1), fs_ordered := fs_ordered s1 @ [p]\<rparr>"
      using g m by (auto simp: scpc_incomplete_bbframe_def scpc_same Let_def split: prod.splits)
    from new_bbframe_ok [OF ok None s1] show ?thesis .
  next
    case (Some q)
    with g m have "s' = s" "q = p" by (simp_all add: scpc_incomplete_bbframe_def Let_def)
    with Some ok show ?thesis by (auto simp: spends_refl fs_ok_def)
  qed
qed

lemma scpc_pending_loop_ok:
  "scpc_pending_loop t supported ps np cap s = Some (s', cap', np') \<Longrightarrow> fs_ok t (s\<lparr>fs_pending := np @ ps\<rparr>) \<Longrightarrow>
   spends t (s\<lparr>fs_pending := np @ ps\<rparr>) (unat cap) (s'\<lparr>fs_pending := np'\<rparr>) (unat cap') \<and> fs_fifos s' = fs_fifos s \<and>
   np' = np @ filter (\<lambda>p. frame_modcod s p \<notin> ucast ` set supported) ps \<and>
   (\<forall>p \<in> set (fs_complete s') - set (fs_complete s). frame_cost t s p \<le> unat cap) \<and> fs_ordered s' = fs_ordered s"
proof (induction ps arbitrary: np cap s)
  case Nil
  then show ?case by (auto intro: spends_refl)
next
  case (Cons p ps)
  show ?case
  proof (cases "frame_modcod s p \<in> ucast ` set supported")
    case False
    with Cons.prems have "scpc_pending_loop t supported ps (np @ [p]) cap s = Some (s', cap', np')"
      "fs_ok t (s\<lparr>fs_pending := (np @ [p]) @ ps\<rparr>)" by simp_all
    from Cons.IH [OF this] False show ?thesis by auto
  next
    case True
    then obtain s1 cap1 st where a: "add_complete_bbframe t p cap s = Some (s1, cap1, st)"
      and r: "scpc_pending_loop t supported ps np cap1 s1 = Some (s', cap', np')"
      using Cons.prems(1) by (auto simp: scpc_same split: bind_splits)
    have st: "spends t (s\<lparr>fs_pending := np @ p # ps\<rparr>) (unat cap) (s1\<lparr>fs_pending := np @ ps\<rparr>) (unat cap1)"
      using add_complete_cases [OF a] Cons.prems(2) by (auto simp: spends_def fs_ok_def fs_refs_def)
    have s1: "fs_fifos s1 = fs_fifos s" "frame_modcod s1 = frame_modcod s" "frame_cost t s1 = frame_cost t s"
      "fs_ordered s1 = fs_ordered s" "unat cap1 \<le> unat cap"
      "\<forall>q \<in> set (fs_complete s1) - set (fs_complete s). frame_cost t s q \<le> unat cap"
      using add_complete_cases [OF a] by auto
    have "\<forall>q \<in> set (fs_complete s') - set (fs_complete s). frame_cost t s q \<le> unat cap"
    proof
      fix q assume q: "q \<in> set (fs_complete s') - set (fs_complete s)"
      show "frame_cost t s q \<le> unat cap"
      proof (cases "q \<in> set (fs_complete s1)")
        case False
        with q Cons.IH [OF r spends_ok [OF st]] s1(3) have "frame_cost t s q \<le> unat cap1" by auto
        with s1(5) show ?thesis by simp
      qed (use q s1(6) in simp)
    qed
    moreover note Cons.IH [OF r spends_ok [OF st]]
    ultimately show ?thesis using s1 True by (auto intro: spends_trans [OF st])
  qed
qed

lemma scpc_schedule_pending_ok:
  assumes "scpc_schedule_pending t supported cap s = Some (s', cap')" and ok: "fs_ok t s"
  shows "spends t s (unat cap) s' (unat cap') \<and> fs_fifos s' = fs_fifos s \<and>
    fs_pending s' = filter (\<lambda>p. frame_modcod s p \<notin> ucast ` set supported) (fs_pending s) \<and>
    (\<forall>p \<in> set (fs_complete s') - set (fs_complete s). frame_cost t s p \<le> unat cap) \<and> fs_ordered s' = fs_ordered s"
proof (cases "fs_pending s = []")
  case True
  then show ?thesis using assms by (auto simp: scpc_schedule_pending_def intro: spends_refl)
next
  case False
  then obtain s1 np where "scpc_pending_loop t supported (fs_pending s) [] cap s = Some (s1, cap', np)"
    "s' = s1\<lparr>fs_pending := np\<rparr>"
    using assms(1) by (auto simp: scpc_schedule_pending_def split: bind_splits)
  with scpc_pending_loop_ok [of t supported "fs_pending s" "[]" cap s s1 cap' np] ok show ?thesis by auto
qed

lemma scpc_put_packet_ok:
  assumes pp: "scpc_put_packet enc t sf i elem p s carriers cap = Some (s', carriers', cap', r)"
    and ok: "fs_ok t s" and p: "p \<in> set (fs_ordered s)"
  shows "spends t s (unat cap) s' (unat cap') \<and>
    (frames_cost t \<and> r = Packet_done \<longrightarrow> unat cap' < unat cap \<or> cap' = cap \<and> fs_fifos s' = fs_fifos s)"
proof -
  obtain cap1 where c: "put_packet enc t sf i elem p s carriers cap = Some (s', carriers', cap1, r)"
    "cap' = (if r = Carrier_full then 0 else cap1)"
    using pp by (auto simp: scpc_put_packet_def Let_def split: prod.splits if_splits bind_splits)
  note pk = put_packet_ok [OF c(1) ok p]
  have "unat cap' \<le> unat cap1" by (simp add: c(2))
  with pk have "spends t s (unat cap) s' (unat cap')" by (meson spends_ok spends_refl spends_trans)
  with pk c(2) show ?thesis by auto
qed

lemma scpc_take_packet_ok:
  assumes tp: "scpc_take_packet enc sl t gw sf i s carriers cap = Some (s', carriers', cap', r)"
    and ok: "fs_ok t s" and i: "i < length (fs_fifos s)"
  shows "spends t s (unat cap) s' (unat cap') \<and> (frames_cost t \<and> r = Packet_done \<longrightarrow>
    unat cap' < unat cap \<or> cap' = cap \<and> length (queue (fs_fifo i s')) < length (queue (fs_fifo i s)))"
proof -
  obtain e q where q: "queue (fs_fifo i s) = e # q"
    using tp by (cases "queue (fs_fifo i s)") (auto simp: scpc_take_packet_def pop_def)
  then obtain f where f: "pop (fs_fifo i s) = (f, Some e)" "queue f = q" using pop_Cons by blast
  have st1: "spends t s (unat cap) (set_fs_fifo i f s) (unat cap)" by (rule spends_fields(2) [OF ok])
  obtain s2 p where g: "scpc_incomplete_bbframe sl t gw carriers (set_fs_fifo i f s) = (s2, p)" by fastforce
  note gi = scpc_incomplete_ok [OF g spends_ok [OF st1]]
  have st2: "spends t s (unat cap) s2 (unat cap)" using gi spends_trans [OF st1] by blast
  have "queue (fs_fifo i s2) = q" using gi i f by (metis fs_fifo_cong fs_fifo_set)
  then have l: "length (queue (fs_fifo i s2)) < length (queue (fs_fifo i s))" using q by simp
  have "scpc_put_packet enc t sf i e p s2 carriers cap = Some (s', carriers', cap', r)"
    using tp f g by (simp add: scpc_take_packet_def)
  from scpc_put_packet_ok [OF this spends_ok [OF st2]] gi have pp: "spends t s2 (unat cap) s' (unat cap')"
    "frames_cost t \<Longrightarrow> r = Packet_done \<Longrightarrow> unat cap' < unat cap \<or> cap' = cap \<and> fs_fifos s' = fs_fifos s2" by blast+
  with spends_trans [OF st2 pp(1)] l show ?thesis by (metis fs_fifo_cong)
qed

text \<open>The encapsulation fails on no packet and makes something of each; its interface does not promise
  it, so this is only a case of the lemmas below.\<close>

definition handler_makes :: "'h encapsulate \<Rightarrow> bool" where
  "handler_makes enc \<longleftrightarrow> (\<forall>h p n new h' ret data rest. enc h p n new = (h', ret, data, rest) \<longrightarrow>
     ret \<and> (data \<noteq> None \<or> rest \<noteq> None))"

lemma handler_makes_accepts: "handler_makes enc \<Longrightarrow> handler_accepts enc"
  unfolding handler_makes_def handler_accepts_def by (metis prod.collapse)

lemma scpc_take_packet_defined:
  assumes "handler_makes enc" "frames_cost t" and ok: "fs_ok t s"
    and q: "queue (fs_fifo i s) \<noteq> []"
  shows "scpc_take_packet enc sl t gw sf i s carriers cap \<noteq> None"
proof -
  obtain e f where f: "pop (fs_fifo i s) = (f, Some e)" using q pop_Cons by (metis neq_Nil_conv)
  have ok1: "fs_ok t (set_fs_fifo i f s)" using spends_fields(2) [OF ok] by (rule spends_ok)
  obtain s2 p where g: "scpc_incomplete_bbframe sl t gw carriers (set_fs_fifo i f s) = (s2, p)" by fastforce
  then have p: "fs_ok t s2" "p \<in> set (fs_ordered s2)" using scpc_incomplete_ok [OF g ok1] by (auto dest: spends_ok)
  from put_packet_defined [OF handler_makes_accepts [OF assms(1)] assms(2) p]
  have "put_packet enc t sf i e p s2 carriers cap \<noteq> None" .
  moreover
  obtain h ret data rest where e: "enc (fs_handler s2) (fe_elem e) (get_free_space (fs_frame s2 p))
      (num_packets (fs_frame s2 p) = 0) = (h, ret, data, rest)" by (metis prod_cases4)
  then have "data \<noteq> None \<or> rest \<noteq> None" using assms(1) unfolding handler_makes_def by blast
  ultimately show ?thesis using f g e by (auto simp: scpc_take_packet_def scpc_put_packet_def Let_def)
qed

section \<open>The loops\<close>

text \<open>The loop on the packets leaves no capacity for this superframe but the one it returns.\<close>

lemma no_previous_put:
  "put_packet enc t sf i e p s c cap = Some (s', c', cap', r) \<Longrightarrow> get_previous_capacity sf c = 0 \<Longrightarrow>
   get_previous_capacity sf c' = 0"
  unfolding put_packet_def Let_def close_bbframe_def
  by (auto simp: get_previous_capacity_def Let_def split: prod.splits if_splits option.splits bind_splits)

lemma no_previous_take:
  "scpc_take_packet enc sl t gw sf i s c cap = Some (s', c', cap', r) \<Longrightarrow> get_previous_capacity sf c = 0 \<Longrightarrow>
   get_previous_capacity sf c' = 0"
  unfolding scpc_take_packet_def scpc_put_packet_def Let_def
  by (auto split: prod.splits if_splits option.splits bind_splits intro: no_previous_put)

lemma scpc_packets_loop_ok:
  assumes "scpc_packets_loop enc sl t gw sf time i s carriers cap = Some (s', carriers', cap', b)"
    and "fs_ok t s" "i < length (fs_fifos s)"
  shows "spends t s (unat cap) s' (unat cap') \<and>
    (get_previous_capacity sf carriers = 0 \<longrightarrow> get_previous_capacity sf carriers' = 0)"
proof -
  let ?Q = "\<lambda>t sf s c cap s' c' cap'. spends t s (unat cap) s' (unat cap') \<and>
    (get_previous_capacity sf c = 0 \<longrightarrow> get_previous_capacity sf c' = 0)"
  let ?P = "\<lambda>enc sl t gw sf time i s carriers cap y. fs_ok t s \<longrightarrow> i < length (fs_fifos s) \<longrightarrow>
    (case y of (s', carriers', cap', b) \<Rightarrow> ?Q t sf s carriers cap s' carriers' cap')"
  have "?P enc sl t gw sf time i s carriers cap (s', carriers', cap', b)"
    using assms(1)
  proof (rule scpc_packets_loop.raw_induct [where P = ?P, rotated])
    fix loop enc sl t gw sf time i s carriers cap y
    assume 1: "\<And>enc sl t gw sf time i s carriers cap y. loop enc sl t gw sf time i s carriers cap = Some y \<Longrightarrow>
        ?P enc sl t gw sf time i s carriers cap y"
      "(if get_current_size (fs_fifo i s) \<le> 0 \<or> get_tick_out (fs_fifo i s) > time
        then Some (s, carriers, cap, True)
        else (case scpc_take_packet enc sl t gw sf i s carriers cap of
             None \<Rightarrow> None
           | Some (s1, carriers1, capacity1, r) \<Rightarrow>
               (if r = Packet_error then Some (s1, carriers1, capacity1, False)
                else if r = Carrier_full then Some (s1, carriers1, capacity1, True)
                else loop enc sl t gw sf time i s1 carriers1 capacity1))) = Some y"
    show "?P enc sl t gw sf time i s carriers cap y"
    proof (intro impI)
      assume ok: "fs_ok t s" and i: "i < length (fs_fifos s)"
      show "case y of (s', carriers', cap', b) \<Rightarrow> ?Q t sf s carriers cap s' carriers' cap'"
      proof (cases "get_current_size (fs_fifo i s) \<le> 0 \<or> get_tick_out (fs_fifo i s) > time")
        case True
        with 1(2) ok show ?thesis by (auto intro: spends_refl)
      next
        case False
        then obtain s1 c1 cap1 r where tp: "scpc_take_packet enc sl t gw sf i s carriers cap = Some (s1, c1, cap1, r)"
          using 1(2) by (auto split: option.splits prod.splits)
        note st = scpc_take_packet_ok [OF tp ok i, THEN conjunct1] and np = no_previous_take [OF tp]
        have i1: "i < length (fs_fifos s1)" using st i by (simp add: spends_def)
        show ?thesis
        proof (cases "r = Packet_done")
          case True
          then have "loop enc sl t gw sf time i s1 c1 cap1 = Some y"
            using 1(2) False tp by (cases r) (simp_all split: if_splits)
          from 1(1) [OF this] spends_ok [OF st] i1 spends_trans [OF st] np show ?thesis by auto
        next
          case False
          with 1(2) tp \<open>\<not> (_ \<or> _)\<close> st np show ?thesis by (cases r) auto
        qed
      qed
    qed
  qed
  with assms show ?thesis by auto
qed

lemma scpc_packets_loop_ends:
  assumes "handler_makes enc" "frames_cost t" "fs_ok t s" "i < length (fs_fifos s)"
  shows "scpc_packets_loop enc sl t gw sf time i s carriers cap \<noteq> None"
  using assms(3,4)
proof (induction "(unat cap, length (queue (fs_fifo i s)))" arbitrary: s carriers cap
    rule: wf_induct_rule [OF wf_lex_prod [OF wf_less_than wf_less_than]])
  case (1 s cap carriers)
  show ?case
  proof (cases "get_current_size (fs_fifo i s) \<le> 0 \<or> get_tick_out (fs_fifo i s) > time")
    case True
    then show ?thesis by (subst scpc_packets_loop.simps) simp
  next
    case False
    then have "queue (fs_fifo i s) \<noteq> []" by (auto simp: get_current_size_def)
    from scpc_take_packet_defined [OF assms(1,2) 1(2) this] obtain s1 c1 cap1 r where
      tp: "scpc_take_packet enc sl t gw sf i s carriers cap = Some (s1, c1, cap1, r)" by (metis not_None_eq prod_cases4)
    note st = scpc_take_packet_ok [OF tp 1(2,3)]
    have i1: "i < length (fs_fifos s1)" using st 1(3) by (simp add: spends_def)
    show ?thesis
    proof (cases "r = Packet_done")
      case True
      have "scpc_packets_loop enc sl t gw sf time i s1 c1 cap1 \<noteq> None"
        using st True assms(2) spends_ok i1 by (intro 1(1)) auto
      with True False tp show ?thesis by (subst scpc_packets_loop.simps) simp
    next
      case False
      with tp show ?thesis by (subst scpc_packets_loop.simps) (cases r, auto)
    qed
  qed
qed

lemma scpc_schedule_pending_defined:
  assumes "frames_cost t" "fs_ok t s"
  shows "scpc_schedule_pending t supported cap s \<noteq> None"
proof -
  have "scpc_pending_loop t supported ps np cap s \<noteq> None" if "\<forall>p \<in> set ps. bb_ok t (fs_frame s p)" for ps np cap s
    using that
  proof (induction ps arbitrary: np cap s)
    case (Cons p ps)
    then obtain s1 cap1 st where a: "add_complete_bbframe t p cap s = Some (s1, cap1, st)"
      using add_complete_defined [OF assms(1), of s p cap] by auto
    with add_complete_cases [OF a] have "fs_frame s1 = fs_frame s" by auto
    with Cons a show ?case by (simp add: scpc_same)
  qed simp
  moreover have "\<forall>p \<in> set (fs_pending s). bb_ok t (fs_frame s p)"
    using assms(2) by (auto simp: fs_ok_def fs_refs_def fs_frame_def)
  ultimately obtain r where "scpc_pending_loop t supported (fs_pending s) [] cap s = Some r" by blast
  then show ?thesis by (cases r) (simp add: scpc_schedule_pending_def)
qed

text \<open>What a group of carriers may spend: in \<open>scpc_carrier\<close>, before and after a FIFO.\<close>

definition scpc_left :: "time_sf \<Rightarrow> carriers_dama \<Rightarrow> nat" where
  "scpc_left sf c = unat (remaining_capacity c + get_previous_capacity sf c)"

lemma no_previous: "get_previous_capacity sf (reset_previous c) = 0"
  by (simp add: get_previous_capacity_def reset_previous_def)

lemma remaining_reset [simp]: "remaining_capacity (reset_previous c) = remaining_capacity c"
  by (simp add: reset_previous_def)

lemma get_previous_capacity_remaining2 [simp]:
  "get_previous_capacity sf (c\<lparr>remaining_capacity := n\<rparr>) = get_previous_capacity sf (c :: carriers_dama)"
  by (simp add: get_previous_capacity_def)

lemma scpc_fifo_ok:
  assumes f: "scpc_fifo enc sl t gw sf time i s c = Some (s', c', ok)" and s: "fs_ok t s"
    and i: "i < length (fs_fifos s)"
  shows "spends t s (scpc_left sf c) s' (if ok then scpc_left sf c' else 0) \<and>
    (ok \<longrightarrow> get_previous_capacity sf c' = 0)"
proof (cases "get_current_size (fs_fifo i s) \<le> 0 \<and> fs_pending s = []")
  case True
  with f s show ?thesis
    by (auto simp: scpc_fifo_def scpc_left_def no_previous intro: spends_refl)
next
  case False
  let ?cap = "remaining_capacity c + get_previous_capacity sf c"
  obtain s1 cap1 where p: "scpc_schedule_pending t (group_fmt_ids c) ?cap s = Some (s1, cap1)"
    using f False by (auto simp: scpc_fifo_def Let_def split: option.splits)
  define cap2 where "cap2 = (if fs_incomplete s1 = [] then min (remaining_capacity c) cap1 else cap1)"
  have s1: "spends t s (unat ?cap) s1 (unat cap1)" "fs_fifos s1 = fs_fifos s"
    using scpc_schedule_pending_ok [OF p s] by auto
  have "unat cap2 \<le> unat cap1" by (simp add: cap2_def unat_min_le)
  from spends_trans [OF s1(1) spends_refl [OF spends_ok [OF s1(1)] this]]
  have s2: "spends t s (scpc_left sf c) s1 (unat cap2)" by (simp add: scpc_left_def)
  have eq: "scpc_fifo enc sl t gw sf time i s c =
      (if get_current_size (fs_fifo i s) \<le> 0 then Some (s1, (reset_previous c)\<lparr>remaining_capacity := cap2\<rparr>, True)
       else (case scpc_packets_loop enc sl t gw sf time i s1 (reset_previous c) cap2 of
               None \<Rightarrow> None
             | Some (s2, c2, cap3, ok) \<Rightarrow> Some (s2, if ok then c2\<lparr>remaining_capacity := cap3\<rparr> else c2, ok)))"
    unfolding scpc_fifo_def Let_def using False p by (simp only: if_False option.case prod.case cap2_def)
  show ?thesis
  proof (cases "get_current_size (fs_fifo i s) \<le> 0")
    case True
    with f eq have "s' = s1" "c' = (reset_previous c)\<lparr>remaining_capacity := cap2\<rparr>" "ok" by simp_all
    with s2 show ?thesis by (simp add: scpc_left_def no_previous)
  next
    case False
    then obtain c2 cap3 where l: "scpc_packets_loop enc sl t gw sf time i s1 (reset_previous c) cap2 = Some (s', c2, cap3, ok)"
      "c' = (if ok then c2\<lparr>remaining_capacity := cap3\<rparr> else c2)"
      using f eq by (auto split: option.splits)
    from scpc_packets_loop_ok [OF l(1) spends_ok [OF s2]] i s1(2)
    have s3: "spends t s1 (unat cap2) s' (unat cap3)" "get_previous_capacity sf c2 = 0"
      by (simp_all add: no_previous)
    note whole = spends_trans [OF s2 s3(1)]
    have "(if ok then scpc_left sf c' else 0) \<le> unat cap3"
      by (simp add: l(2) scpc_left_def s3(2))
    from spends_trans [OF whole spends_refl [OF spends_ok [OF whole] this]] s3(2) show ?thesis by (simp add: l(2))
  qed
qed

lemma scpc_fifo_defined:
  assumes "handler_makes enc" "frames_cost t" and s: "fs_ok t s" and i: "i < length (fs_fifos s)"
  shows "scpc_fifo enc sl t gw sf time i s c \<noteq> None"
proof -
  let ?cap = "remaining_capacity c + get_previous_capacity sf c"
  obtain s1 cap1 where p: "scpc_schedule_pending t (group_fmt_ids c) ?cap s = Some (s1, cap1)"
    using scpc_schedule_pending_defined [OF assms(2) s] by fast
  from scpc_schedule_pending_ok [OF p s] have "fs_ok t s1" "i < length (fs_fifos s1)"
    using i by (auto dest: spends_ok)
  note l = scpc_packets_loop_ends [OF assms(1,2) this, of sl gw sf time "reset_previous c"]
  obtain r where "scpc_packets_loop enc sl t gw sf time i s1 (reset_previous c)
      (if fs_incomplete s1 = [] then min (remaining_capacity c) cap1 else cap1) = Some r" using l by fast
  with p show ?thesis by (cases r) (auto simp: scpc_fifo_def Let_def)
qed

lemma scpc_fifos_loop_ok:
  "scpc_fifos_loop enc sl t gw sf time is s c = Some (s', c', ok) \<Longrightarrow> fs_ok t s \<Longrightarrow>
   \<forall>i \<in> set is. i < length (fs_fifos s) \<Longrightarrow>
   spends t s (scpc_left sf c) s' (if ok then scpc_left sf c' else 0) \<and>
   (ok \<and> (is \<noteq> [] \<or> get_previous_capacity sf c = 0) \<longrightarrow> get_previous_capacity sf c' = 0)"
proof (induction "is" arbitrary: s c)
  case Nil
  then show ?case by (auto intro: spends_refl)
next
  case (Cons i "is")
  obtain s1 c1 ok1 where f: "scpc_fifo enc sl t gw sf time i s c = Some (s1, c1, ok1)"
    using Cons.prems(1) by (auto split: option.splits)
  have st: "spends t s (scpc_left sf c) s1 (if ok1 then scpc_left sf c1 else 0)"
    and np: "ok1 \<longrightarrow> get_previous_capacity sf c1 = 0"
    using scpc_fifo_ok [OF f Cons.prems(2)] Cons.prems(3) by simp_all
  show ?case
  proof (cases ok1)
    case True
    then have r: "scpc_fifos_loop enc sl t gw sf time is s1 c1 = Some (s', c', ok)" using Cons.prems(1) f by simp
    have "\<forall>i \<in> set is. i < length (fs_fifos s1)" using Cons.prems(3) st by (simp add: spends_def)
    from Cons.IH [OF r spends_ok [OF st] this] st True np show ?thesis by (auto intro: spends_trans)
  next
    case False
    with Cons.prems(1) f st show ?thesis by simp
  qed
qed

lemma scpc_fifos_loop_defined:
  assumes "handler_makes enc" "frames_cost t"
  shows "fs_ok t s \<Longrightarrow> \<forall>i \<in> set is. i < length (fs_fifos s) \<Longrightarrow> scpc_fifos_loop enc sl t gw sf time is s c \<noteq> None"
proof (induction "is" arbitrary: s c)
  case (Cons i "is")
  then have i: "i < length (fs_fifos s)" by simp
  obtain s1 c1 ok1 where f: "scpc_fifo enc sl t gw sf time i s c = Some (s1, c1, ok1)"
    using scpc_fifo_defined [OF assms Cons.prems(1) i] by fast
  have st: "spends t s (scpc_left sf c) s1 (if ok1 then scpc_left sf c1 else 0)"
    using scpc_fifo_ok [OF f Cons.prems(1) i] by blast
  have "\<forall>i \<in> set is. i < length (fs_fifos s1)" using Cons.prems(2) st by (simp add: spends_def)
  from Cons.IH [OF spends_ok [OF st] this] f show ?case by auto
qed simp

section \<open>A superframe of a terminal\<close>

abbreviation scpc_init :: "carriers_dama \<Rightarrow> vol_sym" where
  "scpc_init c \<equiv> total_capacity c + remaining_capacity c"

definition scpc_budget :: "time_sf \<Rightarrow> carriers_dama \<Rightarrow> vol_sym" where
  "scpc_budget sf c = scpc_init c + get_previous_capacity sf c"

lemma scpc_carrier_ok:
  assumes sc: "scpc_carrier enc sl t gw sf time s c = Some (s', c', ok)" and s: "fs_ok t s"
    and ne: "fs_fifos s \<noteq> []"
  shows "spends t s (unat (scpc_budget sf c)) s' (if ok then unat (remaining_capacity c') else 0)"
proof -
  let ?c = "c\<lparr>remaining_capacity := scpc_init c\<rparr>"
  obtain s1 c1 ok1 where f: "scpc_fifos_loop enc sl t gw sf time [0..<length (fs_fifos s)] s ?c = Some (s1, c1, ok1)"
    using sc by (auto simp: scpc_carrier_def Let_def split: option.splits)
  from scpc_fifos_loop_ok [OF f s] ne have st: "spends t s (scpc_left sf ?c) s1 (if ok1 then scpc_left sf c1 else 0)"
    "ok1 \<longrightarrow> get_previous_capacity sf c1 = 0" by simp_all
  have b: "scpc_left sf ?c = unat (scpc_budget sf c)" by (simp add: scpc_left_def scpc_budget_def)
  show ?thesis
  proof (cases ok1)
    case False
    with sc f st b show ?thesis by (simp add: scpc_carrier_def Let_def)
  next
    case True
    then obtain s2 c2 cap2 ok2 where g: "fill_loop t sf (scpc_init c) (fs_ordered s1) s1 c1 (remaining_capacity c1) =
        Some (s2, c2, cap2, ok2)"
      using sc f by (auto simp: scpc_carrier_def Let_def split: option.splits)
    have "s' = s2" "ok \<Longrightarrow> remaining_capacity c' = min cap2 (scpc_init c)"
      using sc f g True by (cases ok2; simp add: scpc_carrier_def Let_def; force)+
    then have le: "(if ok then unat (remaining_capacity c') else 0) \<le> unat cap2" by (simp add: unat_min)
    have "spends t s (unat (scpc_budget sf c)) s1 (unat (remaining_capacity c1))"
      using st True b by (simp add: scpc_left_def)
    from spends_trans [OF this fill_loop_ok [OF g, simplified]] spends_ok [OF st(1)]
    have whole: "spends t s (unat (scpc_budget sf c)) s' (unat cap2)" using \<open>s' = s2\<close> by simp
    from spends_trans [OF whole spends_refl [OF spends_ok [OF whole] le]] show ?thesis .
  qed
qed

lemma scpc_carrier_defined:
  assumes "handler_makes enc" "frames_cost t" and s: "fs_ok t s"
  shows "scpc_carrier enc sl t gw sf time s c \<noteq> None"
proof -
  let ?c = "c\<lparr>remaining_capacity := scpc_init c\<rparr>"
  have "scpc_fifos_loop enc sl t gw sf time [0..<length (fs_fifos s)] s ?c \<noteq> None"
    by (rule scpc_fifos_loop_defined [OF assms(1,2) s]) simp
  then obtain s1 c1 ok1 where f: "scpc_fifos_loop enc sl t gw sf time [0..<length (fs_fifos s)] s ?c = Some (s1, c1, ok1)"
    by auto
  have "fs_ok t s1" using scpc_fifos_loop_ok [OF f s] by (simp add: spends_def)
  then have "\<forall>p \<in> set (fs_ordered s1). bb_ok t (fs_frame s1 p)" by (auto simp: fs_ok_def fs_refs_def fs_frame_def)
  from fill_loop_defined [OF assms(2) this] obtain r where
    "fill_loop t sf (scpc_init c) (fs_ordered s1) s1 c1 (remaining_capacity c1) = Some r" by fast
  with f show ?thesis by (cases r) (auto simp: scpc_carrier_def Let_def)
qed

lemma scpc_carriers_ok:
  "scpc_carriers enc sl t gw sf time s cs = Some (s', cs', ok) \<Longrightarrow> fs_ok t s \<Longrightarrow> fs_fifos s \<noteq> [] \<Longrightarrow>
   spends t s (\<Sum>c \<leftarrow> cs. unat (scpc_budget sf c)) s' (if ok then \<Sum>c \<leftarrow> cs'. unat (remaining_capacity c) else 0)"
proof (induction cs arbitrary: s cs')
  case Nil
  then show ?case by (auto intro: spends_refl)
next
  case (Cons c cs)
  let ?B = "\<Sum>c \<leftarrow> cs. unat (scpc_budget sf c)"
  obtain s1 c1 ok1 where v: "scpc_carrier enc sl t gw sf time s c = Some (s1, c1, ok1)"
    using Cons.prems(1) by (auto split: option.splits)
  let ?a = "if ok1 then unat (remaining_capacity c1) else 0"
  have st: "spends t s (unat (scpc_budget sf c) + ?B) s1 (?a + ?B)"
    by (rule spends_more [OF scpc_carrier_ok [OF v Cons.prems(2,3)]])
  show ?case
  proof (cases ok1)
    case False
    with Cons.prems(1) v have "s' = s1" "\<not> ok" by auto
    with spends_trans [OF st spends_refl [OF spends_ok [OF st]], of 0] show ?thesis by simp
  next
    case True
    then obtain cs1 where r: "scpc_carriers enc sl t gw sf time s1 cs = Some (s', cs1, ok)" "cs' = c1 # cs1"
      using Cons.prems(1) v by (auto split: option.splits)
    let ?b = "if ok then \<Sum>c \<leftarrow> cs1. unat (remaining_capacity c) else 0"
    have "fs_fifos s1 \<noteq> []" using st Cons.prems(3) by (auto simp: spends_def)
    from spends_more [OF Cons.IH [OF r(1) spends_ok [OF st] this], of ?a]
    have "spends t s1 (?a + ?B) s' (?b + ?a)" by (simp only: add.commute)
    note whole = spends_trans [OF st this]
    have "(if ok then \<Sum>c \<leftarrow> cs'. unat (remaining_capacity c) else 0) \<le> ?b + ?a" using True by (simp add: r(2))
    from spends_trans [OF whole spends_refl [OF spends_ok [OF whole] this]] show ?thesis by simp
  qed
qed

lemma scpc_carriers_defined:
  assumes "handler_makes enc" "frames_cost t"
  shows "fs_ok t s \<Longrightarrow> fs_fifos s \<noteq> [] \<Longrightarrow> scpc_carriers enc sl t gw sf time s cs \<noteq> None"
proof (induction cs arbitrary: s)
  case (Cons c cs)
  obtain s1 c1 ok1 where v: "scpc_carrier enc sl t gw sf time s c = Some (s1, c1, ok1)"
    using scpc_carrier_defined [OF assms Cons.prems(1)] by fast
  note st = scpc_carrier_ok [OF v Cons.prems]
  have "fs_fifos s1 \<noteq> []" using st Cons.prems(2) by (auto simp: spends_def)
  from Cons.IH [OF spends_ok [OF st] this] v show ?case by auto
qed simp

text \<open>The encapsulation fails on a packet: \<^verbatim>\<open>encapNextPacket\<close> returns false, or makes nothing
  of it.\<close>

definition handler_fails :: "'h encapsulate \<Rightarrow> 'h \<Rightarrow> net_packet \<Rightarrow> nat \<Rightarrow> bool \<Rightarrow> bool" where
  "handler_fails enc h p n new =
     (case enc h p n new of (_, ret, data, rest) \<Rightarrow> \<not> ret \<or> data = None \<and> rest = None)"

lemma handler_makes_fails: "handler_makes enc \<longleftrightarrow> (\<forall>h p n new. \<not> handler_fails enc h p n new)"
  by (auto simp: handler_makes_def handler_fails_def split: prod.splits)

lemma failing_packet_faults:
  assumes "handler_fails enc (fs_handler s) (fe_elem elem) (get_free_space (fs_frame s p))
    (num_packets (fs_frame s p) = 0)"
  shows "scpc_put_packet enc t sf i elem p s carriers cap = None"
proof -
  obtain h ret data rest where e: "enc (fs_handler s) (fe_elem elem) (get_free_space (fs_frame s p))
      (num_packets (fs_frame s p) = 0) = (h, ret, data, rest)" by (metis prod_cases4)
  with assms consider "\<not> ret" | "data = None" "rest = None" by (auto simp: handler_fails_def)
  then show ?thesis
    by cases (simp_all add: scpc_put_packet_def put_packet_def Let_def e)
qed

text \<open>C31: A superframe of a terminal that owns its carriers, whatever the encapsulation does.  When
  \<^verbatim>\<open>schedule\<close> returns, with success or not, the symbols of the BB frames it completed are at most
  the capacities of the carriers with what they had kept, and no frame was handed over twice.  It
  returns when every frame of a known MODCOD takes a symbol and the period is not zero, unless the
  encapsulation fails on a packet: then the packet is used after it was deleted (or an assertion
  stops the program), whatever the frame and the carrier.\<close>

theorem scpc_capacity:
  assumes "fs_ok t s" "fs_fifos s \<noteq> []"
  shows "(\<forall>s' cat' rem' ok. scpc_schedule enc sl t gw period sf time s cat rem = Some (s', cat', rem', ok) \<longrightarrow>
      (\<exists>new. fs_complete s' = fs_complete s @ new \<and>
        sum_list (map (frame_cost t s') new) \<le> (\<Sum>c \<leftarrow> carriers_groups cat. unat (scpc_budget sf c))) \<and>
      distinct (fs_complete s' @ fs_pending s' @ fs_ordered s')) \<and>
    (frames_cost t \<and> period \<noteq> 0 \<and> scpc_schedule enc sl t gw period sf time s cat rem = None \<longrightarrow>
      (\<exists>h p n new. handler_fails enc h p n new)) \<and>
    (\<forall>i elem p s1 carriers cap.
      handler_fails enc (fs_handler s1) (fe_elem elem) (get_free_space (fs_frame s1 p))
        (num_packets (fs_frame s1 p) = 0) \<longrightarrow>
      scpc_put_packet enc t sf i elem p s1 carriers cap = None)"
proof (intro conjI allI impI)
  fix s' cat' rem' ok
  assume "scpc_schedule enc sl t gw period sf time s cat rem = Some (s', cat', rem', ok)"
  then obtain cs ok1 where c: "scpc_carriers enc sl t gw sf time s (carriers_groups cat) = Some (s', cs, ok1)"
    by (auto simp: scpc_schedule_def split: option.splits if_splits)
  note st = scpc_carriers_ok [OF c assms]
  then show "\<exists>new. fs_complete s' = fs_complete s @ new \<and>
      sum_list (map (frame_cost t s') new) \<le> (\<Sum>c \<leftarrow> carriers_groups cat. unat (scpc_budget sf c))"
    unfolding spends_def by (metis add_leD2)
  show "distinct (fs_complete s' @ fs_pending s' @ fs_ordered s')"
    using spends_ok [OF st] by (simp add: fs_ok_def fs_refs_def)
next
  assume none: "frames_cost t \<and> period \<noteq> 0 \<and> scpc_schedule enc sl t gw period sf time s cat rem = None"
  show "\<exists>h p n new. handler_fails enc h p n new"
  proof (rule ccontr)
    assume "\<nexists>h p n new. handler_fails enc h p n new"
    then have "handler_makes enc" by (simp add: handler_makes_fails)
    with none obtain s' cs ok where "scpc_carriers enc sl t gw sf time s (carriers_groups cat) = Some (s', cs, ok)"
      using scpc_carriers_defined [OF _ _ assms] by fast
    with none show False by (cases ok) (auto simp: scpc_schedule_def Let_def)
  qed
next
  fix i p s1 cap and elem :: pkt_elem and carriers :: carriers_dama
  assume "handler_fails enc (fs_handler s1) (fe_elem elem) (get_free_space (fs_frame s1 p))
    (num_packets (fs_frame s1 p) = 0)"
  then show "scpc_put_packet enc t sf i elem p s1 carriers cap = None" by (rule failing_packet_faults)
qed

lemma whole_packets_makes: "handler_makes whole_packets"
  by (auto simp: handler_makes_def whole_packets_def split: if_splits)

theorem scpc_capacity_witness:
  "\<exists>s' cat' rem' ok. scpc_schedule whole_packets one_st qpsk_table 3 53 7 0
      (new_fwd_sched [(0, acm_fifo [1, 2, 3])] ()) (one_carrier 40000) 0 = Some (s', cat', rem', ok) \<and>
    distinct (fs_complete s' @ fs_pending s' @ fs_ordered s')"
proof -
  let ?s = "new_fwd_sched [(0, acm_fifo [1, 2, 3])] ()"
  have fifos: "fs_fifos ?s \<noteq> []" by (simp add: new_fwd_sched_def)
  note sc = scpc_capacity [OF new_fwd_sched_ok fifos, where t = qpsk_table and enc = whole_packets and
    sl = one_st and gw = 3 and period = 53 and sf = 7 and time = 0 and cat = "one_carrier 40000" and rem = 0]
  have "\<not> handler_fails whole_packets h p n new" for h p n new
    using whole_packets_makes by (simp add: handler_makes_fails)
  with sc qpsk_frames_cost have "scpc_schedule whole_packets one_st qpsk_table 3 53 7 0 ?s (one_carrier 40000) 0 \<noteq> None"
    by auto
  then obtain s' cat' rem' ok where "scpc_schedule whole_packets one_st qpsk_table 3 53 7 0 ?s
      (one_carrier 40000) 0 = Some (s', cat', rem', ok)" by (metis not_None_eq prod_cases4)
  with sc show ?thesis by blast
qed

text \<open>A BB frame that was completed but did not fit is lost.  When the carriers support its MODCOD and
  their capacity is still less than its length, the next call neither sends it nor keeps it.\<close>

theorem scpc_loses_pending:
  assumes "scpc_schedule_pending t supported cap s = Some (s', cap')" "fs_ok t s"
    and "p \<in> set (fs_pending s)" "frame_modcod s p \<in> ucast ` set supported" "unat cap < frame_cost t s p"
  shows "p \<notin> set (fs_complete s') \<and> p \<notin> set (fs_pending s') \<and> p \<notin> set (fs_ordered s')"
proof -
  have "p \<notin> set (fs_complete s)" "p \<notin> set (fs_ordered s)" using assms(2,3) by (auto simp: fs_ok_def fs_refs_def)
  moreover from scpc_schedule_pending_ok [OF assms(1,2)]
  have "fs_pending s' = filter (\<lambda>p. frame_modcod s p \<notin> ucast ` set supported) (fs_pending s)"
    "\<forall>q \<in> set (fs_complete s') - set (fs_complete s). frame_cost t s q \<le> unat cap"
    "fs_ordered s' = fs_ordered s" by blast+
  ultimately show ?thesis using assms(4,5) by force
qed

theorem scpc_loses_pending_witness:
  "\<exists>(s :: unit fwd_sched) s' cap'. scpc_schedule_pending qpsk_table [1] 10 s = Some (s', cap') \<and> fs_pending s = [0] \<and>
    0 \<notin> set (fs_complete s') \<and> 0 \<notin> set (fs_pending s')"
proof -
  define f where "f = set_max_frame_size (bbframe_size_bytes qpsk_table 1) (set_modcod_id 1 new_bb_frame)"
  define s where "s = (new_fwd_sched [] ())\<lparr>fs_heap := [f], fs_pending := [0]\<rparr>"
  have f: "length (cont_data f) = 6" "max_size f = bbframe_size_bytes qpsk_table 1" "get_modcod_id f = 1"
    using created_frame [of "bbframe_size_bytes qpsk_table 1" 1] by (simp_all add: f_def Let_def)
  have frame: "fs_frame s 0 = f" by (simp add: s_def fs_frame_def)
  have ok: "fs_ok qpsk_table s"
    using f by (simp add: fs_ok_def fs_refs_def s_def new_fwd_sched_def bb_ok_def)
  have c: "frame_cost qpsk_table s 0 = 32208"
    using qpsk_frame_sym by (simp add: frame_cost_def frame_modcod_def frame f)
  have "scpc_schedule_pending qpsk_table [1] 10 s \<noteq> None"
    by (rule scpc_schedule_pending_defined [OF qpsk_frames_cost ok])
  then obtain s' cap' where r: "scpc_schedule_pending qpsk_table [1] 10 s = Some (s', cap')" by auto
  have p: "fs_pending s = [0]" by (simp add: s_def)
  have m: "frame_modcod s 0 = 1" by (simp add: frame_modcod_def frame f)
  have "0 \<notin> set (fs_complete s') \<and> 0 \<notin> set (fs_pending s') \<and> 0 \<notin> set (fs_ordered s')"
    by (rule scpc_loses_pending [OF r ok]) (simp_all add: p m c)
  with r p show ?thesis by blast
qed

end
