(* ===== verification/Mac_Address.thy ===== *)
theory Mac_Address
  imports Prelude "HOL-Library.Char_ord"
begin

text \<open>
  MAC addresses (\<^verbatim>\<open>opensand-core/src/common/MacAddress.cpp\<close>) and the table that associates
  them with terminals (\<^verbatim>\<open>SarpTable.cpp\<close>).  An address is six bytes, any of which may be a
  wildcard that matches every byte.  The constructor from a string leaves the bytes for which the
  string has no token as they were in memory: that memory is an argument.  The theory proves the
  round trip through the text, and that the table is a finite map in which the first entry of an
  address is kept for ever.
\<close>

section \<open>Addresses\<close>

record mac_address =
  mac_bytes :: "u8 list"
  generic_bytes :: "bool list"

definition mac_wf :: "mac_address \<Rightarrow> bool" where
  "mac_wf a \<longleftrightarrow> length (mac_bytes a) = 6 \<and> length (generic_bytes a) = 6"

definition mac_of_bytes :: "u8 \<Rightarrow> u8 \<Rightarrow> u8 \<Rightarrow> u8 \<Rightarrow> u8 \<Rightarrow> u8 \<Rightarrow> mac_address" where
  "mac_of_bytes b0 b1 b2 b3 b4 b5 =
     \<lparr>mac_bytes = [b0, b1, b2, b3, b4, b5], generic_bytes = replicate 6 False\<rparr>"

text \<open>\<^verbatim>\<open>std::getline\<close> with a colon: an empty rest is no token.\<close>

function colon_tokens :: "string \<Rightarrow> string list" where
  "colon_tokens [] = []"
| "colon_tokens (c # cs) =
     takeWhile (\<lambda>x. x \<noteq> CHR '':'') (c # cs) #
     colon_tokens (tl (dropWhile (\<lambda>x. x \<noteq> CHR '':'') (c # cs)))"
  by pat_completeness auto
termination
proof (relation "measure length")
  fix c :: char and cs
  have "length (dropWhile (\<lambda>x. x \<noteq> CHR '':'') (c # cs)) \<le> length (c # cs)"
    by (rule length_dropWhile_le)
  then show "(tl (dropWhile (\<lambda>x. x \<noteq> CHR '':'') (c # cs)), c # cs) \<in> measure length" by auto
qed simp

definition hex_val :: "char \<Rightarrow> nat option" where
  "hex_val c = (let n = of_char c in
     if 48 \<le> n \<and> n \<le> 57 then Some (n - 48)
     else if 97 \<le> n \<and> n \<le> 102 then Some (n - 87)
     else if 65 \<le> n \<and> n \<le> 70 then Some (n - 55)
     else None)"

fun scan_hex :: "string \<Rightarrow> nat \<Rightarrow> nat" where
  "scan_hex [] n = n"
| "scan_hex (c # cs) n = (case hex_val c of None \<Rightarrow> n | Some d \<Rightarrow> scan_hex cs (16 * n + d))"

definition skip_sign :: "string \<Rightarrow> bool \<times> string" where
  "skip_sign s = (case s of
     c # cs \<Rightarrow> (if c = CHR ''-'' then (True, cs) else if c = CHR ''+'' then (False, cs) else (False, s))
   | [] \<Rightarrow> (False, []))"

definition skip_0x :: "string \<Rightarrow> string" where
  "skip_0x s = (case s of
     c # d # cs \<Rightarrow> (if c = CHR ''0'' \<and> (d = CHR ''x'' \<or> d = CHR ''X'') then cs else s)
   | _ \<Rightarrow> s)"

text \<open>\<^verbatim>\<open>strtoul\<close> in base 16, on a 64-bit \<^verbatim>\<open>unsigned long\<close>: the largest value on overflow.\<close>

definition strtoul16 :: "string \<Rightarrow> nat" where
  "strtoul16 s =
     (let (neg, digits) = skip_sign (skip_blanks s);
          n = scan_hex (skip_0x digits) 0
      in if n \<ge> 2 ^ 64 then 2 ^ 64 - 1 else if neg then (2 ^ 64 - n) mod 2 ^ 64 else n)"

definition mac_of_string :: "mac_address \<Rightarrow> string \<Rightarrow> mac_address" where
  "mac_of_string memory s =
     (let tokens = take 6 (colon_tokens s)
      in \<lparr>mac_bytes = map (\<lambda>t. of_nat (strtoul16 t)) tokens @ drop (length tokens) (mac_bytes memory),
          generic_bytes = map (\<lambda>t. t = ''**'') tokens @ drop (length tokens) (generic_bytes memory)\<rparr>)"

definition hex_char :: "nat \<Rightarrow> char" where
  "hex_char n = ''0123456789abcdef'' ! n"

definition hex_of_byte :: "u8 \<Rightarrow> string" where
  "hex_of_byte b = [hex_char (unat b div 16), hex_char (unat b mod 16)]"

fun join_colon :: "string list \<Rightarrow> string" where
  "join_colon [] = []"
| "join_colon [t] = t"
| "join_colon (t # ts) = t @ CHR '':'' # join_colon ts"

definition mac_str :: "mac_address \<Rightarrow> string" where
  "mac_str a = join_colon (map hex_of_byte (take 6 (mac_bytes a)))"

definition mac_at :: "mac_address \<Rightarrow> nat \<Rightarrow> u8" where
  "mac_at a i = (if i < 6 then mac_bytes a ! i else 0)"

definition mac_matches :: "mac_address \<Rightarrow> mac_address \<Rightarrow> bool" where
  "mac_matches a b \<longleftrightarrow>
     list_all (\<lambda>i. generic_bytes a ! i \<or> mac_bytes a ! i = mac_bytes b ! i) [0..<6]"

section \<open>The text of an address\<close>

lemma hex_char_lt: "(n :: nat) < 16 \<Longrightarrow> n \<in> {0,1,2,3,4,5,6,7,8,9,10,11,12,13,14,15}"
  by simp presburger

lemma hex_char_facts:
  assumes "n < 16"
  shows "hex_val (hex_char n) = Some n" "hex_char n \<noteq> CHR '':''" "hex_char n \<noteq> CHR ''-''"
    "hex_char n \<noteq> CHR ''+''" "hex_char n \<noteq> CHR ''x''" "hex_char n \<noteq> CHR ''X''"
    "skip_blanks (hex_char n # cs) = hex_char n # cs"
  using hex_char_lt [OF assms]
  by (auto simp: hex_char_def hex_val_def)

lemma hex_of_byte_facts:
  "CHR '':'' \<notin> set (hex_of_byte b)" "hex_of_byte b \<noteq> []" "length (hex_of_byte b) = 2"
  "strtoul16 (hex_of_byte b) = unat b" "hex_of_byte b \<noteq> ''**''"
proof -
  have h: "unat b div 16 < 16" using unat_le_mask8 [of b] by simp
  have l: "unat b mod 16 < 16" by simp
  note facts = hex_char_facts [OF h] hex_char_facts [OF l]
  show "CHR '':'' \<notin> set (hex_of_byte b)" "hex_of_byte b \<noteq> []" "length (hex_of_byte b) = 2"
    using facts by (auto simp: hex_of_byte_def)
  have "unat b < 256" using unat_le_mask8 [of b] by simp
  then show "strtoul16 (hex_of_byte b) = unat b"
    by (simp add: strtoul16_def hex_of_byte_def facts skip_sign_def skip_0x_def del: skip_blanks.simps)
  show "hex_of_byte b \<noteq> ''**''"
    using facts(1) by (auto simp: hex_of_byte_def hex_val_def)
qed

lemma takeWhile_not_in: "c \<notin> set t \<Longrightarrow> takeWhile (\<lambda>x. x \<noteq> c) (t @ c # s) = t"
  by (induction t) auto

lemma dropWhile_not_in: "c \<notin> set t \<Longrightarrow> dropWhile (\<lambda>x. x \<noteq> c) (t @ c # s) = c # s"
  by (induction t) auto

lemma colon_tokens_step:
  "CHR '':'' \<notin> set t \<Longrightarrow> colon_tokens (t @ CHR '':'' # s) = t # colon_tokens s"
  by (cases "t @ CHR '':'' # s")
    (simp, metis colon_tokens.simps(2) dropWhile_not_in list.sel(3) takeWhile_not_in)

lemma takeWhile_none: "c \<notin> set t \<Longrightarrow> takeWhile (\<lambda>x. x \<noteq> c) t = t"
  by (auto simp: takeWhile_eq_all_conv)

lemma dropWhile_none: "c \<notin> set t \<Longrightarrow> dropWhile (\<lambda>x. x \<noteq> c) t = []"
  by (auto simp: dropWhile_eq_Nil_conv)

lemma colon_tokens_last: "CHR '':'' \<notin> set t \<Longrightarrow> t \<noteq> [] \<Longrightarrow> colon_tokens t = [t]"
  by (cases t) (auto simp: takeWhile_none dropWhile_none simp del: takeWhile.simps dropWhile.simps)

lemma colon_tokens_join:
  "\<forall>t \<in> set ts. CHR '':'' \<notin> set t \<and> t \<noteq> [] \<Longrightarrow> colon_tokens (join_colon ts) = ts"
  by (induction ts rule: join_colon.induct) (auto simp: colon_tokens_last colon_tokens_step)

text \<open>Whatever the memory held, the text of an address is read back as the same six bytes; the
  wildcards are not in the text.\<close>

lemma mac_str_read:
  assumes "length (mac_bytes a) = 6"
  shows "mac_of_string memory (mac_str a) =
    \<lparr>mac_bytes = mac_bytes a, generic_bytes = replicate 6 False @ drop 6 (generic_bytes memory)\<rparr> \<or>
    length (mac_bytes memory) > 6"
proof -
  let ?ts = "map hex_of_byte (mac_bytes a)"
  have "colon_tokens (mac_str a) = ?ts"
    using assms hex_of_byte_facts(1,2)
    by (simp add: mac_str_def) (rule colon_tokens_join, auto)
  moreover have "map (\<lambda>t. t = ''**'') ?ts = replicate 6 False"
    using assms by (auto simp: hex_of_byte_facts(5) intro!: nth_equalityI)
  moreover have "map (\<lambda>t. of_nat (strtoul16 t)) ?ts = mac_bytes a"
    by (simp add: hex_of_byte_facts map_idI)
  ultimately show ?thesis
    using assms by (auto simp: mac_of_string_def Let_def not_less simp del: map_map)
qed

definition mac_exact :: "u8 list \<Rightarrow> mac_address" where
  "mac_exact bs = \<lparr>mac_bytes = bs, generic_bytes = replicate 6 False\<rparr>"

lemma mac_of_bytes_exact: "mac_of_bytes b0 b1 b2 b3 b4 b5 = mac_exact [b0, b1, b2, b3, b4, b5]"
  by (simp add: mac_of_bytes_def mac_exact_def)

lemma mac_str_exact:
  assumes "length (mac_bytes a) = 6" "mac_wf memory"
  shows "mac_of_string memory (mac_str a) = mac_exact (mac_bytes a)"
  using mac_str_read [OF assms(1), of memory] assms(2) by (auto simp: mac_wf_def mac_exact_def)

text \<open>A MAC address survives the text.  Whatever was in memory, the address read from the
  text of a six-byte address has the same bytes and is an exact address (its wildcards, if it had
  any, are lost), so it matches exactly the addresses that have these bytes.\<close>

theorem mac_text_roundtrip:
  assumes "mac_wf a" "mac_wf memory" "mac_wf b"
  shows "mac_bytes (mac_of_string memory (mac_str a)) = mac_bytes a \<and>
    (mac_matches (mac_of_string memory (mac_str a)) b \<longleftrightarrow> mac_bytes b = mac_bytes a)"
  using assms
  by (auto simp: mac_str_exact mac_wf_def mac_exact_def mac_matches_def list_all_iff list_eq_iff_nth_eq)

theorem mac_text_roundtrip_witness:
  "mac_bytes (mac_of_string (mac_of_bytes 9 9 9 9 9 9) (mac_str (mac_of_bytes 1 2 171 4 5 255))) =
     [1, 2, 171, 4, 5, 255] \<and>
   mac_str (mac_of_bytes 1 2 171 4 5 255) = ''01:02:ab:04:05:ff''"
proof -
  have "mac_wf (mac_of_bytes 1 2 171 4 5 255)" "mac_wf (mac_of_bytes 9 9 9 9 9 9)"
    by (simp_all add: mac_wf_def mac_of_bytes_def)
  from mac_text_roundtrip [OF this this(1)]
  have "mac_bytes (mac_of_string (mac_of_bytes 9 9 9 9 9 9) (mac_str (mac_of_bytes 1 2 171 4 5 255))) =
     [1, 2, 171, 4, 5, 255]" by (simp add: mac_of_bytes_def)
  then show ?thesis
    by (rule conjI) (simp add: mac_of_bytes_def mac_str_def hex_of_byte_def hex_char_def)
qed

section \<open>The table of MAC addresses\<close>

text \<open>The default destination is unset until \<^verbatim>\<open>setDefaultTal\<close>: an argument of the
  constructor.  The text of the log is built before the null pointer is checked.\<close>

record sarp_table =
  max_entries :: u32
  eth_sarp :: "(mac_address \<times> tal_id) list"
  default_dest :: tal_id

definition SARP_MAX :: u32 where "SARP_MAX = 50"

definition new_sarp :: "tal_id \<Rightarrow> u32 \<Rightarrow> sarp_table" where
  "new_sarp memory mx =
     \<lparr>max_entries = (if mx = 0 then SARP_MAX else mx), eth_sarp = [], default_dest = memory\<rparr>"

definition get_tal_by_mac :: "mac_address \<Rightarrow> sarp_table \<Rightarrow> bool \<times> tal_id" where
  "get_tal_by_mac mac s =
     (case find (\<lambda>e. mac_matches (fst e) mac) (eth_sarp s) of
        Some e \<Rightarrow> (True, snd e)
      | None \<Rightarrow> (False, default_dest s))"

definition sarp_add :: "mac_address option \<Rightarrow> tal_id \<Rightarrow> sarp_table \<Rightarrow> (sarp_table \<times> bool) option" where
  "sarp_add address tal s =
     (case address of
        None \<Rightarrow> None
      | Some mac \<Rightarrow> Some
          (if length (eth_sarp s) \<ge> unat (max_entries s) then (s, False)
           else if fst (get_tal_by_mac mac s) then (s, True)
           else (s\<lparr>eth_sarp := eth_sarp s @ [(mac, tal)]\<rparr>, True)))"

definition get_mac_by_tal :: "mac_address \<Rightarrow> tal_id \<Rightarrow> sarp_table \<Rightarrow> bool \<times> mac_address list" where
  "get_mac_by_tal memory tal s =
     (case find (\<lambda>e. snd e = tal) (eth_sarp s) of
        Some e \<Rightarrow> (True, [mac_of_string memory (mac_str (fst e))])
      | None \<Rightarrow> (False, []))"

definition set_default_tal :: "tal_id \<Rightarrow> sarp_table \<Rightarrow> sarp_table" where
  "set_default_tal dflt s = s\<lparr>default_dest := dflt\<rparr>"

text \<open>The table of the configuration: the default gateway (-1 when it is missing), the
  broadcast and multicast addresses, and the gateways and terminals in order; the first entity
  with a missing parameter ends the reading.  The configuration is read by another component: its
  items are arguments.\<close>

fun sarp_entities ::
  "(nat \<Rightarrow> mac_address) \<Rightarrow> (int option \<times> string option) list \<Rightarrow> sarp_table \<Rightarrow> sarp_table \<times> bool" where
  "sarp_entities memory [] s = (s, True)"
| "sarp_entities memory ((entity_id, address) # es) s =
     (case (entity_id, address) of
        (Some i, Some a) \<Rightarrow>
          (case sarp_add (Some (mac_of_string (memory (length es)) a)) (word_of_int i) s of
             None \<Rightarrow> (s, False)
           | Some (s', ok) \<Rightarrow> sarp_entities memory es s')
      | _ \<Rightarrow> (s, False))"

definition sarp_add_text :: "mac_address \<Rightarrow> string \<Rightarrow> tal_id \<Rightarrow> sarp_table \<Rightarrow> sarp_table" where
  "sarp_add_text memory text tal s =
     (case sarp_add (Some (mac_of_string memory text)) tal s of None \<Rightarrow> s | Some (s', ok) \<Rightarrow> s')"

definition get_sarp ::
  "(nat \<Rightarrow> mac_address) \<Rightarrow> (int option \<times> (int option \<times> string option) list) option \<Rightarrow> sarp_table \<Rightarrow>
   sarp_table \<times> bool" where
  "get_sarp memory infrastructure s =
     (case infrastructure of
        None \<Rightarrow> (s, False)
      | Some (default_gw, entities) \<Rightarrow>
          (let s1 = set_default_tal (word_of_int (case default_gw of None \<Rightarrow> -1 | Some g \<Rightarrow> g)) s;
               n = length entities;
               s2 = sarp_add_text (memory n) ''ff:ff:ff:ff:ff:ff'' 31 s1;
               s3 = sarp_add_text (memory (n + 1)) ''33:33:**:**:**:**'' 31 s2;
               s4 = sarp_add_text (memory (n + 2)) ''01:00:5E:**:**:**'' 31 s3
           in sarp_entities memory entities s4))"

section \<open>The interface: a table that learns\<close>

text \<open>A table of keys with room for new ones; a key that is known keeps its value.\<close>

locale learning_table =
  fixes look :: "'t \<Rightarrow> 'k \<Rightarrow> 'v option"
    and learn :: "'k \<Rightarrow> 'v \<Rightarrow> 't \<Rightarrow> 't"
    and room :: "'t \<Rightarrow> bool"
    and valid :: "'k \<Rightarrow> bool"
  assumes learn_known: "valid k \<Longrightarrow> look t k \<noteq> None \<Longrightarrow> learn k v t = t"
    and learn_full: "\<not> room t \<Longrightarrow> learn k v t = t"
    and learn_new: "valid k \<Longrightarrow> valid j \<Longrightarrow> look t k = None \<Longrightarrow> room t \<Longrightarrow>
      look (learn k v t) j = (if j = k then Some v else look t j)"
begin

lemma learn_keeps: "valid k \<Longrightarrow> valid j \<Longrightarrow> look t j = Some w \<Longrightarrow> look (learn k v t) j = Some w"
  by (cases "look t k = None"; cases "room t") (auto simp: learn_known learn_full learn_new)

lemma learns_keep:
  "\<forall>kv \<in> set kvs. valid (fst kv) \<Longrightarrow> valid j \<Longrightarrow> look t j = Some w \<Longrightarrow>
   look (foldl (\<lambda>t (k, v). learn k v t) t kvs) j = Some w"
  by (induction kvs arbitrary: t) (auto simp: learn_keeps)

lemma learns_first:
  assumes "\<forall>kv \<in> set kvs. valid (fst kv)" "valid j"
    and "look (foldl (\<lambda>t (k, v). learn k v t) t kvs) j = Some w"
  shows "look t j = Some w \<or> look t j = None \<and> (j, w) \<in> set kvs"
  using assms
proof (induction kvs arbitrary: t)
  case Nil
  then show ?case by simp
next
  case (Cons kv kvs)
  obtain k v where kv: "kv = (k, v)" by (cases kv)
  have k: "valid k" using Cons.prems(1) by (simp add: kv)
  have "look (learn k v t) j = Some w \<or> look (learn k v t) j = None \<and> (j, w) \<in> set kvs"
    using Cons.IH [of "learn k v t"] Cons.prems by (simp add: kv)
  moreover have "look (learn k v t) j = look t j \<or> look t j = None \<and> j = k \<and> look (learn k v t) j = Some v"
    using k Cons.prems(2)
    by (cases "look t k = None"; cases "room t") (auto simp: learn_known learn_full learn_new)
  ultimately show ?case by (auto simp: kv)
qed

end

text \<open>The table of the program, over exact addresses: \<open>sarp_learn\<close> is what the packet switch
  does with the source address of a packet.\<close>

definition sarp_look :: "sarp_table \<Rightarrow> u8 list \<Rightarrow> tal_id option" where
  "sarp_look s bs = (case get_tal_by_mac (mac_exact bs) s of (True, tal) \<Rightarrow> Some tal | _ \<Rightarrow> None)"

definition sarp_learn :: "u8 list \<Rightarrow> tal_id \<Rightarrow> sarp_table \<Rightarrow> sarp_table" where
  "sarp_learn bs tal s = (case sarp_add (Some (mac_exact bs)) tal s of None \<Rightarrow> s | Some (s', ok) \<Rightarrow> s')"

definition sarp_room :: "sarp_table \<Rightarrow> bool" where
  "sarp_room s \<longleftrightarrow> length (eth_sarp s) < unat (max_entries s)"

lemma get_tal_by_mac_look:
  "get_tal_by_mac (mac_exact bs) s =
     (case sarp_look s bs of Some tal \<Rightarrow> (True, tal) | None \<Rightarrow> (False, default_dest s))"
  by (auto simp: sarp_look_def get_tal_by_mac_def split: option.splits)

lemma mac_matches_exact:
  "length b = 6 \<Longrightarrow> length a = 6 \<Longrightarrow> mac_matches (mac_exact a) (mac_exact b) \<longleftrightarrow> a = b"
  by (auto simp: mac_matches_def mac_exact_def list_all_iff list_eq_iff_nth_eq)

lemma find_in_append: "find P (xs @ ys) = (case find P xs of None \<Rightarrow> find P ys | Some x \<Rightarrow> Some x)"
  by (induction xs) auto

interpretation sarp: learning_table sarp_look sarp_learn sarp_room "\<lambda>bs. length bs = 6"
proof unfold_locales
  fix k :: "u8 list" and v s
  show "sarp_look s k \<noteq> None \<Longrightarrow> sarp_learn k v s = s"
    by (auto simp: sarp_look_def sarp_learn_def sarp_add_def split: prod.splits bool.splits)
  show "\<not> sarp_room s \<Longrightarrow> sarp_learn k v s = s"
    by (auto simp: sarp_room_def sarp_learn_def sarp_add_def)
next
  fix k j :: "u8 list" and v s
  assume "length k = 6" "length j = 6" "sarp_look s k = None" "sarp_room s"
  then show "sarp_look (sarp_learn k v s) j = (if j = k then Some v else sarp_look s j)"
    by (auto simp: sarp_look_def sarp_learn_def sarp_add_def sarp_room_def get_tal_by_mac_def
        find_in_append mac_matches_exact split: option.splits)
qed

lemma sarp_learn_bound:
  "length (eth_sarp s) \<le> unat (max_entries s) \<Longrightarrow>
   length (eth_sarp (sarp_learn bs tal s)) \<le> unat (max_entries (sarp_learn bs tal s))"
  by (auto simp: sarp_learn_def sarp_add_def)

text \<open>C34: What the table of MAC addresses learns.  Over any sequence of source addresses, an
  address that was associated with a terminal stays with it, whatever is learned later; an address
  that the table did not know is associated, if at all, with a terminal it was learned from; and
  the table never exceeds its maximum.\<close>

theorem sarp_learns:
  fixes s :: sarp_table and seen :: "(u8 list \<times> tal_id) list"
  defines "t \<equiv> foldl (\<lambda>t (k, v). sarp_learn k v t) s seen"
  assumes "\<forall>kv \<in> set seen. length (fst kv) = 6" "length bs = 6"
    and "length (eth_sarp s) \<le> unat (max_entries s)"
  shows "(sarp_look s bs = Some tal \<longrightarrow> sarp_look t bs = Some tal) \<and>
    (sarp_look t bs = Some tal \<longrightarrow>
       sarp_look s bs = Some tal \<or> sarp_look s bs = None \<and> (bs, tal) \<in> set seen) \<and>
    length (eth_sarp t) \<le> unat (max_entries t)"
proof (intro conjI impI)
  show "sarp_look t bs = Some tal" if "sarp_look s bs = Some tal"
    using sarp.learns_keep [OF assms(2,3) that] by (simp add: t_def)
  show "sarp_look s bs = Some tal \<or> sarp_look s bs = None \<and> (bs, tal) \<in> set seen"
    if "sarp_look t bs = Some tal"
    using sarp.learns_first [OF assms(2,3)] that by (simp add: t_def)
  show "length (eth_sarp t) \<le> unat (max_entries t)"
    unfolding t_def using assms(4)
    by (induction seen arbitrary: s) (auto simp: sarp_learn_bound)
qed

theorem sarp_learns_witness:
  "sarp_look (foldl (\<lambda>t (k, v). sarp_learn k v t) (new_sarp 0 1)
     [([1,2,3,4,5,6], 7), ([1,2,3,4,5,6], 8), ([6,5,4,3,2,1], 9)]) [1,2,3,4,5,6] = Some 7"
proof -
  let ?t = "foldl (\<lambda>t (k, v). sarp_learn k v t) (new_sarp 0 1)
     [([1,2,3,4,5,6], 7), ([1,2,3,4,5,6], 8), ([6,5,4,3,2,1], 9)]"
  note rules = sarp_learn_def sarp_add_def sarp_look_def get_tal_by_mac_def new_sarp_def
    mac_exact_def mac_matches_def upt_rec
  let ?s = "sarp_learn [1,2,3,4,5,6] 7 (new_sarp 0 1)"
  have "sarp_look ?s [1,2,3,4,5,6] = Some 7" by (simp add: rules)
  moreover have "length (eth_sarp ?s) \<le> unat (max_entries ?s)" by (simp add: rules)
  ultimately show ?thesis
    using sarp_learns [of "[([1,2,3,4,5,6], 8), ([6,5,4,3,2,1], 9)]" "[1,2,3,4,5,6]" ?s 7] by simp
qed

end
