(* ===== verification/Ethernet_Frame.thy ===== *)
theory Ethernet_Frame
  imports Mac_Address Net_Packet
begin

unbundle bit_operations_syntax

text \<open>
  The Ethernet frames that the LAN adaptation reads and writes
  (\<^verbatim>\<open>opensand-core/src/lan_adaptation/Ethernet.cpp\<close>): plain frames, frames with one 802.1Q tag
  and frames with two tags (802.1ad).  The accessors read the frame with \<^verbatim>\<open>at\<close>, which throws out
  of range (\<open>None\<close>).  The theory proves that the accessors find again in a frame what the
  constructor of the header wrote, for each type of frame.
\<close>

section \<open>Protocol numbers\<close>

definition PROTO_ETH :: u16 where "PROTO_ETH = 0x0609"
definition PROTO_ARP :: u16 where "PROTO_ARP = 0x0806"
definition PROTO_1Q :: u16 where "PROTO_1Q = 0x8100"
definition PROTO_1AD :: u16 where "PROTO_1AD = 0x9100"

definition ETHERNET_2_HEADSIZE :: nat where "ETHERNET_2_HEADSIZE = 14"
definition ETHERNET_802_1Q_HEADSIZE :: nat where "ETHERNET_802_1Q_HEADSIZE = 18"
definition ETHERNET_802_1AD_HEADSIZE :: nat where "ETHERNET_802_1AD_HEADSIZE = 22"

lemmas eth_consts = PROTO_ETH_def PROTO_ARP_def PROTO_1Q_def PROTO_1AD_def NET_PROTO_ERROR_def
  ETHERNET_2_HEADSIZE_def ETHERNET_802_1Q_HEADSIZE_def ETHERNET_802_1AD_HEADSIZE_def

section \<open>Reading a frame\<close>

definition be16 :: "u8 \<Rightarrow> u8 \<Rightarrow> u16" where
  "be16 hi lo = push_bit 8 (ucast hi) OR ucast lo"

definition at16 :: "bytes \<Rightarrow> nat \<Rightarrow> u16 option" where
  "at16 d k = (if Suc k < length d then Some (be16 (d ! k) (d ! Suc k)) else None)"

definition get_frame_type :: "bytes \<Rightarrow> u16 option" where
  "get_frame_type d =
     (if length d < 13 then Some NET_PROTO_ERROR
      else do {
        ether_type \<leftarrow> at16 d 12;
        ether_type2 \<leftarrow> at16 d 16;
        Some (if ether_type \<noteq> PROTO_1Q \<and> ether_type \<noteq> PROTO_1AD then PROTO_ETH
              else if ether_type = PROTO_1Q \<and> ether_type2 = PROTO_1Q then PROTO_1AD
              else ether_type) })"

definition inner_ether_type :: "bytes \<Rightarrow> u16 option" where
  "inner_ether_type d = (if length d < 21 then Some NET_PROTO_ERROR else at16 d 20)"

definition get_payload_ether_type :: "bytes \<Rightarrow> u16 option" where
  "get_payload_ether_type d =
     (if length d < 13 then Some NET_PROTO_ERROR
      else do {
        ether_type \<leftarrow> at16 d 12;
        (if ether_type = PROTO_1Q then
           (if length d < 17 then Some NET_PROTO_ERROR
            else do {
              ether_type2 \<leftarrow> at16 d 16;
              (if ether_type2 \<noteq> PROTO_1Q then Some ether_type2 else inner_ether_type d) })
         else if ether_type = PROTO_1AD then inner_ether_type d
         else Some ether_type) })"

definition get_q_tci_of :: "bytes \<Rightarrow> u16 option" where
  "get_q_tci_of d =
     (if length d < 17 then Some 0
      else do {
        ether_type \<leftarrow> at16 d 12;
        (if ether_type = PROTO_1Q then do {
           tci \<leftarrow> at16 d 14;
           ether_type2 \<leftarrow> at16 d 16;
           (if ether_type2 \<noteq> PROTO_1Q then Some tci else at16 d 18) }
         else if ether_type = PROTO_1AD then at16 d 18
         else Some 0) })"

definition get_ad_tci_of :: "bytes \<Rightarrow> u16 option" where
  "get_ad_tci_of d =
     (if length d < 17 then Some 0
      else do {
        ether_type \<leftarrow> at16 d 12;
        ether_type2 \<leftarrow> at16 d 16;
        (if ether_type = PROTO_1Q \<and> ether_type2 = PROTO_1Q \<or> ether_type = PROTO_1AD then at16 d 14
         else Some 0) })"

definition get_dst_mac :: "bytes \<Rightarrow> mac_address" where
  "get_dst_mac d =
     (if length d < 6 then mac_of_bytes 0 0 0 0 0 0
      else mac_of_bytes (d ! 0) (d ! 1) (d ! 2) (d ! 3) (d ! 4) (d ! 5))"

definition get_src_mac :: "bytes \<Rightarrow> mac_address" where
  "get_src_mac d =
     (if length d < 12 then mac_of_bytes 0 0 0 0 0 0
      else mac_of_bytes (d ! 6) (d ! 7) (d ! 8) (d ! 9) (d ! 10) (d ! 11))"

section \<open>Writing a frame\<close>

definition mac_header :: "mac_address \<Rightarrow> mac_address \<Rightarrow> bytes" where
  "mac_header src dst = map (mac_at dst) [0..<6] @ map (mac_at src) [0..<6]"

text \<open>The two tags of an 802.1ad frame both carry the number of 802.1Q.\<close>

definition eth_header :: "mac_address \<Rightarrow> mac_address \<Rightarrow> u16 \<Rightarrow> u16 \<Rightarrow> u16 \<Rightarrow> u16 \<Rightarrow> bytes option" where
  "eth_header src dst ether_type q_tci ad_tci frame =
     (if frame = PROTO_ETH then Some (mac_header src dst @ bytes16 (htons ether_type))
      else if frame = PROTO_1Q then
        Some (mac_header src dst @ bytes16 (htons PROTO_1Q) @ bytes16 (htons q_tci) @
              bytes16 (htons ether_type))
      else if frame = PROTO_1AD then
        Some (mac_header src dst @ bytes16 (htons PROTO_1Q) @ bytes16 (htons ad_tci) @
              bytes16 (htons PROTO_1Q) @ bytes16 (htons q_tci) @ bytes16 (htons ether_type))
      else None)"

definition ethernet_build :: "bytes \<Rightarrow> nat \<Rightarrow> u8 \<Rightarrow> u8 \<Rightarrow> u8 \<Rightarrow> net_packet option" where
  "ethernet_build d len qos src dst =
     (case get_frame_type d of
        None \<Rightarrow> None
      | Some frame \<Rightarrow> Some (new_packet_full d len ''Ethernet'' frame qos src dst
          (if frame = PROTO_1Q then ETHERNET_802_1Q_HEADSIZE
           else if frame = PROTO_1AD then ETHERNET_802_1AD_HEADSIZE
           else ETHERNET_2_HEADSIZE)))"

text \<open>A null pointer is \<open>Some None\<close>.\<close>

definition create_eth_frame ::
  "bytes \<Rightarrow> mac_address \<Rightarrow> mac_address \<Rightarrow> u16 \<Rightarrow> u16 \<Rightarrow> u16 \<Rightarrow> u8 \<Rightarrow> tal_id \<Rightarrow> tal_id \<Rightarrow> u16 \<Rightarrow>
   net_packet option option" where
  "create_eth_frame d src dst ether_type q_tci ad_tci qos src_tal dst_tal frame =
     (case eth_header src dst ether_type q_tci ad_tci frame of
        None \<Rightarrow> Some None
      | Some header \<Rightarrow>
          map_option Some
            (ethernet_build (header @ d) (length (header @ d)) qos (ucast src_tal) (ucast dst_tal)))"

section \<open>What is read from the bytes that were written\<close>

lemma be16_bytes: "be16 (bytes16 (htons w) ! 0) (bytes16 (htons w) ! 1) = w"
  by (rule bit_word_eqI) (auto simp: be16_def bytes16_def bswap16_def bit_simps dest: bit_imp_le_length)

lemma at16_front: "at16 (bytes16 (htons w) @ d) 0 = Some w"
  using be16_bytes [of w] by (simp add: at16_def bytes16_def)

lemma at16_skip: "length a \<le> k \<Longrightarrow> at16 (a @ d) k = at16 d (k - length a)"
  by (auto simp: at16_def nth_append Suc_diff_le not_less)

lemma length_mac_header [simp]: "length (mac_header src dst) = 12"
  by (simp add: mac_header_def)

lemma mac_header_read:
  assumes "mac_wf src" "mac_wf dst"
  shows "get_src_mac (mac_header src dst @ d) = mac_exact (mac_bytes src)"
    "get_dst_mac (mac_header src dst @ d) = mac_exact (mac_bytes dst)"
proof -
  obtain a b c d' e f where s: "mac_bytes src = [a, b, c, d', e, f]"
    using assms(1) by (auto simp: mac_wf_def numeral_eq_Suc length_Suc_conv)
  obtain a' b' c' d'' e' f' where t: "mac_bytes dst = [a', b', c', d'', e', f']"
    using assms(2) by (auto simp: mac_wf_def numeral_eq_Suc length_Suc_conv)
  show "get_src_mac (mac_header src dst @ d) = mac_exact (mac_bytes src)"
    "get_dst_mac (mac_header src dst @ d) = mac_exact (mac_bytes dst)"
    by (simp_all add: get_src_mac_def get_dst_mac_def mac_header_def upt_rec mac_at_def s t
        mac_of_bytes_exact)
qed

text \<open>The condition under which a frame of a type can be told from the others: the protocol of
  the payload is not itself a tag, and the frame has the 18 bytes that the accessors read.\<close>

definition frame_ok :: "u16 \<Rightarrow> u16 \<Rightarrow> bytes \<Rightarrow> bool" where
  "frame_ok frame ether_type d \<longleftrightarrow>
     frame = PROTO_ETH \<and> ether_type \<noteq> PROTO_1Q \<and> ether_type \<noteq> PROTO_1AD \<and> 4 \<le> length d \<or>
     frame = PROTO_1Q \<and> ether_type \<noteq> PROTO_1Q \<or>
     frame = PROTO_1AD"

lemma eth_header_read:
  assumes "frame_ok frame ether_type d"
    and "eth_header src dst ether_type q_tci ad_tci frame = Some h"
  shows "get_frame_type (h @ d) = Some frame"
    "get_payload_ether_type (h @ d) = Some ether_type"
    "get_q_tci_of (h @ d) = Some (if frame = PROTO_ETH then 0 else q_tci)"
    "get_ad_tci_of (h @ d) = Some (if frame = PROTO_1AD then ad_tci else 0)"
proof -
  note rules = at16_front at16_skip get_frame_type_def get_payload_ether_type_def
    get_q_tci_of_def get_ad_tci_of_def inner_ether_type_def eth_header_def
  have ty: "frame = PROTO_ETH \<or> frame = PROTO_1Q \<or> frame = PROTO_1AD"
    using assms(1) by (auto simp: frame_ok_def)
  have two: "at16 d 2 \<bind> (\<lambda>_. Some x) = Some x" if "4 \<le> length d" for x :: u16
    using that by (simp add: at16_def)
  have ne: "PROTO_ETH \<noteq> PROTO_1Q" "PROTO_ETH \<noteq> PROTO_1AD" "PROTO_1Q \<noteq> PROTO_1AD"
    by (simp_all add: eth_consts)
  note ne = ne ne [symmetric]
  show "get_frame_type (h @ d) = Some frame"
    using ty assms by (auto simp: rules ne frame_ok_def two)
  show "get_payload_ether_type (h @ d) = Some ether_type"
    using ty assms by (auto simp: rules ne frame_ok_def two)
  show "get_q_tci_of (h @ d) = Some (if frame = PROTO_ETH then 0 else q_tci)"
    using ty assms by (auto simp: rules ne frame_ok_def two)
  show "get_ad_tci_of (h @ d) = Some (if frame = PROTO_1AD then ad_tci else 0)"
    using ty assms by (auto simp: rules ne frame_ok_def two)
qed

lemma eth_header_macs:
  assumes "eth_header src dst ether_type q_tci ad_tci frame = Some h" "mac_wf src" "mac_wf dst"
  shows "get_src_mac (h @ d) = mac_exact (mac_bytes src)" "get_dst_mac (h @ d) = mac_exact (mac_bytes dst)"
proof -
  obtain h' where "h = mac_header src dst @ h'"
    using assms(1) by (auto simp: eth_header_def split: if_splits)
  then show "get_src_mac (h @ d) = mac_exact (mac_bytes src)" "get_dst_mac (h @ d) = mac_exact (mac_bytes dst)"
    using mac_header_read [OF assms(2,3)] by simp_all
qed

definition frame_head_size :: "u16 \<Rightarrow> nat" where
  "frame_head_size frame = (if frame = PROTO_1Q then ETHERNET_802_1Q_HEADSIZE
     else if frame = PROTO_1AD then ETHERNET_802_1AD_HEADSIZE else ETHERNET_2_HEADSIZE)"

lemma eth_header_length:
  "eth_header src dst ether_type q_tci ad_tci frame = Some h \<Longrightarrow> length h = frame_head_size frame"
  by (auto simp: eth_header_def frame_head_size_def eth_consts split: if_splits)

lemma eth_header_exists:
  "frame_ok frame ether_type d \<Longrightarrow> \<exists>h. eth_header src dst ether_type q_tci ad_tci frame = Some h"
  by (auto simp: eth_header_def frame_ok_def)

lemma full_packet_fields [simp]:
  "cont_data (new_packet_full d n nm ty q s t hdr) = take n d"
  "header_length (new_packet_full d n nm ty q s t hdr) = hdr"
  "trailer_length (new_packet_full d n nm ty q s t hdr) = 0"
  "pkt_type (new_packet_full d n nm ty q s t hdr) = ty"
  "pkt_qos (new_packet_full d n nm ty q s t hdr) = q"
  "src_tal_id (new_packet_full d n nm ty q s t hdr) = s"
  "dst_tal_id (new_packet_full d n nm ty q s t hdr) = t"
  by (simp_all add: new_packet_full_def new_packet_def new_container_def net_container.defs)

lemma full_packet_payload:
  "hdr \<le> length d \<Longrightarrow> length d < 2 ^ 64 \<Longrightarrow>
   get_payload (new_packet_full d (length d) nm ty q s t hdr) = Some (drop hdr d)"
  by (simp add: get_payload_split)

text \<open>The frame that is created, in terms of its header.\<close>

lemma create_eth_frame_ok:
  assumes "frame_ok frame ether_type d"
    and "eth_header src dst ether_type q_tci ad_tci frame = Some h"
  shows "create_eth_frame d src dst ether_type q_tci ad_tci qos s t frame =
    Some (Some (new_packet_full (h @ d) (length (h @ d)) ''Ethernet'' frame qos (ucast s) (ucast t)
      (frame_head_size frame)))"
  by (simp add: create_eth_frame_def ethernet_build_def assms(2) eth_header_read(1) [OF assms]
      frame_head_size_def)

text \<open>The round trip of a frame.  For each of the three types of frame, the frame created
  for a payload is read back as a frame of that type, with the same protocol, addresses and tags
  (those its type carries), and with the payload the caller gave.\<close>

theorem eth_frame_roundtrip:
  assumes "frame_ok frame ether_type d" "mac_wf src" "mac_wf dst" "length d < 2 ^ 63"
  shows "\<exists>p. create_eth_frame d src dst ether_type q_tci ad_tci qos s t frame = Some (Some p) \<and>
    get_frame_type (cont_data p) = Some frame \<and>
    get_payload_ether_type (cont_data p) = Some ether_type \<and>
    get_src_mac (cont_data p) = mac_exact (mac_bytes src) \<and>
    get_dst_mac (cont_data p) = mac_exact (mac_bytes dst) \<and>
    get_q_tci_of (cont_data p) = Some (if frame = PROTO_ETH then 0 else q_tci) \<and>
    get_ad_tci_of (cont_data p) = Some (if frame = PROTO_1AD then ad_tci else 0) \<and>
    get_payload p = Some d"
proof -
  from eth_header_exists [OF assms(1)] obtain h
    where h: "eth_header src dst ether_type q_tci ad_tci frame = Some h" by blast
  let ?p = "new_packet_full (h @ d) (length (h @ d)) ''Ethernet'' frame qos (ucast s) (ucast t)
    (frame_head_size frame)"
  have len: "length h = frame_head_size frame" by (rule eth_header_length [OF h])
  then have "length h \<le> 22" by (simp add: frame_head_size_def eth_consts)
  with assms(4) have "get_payload ?p = Some d"
    using full_packet_payload [of "frame_head_size frame" "h @ d"] by (simp add: len)
  then show ?thesis
    using create_eth_frame_ok [OF assms(1) h] eth_header_read [OF assms(1) h]
      eth_header_macs [OF h assms(2,3)]
    by (intro exI [of _ ?p]) simp
qed

theorem eth_frame_roundtrip_witness:
  "\<exists>p. create_eth_frame [1, 2, 3] (mac_of_bytes 1 2 3 4 5 6) (mac_of_bytes 6 5 4 3 2 1) 0x0800 0xE00A 5
       2 7 8 PROTO_1AD = Some (Some p) \<and> get_q_tci_of (cont_data p) = Some 0xE00A \<and>
     get_payload p = Some [1, 2, 3]"
proof -
  have "frame_ok PROTO_1AD 0x0800 [1, 2, 3]" by (simp add: frame_ok_def)
  moreover have "mac_wf (mac_of_bytes 1 2 3 4 5 6)" "mac_wf (mac_of_bytes 6 5 4 3 2 1)"
    by (simp_all add: mac_wf_def mac_of_bytes_def)
  moreover have "length [1, 2, 3 :: u8] < 2 ^ 63" by simp
  ultimately have "\<exists>p. create_eth_frame [1, 2, 3] (mac_of_bytes 1 2 3 4 5 6) (mac_of_bytes 6 5 4 3 2 1)
       0x0800 0xE00A 5 2 7 8 PROTO_1AD = Some (Some p) \<and>
     get_q_tci_of (cont_data p) = Some (if PROTO_1AD = PROTO_ETH then 0 else 0xE00A) \<and>
     get_payload p = Some [1, 2, 3]"
    using eth_frame_roundtrip [of PROTO_1AD "0x0800" "[1, 2, 3]"] by blast
  then show ?thesis by (simp add: eth_consts)
qed

text \<open>A frame of 13 to 17 bytes is long enough for the check of its length, but not for the bytes
  that are read: the accessor of the type throws.\<close>

lemma short_frame_throws: "13 \<le> length d \<Longrightarrow> length d < 18 \<Longrightarrow> get_frame_type d = None"
  by (auto simp: get_frame_type_def at16_def split: Option.bind_splits)

end
