(* ===== verification/Packet_Switch.thy ===== *)
theory Packet_Switch
  imports Ethernet_Frame
begin

text \<open>
  The packet switch of a terminal, a gateway or a satellite
  (\<^verbatim>\<open>opensand-core/src/lan_adaptation/PacketSwitch.cpp\<close>): which terminal a frame is for, whether
  it is for this entity and whether it must be sent on.  The switch learns the source addresses of
  the frames it sees.  The references that the C++ functions write are values that go in and come
  out; the configuration and the memory that is not set are arguments.
\<close>

section \<open>State\<close>

definition BROADCAST_TAL_ID :: tal_id where "BROADCAST_TAL_ID = 0x1F"

datatype switch_kind =
    Terminal_switch tal_id
  | Gateway_switch
  | Satellite_switch bool "tal_id list"

record packet_switch =
  sw_kind :: switch_kind
  sw_tal_id :: tal_id
  sw_sarp :: sarp_table

definition new_switch ::
  "switch_kind \<Rightarrow> tal_id \<Rightarrow> tal_id \<Rightarrow> (nat \<Rightarrow> mac_address) \<Rightarrow>
   (int option \<times> (int option \<times> string option) list) option \<Rightarrow> packet_switch" where
  "new_switch kind tal unset memory infrastructure =
     \<lparr>sw_kind = kind, sw_tal_id = tal,
      sw_sarp = fst (get_sarp memory infrastructure (new_sarp unset SARP_MAX))\<rparr>"

text \<open>A satellite with inter-satellite links sends what it does not know to the first other
  satellite of the configuration.\<close>

definition new_satellite_switch ::
  "tal_id \<Rightarrow> bool \<Rightarrow> tal_id list \<Rightarrow> tal_id list \<Rightarrow> tal_id \<Rightarrow> (nat \<Rightarrow> mac_address) \<Rightarrow>
   (int option \<times> (int option \<times> string option) list) option \<Rightarrow> packet_switch" where
  "new_satellite_switch tal isl_used isl_entities satellites unset memory infrastructure =
     (let sw = new_switch (Satellite_switch isl_used isl_entities) tal unset memory infrastructure
      in if isl_used then
           (case find (\<lambda>s. s \<noteq> tal) satellites of
              None \<Rightarrow> sw
            | Some s \<Rightarrow> sw\<lparr>sw_sarp := set_default_tal s (sw_sarp sw)\<rparr>)
         else sw)"

section \<open>Operations\<close>

definition switch_learn ::
  "mac_address \<Rightarrow> bytes \<Rightarrow> tal_id \<Rightarrow> packet_switch \<Rightarrow> (packet_switch \<times> bool) option" where
  "switch_learn memory packet src_id sw =
     (case sarp_add (Some (mac_of_string memory (mac_str (get_src_mac packet)))) src_id (sw_sarp sw) of
        None \<Rightarrow> None
      | Some (s, ok) \<Rightarrow> Some (sw\<lparr>sw_sarp := s\<rparr>, ok))"

definition get_packet_destination ::
  "packet_switch \<Rightarrow> bytes \<Rightarrow> tal_id \<Rightarrow> bool \<times> tal_id \<times> tal_id" where
  "get_packet_destination sw packet src_id =
     (let (found_dst, dst) = get_tal_by_mac (get_dst_mac packet) (sw_sarp sw);
          (found_src, src) = get_tal_by_mac (get_src_mac packet) (sw_sarp sw)
      in case sw_kind sw of
           Terminal_switch gw_id \<Rightarrow> (True, sw_tal_id sw, if found_dst then dst else gw_id)
         | Gateway_switch \<Rightarrow> (found_dst, sw_tal_id sw, dst)
         | Satellite_switch isl_on entities \<Rightarrow>
             (if \<not> found_dst then (False, src_id, dst) else (found_src, src, dst)))"

definition is_packet_for_me :: "packet_switch \<Rightarrow> bytes \<Rightarrow> bool \<Rightarrow> bool \<times> bool" where
  "is_packet_for_me sw packet forward =
     (let (known, dst) = get_tal_by_mac (get_dst_mac packet) (sw_sarp sw)
      in case sw_kind sw of
           Terminal_switch gw_id \<Rightarrow> (True, False)
         | Gateway_switch \<Rightarrow>
             (if known then (dst = BROADCAST_TAL_ID \<or> dst = sw_tal_id sw, True)
              else (False, forward))
         | Satellite_switch isl_on entities \<Rightarrow>
             (if \<not> isl_on then (False, True)
              else if \<not> known then (False, forward)
              else (let to_isl = dst \<in> set entities
                    in (dst = BROADCAST_TAL_ID \<or> to_isl, dst = BROADCAST_TAL_ID \<or> \<not> to_isl))))"

section \<open>Properties\<close>

lemma get_macs_wf: "length (mac_bytes (get_src_mac d)) = 6" "length (mac_bytes (get_dst_mac d)) = 6"
  by (simp_all add: get_src_mac_def get_dst_mac_def mac_of_bytes_def)

lemma get_macs_exact:
  "get_src_mac d = mac_exact (mac_bytes (get_src_mac d))"
  "get_dst_mac d = mac_exact (mac_bytes (get_dst_mac d))"
  by (simp_all add: get_src_mac_def get_dst_mac_def mac_of_bytes_def mac_exact_def)

lemma switch_learn_sarp:
  "mac_wf memory \<Longrightarrow>
   \<exists>ok. switch_learn memory packet src sw =
     Some (sw\<lparr>sw_sarp := sarp_learn (mac_bytes (get_src_mac packet)) src (sw_sarp sw)\<rparr>, ok)"
  by (auto simp: switch_learn_def mac_str_exact get_macs_wf sarp_learn_def sarp_add_def)

lemma switch_destination:
  "get_packet_destination sw packet src_id =
     (let dst_look = sarp_look (sw_sarp sw) (mac_bytes (get_dst_mac packet));
          src_look = sarp_look (sw_sarp sw) (mac_bytes (get_src_mac packet));
          dst = (case dst_look of Some d \<Rightarrow> d | None \<Rightarrow> default_dest (sw_sarp sw))
      in case sw_kind sw of
           Terminal_switch gw_id \<Rightarrow>
             (True, sw_tal_id sw, case dst_look of Some d \<Rightarrow> d | None \<Rightarrow> gw_id)
         | Gateway_switch \<Rightarrow> (dst_look \<noteq> None, sw_tal_id sw, dst)
         | Satellite_switch isl_on entities \<Rightarrow>
             (if dst_look = None then (False, src_id, dst)
              else (src_look \<noteq> None,
                    case src_look of Some s \<Rightarrow> s | None \<Rightarrow> default_dest (sw_sarp sw), dst)))"
  using get_tal_by_mac_look [of "mac_bytes (get_dst_mac packet)" "sw_sarp sw"]
    get_tal_by_mac_look [of "mac_bytes (get_src_mac packet)" "sw_sarp sw"]
  by (auto simp: get_packet_destination_def Let_def simp flip: get_macs_exact
      split: option.splits switch_kind.splits)

lemma switch_for_me:
  "is_packet_for_me sw packet forward =
     (let dst_look = sarp_look (sw_sarp sw) (mac_bytes (get_dst_mac packet))
      in case sw_kind sw of
           Terminal_switch gw_id \<Rightarrow> (True, False)
         | Gateway_switch \<Rightarrow>
             (case dst_look of
                None \<Rightarrow> (False, forward)
              | Some dst \<Rightarrow> (dst = BROADCAST_TAL_ID \<or> dst = sw_tal_id sw, True))
         | Satellite_switch isl_on entities \<Rightarrow>
             (if \<not> isl_on then (False, True)
              else (case dst_look of
                      None \<Rightarrow> (False, forward)
                    | Some dst \<Rightarrow> (dst = BROADCAST_TAL_ID \<or> dst \<in> set entities,
                                dst = BROADCAST_TAL_ID \<or> dst \<notin> set entities))))"
  using get_tal_by_mac_look [of "mac_bytes (get_dst_mac packet)" "sw_sarp sw"]
  by (auto simp: is_packet_for_me_def Let_def simp flip: get_macs_exact
      split: option.splits switch_kind.splits)

text \<open>C25: The answer to a frame goes back where the frame came from.  Once a switch that knew
  neither has learned a frame of a terminal and still had room, a frame that is sent to the address
  of that terminal is switched to it: by a terminal and a gateway always, by a satellite when it
  knows the source too.\<close>

theorem answer_is_switched_back:
  assumes "mac_wf memory" "switch_learn memory packet tal sw = Some (sw', ok)"
    and "sarp_look (sw_sarp sw) (mac_bytes (get_src_mac packet)) = None" "sarp_room (sw_sarp sw)"
    and "mac_bytes (get_dst_mac answer) = mac_bytes (get_src_mac packet)"
    and "get_packet_destination sw' answer src = (known, src', dst)"
  shows "dst = tal \<and>
    (known \<longleftrightarrow> (case sw_kind sw of
        Satellite_switch isl_on entities \<Rightarrow> sarp_look (sw_sarp sw') (mac_bytes (get_src_mac answer)) \<noteq> None
      | _ \<Rightarrow> True))"
proof -
  have sw': "sw' = sw\<lparr>sw_sarp := sarp_learn (mac_bytes (get_src_mac packet)) tal (sw_sarp sw)\<rparr>"
    using switch_learn_sarp [OF assms(1), of packet tal sw] assms(2) by auto
  have "sarp_look (sw_sarp sw') (mac_bytes (get_dst_mac answer)) = Some tal"
    using sarp.learn_new [OF _ _ assms(3,4)] by (simp add: sw' assms(5) get_macs_wf)
  then show ?thesis
    using assms(6) by (auto simp: switch_destination sw' Let_def split: switch_kind.splits)
qed

theorem answer_is_switched_back_witness:
  "get_packet_destination
     (fst (the (switch_learn (mac_of_bytes 0 0 0 0 0 0) [9,9,9,9,9,9, 1,2,3,4,5,6] 7
        \<lparr>sw_kind = Gateway_switch, sw_tal_id = 0, sw_sarp = new_sarp 0 50\<rparr>)))
     [1,2,3,4,5,6, 9,9,9,9,9,9] 255 = (True, 0, 7)"
proof -
  let ?m = "mac_of_bytes 0 0 0 0 0 0"
  let ?p = "[9,9,9,9,9,9, 1,2,3,4,5,6] :: bytes"
  let ?sw = "\<lparr>sw_kind = Gateway_switch, sw_tal_id = 0, sw_sarp = new_sarp 0 50\<rparr>"
  have m: "mac_wf ?m" by (simp add: mac_wf_def mac_of_bytes_def)
  from switch_learn_sarp [OF m, of ?p 7 ?sw] obtain ok where
    l: "switch_learn ?m ?p 7 ?sw =
      Some (?sw\<lparr>sw_sarp := sarp_learn (mac_bytes (get_src_mac ?p)) 7 (sw_sarp ?sw)\<rparr>, ok)" by blast
  let ?sw' = "?sw\<lparr>sw_sarp := sarp_learn (mac_bytes (get_src_mac ?p)) 7 (sw_sarp ?sw)\<rparr>"
  obtain known src dst where d: "get_packet_destination ?sw' [1,2,3,4,5,6, 9,9,9,9,9,9] 255 = (known, src, dst)"
    by (metis surj_pair)
  have "sarp_look (sw_sarp ?sw) (mac_bytes (get_src_mac ?p)) = None" "sarp_room (sw_sarp ?sw)"
    "mac_bytes (get_dst_mac [1,2,3,4,5,6, 9,9,9,9,9,9]) = mac_bytes (get_src_mac ?p)"
    by (simp_all add: sarp_look_def get_tal_by_mac_def new_sarp_def sarp_room_def get_dst_mac_def
        get_src_mac_def mac_of_bytes_def)
  from answer_is_switched_back [OF m l this d] have "dst = 7" "known" by simp_all
  with l d show ?thesis by (auto simp: switch_destination Let_def)
qed

text \<open>No frame is lost between the interface and the link.  A switch that knows the
  destination of a frame takes it for its own entity or sends it on, or both; a terminal takes all
  frames; a satellite without inter-satellite links takes none and sends all on.  A frame for an
  unknown destination is neither taken nor sent on by a gateway.\<close>

theorem switch_takes_or_forwards:
  assumes "is_packet_for_me sw packet False = (mine, forward)"
  shows "(sarp_look (sw_sarp sw) (mac_bytes (get_dst_mac packet)) \<noteq> None \<longrightarrow> mine \<or> forward) \<and>
    (\<forall>gw. sw_kind sw = Terminal_switch gw \<longrightarrow> mine \<and> \<not> forward) \<and>
    (\<forall>entities. sw_kind sw = Satellite_switch False entities \<longrightarrow> \<not> mine \<and> forward) \<and>
    (sw_kind sw = Gateway_switch \<and> sarp_look (sw_sarp sw) (mac_bytes (get_dst_mac packet)) = None \<longrightarrow>
       \<not> mine \<and> \<not> forward)"
  using assms
  by (cases "sw_kind sw"; cases "sarp_look (sw_sarp sw) (mac_bytes (get_dst_mac packet))")
    (auto simp: switch_for_me Let_def split: if_splits)

theorem switch_takes_or_forwards_witness:
  "is_packet_for_me \<lparr>sw_kind = Gateway_switch, sw_tal_id = 0, sw_sarp = new_sarp 0 50\<rparr> [1,2,3] False =
     (False, False) \<and>
   \<not> fst (is_packet_for_me \<lparr>sw_kind = Satellite_switch False [], sw_tal_id = 0, sw_sarp = new_sarp 0 50\<rparr>
      [1,2,3] False)"
proof (rule conjI)
  let ?g = "\<lparr>sw_kind = Gateway_switch, sw_tal_id = 0, sw_sarp = new_sarp 0 50\<rparr>"
  let ?s = "\<lparr>sw_kind = Satellite_switch False [], sw_tal_id = 0, sw_sarp = new_sarp 0 50\<rparr>"
  obtain a b where ab: "is_packet_for_me ?g [1,2,3] False = (a, b)" by (metis surj_pair)
  from switch_takes_or_forwards [OF ab] ab show "is_packet_for_me ?g [1,2,3] False = (False, False)"
    by (simp add: sarp_look_def get_tal_by_mac_def new_sarp_def)
  obtain c d where cd: "is_packet_for_me ?s [1,2,3] False = (c, d)" by (metis surj_pair)
  from switch_takes_or_forwards [OF cd] cd show "\<not> fst (is_packet_for_me ?s [1,2,3] False)" by simp
qed

end
