(* ===== verification/Ethernet_Lan.thy ===== *)
theory Ethernet_Lan
  imports Packet_Switch Ordered_Map Floating
begin

unbundle bit_operations_syntax

text \<open>
  The Ethernet context of the LAN adaptation (\<^verbatim>\<open>opensand-core/src/lan_adaptation/Ethernet.cpp\<close>,
  \<^verbatim>\<open>Evc.cpp\<close>, \<^verbatim>\<open>common/TrafficCategory.cpp\<close>): virtual connections (EVC), traffic categories, the
  change of the tags of a frame between the network and the satellite, and the statistics.  A burst
  without maximum is the list of its packets; a null pointer is \<open>None\<close> inside \<open>Some\<close>, and a fault
  (an exception that nobody catches, the end of a map dereferenced) is \<open>None\<close>.
\<close>

section \<open>Virtual connections and traffic categories\<close>

record evc =
  evc_src :: mac_address
  evc_dst :: mac_address
  evc_q :: u32
  evc_ad :: u32
  evc_type :: u16

definition new_evc :: "mac_address \<Rightarrow> mac_address \<Rightarrow> u16 \<Rightarrow> u16 \<Rightarrow> u16 \<Rightarrow> evc" where
  "new_evc src dst q_tci ad_tci ether_type =
     \<lparr>evc_src = src, evc_dst = dst, evc_q = ucast q_tci AND 0xFFFF, evc_ad = ucast ad_tci AND 0xFFFF,
      evc_type = ether_type\<rparr>"

definition evc_q_tci :: "evc \<Rightarrow> u32" where
  "evc_q_tci e = (evc_q e AND 0xFFFF) OR push_bit 16 (ucast PROTO_1Q)"

definition evc_ad_tci :: "evc \<Rightarrow> u32" where
  "evc_ad_tci e = (evc_ad e AND 0xFFFF) OR push_bit 16 (ucast PROTO_1Q)"

definition evc_matches :: "mac_address \<Rightarrow> mac_address \<Rightarrow> u16 \<Rightarrow> evc \<Rightarrow> bool" where
  "evc_matches src dst ether_type e \<longleftrightarrow>
     mac_matches (evc_src e) src \<and> mac_matches (evc_dst e) dst \<and> evc_type e = ether_type"

definition evc_matches_q :: "mac_address \<Rightarrow> mac_address \<Rightarrow> u16 \<Rightarrow> u16 \<Rightarrow> evc \<Rightarrow> bool" where
  "evc_matches_q src dst q_tci ether_type e \<longleftrightarrow>
     mac_matches (evc_src e) src \<and> mac_matches (evc_dst e) dst \<and> evc_q e = ucast q_tci \<and>
     evc_type e = ether_type"

definition evc_matches_ad :: "mac_address \<Rightarrow> mac_address \<Rightarrow> u16 \<Rightarrow> u16 \<Rightarrow> u16 \<Rightarrow> evc \<Rightarrow> bool" where
  "evc_matches_ad src dst q_tci ad_tci ether_type e \<longleftrightarrow>
     mac_matches (evc_src e) src \<and> mac_matches (evc_dst e) dst \<and> evc_q e = ucast q_tci \<and>
     evc_ad e = ucast ad_tci \<and> evc_type e = ether_type"

record traffic_category =
  tc_id :: qos
  tc_name :: string
  tc_pcp :: qos

definition new_traffic_category :: "qos \<Rightarrow> traffic_category" where
  "new_traffic_category pcp = \<lparr>tc_id = 0, tc_name = [], tc_pcp = pcp\<rparr>"

section \<open>The context\<close>

type_synonym u64 = "64 word"

record eth_context =
  evc_map :: "(u8, evc) omap"
  evc_data_size :: "(u8, u64) omap"
  evc_probes :: "u8 list"
  category_map :: "(qos, traffic_category) omap"
  default_category :: traffic_category
  lan_frame_type :: u16
  sat_frame_type :: u16

definition frame_type_of_text :: "string \<Rightarrow> u16" where
  "frame_type_of_text s =
     (if s = ''Ethernet'' then PROTO_ETH
      else if s = ''802.1Q'' then PROTO_1Q
      else if s = ''802.1ad'' then PROTO_1AD
      else NET_PROTO_ERROR)"

definition get_evc :: "mac_address \<Rightarrow> mac_address \<Rightarrow> u16 \<Rightarrow> eth_context \<Rightarrow> (u8 \<times> evc) option" where
  "get_evc src dst ether_type c = find (\<lambda>(i, e). evc_matches src dst ether_type e) (evc_map c)"

definition get_evc_q ::
  "mac_address \<Rightarrow> mac_address \<Rightarrow> u16 \<Rightarrow> u16 \<Rightarrow> eth_context \<Rightarrow> (u8 \<times> evc) option" where
  "get_evc_q src dst q_tci ether_type c =
     find (\<lambda>(i, e). evc_matches_q src dst q_tci ether_type e) (evc_map c)"

definition get_evc_ad ::
  "mac_address \<Rightarrow> mac_address \<Rightarrow> u16 \<Rightarrow> u16 \<Rightarrow> u16 \<Rightarrow> eth_context \<Rightarrow> (u8 \<times> evc) option" where
  "get_evc_ad src dst q_tci ad_tci ether_type c =
     find (\<lambda>(i, e). evc_matches_ad src dst q_tci ad_tci ether_type e) (evc_map c)"

definition evc_id_of :: "(u8 \<times> evc) option \<Rightarrow> u8" where
  "evc_id_of found = (case found of None \<Rightarrow> 0 | Some (i, e) \<Rightarrow> i)"

definition queue_of_pcp :: "eth_context \<Rightarrow> qos \<Rightarrow> qos" where
  "queue_of_pcp c pcp =
     (case map_of (category_map c) pcp of None \<Rightarrow> tc_id (default_category c) | Some t \<Rightarrow> tc_id t)"

text \<open>The connection of a frame, and the size of its header.\<close>

definition evc_of_frame ::
  "u16 \<Rightarrow> mac_address \<Rightarrow> mac_address \<Rightarrow> u16 \<Rightarrow> u16 \<Rightarrow> u16 \<Rightarrow> eth_context \<Rightarrow> (u8 \<times> evc) option" where
  "evc_of_frame frame src dst q_tci ad_tci ether_type c =
     (if frame = PROTO_ETH then get_evc src dst ether_type c
      else if frame = PROTO_1Q then get_evc_q src dst q_tci ether_type c
      else get_evc_ad src dst q_tci ad_tci ether_type c)"

definition is_eth_frame :: "u16 \<Rightarrow> bool" where
  "is_eth_frame frame \<longleftrightarrow> frame = PROTO_ETH \<or> frame = PROTO_1Q \<or> frame = PROTO_1AD"

section \<open>Initialisation\<close>

text \<open>Reading a 16-bit number in base 16 from a string stream: an empty text leaves the variable
  unset, an overflow gives the largest value.\<close>

definition hex16_of_string :: "u16 \<Rightarrow> string \<Rightarrow> u16" where
  "hex16_of_string memory s =
     (let text = skip_blanks s;
          (neg, digits) = skip_sign text;
          n = scan_hex (skip_0x digits) 0
      in if text = [] then memory
         else if n \<ge> 2 ^ 16 then 0xFFFF
         else if neg then - of_nat n else of_nat n)"

type_synonym evc_item =
  "int option \<times> string option \<times> string option \<times> int option \<times> int option \<times> string option"

fun init_evc_loop ::
  "(nat \<Rightarrow> mac_address \<times> mac_address \<times> u16) \<Rightarrow> evc_item list \<Rightarrow> eth_context \<Rightarrow> eth_context \<times> bool" where
  "init_evc_loop memory [] c = (c, True)"
| "init_evc_loop memory (item # items) c =
     (case item of
        (Some i, Some src, Some dst, Some q, Some ad, Some protocol) \<Rightarrow>
          (let (m_src, m_dst, m_pt) = memory (length items);
               ident = word_of_int i;
               e = new_evc (mac_of_string m_src src) (mac_of_string m_dst dst) (word_of_int q)
                     (word_of_int ad) (hex16_of_string m_pt protocol)
           in if map_of (evc_map c) ident \<noteq> None then (c, False)
              else init_evc_loop memory items (c\<lparr>evc_map := omap_put ident e (evc_map c)\<rparr>))
      | _ \<Rightarrow> (c, False))"

definition init_stats :: "eth_context \<Rightarrow> eth_context" where
  "init_stats c = c\<lparr>evc_probes := 0 # filter (\<lambda>i. i \<noteq> 0) (map fst (evc_map c))\<rparr>"

definition init_evc ::
  "(nat \<Rightarrow> mac_address \<times> mac_address \<times> u16) \<Rightarrow> evc_item list \<Rightarrow> eth_context \<Rightarrow> eth_context \<times> bool" where
  "init_evc memory items c =
     (case init_evc_loop memory items c of
        (c', False) \<Rightarrow> (c', False)
      | (c', True) \<Rightarrow> (init_stats c', True))"

text \<open>The queue of a category is the rank of the first appearance of its FIFO.\<close>

type_synonym category_item = "int option \<times> string option \<times> string option"

fun init_categories_loop ::
  "category_item list \<Rightarrow> (string \<times> nat) list \<Rightarrow> eth_context \<Rightarrow> eth_context \<times> bool" where
  "init_categories_loop [] prios c = (c, True)"
| "init_categories_loop ((pcp, fifo, class_name) # items) prios c =
     (case (pcp, fifo) of
        (Some p, Some f) \<Rightarrow>
          (let prios' = (if map_of prios f = None then prios @ [(f, length prios)] else prios);
               prio = the (map_of prios' f);
               key = word_of_int p
           in case class_name of
                None \<Rightarrow> (c, False)
              | Some n \<Rightarrow>
                  (if map_of (category_map c) key \<noteq> None then (c, False)
                   else init_categories_loop items prios'
                     (c\<lparr>category_map := omap_put key
                        ((new_traffic_category key)\<lparr>tc_id := of_nat prio, tc_name := n\<rparr>) (category_map c)\<rparr>)))
      | _ \<Rightarrow> (c, False))"

definition init_categories ::
  "category_item list \<Rightarrow> int option \<Rightarrow> eth_context \<Rightarrow> eth_context \<times> bool" where
  "init_categories items default_pcp c =
     (case init_categories_loop items [] c of
        (c', False) \<Rightarrow> (c', False)
      | (c', True) \<Rightarrow>
          (case default_pcp of
             None \<Rightarrow> (c', False)
           | Some p \<Rightarrow>
               (case map_of (category_map c') (word_of_int p) of
                  None \<Rightarrow> (c', False)
                | Some t \<Rightarrow> (c'\<lparr>default_category := t\<rparr>, True))))"

definition eth_context_init ::
  "(nat \<Rightarrow> mac_address \<times> mac_address \<times> u16) \<Rightarrow> string option \<Rightarrow> string option \<Rightarrow> evc_item list \<Rightarrow>
   category_item list \<Rightarrow> int option \<Rightarrow> eth_context \<Rightarrow> eth_context \<times> bool" where
  "eth_context_init memory lan_eth sat_eth evcs categories default_pcp c =
     (case (lan_eth, sat_eth) of
        (Some lan, Some sat) \<Rightarrow>
          (case init_evc memory evcs c of
             (c1, False) \<Rightarrow> (c1, False)
           | (c1, True) \<Rightarrow>
               (case init_categories categories default_pcp c1 of
                  (c2, False) \<Rightarrow> (c2, False)
                | (c2, True) \<Rightarrow>
                    (c2\<lparr>lan_frame_type := frame_type_of_text lan,
                        sat_frame_type := frame_type_of_text sat\<rparr>, True)))
      | _ \<Rightarrow> (c, False))"

section \<open>Encapsulation of a packet of the network\<close>

text \<open>The priority of a connection is computed with a comparison where a shift was meant, so it is
  0 or 1.  The log of a tagged frame reads the category that was looked up, found or not.\<close>

definition pcp_of_evc :: "evc \<Rightarrow> qos" where
  "pcp_of_evc e = (if evc_q_tci e AND 0xE000 > 13 then 1 else 0)"

definition pcp_of_tci :: "u16 \<Rightarrow> qos" where
  "pcp_of_tci q_tci = ucast (drop_bit 13 (q_tci AND 0xE000))"

definition lan_queue :: "eth_context \<Rightarrow> u16 \<Rightarrow> qos \<Rightarrow> qos" where
  "lan_queue c frame_type pcp =
     (if frame_type = PROTO_ETH then tc_id (default_category c) else queue_of_pcp c pcp)"

definition encap_tags :: "eth_context \<Rightarrow> (u8 \<times> evc) option \<Rightarrow> u16 \<Rightarrow> u16 \<Rightarrow> qos \<Rightarrow> u16 \<times> u16 \<times> qos" where
  "encap_tags c found q_tci ad_tci qos =
     (case found of
        None \<Rightarrow> (q_tci, ad_tci, qos)
      | Some (i, e) \<Rightarrow> (ucast (evc_q_tci e AND 0xFFFF), ucast (evc_ad_tci e AND 0xFFFF),
          queue_of_pcp c (pcp_of_evc e)))"

definition encap_lan_packet ::
  "eth_context \<Rightarrow> packet_switch \<Rightarrow> net_packet \<Rightarrow> (net_packet option \<times> u8) option" where
  "encap_lan_packet c sw packet = do {
     let d = cont_data packet;
     let src_mac = get_src_mac d;
     let dst_mac = get_dst_mac d;
     ether_type \<leftarrow> get_payload_ether_type d;
     frame_type \<leftarrow> get_frame_type d;
     q_tci \<leftarrow> get_q_tci_of d;
     ad_tci \<leftarrow> get_ad_tci_of d;
     let pcp = pcp_of_tci q_tci;
     let (known, src, dst) = get_packet_destination sw d 255;
     (if \<not> known \<and> dst > BROADCAST_TAL_ID then Some (None, 0)
      else if \<not> is_eth_frame frame_type then Some (None, 0)
      else if frame_type \<noteq> PROTO_ETH \<and> map_of (category_map c) pcp = None then None
      else do {
        let found = evc_of_frame frame_type src_mac dst_mac q_tci ad_tci ether_type c;
        let qos = lan_queue c frame_type pcp;
        (if frame_type \<noteq> sat_frame_type c then do {
           let (q, ad, qos) = encap_tags c found q_tci ad_tci qos;
           payload \<leftarrow> substr d (frame_head_size frame_type) (length d);
           frame \<leftarrow> create_eth_frame payload src_mac dst_mac ether_type q ad qos src dst (sat_frame_type c);
           Some (frame, evc_id_of found) }
         else do {
           frame \<leftarrow> ethernet_build d (get_total_length packet) qos (ucast src) (ucast dst);
           Some (Some frame, evc_id_of found) }) }) }"

section \<open>Encapsulation of a packet of an upper protocol\<close>

text \<open>The last category of the quality of service gives the tag; the addresses of the terminals are
  read from the text of those in the table.\<close>

definition tag_of_qos :: "eth_context \<Rightarrow> qos \<Rightarrow> u16" where
  "tag_of_qos c q =
     foldl (\<lambda>ad (pcp, t). if tc_id t = q then ucast pcp else ad) 0 (category_map c)"

definition encap_upper_packet ::
  "(nat \<Rightarrow> mac_address) \<Rightarrow> eth_context \<Rightarrow> packet_switch \<Rightarrow> net_packet \<Rightarrow>
   (net_packet option \<times> u8) option" where
  "encap_upper_packet memory c sw packet =
     (let q = pkt_qos packet;
          src_tal = ucast (src_tal_id packet);
          dst_tal = ucast (dst_tal_id packet);
          ether_type = pkt_type packet;
          ad_tci = tag_of_qos c q;
          (src_known, src_macs) = get_mac_by_tal (memory 0) src_tal (sw_sarp sw);
          (dst_known, dst_macs) = get_mac_by_tal (memory 1) dst_tal (sw_sarp sw)
      in if \<not> src_known \<or> \<not> dst_known then Some (None, 0)
         else
          (let found = List.map_filter
                 (\<lambda>(s, d). get_evc_ad s d 0 ad_tci ether_type c) (List.product src_macs dst_macs);
               (src, dst, q_tci, ad, evc_id) =
                 (case found of
                    [] \<Rightarrow> (hd src_macs, hd dst_macs, 0, ucast (tc_pcp (default_category c)), 0)
                  | (i, e) # rest \<Rightarrow>
                      (evc_src e, evc_dst e, ucast (evc_q_tci e AND 0xFFFF),
                       ucast (evc_ad_tci e AND 0xFFFF), i))
           in map_option (\<lambda>frame. (frame, evc_id))
                (create_eth_frame (cont_data packet) src dst ether_type q_tci ad q src_tal dst_tal
                   (sat_frame_type c))))"

section \<open>Bursts and statistics\<close>

definition count_evc :: "u8 \<Rightarrow> nat \<Rightarrow> eth_context \<Rightarrow> eth_context" where
  "count_evc i n c = c\<lparr>evc_data_size :=
     omap_put i ((case map_of (evc_data_size c) i of None \<Rightarrow> 0 | Some s \<Rightarrow> s) + of_nat n) (evc_data_size c)\<rparr>"

fun encap_loop ::
  "(eth_context \<Rightarrow> net_packet \<Rightarrow> (net_packet option \<times> u8) option) \<Rightarrow> eth_context \<Rightarrow>
   net_packet list \<Rightarrow> net_packet list \<Rightarrow> (eth_context \<times> net_packet list) option" where
  "encap_loop one c [] frames = Some (c, frames)"
| "encap_loop one c (p # ps) frames =
     (case one c p of
        None \<Rightarrow> None
      | Some (None, i) \<Rightarrow> encap_loop one c ps frames
      | Some (Some frame, i) \<Rightarrow>
          encap_loop one (count_evc i (get_total_length frame) c) ps (frames @ [frame]))"

text \<open>\<open>upper\<close> is the protocol above, if any: its name and its constructor of packets.  No empty
  burst is returned.\<close>

type_synonym upper = "(string \<times> (bytes \<Rightarrow> nat \<Rightarrow> u8 \<Rightarrow> u8 \<Rightarrow> u8 \<Rightarrow> net_packet option)) option"

definition eth_encapsulate ::
  "upper \<Rightarrow> (nat \<Rightarrow> mac_address) \<Rightarrow> packet_switch \<Rightarrow> eth_context \<Rightarrow> net_packet list \<Rightarrow>
   (eth_context \<times> net_packet list option) option" where
  "eth_encapsulate upper memory sw c burst =
     (case encap_loop (\<lambda>c p. if upper = None then encap_lan_packet c sw p else encap_upper_packet memory c sw p)
             c burst [] of
        None \<Rightarrow> None
      | Some (c', frames) \<Rightarrow> Some (c', if frames = [] then None else Some frames))"

section \<open>Deencapsulation\<close>

text \<open>The destination given to the packets is never set: an argument.\<close>

definition decap_tags :: "(u8 \<times> evc) option \<Rightarrow> u16 \<Rightarrow> u16 \<Rightarrow> u16 \<times> u16" where
  "decap_tags found q_tci ad_tci =
     (case found of
        None \<Rightarrow> (q_tci, ad_tci)
      | Some (i, e) \<Rightarrow> (ucast (evc_q_tci e AND 0xFFFF), ucast (evc_ad_tci e AND 0xFFFF)))"

definition decap_packet ::
  "upper \<Rightarrow> tal_id \<Rightarrow> eth_context \<Rightarrow> net_packet \<Rightarrow> (eth_context \<times> net_packet option) option" where
  "decap_packet upper unset c packet = do {
     let d = cont_data packet;
     let src_mac = get_src_mac d;
     let dst_mac = get_dst_mac d;
     q_tci \<leftarrow> get_q_tci_of d;
     ad_tci \<leftarrow> get_ad_tci_of d;
     ether_type \<leftarrow> get_payload_ether_type d;
     frame_type \<leftarrow> get_frame_type d;
     (if \<not> is_eth_frame frame_type then Some (c, None)
      else do {
        let found = evc_of_frame frame_type src_mac dst_mac q_tci ad_tci ether_type c;
        let c' = count_evc (evc_id_of found) (get_total_length packet) c;
        (case upper of
           Some (upper_name, build) \<Rightarrow>
             (if ether_type = PROTO_ARP \<and> upper_name = ''IP'' then Some (c', None)
              else do {
                payload \<leftarrow> get_payload packet;
                Some (c', build payload (get_payload_length packet) (pkt_qos packet)
                  (src_tal_id packet) (dst_tal_id packet)) })
         | None \<Rightarrow>
             (if frame_type \<noteq> lan_frame_type c then do {
                let (q, ad) = decap_tags found q_tci ad_tci;
                payload \<leftarrow> substr d (frame_head_size frame_type) (length d);
                frame \<leftarrow> create_eth_frame payload src_mac dst_mac ether_type q ad (pkt_qos packet)
                  (ucast (src_tal_id packet)) unset (lan_frame_type c);
                Some (c', frame) }
              else do {
                frame \<leftarrow> ethernet_build d (get_total_length packet) (pkt_qos packet)
                  (src_tal_id packet) (ucast unset);
                Some (c', Some frame) })) }) }"

fun decap_packets ::
  "upper \<Rightarrow> (nat \<Rightarrow> tal_id) \<Rightarrow> eth_context \<Rightarrow> net_packet list \<Rightarrow> net_packet list \<Rightarrow>
   (eth_context \<times> net_packet list) option" where
  "decap_packets upper unset c [] packets = Some (c, packets)"
| "decap_packets upper unset c (p # ps) packets =
     (case decap_packet upper (unset (length ps)) c p of
        None \<Rightarrow> None
      | Some (c', None) \<Rightarrow> decap_packets upper unset c' ps packets
      | Some (c', Some q) \<Rightarrow> decap_packets upper unset c' ps (packets @ [q]))"

text \<open>The front of an empty burst is read.\<close>

definition eth_deencapsulate ::
  "upper \<Rightarrow> (nat \<Rightarrow> tal_id) \<Rightarrow> eth_context \<Rightarrow> net_packet list option \<Rightarrow>
   (eth_context \<times> net_packet list option) option" where
  "eth_deencapsulate upper unset c burst =
     (case burst of
        None \<Rightarrow> Some (c, None)
      | Some [] \<Rightarrow> None
      | Some (p # ps) \<Rightarrow>
          map_option (\<lambda>(c', packets). (c', Some packets)) (decap_packets upper unset c (p # ps) []))"

text \<open>The statistics of a period: the throughput is computed on integers, and put in the probes of
  the connection, or in the default ones.  The probes take a \<^verbatim>\<open>float\<close>, to which both integers
  are converted.\<close>

fun stats_loop ::
  "u8 list \<Rightarrow> u32 \<Rightarrow> (u8, u64) omap \<Rightarrow> ((u8 \<times> rat \<times> rat) list) option" where
  "stats_loop probes period [] = Some []"
| "stats_loop probes period ((i, len) # rest) = do {
     throughput \<leftarrow> udiv (len * 8) (ucast period);
     puts \<leftarrow> stats_loop probes period rest;
     Some ((if i \<in> set probes then i else 0, fl32 (num throughput), fl32 (num len)) # puts) }"

definition update_stats ::
  "u32 \<Rightarrow> eth_context \<Rightarrow> (eth_context \<times> (u8 \<times> rat \<times> rat) list) option" where
  "update_stats period c = do {
     puts \<leftarrow> stats_loop (evc_probes c) period (evc_data_size c);
     Some (c\<lparr>evc_data_size := map (\<lambda>(i, len). (i, 0)) (evc_data_size c)\<rparr>, puts) }"

section \<open>A frame on its way\<close>

text \<open>Bytes that carry a payload between two addresses, as a frame of a type.\<close>

definition carries :: "bytes \<Rightarrow> u16 \<Rightarrow> u8 list \<Rightarrow> u8 list \<Rightarrow> u16 \<Rightarrow> bytes \<Rightarrow> bool" where
  "carries raw frame src dst ether_type d \<longleftrightarrow> (\<exists>q ad h.
     eth_header (mac_exact src) (mac_exact dst) ether_type q ad frame = Some h \<and> raw = h @ d)"

lemma mac_exact_wf: "length bs = 6 \<Longrightarrow> mac_wf (mac_exact bs)"
  by (simp add: mac_wf_def mac_exact_def)

lemma mac_bytes_exact [simp]: "mac_bytes (mac_exact bs) = bs"
  by (simp add: mac_exact_def)

lemma carries_read:
  assumes "carries raw frame src dst ether_type d" "frame_ok frame ether_type d"
    and "length src = 6" "length dst = 6"
  shows "get_frame_type raw = Some frame" "get_payload_ether_type raw = Some ether_type"
    "\<exists>q. get_q_tci_of raw = Some q" "\<exists>ad. get_ad_tci_of raw = Some ad"
    "get_src_mac raw = mac_exact src" "get_dst_mac raw = mac_exact dst"
    "substr raw (frame_head_size frame) (length raw) = Some d" "is_eth_frame frame"
proof -
  obtain q ad h where h: "eth_header (mac_exact src) (mac_exact dst) ether_type q ad frame = Some h"
    and raw: "raw = h @ d" using assms(1) by (auto simp: carries_def)
  note rd = eth_header_read [OF assms(2) h] eth_header_macs [OF h mac_exact_wf mac_exact_wf]
  show "get_frame_type raw = Some frame" "get_payload_ether_type raw = Some ether_type"
    "\<exists>q. get_q_tci_of raw = Some q" "\<exists>ad. get_ad_tci_of raw = Some ad"
    "get_src_mac raw = mac_exact src" "get_dst_mac raw = mac_exact dst"
    using rd assms(3,4) by (simp_all add: raw)
  show "substr raw (frame_head_size frame) (length raw) = Some d"
    by (simp add: raw substr_def flip: eth_header_length [OF h])
  show "is_eth_frame frame" using assms(2) by (auto simp: frame_ok_def is_eth_frame_def)
qed

text \<open>A frame that is created, or built again, carries what it was given.\<close>

lemma create_carries:
  assumes "frame_ok frame ether_type d"
  shows "\<exists>f. create_eth_frame d (mac_exact src) (mac_exact dst) ether_type q ad qos s t frame =
      Some (Some f) \<and> carries (cont_data f) frame src dst ether_type d \<and> pkt_qos f = qos \<and>
    src_tal_id f = ucast s \<and> dst_tal_id f = ucast t \<and> header_length f = frame_head_size frame \<and>
    trailer_length f = 0"
proof -
  from eth_header_exists [OF assms] obtain h
    where h: "eth_header (mac_exact src) (mac_exact dst) ether_type q ad frame = Some h" by blast
  from create_eth_frame_ok [OF assms h] h show ?thesis by (auto simp: carries_def)
qed

lemma build_carries:
  assumes "carries raw frame src dst ether_type d" "frame_ok frame ether_type d"
    and "length src = 6" "length dst = 6"
  shows "\<exists>f. ethernet_build raw (length raw) qos s t = Some f \<and>
    carries (cont_data f) frame src dst ether_type d \<and> pkt_qos f = qos \<and>
    src_tal_id f = s \<and> dst_tal_id f = t \<and> header_length f = frame_head_size frame \<and>
    trailer_length f = 0"
  using assms(1) by (simp add: ethernet_build_def carries_read(1) [OF assms] frame_head_size_def)

lemma ucast_u8_u16 [simp]: "ucast (ucast (b :: u8) :: u16) = b"
  by (rule bit_word_eqI) (auto simp: bit_simps)

lemma encap_carries:
  assumes "carries (cont_data p) frame src dst ether_type d" "frame_ok frame ether_type d"
    and "frame_ok (sat_frame_type c) ether_type d" "length src = 6" "length dst = 6"
    and "get_q_tci_of (cont_data p) = Some q"
    and "frame = PROTO_ETH \<or> map_of (category_map c) (pcp_of_tci q) \<noteq> None"
    and "get_packet_destination sw (cont_data p) 255 = (known, s, t)" "known \<or> t \<le> BROADCAST_TAL_ID"
  shows "\<exists>f i. encap_lan_packet c sw p = Some (Some f, i) \<and>
    carries (cont_data f) (sat_frame_type c) src dst ether_type d \<and>
    src_tal_id f = ucast s \<and> dst_tal_id f = ucast t"
proof -
  note rd = carries_read [OF assms(1,2,4,5)]
  obtain ad where ad: "get_ad_tci_of (cont_data p) = Some ad" using rd(4) by blast
  have dest: "\<not> (\<not> known \<and> BROADCAST_TAL_ID < t)" using assms(9) by auto
  have cat: "\<not> (frame \<noteq> PROTO_ETH \<and> map_of (category_map c) (pcp_of_tci q) = None)"
    using assms(7) by blast
  let ?found = "evc_of_frame frame (mac_exact src) (mac_exact dst) q ad ether_type c"
  show ?thesis
  proof (cases "frame = sat_frame_type c")
    case True
    let ?qos = "lan_queue c frame (pcp_of_tci q)"
    obtain f where f: "ethernet_build (cont_data p) (length (cont_data p)) ?qos (ucast s) (ucast t) = Some f"
      "carries (cont_data f) frame src dst ether_type d" "src_tal_id f = ucast s" "dst_tal_id f = ucast t"
      using build_carries [OF assms(1,2,4,5)] by blast
    have "encap_lan_packet c sw p = Some (Some f, evc_id_of ?found)"
      using dest cat
      by (simp add: encap_lan_packet_def rd ad assms(6,8) f(1) Let_def get_total_length_def
          True [symmetric] del: not_None_eq)
    with f True show ?thesis by blast
  next
    case False
    let ?qos = "lan_queue c frame (pcp_of_tci q)"
    obtain q' ad' qos' where t: "encap_tags c ?found q ad ?qos = (q', ad', qos')" by (metis surj_pair)
    obtain f where f: "create_eth_frame d (mac_exact src) (mac_exact dst) ether_type q' ad' qos' s t
        (sat_frame_type c) = Some (Some f)" "carries (cont_data f) (sat_frame_type c) src dst ether_type d"
      "src_tal_id f = ucast s" "dst_tal_id f = ucast t"
      using create_carries [OF assms(3)] by blast
    have "encap_lan_packet c sw p = Some (Some f, evc_id_of ?found)"
      using False dest cat t
      by (simp add: encap_lan_packet_def rd ad assms(6,8) f(1) Let_def del: not_None_eq)
    with f show ?thesis by blast
  qed
qed

lemma decap_carries:
  assumes "carries (cont_data p) frame src dst ether_type d" "frame_ok frame ether_type d"
    and "frame_ok (lan_frame_type c) ether_type d" "length src = 6" "length dst = 6"
  shows "\<exists>c' f. decap_packet None unset c p = Some (c', Some f) \<and>
    carries (cont_data f) (lan_frame_type c) src dst ether_type d \<and>
    pkt_qos f = pkt_qos p \<and> src_tal_id f = src_tal_id p \<and>
    header_length f = frame_head_size (lan_frame_type c) \<and> trailer_length f = 0"
proof -
  note rd = carries_read [OF assms(1,2,4,5)]
  obtain q where q: "get_q_tci_of (cont_data p) = Some q" using rd(3) by blast
  obtain ad where ad: "get_ad_tci_of (cont_data p) = Some ad" using rd(4) by blast
  let ?found = "evc_of_frame frame (mac_exact src) (mac_exact dst) q ad ether_type c"
  show ?thesis
  proof (cases "frame = lan_frame_type c")
    case True
    obtain f where f: "ethernet_build (cont_data p) (length (cont_data p)) (pkt_qos p) (src_tal_id p)
        (ucast unset) = Some f" "carries (cont_data f) frame src dst ether_type d"
      "pkt_qos f = pkt_qos p" "src_tal_id f = src_tal_id p" "header_length f = frame_head_size frame"
      "trailer_length f = 0"
      using build_carries [OF assms(1,2,4,5)] by blast
    have "decap_packet None unset c p =
        Some (count_evc (evc_id_of ?found) (get_total_length p) c, Some f)"
      by (simp add: decap_packet_def rd q ad f(1) Let_def get_total_length_def True [symmetric])
    with f True show ?thesis by auto
  next
    case False
    obtain q' ad' where t: "decap_tags ?found q ad = (q', ad')" by (metis surj_pair)
    obtain f where f: "create_eth_frame d (mac_exact src) (mac_exact dst) ether_type q' ad' (pkt_qos p)
        (ucast (src_tal_id p)) unset (lan_frame_type c) = Some (Some f)"
      "carries (cont_data f) (lan_frame_type c) src dst ether_type d" "pkt_qos f = pkt_qos p"
      "src_tal_id f = ucast (ucast (src_tal_id p) :: tal_id)"
      "header_length f = frame_head_size (lan_frame_type c)" "trailer_length f = 0"
      using create_carries [OF assms(3)] by blast
    have "decap_packet None unset c p =
        Some (count_evc (evc_id_of ?found) (get_total_length p) c, Some f)"
      using False t by (simp add: decap_packet_def rd q ad f(1) Let_def)
    with f show ?thesis by simp
  qed
qed

text \<open>C3: A frame crosses the satellite unharmed.  A frame of the network that is switched to a
  terminal and has a known priority is changed into a frame of the satellite; at the other side,
  with the same type of frames on the network, it is changed back into a frame of the same type,
  with the same protocol, addresses and payload.  Each side may match it to any virtual
  connection.\<close>

theorem frame_crosses_satellite:
  assumes "eth_header (mac_exact src) (mac_exact dst) ether_type q ad (lan_frame_type c2) = Some h"
    and "frame_ok (lan_frame_type c2) ether_type d" "frame_ok (sat_frame_type c1) ether_type d"
    and "length src = 6" "length dst = 6" "length d < 2 ^ 63"
    and "lan_frame_type c2 = PROTO_ETH \<or> map_of (category_map c1) (pcp_of_tci q) \<noteq> None"
    and "fst (get_packet_destination sw (h @ d) 255)"
  shows "\<exists>f i c2' g. encap_lan_packet c1 sw (new_packet (h @ d)) = Some (Some f, i) \<and>
    decap_packet None unset c2 f = Some (c2', Some g) \<and>
    get_frame_type (cont_data f) = Some (sat_frame_type c1) \<and>
    get_frame_type (cont_data g) = Some (lan_frame_type c2) \<and>
    get_payload_ether_type (cont_data g) = Some ether_type \<and>
    get_src_mac (cont_data g) = mac_exact src \<and> get_dst_mac (cont_data g) = mac_exact dst \<and>
    get_payload g = Some d \<and> pkt_qos g = pkt_qos f \<and> src_tal_id g = src_tal_id f"
proof -
  have p: "cont_data (new_packet (h @ d)) = h @ d"
    by (simp add: new_packet_def new_container_def net_container.defs)
  then have car: "carries (cont_data (new_packet (h @ d))) (lan_frame_type c2) src dst ether_type d"
    using assms(1) by (auto simp: carries_def)
  have q: "lan_frame_type c2 = PROTO_ETH \<or> get_q_tci_of (h @ d) = Some q"
    using eth_header_read(3) [OF assms(2,1)] by auto
  obtain q' where q': "get_q_tci_of (h @ d) = Some q'"
    using carries_read(3) [OF car assms(2,4,5)] p by auto
  obtain known s t where dest: "get_packet_destination sw (h @ d) 255 = (known, s, t)" "known"
    using assms(8) by (metis prod.collapse)
  obtain f i where f: "encap_lan_packet c1 sw (new_packet (h @ d)) = Some (Some f, i)"
    "carries (cont_data f) (sat_frame_type c1) src dst ether_type d"
    using encap_carries [OF car assms(2,3,4,5), of q' sw known s t] q q' dest assms(7) p by auto
  obtain c2' g where g: "decap_packet None unset c2 f = Some (c2', Some g)"
    "carries (cont_data g) (lan_frame_type c2) src dst ether_type d" "pkt_qos g = pkt_qos f"
    "src_tal_id g = src_tal_id f" "header_length g = frame_head_size (lan_frame_type c2)"
    "trailer_length g = 0"
    using decap_carries [OF f(2) assms(3,2,4,5)] by blast
  obtain h' where h': "cont_data g = h' @ d" "length h' = frame_head_size (lan_frame_type c2)"
    using g(2) by (auto simp: carries_def eth_header_length)
  then have "get_payload g = Some d"
    using assms(6) get_payload_split [of g] by (simp add: g(5,6) frame_head_size_def eth_consts)
  then show ?thesis
    using f g(1,3,4) carries_read [OF f(2) assms(3,4,5)] carries_read [OF g(2) assms(2,4,5)] by blast
qed

theorem frame_crosses_satellite_witness:
  "\<exists>f i c2' g. encap_lan_packet
       \<lparr>evc_map = [], evc_data_size = [], evc_probes = [0], category_map = [(0, new_traffic_category 0)],
        default_category = new_traffic_category 0, lan_frame_type = PROTO_ETH, sat_frame_type = PROTO_1AD\<rparr>
       \<lparr>sw_kind = Terminal_switch 0, sw_tal_id = 3, sw_sarp = new_sarp 0 50\<rparr>
       (new_packet ([6,5,4,3,2,1, 1,2,3,4,5,6, 8,0] @ [11,12,13,14])) = Some (Some f, i) \<and>
     decap_packet None 9
       \<lparr>evc_map = [], evc_data_size = [], evc_probes = [0], category_map = [],
        default_category = new_traffic_category 0, lan_frame_type = PROTO_ETH, sat_frame_type = PROTO_1AD\<rparr> f =
       Some (c2', Some g) \<and>
     get_frame_type (cont_data f) = Some PROTO_1AD \<and> get_payload g = Some [11,12,13,14]"
proof -
  let ?c1 = "\<lparr>evc_map = [], evc_data_size = [], evc_probes = [0], category_map = [(0, new_traffic_category 0)],
        default_category = new_traffic_category 0, lan_frame_type = PROTO_ETH, sat_frame_type = PROTO_1AD\<rparr>"
  let ?c2 = "\<lparr>evc_map = [], evc_data_size = [], evc_probes = [0], category_map = [],
        default_category = new_traffic_category 0, lan_frame_type = PROTO_ETH, sat_frame_type = PROTO_1AD\<rparr>"
  let ?sw = "\<lparr>sw_kind = Terminal_switch 0, sw_tal_id = 3, sw_sarp = new_sarp 0 50\<rparr>"
  have h: "eth_header (mac_exact [1,2,3,4,5,6]) (mac_exact [6,5,4,3,2,1]) 0x0800 0 0 (lan_frame_type ?c2) =
      Some [6,5,4,3,2,1, 1,2,3,4,5,6, 8,0]"
    by (simp add: eth_header_def eth_consts mac_header_def upt_rec mac_at_def mac_exact_def bytes16_def
        bswap16_def)
  have "frame_ok (lan_frame_type ?c2) 0x0800 [11,12,13,14]" "frame_ok (sat_frame_type ?c1) 0x0800 [11,12,13,14]"
    by (simp_all add: frame_ok_def eth_consts)
  moreover have "fst (get_packet_destination ?sw ([6,5,4,3,2,1, 1,2,3,4,5,6, 8,0] @ [11,12,13,14]) 255)"
    by (simp add: switch_destination Let_def)
  moreover have "lan_frame_type ?c2 = PROTO_ETH \<or> map_of (category_map ?c1) (pcp_of_tci 0) \<noteq> None" by simp
  ultimately show ?thesis
    using frame_crosses_satellite [OF h, of "[11,12,13,14]" ?c1 ?sw 9] by simp blast
qed

text \<open>A priority without a category.  A tagged frame that is switched to a terminal but whose
  priority is not in the configuration makes the encapsulation use the end of the map of the
  categories, though it chose the default queue for it.\<close>

theorem unknown_priority_faults:
  assumes "eth_header (mac_exact src) (mac_exact dst) ether_type q ad frame = Some h"
    and "frame_ok frame ether_type d" "frame \<noteq> PROTO_ETH" "length src = 6" "length dst = 6"
    and "map_of (category_map c) (pcp_of_tci q) = None" "cont_data p = h @ d"
    and "fst (get_packet_destination sw (h @ d) 255)"
  shows "encap_lan_packet c sw p = None"
proof -
  have car: "carries (cont_data p) frame src dst ether_type d"
    using assms(1,7) by (auto simp: carries_def)
  have q: "get_q_tci_of (h @ d) = Some q" using eth_header_read(3) [OF assms(2,1)] assms(3) by simp
  obtain ad where ad: "get_ad_tci_of (cont_data p) = Some ad"
    using carries_read(4) [OF car assms(2,4,5)] by blast
  obtain s t where "get_packet_destination sw (h @ d) 255 = (True, s, t)"
    using assms(8) by (metis prod.collapse)
  then show ?thesis
    using carries_read [OF car assms(2,4,5)] ad q
    by (simp add: encap_lan_packet_def assms(3,6,7) Let_def)
qed

theorem unknown_priority_faults_witness:
  "encap_lan_packet
     \<lparr>evc_map = [], evc_data_size = [], evc_probes = [0], category_map = [(0, new_traffic_category 0)],
      default_category = new_traffic_category 0, lan_frame_type = PROTO_1Q, sat_frame_type = PROTO_1Q\<rparr>
     \<lparr>sw_kind = Terminal_switch 0, sw_tal_id = 3, sw_sarp = new_sarp 0 50\<rparr>
     (new_packet ([6,5,4,3,2,1, 1,2,3,4,5,6, 0x81,0, 0xE0,7, 8,0] @ [11])) = None"
proof -
  have h: "eth_header (mac_exact [1,2,3,4,5,6]) (mac_exact [6,5,4,3,2,1]) 0x0800 0xE007 0 PROTO_1Q =
      Some [6,5,4,3,2,1, 1,2,3,4,5,6, 0x81,0, 0xE0,7, 8,0]"
    by (simp add: eth_header_def eth_consts mac_header_def upt_rec mac_at_def mac_exact_def bytes16_def
        bswap16_def)
  have "frame_ok PROTO_1Q 0x0800 [11]" "PROTO_1Q \<noteq> PROTO_ETH"
    by (simp_all add: frame_ok_def eth_consts)
  then show ?thesis
    by (rule unknown_priority_faults [OF h])
      (simp_all add: switch_destination Let_def new_packet_def new_container_def net_container.defs
        pcp_of_tci_def)
qed

text \<open>The priority of a connection is lost: 1 for all but the priority 0.\<close>

lemma high_bits_multiple: "\<exists>k. unat (q AND 0xE000 :: u16) = 8192 * k"
proof -
  have "NOT (mask 13) = (0xE000 :: u16)" by (simp add: mask_eq_exp_minus_1)
  moreover have "q AND NOT (mask 13) = push_bit 13 (drop_bit 13 q)"
    by (rule bit_word_eqI) (auto simp: bit_simps)
  ultimately have "q AND 0xE000 = push_bit 13 (drop_bit 13 q)" by simp
  then have "unat (q AND 0xE000) = push_bit 13 (take_bit 3 (unat (drop_bit 13 q)))"
    by (simp add: unsigned_push_bit_eq take_bit_push_bit)
  then show ?thesis by (auto simp: push_bit_eq_mult)
qed

lemma pcp_of_evc_flag: "pcp_of_evc (new_evc src dst q ad ty) = (if q AND 0xE000 = 0 then 0 else 1)"
proof -
  have "evc_q_tci (new_evc src dst q ad ty) AND 0xE000 = (ucast q :: u32) AND 0xE000"
    by (simp add: evc_q_tci_def new_evc_def PROTO_1Q_def bit.conj_disj_distrib2 and.assoc)
  also have "\<dots> = ucast (q AND 0xE000)" by (simp add: unsigned_and_eq)
  finally have e: "evc_q_tci (new_evc src dst q ad ty) AND 0xE000 = ucast (q AND 0xE000)" .
  obtain k where k: "unat (q AND 0xE000) = 8192 * k" using high_bits_multiple by blast
  then have "(13 :: u32) < ucast (q AND 0xE000) \<longleftrightarrow> 0 < k"
    by (cases k) (simp_all add: word_less_nat_alt)
  moreover have "q AND 0xE000 = 0 \<longleftrightarrow> k = 0" using k by (simp add: word_unat_eq_iff)
  ultimately show ?thesis by (simp add: pcp_of_evc_def e)
qed

section \<open>The statistics account for every frame\<close>

definition evc_bytes :: "eth_context \<Rightarrow> u64" where
  "evc_bytes c = sum_list (map snd (evc_data_size c))"

lemma omap_put_sum:
  assumes "omap_wf m"
  shows "sum_list (map snd (omap_put k v m)) =
    sum_list (map snd m) - (case map_of m k of None \<Rightarrow> 0 | Some old \<Rightarrow> old) + (v :: 'a::ab_group_add)"
  using assms
proof (induction k v m rule: omap_put.induct)
  case (2 k v k' v' m)
  have "k < k' \<Longrightarrow> map_of m k = None"
    using 2(2) by (auto simp: omap_wf_Cons map_of_eq_None_iff dest: order.strict_trans)
  with 2 show ?case by (auto simp: omap_wf_Cons algebra_simps)
qed simp

lemma count_evc_bytes:
  "omap_wf (evc_data_size c) \<Longrightarrow> evc_bytes (count_evc i n c) = evc_bytes c + of_nat n"
  by (simp add: evc_bytes_def count_evc_def omap_put_sum split: option.split)

lemma count_evc_wf: "omap_wf (evc_data_size c) \<Longrightarrow> omap_wf (evc_data_size (count_evc i n c))"
  by (simp add: count_evc_def omap_put_wf)

lemma encap_loop_counts:
  "encap_loop one c ps frames = Some (c', frames') \<Longrightarrow> omap_wf (evc_data_size c) \<Longrightarrow>
   omap_wf (evc_data_size c') \<and>
   (\<exists>new. frames' = frames @ new \<and> length new \<le> length ps \<and>
      evc_bytes c' = evc_bytes c + of_nat (sum_list (map get_total_length new)))"
proof (induction ps arbitrary: c frames)
  case Nil
  then show ?case by simp
next
  case (Cons p ps)
  obtain r i where one: "one c p = Some (r, i)" using Cons.prems(1) by (auto split: option.splits)
  show ?case
  proof (cases r)
    case None
    with Cons one show ?thesis by (fastforce simp: le_Suc_eq)
  next
    case (Some f)
    have "encap_loop one (count_evc i (get_total_length f) c) ps (frames @ [f]) = Some (c', frames')"
      using Cons.prems(1) one Some by simp
    from Cons.IH [OF this count_evc_wf [OF Cons.prems(2)]] obtain new where
      "omap_wf (evc_data_size c')" "frames' = (frames @ [f]) @ new" "length new \<le> length ps"
      "evc_bytes c' = evc_bytes (count_evc i (get_total_length f) c) +
         of_nat (sum_list (map get_total_length new))" by blast
    then show ?thesis
      by (intro conjI exI [of _ "f # new"]) (simp_all add: count_evc_bytes [OF Cons.prems(2)])
  qed
qed

lemma stats_loop_puts:
  "stats_loop probes period m = Some puts \<Longrightarrow> map (snd \<circ> snd) puts = map (\<lambda>(i, len). fl32 (num len)) m"
  by (induction m arbitrary: puts) (auto split: Option.bind_splits)

lemma stats_reset: "sum_list (map (snd \<circ> (\<lambda>(i, len). (i, 0 :: u64))) m) = 0"
  by (induction m) auto

lemma floats_error:
  "\<bar>(\<Sum>(i, len) \<leftarrow> m. fl32 (num len)) - (\<Sum>(i, len) \<leftarrow> m. num len)\<bar> \<le> (\<Sum>(i, len) \<leftarrow> m. num len) / 2 ^ 24"
proof (induction m)
  case (Cons e m)
  obtain i len where e: "e = (i, len)" by (cases e)
  define s where "s = num len"
  have f: "\<bar>fl32 s - s\<bar> \<le> s / 2 ^ 24" using fl_error [of 24 s] by (simp add: s_def)
  have t: "\<bar>(a + b) - (s + d)\<bar> \<le> x + y" if "\<bar>a - s\<bar> \<le> x" "\<bar>b - d\<bar> \<le> y" for a b d x y :: rat
    using that by (simp add: abs_le_iff)
  show ?case using t [OF f Cons.IH] by (simp add: e s_def add_divide_distrib)
qed simp

lemma small_counter:
  fixes w :: u64
  assumes "w < 2 ^ 24"
  shows "unat w < 2 ^ 24" "fl32 (num w) = of_nat (unat w)"
proof -
  show w: "unat w < 2 ^ 24" using assms by (simp add: word_less_nat_alt)
  then have "\<bar>int (unat w)\<bar> < 2 ^ 24" by (simp del: of_nat_unat)
  then have "fl32 (of_int (int (unat w))) = of_int (int (unat w))" by (rule fl_of_int)
  then show "fl32 (num w) = of_nat (unat w)" by (simp only: num_def of_int_of_nat_eq)
qed

text \<open>Counters of less than 24 bits are put exactly, and their sum does not wrap.\<close>

lemma small_counters:
  fixes m :: "(u8, u64) omap"
  assumes "\<forall>e \<in> set m. snd e < 2 ^ 24" "length m \<le> n" "n \<le> 256"
  shows "(\<Sum>(i, len) \<leftarrow> m. fl32 (num len)) = num (sum_list (map snd m)) \<and>
    unat (sum_list (map snd m)) \<le> length m * 2 ^ 24"
  using assms
proof (induction m arbitrary: n)
  case Nil
  then show ?case by (simp add: num_def)
next
  case (Cons e m)
  obtain i len where e: "e = (i, len)" by (cases e)
  have len: "len < 2 ^ 24" using Cons.prems(1) by (simp add: e)
  have IH: "(\<Sum>(i, len) \<leftarrow> m. fl32 (num len)) = num (sum_list (map snd m))"
    "unat (sum_list (map snd m)) \<le> length m * 2 ^ 24"
    using Cons.IH [of n] Cons.prems by simp_all
  have "length m * 2 ^ 24 \<le> 256 * 2 ^ 24" using Cons.prems(2,3) by (intro mult_right_mono) simp_all
  with IH(2) small_counter(1) [OF len] have "unat len + unat (sum_list (map snd m)) < 2 ^ 64" by simp
  then have u: "unat (len + sum_list (map snd m)) = unat len + unat (sum_list (map snd m))"
    by (intro unat_add_small) simp
  have "num (len + sum_list (map snd m)) = of_nat (unat len) + num (sum_list (map snd m))"
    by (simp only: num_def u of_nat_add)
  with IH(1) small_counter(2) [OF len]
  have "(\<Sum>(i, len) \<leftarrow> e # m. fl32 (num len)) = num (sum_list (map snd (e # m)))" by (simp add: e)
  moreover have "unat (sum_list (map snd (e # m))) \<le> length (e # m) * 2 ^ 24"
    using u IH(2) small_counter(1) [OF len] by (simp add: e)
  ultimately show ?case ..
qed

lemma omap_u8_length:
  fixes m :: "(u8, 'v) omap"
  assumes "omap_wf m"
  shows "length m \<le> 256"
proof -
  have "distinct (map fst m)" using assms by (simp add: omap_wf_def strict_sorted_iff)
  then have "length m = card (fst ` set m)" by (metis distinct_card length_map list.set_map)
  also have "\<dots> \<le> card (UNIV :: u8 set)" by (intro card_mono) simp_all
  finally show ?thesis by (simp add: card_word)
qed

text \<open>C33: The statistics of the LAN.  The bytes counted for the virtual connections grow by the bytes
  of the frames that are handed to the satellite, and no packet gives more than one frame.  At the end
  of a period each counter is put in a probe as a single precision number, the probes together within
  one part in \<open>2^24\<close> of what was counted, exactly the bytes counted when no connection carried \<open>2^24\<close>
  of them; the counters restart from 0.\<close>

theorem lan_bytes_accounted:
  assumes "eth_encapsulate upper memory sw c burst = Some (c1, frames)"
    and "omap_wf (evc_data_size c)" "update_stats period c1 = Some (c2, puts)"
  shows "evc_bytes c1 = evc_bytes c +
      of_nat (sum_list (map get_total_length (case frames of None \<Rightarrow> [] | Some fs \<Rightarrow> fs))) \<and>
    length (case frames of None \<Rightarrow> [] | Some fs \<Rightarrow> fs) \<le> length burst \<and>
    map (snd \<circ> snd) puts = map (\<lambda>(i, len). fl32 (num len)) (evc_data_size c1) \<and>
    \<bar>sum_list (map (snd \<circ> snd) puts) - (\<Sum>(i, len) \<leftarrow> evc_data_size c1. num len)\<bar> \<le>
      (\<Sum>(i, len) \<leftarrow> evc_data_size c1. num len) / 2 ^ 24 \<and>
    ((\<forall>e \<in> set (evc_data_size c1). snd e < 2 ^ 24) \<longrightarrow>
      sum_list (map (snd \<circ> snd) puts) = num (evc_bytes c1)) \<and>
    evc_bytes c2 = 0"
proof -
  obtain fs where fs: "encap_loop (\<lambda>c p. if upper = None then encap_lan_packet c sw p
      else encap_upper_packet memory c sw p) c burst [] = Some (c1, fs)"
    "frames = (if fs = [] then None else Some fs)"
    using assms(1) by (auto simp: eth_encapsulate_def split: option.splits)
  have eq: "(case frames of None \<Rightarrow> [] | Some fs \<Rightarrow> fs) = fs" by (simp add: fs(2))
  from encap_loop_counts [OF fs(1) assms(2)]
  have counts: "evc_bytes c1 = evc_bytes c + of_nat (sum_list (map get_total_length fs))"
    "length fs \<le> length burst" and wf: "omap_wf (evc_data_size c1)" by auto
  from assms(3) have c2: "c2 = c1\<lparr>evc_data_size := map (\<lambda>(i, len). (i, 0)) (evc_data_size c1)\<rparr>"
    "stats_loop (evc_probes c1) period (evc_data_size c1) = Some puts"
    by (auto simp: update_stats_def split: Option.bind_splits)
  note puts = stats_loop_puts [OF c2(2)]
  have "(\<forall>e \<in> set (evc_data_size c1). snd e < 2 ^ 24) \<Longrightarrow>
      sum_list (map (snd \<circ> snd) puts) = num (evc_bytes c1)"
    using small_counters [OF _ omap_u8_length [OF wf] order_refl] by (simp only: puts evc_bytes_def)
  moreover have "evc_bytes c2 = 0"
    by (simp add: c2(1) evc_bytes_def stats_reset)
  ultimately show ?thesis using counts puts floats_error [of "evc_data_size c1"] unfolding eq puts by blast
qed

section \<open>The queues of the categories\<close>

definition prios_ok :: "(string \<times> nat) list \<Rightarrow> bool" where
  "prios_ok prios \<longleftrightarrow> distinct (map fst prios) \<and> map snd prios = [0..<length prios]"

lemma prios_ok_add: "prios_ok prios \<Longrightarrow> map_of prios f = None \<Longrightarrow> prios_ok (prios @ [(f, length prios)])"
  by (simp add: prios_ok_def map_of_eq_None_iff)

lemma prios_ok_inj:
  assumes "prios_ok prios" "map_of prios f = Some v" "map_of prios g = Some v"
  shows "f = g"
proof -
  have "distinct (map snd prios)" using assms(1) by (simp add: prios_ok_def)
  moreover have "(f, v) \<in> set prios" "(g, v) \<in> set prios" using assms(2,3) by (auto dest: map_of_SomeD)
  ultimately show ?thesis by (metis distinct_map inj_onD prod.inject snd_conv)
qed

lemma prios_ok_less: "prios_ok prios \<Longrightarrow> map_of prios f = Some v \<Longrightarrow> v < length prios"
  by (metis atLeastLessThan_iff imageI map_of_SomeD prios_ok_def set_map set_upt snd_conv)

text \<open>What the loop promises of a category that was read.\<close>

definition category_read :: "eth_context \<Rightarrow> (string \<times> nat) list \<Rightarrow> category_item \<Rightarrow> bool" where
  "category_read c prios item \<longleftrightarrow> (case item of
     (Some p, Some f, Some n) \<Rightarrow>
       (case (map_of (category_map c) (word_of_int p), map_of prios f) of
          (Some t, Some v) \<Rightarrow> tc_id t = of_nat v \<and> tc_name t = n
        | _ \<Rightarrow> False)
   | _ \<Rightarrow> False)"

lemma categories_loop:
  assumes "init_categories_loop items prios c = (c', True)" "prios_ok prios"
  shows "\<exists>prios'. prios_ok prios' \<and> length prios' \<le> length prios + length items \<and>
    (map_of prios \<subseteq>\<^sub>m map_of prios') \<and> (map_of (category_map c) \<subseteq>\<^sub>m map_of (category_map c')) \<and>
    (\<forall>item \<in> set items. category_read c' prios' item)"
  using assms
proof (induction items arbitrary: prios c)
  case Nil
  then show ?case by auto
next
  case (Cons item items)
  obtain p f n where item: "item = (Some p, Some f, Some n)"
    using Cons.prems(1) by (cases item) (auto simp: Let_def split: option.splits)
  let ?prios = "if map_of prios f = None then prios @ [(f, length prios)] else prios"
  let ?key = "word_of_int p :: qos"
  let ?cat = "(new_traffic_category ?key)\<lparr>tc_id := of_nat (the (map_of ?prios f)), tc_name := n\<rparr>"
  let ?c = "c\<lparr>category_map := omap_put ?key ?cat (category_map c)\<rparr>"
  have new: "map_of (category_map c) ?key = None" and rec: "init_categories_loop items ?prios ?c = (c', True)"
    using Cons.prems(1) by (auto simp: item Let_def split: if_splits)
  have ok: "prios_ok ?prios" using Cons.prems(2) by (auto simp: prios_ok_add)
  from Cons.IH [OF rec ok] obtain prios' where
    p': "prios_ok prios'" "length prios' \<le> length ?prios + length items" "map_of ?prios \<subseteq>\<^sub>m map_of prios'"
    "map_of (category_map ?c) \<subseteq>\<^sub>m map_of (category_map c')"
    "\<forall>item \<in> set items. category_read c' prios' item" by blast
  have "map_of prios \<subseteq>\<^sub>m map_of ?prios" by (auto simp: map_le_def)
  moreover have "map_of (category_map c) \<subseteq>\<^sub>m map_of (category_map ?c)"
    using new by (auto simp: map_le_def map_of_omap_put)
  moreover have "map_of (category_map c') ?key = Some ?cat"
    using p'(4) by (auto simp: map_le_def map_of_omap_put)
  moreover obtain v where v: "map_of ?prios f = Some v" by (cases "map_of prios f") (auto simp: map_add_def)
  moreover have "map_of prios' f = Some v" using p'(3) v by (metis domI map_le_def)
  ultimately have "category_read c' prios' item"
    by (simp add: category_read_def item del: omap_put.simps)
  moreover have "length prios' \<le> length prios + length (item # items)" using p'(2) by (auto split: if_splits)
  ultimately show ?case
    using p' \<open>map_of prios \<subseteq>\<^sub>m map_of ?prios\<close>
      \<open>map_of (category_map c) \<subseteq>\<^sub>m map_of (category_map ?c)\<close>
    by (intro exI [of _ prios']) (auto intro: map_le_trans)
qed

text \<open>Two classes of service share a queue exactly when they share a FIFO.  After the
  configuration of at most 255 classes was accepted, each class has a category with its name under
  its priority, and the queues of two categories are the same if and only if their classes name
  the same FIFO.\<close>

theorem categories_share_fifo:
  assumes "init_categories items default_pcp c = (c', True)" "length items \<le> 255"
    and "(pcp1, fifo1, name1) \<in> set items" "(pcp2, fifo2, name2) \<in> set items"
  shows "\<exists>p1 p2 t1 t2. pcp1 = Some p1 \<and> pcp2 = Some p2 \<and>
    map_of (category_map c') (word_of_int p1) = Some t1 \<and>
    map_of (category_map c') (word_of_int p2) = Some t2 \<and>
    name1 = Some (tc_name t1) \<and> name2 = Some (tc_name t2) \<and>
    (tc_id t1 = tc_id t2 \<longleftrightarrow> fifo1 = fifo2)"
proof -
  obtain c1 where c1: "init_categories_loop items [] c = (c1, True)" "category_map c' = category_map c1"
    using assms(1) by (auto simp: init_categories_def split: prod.splits bool.splits option.splits)
  from categories_loop [OF c1(1)] obtain prios where
    pr: "prios_ok prios" "length prios \<le> length items" "\<forall>item \<in> set items. category_read c1 prios item"
    by (auto simp: prios_ok_def)
  from pr(3) assms(3,4) have "category_read c1 prios (pcp1, fifo1, name1)"
    "category_read c1 prios (pcp2, fifo2, name2)" by auto
  then obtain p1 f1 t1 v1 p2 f2 t2 v2 where
    r: "pcp1 = Some p1" "fifo1 = Some f1" "name1 = Some (tc_name t1)" "map_of prios f1 = Some v1"
    "map_of (category_map c1) (word_of_int p1) = Some t1" "tc_id t1 = of_nat v1"
    "pcp2 = Some p2" "fifo2 = Some f2" "name2 = Some (tc_name t2)" "map_of prios f2 = Some v2"
    "map_of (category_map c1) (word_of_int p2) = Some t2" "tc_id t2 = of_nat v2"
    by (auto simp: category_read_def split: option.splits)
  have "v1 < 256" "v2 < 256"
    using prios_ok_less [OF pr(1) r(4)] prios_ok_less [OF pr(1) r(10)] pr(2) assms(2) by auto
  then have "tc_id t1 = tc_id t2 \<longleftrightarrow> v1 = v2"
    by (auto simp: r word_unat_eq_iff unsigned_of_nat take_bit_nat_eq_self)
  moreover have "v1 = v2 \<longleftrightarrow> f1 = f2" using prios_ok_inj [OF pr(1)] r(4,10) by auto
  ultimately show ?thesis using r by (auto simp: c1(2))
qed

theorem categories_share_fifo_witness:
  "\<exists>t1 t2. map_of (category_map (fst (init_categories
       [(Some 0, Some ''BE'', Some ''best effort''), (Some 5, Some ''EF'', Some ''voice''),
        (Some 6, Some ''BE'', Some ''other'')] (Some 0)
       \<lparr>evc_map = [], evc_data_size = [], evc_probes = [], category_map = [],
        default_category = new_traffic_category 0, lan_frame_type = 0, sat_frame_type = 0\<rparr>))) 5 = Some t1 \<and>
     map_of (category_map (fst (init_categories
       [(Some 0, Some ''BE'', Some ''best effort''), (Some 5, Some ''EF'', Some ''voice''),
        (Some 6, Some ''BE'', Some ''other'')] (Some 0)
       \<lparr>evc_map = [], evc_data_size = [], evc_probes = [], category_map = [],
        default_category = new_traffic_category 0, lan_frame_type = 0, sat_frame_type = 0\<rparr>))) 6 = Some t2 \<and>
     tc_id t1 \<noteq> tc_id t2"
proof -
  let ?items = "[(Some 0, Some ''BE'', Some ''best effort''), (Some 5, Some ''EF'', Some ''voice''),
        (Some 6, Some ''BE'', Some ''other'')]"
  let ?c = "\<lparr>evc_map = [], evc_data_size = [], evc_probes = [], category_map = [],
        default_category = new_traffic_category 0, lan_frame_type = 0, sat_frame_type = 0\<rparr>"
  have "snd (init_categories ?items (Some 0) ?c)"
    by (simp add: init_categories_def new_traffic_category_def)
  then have i: "init_categories ?items (Some 0) ?c = (fst (init_categories ?items (Some 0) ?c), True)"
    by (simp add: prod_eq_iff)
  have "length ?items \<le> 255" by simp
  from categories_share_fifo [OF i this, of "Some 5" "Some ''EF''" "Some ''voice''" "Some 6" "Some ''BE''"
      "Some ''other''"]
  show ?thesis by auto
qed

theorem lan_bytes_accounted_witness:
  "\<exists>c1 frames c2 puts. eth_encapsulate None (\<lambda>_. mac_of_bytes 0 0 0 0 0 0)
      \<lparr>sw_kind = Terminal_switch 0, sw_tal_id = 3, sw_sarp = new_sarp 0 50\<rparr>
      \<lparr>evc_map = [], evc_data_size = [], evc_probes = [0], category_map = [],
       default_category = new_traffic_category 0, lan_frame_type = PROTO_ETH, sat_frame_type = PROTO_ETH\<rparr>
      [new_packet [6,5,4,3,2,1, 1,2,3,4,5,6, 8,0, 11,12,13,14]] = Some (c1, Some frames) \<and>
    update_stats 1000 c1 = Some (c2, puts) \<and> sum_list (map (snd \<circ> snd) puts) = 18"
proof -
  let ?c = "\<lparr>evc_map = [], evc_data_size = [], evc_probes = [0], category_map = [],
       default_category = new_traffic_category 0, lan_frame_type = PROTO_ETH, sat_frame_type = PROTO_ETH\<rparr>"
  let ?sw = "\<lparr>sw_kind = Terminal_switch 0, sw_tal_id = 3, sw_sarp = new_sarp 0 50\<rparr>"
  let ?d = "[6,5,4,3,2,1, 1,2,3,4,5,6, 8,0, 11,12,13,14] :: bytes"
  let ?f = "new_packet_full ?d (length ?d) ''Ethernet'' PROTO_ETH 0 3 0 14"
  let ?c1 = "count_evc 0 (length ?d) ?c"
  let ?mem = "\<lambda>_ :: nat. mac_of_bytes 0 0 0 0 0 0"
  have p: "cont_data (new_packet ?d) = ?d"
    by (simp add: new_packet_def new_container_def net_container.defs)
  have dest: "get_packet_destination ?sw ?d 255 = (True, 3, 0)"
    by (simp add: switch_destination Let_def sarp_look_def get_tal_by_mac_def new_sarp_def)
  have one: "encap_lan_packet ?c ?sw (new_packet ?d) = Some (Some ?f, 0)"
    unfolding encap_lan_packet_def p
    by (simp add: dest Let_def get_payload_ether_type_def get_frame_type_def get_q_tci_of_def
        get_ad_tci_of_def at16_def be16_def eth_consts is_eth_frame_def evc_of_frame_def get_evc_def
        evc_id_of_def lan_queue_def new_traffic_category_def ethernet_build_def get_total_length_def p)
  then have e: "eth_encapsulate None ?mem ?sw ?c [new_packet ?d] = Some (?c1, Some [?f])"
    by (simp add: eth_encapsulate_def get_total_length_def)
  obtain c2 puts where u: "update_stats 1000 ?c1 = Some (c2, puts)"
    by (simp add: update_stats_def count_evc_def)
  have "sum_list (map (snd \<circ> snd) puts) = 18"
    using lan_bytes_accounted [OF e _ u] fl_of_int [of 18 24]
    by (simp add: evc_bytes_def get_total_length_def count_evc_def num_def)
  with e u show ?thesis by blast
qed

end
