(* ===== verification/Lan_Block.thy ===== *)
theory Lan_Block
  imports Ethernet_Lan Delay_Fifo
begin

text \<open>
  The block between the network interface and the satellite
  (\<^verbatim>\<open>opensand-core/src/lan_adaptation/BlockLanAdaptation.cpp\<close>).  Its upward channel writes the
  packets of the satellite on the interface, at once or after a delay, and hands the packets to send
  on to the downward channel; its downward channel sends the packets of the interface to the
  satellite.  The Ethernet context and the packet switch are shared by the two.  The results of the
  system calls (the write, the sending of a message) and the current time are arguments; a handler
  returns the new state, what it wrote, the message it sent and its boolean.
\<close>

section \<open>State\<close>

text \<open>The context has no switch before the link comes up (\<open>ctx_ready\<close>): using it before is a
  fault.\<close>

record lan_block =
  lan_ctx :: eth_context
  ctx_ready :: bool
  lan_switch :: packet_switch
  up_tal :: tal_id
  up_link :: bool
  up_delay :: u32
  up_fifo :: "unit net_packet_ext delay_fifo"
  down_tal :: tal_id
  down_link :: bool

definition new_lan_block ::
  "eth_context \<Rightarrow> packet_switch \<Rightarrow> tal_id \<Rightarrow> bool \<Rightarrow> u32 \<Rightarrow> lan_block" where
  "new_lan_block ctx sw satellite used_for_isl delay =
     \<lparr>lan_ctx = ctx, ctx_ready = False, lan_switch = sw, up_tal = satellite, up_link = used_for_isl,
      up_delay = delay, up_fifo = new_delay_fifo 10000, down_tal = satellite,
      down_link = used_for_isl\<rparr>"

datatype lan_message = Link_up_msg tal_id | Burst_msg "net_packet list"

definition TUNTAP_FLAGS_LEN :: nat where "TUNTAP_FLAGS_LEN = 4"

definition get_lan_header :: "nat \<Rightarrow> u8" where
  "get_lan_header pos = 0"

definition tap_header :: bytes where
  "tap_header = map get_lan_header [0..<TUNTAP_FLAGS_LEN]"

section \<open>The upward channel\<close>

text \<open>One packet of a burst: the new state, the bytes written, whether the packet is to be sent
  on, and whether all went well.\<close>

definition up_deliver ::
  "(bytes \<Rightarrow> bool) \<Rightarrow> u32 \<Rightarrow> lan_block \<Rightarrow> bytes \<Rightarrow> lan_block \<times> bytes list \<times> bool" where
  "up_deliver wr now b frame =
     (if up_delay b = 0 then
        (if wr frame then (b, [frame], True) else (b, [], False))
      else
        (let (q, ok) = delay_push_back (up_fifo b)
               \<lparr>fe_elem = new_packet frame, tick_in = uint now, tick_out = uint (now + up_delay b)\<rparr>
         in (b\<lparr>up_fifo := q\<rparr>, [], ok)))"

definition up_packet ::
  "mac_address \<Rightarrow> (bytes \<Rightarrow> bool) \<Rightarrow> u32 \<Rightarrow> lan_block \<Rightarrow> net_packet \<Rightarrow>
   (lan_block \<times> bytes list \<times> bool \<times> bool) option" where
  "up_packet memory wr now b p =
     (if ucast (src_tal_id p) = up_tal b then Some (b, [], False, True)
      else
        (case switch_learn memory (cont_data p) (ucast (src_tal_id p)) (lan_switch b) of
           None \<Rightarrow> None
         | Some (sw, learned) \<Rightarrow>
             (let b' = b\<lparr>lan_switch := sw\<rparr>;
                  (mine, forward) = is_packet_for_me sw (cont_data p) False
              in if mine then
                   (let (b'', written, ok) = up_deliver wr now b' (tap_header @ cont_data p)
                    in Some (b'', written, ok \<and> forward, ok))
                 else Some (b', [], forward, True))))"

fun up_packets ::
  "(nat \<Rightarrow> mac_address) \<Rightarrow> (bytes \<Rightarrow> bool) \<Rightarrow> u32 \<Rightarrow> lan_block \<Rightarrow> net_packet list \<Rightarrow>
   (lan_block \<times> bytes list \<times> net_packet list \<times> bool) option" where
  "up_packets memory wr now b [] = Some (b, [], [], True)"
| "up_packets memory wr now b (p # ps) =
     (case up_packet (memory (length ps)) wr now b p of
        None \<Rightarrow> None
      | Some (b', written, forward, ok) \<Rightarrow>
          (case up_packets memory wr now b' ps of
             None \<Rightarrow> None
           | Some (b'', written', forwards, oks) \<Rightarrow>
               Some (b'', written @ written', if forward then p # forwards else forwards, ok \<and> oks)))"

definition on_msg_from_down ::
  "(nat \<Rightarrow> mac_address) \<Rightarrow> (nat \<Rightarrow> tal_id) \<Rightarrow> (bytes \<Rightarrow> bool) \<Rightarrow> bool \<Rightarrow> u32 \<Rightarrow> lan_block \<Rightarrow>
   net_packet list option \<Rightarrow> (lan_block \<times> bytes list \<times> lan_message option \<times> bool) option" where
  "on_msg_from_down memory unset wr share now b burst =
     (case burst of
        None \<Rightarrow> Some (b, [], None, False)
      | Some ps \<Rightarrow>
          (if \<not> ctx_ready b then None
           else do {
             (ctx, packets) \<leftarrow> eth_deencapsulate None unset (lan_ctx b) (Some ps);
             let b1 = b\<lparr>lan_ctx := ctx\<rparr>;
             (case packets of
                None \<Rightarrow> Some (b1, [], None, False)
              | Some qs \<Rightarrow> do {
                  (b2, written, forwards, ok) \<leftarrow> up_packets memory wr now b1 qs;
                  (if forwards = [] then Some (b2, written, None, ok)
                   else do {
                     (ctx2, frames) \<leftarrow> eth_encapsulate None memory (lan_switch b2) (lan_ctx b2) forwards;
                     let b3 = b2\<lparr>lan_ctx := ctx2\<rparr>;
                     (case frames of
                        None \<Rightarrow> Some (b3, written, None, False)
                      | Some fs \<Rightarrow>
                          (if share then Some (b3, written, Some (Burst_msg fs), ok)
                           else Some (b3, written, None, False))) }) }) }))"

text \<open>The polling of the delayed packets ends on the first failed write, whose packet is lost.\<close>

fun delay_poll ::
  "(bytes \<Rightarrow> bool) \<Rightarrow> u32 \<Rightarrow> unit net_packet_ext fifo_elem list \<Rightarrow>
   unit net_packet_ext fifo_elem list \<times> bytes list \<times> bool" where
  "delay_poll wr now [] = ([], [], True)"
| "delay_poll wr now (e # es) =
     (if tick_out e mod 2 ^ 64 \<le> uint now then
        (if wr (cont_data (fe_elem e)) then
           (let (q, written, ok) = delay_poll wr now es in (q, cont_data (fe_elem e) # written, ok))
         else (es, [], False))
      else (e # es, [], True))"

datatype up_event =
    Up_link_up tal_id
  | Up_burst "net_packet list option"
  | Up_delay_timer
  | Up_other_timer
  | Up_other_event

definition up_on_event ::
  "(nat \<Rightarrow> mac_address) \<Rightarrow> (nat \<Rightarrow> tal_id) \<Rightarrow> (bytes \<Rightarrow> bool) \<Rightarrow> bool \<Rightarrow> u32 \<Rightarrow> lan_block \<Rightarrow> up_event \<Rightarrow>
   (lan_block \<times> bytes list \<times> lan_message option \<times> bool) option" where
  "up_on_event memory unset wr share now b ev =
     (case ev of
        Up_link_up tal \<Rightarrow>
          (if up_link b then Some (b, [], None, False)
           else
             (let b' = b\<lparr>up_tal := tal, ctx_ready := True, up_link := True\<rparr>
              in if share then Some (b', [], Some (Link_up_msg tal), True)
                 else Some (b', [], None, False)))
      | Up_burst burst \<Rightarrow>
          (if \<not> up_link b then Some (b, [], None, False)
           else on_msg_from_down memory unset wr share now b burst)
      | Up_delay_timer \<Rightarrow>
          (let (q, written, ok) = delay_poll wr now (dqueue (up_fifo b))
           in Some (b\<lparr>up_fifo := (up_fifo b)\<lparr>dqueue := q\<rparr>\<rparr>, written, None, ok))
      | Up_other_timer \<Rightarrow> Some (b, [], None, True)
      | Up_other_event \<Rightarrow> Some (b, [], None, False))"

section \<open>The downward channel\<close>

text \<open>The length of what was read on the interface is unsigned: fewer bytes than the flags give a
  huge length and a fault.  The packets of the interface are learned with the identifier 0 of a new
  packet.\<close>

definition on_msg_from_up ::
  "(nat \<Rightarrow> mac_address) \<Rightarrow> bool \<Rightarrow> lan_block \<Rightarrow> bytes \<Rightarrow>
   (lan_block \<times> net_packet list option \<times> bool) option" where
  "on_msg_from_up memory enqueue b read_data =
     (if \<not> down_link b then Some (b, None, False)
      else if length read_data < TUNTAP_FLAGS_LEN \<or> \<not> ctx_ready b then None
      else do {
        let p = new_packet (drop TUNTAP_FLAGS_LEN read_data);
        (sw, learned) \<leftarrow> switch_learn (memory 0) (cont_data p) (ucast (src_tal_id p)) (lan_switch b);
        let b1 = b\<lparr>lan_switch := sw\<rparr>;
        (ctx, frames) \<leftarrow> eth_encapsulate None memory sw (lan_ctx b1) [p];
        let b2 = b1\<lparr>lan_ctx := ctx\<rparr>;
        (case frames of
           None \<Rightarrow> Some (b2, None, False)
         | Some fs \<Rightarrow> (if enqueue then Some (b2, Some fs, True) else Some (b2, None, False))) })"

datatype down_event =
    Down_link_up tal_id
  | Down_burst "net_packet list"
  | Down_tap bytes
  | Down_stats_timer u32
  | Down_other_timer
  | Down_other_event

text \<open>The result of the handler of the interface is ignored.\<close>

definition down_on_event ::
  "(nat \<Rightarrow> mac_address) \<Rightarrow> bool \<Rightarrow> lan_block \<Rightarrow> down_event \<Rightarrow>
   (lan_block \<times> net_packet list option \<times> bool) option" where
  "down_on_event memory enqueue b ev =
     (case ev of
        Down_link_up tal \<Rightarrow> Some (b\<lparr>down_tal := tal, down_link := True\<rparr>, None, True)
      | Down_burst ps \<Rightarrow> (if enqueue then Some (b, Some ps, True) else Some (b, None, False))
      | Down_tap d \<Rightarrow>
          map_option (\<lambda>(b', sent, ok). (b', sent, True)) (on_msg_from_up memory enqueue b d)
      | Down_stats_timer period \<Rightarrow>
          map_option (\<lambda>(ctx, puts). (b\<lparr>lan_ctx := ctx\<rparr>, None, True)) (update_stats period (lan_ctx b))
      | Down_other_timer \<Rightarrow> Some (b, None, False)
      | Down_other_event \<Rightarrow> Some (b, None, False))"

text \<open>A configuration for the examples: plain frames, one category, a terminal.\<close>

definition example_ctx :: eth_context where
  "example_ctx = \<lparr>evc_map = [], evc_data_size = [], evc_probes = [0], category_map = [(0, new_traffic_category 0)],
     default_category = new_traffic_category 0, lan_frame_type = PROTO_ETH, sat_frame_type = PROTO_ETH\<rparr>"

definition example_switch :: packet_switch where
  "example_switch = \<lparr>sw_kind = Terminal_switch 0, sw_tal_id = 3, sw_sarp = new_sarp 0 50\<rparr>"

section \<open>The two channels together\<close>

text \<open>A run of the block: its state, the messages on their way from the upward to the downward
  channel, and all that was written on the interface and sent to the satellite.\<close>

record lan_run =
  run_block :: lan_block
  run_msgs :: "lan_message list"
  run_written :: "bytes list"
  run_sent :: "net_packet list list"

definition deliver :: "lan_message \<Rightarrow> down_event" where
  "deliver m = (case m of Link_up_msg tal \<Rightarrow> Down_link_up tal | Burst_msg ps \<Rightarrow> Down_burst ps)"

inductive lan_step :: "lan_run \<Rightarrow> lan_run \<Rightarrow> bool" where
  upward: "up_on_event memory unset wr share now (run_block s) ev = Some (b, written, msg, ok) \<Longrightarrow>
    lan_step s (s\<lparr>run_block := b, run_msgs := run_msgs s @ (case msg of None \<Rightarrow> [] | Some m \<Rightarrow> [m]),
      run_written := run_written s @ written\<rparr>)"
| interface: "ev = Down_tap d \<or> ev = Down_stats_timer period \<Longrightarrow>
    down_on_event memory enqueue (run_block s) ev = Some (b, sent, ok) \<Longrightarrow>
    lan_step s (s\<lparr>run_block := b, run_sent := run_sent s @ (case sent of None \<Rightarrow> [] | Some ps \<Rightarrow> [ps])\<rparr>)"
| delivery: "run_msgs s = m # ms \<Longrightarrow>
    down_on_event memory enqueue (run_block s) (deliver m) = Some (b, sent, ok) \<Longrightarrow>
    lan_step s (s\<lparr>run_block := b, run_msgs := ms,
      run_sent := run_sent s @ (case sent of None \<Rightarrow> [] | Some ps \<Rightarrow> [ps])\<rparr>)"

definition lan_start :: "lan_block \<Rightarrow> lan_run" where
  "lan_start b = \<lparr>run_block = b, run_msgs = [], run_written = [], run_sent = []\<rparr>"

definition lan_reach :: "lan_block \<Rightarrow> lan_run \<Rightarrow> bool" where
  "lan_reach b s \<longleftrightarrow> lan_step\<^sup>*\<^sup>* (lan_start b) s"

lemma lan_reach_start: "lan_reach b (lan_start b)"
  by (simp add: lan_reach_def)

lemma lan_reach_step: "lan_reach b s \<Longrightarrow> lan_step s s' \<Longrightarrow> lan_reach b s'"
  by (simp add: lan_reach_def)

lemma lan_reach_induct [consumes 1, case_names start step]:
  assumes "lan_reach b s" "P (lan_start b)"
    and "\<And>s s'. lan_reach b s \<Longrightarrow> P s \<Longrightarrow> lan_step s s' \<Longrightarrow> P s'"
  shows "P s"
  using assms(1) unfolding lan_reach_def
  by (induction rule: rtranclp_induct) (auto simp: lan_reach_def intro: assms(2,3))

section \<open>What the handlers keep of the link\<close>

definition same_link :: "lan_block \<Rightarrow> lan_block \<Rightarrow> bool" where
  "same_link b b' \<longleftrightarrow> up_tal b' = up_tal b \<and> up_link b' = up_link b \<and> ctx_ready b' = ctx_ready b \<and>
     down_tal b' = down_tal b \<and> down_link b' = down_link b \<and> up_delay b' = up_delay b"

lemma same_link_refl [simp]: "same_link b b"
  by (simp add: same_link_def)

lemma same_link_trans: "same_link a b \<Longrightarrow> same_link b c \<Longrightarrow> same_link a c"
  by (simp add: same_link_def)

lemma same_link_updates [simp]:
  "same_link a (b\<lparr>lan_ctx := ctx\<rparr>) = same_link a b" "same_link a (b\<lparr>lan_switch := sw\<rparr>) = same_link a b"
  "same_link a (b\<lparr>up_fifo := q\<rparr>) = same_link a b" "same_link (b\<lparr>lan_ctx := ctx\<rparr>) c = same_link b c"
  "same_link (b\<lparr>lan_switch := sw\<rparr>) c = same_link b c"
  by (auto simp: same_link_def)

lemma up_deliver_link: "up_deliver wr now b f = (b', written, ok) \<Longrightarrow> same_link b b'"
  by (auto simp: up_deliver_def Let_def split: if_splits prod.splits)

lemma up_packet_link: "up_packet memory wr now b p = Some (b', written, fw, ok) \<Longrightarrow> same_link b b'"
  by (auto simp: up_packet_def Let_def dest: up_deliver_link split: if_splits option.splits prod.splits)

lemma up_packets_link:
  "up_packets memory wr now b ps = Some (b', written, fws, ok) \<Longrightarrow> same_link b b'"
proof (induction ps arbitrary: b written fws ok)
  case (Cons p ps)
  then show ?case
    by (auto split: option.splits prod.splits dest!: up_packet_link intro: same_link_trans)
qed simp

lemma on_msg_from_down_link:
  assumes "on_msg_from_down memory unset wr share now b burst = Some (b', written, msg, ok)"
  shows "same_link b b' \<and> (\<forall>t. msg \<noteq> Some (Link_up_msg t))"
  using assms
  by (auto simp: on_msg_from_down_def Let_def dest!: up_packets_link
      split: option.splits if_splits Option.bind_splits)

lemma up_on_event_cases:
  assumes "up_on_event memory unset wr share now b ev = Some (b', written, msg, ok)"
  shows "(\<exists>tal. \<not> up_link b \<and> b' = b\<lparr>up_tal := tal, ctx_ready := True, up_link := True\<rparr> \<and>
      written = [] \<and> (msg = None \<or> msg = Some (Link_up_msg tal))) \<or>
    same_link b b' \<and> (\<forall>t. msg \<noteq> Some (Link_up_msg t)) \<and>
      (\<not> up_link b \<and> dqueue (up_fifo b) = [] \<longrightarrow>
         written = [] \<and> msg = None \<and> dqueue (up_fifo b') = [])"
proof (cases ev)
  case (Up_burst burst)
  then show ?thesis
    using assms by (auto simp: up_on_event_def dest: on_msg_from_down_link split: if_splits)
qed (use assms in \<open>auto simp: up_on_event_def Let_def split: if_splits prod.splits\<close>)

lemma on_msg_from_up_link:
  assumes "on_msg_from_up memory enqueue b d = Some (b', sent, ok)"
  shows "same_link b b' \<and> up_fifo b' = up_fifo b \<and> (sent \<noteq> None \<longrightarrow> down_link b)"
  using assms
  by (auto simp: on_msg_from_up_def Let_def split: if_splits option.splits Option.bind_splits)

lemma down_interface_cases:
  assumes "down_on_event memory enqueue b ev = Some (b', sent, ok)"
    and "ev = Down_tap d \<or> ev = Down_stats_timer period"
  shows "same_link b b' \<and> up_fifo b' = up_fifo b \<and> (sent \<noteq> None \<longrightarrow> down_link b)"
  using assms by (auto simp: down_on_event_def dest!: on_msg_from_up_link)

section \<open>The link\<close>

definition link_inv :: "lan_block \<Rightarrow> lan_message list \<Rightarrow> bytes list \<Rightarrow> net_packet list list \<Rightarrow> bool" where
  "link_inv b msgs written sent \<longleftrightarrow>
     (down_link b \<longrightarrow> up_link b \<and> down_tal b = up_tal b) \<and> (up_link b \<longrightarrow> ctx_ready b) \<and>
     (\<forall>t. Link_up_msg t \<in> set msgs \<longrightarrow> up_link b \<and> t = up_tal b) \<and>
     (\<not> up_link b \<longrightarrow> msgs = [] \<and> written = [] \<and> sent = [] \<and> dqueue (up_fifo b) = [])"

abbreviation lan_inv :: "lan_run \<Rightarrow> bool" where
  "lan_inv s \<equiv> link_inv (run_block s) (run_msgs s) (run_written s) (run_sent s)"

lemma link_inv_keep:
  assumes "link_inv b msgs written sent" "same_link b b'"
    and "\<And>t. Link_up_msg t \<in> set msgs' \<Longrightarrow> Link_up_msg t \<in> set msgs"
    and "\<not> up_link b \<Longrightarrow> msgs' = [] \<and> written' = [] \<and> sent' = [] \<and> dqueue (up_fifo b') = []"
  shows "link_inv b' msgs' written' sent'"
proof -
  have b': "up_tal b' = up_tal b" "up_link b' = up_link b" "ctx_ready b' = ctx_ready b"
    "down_tal b' = down_tal b" "down_link b' = down_link b" using assms(2) by (auto simp: same_link_def)
  show ?thesis using assms(1,3,4) unfolding link_inv_def b' by blast
qed

lemma lan_inv_step: "lan_step s s' \<Longrightarrow> lan_inv s \<Longrightarrow> lan_inv s'"
proof (induction rule: lan_step.induct)
  case (upward memory unset wr share now s ev b written msg ok)
  let ?new = "case msg of None \<Rightarrow> [] | Some m \<Rightarrow> [m]"
  from up_on_event_cases [OF upward(1)] have "link_inv b (run_msgs s @ ?new) (run_written s @ written) (run_sent s)"
  proof
    assume "\<exists>tal. \<not> up_link (run_block s) \<and>
      b = (run_block s)\<lparr>up_tal := tal, ctx_ready := True, up_link := True\<rparr> \<and>
      written = [] \<and> (msg = None \<or> msg = Some (Link_up_msg tal))"
    with upward(2) show ?thesis by (auto simp: link_inv_def)
  next
    assume link: "same_link (run_block s) b \<and> (\<forall>t. msg \<noteq> Some (Link_up_msg t)) \<and>
      (\<not> up_link (run_block s) \<and> dqueue (up_fifo (run_block s)) = [] \<longrightarrow>
         written = [] \<and> msg = None \<and> dqueue (up_fifo b) = [])"
    show ?thesis
    proof (rule link_inv_keep [OF upward(2)])
      show "same_link (run_block s) b" using link by blast
      show "Link_up_msg t \<in> set (run_msgs s @ ?new) \<Longrightarrow> Link_up_msg t \<in> set (run_msgs s)" for t
        using link by (cases msg) auto
      assume "\<not> up_link (run_block s)"
      with upward(2) link show "run_msgs s @ ?new = [] \<and> run_written s @ written = [] \<and>
          run_sent s = [] \<and> dqueue (up_fifo b) = []"
        by (auto simp: link_inv_def)
    qed
  qed
  then show ?case by simp
next
  case (interface ev d period memory enqueue s b sent ok)
  let ?new = "case sent of None \<Rightarrow> [] | Some ps \<Rightarrow> [ps]"
  from down_interface_cases [OF interface(2,1)] interface(3)
  have "link_inv b (run_msgs s) (run_written s) (run_sent s @ ?new)"
    by (intro link_inv_keep [OF interface(3)]) (auto simp: link_inv_def)
  then show ?case by simp
next
  case (delivery s m ms memory enqueue b sent ok)
  let ?new = "case sent of None \<Rightarrow> [] | Some ps \<Rightarrow> [ps]"
  have msgs: "set ms \<subseteq> set (run_msgs s)" "m \<in> set (run_msgs s)" using delivery(1) by auto
  have "link_inv b ms (run_written s) (run_sent s @ ?new)"
  proof (cases m)
    case (Link_up_msg tal)
    then have b: "b = (run_block s)\<lparr>down_tal := tal, down_link := True\<rparr>"
      using delivery(2) by (simp add: deliver_def down_on_event_def)
    from delivery(3) msgs Link_up_msg have "up_link (run_block s)" "up_tal (run_block s) = tal"
      unfolding link_inv_def by blast+
    with delivery(3) msgs(1) show ?thesis unfolding link_inv_def b by auto
  next
    case (Burst_msg ps)
    then have b: "b = run_block s"
      using delivery(2) by (simp add: deliver_def down_on_event_def split: if_splits)
    have "up_link (run_block s)" using delivery(3) msgs(2) unfolding link_inv_def by auto
    with delivery(3) msgs(1) show ?thesis unfolding link_inv_def b by auto
  qed
  then show ?case by simp
qed

lemma guarded_upward:
  assumes "\<not> up_link b" "dqueue (up_fifo b) = []"
  shows "up_on_event memory unset wr share now b (Up_burst burst) = Some (b, [], None, False)"
    "up_on_event memory unset wr share now b Up_delay_timer = Some (b, [], None, True)"
  using assms by (simp_all add: up_on_event_def)

lemma guarded_duplicate:
  "up_link b \<Longrightarrow> up_on_event memory unset wr share now b (Up_link_up tal) = Some (b, [], None, False)"
  by (simp add: up_on_event_def)

lemma guarded_downward:
  assumes "\<not> down_link b"
  shows "on_msg_from_up memory enqueue b d = Some (b, None, False)"
    "down_on_event memory enqueue b (Down_tap d) = Some (b, None, True)"
  using assms by (simp_all add: on_msg_from_up_def down_on_event_def)

text \<open>C12: Nothing passes while the link is down.  In every run of a block that is not used between
  satellites, the downward channel is up only when the upward channel is, under the same terminal,
  and the context has its switch as soon as the link is up.  Until then nothing was written on the
  interface nor sent to the satellite, and the handlers drop what arrives without a fault: a burst
  of the satellite is answered by False and a packet of the interface is ignored, both leaving the
  block as it is, contexts and switch untouched, whatever they hold; the downward channel drops the
  packets of the interface until it is told itself.  A second announcement of the link changes
  nothing.\<close>

theorem lan_link_safety:
  assumes "lan_reach (new_lan_block ctx sw satellite False delay) s"
  shows "(down_link (run_block s) \<longrightarrow>
      up_link (run_block s) \<and> down_tal (run_block s) = up_tal (run_block s)) \<and>
    (up_link (run_block s) \<longrightarrow> ctx_ready (run_block s) \<and>
      (\<forall>memory unset wr share now tal.
        up_on_event memory unset wr share now (run_block s) (Up_link_up tal) =
          Some (run_block s, [], None, False))) \<and>
    (\<not> up_link (run_block s) \<longrightarrow> run_written s = [] \<and> run_sent s = [] \<and>
      (\<forall>memory unset wr share now burst.
        up_on_event memory unset wr share now (run_block s) (Up_burst burst) =
          Some (run_block s, [], None, False)) \<and>
      (\<forall>memory unset wr share now.
        up_on_event memory unset wr share now (run_block s) Up_delay_timer =
          Some (run_block s, [], None, True))) \<and>
    (\<not> down_link (run_block s) \<longrightarrow> (\<forall>memory enqueue d.
      on_msg_from_up memory enqueue (run_block s) d = Some (run_block s, None, False) \<and>
      down_on_event memory enqueue (run_block s) (Down_tap d) = Some (run_block s, None, True)))"
proof -
  from assms have inv: "lan_inv s"
  proof (induction rule: lan_reach_induct)
    case start
    then show ?case
      by (simp add: link_inv_def lan_start_def new_lan_block_def new_delay_fifo_def)
  next
    case (step s s')
    then show ?case by (blast intro: lan_inv_step)
  qed
  from inv have fifo: "\<not> up_link (run_block s) \<Longrightarrow> dqueue (up_fifo (run_block s)) = []"
    unfolding link_inv_def by blast
  from inv show ?thesis
    by (auto simp: link_inv_def guarded_upward [OF _ fifo] guarded_downward guarded_duplicate)
qed

theorem lan_link_safety_witness:
  "\<exists>s. lan_reach (new_lan_block example_ctx example_switch 0 False 0) s \<and> up_link (run_block s) \<and>
     ctx_ready (run_block s) \<and> down_link (run_block s) \<and> down_tal (run_block s) = 5"
proof -
  let ?b = "new_lan_block example_ctx example_switch 0 False 0"
  let ?b1 = "?b\<lparr>up_tal := 5, ctx_ready := True, up_link := True\<rparr>"
  let ?b2 = "?b1\<lparr>down_tal := 5, down_link := True\<rparr>"
  let ?s1 = "(lan_start ?b)\<lparr>run_block := ?b1, run_msgs := [Link_up_msg 5]\<rparr>"
  let ?s2 = "?s1\<lparr>run_block := ?b2, run_msgs := []\<rparr>"
  have "up_on_event (\<lambda>_. mac_of_bytes 0 0 0 0 0 0) (\<lambda>_. 0) (\<lambda>_. True) True 0 (run_block (lan_start ?b)) (Up_link_up 5) =
      Some (?b1, [], Some (Link_up_msg 5), True)"
    by (simp add: up_on_event_def lan_start_def new_lan_block_def)
  from lan_step.upward [OF this] have "lan_step (lan_start ?b) ?s1" by (simp add: lan_start_def)
  moreover have "down_on_event (\<lambda>_. mac_of_bytes 0 0 0 0 0 0) True (run_block ?s1) (deliver (Link_up_msg 5)) =
      Some (?b2, None, True)"
    by (simp add: down_on_event_def deliver_def)
  from lan_step.delivery [OF _ this] have "lan_step ?s1 ?s2" by (simp add: lan_start_def)
  ultimately have r: "lan_reach ?b ?s2" by (blast intro: lan_reach_start lan_reach_step)
  have "down_link (run_block ?s2)" by simp
  with lan_link_safety [OF r] have "up_link (run_block ?s2) \<and> ctx_ready (run_block ?s2)" by blast
  with r show ?thesis by (intro exI [of _ ?s2]) simp
qed

section \<open>What the upward channel does with a burst\<close>

lemma up_packet_terminal:
  assumes "sw_kind (lan_switch b) = Terminal_switch gw" "up_delay b = 0" "\<And>f. wr f" "mac_wf memory"
  shows "up_packet memory wr now b p =
    (if ucast (src_tal_id p) = up_tal b then Some (b, [], False, True)
     else Some (b\<lparr>lan_switch := (lan_switch b)\<lparr>sw_sarp := sarp_learn (mac_bytes (get_src_mac (cont_data p)))
         (ucast (src_tal_id p)) (sw_sarp (lan_switch b))\<rparr>\<rparr>, [tap_header @ cont_data p], False, True))"
proof -
  obtain ok where l: "switch_learn memory (cont_data p) (ucast (src_tal_id p)) (lan_switch b) =
     Some ((lan_switch b)\<lparr>sw_sarp := sarp_learn (mac_bytes (get_src_mac (cont_data p)))
         (ucast (src_tal_id p)) (sw_sarp (lan_switch b))\<rparr>, ok)"
    using switch_learn_sarp [OF assms(4)] by blast
  show ?thesis
    using assms(1-3) by (simp add: up_packet_def l switch_for_me up_deliver_def Let_def)
qed

text \<open>A terminal hands every foreign frame to its network.  Without a delay and while the writes
  succeed, the frames of a burst are written on the interface in their order, each behind the four
  null bytes of the interface, except those the terminal sent itself; none is sent back; and the
  table has learned the source of each.\<close>

theorem terminal_writes_foreign_frames:
  fixes b :: lan_block and ps :: "net_packet list"
  assumes "sw_kind (lan_switch b) = Terminal_switch gw" "up_delay b = 0" "\<And>f. wr f"
    and "\<And>n. mac_wf (memory n)"
  defines "foreign \<equiv> filter (\<lambda>p. ucast (src_tal_id p) \<noteq> up_tal b) ps"
  shows "\<exists>b'. up_packets memory wr now b ps =
      Some (b', map (\<lambda>p. [0, 0, 0, 0] @ cont_data p) foreign, [], True) \<and>
    sw_sarp (lan_switch b') =
      foldl (\<lambda>t (k, v). sarp_learn k v t) (sw_sarp (lan_switch b))
        (map (\<lambda>p. (mac_bytes (get_src_mac (cont_data p)), ucast (src_tal_id p))) foreign)"
proof -
  have hd: "tap_header = [0, 0, 0, 0]"
    by (simp add: tap_header_def get_lan_header_def TUNTAP_FLAGS_LEN_def upt_rec)
  show ?thesis
    unfolding foreign_def using assms(1-2)
  proof (induction ps arbitrary: b)
    case Nil
    then show ?case by simp
  next
    case (Cons p ps)
    note one = up_packet_terminal [OF Cons.prems assms(3,4)]
    show ?case
    proof (cases "ucast (src_tal_id p) = up_tal b")
      case True
      with Cons.IH [OF Cons.prems] show ?thesis by (auto simp: one)
    next
      case False
      let ?b = "b\<lparr>lan_switch := (lan_switch b)\<lparr>sw_sarp := sarp_learn (mac_bytes (get_src_mac (cont_data p)))
         (ucast (src_tal_id p)) (sw_sarp (lan_switch b))\<rparr>\<rparr>"
      from Cons.IH [of ?b] Cons.prems False show ?thesis by (auto simp: one hd)
    qed
  qed
qed

theorem terminal_writes_foreign_frames_witness:
  "\<exists>b'. up_packets (\<lambda>_. mac_of_bytes 0 0 0 0 0 0) (\<lambda>_. True) 0
      (new_lan_block example_ctx example_switch 3 False 0)
      [(new_packet [1, 2])\<lparr>src_tal_id := 3\<rparr>, (new_packet [3, 4])\<lparr>src_tal_id := 0\<rparr>] =
    Some (b', [[0, 0, 0, 0, 3, 4]], [], True)"
proof -
  let ?b = "new_lan_block example_ctx example_switch 3 False 0"
  let ?ps = "[(new_packet [1, 2])\<lparr>src_tal_id := 3\<rparr>, (new_packet [3, 4])\<lparr>src_tal_id := 0\<rparr>]"
  have k: "sw_kind (lan_switch ?b) = Terminal_switch 0" and d: "up_delay ?b = 0"
    by (simp_all add: new_lan_block_def example_switch_def)
  have m: "mac_wf (mac_of_bytes 0 0 0 0 0 0)" by (simp add: mac_wf_def mac_of_bytes_def)
  have "up_tal ?b = 3" by (simp add: new_lan_block_def)
  moreover from terminal_writes_foreign_frames [where ps = ?ps and wr = "\<lambda>_. True" and now = 0, OF k d TrueI m]
  obtain b' where "up_packets (\<lambda>_. mac_of_bytes 0 0 0 0 0 0) (\<lambda>_. True) 0 ?b ?ps =
      Some (b', map (\<lambda>p. [0, 0, 0, 0] @ cont_data p)
        (filter (\<lambda>p. ucast (src_tal_id p) \<noteq> up_tal ?b) ?ps), [], True)" by blast
  ultimately show ?thesis
    by (simp add: new_packet_def new_container_def net_container.defs)
qed

text \<open>A gateway writes the frame that is sent to it on its interface, and sends it back to the
  satellite too: the switch asks to send on every frame whose destination is known.\<close>

lemma gateway_sends_back:
  assumes "sw_kind (lan_switch b) = Gateway_switch" "up_delay b = 0" "\<And>f. wr f"
    and "ucast (src_tal_id p) \<noteq> up_tal b"
    and "switch_learn memory (cont_data p) (ucast (src_tal_id p)) (lan_switch b) = Some (sw, learned)"
    and "sarp_look (sw_sarp sw) (mac_bytes (get_dst_mac (cont_data p))) = Some (sw_tal_id sw)"
  shows "up_packet memory wr now b p =
    Some (b\<lparr>lan_switch := sw\<rparr>, [tap_header @ cont_data p], True, True)"
proof -
  have "sw_kind sw = sw_kind (lan_switch b)"
    using assms(5) by (auto simp: switch_learn_def split: option.splits)
  then show ?thesis
    using assms by (simp add: up_packet_def switch_for_me up_deliver_def Let_def)
qed

section \<open>The delayed packets\<close>

lemma delay_poll_splits:
  "delay_poll wr now q = (q', written, ok) \<Longrightarrow>
   \<exists>k. (if ok then q' = drop k q else q' = drop (Suc k) q \<and> k < length q) \<and>
     written = map (\<lambda>e. cont_data (fe_elem e)) (take k q) \<and>
     (\<forall>e \<in> set (take k q). tick_out e mod 2 ^ 64 \<le> uint now) \<and>
     (ok \<longrightarrow> (case q' of [] \<Rightarrow> True | e # _ \<Rightarrow> uint now < tick_out e mod 2 ^ 64))"
proof (induction wr now q arbitrary: q' written ok rule: delay_poll.induct)
  case (2 wr now e es)
  show ?case
  proof (cases "tick_out e mod 2 ^ 64 \<le> uint now")
    case due: True
    show ?thesis
    proof (cases "wr (cont_data (fe_elem e))")
      case True
      obtain q1 w1 ok1 where r: "delay_poll wr now es = (q1, w1, ok1)" by (metis prod_cases3)
      from 2(1) [OF due True r] obtain k where
        "if ok1 then q1 = drop k es else q1 = drop (Suc k) es \<and> k < length es"
        "w1 = map (\<lambda>e. cont_data (fe_elem e)) (take k es)"
        "\<forall>e \<in> set (take k es). tick_out e mod 2 ^ 64 \<le> uint now"
        "ok1 \<longrightarrow> (case q1 of [] \<Rightarrow> True | e # _ \<Rightarrow> uint now < tick_out e mod 2 ^ 64)" by blast
      with 2(2) due True r show ?thesis by (intro exI [of _ "Suc k"]) (auto split: if_splits)
    next
      case False
      with 2(2) due show ?thesis by (intro exI [of _ 0]) auto
    qed
  next
    case False
    with 2(2) show ?thesis by (intro exI [of _ 0]) auto
  qed
qed simp

text \<open>A block between two satellites alone in its process never works.  Its link is up from
  the start, so the message that would give the context its switch is taken for a duplicate: in
  every run the context has no switch, and the first burst from the satellite or packet from the
  interface uses the pointer that was never set.\<close>

theorem isl_block_never_ready:
  assumes "lan_reach (new_lan_block ctx sw satellite True delay) s"
  shows "\<not> ctx_ready (run_block s) \<and>
    up_on_event memory unset wr share now (run_block s) (Up_link_up tal) =
      Some (run_block s, [], None, False) \<and>
    up_on_event memory unset wr share now (run_block s) (Up_burst (Some ps)) = None \<and>
    (TUNTAP_FLAGS_LEN \<le> length d \<longrightarrow> down_on_event memory enqueue (run_block s) (Down_tap d) = None)"
proof -
  have "\<not> ctx_ready (run_block s) \<and> up_link (run_block s) \<and> down_link (run_block s) \<and>
      (\<forall>t. Link_up_msg t \<notin> set (run_msgs s))"
    using assms
  proof (induction rule: lan_reach_induct)
    case start
    then show ?case by (simp add: lan_start_def new_lan_block_def)
  next
    case (step s s')
    from step(2,3) show ?case
    proof (induction rule: lan_step.induct)
      case (upward memory unset wr share now s ev b written msg ok)
      from up_on_event_cases [OF upward(1)] upward(2)
      have "same_link (run_block s) b" "\<forall>t. msg \<noteq> Some (Link_up_msg t)" by blast+
      with upward(2) show ?case by (cases msg) (auto simp: same_link_def)
    next
      case (interface ev d period memory enqueue s b sent ok)
      with down_interface_cases [OF interface(2,1)] show ?case by (auto simp: same_link_def)
    next
      case (delivery s m ms memory enqueue b sent ok)
      then show ?case
        by (cases m) (auto simp: deliver_def down_on_event_def split: if_splits)
    qed
  qed
  then show ?thesis
    by (simp add: up_on_event_def on_msg_from_down_def down_on_event_def on_msg_from_up_def)
qed

theorem isl_block_never_ready_witness:
  "up_on_event (\<lambda>_. mac_of_bytes 0 0 0 0 0 0) (\<lambda>_. 0) (\<lambda>_. True) True 0
     (new_lan_block example_ctx example_switch 2 True 0) (Up_burst (Some [new_packet [1]])) = None"
  using isl_block_never_ready [OF lan_reach_start, where ps = "[new_packet [1]]" and tal = 0 and d = "[]"]
  by (simp add: lan_start_def)

end
