(* ===== verification/Udp_Channel.thy ===== *)
theory Udp_Channel
  imports Dvb_Frame
begin

text \<open>
  The UDP channels of the satellite carriers and of the interconnection
  (\<^verbatim>\<open>opensand-core/src/common/UdpChannel.cpp\<close>,
  \<^verbatim>\<open>sat_carrier/sat_carrier_channel_set.cpp\<close>, \<^verbatim>\<open>BlockSatCarrier.cpp\<close>).  A datagram starts with a
  sequence number of 8 bits; a receiver keeps, for each address that sends to it, the number it
  delivered last and the datagrams that came too early.  The socket is an argument: the address and the
  bytes received, whether a sending succeeded.

  The first datagram of an address makes \<^verbatim>\<open>receive\<close> assign through the end iterator of its map of
  counters, which is undefined; the memory after the map is not used by a channel that receives, and
  the model leaves the assignment out.
\<close>

section \<open>The stack of early datagrams\<close>

text \<open>The 256 slots are indexed by a byte; a slot that holds an empty datagram is not null but has
  no next.\<close>

record udp_stack =
  us_slots :: "u8 \<Rightarrow> bytes option"
  us_counter :: u8

definition new_udp_stack :: udp_stack where
  "new_udp_stack = \<lparr>us_slots = (\<lambda>_. None), us_counter = 0\<rparr>"

definition us_add :: "u8 \<Rightarrow> bytes \<Rightarrow> udp_stack \<Rightarrow> udp_stack" where
  "us_add c d s = \<lparr>us_slots = (us_slots s)(c \<mapsto> d),
     us_counter = (if us_slots s c \<noteq> None then us_counter s - 1 else us_counter s) + 1\<rparr>"

definition us_remove :: "u8 \<Rightarrow> udp_stack \<Rightarrow> udp_stack \<times> bytes" where
  "us_remove c s =
     (\<lparr>us_slots = (us_slots s)(c := None),
       us_counter = (if us_slots s c \<noteq> None then us_counter s - 1 else us_counter s)\<rparr>,
      case us_slots s c of None \<Rightarrow> [] | Some d \<Rightarrow> d)"

definition us_has_next :: "u8 \<Rightarrow> udp_stack \<Rightarrow> bool" where
  "us_has_next c s = (case us_slots s c of None \<Rightarrow> False | Some d \<Rightarrow> d \<noteq> [])"

definition us_reset :: "udp_stack \<Rightarrow> udp_stack" where
  "us_reset s = \<lparr>us_slots = (\<lambda>_. None), us_counter = 0\<rparr>"

text \<open>The search for the next datagram after a loss does not end when all that wait are empty.\<close>

partial_function (option) us_search :: "udp_stack \<Rightarrow> u8 \<Rightarrow> u8 option" where
  "us_search s c = (if us_has_next c s then Some c else us_search s (c + 1))"

section \<open>The channel\<close>

record udp_channel =
  uc_spot :: spot_id
  uc_id :: u32
  uc_input :: bool
  uc_output :: bool
  uc_fd :: int
  uc_counters :: "string \<Rightarrow> u8 option"
  uc_stacks :: "string \<Rightarrow> udp_stack option"
  uc_stacked_ip :: string
  uc_max_stack :: u32
  uc_counter :: u8

definition new_udp_channel :: "spot_id \<Rightarrow> u32 \<Rightarrow> bool \<Rightarrow> bool \<Rightarrow> int \<Rightarrow> u32 \<Rightarrow> udp_channel" where
  "new_udp_channel spot ident input output fd mx =
     \<lparr>uc_spot = spot, uc_id = ident, uc_input = input, uc_output = output, uc_fd = fd,
      uc_counters = (\<lambda>_. None), uc_stacks = (\<lambda>_. None), uc_stacked_ip = [], uc_max_stack = mx,
      uc_counter = 0\<rparr>"

definition handle_stack_at :: "string \<Rightarrow> u8 \<Rightarrow> udp_stack \<Rightarrow> udp_channel \<Rightarrow> udp_channel \<times> bytes" where
  "handle_stack_at ip c s ch =
     (let (s', d) = us_remove c s
      in (ch\<lparr>uc_stacks := (uc_stacks ch)(ip \<mapsto> s'),
             uc_stacked_ip := (if us_has_next (c + 1) s' then uc_stacked_ip ch else [])\<rparr>, d))"

definition handle_stack :: "udp_channel \<Rightarrow> udp_channel \<times> bytes \<times> bool" where
  "handle_stack ch =
     (let ip = uc_stacked_ip ch
      in case (uc_counters ch ip, uc_stacks ch ip) of
           (Some c, Some s) \<Rightarrow>
             (let (ch', d) = handle_stack_at ip c s ch
              in (if uc_stacked_ip ch' \<noteq> [] then ch'\<lparr>uc_counters := (uc_counters ch')(ip \<mapsto> c + 1)\<rparr>
                  else ch', d, True))
         | _ \<Rightarrow> (ch, [], False))"

text \<open>After a delivery or a wait: too many early datagrams mean that some are lost.\<close>

definition check_stack ::
  "string \<Rightarrow> u8 \<Rightarrow> bool \<Rightarrow> udp_channel \<Rightarrow> bytes \<Rightarrow> (udp_channel \<times> int \<times> bytes) option" where
  "check_stack ip current first ch d =
     (case uc_stacks ch ip of
        None \<Rightarrow> None
      | Some s \<Rightarrow>
          (if unat (us_counter s) > unat (uc_max_stack ch) then do {
             c \<leftarrow> us_search s (current + 1);
             Some (ch\<lparr>uc_counters := (if first then uc_counters ch else (uc_counters ch)(ip \<mapsto> c)),
                      uc_stacked_ip := ip\<rparr>, 1, d) }
           else Some (ch, 0, d)))"

definition udp_sequence ::
  "string \<Rightarrow> u8 \<Rightarrow> bytes \<Rightarrow> udp_channel \<Rightarrow> (udp_channel \<times> int \<times> bytes) option" where
  "udp_sequence ip nb payload ch =
     (let first = (uc_counters ch ip = None);
          ch1 = (if first then ch\<lparr>uc_counters := (uc_counters ch)(ip \<mapsto> nb),
                                  uc_stacks := (uc_stacks ch)(ip \<mapsto> new_udp_stack)\<rparr> else ch);
          current = (case uc_counters ch ip of None \<Rightarrow> nb | Some c \<Rightarrow> c + 1)
      in case uc_stacks ch1 ip of
           None \<Rightarrow> None
         | Some s \<Rightarrow>
             (let s' = us_add nb payload s;
                  ch2 = ch1\<lparr>uc_stacks := (uc_stacks ch1)(ip \<mapsto> s'), uc_stacked_ip := ip\<rparr>
              in if us_has_next current s' then
                   (let (ch3, d) = handle_stack_at ip current s' ch2
                    in if uc_stacked_ip ch3 \<noteq> [] then Some (ch3, 1, d)
                       else check_stack ip current first
                              (if first then ch3
                               else ch3\<lparr>uc_counters := (uc_counters ch3)(ip \<mapsto> current)\<rparr>) d)
                 else check_stack ip current first (ch2\<lparr>uc_stacked_ip := []\<rparr>) []))"

text \<open>What the event holds is taken by the first call that reads it; a null pointer or an event
  without a byte is a fault.  The data is empty when none is returned: the callers clear the length
  before.\<close>

definition udp_receive ::
  "string \<Rightarrow> bytes option \<Rightarrow> udp_channel \<Rightarrow> (udp_channel \<times> int \<times> bytes) option" where
  "udp_receive ip event ch =
     (if uc_stacked_ip ch \<noteq> [] then
        (let (ch', d, ok) = handle_stack ch
         in Some (ch', if \<not> ok then -1 else if uc_stacked_ip ch' \<noteq> [] then 1 else 0, d))
      else if uc_fd ch < 0 then Some (ch, -1, [])
      else if \<not> uc_input ch then Some (ch, -1, [])
      else (case event of
              Some (nb # payload) \<Rightarrow> udp_sequence ip nb payload ch
            | _ \<Rightarrow> None))"

definition MAX_SOCK_SIZE :: nat where "MAX_SOCK_SIZE = 9000"

definition udp_send :: "bool \<Rightarrow> bytes \<Rightarrow> udp_channel \<Rightarrow> (udp_channel \<times> bytes option \<times> bool) option" where
  "udp_send sent d ch =
     (if \<not> uc_output ch \<or> uc_fd ch < 0 then Some (ch, None, False)
      else if length d + 1 > MAX_SOCK_SIZE then None
      else if \<not> sent then Some (ch, None, False)
      else Some (ch\<lparr>uc_counter := uc_counter ch + 1\<rparr>, Some (uc_counter ch # d), True))"

section \<open>The set of channels and the block of the carriers\<close>

fun set_send ::
  "u8 \<Rightarrow> bool \<Rightarrow> bytes \<Rightarrow> udp_channel list \<Rightarrow> (udp_channel list \<times> bytes option \<times> bool) option" where
  "set_send carrier sent d [] = Some ([], None, False)"
| "set_send carrier sent d (c # cs) =
     (if uc_id c = ucast carrier \<and> uc_output c
      then map_option (\<lambda>(c', datagram, ok). (c' # cs, datagram, ok)) (udp_send sent d c)
      else map_option (\<lambda>(cs', datagram, ok). (c # cs', datagram, ok)) (set_send carrier sent d cs))"

text \<open>The channels of a file descriptor are tried until one returns data or an error.  The result
  holds the carrier and the spot when it does.\<close>

fun set_receive ::
  "int \<Rightarrow> string \<Rightarrow> bytes option \<Rightarrow> int \<Rightarrow> udp_channel list \<Rightarrow>
   (udp_channel list \<times> bytes option \<times> int \<times> (u32 \<times> spot_id \<times> bytes) option) option" where
  "set_receive fd ip event ret [] = Some ([], event, ret, None)"
| "set_receive fd ip event ret (c # cs) =
     (if uc_input c \<and> uc_fd c = fd then
        (case udp_receive ip event c of
           None \<Rightarrow> None
         | Some (c', r, d) \<Rightarrow>
             (let event' = (if uc_stacked_ip c = [] \<and> 0 \<le> uc_fd c then None else event)
              in if d \<noteq> [] \<or> r < 0 then Some (c' # cs, event', r, Some (uc_id c, uc_spot c, d))
                 else map_option (\<lambda>(cs', event'', r', out). (c' # cs', event'', r', out))
                        (set_receive fd ip event' r cs)))
      else map_option (\<lambda>(cs', event', r, out). (c # cs', event', r, out))
             (set_receive fd ip event ret cs))"

definition carrier_frame :: "u32 \<Rightarrow> spot_id \<Rightarrow> bytes \<Rightarrow> dvb_frame option" where
  "carrier_frame carrier spot d = do {
     f \<leftarrow> received_frame 3 d;
     Some (f\<lparr>frame_carrier_id := ucast carrier, cont_spot := spot\<rparr>) }"

text \<open>The upward channel of the block calls \<^verbatim>\<open>receive\<close> until no more packet is ready.\<close>

partial_function (option) carrier_loop ::
  "int \<Rightarrow> string \<Rightarrow> bytes option \<Rightarrow> udp_channel list \<Rightarrow> dvb_frame list \<Rightarrow> bool \<Rightarrow>
   (udp_channel list \<times> dvb_frame list \<times> bool) option" where
  "carrier_loop fd ip event chans frames status = do {
     (chans', event', ret, out) \<leftarrow> set_receive fd ip event (-1) chans;
     frames' \<leftarrow> (case out of
         Some (carrier, spot, d) \<Rightarrow>
           (if 0 \<le> ret \<and> d \<noteq> [] then map_option (\<lambda>f. frames @ [f]) (carrier_frame carrier spot d)
            else Some frames)
       | None \<Rightarrow> Some frames);
     let status' = (status \<and> 0 \<le> ret);
     (if ret > 0 then carrier_loop fd ip event' chans' frames' status'
      else Some (chans', frames', status')) }"

definition carrier_on_socket ::
  "int \<Rightarrow> string \<Rightarrow> bytes \<Rightarrow> udp_channel list \<Rightarrow> (udp_channel list \<times> dvb_frame list \<times> bool) option" where
  "carrier_on_socket fd ip datagram chans = carrier_loop fd ip (Some datagram) chans [] True"

definition carrier_on_message ::
  "bool \<Rightarrow> dvb_frame \<Rightarrow> udp_channel list \<Rightarrow> (udp_channel list \<times> bytes option) option" where
  "carrier_on_message sent f chans =
     map_option (\<lambda>(chans', datagram, ok). (chans', datagram))
       (set_send (frame_carrier_id f) sent (cont_data f) chans)"

section \<open>The calls for one datagram\<close>

text \<open>What a caller does with one channel: it calls \<^verbatim>\<open>receive\<close> until the result is not positive.\<close>

partial_function (option) udp_drain ::
  "string \<Rightarrow> bytes option \<Rightarrow> udp_channel \<Rightarrow> bytes list \<Rightarrow> (udp_channel \<times> bytes list) option" where
  "udp_drain ip event ch ds = do {
     (ch', r, d) \<leftarrow> udp_receive ip event ch;
     let ds' = (if d = [] then ds else ds @ [d]);
     (if r > 0 then udp_drain ip None ch' ds' else Some (ch', ds')) }"

fun udp_run :: "udp_channel \<Rightarrow> (string \<times> bytes) list \<Rightarrow> (udp_channel \<times> bytes list) option" where
  "udp_run ch [] = Some (ch, [])"
| "udp_run ch ((ip, datagram) # es) = do {
     (ch', ds) \<leftarrow> udp_drain ip (Some datagram) ch [];
     (ch'', ds') \<leftarrow> udp_run ch' es;
     Some (ch'', ds @ ds') }"

lemma udp_run_append:
  "udp_run ch (es @ es') = do {
     (ch', ds) \<leftarrow> udp_run ch es;
     (ch'', ds') \<leftarrow> udp_run ch' es';
     Some (ch'', ds @ ds') }"
proof (induction es arbitrary: ch)
  case Nil
  show ?case by (cases "udp_run ch es'") auto
next
  case (Cons e es)
  obtain ip d where [simp]: "e = (ip, d)" by (cases e)
  show ?case
  proof (cases "udp_drain ip (Some d) ch []")
    case (Some r)
    obtain c1 ds where [simp]: "r = (c1, ds)" by (cases r)
    show ?thesis
    proof (cases "udp_run c1 es")
      case (Some q)
      obtain c2 ds2 where q: "q = (c2, ds2)" by (cases q)
      show ?thesis using Some Cons [of c1] \<open>udp_drain _ _ _ _ = _\<close>
        by (cases "udp_run c2 es'") (auto simp: q)
    qed (use Some Cons [of c1] in simp)
  qed simp
qed

section \<open>The search after a loss\<close>

lemma us_search_found:
  assumes "us_has_next (c + of_nat k) s" "\<forall>j < k. \<not> us_has_next (c + of_nat j) s"
  shows "us_search s c = Some (c + of_nat k)"
  using assms
proof (induction k arbitrary: c)
  case 0
  then show ?case by (simp add: us_search.simps [of s c])
next
  case (Suc k)
  have "\<not> us_has_next c s" using Suc.prems(2) [rule_format, of 0] by simp
  moreover have "us_search s (c + 1) = Some (c + 1 + of_nat k)"
  proof (rule Suc.IH)
    show "us_has_next (c + 1 + of_nat k) s" using Suc.prems(1) by (simp add: add.assoc)
    show "\<forall>j < k. \<not> us_has_next (c + 1 + of_nat j) s"
    proof (intro allI impI)
      fix j assume "j < k"
      then show "\<not> us_has_next (c + 1 + of_nat j) s"
        using Suc.prems(2) [rule_format, of "Suc j"] by (simp add: add.assoc)
    qed
  qed
  ultimately show ?case by (simp add: us_search.simps [of s c] add.assoc)
qed

lemma us_search_some:
  assumes "us_search s c = Some c'"
  shows "us_has_next c' s"
  by (rule us_search.raw_induct [where P = "\<lambda>s c c'. us_has_next c' s", rotated, OF assms])
    (auto split: if_splits)

text \<open>The search ends exactly when a datagram that is not empty waits.\<close>

lemma us_search_ends: "(\<exists>c'. us_search s c = Some c') \<longleftrightarrow> (\<exists>c'. us_has_next c' s)"
proof
  show "\<exists>c'. us_search s c = Some c' \<Longrightarrow> \<exists>c'. us_has_next c' s" using us_search_some by blast
  assume "\<exists>c'. us_has_next c' s"
  then obtain c' where "us_has_next c' s" by blast
  then have ex: "\<exists>k. us_has_next (c + of_nat k) s"
    by (intro exI [of _ "unat (c' - c)"]) simp
  define k where "k = (LEAST k. us_has_next (c + of_nat k) s)"
  from LeastI_ex [OF ex] have "us_has_next (c + of_nat k) s" by (simp add: k_def)
  moreover have "\<forall>j < k. \<not> us_has_next (c + of_nat j) s"
    using not_less_Least by (auto simp: k_def)
  ultimately show "\<exists>c'. us_search s c = Some c'" using us_search_found by blast
qed

section \<open>Datagrams in order\<close>

text \<open>Nothing waits: every address that has sent has an empty stack.\<close>

definition udp_synced :: "udp_channel \<Rightarrow> bool" where
  "udp_synced ch \<longleftrightarrow> uc_stacked_ip ch = [] \<and> 0 \<le> uc_fd ch \<and> uc_input ch \<and>
     (\<forall>ip. uc_counters ch ip \<noteq> None \<longrightarrow> uc_stacks ch ip = Some new_udp_stack)"

lemma us_add_remove [simp]: "us_remove c (us_add c d new_udp_stack) = (new_udp_stack, d)"
  by (simp add: us_remove_def us_add_def new_udp_stack_def)

lemma us_has_next_new [simp]: "\<not> us_has_next c new_udp_stack"
  by (simp add: us_has_next_def new_udp_stack_def)

lemma us_has_next_add [simp]:
  "us_has_next c (us_add c' d s) \<longleftrightarrow> (if c = c' then d \<noteq> [] else us_has_next c s)"
  by (simp add: us_has_next_def us_add_def)

lemma us_counter_new [simp]: "us_counter new_udp_stack = 0"
  by (simp add: new_udp_stack_def)

lemma receive_in_order:
  assumes "udp_synced ch" "p \<noteq> []" "uc_counters ch ip = None \<or> uc_counters ch ip = Some (nb - 1)"
  shows "udp_receive ip (Some (nb # p)) ch =
    Some (ch\<lparr>uc_counters := (uc_counters ch)(ip \<mapsto> nb),
             uc_stacks := (uc_stacks ch)(ip \<mapsto> new_udp_stack)\<rparr>, 0, p)"
proof -
  have st: "uc_counters ch ip \<noteq> None \<Longrightarrow> uc_stacks ch ip = Some new_udp_stack"
    using assms(1) by (simp add: udp_synced_def)
  show ?thesis
    using assms(3)
  proof
    assume "uc_counters ch ip = None"
    then show ?thesis using assms(1,2)
      by (simp add: udp_receive_def udp_synced_def udp_sequence_def handle_stack_at_def check_stack_def)
  next
    assume "uc_counters ch ip = Some (nb - 1)"
    then show ?thesis using assms(1,2) st
      by (simp add: udp_receive_def udp_synced_def udp_sequence_def handle_stack_at_def check_stack_def)
  qed
qed

lemma drain_in_order:
  assumes "udp_synced ch" "p \<noteq> []" "uc_counters ch ip = None \<or> uc_counters ch ip = Some (nb - 1)"
  shows "udp_drain ip (Some (nb # p)) ch [] =
    Some (ch\<lparr>uc_counters := (uc_counters ch)(ip \<mapsto> nb),
             uc_stacks := (uc_stacks ch)(ip \<mapsto> new_udp_stack)\<rparr>, [p])"
  using receive_in_order [OF assms] assms(2) by (simp add: udp_drain.simps [of ip "Some (nb # p)"])

text \<open>Several senders, each with its own channel, whose datagrams reach one receiver.\<close>

fun udp_feed :: "(string \<Rightarrow> udp_channel) \<Rightarrow> (string \<times> bytes) list \<Rightarrow> (string \<times> bytes) list option" where
  "udp_feed senders [] = Some []"
| "udp_feed senders ((ip, p) # es) = do {
     (c, datagram, ok) \<leftarrow> udp_send True p (senders ip);
     rest \<leftarrow> udp_feed (senders(ip := c)) es;
     Some (case datagram of None \<Rightarrow> rest | Some d \<Rightarrow> (ip, d) # rest) }"

definition sender_ready :: "udp_channel \<Rightarrow> bool" where
  "sender_ready c \<longleftrightarrow> uc_output c \<and> 0 \<le> uc_fd c"

text \<open>C4: whatever the interleaving of the senders and however often their numbers wrap, a receiver
  that has missed nothing delivers every datagram once and in the order of arrival; an address it does
  not know yet may start with any number.\<close>

theorem udp_in_order:
  assumes "udp_synced ch" "\<forall>ip. sender_ready (senders ip)"
    and "\<forall>ip. uc_counters ch ip = None \<or> uc_counters ch ip = Some (uc_counter (senders ip) - 1)"
    and "\<forall>e \<in> set es. snd e \<noteq> [] \<and> length (snd e) < MAX_SOCK_SIZE"
  shows "\<exists>datagrams ch'. udp_feed senders es = Some datagrams \<and>
    udp_run ch datagrams = Some (ch', map snd es) \<and> udp_synced ch'"
  using assms
proof (induction es arbitrary: ch senders)
  case Nil
  then show ?case by simp
next
  case (Cons e es)
  obtain ip p where e: "e = (ip, p)" by (cases e)
  let ?n = "uc_counter (senders ip)"
  let ?s = "senders(ip := (senders ip)\<lparr>uc_counter := ?n + 1\<rparr>)"
  let ?c = "ch\<lparr>uc_counters := (uc_counters ch)(ip \<mapsto> ?n),
               uc_stacks := (uc_stacks ch)(ip \<mapsto> new_udp_stack)\<rparr>"
  have p: "p \<noteq> []" "length p < MAX_SOCK_SIZE" using Cons.prems(4) by (auto simp: e)
  have d: "udp_drain ip (Some (?n # p)) ch [] = Some (?c, [p])"
    using Cons.prems(1,3) p by (intro drain_in_order) auto
  have s: "udp_send True p (senders ip) =
      Some ((senders ip)\<lparr>uc_counter := ?n + 1\<rparr>, Some (?n # p), True)"
    using Cons.prems(2) [rule_format, of ip] p by (simp add: udp_send_def sender_ready_def)
  have "\<exists>datagrams ch'. udp_feed ?s es = Some datagrams \<and>
      udp_run ?c datagrams = Some (ch', map snd es) \<and> udp_synced ch'"
  proof (rule Cons.IH)
    show "udp_synced ?c" using Cons.prems(1) by (simp add: udp_synced_def)
    show "\<forall>ip. sender_ready (?s ip)" using Cons.prems(2) by (simp add: sender_ready_def)
    show "\<forall>ip. uc_counters ?c ip = None \<or> uc_counters ?c ip = Some (uc_counter (?s ip) - 1)"
      using Cons.prems(3) by simp
    show "\<forall>e \<in> set es. snd e \<noteq> [] \<and> length (snd e) < MAX_SOCK_SIZE" using Cons.prems(4) by simp
  qed
  then show ?case by (auto simp: e s d)
qed

definition rx_channel :: udp_channel where "rx_channel = new_udp_channel 1 5 True False 3 2"
definition tx_channel :: udp_channel where "tx_channel = new_udp_channel 1 5 False True 3 2"

theorem udp_in_order_witness:
  "\<exists>datagrams ch'. udp_feed (\<lambda>_. tx_channel) [(''10.0.0.1'', [7]), (''10.0.0.2'', [8]), (''10.0.0.1'', [9])]
     = Some datagrams \<and> udp_run rx_channel datagrams = Some (ch', [[7], [8], [9 :: u8]]) \<and> udp_synced ch'"
  using udp_in_order [of rx_channel "\<lambda>_. tx_channel"
      "[(''10.0.0.1'', [7]), (''10.0.0.2'', [8]), (''10.0.0.1'', [9])]"]
  by (simp add: udp_synced_def rx_channel_def tx_channel_def new_udp_channel_def sender_ready_def MAX_SOCK_SIZE_def)

section \<open>Losses\<close>

text \<open>The slots that hold consecutive datagrams from a number on.\<close>

definition window :: "u8 \<Rightarrow> bytes list \<Rightarrow> udp_stack" where
  "window b ps = \<lparr>us_slots = (\<lambda>i. let k = unat (i - b) in if k < length ps then Some (ps ! k) else None),
                 us_counter = of_nat (length ps)\<rparr>"

lemma window_Nil [simp]: "window b [] = new_udp_stack"
  by (simp add: window_def new_udp_stack_def)

lemma us_has_next_window:
  "us_has_next c (window b ps) \<longleftrightarrow> unat (c - b) < length ps \<and> ps ! unat (c - b) \<noteq> []"
  by (simp add: us_has_next_def window_def Let_def)

lemma window_add:
  assumes "length ps < 256"
  shows "us_add (b + of_nat (length ps)) p (window b ps) = window b (ps @ [p])"
proof -
  have n: "unat (of_nat (length ps) :: u8) = length ps" using assms by (simp add: unat_of_nat)
  have e: "i = b + of_nat (length ps) \<longleftrightarrow> unat (i - b) = length ps" for i
  proof
    assume "unat (i - b) = length ps"
    then have "(of_nat (unat (i - b)) :: u8) = of_nat (length ps)" by simp
    then have "i - b = of_nat (length ps)" by simp
    then show "i = b + of_nat (length ps)" by (simp add: algebra_simps)
  qed (simp add: n)
  show ?thesis
    by (auto simp: us_add_def window_def n e nth_append Let_def fun_eq_iff)
qed

lemma unat_numeral_u8_255: "unat (255 :: u8) = 255"
  by simp

lemma window_remove:
  assumes "length (p # ps) \<le> 256"
  shows "us_remove b (window b (p # ps)) = (window (b + 1) ps, p)"
proof -
  have u: "unat (i - b) = Suc (unat (i - (b + 1)))" if "i \<noteq> b" for i
  proof -
    have e: "1 + (i - (b + 1)) = i - b" by simp
    show ?thesis using unatSuc [of "i - (b + 1)", unfolded e] that by simp
  qed
  have "(- 1 :: u8) = 255" by simp
  then have z: "unat (- 1 :: u8) = 255" by (metis unat_numeral_u8_255)
  have "(us_slots (window b (p # ps)))(b := None) = us_slots (window (b + 1) ps)" (is "?l = ?r")
  proof
    fix i
    show "?l i = ?r i"
    proof (cases "i = b")
      case True
      then show ?thesis using assms by (simp add: window_def z Let_def)
    next
      case False
      then show ?thesis by (simp add: window_def u Let_def)
    qed
  qed
  then show ?thesis by (simp add: us_remove_def window_def)
qed

lemma drain_window:
  assumes "ip \<noteq> []" "uc_counters ch ip = Some b" "uc_stacks ch ip = Some (window b (p # ps))"
    and "uc_stacked_ip ch = ip" "\<forall>d \<in> set (p # ps). d \<noteq> []" "length (p # ps) \<le> 255"
  shows "udp_drain ip' event ch ds =
    Some (ch\<lparr>uc_counters := (uc_counters ch)(ip \<mapsto> b + of_nat (length ps)),
             uc_stacks := (uc_stacks ch)(ip \<mapsto> new_udp_stack), uc_stacked_ip := []\<rparr>, ds @ p # ps)"
  using assms
proof (induction ps arbitrary: p b ch ds event)
  case Nil
  have "udp_receive ip' event ch = Some (ch\<lparr>uc_stacks := (uc_stacks ch)(ip \<mapsto> new_udp_stack),
      uc_stacked_ip := []\<rparr>, 0, p)"
    using Nil.prems by (simp add: udp_receive_def handle_stack_def handle_stack_at_def window_remove)
  moreover have "(uc_counters ch)(ip \<mapsto> b) = uc_counters ch" using Nil.prems(2) by auto
  ultimately show ?case using Nil.prems
    by (cases ch) (simp add: udp_drain.simps [of ip' event] fun_upd_def)
next
  case (Cons q qs)
  let ?c = "ch\<lparr>uc_stacks := (uc_stacks ch)(ip \<mapsto> window (b + 1) (q # qs)),
               uc_counters := (uc_counters ch)(ip \<mapsto> b + 1)\<rparr>"
  have "udp_receive ip' event ch = Some (?c, 1, p)"
    using Cons.prems
    by (simp add: udp_receive_def handle_stack_def handle_stack_at_def window_remove us_has_next_window)
  moreover have "udp_drain ip' None ?c (ds @ [p]) =
    Some (?c\<lparr>uc_counters := (uc_counters ?c)(ip \<mapsto> b + 1 + of_nat (length qs)),
             uc_stacks := (uc_stacks ?c)(ip \<mapsto> new_udp_stack), uc_stacked_ip := []\<rparr>,
          (ds @ [p]) @ q # qs)"
    using Cons.prems by (intro Cons.IH) auto
  ultimately show ?case using Cons.prems by (simp add: udp_drain.simps [of ip' event ch] add.assoc fun_upd_def cong: if_cong)
qed

text \<open>The datagrams of one address from a number on.\<close>

fun datagrams_from :: "string \<Rightarrow> u8 \<Rightarrow> bytes list \<Rightarrow> (string \<times> bytes) list" where
  "datagrams_from ip b [] = []"
| "datagrams_from ip b (p # ps) = (ip, b # p) # datagrams_from ip (b + 1) ps"

lemma datagrams_from_append:
  "datagrams_from ip b (ps @ qs) = datagrams_from ip b ps @ datagrams_from ip (b + of_nat (length ps)) qs"
  by (induction ps arbitrary: b) (auto simp: add.assoc)

lemma lost_not_waiting:
  assumes "j < g" "g + length ps \<le> 256"
  shows "\<not> us_has_next (c + of_nat j) (window (c + of_nat g) ps)"
proof -
  obtain k where k: "g = j + k" "0 < k" using assms(1) less_imp_add_positive by blast
  have "(of_nat (256 - k) :: u8) = of_nat 256 - of_nat k"
    using k assms(2) by (intro of_nat_diff) simp
  then have "c + of_nat j - (c + of_nat g) = of_nat (256 - k)" by (simp add: k)
  then have "unat (c + of_nat j - (c + of_nat g)) = 256 - k" using k by (simp add: unat_of_nat)
  moreover have "\<not> 256 - k < length ps" using assms k by linarith
  ultimately show ?thesis unfolding us_has_next_window by simp
qed

lemma receive_early:
  assumes "uc_counters ch ip = Some prev" "uc_stacks ch ip = Some (window b ps)" "uc_stacked_ip ch = []"
    and "0 \<le> uc_fd ch" "uc_input ch" "0 < g" "b = prev + 1 + of_nat g" "g + length ps < 256"
  shows "udp_receive ip (Some ((b + of_nat (length ps)) # p)) ch =
    check_stack ip (prev + 1) False
      (ch\<lparr>uc_stacks := (uc_stacks ch)(ip \<mapsto> window b (ps @ [p])), uc_stacked_ip := []\<rparr>) []"
proof -
  have "\<not> us_has_next (prev + 1 + of_nat 0) (window (prev + 1 + of_nat g) (ps @ [p]))"
    by (rule lost_not_waiting) (use assms in auto)
  then show ?thesis using assms
    by (simp add: udp_receive_def udp_sequence_def window_add Let_def del: us_has_next_add)
qed

lemma drain_early:
  assumes "uc_counters ch ip = Some prev" "uc_stacks ch ip = Some (window b ps)" "uc_stacked_ip ch = []"
    and "0 \<le> uc_fd ch" "uc_input ch" "0 < g" "b = prev + 1 + of_nat g" "g + length ps < 256"
    and "length ps < unat (uc_max_stack ch)"
  shows "udp_drain ip (Some ((b + of_nat (length ps)) # p)) ch [] =
    Some (ch\<lparr>uc_stacks := (uc_stacks ch)(ip \<mapsto> window b (ps @ [p])), uc_stacked_ip := []\<rparr>, [])"
proof -
  have "unat (us_counter (window b (ps @ [p]))) = length ps + 1"
    using assms(6,8) by (simp add: window_def unat_of_nat flip: of_nat_Suc)
  then show ?thesis using assms(9)
    by (simp add: udp_drain.simps [of ip "Some ((b + of_nat (length ps)) # p)"]
        receive_early [OF assms(1-8)] check_stack_def)
qed

lemma run_early:
  assumes "uc_counters ch ip = Some prev" "uc_stacks ch ip = Some new_udp_stack" "uc_stacked_ip ch = []"
    and "0 \<le> uc_fd ch" "uc_input ch" "0 < g" "b = prev + 1 + of_nat g" "g + length ps \<le> 256"
    and "length ps \<le> unat (uc_max_stack ch)"
  shows "udp_run ch (datagrams_from ip b ps) =
    Some (ch\<lparr>uc_stacks := (uc_stacks ch)(ip \<mapsto> window b ps), uc_stacked_ip := []\<rparr>, [])"
  using assms(8,9)
proof (induction ps rule: rev_induct)
  case Nil
  have "(uc_stacks ch)(ip \<mapsto> new_udp_stack) = uc_stacks ch" using assms(2) by auto
  then show ?case using assms(3) by (cases ch) simp
next
  case (snoc p ps)
  let ?c = "ch\<lparr>uc_stacks := (uc_stacks ch)(ip \<mapsto> window b ps), uc_stacked_ip := []\<rparr>"
  have "udp_drain ip (Some ((b + of_nat (length ps)) # p)) ?c [] =
    Some (?c\<lparr>uc_stacks := (uc_stacks ?c)(ip \<mapsto> window b (ps @ [p])), uc_stacked_ip := []\<rparr>, [])"
    by (rule drain_early [where prev = prev and g = g]) (use assms snoc.prems in auto)
  then show ?case using snoc by (simp add: datagrams_from_append udp_run_append fun_upd_def cong: if_cong)
qed

text \<open>One datagram more than the size of the stack: the search finds the first that waits.\<close>

lemma overflow_recovers:
  assumes "udp_synced ch" "uc_counters ch ip = Some prev" "ip \<noteq> []" "0 < g"
    and "length ps = unat (uc_max_stack ch) + 1" "g + length ps \<le> 255" "\<forall>d \<in> set ps. d \<noteq> []"
  shows "\<exists>ch'. udp_run ch (datagrams_from ip (prev + 1 + of_nat g) ps) = Some (ch', ps) \<and>
    udp_synced ch' \<and> uc_counters ch' ip = Some (prev + of_nat g + of_nat (length ps))"
proof -
  let ?b = "prev + 1 + of_nat g :: u8"
  obtain qs q where ps: "ps = qs @ [q]" using assms(5) by (cases ps rule: rev_cases) auto
  obtain p rs where qs: "qs @ [q] = p # rs" by (cases "qs @ [q]") auto
  have sy: "uc_stacks ch ip = Some new_udp_stack" "uc_stacked_ip ch = []" "0 \<le> uc_fd ch" "uc_input ch"
    using assms(1,2) by (auto simp: udp_synced_def)
  let ?c = "ch\<lparr>uc_stacks := (uc_stacks ch)(ip \<mapsto> window ?b qs), uc_stacked_ip := []\<rparr>"
  let ?d = "?c\<lparr>uc_stacks := (uc_stacks ch)(ip \<mapsto> window ?b (qs @ [q])), uc_stacked_ip := []\<rparr>"
  let ?e = "?d\<lparr>uc_counters := (uc_counters ch)(ip \<mapsto> ?b), uc_stacked_ip := ip\<rparr>"
  have early: "udp_run ch (datagrams_from ip ?b qs) = Some (?c, [])"
    using sy assms by (intro run_early) (auto simp: ps)
  have n: "unat (us_counter (window ?b (qs @ [q]))) = length qs + 1"
    using assms(6) by (simp add: ps window_def unat_of_nat flip: of_nat_Suc)
  have search: "us_search (window ?b (qs @ [q])) (prev + 1 + 1) = Some ?b"
  proof -
    obtain k where k: "g = Suc k" using assms(4) by (cases g) auto
    have "us_search (window ?b (qs @ [q])) (prev + 1 + 1) = Some (prev + 1 + 1 + of_nat k)"
    proof (rule us_search_found)
      show "us_has_next (prev + 1 + 1 + of_nat k) (window ?b (qs @ [q]))"
        using assms(7) by (simp add: us_has_next_window k ps qs add.assoc)
      show "\<forall>j < k. \<not> us_has_next (prev + 1 + 1 + of_nat j) (window ?b (qs @ [q]))"
      proof (intro allI impI)
        fix j assume "j < k"
        then show "\<not> us_has_next (prev + 1 + 1 + of_nat j) (window ?b (qs @ [q]))"
          using lost_not_waiting [of "Suc j" g "qs @ [q]" "prev + 1"] assms(6)
          by (simp add: k ps add.assoc)
      qed
    qed
    then show ?thesis by (simp add: k add.assoc)
  qed
  have "udp_receive ip (Some ((?b + of_nat (length qs)) # q)) ?c = Some (?e, 1, [])"
  proof -
    have "udp_receive ip (Some ((?b + of_nat (length qs)) # q)) ?c = check_stack ip (prev + 1) False
      (?c\<lparr>uc_stacks := (uc_stacks ?c)(ip \<mapsto> window ?b (qs @ [q])), uc_stacked_ip := []\<rparr>) []"
      by (rule receive_early [where prev = prev and g = g]) (use assms sy in \<open>auto simp: ps\<close>)
    then show ?thesis using assms(5) n search by (simp add: check_stack_def ps fun_upd_def cong: if_cong)
  qed
  moreover have "udp_drain ip None ?e [] =
    Some (?e\<lparr>uc_counters := (uc_counters ?e)(ip \<mapsto> ?b + of_nat (length rs)),
             uc_stacks := (uc_stacks ?e)(ip \<mapsto> new_udp_stack), uc_stacked_ip := []\<rparr>, [] @ p # rs)"
    by (rule drain_window) (use assms in \<open>auto simp: ps qs\<close>)
  ultimately have "udp_drain ip (Some ((?b + of_nat (length qs)) # q)) ?c [] =
    Some (?e\<lparr>uc_counters := (uc_counters ?e)(ip \<mapsto> ?b + of_nat (length rs)),
             uc_stacks := (uc_stacks ?e)(ip \<mapsto> new_udp_stack), uc_stacked_ip := []\<rparr>, ps)"
    by (simp add: udp_drain.simps [of ip "Some ((?b + of_nat (length qs)) # q)"] ps qs)
  moreover have "of_nat (length ps) = (1 + of_nat (length rs) :: u8)" by (simp add: ps qs)
  ultimately show ?thesis using early assms(1)
    by (simp add: ps datagrams_from_append udp_run_append udp_synced_def add_ac)
qed



section \<open>Two datagrams that change places\<close>

lemma us_add_remove_free:
  "us_slots s c = None \<Longrightarrow> us_remove c (us_add c d s) = (s, d)"
  "us_slots s c = None \<Longrightarrow> us_remove c s = (s, [])"
  by (cases s; simp add: us_remove_def us_add_def fun_upd_idem)+

text \<open>For the channel, the late datagram is delivered and otherwise as good as lost.\<close>

lemma swapped_run:
  assumes "udp_synced ch" "uc_counters ch ip = Some prev" "ip \<noteq> []" "p \<noteq> []" "q \<noteq> []"
    and "1 \<le> unat (uc_max_stack ch)"
  shows "udp_run ch ((ip, (prev + 2) # p) # (ip, (prev + 1) # q) # es) =
    map_option (\<lambda>(ch', ds). (ch', q # ds)) (udp_run ch ((ip, (prev + 2) # p) # es))"
proof -
  have sy: "uc_stacks ch ip = Some new_udp_stack" "uc_stacked_ip ch = []" "0 \<le> uc_fd ch" "uc_input ch"
    using assms(1,2) by (auto simp: udp_synced_def)
  define s where "s = us_add (prev + 2) p new_udp_stack"
  have free: "us_slots s (prev + 1) = None" "us_slots s prev = None"
    by (auto simp: s_def us_add_def new_udp_stack_def)
  have nxt: "us_has_next c s \<longleftrightarrow> c = prev + 2" for c
    using assms(4) by (auto simp: s_def)
  have cnt: "unat (us_counter s) = 1" by (simp add: s_def us_add_def new_udp_stack_def)
  let ?c = "ch\<lparr>uc_stacks := (uc_stacks ch)(ip \<mapsto> s), uc_stacked_ip := []\<rparr>"
  have d1: "udp_drain ip (Some ((prev + 2) # p)) ch [] = Some (?c, [])"
    using sy assms cnt
    by (simp add: udp_drain.simps [of ip "Some ((prev + 2) # p)"] udp_receive_def udp_sequence_def
        check_stack_def nxt flip: s_def)
  let ?d = "?c\<lparr>uc_stacked_ip := ip\<rparr>"
  have r2: "udp_receive ip (Some ((prev + 1) # q)) ?c = Some (?d, 1, q)"
    using sy assms
    by (simp add: udp_receive_def udp_sequence_def handle_stack_at_def us_add_remove_free free nxt
        fun_upd_def cong: if_cong)
  have r3: "udp_receive ip None ?d = Some (?c, 0, [])"
    using sy assms
    by (simp add: udp_receive_def handle_stack_def handle_stack_at_def us_add_remove_free free nxt
        fun_upd_def cong: if_cong)
  have "udp_drain ip (Some ((prev + 1) # q)) ?c [] = Some (?c, [q])"
    using r2 r3 assms(5)
    by (simp add: udp_drain.simps [of ip "Some ((prev + 1) # q)"] udp_drain.simps [of ip None])
  then show ?thesis by (cases "udp_run ?c es") (auto simp: d1)
qed

text \<open>C16: when two datagrams of an address come in the wrong order, the first number is delivered
  when it comes and the second is not, although it waits: the counter keeps its value.  The datagrams
  that follow in order, however many, are not delivered either while all that wait fit the
  configured size of the stack; the one that overflows it delivers all of them, in order, and brings
  the channel in step with the sender.\<close>

theorem reordering_stalls:
  assumes "udp_synced ch" "uc_counters ch ip = Some prev" "ip \<noteq> []" "p \<noteq> []" "q \<noteq> []"
    and "1 \<le> unat (uc_max_stack ch)" "\<forall>d \<in> set rs. d \<noteq> []" "length rs \<le> 253"
  defines "run \<equiv>
    udp_run ch ((ip, (prev + 2) # p) # (ip, (prev + 1) # q) # datagrams_from ip (prev + 3) rs)"
  shows "(length rs < unat (uc_max_stack ch) \<longrightarrow> (\<exists>ch'. run = Some (ch', [q]) \<and>
      uc_counters ch' ip = Some prev \<and> uc_stacks ch' ip = Some (window (prev + 2) (p # rs)))) \<and>
    (length rs = unat (uc_max_stack ch) \<longrightarrow> (\<exists>ch'. run = Some (ch', q # p # rs) \<and>
      udp_synced ch' \<and> uc_counters ch' ip = Some (prev + 2 + of_nat (length rs))))"
proof -
  have sy: "uc_stacks ch ip = Some new_udp_stack" "uc_stacked_ip ch = []" "0 \<le> uc_fd ch" "uc_input ch"
    using assms(1,2) by (auto simp: udp_synced_def)
  have b: "prev + 1 + of_nat 1 = prev + 2" by simp
  have ds: "(ip, (prev + 2) # p) # datagrams_from ip (prev + 3) rs = datagrams_from ip (prev + 2) (p # rs)"
    by (simp add: add.commute)
  have run: "run = map_option (\<lambda>(ch', ds). (ch', q # ds)) (udp_run ch (datagrams_from ip (prev + 2) (p # rs)))"
    unfolding run_def ds [symmetric] by (rule swapped_run [OF assms(1-6)])
  have "udp_run ch (datagrams_from ip (prev + 2) (p # rs)) =
      Some (ch\<lparr>uc_stacks := (uc_stacks ch)(ip \<mapsto> window (prev + 2) (p # rs)), uc_stacked_ip := []\<rparr>, [])"
    if "length rs < unat (uc_max_stack ch)"
    using sy assms(2,8) that by (intro run_early [where g = 1]) simp_all
  moreover have "\<exists>ch'. udp_run ch (datagrams_from ip (prev + 2) (p # rs)) = Some (ch', p # rs) \<and>
      udp_synced ch' \<and> uc_counters ch' ip = Some (prev + of_nat 1 + of_nat (length (p # rs)))"
    if "length rs = unat (uc_max_stack ch)"
    using overflow_recovers [of ch ip prev 1 "p # rs"] assms that unfolding b by simp
  ultimately show ?thesis using assms(2) by (auto simp: run)
qed

theorem reordering_stalls_witness:
  "(\<exists>ch'. udp_run (rx_channel\<lparr>uc_counters := [''10.0.0.1'' \<mapsto> 7], uc_stacks := [''10.0.0.1'' \<mapsto> new_udp_stack]\<rparr>)
      [(''10.0.0.1'', [9, 2]), (''10.0.0.1'', [8, 1]), (''10.0.0.1'', [10, 3])] = Some (ch', [[1]]) \<and>
      uc_counters ch' ''10.0.0.1'' = Some 7) \<and>
   (\<exists>ch'. udp_run (rx_channel\<lparr>uc_counters := [''10.0.0.1'' \<mapsto> 7], uc_stacks := [''10.0.0.1'' \<mapsto> new_udp_stack]\<rparr>)
      [(''10.0.0.1'', [9, 2]), (''10.0.0.1'', [8, 1]), (''10.0.0.1'', [10, 3]), (''10.0.0.1'', [11, 4])] =
      Some (ch', [[1], [2], [3], [4]]) \<and> uc_counters ch' ''10.0.0.1'' = Some 11)"
proof -
  let ?ch = "rx_channel\<lparr>uc_counters := [''10.0.0.1'' \<mapsto> 7], uc_stacks := [''10.0.0.1'' \<mapsto> new_udp_stack]\<rparr>"
  have hyps: "udp_synced ?ch" "uc_counters ?ch ''10.0.0.1'' = Some 7" "uc_max_stack ?ch = 2"
    by (auto simp: udp_synced_def rx_channel_def new_udp_channel_def)
  from reordering_stalls [OF hyps(1,2), of "[2]" "[1]" "[[3]]"]
    reordering_stalls [OF hyps(1,2), of "[2]" "[1]" "[[3], [4]]"]
  show ?thesis using hyps(3) by (auto simp del: udp_run.simps)
qed

section \<open>Every datagram is taken\<close>

text \<open>The counter of a stack is the number of its slots that are not null, modulo 256.\<close>

definition us_wf :: "udp_stack \<Rightarrow> bool" where
  "us_wf s \<longleftrightarrow> us_counter s = of_nat (card (dom (us_slots s))) \<and> (\<forall>i. us_slots s i \<noteq> Some [])"

lemma us_wf_new [simp]: "us_wf new_udp_stack"
  by (simp add: us_wf_def new_udp_stack_def)

lemma us_wf_reset [simp]: "us_wf (us_reset s)"
  by (simp add: us_wf_def us_reset_def)

lemma us_wf_add: "us_wf s \<Longrightarrow> d \<noteq> [] \<Longrightarrow> us_wf (us_add c d s)"
  by (cases "us_slots s c") (simp_all add: us_wf_def us_add_def card_insert_if domIff)

lemma card_dom_remove:
  fixes m :: "u8 \<Rightarrow> 'a option"
  shows "m c \<noteq> None \<Longrightarrow> card (dom m) = Suc (card (dom m - {c}))"
  by (intro card.remove) auto

lemma us_wf_remove:
  assumes "us_wf s"
  shows "us_wf (fst (us_remove c s))"
proof (cases "us_slots s c")
  case (Some d)
  then have "of_nat (card (dom (us_slots s))) = (of_nat (Suc (card (dom (us_slots s) - {c}))) :: u8)"
    using card_dom_remove [of "us_slots s" c] by simp
  then show ?thesis using assms Some by (simp add: us_wf_def us_remove_def del: card_Diff_insert card_Diff_singleton_if)
qed (use assms in \<open>simp add: us_wf_def us_remove_def domIff\<close>)

lemma us_has_next_wf: "us_wf s \<Longrightarrow> us_has_next c s \<longleftrightarrow> us_slots s c \<noteq> None"
  by (auto simp: us_has_next_def us_wf_def split: option.splits)

lemma us_search_wf:
  assumes "us_wf s" "0 < unat (us_counter s)"
  shows "\<exists>c'. us_search s c = Some c'"
proof -
  have "dom (us_slots s) \<noteq> {}" using assms by (auto simp: us_wf_def)
  then show ?thesis using assms(1) by (auto simp: us_search_ends us_has_next_wf)
qed

definition udp_inv :: "udp_channel \<Rightarrow> bool" where
  "udp_inv ch \<longleftrightarrow> (\<forall>ip. uc_counters ch ip = None \<longleftrightarrow> uc_stacks ch ip = None) \<and>
     (\<forall>ip s. uc_stacks ch ip = Some s \<longrightarrow> us_wf s) \<and>
     (uc_stacked_ip ch \<noteq> [] \<longrightarrow> uc_counters ch (uc_stacked_ip ch) \<noteq> None)"

lemma udp_inv_new: "udp_inv (new_udp_channel spot ident input output fd mx)"
  by (simp add: udp_inv_def new_udp_channel_def)

lemma udp_inv_upd:
  assumes "udp_inv ch" "us_wf s" "cs = (uc_counters ch)(ip \<mapsto> c) \<or> cs = uc_counters ch \<and> cs ip \<noteq> None"
    and "ip' = [] \<or> ip' = ip"
  shows "udp_inv (ch\<lparr>uc_counters := cs, uc_stacks := (uc_stacks ch)(ip \<mapsto> s), uc_stacked_ip := ip'\<rparr>)"
  using assms by (auto simp: udp_inv_def)

lemma check_stack_total:
  assumes "udp_inv ch" "uc_counters ch ip \<noteq> None"
  shows "\<exists>ch' r d'. check_stack ip c first ch d = Some (ch', r, d') \<and> udp_inv ch'"
proof -
  obtain s where s: "uc_stacks ch ip = Some s" "us_wf s"
    using assms by (cases "uc_stacks ch ip") (auto simp: udp_inv_def)
  obtain c' where c': "unat (uc_max_stack ch) < unat (us_counter s) \<Longrightarrow> us_search s (c + 1) = Some c'"
    using us_search_wf [OF s(2)] by (metis gr_zeroI not_less_zero)
  obtain y where "uc_counters ch ip = Some y" using assms(2) by blast
  then show ?thesis using assms(1) s c' by (auto simp: check_stack_def udp_inv_def)
qed

lemma handle_stack_at_inv:
  assumes "udp_inv ch" "us_wf s" "uc_counters ch ip \<noteq> None" "uc_stacked_ip ch = ip"
    and "handle_stack_at ip c s ch = (ch', d)"
  shows "udp_inv ch' \<and> uc_counters ch' = uc_counters ch \<and>
    uc_stacks ch' ip = Some (fst (us_remove c s)) \<and>
    uc_stacked_ip ch' = (if us_slots s (c + 1) \<noteq> None then ip else [])"
proof -
  obtain s' d' where r: "us_remove c s = (s', d')" by (cases "us_remove c s")
  have w: "us_wf s'" using us_wf_remove [OF assms(2), of c] by (simp add: r)
  have n: "us_has_next (c + 1) s' \<longleftrightarrow> us_slots s (c + 1) \<noteq> None"
    using us_has_next_wf [OF w] r by (auto simp: us_remove_def)
  have "ch' = ch\<lparr>uc_counters := uc_counters ch, uc_stacks := (uc_stacks ch)(ip \<mapsto> s'),
      uc_stacked_ip := (if us_slots s (c + 1) \<noteq> None then ip else [])\<rparr>"
    using assms(4,5) n by (cases ch) (auto simp: handle_stack_at_def r)
  then show ?thesis
    using udp_inv_upd [OF assms(1) w, of "uc_counters ch" ip] assms(3) by (simp add: r)
qed

lemma udp_inv_counter:
  "udp_inv ch \<Longrightarrow> uc_counters ch ip \<noteq> None \<Longrightarrow> udp_inv (ch\<lparr>uc_counters := (uc_counters ch)(ip \<mapsto> c)\<rparr>)"
  by (auto simp: udp_inv_def)

lemma handle_stack_step:
  assumes "udp_inv ch" "uc_stacked_ip ch = ip" "uc_counters ch ip = Some c" "uc_stacks ch ip = Some s"
  shows "\<exists>ch' d. handle_stack ch = (ch', d, True) \<and> udp_inv ch' \<and>
    (uc_stacked_ip ch' \<noteq> [] \<longrightarrow> uc_stacked_ip ch' = ip \<and> uc_counters ch' ip = Some (c + 1) \<and>
       uc_stacks ch' ip = Some (fst (us_remove c s)) \<and> us_slots s (c + 1) \<noteq> None)"
proof -
  obtain ch1 d where h: "handle_stack_at ip c s ch = (ch1, d)" by (cases "handle_stack_at ip c s ch")
  have w: "us_wf s" using assms by (auto simp: udp_inv_def)
  note i = handle_stack_at_inv [OF assms(1) w _ assms(2) h]
  show ?thesis
  proof (cases "uc_stacked_ip ch1 = []")
    case True
    then show ?thesis using i assms by (simp add: handle_stack_def h)
  next
    case False
    let ?c = "ch1\<lparr>uc_counters := (uc_counters ch1)(ip \<mapsto> c + 1)\<rparr>"
    have "handle_stack ch = (?c, d, True)" using False assms by (simp add: handle_stack_def h)
    moreover have "udp_inv ?c" using i assms(3) by (intro udp_inv_counter) auto
    ultimately show ?thesis using False i assms(3) by (auto split: if_splits)
  qed
qed

lemma check_stack_step:
  assumes "udp_inv ch" "uc_counters ch ip \<noteq> None" "uc_stacked_ip ch = []" "ip \<noteq> []"
  shows "\<exists>ch' r d'. check_stack ip c first ch d = Some (ch', r, d') \<and> udp_inv ch' \<and>
    (r > 0 \<longleftrightarrow> uc_stacked_ip ch' \<noteq> [])"
  using check_stack_total [OF assms(1,2), of c first d] assms(3,4)
  by (auto simp: check_stack_def split: option.splits if_splits Option.bind_splits)

lemma udp_sequence_step:
  assumes "udp_inv ch" "p \<noteq> []" "ip \<noteq> []"
  shows "\<exists>ch' r d. udp_sequence ip nb p ch = Some (ch', r, d) \<and> udp_inv ch' \<and>
    (r > 0 \<longleftrightarrow> uc_stacked_ip ch' \<noteq> [])"
proof -
  let ?first = "uc_counters ch ip = None"
  define ch1 where "ch1 = (if ?first then ch\<lparr>uc_counters := (uc_counters ch)(ip \<mapsto> nb),
      uc_stacks := (uc_stacks ch)(ip \<mapsto> new_udp_stack)\<rparr> else ch)"
  define cur where "cur = (case uc_counters ch ip of None \<Rightarrow> nb | Some c \<Rightarrow> c + 1)"
  have i1: "udp_inv ch1" "uc_counters ch1 ip \<noteq> None"
    using assms(1) by (cases "uc_counters ch ip"; auto simp: ch1_def udp_inv_def)+
  then obtain s where s: "uc_stacks ch1 ip = Some s" "us_wf s"
    by (cases "uc_stacks ch1 ip") (auto simp: udp_inv_def)
  define s' where "s' = us_add nb p s"
  have w: "us_wf s'" unfolding s'_def by (rule us_wf_add [OF s(2) assms(2)])
  define ch2 where "ch2 = ch1\<lparr>uc_stacks := (uc_stacks ch1)(ip \<mapsto> s'), uc_stacked_ip := ip\<rparr>"
  have i2: "udp_inv ch2" "uc_counters ch2 ip \<noteq> None" "uc_stacked_ip ch2 = ip"
    using i1 w by (auto simp: ch2_def udp_inv_def)
  have e: "udp_sequence ip nb p ch =
     (if us_has_next cur s' then
        (let (ch3, d) = handle_stack_at ip cur s' ch2
         in if uc_stacked_ip ch3 \<noteq> [] then Some (ch3, 1, d)
            else check_stack ip cur ?first
                   (if ?first then ch3 else ch3\<lparr>uc_counters := (uc_counters ch3)(ip \<mapsto> cur)\<rparr>) d)
      else check_stack ip cur ?first (ch2\<lparr>uc_stacked_ip := []\<rparr>) [])"
    using s(1) by (simp add: udp_sequence_def Let_def ch2_def flip: ch1_def s'_def cur_def)
  show ?thesis
  proof (cases "us_has_next cur s'")
    case True
    obtain ch3 d where h: "handle_stack_at ip cur s' ch2 = (ch3, d)" by (cases "handle_stack_at ip cur s' ch2")
    note i3 = handle_stack_at_inv [OF i2(1) w i2(2,3) h]
    define ch4 where "ch4 = (if ?first then ch3 else ch3\<lparr>uc_counters := (uc_counters ch3)(ip \<mapsto> cur)\<rparr>)"
    have c3: "udp_inv ch3" "uc_counters ch3 ip \<noteq> None" using i3 i2(2) by auto
    have i4: "udp_inv ch4" "uc_counters ch4 ip \<noteq> None" "uc_stacked_ip ch4 = uc_stacked_ip ch3"
      using c3 udp_inv_counter [OF c3] by (auto simp: ch4_def)
    show ?thesis
    proof (cases "uc_stacked_ip ch3 = []")
      case True
      then have "udp_sequence ip nb p ch = check_stack ip cur ?first ch4 d"
        using \<open>us_has_next cur s'\<close> by (simp add: e h flip: ch4_def)
      then show ?thesis using check_stack_step [OF i4(1,2) _ assms(3), of cur ?first d] i4(3) True by simp
    qed (use True c3 in \<open>simp add: e h\<close>)
  next
    case False
    have "udp_inv (ch2\<lparr>uc_stacked_ip := []\<rparr>)" using i2(1) by (simp add: udp_inv_def)
    then show ?thesis
      using False check_stack_step [of "ch2\<lparr>uc_stacked_ip := []\<rparr>" ip cur ?first "[]"] i2(2) assms(3)
      by (simp add: e)
  qed
qed

lemma udp_drain_stacked:
  assumes "udp_inv ch" "uc_stacked_ip ch = ip0" "ip0 \<noteq> []" "uc_counters ch ip0 = Some c" "uc_stacks ch ip0 = Some s"
  shows "\<exists>ch' ds'. udp_drain ip event ch ds = Some (ch', ds') \<and> udp_inv ch' \<and> uc_stacked_ip ch' = []"
  using assms
proof (induction "2 * card (dom (us_slots s)) + (if us_slots s c = None then 1 else 0)"
    arbitrary: ch c s event ds rule: less_induct)
  case less
  obtain ch1 d where h: "handle_stack ch = (ch1, d, True)" "udp_inv ch1"
    and n: "uc_stacked_ip ch1 \<noteq> [] \<Longrightarrow> uc_stacked_ip ch1 = ip0 \<and> uc_counters ch1 ip0 = Some (c + 1) \<and>
       uc_stacks ch1 ip0 = Some (fst (us_remove c s)) \<and> us_slots s (c + 1) \<noteq> None"
    using handle_stack_step [OF less.prems(1,2,4,5)] by blast
  have r: "udp_receive ip event ch = Some (ch1, if uc_stacked_ip ch1 \<noteq> [] then 1 else 0, d)"
    using less.prems(2,3) by (simp add: udp_receive_def h)
  show ?case
  proof (cases "uc_stacked_ip ch1 = []")
    case True
    then show ?thesis using h by (simp add: udp_drain.simps [of ip event ch] r)
  next
    case False
    let ?s = "fst (us_remove c s)"
    have sl: "us_slots ?s = (us_slots s)(c := None)" by (simp add: us_remove_def)
    have "\<exists>ch' ds'. udp_drain ip None ch1 (if d = [] then ds else ds @ [d]) = Some (ch', ds') \<and>
        udp_inv ch' \<and> uc_stacked_ip ch' = []"
    proof (rule less.hyps)
      show "2 * card (dom (us_slots ?s)) + (if us_slots ?s (c + 1) = None then 1 else 0)
          < 2 * card (dom (us_slots s)) + (if us_slots s c = None then 1 else 0)"
        using n [OF False] card_dom_remove [of "us_slots s" c]
        by (cases "us_slots s c") (auto simp: sl domIff)
    qed (use n [OF False] h less.prems(3) in auto)
    then show ?thesis using False by (simp add: udp_drain.simps [of ip event ch] r)
  qed
qed

text \<open>C20: from a state that satisfies the invariant, every datagram with a number and some data is
  taken: the search for the next waiting datagram ends, so do the calls of \<^verbatim>\<open>receive\<close> that the
  datagram causes, and the invariant holds again.\<close>

theorem udp_drain_total:
  assumes "udp_inv ch" "p \<noteq> []" "ip \<noteq> []" "uc_stacked_ip ch = []"
  shows "\<exists>ch' ds. udp_drain ip (Some (nb # p)) ch [] = Some (ch', ds) \<and> udp_inv ch' \<and>
    uc_stacked_ip ch' = []"
proof (cases "uc_fd ch < 0 \<or> \<not> uc_input ch")
  case True
  then show ?thesis using assms by (auto simp: udp_drain.simps [of ip "Some (nb # p)"] udp_receive_def)
next
  case False
  obtain ch1 r d where s: "udp_sequence ip nb p ch = Some (ch1, r, d)" "udp_inv ch1"
    and r: "r > 0 \<longleftrightarrow> uc_stacked_ip ch1 \<noteq> []"
    using udp_sequence_step [OF assms(1-3), of nb] by blast
  have e: "udp_receive ip (Some (nb # p)) ch = Some (ch1, r, d)"
    using False assms(4) s by (simp add: udp_receive_def)
  show ?thesis
  proof (cases "uc_stacked_ip ch1 = []")
    case True
    then show ?thesis using s r by (auto simp: udp_drain.simps [of ip "Some (nb # p)"] e)
  next
    case False
    then obtain c t where "uc_counters ch1 (uc_stacked_ip ch1) = Some c"
      "uc_stacks ch1 (uc_stacked_ip ch1) = Some t"
      using s(2) unfolding udp_inv_def by (metis option.exhaust)
    then show ?thesis using udp_drain_stacked [OF s(2) refl False, of c t ip None] r False
      by (auto simp: udp_drain.simps [of ip "Some (nb # p)"] e)
  qed
qed

theorem udp_drain_total_witness:
  "\<exists>ch' ds. udp_drain ''10.0.0.1'' (Some (9 # [1])) rx_channel [] = Some (ch', ds) \<and> udp_inv ch' \<and>
    uc_stacked_ip ch' = []"
  by (rule udp_drain_total) (simp_all add: rx_channel_def udp_inv_new, simp add: new_udp_channel_def)

text \<open>A stack in which only empty datagrams wait: the search does not return.\<close>

lemma empty_datagrams_hang:
  "us_search (us_add 7 [] new_udp_stack) c = None"
proof (rule ccontr)
  assume "us_search (us_add 7 [] new_udp_stack) c \<noteq> None"
  then obtain c' where "us_search (us_add 7 [] new_udp_stack) c = Some c'" by blast
  from us_search_some [OF this] show False by (simp split: if_splits)
qed

section \<open>A frame from block to block\<close>

lemma set_send_datagram:
  "set_send carrier sent d cs = Some (cs', Some datagram, ok) \<Longrightarrow> \<exists>nb. datagram = nb # d"
  by (induction cs arbitrary: cs') (auto simp: udp_send_def split: if_splits)

lemma carrier_frame_data:
  assumes "2 \<le> length d"
  shows "\<exists>f. carrier_frame carrier spot d = Some f \<and> cont_data f = d \<and>
    frame_carrier_id f = ucast carrier \<and> cont_spot f = spot"
  using assms by (simp add: carrier_frame_def received_frame_def net_container.defs new_container_def Let_def)

text \<open>A frame that a carrier block sends reaches the block at the other end as a frame with the same
  data, with the carrier and the spot of the channel that received it.\<close>

lemma carrier_frame_received:
  assumes "carrier_on_message sent f ts = Some (ts', Some (nb # d))"
    and "udp_synced c" "uc_fd c = fd" "uc_counters c ip = None \<or> uc_counters c ip = Some (nb - 1)"
    and "2 \<le> length (cont_data f)"
  shows "\<exists>c' g. carrier_on_socket fd ip (nb # d) [c] = Some ([c'], [g], True) \<and>
    cont_data g = cont_data f \<and> frame_carrier_id g = ucast (uc_id c) \<and> cont_spot g = uc_spot c"
proof -
  obtain ok where "set_send (frame_carrier_id f) sent (cont_data f) ts = Some (ts', Some (nb # d), ok)"
    using assms(1) by (auto simp: carrier_on_message_def)
  then have d: "d = cont_data f" using set_send_datagram by fastforce
  obtain g where g: "carrier_frame (uc_id c) (uc_spot c) d = Some g" "cont_data g = d"
    "frame_carrier_id g = ucast (uc_id c)" "cont_spot g = uc_spot c"
    using carrier_frame_data assms(5) d by blast
  have ne: "d \<noteq> []" using assms(5) d by auto
  have in_c: "uc_input c" "0 \<le> uc_fd c" using assms(2) by (auto simp: udp_synced_def)
  show ?thesis
    using receive_in_order [OF assms(2) ne assms(4)] in_c ne g assms(3) d
    by (simp add: carrier_on_socket_def carrier_loop.simps [of fd ip "Some (nb # cont_data f)"])
qed

end
