(* ===== verification/Interconnect.thy ===== *)
theory Interconnect
  imports Udp_Channel Net_Burst Delay_Fifo
begin

text \<open>
  The interconnection of the two halves of a split satellite or gateway
  (\<^verbatim>\<open>opensand-core/src/interconnect/InterconnectChannel.cpp\<close>, \<^verbatim>\<open>BlockInterconnect.cpp\<close>): a
  message between two blocks is laid out in a buffer, waits in a FIFO for the delay of the link, and
  travels in a datagram of one of two UDP channels; the other half builds the message again.  The
  sockets, the clock and the configuration are arguments.
\<close>

section \<open>Messages\<close>

definition MSG_encap_data :: u8 where "MSG_encap_data = 0"
definition MSG_decap_data :: u8 where "MSG_decap_data = 1"
definition MSG_link_up :: u8 where "MSG_link_up = 2"
definition MSG_sig :: u8 where "MSG_sig = 3"
definition MSG_saloha :: u8 where "MSG_saloha = 4"
definition MSG_unknown :: u8 where "MSG_unknown = 5"

lemmas internal_types = MSG_encap_data_def MSG_decap_data_def MSG_link_up_def MSG_sig_def
  MSG_saloha_def MSG_unknown_def

text \<open>What the pointer of a message refers to; the type says which.\<close>

datatype message_data = Frame_message dvb_frame | Frames_message "dvb_frame list" | Burst_message "net_packet list"

record rt_message =
  rm_data :: message_data
  rm_length :: nat
  rm_type :: u8

section \<open>The layout of the buffer\<close>

definition ser_frame :: "dvb_frame \<Rightarrow> bytes" where
  "ser_frame f = cont_spot f # frame_carrier_id f # cont_data f"

definition ser_packet :: "net_packet \<Rightarrow> bytes" where
  "ser_packet p = [src_tal_id p, dst_tal_id p, pkt_qos p] @ bytes16 (pkt_type p) @
     bytes32 (of_nat (header_length p)) @ cont_data p"

definition with_length :: "bytes \<Rightarrow> bytes" where
  "with_length d = bytes32 (of_nat (length d)) @ d"

definition ser_frames :: "dvb_frame list \<Rightarrow> bytes" where
  "ser_frames fs = concat (map (\<lambda>f. with_length (ser_frame f)) fs)"

definition ser_burst :: "net_packet list \<Rightarrow> bytes" where
  "ser_burst ps = concat (map (\<lambda>p. with_length (ser_packet p)) ps)"

text \<open>Nothing checks that the message fits in the buffer on the stack, except an assertion in the loop
  over the packets of a burst; a type that does not fit the data is a wrong cast.\<close>

definition ser_message :: "rt_message \<Rightarrow> bytes option option" where
  "ser_message m =
     (let fits = (\<lambda>d. if length d \<le> MAX_SOCK_SIZE then Some (Some d) else None)
      in if rm_type m = MSG_encap_data \<or> rm_type m = MSG_sig then
           (case rm_data m of Frame_message f \<Rightarrow> fits (ser_frame f) | _ \<Rightarrow> None)
         else if rm_type m = MSG_saloha then
           (case rm_data m of Frames_message fs \<Rightarrow> fits (ser_frames fs) | _ \<Rightarrow> None)
         else if rm_type m = MSG_decap_data then
           (case rm_data m of Burst_message ps \<Rightarrow> fits (ser_burst ps) | _ \<Rightarrow> None)
         else Some None)"

definition message_buffer :: "u8 \<Rightarrow> bytes \<Rightarrow> bytes" where
  "message_buffer t d = bytes32 (of_nat (length d) + 1 + 4) @ t # d"

section \<open>The sender\<close>

record ic_sender =
  is_data_channel :: udp_channel
  is_sig_channel :: udp_channel
  is_fifo :: "unit delay_fifo"
  is_delay :: u32

definition new_ic_sender :: "u32 \<Rightarrow> int \<Rightarrow> int \<Rightarrow> u32 \<Rightarrow> ic_sender" where
  "new_ic_sender delay data_fd sig_fd stack =
     \<lparr>is_data_channel = new_udp_channel 0 0 False True data_fd stack,
      is_sig_channel = new_udp_channel 0 0 False True sig_fd stack,
      is_fifo = new_delay_fifo 10000, is_delay = delay\<rparr>"

definition send_buffer :: "bool \<Rightarrow> bool \<Rightarrow> bytes \<Rightarrow> ic_sender \<Rightarrow> (ic_sender \<times> bytes option \<times> bool) option" where
  "send_buffer sent is_sig msg s =
     (let n = unat (read32 msg 0)
      in if length msg < 4 \<or> length msg < n then None
         else if is_sig then
           map_option (\<lambda>(c, datagram, ok). (s\<lparr>is_sig_channel := c\<rparr>, datagram, ok))
             (udp_send sent (take n msg) (is_sig_channel s))
         else
           map_option (\<lambda>(c, datagram, ok). (s\<lparr>is_data_channel := c\<rparr>, datagram, ok))
             (udp_send sent (take n msg) (is_data_channel s)))"

text \<open>The loop ends with the first datagram that the socket refuses; \<open>room\<close> is the number of
  datagrams that it takes before, if it refuses one.  The result holds the datagrams with their channel
  and what is returned.\<close>

function timer_loop ::
  "nat option \<Rightarrow> u32 \<Rightarrow> ic_sender \<Rightarrow> (bool \<times> bytes) list \<Rightarrow> (ic_sender \<times> (bool \<times> bytes) list \<times> bool) option"
where
  "timer_loop room now s out =
     (if delay_current_size (is_fifo s) > 0 \<and> delay_tick_out (is_fifo s) \<le> int (unat now) then
        (case delay_pop (is_fifo s) of
           (f, None) \<Rightarrow> None
         | (f, Some e) \<Rightarrow>
             (let msg = cont_data (fe_elem e)
              in if length msg < 5 then None
                 else (let is_sig = (read8 msg 4 = MSG_sig)
                       in case send_buffer (room \<noteq> Some 0) is_sig msg (s\<lparr>is_fifo := f\<rparr>) of
                            None \<Rightarrow> None
                          | Some (s', datagram, ok) \<Rightarrow>
                              (let out' = (case datagram of None \<Rightarrow> out | Some d \<Rightarrow> out @ [(is_sig, d)])
                               in if \<not> ok then Some (s', out', False)
                                  else timer_loop (map_option (\<lambda>n. n - 1) room) now s' out'))))
      else Some (s, out, True))"
  by pat_completeness auto
termination
  by (relation "measure (\<lambda>(room, now, s, out). length (dqueue (is_fifo s)))")
    (auto simp: delay_pop_def send_buffer_def Let_def split: list.splits if_splits)

declare timer_loop.simps [simp del]

definition ic_on_timer ::
  "nat option \<Rightarrow> u32 \<Rightarrow> ic_sender \<Rightarrow> (ic_sender \<times> (bool \<times> bytes) list \<times> bool) option" where
  "ic_on_timer room now s = timer_loop room now s []"

text \<open>The code reads the clock twice when there is no delay, to date the message and to empty the FIFO;
  here both readings are \<open>now\<close>.\<close>

definition ic_send ::
  "nat option \<Rightarrow> u32 \<Rightarrow> rt_message \<Rightarrow> ic_sender \<Rightarrow> (ic_sender \<times> (bool \<times> bytes) list \<times> bool) option" where
  "ic_send room now m s =
     (case ser_message m of
        None \<Rightarrow> None
      | Some None \<Rightarrow> Some (s, [], False)
      | Some (Some d) \<Rightarrow>
          (let e = \<lparr>fe_elem = new_container (message_buffer (rm_type m) d), tick_in = int (unat now),
                    tick_out = int (unat (now + is_delay s))\<rparr>;
               (f, ok) = delay_push_back (is_fifo s) e
           in if \<not> ok then Some (s, [], False)
              else if is_delay s = 0 then ic_on_timer room now (s\<lparr>is_fifo := f\<rparr>)
              else Some (s\<lparr>is_fifo := f\<rparr>, [], True)))"

section \<open>The receiver\<close>

record ic_receiver =
  ir_data_channel :: udp_channel
  ir_sig_channel :: udp_channel

definition new_ic_receiver :: "int \<Rightarrow> int \<Rightarrow> u32 \<Rightarrow> ic_receiver" where
  "new_ic_receiver data_fd sig_fd stack =
     \<lparr>ir_data_channel = new_udp_channel 0 0 True False data_fd stack,
      ir_sig_channel = new_udp_channel 0 0 True False sig_fd stack\<rparr>"

text \<open>The result holds what is returned and, when there is one, the length, the type and the data of
  the message.  The copies of fewer bytes than the fields that are read are faults.\<close>

definition receive_to_buffer ::
  "int \<Rightarrow> string \<Rightarrow> bytes option \<Rightarrow> ic_receiver \<Rightarrow> (ic_receiver \<times> int \<times> (u32 \<times> u8 \<times> bytes) option) option" where
  "receive_to_buffer fd ip event r = do {
     (r', ret, d) \<leftarrow>
       (if fd = uc_fd (ir_sig_channel r) then
          map_option (\<lambda>(c, ret, d). (r\<lparr>ir_sig_channel := c\<rparr>, ret, d)) (udp_receive ip event (ir_sig_channel r))
        else
          map_option (\<lambda>(c, ret, d). (r\<lparr>ir_data_channel := c\<rparr>, ret, d)) (udp_receive ip event (ir_data_channel r)));
     (if 0 \<le> ret \<and> d \<noteq> [] then
        (if length d < 4 then None
         else if unat (read32 d 0) \<noteq> length d then Some (r', -1, None)
         else if length d < 5 then None
         else Some (r', ret, Some (read32 d 0 - 5, read8 d 4, drop 5 d)))
      else Some (r', ret, None)) }"

definition deser_frame :: "bytes \<Rightarrow> dvb_frame option" where
  "deser_frame d =
     (case d of
        spot # carrier # frame \<Rightarrow>
          map_option (\<lambda>f. f\<lparr>frame_carrier_id := carrier, cont_spot := spot\<rparr>) (received_frame 3 frame)
      | _ \<Rightarrow> None)"

definition deser_packet :: "bytes \<Rightarrow> net_packet option" where
  "deser_packet d =
     (if length d < 9 then None
      else Some (new_packet_full (drop 9 d) (length d - 9) ''interconnect'' (read16 d 3) (read8 d 2) (read8 d 0)
                   (read8 d 1) (unat (read32 d 5))))"

text \<open>The loop over the elements runs at least once; what it reads past the end of the buffer is a
  fault, so that the position never wraps.\<close>

function deser_loop :: "(bytes \<Rightarrow> 'a option) \<Rightarrow> bytes \<Rightarrow> 'a list option" where
  "deser_loop one d =
     (if length d < 4 \<or> length d < 4 + unat (read32 d 0) then None
      else (let n = unat (read32 d 0); rest = drop (4 + n) d
            in case one (take n (drop 4 d)) of
                 None \<Rightarrow> None
               | Some x \<Rightarrow> if rest = [] then Some [x] else map_option ((#) x) (deser_loop one rest)))"
  by pat_completeness auto
termination by (relation "measure (\<lambda>(one, d). length d)") auto

declare deser_loop.simps [simp del]

definition deser_frames :: "bytes \<Rightarrow> dvb_frame list option" where
  "deser_frames d = deser_loop deser_frame d"

definition deser_burst :: "bytes \<Rightarrow> net_packet list option" where
  "deser_burst d = deser_loop deser_packet d"

text \<open>An unknown type: the outer option is a fault, the inner one the message.\<close>

definition deser_message :: "u32 \<Rightarrow> u8 \<Rightarrow> bytes \<Rightarrow> rt_message option option" where
  "deser_message n t d =
     (let out = (\<lambda>x. Some \<lparr>rm_data = x, rm_length = unat n, rm_type = t\<rparr>)
      in if t = MSG_encap_data \<or> t = MSG_sig then map_option (\<lambda>f. out (Frame_message f)) (deser_frame d)
         else if t = MSG_saloha then map_option (\<lambda>fs. out (Frames_message fs)) (deser_frames d)
         else if t = MSG_decap_data then map_option (\<lambda>ps. out (Burst_message ps)) (deser_burst d)
         else Some None)"

partial_function (option) ic_receive_loop ::
  "int \<Rightarrow> string \<Rightarrow> bytes option \<Rightarrow> ic_receiver \<Rightarrow> rt_message list \<Rightarrow> bool \<Rightarrow>
   (ic_receiver \<times> rt_message list \<times> bool) option" where
  "ic_receive_loop fd ip event r ms status = do {
     (r', ret, buf) \<leftarrow> receive_to_buffer fd ip event r;
     (if ret < 0 then Some (r', ms, False)
      else do {
        (ms', status') \<leftarrow> (case buf of
            None \<Rightarrow> Some (ms, status)
          | Some (n, t, d) \<Rightarrow>
              map_option (\<lambda>m. case m of None \<Rightarrow> (ms, False) | Some m \<Rightarrow> (ms @ [m], status)) (deser_message n t d));
        (if ret > 0 then ic_receive_loop fd ip None r' ms' status' else Some (r', ms', status')) }) }"

definition ic_receive ::
  "int \<Rightarrow> string \<Rightarrow> bytes \<Rightarrow> ic_receiver \<Rightarrow> (ic_receiver \<times> rt_message list \<times> bool) option" where
  "ic_receive fd ip datagram r =
     (if fd \<noteq> uc_fd (ir_sig_channel r) \<and> fd \<noteq> uc_fd (ir_data_channel r) then Some (r, [], True)
      else ic_receive_loop fd ip (Some datagram) r [] True)"

section \<open>The blocks\<close>

text \<open>The sending channel of a block; what the timer returns is not looked at.\<close>

datatype send_event = Send_message rt_message | Send_timer | Send_other

definition ic_down_send_event ::
  "nat option \<Rightarrow> u32 \<Rightarrow> send_event \<Rightarrow> ic_sender \<Rightarrow> (ic_sender \<times> (bool \<times> bytes) list \<times> bool) option" where
  "ic_down_send_event room now ev s =
     (case ev of
        Send_message m \<Rightarrow> ic_send room now m s
      | Send_timer \<Rightarrow> map_option (\<lambda>(s', out, ok). (s', out, True)) (ic_on_timer room now s)
      | Send_other \<Rightarrow> Some (s, [], False))"

definition ic_up_send_event ::
  "nat option \<Rightarrow> u32 \<Rightarrow> send_event \<Rightarrow> ic_sender \<Rightarrow> (ic_sender \<times> (bool \<times> bytes) list \<times> bool) option" where
  "ic_up_send_event room now ev s =
     (case ev of
        Send_message m \<Rightarrow> ic_send room now m s
      | Send_timer \<Rightarrow> map_option (\<lambda>(s', out, ok). (s', out, True)) (ic_on_timer room now s)
      | Send_other \<Rightarrow> Some (s, [], False))"

text \<open>The receiving channel: \<open>queued\<close> says which messages the next block takes.\<close>

definition pass_messages :: "(rt_message \<Rightarrow> bool) \<Rightarrow> rt_message list \<Rightarrow> bool \<Rightarrow> rt_message list \<times> bool" where
  "pass_messages queued ms status = (filter queued ms, status \<and> list_all queued ms)"

definition ic_down_receive_event ::
  "(rt_message \<Rightarrow> bool) \<Rightarrow> int \<Rightarrow> string \<Rightarrow> bytes \<Rightarrow> ic_receiver \<Rightarrow>
   (ic_receiver \<times> rt_message list \<times> bool) option" where
  "ic_down_receive_event queued fd ip datagram r =
     map_option (\<lambda>(r', ms, ok). (r', pass_messages queued ms ok)) (ic_receive fd ip datagram r)"

definition ic_up_receive_event ::
  "(rt_message \<Rightarrow> bool) \<Rightarrow> int \<Rightarrow> string \<Rightarrow> bytes \<Rightarrow> ic_receiver \<Rightarrow>
   (ic_receiver \<times> rt_message list \<times> bool) option" where
  "ic_up_receive_event queued fd ip datagram r =
     map_option (\<lambda>(r', ms, ok). (r', pass_messages queued ms ok)) (ic_receive fd ip datagram r)"

text \<open>The initialisation: the stack size that the configuration gives for a direction, if it gives one,
  the file descriptors of the sockets and the identifiers of the events; a negative one is refused.\<close>

definition ic_down_receive_init ::
  "(bool \<Rightarrow> u32 option) \<Rightarrow> int \<Rightarrow> int \<Rightarrow> int \<Rightarrow> int \<Rightarrow> ic_receiver option" where
  "ic_down_receive_init conf data_fd sig_fd data_event sig_event =
     (case conf True of
        None \<Rightarrow> None
      | Some stack \<Rightarrow>
          (if data_event < 0 \<or> sig_event < 0 then None else Some (new_ic_receiver data_fd sig_fd stack)))"

definition ic_up_receive_init ::
  "(bool \<Rightarrow> u32 option) \<Rightarrow> int \<Rightarrow> int \<Rightarrow> int \<Rightarrow> int \<Rightarrow> ic_receiver option" where
  "ic_up_receive_init conf data_fd sig_fd data_event sig_event =
     (case conf False of
        None \<Rightarrow> None
      | Some stack \<Rightarrow>
          (if data_event < 0 \<or> sig_event < 0 then None else Some (new_ic_receiver data_fd sig_fd stack)))"

definition ic_down_send_init :: "(bool \<Rightarrow> u32 option) \<Rightarrow> u32 \<Rightarrow> int \<Rightarrow> int \<Rightarrow> ic_sender option" where
  "ic_down_send_init conf delay data_fd sig_fd =
     map_option (new_ic_sender delay data_fd sig_fd) (conf False)"

definition ic_up_send_init :: "(bool \<Rightarrow> u32 option) \<Rightarrow> u32 \<Rightarrow> int \<Rightarrow> int \<Rightarrow> ic_sender option" where
  "ic_up_send_init conf delay data_fd sig_fd =
     map_option (new_ic_sender delay data_fd sig_fd) (conf True)"

section \<open>Reading back\<close>

lemma deser_loop_step:
  assumes "length d < 2 ^ 32"
  shows "deser_loop g (with_length d @ e) =
    (case g d of None \<Rightarrow> None | Some x \<Rightarrow> if e = [] then Some [x] else map_option ((#) x) (deser_loop g e))"
  using assms by (subst deser_loop.simps) (simp add: with_length_def read32_bytes32 unat_of_nat)

lemma deser_loop_read:
  assumes "xs \<noteq> []" "\<And>x. x \<in> set xs \<Longrightarrow> length (f x) < 2 ^ 32 \<and> g (f x) = Some (h x)"
  shows "deser_loop g (concat (map (\<lambda>x. with_length (f x)) xs)) = Some (map h xs)"
  using assms
proof (induction xs)
  case (Cons x xs)
  let ?rest = "concat (map (\<lambda>x. with_length (f x)) xs)"
  have x: "length (f x) < 2 ^ 32" "g (f x) = Some (h x)" using Cons.prems(2) by auto
  have ne: "?rest = [] \<longleftrightarrow> xs = []" by (cases xs) (auto simp: with_length_def bytes32_def bytes16_def)
  have e: "deser_loop g (with_length (f x) @ ?rest) =
      (if xs = [] then Some [h x] else map_option ((#) (h x)) (deser_loop g ?rest))"
    unfolding deser_loop_step [OF x(1)] ne using x(2) by simp
  show ?case
  proof (cases "xs = []")
    case True
    then show ?thesis using e by simp
  next
    case False
    then show ?thesis using Cons by (simp add: e)
  qed
qed simp

text \<open>What a frame is at the other end: the data, the spot and the carrier.\<close>

definition plain_frame :: "spot_id \<Rightarrow> u8 \<Rightarrow> bytes \<Rightarrow> dvb_frame" where
  "plain_frame spot carrier d =
     (the (received_frame 3 d))\<lparr>frame_carrier_id := carrier, cont_spot := spot\<rparr>"

definition received_packet :: "net_packet \<Rightarrow> net_packet" where
  "received_packet p = new_packet_full (cont_data p) (length (cont_data p)) ''interconnect'' (pkt_type p) (pkt_qos p)
     (src_tal_id p) (dst_tal_id p) (header_length p)"

lemma deser_ser_frame:
  assumes "2 \<le> length (cont_data f)"
  shows "deser_frame (ser_frame f) = Some (plain_frame (cont_spot f) (frame_carrier_id f) (cont_data f))"
  using assms by (simp add: deser_frame_def ser_frame_def plain_frame_def received_frame_def Let_def)

lemma deser_ser_packet:
  assumes "header_length p < 2 ^ 32"
  shows "deser_packet (ser_packet p) = Some (received_packet p)"
  using assms
proof -
  have t: "read16 (ser_packet p) 3 = pkt_type p"
    by (simp add: ser_packet_def read16_def bytes16_def)
  have "read16 (ser_packet p) 5 = ucast (of_nat (header_length p) :: u32)"
    by (simp add: ser_packet_def read16_def bytes16_def bytes32_def)
  moreover have "read16 (ser_packet p) 7 = ucast (drop_bit 16 (of_nat (header_length p) :: u32))"
    by (simp add: ser_packet_def read16_def bytes16_def bytes32_def)
  ultimately have "read32 (ser_packet p) 5 = of_nat (header_length p)"
    by (simp add: read32_def)
  then have h: "unat (read32 (ser_packet p) 5) = header_length p" using assms by (simp add: unat_of_nat)
  show ?thesis
    by (simp add: deser_packet_def t h) (simp add: ser_packet_def received_packet_def read8_def bytes16_def bytes32_def)
qed

fun received_data :: "message_data \<Rightarrow> message_data" where
  "received_data (Frame_message f) = Frame_message (plain_frame (cont_spot f) (frame_carrier_id f) (cont_data f))"
| "received_data (Frames_message fs) =
     Frames_message (map (\<lambda>f. plain_frame (cont_spot f) (frame_carrier_id f) (cont_data f)) fs)"
| "received_data (Burst_message ps) = Burst_message (map received_packet ps)"

text \<open>The messages that can travel: a list has an element, a frame has a header.\<close>

fun sendable :: "message_data \<Rightarrow> bool" where
  "sendable (Frame_message f) \<longleftrightarrow> 2 \<le> length (cont_data f)"
| "sendable (Frames_message fs) \<longleftrightarrow> fs \<noteq> [] \<and> (\<forall>f \<in> set fs. 2 \<le> length (cont_data f))"
| "sendable (Burst_message ps) \<longleftrightarrow> ps \<noteq> [] \<and> (\<forall>p \<in> set ps. header_length p < 2 ^ 32)"

lemma length_with_length [simp]: "length (with_length d) = 4 + length d"
  by (simp add: with_length_def)

lemma element_short:
  "x \<in> set xs \<Longrightarrow> length (f x) \<le> length (concat (map (\<lambda>x. with_length (f x)) xs))"
  by (induction xs) auto

lemma deser_ser_message:
  assumes "ser_message m = Some (Some d)" "sendable (rm_data m)"
  shows "deser_message n (rm_type m) d =
    Some (Some \<lparr>rm_data = received_data (rm_data m), rm_length = unat n, rm_type = rm_type m\<rparr>)"
    and "length d \<le> MAX_SOCK_SIZE"
proof -
  have t: "MSG_encap_data \<noteq> MSG_saloha" "MSG_encap_data \<noteq> MSG_decap_data" "MSG_sig \<noteq> MSG_saloha"
    "MSG_sig \<noteq> MSG_decap_data" "MSG_saloha \<noteq> MSG_decap_data"
    by (simp_all add: internal_types)
  show l: "length d \<le> MAX_SOCK_SIZE"
    using assms(1) by (auto simp: ser_message_def Let_def split: if_splits message_data.splits)
  show "deser_message n (rm_type m) d =
    Some (Some \<lparr>rm_data = received_data (rm_data m), rm_length = unat n, rm_type = rm_type m\<rparr>)"
  proof (cases "rm_data m")
    case (Frame_message f)
    with assms(1) have d: "d = ser_frame f" "rm_type m = MSG_encap_data \<or> rm_type m = MSG_sig"
      by (auto simp: ser_message_def Let_def split: if_splits)
    have "deser_frame d = Some (plain_frame (cont_spot f) (frame_carrier_id f) (cont_data f))"
      using deser_ser_frame [of f] assms(2) by (simp add: d Frame_message)
    then show ?thesis using d(2) by (auto simp: deser_message_def Frame_message)
  next
    case (Frames_message fs)
    with assms(1) have d: "d = ser_frames fs" "rm_type m = MSG_saloha"
      by (auto simp: ser_message_def Let_def split: if_splits)
    have "deser_frames d = Some (map (\<lambda>f. plain_frame (cont_spot f) (frame_carrier_id f) (cont_data f)) fs)"
      unfolding deser_frames_def d(1) ser_frames_def
    proof (rule deser_loop_read)
      fix f assume f: "f \<in> set fs"
      from element_short [OF f, of ser_frame] l have "length (ser_frame f) < 2 ^ 32"
        by (simp add: d(1) ser_frames_def MAX_SOCK_SIZE_def)
      then show "length (ser_frame f) < 2 ^ 32 \<and>
          deser_frame (ser_frame f) = Some (plain_frame (cont_spot f) (frame_carrier_id f) (cont_data f))"
        using assms(2) f deser_ser_frame [of f] by (simp add: Frames_message)
    qed (use assms(2) in \<open>simp add: Frames_message\<close>)
    then show ?thesis using d(2) t by (simp add: deser_message_def Frames_message)
  next
    case (Burst_message ps)
    with assms(1) have d: "d = ser_burst ps" "rm_type m = MSG_decap_data"
      by (auto simp: ser_message_def Let_def split: if_splits)
    have "deser_burst d = Some (map received_packet ps)"
      unfolding deser_burst_def d(1) ser_burst_def
    proof (rule deser_loop_read)
      fix p assume p: "p \<in> set ps"
      from element_short [OF p, of ser_packet] l have "length (ser_packet p) < 2 ^ 32"
        by (simp add: d(1) ser_burst_def MAX_SOCK_SIZE_def)
      then show "length (ser_packet p) < 2 ^ 32 \<and> deser_packet (ser_packet p) = Some (received_packet p)"
        using assms(2) p deser_ser_packet [of p] by (simp add: Burst_message)
    qed (use assms(2) in \<open>simp add: Burst_message\<close>)
    then show ?thesis using d(2) t by (simp add: deser_message_def Burst_message)
  qed
qed

section \<open>The link\<close>

fun link_deliver :: "string \<Rightarrow> (bool \<times> bytes) list \<Rightarrow> ic_receiver \<Rightarrow> (ic_receiver \<times> rt_message list) option" where
  "link_deliver ip [] r = Some (r, [])"
| "link_deliver ip ((sig, datagram) # ds) r = do {
     (r', ms, ok) \<leftarrow> ic_receive (uc_fd (if sig then ir_sig_channel r else ir_data_channel r)) ip datagram r;
     (r'', ms') \<leftarrow> link_deliver ip ds r';
     Some (r'', ms @ ms') }"

fun link_run :: "string \<Rightarrow> (u32 \<times> rt_message) list \<Rightarrow> ic_sender \<Rightarrow> ic_receiver \<Rightarrow> (ic_receiver \<times> rt_message list) option"
where
  "link_run ip [] s r = Some (r, [])"
| "link_run ip ((now, m) # es) s r = do {
     (s', out, ok) \<leftarrow> ic_send None now m s;
     (r', ms) \<leftarrow> link_deliver ip out r;
     (r'', ms') \<leftarrow> link_run ip es s' r';
     Some (r'', ms @ ms') }"

text \<open>The two ends are in step: nothing waits, and the receiver expects the numbers of the sender.\<close>

definition channel_in_step :: "string \<Rightarrow> udp_channel \<Rightarrow> udp_channel \<Rightarrow> bool" where
  "channel_in_step ip s r \<longleftrightarrow> sender_ready s \<and> udp_synced r \<and>
     (uc_counters r ip = None \<or> uc_counters r ip = Some (uc_counter s - 1))"

definition link_in_step :: "string \<Rightarrow> ic_sender \<Rightarrow> ic_receiver \<Rightarrow> bool" where
  "link_in_step ip s r \<longleftrightarrow> is_delay s = 0 \<and> dqueue (is_fifo s) = [] \<and> 0 < dmax_size_pkt (is_fifo s) \<and>
     channel_in_step ip (is_sig_channel s) (ir_sig_channel r) \<and>
     channel_in_step ip (is_data_channel s) (ir_data_channel r) \<and>
     uc_fd (ir_sig_channel r) \<noteq> uc_fd (ir_data_channel r)"

lemma message_buffer_fields:
  assumes "length d + 6 \<le> MAX_SOCK_SIZE"
  shows "unat (read32 (message_buffer t d) 0) = length (message_buffer t d)"
    "length (message_buffer t d) = length d + 5" "read8 (message_buffer t d) 4 = t"
    "drop 5 (message_buffer t d) = d" "unat (read32 (message_buffer t d) 0 - 5) = length d"
proof -
  have r: "read32 (message_buffer t d) 0 = of_nat (length d + 5)"
    by (simp add: message_buffer_def read32_bytes32)
  show l: "length (message_buffer t d) = length d + 5" by (simp add: message_buffer_def)
  show "unat (read32 (message_buffer t d) 0) = length (message_buffer t d)"
    using assms unat_of_nat [of "length d + 5", where 'a = 32] by (simp only: r l) (simp add: MAX_SOCK_SIZE_def)
  have "read32 (message_buffer t d) 0 - 5 = of_nat (length d)" by (simp add: r)
  then show "unat (read32 (message_buffer t d) 0 - 5) = length d"
    using assms by (simp only:) (simp add: unat_of_nat MAX_SOCK_SIZE_def)
  show "read8 (message_buffer t d) 4 = t" "drop 5 (message_buffer t d) = d"
    by (simp_all add: message_buffer_def read8_def bytes32_def bytes16_def)
qed

lemma send_in_step:
  assumes "sender_ready c" "length d + 6 \<le> MAX_SOCK_SIZE"
  shows "udp_send True (message_buffer t d) c =
    Some (c\<lparr>uc_counter := uc_counter c + 1\<rparr>, Some (uc_counter c # message_buffer t d), True)"
  using assms message_buffer_fields(2) [OF assms(2), of t] by (simp add: udp_send_def sender_ready_def)

lemma receive_sent:
  assumes "channel_in_step ip s c" "length d + 6 \<le> MAX_SOCK_SIZE"
  shows "\<exists>c'. udp_receive ip (Some (uc_counter s # message_buffer t d)) c = Some (c', 0, message_buffer t d) \<and>
    channel_in_step ip (s\<lparr>uc_counter := uc_counter s + 1\<rparr>) c' \<and> uc_fd c' = uc_fd c"
proof -
  have "message_buffer t d \<noteq> []" by (simp add: message_buffer_def)
  then show ?thesis
    using receive_in_order [of c "message_buffer t d" ip "uc_counter s"] assms(1)
    by (auto simp: channel_in_step_def sender_ready_def udp_synced_def)
qed

definition sender_channel :: "bool \<Rightarrow> ic_sender \<Rightarrow> udp_channel" where
  "sender_channel sig s = (if sig then is_sig_channel s else is_data_channel s)"

definition count_sent :: "bool \<Rightarrow> ic_sender \<Rightarrow> ic_sender" where
  "count_sent sig s =
     (let c = (sender_channel sig s)\<lparr>uc_counter := uc_counter (sender_channel sig s) + 1\<rparr>
      in if sig then s\<lparr>is_sig_channel := c\<rparr> else s\<lparr>is_data_channel := c\<rparr>)"

lemma receive_message:
  assumes "link_in_step ip s r" "length d + 6 \<le> MAX_SOCK_SIZE"
    and "deser_message (read32 (message_buffer t d) 0 - 5) t d = Some (Some m)"
  shows "\<exists>r'. ic_receive (uc_fd (if sig then ir_sig_channel r else ir_data_channel r)) ip
      (uc_counter (sender_channel sig s) # message_buffer t d) r = Some (r', [m], True) \<and>
    link_in_step ip (count_sent sig s) r'"
proof -
  note f = message_buffer_fields [OF assms(2), of t]
  have ne: "message_buffer t d \<noteq> []" "\<not> length (message_buffer t d) < 4" "\<not> length (message_buffer t d) < 5"
    by (simp_all add: message_buffer_def)
  let ?c = "if sig then ir_sig_channel r else ir_data_channel r"
  let ?s = "sender_channel sig s"
  have "channel_in_step ip ?s ?c"
    using assms(1) by (simp add: link_in_step_def sender_channel_def)
  from receive_sent [OF this assms(2)] obtain c' where
    c': "udp_receive ip (Some (uc_counter ?s # message_buffer t d)) ?c = Some (c', 0, message_buffer t d)"
      "channel_in_step ip (?s\<lparr>uc_counter := uc_counter ?s + 1\<rparr>) c'" "uc_fd c' = uc_fd ?c"
    by blast
  let ?r = "if sig then r\<lparr>ir_sig_channel := c'\<rparr> else r\<lparr>ir_data_channel := c'\<rparr>"
  have fd: "uc_fd (ir_sig_channel r) \<noteq> uc_fd (ir_data_channel r)" using assms(1) by (simp add: link_in_step_def)
  have "receive_to_buffer (uc_fd ?c) ip (Some (uc_counter ?s # message_buffer t d)) r =
      Some (?r, 0, Some (read32 (message_buffer t d) 0 - 5, t, d))"
    using c'(1) fd f ne by (cases sig) (simp_all add: receive_to_buffer_def)
  then have "ic_receive (uc_fd ?c) ip (uc_counter ?s # message_buffer t d) r = Some (?r, [m], True)"
    using assms(3) by (cases sig) (simp_all add: ic_receive_def ic_receive_loop.simps [of _ ip "Some _"])
  moreover have "link_in_step ip (count_sent sig s) ?r"
    using assms(1) c'(2,3) by (cases sig) (auto simp: link_in_step_def count_sent_def sender_channel_def)
  ultimately show ?thesis by blast
qed

lemma send_message:
  assumes "link_in_step ip s r" "ser_message m = Some (Some d)" "length d + 6 \<le> MAX_SOCK_SIZE"
  defines "sig \<equiv> rm_type m = MSG_sig"
  shows "ic_send None now m s = Some (count_sent sig s,
    [(sig, uc_counter (sender_channel sig s) # message_buffer (rm_type m) d)], True)"
proof -
  note f = message_buffer_fields [OF assms(3), of "rm_type m"]
  have q: "is_delay s = 0" "dqueue (is_fifo s) = []" "0 < unat (dmax_size_pkt (is_fifo s))"
    "sender_ready (is_sig_channel s)" "sender_ready (is_data_channel s)"
    using assms(1) by (auto simp: link_in_step_def channel_in_step_def word_less_nat_alt)
  define e where "e = \<lparr>fe_elem = new_container (message_buffer (rm_type m) d), tick_in = int (unat now),
      tick_out = int (unat now)\<rparr>"
  have fifo: "(is_fifo s)\<lparr>dqueue := []\<rparr> = is_fifo s" using q(2) by (cases "is_fifo s") simp
  have s: "s\<lparr>is_fifo := is_fifo s\<rparr> = s" by simp
  have sb: "send_buffer True sig (message_buffer (rm_type m) d) s =
      Some (count_sent sig s, Some (uc_counter (sender_channel sig s) # message_buffer (rm_type m) d), True)"
    using send_in_step [OF q(4) assms(3)] send_in_step [OF q(5) assms(3)] f(1)
    by (simp add: send_buffer_def count_sent_def sender_channel_def message_buffer_def)
  have ended: "timer_loop None now (count_sent sig s) out = Some (count_sent sig s, out, True)" for out
    using q(2) by (simp add: timer_loop.simps [of None] delay_current_size_def count_sent_def Let_def)
  have "timer_loop None now (s\<lparr>is_fifo := (is_fifo s)\<lparr>dqueue := [e]\<rparr>\<rparr>) [] = Some (count_sent sig s,
    [(sig, uc_counter (sender_channel sig s) # message_buffer (rm_type m) d)], True)"
    using f(3) fifo sb ended
    by (simp add: timer_loop.simps [of None] delay_current_size_def delay_tick_out_def e_def
        delay_pop_def new_container_def f(2) sig_def Let_def)
  then show ?thesis using q
    by (simp add: ic_send_def assms(2) delay_push_back_def ic_on_timer_def e_def Let_def)
qed

text \<open>C7: over a link without delay, every sequence of messages of any type arrives: each message is
  received once and in order, with the type and the data it was sent with, as long as the lists are not
  empty and the layout of a message leaves 6 bytes of the buffer of the socket.\<close>

theorem interconnect_in_order:
  assumes "link_in_step ip s r"
    and "\<forall>(now, m) \<in> set es. sendable (rm_data m) \<and>
      (\<exists>d. ser_message m = Some (Some d) \<and> length d + 6 \<le> MAX_SOCK_SIZE)"
  shows "\<exists>r' ms. link_run ip es s r = Some (r', ms) \<and>
    map (\<lambda>m. (rm_type m, rm_data m)) ms = map (\<lambda>(now, m). (rm_type m, received_data (rm_data m))) es"
  using assms
proof (induction es arbitrary: s r)
  case (Cons x es)
  obtain now m where x: "x = (now, m)" by (cases x)
  obtain d where d: "ser_message m = Some (Some d)" "length d + 6 \<le> MAX_SOCK_SIZE" "sendable (rm_data m)"
    using Cons.prems(2) by (auto simp: x)
  let ?sig = "rm_type m = MSG_sig"
  note snd = send_message [OF Cons.prems(1) d(1,2), of now]
  obtain r' where r': "ic_receive (uc_fd (if ?sig then ir_sig_channel r else ir_data_channel r)) ip
      (uc_counter (sender_channel ?sig s) # message_buffer (rm_type m) d) r =
      Some (r', [\<lparr>rm_data = received_data (rm_data m),
        rm_length = unat (read32 (message_buffer (rm_type m) d) 0 - 5), rm_type = rm_type m\<rparr>], True)"
    "link_in_step ip (count_sent ?sig s) r'"
    using receive_message [OF Cons.prems(1) d(2) deser_ser_message(1) [OF d(1,3)]] by blast
  obtain r'' ms where "link_run ip es (count_sent ?sig s) r' = Some (r'', ms)"
    "map (\<lambda>m. (rm_type m, rm_data m)) ms = map (\<lambda>(now, m). (rm_type m, received_data (rm_data m))) es"
    using Cons.IH [OF r'(2)] Cons.prems(2) by auto
  then show ?case using snd r'(1) by (simp add: x split: if_splits)
qed simp

definition example_frame :: dvb_frame where
  "example_frame = net_container.extend ((new_container [0, 4, 1, 9])\<lparr>cont_spot := 2\<rparr>)
     \<lparr>max_size = 100, num_packets = 1, frame_carrier_id = 7\<rparr>"

definition example_messages :: "(u32 \<times> rt_message) list" where
  "example_messages =
     [(5, \<lparr>rm_data = Frame_message example_frame, rm_length = 0, rm_type = MSG_encap_data\<rparr>),
      (6, \<lparr>rm_data = Burst_message [new_packet_full [1, 2] 2 ''IP'' 8 1 2 3 0, new_packet [4]], rm_length = 0,
        rm_type = MSG_decap_data\<rparr>),
      (6, \<lparr>rm_data = Frame_message example_frame, rm_length = 0, rm_type = MSG_sig\<rparr>)]"

lemma example_link: "link_in_step ip (new_ic_sender 0 3 4 5) (new_ic_receiver 3 4 5)"
  by (simp add: link_in_step_def channel_in_step_def new_ic_sender_def new_ic_receiver_def new_delay_fifo_def
      new_udp_channel_def sender_ready_def udp_synced_def)

lemma example_sendable:
  "\<forall>(now, m) \<in> set example_messages. sendable (rm_data m) \<and>
    (\<exists>d. ser_message m = Some (Some d) \<and> length d + 6 \<le> MAX_SOCK_SIZE)"
  by (simp add: example_messages_def example_frame_def ser_message_def ser_frame_def ser_burst_def ser_packet_def
      internal_types MAX_SOCK_SIZE_def new_packet_full_def new_packet_def new_container_def net_container.defs)

theorem interconnect_in_order_witness:
  "\<exists>r' ms. link_run ''10.0.0.1'' example_messages (new_ic_sender 0 3 4 5) (new_ic_receiver 3 4 5) = Some (r', ms) \<and>
    map (\<lambda>m. (rm_type m, rm_data m)) ms =
    map (\<lambda>(now, m). (rm_type m, received_data (rm_data m))) example_messages"
  using interconnect_in_order [OF example_link example_sendable] .

section \<open>Messages that are too short or too long\<close>

lemma receive_message_fault:
  assumes "link_in_step ip s r" "length d + 6 \<le> MAX_SOCK_SIZE"
    and "deser_message (read32 (message_buffer t d) 0 - 5) t d = None"
  shows "ic_receive (uc_fd (if sig then ir_sig_channel r else ir_data_channel r)) ip
      (uc_counter (sender_channel sig s) # message_buffer t d) r = None"
proof -
  note f = message_buffer_fields [OF assms(2), of t]
  have ne: "message_buffer t d \<noteq> []" "\<not> length (message_buffer t d) < 4" "\<not> length (message_buffer t d) < 5"
    by (simp_all add: message_buffer_def)
  let ?c = "if sig then ir_sig_channel r else ir_data_channel r"
  let ?s = "sender_channel sig s"
  have "channel_in_step ip ?s ?c"
    using assms(1) by (simp add: link_in_step_def sender_channel_def)
  from receive_sent [OF this assms(2)] obtain c' where
    c': "udp_receive ip (Some (uc_counter ?s # message_buffer t d)) ?c = Some (c', 0, message_buffer t d)"
    by blast
  let ?r = "if sig then r\<lparr>ir_sig_channel := c'\<rparr> else r\<lparr>ir_data_channel := c'\<rparr>"
  have fd: "uc_fd (ir_sig_channel r) \<noteq> uc_fd (ir_data_channel r)" using assms(1) by (simp add: link_in_step_def)
  have "receive_to_buffer (uc_fd ?c) ip (Some (uc_counter ?s # message_buffer t d)) r =
      Some (?r, 0, Some (read32 (message_buffer t d) 0 - 5, t, d))"
    using c' fd f ne by (cases sig) (simp_all add: receive_to_buffer_def)
  then show ?thesis
    using assms(3) by (cases sig) (simp_all add: ic_receive_def ic_receive_loop.simps [of _ ip "Some _"])
qed

text \<open>C40: an empty list of frames or an empty burst is sent without an error, and the receiver, whose
  loops read at least one element, reads past the end of the message.\<close>

theorem empty_list_faults:
  assumes "link_in_step ip s r"
    and "rm_type m = MSG_saloha \<and> rm_data m = Frames_message [] \<or>
      rm_type m = MSG_decap_data \<and> rm_data m = Burst_message []"
  shows "ic_send None now m s = Some (count_sent False s,
      [(False, uc_counter (is_data_channel s) # message_buffer (rm_type m) [])], True) \<and>
    link_run ip [(now, m)] s r = None"
proof -
  have s: "ser_message m = Some (Some [])"
    using assms(2) by (auto simp: ser_message_def ser_frames_def ser_burst_def internal_types MAX_SOCK_SIZE_def)
  have d: "deser_message n (rm_type m) [] = None" for n
    using assms(2) by (auto simp: deser_message_def deser_frames_def deser_burst_def deser_loop.simps [of _ "[]"] internal_types)
  have sig: "rm_type m \<noteq> MSG_sig" using assms(2) by (auto simp: internal_types)
  have l: "length ([] :: bytes) + 6 \<le> MAX_SOCK_SIZE" by (simp add: MAX_SOCK_SIZE_def)
  have snt: "ic_send None now m s = Some (count_sent False s,
      [(False, uc_counter (is_data_channel s) # message_buffer (rm_type m) [])], True)"
    using send_message [OF assms(1) s l, of now] sig by (simp add: sender_channel_def)
  show ?thesis
    using receive_message_fault [OF assms(1) l d, of False] by (simp add: snt sender_channel_def)
qed

theorem empty_list_faults_witness:
  "\<exists>s' ds. ic_send None 0 \<lparr>rm_data = Burst_message [], rm_length = 0, rm_type = MSG_decap_data\<rparr> (new_ic_sender 0 3 4 5) =
      Some (s', ds, True) \<and>
    link_run ''10.0.0.1'' [(0, \<lparr>rm_data = Burst_message [], rm_length = 0, rm_type = MSG_decap_data\<rparr>)]
      (new_ic_sender 0 3 4 5) (new_ic_receiver 3 4 5) = None"
  using empty_list_faults [OF example_link [of "''10.0.0.1''"],
      where m = "\<lparr>rm_data = Burst_message [], rm_length = 0, rm_type = MSG_decap_data\<rparr>" and now = 0]
  by (auto simp del: link_run.simps)

text \<open>A message that leaves less than 6 bytes overflows the buffer of the socket.\<close>

lemma full_message_faults:
  assumes "link_in_step ip s r" "ser_message m = Some (Some d)" "MAX_SOCK_SIZE < length d + 6"
  shows "ic_send None now m s = None"
proof -
  have q: "is_delay s = 0" "dqueue (is_fifo s) = []" "0 < unat (dmax_size_pkt (is_fifo s))"
    "sender_ready (is_sig_channel s)" "sender_ready (is_data_channel s)"
    using assms(1) by (auto simp: link_in_step_def channel_in_step_def word_less_nat_alt)
  have ld: "length d \<le> MAX_SOCK_SIZE"
    using assms(2) by (auto simp: ser_message_def Let_def split: if_splits message_data.splits)
  let ?b = "message_buffer (rm_type m) d"
  have b: "length ?b = length d + 5" "read32 ?b 0 = of_nat (length d + 5)"
    by (simp_all add: message_buffer_def read32_bytes32)
  have n: "unat (read32 ?b 0) = length d + 5"
    using ld unat_of_nat [of "length d + 5", where 'a = 32] by (simp only: b) (simp add: MAX_SOCK_SIZE_def)
  have "udp_send True ?b c = None" if "sender_ready c" for c
    using that assms(3) b(1) by (auto simp: udp_send_def sender_ready_def)
  then have sb: "send_buffer True sig ?b s = None" for sig
    using q(4,5) b(1) by (simp add: send_buffer_def n Let_def)
  have fifo: "(is_fifo s)\<lparr>dqueue := []\<rparr> = is_fifo s" using q(2) by (cases "is_fifo s") simp
  show ?thesis using q
    by (simp add: ic_send_def assms(2) delay_push_back_def ic_on_timer_def Let_def timer_loop.simps [of None]
        delay_current_size_def delay_tick_out_def delay_pop_def new_container_def b(1) fifo sb)
qed

section \<open>The delay\<close>

definition is_buffer :: "unit fifo_elem \<Rightarrow> bool" where
  "is_buffer e \<longleftrightarrow> (\<exists>t d. cont_data (fe_elem e) = message_buffer t d \<and> length d + 6 \<le> MAX_SOCK_SIZE)"

lemma is_bufferI: "cont_data (fe_elem e) = message_buffer t d \<Longrightarrow> length d + 6 \<le> MAX_SOCK_SIZE \<Longrightarrow> is_buffer e"
  by (auto simp: is_buffer_def)

lemma send_buffer_ready:
  assumes "sender_ready (is_sig_channel s)" "sender_ready (is_data_channel s)" "length d + 6 \<le> MAX_SOCK_SIZE"
  shows "send_buffer True sig (message_buffer t d) s =
    Some (count_sent sig s, Some (uc_counter (sender_channel sig s) # message_buffer t d), True)"
  using send_in_step [OF assms(1,3)] send_in_step [OF assms(2,3)] message_buffer_fields(1) [OF assms(3), of t]
  by (simp add: send_buffer_def count_sent_def sender_channel_def message_buffer_def)

text \<open>a tick of the timer sends the messages whose delay has passed, all of them and only them,
  in the order in which they came, and leaves the others in the FIFO.\<close>

theorem delayed_messages_released:
  assumes "sender_ready (is_sig_channel s)" "sender_ready (is_data_channel s)"
    and "\<forall>e \<in> set (dqueue (is_fifo s)). is_buffer e" "length (dqueue (is_fifo s)) < 2 ^ 16"
  shows "\<exists>s' out. ic_on_timer None now s = Some (s', out, True) \<and>
    dqueue (is_fifo s') = dropWhile (\<lambda>e. tick_out e \<le> int (unat now)) (dqueue (is_fifo s)) \<and>
    map (\<lambda>(sig, d). tl d) out =
      map (\<lambda>e. cont_data (fe_elem e)) (takeWhile (\<lambda>e. tick_out e \<le> int (unat now)) (dqueue (is_fifo s)))"
proof -
  have "\<exists>s' out'. timer_loop None now s out = Some (s', out @ out', True) \<and>
      dqueue (is_fifo s') = dropWhile (\<lambda>e. tick_out e \<le> int (unat now)) (dqueue (is_fifo s)) \<and>
      map (\<lambda>(sig, d). tl d) out' =
        map (\<lambda>e. cont_data (fe_elem e)) (takeWhile (\<lambda>e. tick_out e \<le> int (unat now)) (dqueue (is_fifo s)))"
    for out
    using assms
  proof (induction "dqueue (is_fifo s)" arbitrary: s out)
    case Nil
    then show ?case by (simp add: timer_loop.simps [of None] delay_current_size_def)
  next
    case (Cons e q)
    have cur: "delay_current_size (is_fifo s) > 0"
      using Cons.prems(4) Cons.hyps(2) [symmetric] unat_of_nat [of "Suc (length q)", where 'a = 16]
      by (simp add: delay_current_size_def word_less_nat_alt del: of_nat_Suc)
    show ?case
    proof (cases "tick_out e \<le> int (unat now)")
      case False
      then show ?thesis using Cons.hyps(2) [symmetric]
        by (simp add: timer_loop.simps [of None] delay_tick_out_def)
    next
      case True
      obtain t d where b: "cont_data (fe_elem e) = message_buffer t d" "length d + 6 \<le> MAX_SOCK_SIZE"
        using Cons.prems(3) Cons.hyps(2) [symmetric] by (auto simp: is_buffer_def)
      let ?sig = "t = MSG_sig"
      let ?f = "(is_fifo s)\<lparr>dqueue := q\<rparr>"
      let ?s = "count_sent ?sig (s\<lparr>is_fifo := ?f\<rparr>)"
      let ?o = "out @ [(?sig, uc_counter (sender_channel ?sig s) # message_buffer t d)]"
      have sb: "send_buffer True ?sig (message_buffer t d) (s\<lparr>is_fifo := ?f\<rparr>) =
          Some (?s, Some (uc_counter (sender_channel ?sig s) # message_buffer t d), True)"
        using send_buffer_ready [of "s\<lparr>is_fifo := ?f\<rparr>" d ?sig t] Cons.prems(1,2) b(2)
        by (simp add: sender_channel_def)
      have step: "timer_loop None now s out = timer_loop None now ?s ?o"
        using True cur Cons.hyps(2) [symmetric] sb message_buffer_fields(2,3) [OF b(2), of t]
        by (subst timer_loop.simps) (simp add: delay_tick_out_def delay_pop_def b(1) Let_def)
      have "\<exists>s' out'. timer_loop None now ?s ?o = Some (s', ?o @ out', True) \<and>
        dqueue (is_fifo s') = dropWhile (\<lambda>e. tick_out e \<le> int (unat now)) (dqueue (is_fifo ?s)) \<and>
        map (\<lambda>(sig, d). tl d) out' =
          map (\<lambda>e. cont_data (fe_elem e)) (takeWhile (\<lambda>e. tick_out e \<le> int (unat now)) (dqueue (is_fifo ?s)))"
        using Cons.prems Cons.hyps(2) [symmetric]
        by (intro Cons.hyps(1)) (auto simp: count_sent_def sender_channel_def sender_ready_def Let_def)
      then show ?thesis using True Cons.hyps(2) [symmetric]
        by (auto simp: step b(1) count_sent_def Let_def)
    qed
  qed
  from this [of "[]"] show ?thesis by (auto simp: ic_on_timer_def)
qed

definition example_waiting :: ic_sender where
  "example_waiting = (new_ic_sender 10 3 4 5)\<lparr>is_fifo :=
     \<lparr>dqueue = [\<lparr>fe_elem = new_container (message_buffer 0 [1, 2]), tick_in = 5, tick_out = 15\<rparr>,
               \<lparr>fe_elem = new_container (message_buffer 3 [3]), tick_in = 6, tick_out = 16\<rparr>],
      dmax_size_pkt = 10000\<rparr>\<rparr>"

theorem delayed_messages_released_witness:
  "\<exists>s' out. ic_on_timer None 15 example_waiting = Some (s', out, True) \<and> length (dqueue (is_fifo s')) = 1 \<and>
    map (\<lambda>(sig, d). tl d) out = [message_buffer 0 [1, 2]]"
proof -
  have "is_buffer \<lparr>fe_elem = new_container (message_buffer t [1, 2]), tick_in = a, tick_out = b\<rparr>"
    "is_buffer \<lparr>fe_elem = new_container (message_buffer t [3]), tick_in = a, tick_out = b\<rparr>" for t a b
    by (rule is_bufferI [of _ t "[1, 2]"] is_bufferI [of _ t "[3]"];
        simp add: new_container_def MAX_SOCK_SIZE_def)+
  then show ?thesis
    using delayed_messages_released [of example_waiting 15]
    by (auto simp: example_waiting_def new_ic_sender_def new_udp_channel_def sender_ready_def new_container_def)
qed

end
