(* ===== verification/Sat_Dispatch.thy ===== *)
theory Sat_Dispatch
  imports Dvb_Frame "HOL-Library.Multiset"
begin

text \<open>
  The dispatch of the frames and packets in a satellite
  (\<^verbatim>\<open>opensand-core/src/sat/BlockSatDispatcher.cpp\<close>, \<^verbatim>\<open>BlockSatAsymetricHandler.cpp\<close>,
  \<^verbatim>\<open>common/CarrierType.cpp\<close>).  A satellite serves the terminals or the gateway of some spots;
  what is for another satellite goes to the inter-satellite link above the block.  The configuration is
  an argument, and so are the order in which a hash map is walked and what the queues of the other
  blocks accept.
\<close>

section \<open>Carriers\<close>

datatype carrier_type =
    LOGON_IN | LOGON_OUT | CTRL_IN_ST | CTRL_OUT_GW | CTRL_IN_GW | CTRL_OUT_ST
  | DATA_IN_ST | DATA_OUT_GW | DATA_IN_GW | DATA_OUT_ST

definition extract_carrier_type :: "u16 \<Rightarrow> carrier_type" where
  "extract_carrier_type c =
     [LOGON_IN, LOGON_OUT, CTRL_IN_ST, CTRL_OUT_GW, CTRL_IN_GW, CTRL_OUT_ST,
      DATA_IN_ST, DATA_OUT_GW, DATA_IN_GW, DATA_OUT_ST] ! (unat c mod 10)"

fun is_control_carrier :: "carrier_type \<Rightarrow> bool" where
  "is_control_carrier LOGON_IN = True"
| "is_control_carrier LOGON_OUT = True"
| "is_control_carrier CTRL_IN_ST = True"
| "is_control_carrier CTRL_OUT_GW = True"
| "is_control_carrier CTRL_IN_GW = True"
| "is_control_carrier CTRL_OUT_ST = True"
| "is_control_carrier _ = False"

fun is_data_carrier :: "carrier_type \<Rightarrow> bool" where
  "is_data_carrier DATA_IN_ST = True"
| "is_data_carrier DATA_OUT_GW = True"
| "is_data_carrier DATA_IN_GW = True"
| "is_data_carrier DATA_OUT_ST = True"
| "is_data_carrier _ = False"

fun is_input_carrier :: "carrier_type \<Rightarrow> bool" where
  "is_input_carrier LOGON_IN = True"
| "is_input_carrier CTRL_IN_ST = True"
| "is_input_carrier CTRL_IN_GW = True"
| "is_input_carrier DATA_IN_ST = True"
| "is_input_carrier DATA_IN_GW = True"
| "is_input_carrier _ = False"

fun is_output_carrier :: "carrier_type \<Rightarrow> bool" where
  "is_output_carrier LOGON_OUT = True"
| "is_output_carrier CTRL_OUT_GW = True"
| "is_output_carrier CTRL_OUT_ST = True"
| "is_output_carrier DATA_OUT_GW = True"
| "is_output_carrier DATA_OUT_ST = True"
| "is_output_carrier _ = False"

fun is_terminal_carrier :: "carrier_type \<Rightarrow> bool" where
  "is_terminal_carrier LOGON_IN = True"
| "is_terminal_carrier CTRL_IN_ST = True"
| "is_terminal_carrier CTRL_OUT_ST = True"
| "is_terminal_carrier DATA_IN_ST = True"
| "is_terminal_carrier DATA_OUT_ST = True"
| "is_terminal_carrier _ = False"

fun is_gateway_carrier :: "carrier_type \<Rightarrow> bool" where
  "is_gateway_carrier LOGON_OUT = True"
| "is_gateway_carrier CTRL_OUT_GW = True"
| "is_gateway_carrier CTRL_IN_GW = True"
| "is_gateway_carrier DATA_OUT_GW = True"
| "is_gateway_carrier DATA_IN_GW = True"
| "is_gateway_carrier _ = False"

section \<open>The topology and the routes\<close>

datatype component = Satellite | Gateway | Terminal | Unknown_component

datatype regen_level = Regen_unknown | Regen_transparent | Regen_bbframe | Regen_ip

record spot_topology =
  topo_spot_id :: spot_id
  topo_gw_id :: tal_id
  topo_st_ids :: "tal_id list"
  topo_sat_id_gw :: tal_id
  topo_sat_id_st :: tal_id
  topo_forward_regen :: regen_level
  topo_return_regen :: regen_level

record sat_dispatcher =
  sd_entity :: tal_id
  sd_spots :: "tal_id \<Rightarrow> spot_id option"
  sd_default :: spot_id
  sd_routes :: "spot_id \<times> component \<Rightarrow> tal_id option"
  sd_regen :: "spot_id \<times> component \<Rightarrow> regen_level option"

definition new_spot_by_entity :: "spot_id option \<Rightarrow> tal_id \<Rightarrow> sat_dispatcher" where
  "new_spot_by_entity conf_default entity =
     \<lparr>sd_entity = entity, sd_spots = (\<lambda>_. None),
      sd_default = (case conf_default of None \<Rightarrow> 0 | Some s \<Rightarrow> s),
      sd_routes = (\<lambda>_. None), sd_regen = (\<lambda>_. None)\<rparr>"

definition add_entity_in_spot :: "tal_id \<Rightarrow> spot_id \<Rightarrow> sat_dispatcher \<Rightarrow> sat_dispatcher" where
  "add_entity_in_spot entity spot d = d\<lparr>sd_spots := (sd_spots d)(entity \<mapsto> spot)\<rparr>"

definition get_spot_for_entity :: "tal_id \<Rightarrow> sat_dispatcher \<Rightarrow> spot_id" where
  "get_spot_for_entity entity d = (case sd_spots d entity of None \<Rightarrow> sd_default d | Some s \<Rightarrow> s)"

text \<open>One spot of the topology; the satellite that serves one side of the spot only must have an
  inter-satellite link.\<close>

definition dispatch_spot :: "bool \<Rightarrow> spot_topology \<Rightarrow> sat_dispatcher \<Rightarrow> sat_dispatcher option" where
  "dispatch_spot isl_enabled t d =
     (let s = topo_spot_id t;
          d1 = fold (\<lambda>e. add_entity_in_spot e s) (topo_gw_id t # topo_st_ids t) d;
          d2 = d1\<lparr>sd_routes := (sd_routes d1)((s, Gateway) \<mapsto> topo_sat_id_gw t, (s, Terminal) \<mapsto> topo_sat_id_st t),
                  sd_regen := (sd_regen d1)((s, Terminal) \<mapsto> topo_forward_regen t, (s, Gateway) \<mapsto> topo_return_regen t)\<rparr>
      in if topo_sat_id_gw t \<noteq> topo_sat_id_st t \<and>
            (topo_sat_id_gw t = sd_entity d \<or> topo_sat_id_st t = sd_entity d) \<and> \<not> isl_enabled
         then None else Some d2)"

fun dispatch_spots :: "bool \<Rightarrow> spot_topology list \<Rightarrow> sat_dispatcher \<Rightarrow> sat_dispatcher option" where
  "dispatch_spots link [] d = Some d"
| "dispatch_spots link (t # ts) d = (case dispatch_spot link t d of None \<Rightarrow> None | Some d' \<Rightarrow> dispatch_spots link ts d')"

definition dispatch_init :: "bool \<Rightarrow> spot_id option \<Rightarrow> spot_topology list \<Rightarrow> tal_id \<Rightarrow> sat_dispatcher option" where
  "dispatch_init link conf_default topology entity =
     dispatch_spots link topology (new_spot_by_entity conf_default entity)"

section \<open>Messages\<close>

definition IM_encap_data :: u8 where "IM_encap_data = 0"
definition IM_decap_data :: u8 where "IM_decap_data = 1"
definition IM_link_up :: u8 where "IM_link_up = 2"
definition IM_sig :: u8 where "IM_sig = 3"
definition IM_unknown :: u8 where "IM_unknown = 5"

lemmas im_types = IM_encap_data_def IM_decap_data_def IM_link_up_def IM_sig_def IM_unknown_def

datatype sat_message =
    Sat_frame dvb_frame
  | Sat_burst "net_packet list"
  | Sat_link_up group_id tal_id

text \<open>Where a message goes: the block above, by the satellite of the link and whether it carries data;
  the other channel of this block; the stack below, by spot, side and whether it is transparent.\<close>

datatype sat_out =
    To_upper tal_id bool sat_message u8
  | To_opposite sat_message u8
  | To_lower spot_id component bool sat_message u8

definition send_out :: "(sat_out \<Rightarrow> bool) \<Rightarrow> sat_out \<Rightarrow> sat_out list \<times> bool" where
  "send_out q out = (if q out then ([out], True) else ([], False))"

section \<open>The upward channel\<close>

definition frame_type_of :: "carrier_type \<Rightarrow> u8" where
  "frame_type_of c = (if is_data_carrier c then IM_encap_data else IM_sig)"

definition up_dvb_frame :: "(sat_out \<Rightarrow> bool) \<Rightarrow> sat_dispatcher \<Rightarrow> dvb_frame \<Rightarrow> sat_out list \<times> bool" where
  "up_dvb_frame q d f =
     (let c = extract_carrier_type (ucast (frame_carrier_id f));
          t = frame_type_of c;
          dest = (if is_gateway_carrier c then Terminal else Gateway)
      in case sd_routes d (cont_spot f, dest) of
           None \<Rightarrow> ([], False)
         | Some sat \<Rightarrow>
             (if sat = sd_entity d then send_out q (To_opposite (Sat_frame f) t)
              else send_out q (To_upper sat False (Sat_frame f) t)))"

text \<open>The packets by spot and destination; a source that is neither a gateway nor a terminal ends the
  handling of the whole burst.\<close>

definition add_to_burst :: "'k \<Rightarrow> 'p \<Rightarrow> ('k \<times> 'p list) list \<Rightarrow> ('k \<times> 'p list) list" where
  "add_to_burst k p bs =
     (if k \<in> fst ` set bs then map (\<lambda>(l, ps). (l, if l = k then ps @ [p] else ps)) bs else bs @ [(k, [p])])"

fun separate ::
  "(tal_id \<Rightarrow> component) \<Rightarrow> sat_dispatcher \<Rightarrow> net_packet list \<Rightarrow> ((spot_id \<times> component) \<times> net_packet list) list \<Rightarrow>
   ((spot_id \<times> component) \<times> net_packet list) list option" where
  "separate ent d [] bs = Some bs"
| "separate ent d (p # ps) bs =
     (let src = ucast (src_tal_id p); spot = get_spot_for_entity src d
      in case ent src of
           Gateway \<Rightarrow> separate ent d ps (add_to_burst (spot, Terminal) p bs)
         | Terminal \<Rightarrow> separate ent d ps (add_to_burst (spot, Gateway) p bs)
         | _ \<Rightarrow> None)"

fun up_send_bursts ::
  "(sat_out \<Rightarrow> bool) \<Rightarrow> sat_dispatcher \<Rightarrow> ((spot_id \<times> component) \<times> net_packet list) list \<Rightarrow> (sat_out list \<times> bool) option"
where
  "up_send_bursts q d [] = Some ([], True)"
| "up_send_bursts q d ((dest, b) # bs) =
     (case sd_routes d dest of
        None \<Rightarrow> map_option (\<lambda>(out, ok). (out, False)) (up_send_bursts q d bs)
      | Some sat \<Rightarrow>
          (case sd_regen d dest of
             None \<Rightarrow> None
           | Some regen \<Rightarrow>
               (let (out1, ok1) =
                      (if sat = sd_entity d \<and> regen \<noteq> Regen_ip then send_out q (To_opposite (Sat_burst b) IM_decap_data)
                       else send_out q (To_upper sat (regen = Regen_ip) (Sat_burst b) IM_decap_data))
                in map_option (\<lambda>(out, ok). (out1 @ out, ok1 \<and> ok)) (up_send_bursts q d bs))))"

text \<open>\<open>walk\<close> gives the order in which the hash map of the bursts is walked.\<close>

definition up_net_burst ::
  "(((spot_id \<times> component) \<times> net_packet list) list \<Rightarrow> ((spot_id \<times> component) \<times> net_packet list) list) \<Rightarrow>
   (tal_id \<Rightarrow> component) \<Rightarrow> (sat_out \<Rightarrow> bool) \<Rightarrow> sat_dispatcher \<Rightarrow> net_packet list \<Rightarrow> (sat_out list \<times> bool) option" where
  "up_net_burst walk ent q d ps =
     (case separate ent d ps [] of
        None \<Rightarrow> Some ([], False)
      | Some bs \<Rightarrow> up_send_bursts q d (walk bs))"

text \<open>A link is announced above for every regenerated destination; \<open>keys\<close> are those of the map of
  regeneration levels in the order of the walk.\<close>

fun up_link_up ::
  "(sat_out \<Rightarrow> bool) \<Rightarrow> sat_dispatcher \<Rightarrow> group_id \<Rightarrow> tal_id \<Rightarrow> (spot_id \<times> component) list \<Rightarrow> (sat_out list \<times> bool) option"
where
  "up_link_up q d g tal [] = Some ([], True)"
| "up_link_up q d g tal (k # ks) =
     (if sd_regen d k = Some Regen_ip then
        (case sd_routes d k of
           None \<Rightarrow> None
         | Some sat \<Rightarrow>
             (let (out1, ok1) = send_out q (To_upper sat True (Sat_link_up g tal) IM_link_up)
              in map_option (\<lambda>(out, ok). (out1 @ out, ok1 \<and> ok)) (up_link_up q d g tal ks)))
      else up_link_up q d g tal ks)"

text \<open>A message of a type that does not fit its data is a wrong cast; \<open>None\<close> as an event is one that
  is not a message.\<close>

definition up_sat_event ::
  "(((spot_id \<times> component) \<times> net_packet list) list \<Rightarrow> ((spot_id \<times> component) \<times> net_packet list) list) \<Rightarrow>
   (spot_id \<times> component) list \<Rightarrow> (tal_id \<Rightarrow> component) \<Rightarrow> (sat_out \<Rightarrow> bool) \<Rightarrow> sat_dispatcher \<Rightarrow>
   (sat_message \<times> u8) option \<Rightarrow> (sat_out list \<times> bool) option" where
  "up_sat_event walk keys ent q d ev =
     (case ev of
        None \<Rightarrow> Some ([], False)
      | Some (m, t) \<Rightarrow>
          (if t = IM_unknown \<or> t = IM_sig \<or> t = IM_encap_data then
             (case m of Sat_frame f \<Rightarrow> Some (up_dvb_frame q d f) | _ \<Rightarrow> None)
           else if t = IM_decap_data then
             (case m of Sat_burst ps \<Rightarrow> up_net_burst walk ent q d ps | _ \<Rightarrow> None)
           else if t = IM_link_up then
             (case m of Sat_link_up g tal \<Rightarrow> up_link_up q d g tal keys | _ \<Rightarrow> None)
           else Some ([], False)))"

section \<open>The downward channel\<close>

text \<open>The regeneration level of a side that is not in the map throws.\<close>

definition regen_transparent :: "sat_dispatcher \<Rightarrow> spot_id \<times> component \<Rightarrow> bool option" where
  "regen_transparent d k = map_option (\<lambda>r. r = Regen_transparent) (sd_regen d k)"

definition stack_transparent :: "sat_dispatcher \<Rightarrow> spot_id \<Rightarrow> component \<Rightarrow> component \<Rightarrow> bool \<Rightarrow> bool option" where
  "stack_transparent d spot dest src is_data = do {
     td \<leftarrow> regen_transparent d (spot, dest);
     (if \<not> td then Some False
      else if is_data then Some True
      else regen_transparent d (spot, src)) }"

definition down_dvb_frame ::
  "(sat_out \<Rightarrow> bool) \<Rightarrow> sat_dispatcher \<Rightarrow> dvb_frame \<Rightarrow> (sat_out list \<times> bool) option" where
  "down_dvb_frame q d f =
     (let c = extract_carrier_type (ucast (frame_carrier_id f));
          t = frame_type_of c;
          (dest, src) = (if is_gateway_carrier c then (Terminal, Gateway) else (Gateway, Terminal))
      in case sd_routes d (cont_spot f, dest) of
           None \<Rightarrow> Some ([], False)
         | Some sat \<Rightarrow>
             (if sat = sd_entity d then
                (if is_output_carrier c then Some ([], False)
                 else do {
                   tr \<leftarrow> stack_transparent d (cont_spot f) dest src (is_data_carrier c);
                   Some (send_out q (To_lower (cont_spot f) dest tr
                     (Sat_frame (f\<lparr>frame_carrier_id := frame_carrier_id f + 1\<rparr>)) t)) })
              else Some (send_out q (To_opposite (Sat_frame f) t))))"

fun down_send_bursts ::
  "(sat_out \<Rightarrow> bool) \<Rightarrow> sat_dispatcher \<Rightarrow> ((spot_id \<times> component) \<times> net_packet list) list \<Rightarrow> (sat_out list \<times> bool) option"
where
  "down_send_bursts q d [] = Some ([], True)"
| "down_send_bursts q d ((dest, b) # bs) =
     (case sd_routes d dest of
        None \<Rightarrow> map_option (\<lambda>(out, ok). (out, False)) (down_send_bursts q d bs)
      | Some sat \<Rightarrow>
          (case (if sat = sd_entity d then Some True else map_option (\<lambda>r. r = Regen_ip) (sd_regen d dest)) of
             None \<Rightarrow> None
           | Some lower \<Rightarrow>
               (let (out1, ok1) =
                      (if lower then send_out q (To_lower (fst dest) (snd dest) False (Sat_burst b) IM_decap_data)
                       else send_out q (To_opposite (Sat_burst b) IM_decap_data))
                in map_option (\<lambda>(out, ok). (out1 @ out, ok1 \<and> ok)) (down_send_bursts q d bs))))"

definition down_net_burst ::
  "(((spot_id \<times> component) \<times> net_packet list) list \<Rightarrow> ((spot_id \<times> component) \<times> net_packet list) list) \<Rightarrow>
   (tal_id \<Rightarrow> component) \<Rightarrow> (sat_out \<Rightarrow> bool) \<Rightarrow> sat_dispatcher \<Rightarrow> net_packet list \<Rightarrow> (sat_out list \<times> bool) option" where
  "down_net_burst walk ent q d ps =
     (case separate ent d ps [] of
        None \<Rightarrow> Some ([], False)
      | Some bs \<Rightarrow> down_send_bursts q d (walk bs))"

definition down_sat_event ::
  "(((spot_id \<times> component) \<times> net_packet list) list \<Rightarrow> ((spot_id \<times> component) \<times> net_packet list) list) \<Rightarrow>
   (tal_id \<Rightarrow> component) \<Rightarrow> (sat_out \<Rightarrow> bool) \<Rightarrow> sat_dispatcher \<Rightarrow> (sat_message \<times> u8) option \<Rightarrow>
   (sat_out list \<times> bool) option" where
  "down_sat_event walk ent q d ev =
     (case ev of
        None \<Rightarrow> Some ([], False)
      | Some (m, t) \<Rightarrow>
          (if t = IM_unknown \<or> t = IM_sig \<or> t = IM_encap_data then
             (case m of Sat_frame f \<Rightarrow> down_dvb_frame q d f | _ \<Rightarrow> None)
           else if t = IM_decap_data then
             (case m of Sat_burst ps \<Rightarrow> down_net_burst walk ent q d ps | _ \<Rightarrow> None)
           else if t = IM_link_up then Some ([], True)
           else Some ([], False)))"

section \<open>The handler of asymmetric stacks\<close>

text \<open>Upwards the data of a transparent stack is separated; downwards the ratio of the link is written in
  control frames and in all frames of a regenerative stack.  Without a message there is nothing to
  forward.\<close>

definition asym_up :: "bool \<Rightarrow> bool \<Rightarrow> dvb_frame option \<Rightarrow> (bool \<times> dvb_frame) option \<times> bool" where
  "asym_up queued split_traffic ev =
     (case ev of
        None \<Rightarrow> (None, False)
      | Some f \<Rightarrow>
          (if queued then
             (Some (split_traffic \<and> is_data_carrier (extract_carrier_type (ucast (frame_carrier_id f))), f), True)
           else (None, False)))"

definition asym_down_frame :: "rat \<Rightarrow> bool \<Rightarrow> dvb_frame \<Rightarrow> dvb_frame option" where
  "asym_down_frame current_cn regenerated f =
     (if (is_control_carrier (extract_carrier_type (ucast (frame_carrier_id f))) \<or> regenerated) \<and>
         is_cn_capable_frame (get_message_type f)
      then set_cn current_cn f else Some f)"

definition asym_forward :: "bool \<Rightarrow> dvb_frame \<Rightarrow> dvb_frame option \<times> bool" where
  "asym_forward queued f = (if queued then (Some f, True) else (None, False))"

definition asym_down_message ::
  "bool \<Rightarrow> rat \<Rightarrow> bool \<Rightarrow> dvb_frame \<Rightarrow> (dvb_frame option \<times> bool) option" where
  "asym_down_message queued current_cn regenerated f =
     map_option (asym_forward queued) (asym_down_frame current_cn regenerated f)"

section \<open>What the routes hold\<close>

definition same_routes :: "sat_dispatcher \<Rightarrow> sat_dispatcher \<Rightarrow> bool" where
  "same_routes d d' \<longleftrightarrow> sd_entity d' = sd_entity d \<and> sd_routes d' = sd_routes d \<and> sd_regen d' = sd_regen d"

lemma add_entities_routes: "same_routes d (fold (\<lambda>e. add_entity_in_spot e s) es d)"
  by (induction es arbitrary: d) (auto simp: same_routes_def add_entity_in_spot_def)

lemma dispatch_spot_result:
  assumes "dispatch_spot link t d = Some d'"
  shows "sd_entity d' = sd_entity d"
    "sd_routes d' = (sd_routes d)((topo_spot_id t, Gateway) \<mapsto> topo_sat_id_gw t, (topo_spot_id t, Terminal) \<mapsto> topo_sat_id_st t)"
    "sd_regen d' = (sd_regen d)((topo_spot_id t, Terminal) \<mapsto> topo_forward_regen t, (topo_spot_id t, Gateway) \<mapsto> topo_return_regen t)"
  using assms add_entities_routes [of d "topo_spot_id t" "topo_gw_id t # topo_st_ids t"]
  by (auto simp: dispatch_spot_def Let_def same_routes_def simp del: fold_simps split: if_splits)

text \<open>What the maps say of a spot of the topology.\<close>

definition routes_spot :: "sat_dispatcher \<Rightarrow> spot_topology \<Rightarrow> bool" where
  "routes_spot d t \<longleftrightarrow>
     sd_routes d (topo_spot_id t, Gateway) = Some (topo_sat_id_gw t) \<and>
     sd_routes d (topo_spot_id t, Terminal) = Some (topo_sat_id_st t) \<and>
     sd_regen d (topo_spot_id t, Gateway) = Some (topo_return_regen t) \<and>
     sd_regen d (topo_spot_id t, Terminal) = Some (topo_forward_regen t)"

lemma dispatch_spots_routes:
  assumes "dispatch_spots link ts d = Some d'" "distinct (map topo_spot_id ts)"
  shows "sd_entity d' = sd_entity d \<and> (\<forall>t \<in> set ts. routes_spot d' t) \<and>
    (\<forall>k. fst k \<notin> topo_spot_id ` set ts \<longrightarrow> sd_routes d' k = sd_routes d k \<and> sd_regen d' k = sd_regen d k)"
  using assms
proof (induction ts arbitrary: d)
  case (Cons t ts)
  then obtain d1 where d1: "dispatch_spot link t d = Some d1" "dispatch_spots link ts d1 = Some d'"
    by (auto split: option.splits)
  note r = dispatch_spot_result [OF d1(1)]
  note ih = Cons.IH [OF d1(2)]
  have "routes_spot d' t" using ih Cons.prems(2) by (auto simp: routes_spot_def r)
  then show ?case using ih Cons.prems(2) by (auto simp: r)
qed simp

lemma dispatch_init_routes:
  assumes "dispatch_init link default_id ts e = Some d" "distinct (map topo_spot_id ts)"
  shows "sd_entity d = e" "t \<in> set ts \<Longrightarrow> routes_spot d t"
    "fst k \<notin> topo_spot_id ` set ts \<Longrightarrow> sd_routes d k = None"
  using dispatch_spots_routes [OF assms(1) [unfolded dispatch_init_def] assms(2)]
  by (cases k; auto simp: new_spot_by_entity_def)+

section \<open>A frame through the satellites\<close>

text \<open>The satellite that receives a frame on the ground link handles it upwards; its other channel, or
  that of the satellite at the other end of the inter-satellite link, handles it downwards.\<close>

definition cross_sky ::
  "(tal_id \<Rightarrow> component) \<Rightarrow> (tal_id \<Rightarrow> sat_dispatcher option) \<Rightarrow> tal_id \<Rightarrow> dvb_frame \<Rightarrow> (tal_id \<times> sat_out list \<times> bool) option" where
  "cross_sky ent sats a f = do {
     d \<leftarrow> sats a;
     (case up_sat_event id [] ent (\<lambda>_. True) d (Some (Sat_frame f, IM_unknown)) of
        Some ([To_opposite m t], True) \<Rightarrow>
          map_option (Pair a) (down_sat_event id ent (\<lambda>_. True) d (Some (m, t)))
      | Some ([To_upper b is_data m t], True) \<Rightarrow> do {
          d' \<leftarrow> sats b;
          map_option (Pair b) (down_sat_event id ent (\<lambda>_. True) d' (Some (m, t))) }
      | _ \<Rightarrow> None) }"

lemma input_carrier_next:
  assumes "is_input_carrier (extract_carrier_type (ucast (c :: u8)))"
  defines "i \<equiv> extract_carrier_type (ucast c)" and "j \<equiv> extract_carrier_type (ucast (c + 1))"
  shows "is_output_carrier j \<and> \<not> is_output_carrier i \<and> is_gateway_carrier j = (\<not> is_gateway_carrier i) \<and>
    is_data_carrier j = is_data_carrier i \<and> is_control_carrier j = is_control_carrier i"
proof -
  have u: "unat (ucast x :: u16) = unat x" for x :: u8 by (rule unat_ucast_promotions)
  have "unat c mod 10 < 10" by simp
  then have "unat c mod 10 = 0 \<or> unat c mod 10 = 1 \<or> unat c mod 10 = 2 \<or> unat c mod 10 = 3 \<or>
      unat c mod 10 = 4 \<or> unat c mod 10 = 5 \<or> unat c mod 10 = 6 \<or> unat c mod 10 = 7 \<or>
      unat c mod 10 = 8 \<or> unat c mod 10 = 9"
    by arith
  then have m: "unat c mod 10 \<in> {0, 2, 4, 6, 8}"
    using assms(1) by (elim disjE) (simp_all add: extract_carrier_type_def u)
  have "c + 1 \<noteq> 0"
  proof
    assume "c + 1 = 0"
    then have "c = - 1" by (simp add: eq_neg_iff_add_eq_0)
    then have "c = 255" by simp
    then show False using m by simp
  qed
  then have "unat (c + 1) = unat c + 1" using unatSuc [of c] by (simp add: add.commute)
  then have n: "unat (c + 1) mod 10 = unat c mod 10 + 1" using m by (auto simp: mod_add_left_eq mod_Suc)
  show ?thesis
    using m by (elim insertE) (simp_all add: i_def j_def extract_carrier_type_def u n)
qed

lemma frame_type_frame: "frame_type_of c = IM_unknown \<or> frame_type_of c = IM_sig \<or> frame_type_of c = IM_encap_data"
  by (simp add: frame_type_of_def)

lemma down_frame_event:
  "down_sat_event walk ent q d (Some (Sat_frame f, frame_type_of c)) = down_dvb_frame q d f"
  using frame_type_frame [of c] by (simp add: down_sat_event_def)

text \<open>C5: a frame that a satellite receives from the ground on an input carrier, whichever satellite of
  the constellation it is, leaves the sky exactly once: from the satellite that serves the other side
  of the spot, on the stack of that side, with its data unchanged, on the output carrier that belongs
  to the input carrier.\<close>

theorem frame_reaches_other_side:
  assumes "distinct (map topo_spot_id topology)" "t \<in> set topology"
    and "\<forall>s d. sats s = Some d \<longrightarrow> (\<exists>link. dispatch_init link default_id topology s = Some d)"
    and "cont_spot f = topo_spot_id t" "is_input_carrier (extract_carrier_type (ucast (frame_carrier_id f)))"
  defines "from_gw \<equiv> is_gateway_carrier (extract_carrier_type (ucast (frame_carrier_id f)))"
  defines "b \<equiv> if from_gw then topo_sat_id_st t else topo_sat_id_gw t"
  assumes "sats a \<noteq> None" "sats b \<noteq> None"
  shows "\<exists>tr g. cross_sky ent sats a f = Some (b,
      [To_lower (topo_spot_id t) (if from_gw then Terminal else Gateway) tr (Sat_frame g)
         (frame_type_of (extract_carrier_type (ucast (frame_carrier_id f))))], True) \<and>
    g = f\<lparr>frame_carrier_id := frame_carrier_id f + 1\<rparr> \<and>
    is_output_carrier (extract_carrier_type (ucast (frame_carrier_id g))) \<and>
    is_gateway_carrier (extract_carrier_type (ucast (frame_carrier_id g))) = (\<not> from_gw)"
proof -
  let ?c = "extract_carrier_type (ucast (frame_carrier_id f))"
  let ?dest = "if from_gw then Terminal else Gateway"
  note carrier = input_carrier_next [OF assms(5)]
  obtain d where d: "sats a = Some d" using assms(8) by blast
  obtain d' where d': "sats b = Some d'" using assms(9) by blast
  have r: "routes_spot e t" "sd_entity e = s" if "sats s = Some e" for s e
    using that assms(2,3) dispatch_init_routes [OF _ assms(1)] by blast+
  have route: "sd_routes e (cont_spot f, ?dest) = Some b" if "sats s = Some e" for s e
    using r(1) [OF that] assms(4) by (simp add: routes_spot_def b_def)
  have tr: "\<exists>tr. stack_transparent e (cont_spot f) ?dest src (is_data_carrier ?c) = Some tr"
    if "sats s = Some e" "src = Gateway \<or> src = Terminal" for s e src
    using r(1) [OF that(1)] that(2) assms(4) by (auto simp: routes_spot_def stack_transparent_def regen_transparent_def)
  have down: "\<exists>tr. down_dvb_frame (\<lambda>_. True) e f = Some
      ([To_lower (topo_spot_id t) ?dest tr (Sat_frame (f\<lparr>frame_carrier_id := frame_carrier_id f + 1\<rparr>)) (frame_type_of ?c)], True)"
    if e: "sats b = Some e" for e
  proof -
    obtain x where x: "stack_transparent e (cont_spot f) ?dest (if from_gw then Gateway else Terminal) (is_data_carrier ?c) = Some x"
      using tr [OF e, of "if from_gw then Gateway else Terminal"] by (cases from_gw) auto
    show ?thesis
      using x route [OF e] r(2) [OF e] carrier assms(4)
      by (auto simp: down_dvb_frame_def Let_def send_out_def from_gw_def split: if_splits)
  qed
  obtain x where x: "down_dvb_frame (\<lambda>_. True) d' f = Some
      ([To_lower (topo_spot_id t) ?dest x (Sat_frame (f\<lparr>frame_carrier_id := frame_carrier_id f + 1\<rparr>)) (frame_type_of ?c)], True)"
    using down [OF d'] by blast
  have up: "up_sat_event id [] ent (\<lambda>_. True) d (Some (Sat_frame f, IM_unknown)) =
      Some ([if b = a then To_opposite (Sat_frame f) (frame_type_of ?c)
             else To_upper b False (Sat_frame f) (frame_type_of ?c)], True)"
    using route [OF d] r(2) [OF d]
    by (simp add: up_sat_event_def up_dvb_frame_def Let_def send_out_def from_gw_def)
  have "cross_sky ent sats a f = Some (b,
      [To_lower (topo_spot_id t) ?dest x (Sat_frame (f\<lparr>frame_carrier_id := frame_carrier_id f + 1\<rparr>)) (frame_type_of ?c)], True)"
    using up x d d' by (cases "b = a") (simp_all add: cross_sky_def down_frame_event)
  then show ?thesis using carrier by (simp add: from_gw_def)
qed

definition example_topology :: "spot_topology list" where
  "example_topology =
     [\<lparr>topo_spot_id = 0, topo_gw_id = 0, topo_st_ids = [1, 2], topo_sat_id_gw = 10, topo_sat_id_st = 11,
       topo_forward_regen = Regen_transparent, topo_return_regen = Regen_bbframe\<rparr>,
      \<lparr>topo_spot_id = 5, topo_gw_id = 5, topo_st_ids = [6], topo_sat_id_gw = 11, topo_sat_id_st = 11,
       topo_forward_regen = Regen_ip, topo_return_regen = Regen_ip\<rparr>]"

definition example_sats :: "tal_id \<Rightarrow> sat_dispatcher option" where
  "example_sats s = dispatch_init True (Some 0) example_topology s"

definition logon_frame :: dvb_frame where
  "logon_frame = net_container.extend ((new_container [0, 4, 50, 0])\<lparr>cont_spot := 0\<rparr>)
     \<lparr>max_size = 100, num_packets = 1, frame_carrier_id = 0\<rparr>"

lemma example_sats_exist: "example_sats s \<noteq> None"
  by (simp add: example_sats_def dispatch_init_def example_topology_def dispatch_spot_def Let_def)

theorem frame_reaches_other_side_witness:
  "\<exists>tr g. cross_sky (\<lambda>_. Terminal) example_sats 11 logon_frame =
    Some (10, [To_lower 0 Gateway tr (Sat_frame g) IM_sig], True) \<and> frame_carrier_id g = 1"
proof -
  let ?t = "hd example_topology"
  have "distinct (map topo_spot_id example_topology)" "?t \<in> set example_topology"
    "cont_spot logon_frame = topo_spot_id ?t"
    "is_input_carrier (extract_carrier_type (ucast (frame_carrier_id logon_frame)))"
    "topo_sat_id_gw ?t = 10" "topo_spot_id ?t = 0"
    "extract_carrier_type (ucast (frame_carrier_id logon_frame)) = LOGON_IN"
    by (simp_all add: example_topology_def logon_frame_def net_container.defs new_container_def extract_carrier_type_def)
  moreover have "\<forall>s d. example_sats s = Some d \<longrightarrow> (\<exists>link. dispatch_init link (Some 0) example_topology s = Some d)"
    by (auto simp: example_sats_def)
  ultimately obtain tr g where
    "cross_sky (\<lambda>_. Terminal) example_sats 11 logon_frame = Some (10, [To_lower 0 Gateway tr (Sat_frame g) IM_sig], True)"
    "g = logon_frame\<lparr>frame_carrier_id := frame_carrier_id logon_frame + 1\<rparr>"
    using frame_reaches_other_side [of example_topology ?t example_sats "Some 0" logon_frame 11 "\<lambda>_. Terminal"] example_sats_exist
    by (auto simp: frame_type_of_def)
  then show ?thesis by (intro exI [of _ tr] exI [of _ g]) (simp add: logon_frame_def net_container.defs)
qed

section \<open>The packets of a burst\<close>

definition packet_key :: "(tal_id \<Rightarrow> component) \<Rightarrow> sat_dispatcher \<Rightarrow> net_packet \<Rightarrow> spot_id \<times> component" where
  "packet_key ent d p =
     (get_spot_for_entity (ucast (src_tal_id p)) d,
      if ent (ucast (src_tal_id p)) = Gateway then Terminal else Gateway)"

definition known_source :: "(tal_id \<Rightarrow> component) \<Rightarrow> net_packet \<Rightarrow> bool" where
  "known_source ent p \<longleftrightarrow> ent (ucast (src_tal_id p)) = Gateway \<or> ent (ucast (src_tal_id p)) = Terminal"

lemma separate_fold:
  "separate ent d ps bs =
    (if \<forall>p \<in> set ps. known_source ent p then Some (foldl (\<lambda>bs p. add_to_burst (packet_key ent d p) p bs) bs ps) else None)"
  by (induction ps arbitrary: bs) (auto simp: known_source_def packet_key_def Let_def split: component.splits)

lemma keys_add_to_burst: "map fst (add_to_burst k p bs) = (if k \<in> fst ` set bs then map fst bs else map fst bs @ [k])"
  by (auto simp: add_to_burst_def comp_def case_prod_beta)

text \<open>Every burst holds the packets of its key in their order.\<close>

definition burst_of :: "('p \<Rightarrow> 'k) \<Rightarrow> 'p list \<Rightarrow> ('k \<times> 'p list) list \<Rightarrow> bool" where
  "burst_of key ps bs \<longleftrightarrow> distinct (map fst bs) \<and> fst ` set bs = key ` set ps \<and>
     (\<forall>(k, b) \<in> set bs. b = filter (\<lambda>p. key p = k) ps)"

lemma burst_of_mem:
  assumes "burst_of key ps bs" "(k, b) \<in> set bs"
  shows "k \<in> key ` set ps" "b = filter (\<lambda>p. key p = k) ps"
proof -
  have "k \<in> fst ` set bs" using assms(2) by (rule image_eqI [rotated]) simp
  then show "k \<in> key ` set ps" using assms(1) by (simp add: burst_of_def)
  show "b = filter (\<lambda>p. key p = k) ps" using assms by (auto simp: burst_of_def)
qed

lemma burst_of_add:
  assumes "burst_of key ps bs"
  shows "burst_of key (ps @ [p]) (add_to_burst (key p) p bs)"
proof -
  have f: "filter (\<lambda>q. key q = key p) ps = []" if "key p \<notin> fst ` set bs"
  proof -
    have "key p \<notin> key ` set ps" using that assms by (simp add: burst_of_def)
    then show ?thesis unfolding filter_empty_conv by (metis imageI)
  qed
  have "distinct (map fst (add_to_burst (key p) p bs))"
    using assms unfolding keys_add_to_burst by (auto simp: burst_of_def)
  moreover have "fst ` set (add_to_burst (key p) p bs) = key ` set (ps @ [p])"
    using assms keys_add_to_burst [of "key p" p bs] by (auto simp: burst_of_def simp flip: set_map)
  moreover have "\<forall>(k, b) \<in> set (add_to_burst (key p) p bs). b = filter (\<lambda>q. key q = k) (ps @ [p])"
  proof (cases "key p \<in> fst ` set bs")
    case True
    then show ?thesis by (auto simp: add_to_burst_def dest!: burst_of_mem(2) [OF assms])
  next
    case False
    have "key p \<noteq> k \<and> b = filter (\<lambda>q. key q = k) ps" if "(k, b) \<in> set bs" for k b
      using burst_of_mem(2) [OF assms that] False that by force
    then show ?thesis using False f by (auto simp: add_to_burst_def)
  qed
  ultimately show ?thesis by (simp add: burst_of_def)
qed

lemma burst_of_fold: "burst_of key ps (foldl (\<lambda>bs p. add_to_burst (key p) p bs) [] ps)"
proof (induction ps rule: rev_induct)
  case Nil
  show ?case by (simp add: burst_of_def)
next
  case (snoc p ps)
  then show ?case using burst_of_add by simp
qed

lemma mset_of_bursts:
  assumes "distinct ks" "key ` set ps \<subseteq> set ks"
  shows "mset (concat (map (\<lambda>k. filter (\<lambda>p. key p = k) ps) ks)) = mset ps"
  using assms(2)
proof (induction ps)
  case (Cons p ps)
  have "mset (concat (map (\<lambda>k. filter (\<lambda>q. key q = k) (p # ps)) ks)) =
      mset (concat (map (\<lambda>k. filter (\<lambda>q. key q = k) ps) ks)) + (\<Sum>k\<leftarrow>ks. if key p = k then {#p#} else {#})"
    by (induction ks) (auto simp: ac_simps)
  moreover have "(\<Sum>k\<leftarrow>ks. if key p = k then {#p#} else {#}) = {#p#}"
  proof -
    have "(\<Sum>k\<leftarrow>ks. if key p = k then {#p#} else {#}) = (\<Sum>k\<in>set ks. if key p = k then {#p#} else {#})"
      using assms(1) by (simp add: sum_list_distinct_conv_sum_set)
    then show ?thesis using Cons.prems by (simp add: sum.delta)
  qed
  ultimately show ?case using Cons by simp
qed simp

definition out_packets :: "sat_out \<Rightarrow> net_packet list" where
  "out_packets out =
     (let m = (case out of To_upper s d m t \<Rightarrow> m | To_opposite m t \<Rightarrow> m | To_lower s c tr m t \<Rightarrow> m)
      in case m of Sat_burst ps \<Rightarrow> ps | _ \<Rightarrow> [])"

text \<open>Where a burst goes upwards: the satellites that serve its destination without regenerating
  packets get it from the other channel.\<close>

definition up_burst_out :: "sat_dispatcher \<Rightarrow> tal_id \<Rightarrow> regen_level \<Rightarrow> net_packet list \<Rightarrow> sat_out" where
  "up_burst_out d sat regen b =
     (if sat = sd_entity d \<and> regen \<noteq> Regen_ip then To_opposite (Sat_burst b) IM_decap_data
      else To_upper sat (regen = Regen_ip) (Sat_burst b) IM_decap_data)"

lemma up_send_bursts_all:
  assumes "\<forall>(k, b) \<in> set bs. sd_routes d k \<noteq> None \<and> sd_regen d k \<noteq> None"
  shows "up_send_bursts (\<lambda>_. True) d bs =
    Some (map (\<lambda>(k, b). up_burst_out d (the (sd_routes d k)) (the (sd_regen d k)) b) bs, True)"
  using assms by (induction bs) (auto simp: send_out_def up_burst_out_def)

text \<open>C19: when every packet of a burst comes from a known entity of a spot that has routes, the upward
  channel sends each packet of the burst once, in bursts by spot and destination that keep the order of
  the packets, and each burst to where the routes lead; this holds for every order in which the map of
  the bursts is walked.  One packet from an unknown entity makes it drop the whole burst.\<close>

theorem burst_is_divided:
  assumes "\<And>bs. mset (walk bs) = mset bs"
    and "\<forall>p \<in> set ps. sd_routes d (packet_key ent d p) \<noteq> None \<and> sd_regen d (packet_key ent d p) \<noteq> None"
  shows "if \<forall>p \<in> set ps. known_source ent p then
      \<exists>out. up_net_burst walk ent (\<lambda>_. True) d ps = Some (out, True) \<and>
        mset (concat (map out_packets out)) = mset ps \<and>
        (\<forall>m \<in> set out. \<exists>k \<in> packet_key ent d ` set ps.
           m = up_burst_out d (the (sd_routes d k)) (the (sd_regen d k)) (filter (\<lambda>p. packet_key ent d p = k) ps))
    else up_net_burst walk ent (\<lambda>_. True) d ps = Some ([], False)"
proof (cases "\<forall>p \<in> set ps. known_source ent p")
  case False
  then have "separate ent d ps [] = None" by (auto simp: separate_fold)
  then show ?thesis unfolding if_not_P [OF False] by (simp add: up_net_burst_def)
next
  case True
  define bs where "bs = foldl (\<lambda>bs p. add_to_burst (packet_key ent d p) p bs) [] ps"
  have b: "burst_of (packet_key ent d) ps bs" unfolding bs_def by (rule burst_of_fold)
  have w: "set (walk bs) = set bs" by (rule mset_eq_setD [OF assms(1)])
  let ?g = "\<lambda>(k, b). up_burst_out d (the (sd_routes d k)) (the (sd_regen d k)) b"
  have "\<forall>(k, b) \<in> set (walk bs). sd_routes d k \<noteq> None \<and> sd_regen d k \<noteq> None"
  proof clarify
    fix k l assume "(k, l) \<in> set (walk bs)"
    then have "k \<in> packet_key ent d ` set ps" using burst_of_mem(1) [OF b] w by simp
    then show "sd_routes d k \<noteq> None \<and> sd_regen d k \<noteq> None" using assms(2) by auto
  qed
  from up_send_bursts_all [OF this]
  have out: "up_net_burst walk ent (\<lambda>_. True) d ps = Some (map ?g (walk bs), True)"
    using True by (simp add: up_net_burst_def separate_fold bs_def)
  have g: "out_packets (?g x) = snd x" for x
    by (cases x) (simp add: up_burst_out_def out_packets_def)
  have "mset (concat (map out_packets (map ?g (walk bs)))) = mset (concat (map snd (walk bs)))"
    by (simp add: comp_def g)
  also have "\<dots> = mset (concat (map snd bs))"
    using assms(1) [of bs] by (metis mset_concat mset_map map_map sum_mset_sum_list)
  also have "map snd bs = map (\<lambda>k. filter (\<lambda>p. packet_key ent d p = k) ps) (map fst bs)"
    using burst_of_mem(2) [OF b] by auto
  also have "mset (concat \<dots>) = mset ps"
    using b by (intro mset_of_bursts) (auto simp: burst_of_def simp flip: set_map)
  finally have m: "mset (concat (map out_packets (map ?g (walk bs)))) = mset ps" .
  have "\<exists>k \<in> packet_key ent d ` set ps.
      m = up_burst_out d (the (sd_routes d k)) (the (sd_regen d k)) (filter (\<lambda>p. packet_key ent d p = k) ps)"
    if "m \<in> set (map ?g (walk bs))" for m
  proof -
    from that obtain k l where kl: "(k, l) \<in> set bs" "m = ?g (k, l)" using w by auto
    then have "k \<in> packet_key ent d ` set ps" "l = filter (\<lambda>p. packet_key ent d p = k) ps"
      using burst_of_mem [OF b] by blast+
    then show ?thesis using kl(2) by auto
  qed
  with out m show ?thesis unfolding if_P [OF True] by blast
qed

theorem burst_is_divided_witness:
  "\<exists>d out. dispatch_init True None example_topology 11 = Some d \<and>
    up_net_burst rev (\<lambda>e. if e = 1 then Terminal else Gateway) (\<lambda>_. True) d
      [new_packet_full [1] 1 ''IP'' 8 0 1 0 0, new_packet_full [2] 1 ''IP'' 8 0 0 1 0, new_packet_full [3] 1 ''IP'' 8 0 1 0 0] =
      Some (out, True) \<and> length (concat (map out_packets out)) = 3"
proof -
  let ?ps = "[new_packet_full [1] 1 ''IP'' 8 0 1 0 0, new_packet_full [2] 1 ''IP'' 8 0 0 1 0,
    new_packet_full [3] 1 ''IP'' 8 0 1 0 0] :: net_packet list"
  let ?ent = "\<lambda>e :: tal_id. if e = 1 then Terminal else Gateway"
  obtain d where d: "dispatch_init True None example_topology 11 = Some d"
    "\<forall>p \<in> set ?ps. sd_routes d (packet_key ?ent d p) \<noteq> None \<and> sd_regen d (packet_key ?ent d p) \<noteq> None"
    by (simp add: dispatch_init_def example_topology_def dispatch_spot_def Let_def new_spot_by_entity_def
        add_entity_in_spot_def packet_key_def get_spot_for_entity_def new_packet_full_def new_packet_def
        new_container_def net_container.defs)
  have k: "\<forall>p \<in> set ?ps. known_source ?ent p"
    by (simp add: known_source_def new_packet_full_def new_packet_def new_container_def net_container.defs)
  obtain out where "up_net_burst rev ?ent (\<lambda>_. True) d ?ps = Some (out, True)"
    "mset (concat (map out_packets out)) = mset ?ps"
    using burst_is_divided [OF mset_rev d(2)] unfolding if_P [OF k] by blast
  moreover from this(2) have "length (concat (map out_packets out)) = 3"
    by (drule_tac arg_cong [where f = size]) simp
  ultimately show ?thesis using d(1) by blast
qed

text \<open>The asymmetric handler keeps what it does not have to mark.\<close>

lemma asym_down_keeps:
  assumes "\<not> is_control_carrier (extract_carrier_type (ucast (frame_carrier_id f)))"
  shows "asym_down_message True cn False f = Some (Some f, True)"
  using assms by (simp add: asym_down_message_def asym_down_frame_def asym_forward_def)

end
