(* ===== verification/Phy_Plugins.thy ===== *)
theory Phy_Plugins
  imports Floating Fmt Dvb_Frame
begin

text \<open>
  The models plugged into the physical layer (\<^verbatim>\<open>opensand-core/src/physical_layer/plugins\<close> and
  their base classes, \<^verbatim>\<open>common/PhysicalLayerPlugin.cpp\<close>): the attenuation of a link (constant,
  on/off, triangular, or interpolated in a file), the C/N that a frame requires (constant, or that of
  its modulation), the insertion of errors, and the delay of the satellite (constant or interpolated in a
  file).  A parameter of the configuration is an optional value, \<^verbatim>\<open>None\<close> when it is missing; a
  member that no constructor initialises is an optional value too.
\<close>

section \<open>Files of dated values\<close>

text \<open>The extraction of an \<^verbatim>\<open>unsigned int\<close> and of a \<^verbatim>\<open>double\<close> from a stream: blanks
  are skipped, a minus sign negates modulo \<open>2 ^ 32\<close>, the extraction stops at the first character that
  cannot belong to the number and fails without a digit or out of the range of the type.\<close>

fun read_sign :: "string \<Rightarrow> bool \<times> string" where
  "read_sign (c # cs) =
     (if c = CHR ''-'' then (True, cs) else if c = CHR ''+'' then (False, cs) else (False, c # cs))"
| "read_sign [] = (False, [])"

definition extract_unsigned :: "string \<Rightarrow> (u32 \<times> string) option" where
  "extract_unsigned s =
     (let (neg, t) = read_sign (skip_blanks s);
          ds = takeWhile is_digit t;
          v = scan_digits ds 0
      in if ds = [] \<or> 2 ^ 32 \<le> v then None
         else Some (if neg then - of_nat v else of_nat v, dropWhile is_digit t))"

definition read_exponent :: "string \<Rightarrow> int option" where
  "read_exponent s =
     (case s of [] \<Rightarrow> Some 0
      | c # cs \<Rightarrow>
          if c = CHR ''e'' \<or> c = CHR ''E''
          then (let (neg, t) = read_sign cs; ds = takeWhile is_digit t; v = int (scan_digits ds 0)
                in if ds = [] then None else Some (if neg then - v else v))
          else Some 0)"

definition read_fraction :: "string \<Rightarrow> string \<times> string" where
  "read_fraction s =
     (case s of [] \<Rightarrow> ([], [])
      | c # cs \<Rightarrow> if c = CHR ''.'' then (takeWhile is_digit cs, dropWhile is_digit cs) else ([], s))"

definition extract_double :: "string \<Rightarrow> rat option" where
  "extract_double s =
     (let (neg, t) = read_sign (skip_blanks s);
          ip = takeWhile is_digit t;
          (fp, r) = read_fraction (dropWhile is_digit t)
      in if ip = [] \<and> fp = [] then None
         else (case read_exponent r of None \<Rightarrow> None
               | Some e \<Rightarrow>
                   (let v = fl64 (of_nat (scan_digits (ip @ fp) 0) * 10 powi (e - int (length fp)))
                    in if 2 ^ 1024 \<le> v then None else Some (if neg then - v else v))))"

text \<open>The values of a file by date.\<close>

type_synonym 'v dated = "(u32, 'v) omap"

definition entries_before :: "u32 \<Rightarrow> 'v dated \<Rightarrow> 'v dated" where
  "entries_before t m = takeWhile (\<lambda>e. fst e < t) m"

definition lower_bound :: "u32 \<Rightarrow> 'v dated \<Rightarrow> 'v dated" where
  "lower_bound t m = dropWhile (\<lambda>e. fst e < t) m"

definition parse_line :: "(string \<Rightarrow> 'v option) \<Rightarrow> string \<Rightarrow> (u32 \<times> 'v) option" where
  "parse_line val line = do {
     (t, rest) \<leftarrow> extract_unsigned line;
     v \<leftarrow> val rest;
     Some (t, v) }"

definition skipped_line :: "string \<Rightarrow> bool" where
  "skipped_line line \<longleftrightarrow> line = [] \<or> hd line = CHR ''#''"

text \<open>The lines before a malformed one stay in the map.\<close>

fun load_lines :: "(string \<Rightarrow> 'v option) \<Rightarrow> string list \<Rightarrow> 'v dated \<Rightarrow> 'v dated \<times> bool" where
  "load_lines val [] m = (m, True)"
| "load_lines val (line # ls) m =
     (if skipped_line line then load_lines val ls m
      else (case parse_line val line of
              None \<Rightarrow> (m, False)
            | Some (t, v) \<Rightarrow> load_lines val ls (omap_put t v m)))"

text \<open>The step of both file models: the entry at or after the new date and the one before it are
  interpolated, the first entry is used as it is, and after the last one the scenario restarts, or
  reads behind the reverse end of the map.\<close>

record 'v scenario =
  sc_time :: u32
  sc_entries :: "'v dated"
  sc_loop :: bool

definition new_scenario :: "'v scenario" where
  "new_scenario = \<lparr>sc_time = 0, sc_entries = [], sc_loop = False\<rparr>"

definition scenario_step ::
  "(u32 \<times> 'v \<Rightarrow> u32 \<times> 'v \<Rightarrow> u32 \<Rightarrow> 'v option) \<Rightarrow> 'v scenario \<Rightarrow> ('v scenario \<times> 'v) option" where
  "scenario_step interp s =
     (let t = sc_time s + 1; s1 = s\<lparr>sc_time := t\<rparr>
      in case lower_bound t (sc_entries s) of
           e # _ \<Rightarrow> do {
             v \<leftarrow> (if entries_before t (sc_entries s) = [] then Some (snd e)
                  else interp (List.last (entries_before t (sc_entries s))) e t);
             Some (s1, v) }
         | [] \<Rightarrow>
             if \<not> sc_loop s then None
             else (case sc_entries s of
                     [] \<Rightarrow> None
                   | e # _ \<Rightarrow> Some (s1\<lparr>sc_time := 0\<rparr>, snd e)))"

section \<open>Attenuation\<close>

record attenuation_model =
  att_value :: "rat option"
  att_refresh :: time_ms

definition set_attenuation :: "rat \<Rightarrow> 'a attenuation_model_scheme \<Rightarrow> 'a attenuation_model_scheme" where
  "set_attenuation a m = m\<lparr>att_value := Some a\<rparr>"

record ideal = attenuation_model +
  ideal_value :: rat

definition ideal_init :: "time_ms \<Rightarrow> rat option \<Rightarrow> ideal \<Rightarrow> ideal \<times> bool" where
  "ideal_init refresh val m =
     (let m1 = m\<lparr>att_refresh := refresh\<rparr>
      in case val of None \<Rightarrow> (m1, False) | Some v \<Rightarrow> (m1\<lparr>ideal_value := v\<rparr>, True))"

definition ideal_update :: "ideal \<Rightarrow> ideal \<times> bool" where
  "ideal_update m = (m\<lparr>att_value := Some (ideal_value m)\<rparr>, True)"

text \<open>The C++ remainder has the sign of the dividend, and faults on a null divisor; the sum of two
  \<^verbatim>\<open>int\<close> faults when it overflows.\<close>

definition crem :: "int \<Rightarrow> int \<Rightarrow> int option" where
  "crem a b = do { q \<leftarrow> cdiv a b; Some (a - q * b) }"

definition cint :: "int \<Rightarrow> int option" where
  "cint x = (if - (2 ^ 31) \<le> x \<and> x < 2 ^ 31 then Some x else None)"

record on_off = attenuation_model +
  onoff_counter :: int
  on_duration :: int
  off_duration :: int
  onoff_amplitude :: rat

definition on_off_init ::
  "time_ms \<Rightarrow> int option \<Rightarrow> int option \<Rightarrow> rat option \<Rightarrow> on_off \<Rightarrow> on_off \<times> bool" where
  "on_off_init refresh on off amplitude m =
     (let m1 = m\<lparr>att_refresh := refresh\<rparr>
      in case on of None \<Rightarrow> (m1, False)
         | Some d \<Rightarrow>
             (let m2 = m1\<lparr>on_duration := d\<rparr>
              in case off of None \<Rightarrow> (m2, False)
                 | Some e \<Rightarrow>
                     (let m3 = m2\<lparr>off_duration := e\<rparr>
                      in case amplitude of None \<Rightarrow> (m3, False)
                         | Some a \<Rightarrow> (m3\<lparr>onoff_amplitude := a\<rparr>, True))))"

definition on_off_update :: "on_off \<Rightarrow> (on_off \<times> bool) option" where
  "on_off_update m = do {
     n \<leftarrow> cint (onoff_counter m + 1);
     d \<leftarrow> cint (on_duration m + off_duration m);
     c \<leftarrow> crem n d;
     Some (set_attenuation (if c < off_duration m then 0 else onoff_amplitude m)
             (m\<lparr>onoff_counter := c\<rparr>), True) }"

record triangular = attenuation_model +
  tri_counter :: int
  tri_period :: int
  tri_slope :: rat

definition triangular_init ::
  "time_ms \<Rightarrow> int option \<Rightarrow> rat option \<Rightarrow> triangular \<Rightarrow> triangular \<times> bool" where
  "triangular_init refresh period slope m =
     (let m1 = m\<lparr>att_refresh := refresh\<rparr>
      in case period of None \<Rightarrow> (m1, False)
         | Some p \<Rightarrow>
             (let m2 = m1\<lparr>tri_period := p\<rparr>
              in case slope of None \<Rightarrow> (m2, False)
                 | Some a \<Rightarrow> (m2\<lparr>tri_slope := a\<rparr>, True)))"

text \<open>The product of the counter by the refresh period and its division are those of
  \<^verbatim>\<open>unsigned int\<close>, the half of the period is that of \<^verbatim>\<open>int\<close>.\<close>

definition triangular_update :: "triangular \<Rightarrow> (triangular \<times> bool) option" where
  "triangular_update m = do {
     n \<leftarrow> cint (tri_counter m + 1);
     c \<leftarrow> crem n (tri_period m);
     let time = num (word_of_int c * att_refresh m div 1000);
     half \<leftarrow> cdiv (tri_period m) 2;
     let top = fl64 (fl64 (fl64 (of_int (tri_period m) * tri_slope m) * num (att_refresh m)) / 1000);
     Some (set_attenuation
             (if time < of_int half then fl64 (time * tri_slope m)
              else fl64 (top - fl64 (time * tri_slope m)))
             (m\<lparr>tri_counter := c\<rparr>), True) }"

text \<open>The slope between two entries of a file, and the value at a date between them.\<close>

definition interpolate_attenuation :: "u32 \<times> rat \<Rightarrow> u32 \<times> rat \<Rightarrow> u32 \<Rightarrow> rat option" where
  "interpolate_attenuation old new t =
     (let coef = fl64 (fl64 (snd new - snd old) / num (fst new - fst old))
      in Some (fl64 (snd old + fl64 (coef * num (t - fst old)))))"

record file_attenuation = attenuation_model +
  file_scenario :: "rat scenario"

definition file_attenuation_init ::
  "time_ms \<Rightarrow> string option \<Rightarrow> bool option \<Rightarrow> (string \<Rightarrow> string list option) \<Rightarrow>
   file_attenuation \<Rightarrow> file_attenuation \<times> bool" where
  "file_attenuation_init refresh filename loop files m =
     (let m1 = m\<lparr>att_refresh := refresh\<rparr>
      in case filename of None \<Rightarrow> (m1, False)
         | Some name \<Rightarrow>
             (case loop of None \<Rightarrow> (m1, False)
              | Some l \<Rightarrow>
                  (let s = (file_scenario m1)\<lparr>sc_loop := l\<rparr>
                   in case files name of
                        None \<Rightarrow> (m1\<lparr>file_scenario := s\<rparr>, False)
                      | Some ls \<Rightarrow>
                          (let (e, ok) = load_lines extract_double ls (sc_entries s)
                           in (m1\<lparr>file_scenario := s\<lparr>sc_entries := e\<rparr>\<rparr>, ok)))))"

definition file_attenuation_update :: "file_attenuation \<Rightarrow> (file_attenuation \<times> bool) option" where
  "file_attenuation_update m = do {
     (s, a) \<leftarrow> scenario_step interpolate_attenuation (file_scenario m);
     Some (set_attenuation a (m\<lparr>file_scenario := s\<rparr>), True) }"

datatype attenuation_plugin =
    Ideal ideal | On_Off on_off | Triangular triangular | File_Attenuation file_attenuation

fun get_attenuation :: "attenuation_plugin \<Rightarrow> rat option" where
  "get_attenuation (Ideal m) = att_value m"
| "get_attenuation (On_Off m) = att_value m"
| "get_attenuation (Triangular m) = att_value m"
| "get_attenuation (File_Attenuation m) = att_value m"

fun update_attenuation_model :: "attenuation_plugin \<Rightarrow> (attenuation_plugin \<times> bool) option" where
  "update_attenuation_model (Ideal m) = (let (m', ok) = ideal_update m in Some (Ideal m', ok))"
| "update_attenuation_model (On_Off m) = do { (m', ok) \<leftarrow> on_off_update m; Some (On_Off m', ok) }"
| "update_attenuation_model (Triangular m) =
     do { (m', ok) \<leftarrow> triangular_update m; Some (Triangular m', ok) }"
| "update_attenuation_model (File_Attenuation m) =
     do { (m', ok) \<leftarrow> file_attenuation_update m; Some (File_Attenuation m', ok) }"

section \<open>Minimal condition and error insertion\<close>

datatype minimal_plugin =
    Constant_Min "rat option"
  | Acm_Loop fmt_table fmt_table "rat option"

definition constant_init :: "rat option \<Rightarrow> minimal_plugin \<times> bool" where
  "constant_init threshold =
     (case threshold of None \<Rightarrow> (Constant_Min None, False) | Some v \<Rightarrow> (Constant_Min (Some v), True))"

fun add_all_fmt :: "fmt_def option list \<Rightarrow> fmt_table \<Rightarrow> fmt_table \<times> bool" where
  "add_all_fmt [] t = (t, True)"
| "add_all_fmt (d # ds) t =
     (let (t', ok) = fmt_add t d in if ok then add_all_fmt ds t' else (t', False))"

text \<open>The definitions of the waveforms come from the configuration (\<^verbatim>\<open>None\<close> when they cannot
  be read).\<close>

definition acm_loop_init ::
  "fmt_def option list option \<Rightarrow> fmt_def option list option \<Rightarrow> minimal_plugin \<times> bool" where
  "acm_loop_init rcs2 s2 =
     (case rcs2 of None \<Rightarrow> (Acm_Loop [] [] None, False)
      | Some ds \<Rightarrow>
          (let (tr, ok) = add_all_fmt ds []
           in if \<not> ok then (Acm_Loop tr [] None, False)
              else (case s2 of None \<Rightarrow> (Acm_Loop tr [] None, False)
                    | Some es \<Rightarrow>
                        (let (ts, ok2) = add_all_fmt es [] in (Acm_Loop tr ts None, ok2)))))"

fun update_threshold :: "minimal_plugin \<Rightarrow> fmt_id \<Rightarrow> u8 \<Rightarrow> minimal_plugin \<times> bool" where
  "update_threshold (Constant_Min cn) modcod t = (Constant_Min cn, True)"
| "update_threshold (Acm_Loop rcs s2 cn) modcod t =
     (Acm_Loop rcs s2 (Some (if t = MSG_DvbBurst then table_es_n0 rcs modcod else table_es_n0 s2 modcod)),
      True)"

fun get_minimal_cn :: "minimal_plugin \<Rightarrow> rat option" where
  "get_minimal_cn (Constant_Min cn) = cn"
| "get_minimal_cn (Acm_Loop rcs s2 cn) = cn"

text \<open>The gate, the only model of error insertion, leaves the payload as it is: the frame is
  marked by its caller.\<close>

definition gate_to_be_modified :: "rat \<Rightarrow> rat \<Rightarrow> bool" where
  "gate_to_be_modified cn_total threshold_qef \<longleftrightarrow> \<not> threshold_qef \<le> cn_total"

definition gate_modify_packet :: "bytes \<Rightarrow> bool" where
  "gate_modify_packet payload = True"

section \<open>Satellite delay\<close>

record sat_delay =
  delay_ms :: time_ms
  delay_refresh :: time_ms
  delay_is_init :: bool

definition new_sat_delay :: sat_delay where
  "new_sat_delay = \<lparr>delay_ms = 0, delay_refresh = 1000, delay_is_init = False\<rparr>"

datatype delay_plugin = Constant_Delay sat_delay | File_Delay sat_delay "time_ms scenario"

fun delay_state :: "delay_plugin \<Rightarrow> sat_delay" where
  "delay_state (Constant_Delay d) = d"
| "delay_state (File_Delay d s) = d"

definition get_sat_delay :: "delay_plugin \<Rightarrow> time_ms" where
  "get_sat_delay p = delay_ms (delay_state p)"

definition get_refresh_period :: "delay_plugin \<Rightarrow> time_ms" where
  "get_refresh_period p = delay_refresh (delay_state p)"

definition constant_delay_init :: "int option \<Rightarrow> sat_delay \<Rightarrow> sat_delay \<times> bool" where
  "constant_delay_init val d =
     (if delay_is_init d then (d, True)
      else (case val of None \<Rightarrow> (d, False)
            | Some v \<Rightarrow> (d\<lparr>delay_ms := word_of_int v, delay_is_init := True\<rparr>, True)))"

definition extract_time_ms :: "string \<Rightarrow> time_ms option" where
  "extract_time_ms s = map_option fst (extract_unsigned s)"

definition file_delay_init ::
  "int option \<Rightarrow> string option \<Rightarrow> bool option \<Rightarrow> (string \<Rightarrow> string list option) \<Rightarrow>
   sat_delay \<Rightarrow> time_ms scenario \<Rightarrow> (sat_delay \<times> time_ms scenario) \<times> bool" where
  "file_delay_init refresh filename loop files d s =
     (if delay_is_init d then ((d, s), True)
      else (case refresh of None \<Rightarrow> ((d, s), False)
       | Some r \<Rightarrow>
           (let d1 = d\<lparr>delay_refresh := word_of_int r\<rparr>
            in case filename of None \<Rightarrow> ((d1, s), False)
               | Some name \<Rightarrow>
                   (case loop of None \<Rightarrow> ((d1, s), False)
                    | Some l \<Rightarrow>
                        (let s1 = s\<lparr>sc_loop := l\<rparr>
                         in case files name of None \<Rightarrow> ((d1, s1), False)
                            | Some ls \<Rightarrow>
                                (let (e, ok) = load_lines extract_time_ms ls (sc_entries s1)
                                 in ((d1\<lparr>delay_is_init := ok\<rparr>, s1\<lparr>sc_entries := e\<rparr>), ok)))))))"

text \<open>The step from the older delay is converted to \<^verbatim>\<open>time_ms_t\<close>, which is unsigned:
  between two delays that decrease it is negative, and the conversion faults as soon as it is one
  millisecond.\<close>

definition interpolate_delay :: "u32 \<times> time_ms \<Rightarrow> u32 \<times> time_ms \<Rightarrow> u32 \<Rightarrow> time_ms option" where
  "interpolate_delay old new t =
     (let coef = fl64 (fl64 (num (snd new) - num (snd old)) / fl64 (num (fst new) - num (fst old)))
      in map_option (\<lambda>step. snd old + step) (to_unsigned (fl64 (coef * num (t - fst old)))))"

fun update_sat_delay :: "delay_plugin \<Rightarrow> (delay_plugin \<times> bool) option" where
  "update_sat_delay (Constant_Delay d) = Some (Constant_Delay d, True)"
| "update_sat_delay (File_Delay d s) = do {
     (s', v) \<leftarrow> scenario_step interpolate_delay s;
     Some (File_Delay (d\<lparr>delay_ms := v\<rparr>) s', True) }"

text \<open>\<^verbatim>\<open>std::max_element\<close> returns the first of the greatest elements, and the end of an
  empty map.\<close>

fun max_entry :: "'k \<times> time_ms \<Rightarrow> ('k \<times> time_ms) list \<Rightarrow> 'k \<times> time_ms" where
  "max_entry e [] = e"
| "max_entry e (x # xs) = (if snd e < snd x then max_entry x xs else max_entry e xs)"

text \<open>\<^verbatim>\<open>None\<close> is the fault on an empty map; the delay is not written when the model is
  not initialised.\<close>

fun get_max_delay :: "delay_plugin \<Rightarrow> (time_ms option \<times> bool) option" where
  "get_max_delay (Constant_Delay d) =
     Some (if delay_is_init d then (Some (delay_ms d), True) else (None, False))"
| "get_max_delay (File_Delay d s) =
     (if \<not> delay_is_init d then Some (None, False)
      else (case sc_entries s of [] \<Rightarrow> None
            | e # es \<Rightarrow> Some (Some (snd (max_entry e es)), True)))"

section \<open>The periodic models\<close>

primrec run_updates :: "nat \<Rightarrow> ('m \<Rightarrow> ('m \<times> bool) option) \<Rightarrow> 'm \<Rightarrow> 'm option" where
  "run_updates 0 upd m = Some m"
| "run_updates (Suc n) upd m =
     (case run_updates n upd m of None \<Rightarrow> None | Some m' \<Rightarrow> map_option fst (upd m'))"

text \<open>What the on/off and the triangular models share: a counter modulo a period, and an
  attenuation that is a function of the counter.\<close>

locale periodic_model =
  fixes upd :: "'m \<Rightarrow> ('m \<times> bool) option"
    and counter :: "'m \<Rightarrow> int"
    and period :: "'m \<Rightarrow> int"
    and curve :: "'m \<Rightarrow> int \<Rightarrow> rat"
    and att :: "'m \<Rightarrow> rat option"
  assumes upd_counts: "0 \<le> counter m \<Longrightarrow> counter m < period m \<Longrightarrow> period m < 2 ^ 31 \<Longrightarrow>
    \<exists>m'. upd m = Some (m', True) \<and> counter m' = (counter m + 1) mod period m \<and>
      period m' = period m \<and> curve m' = curve m \<and> att m' = Some (curve m (counter m'))"
begin

lemma run_counts:
  assumes "counter m = 0" "0 < period m" "period m < 2 ^ 31"
  shows "\<exists>m'. run_updates n upd m = Some m' \<and> counter m' = int n mod period m \<and>
    period m' = period m \<and> curve m' = curve m \<and>
    (0 < n \<longrightarrow> att m' = Some (curve m (int n mod period m)))"
proof (induction n)
  case 0
  with assms show ?case by simp
next
  case (Suc n)
  then obtain m1 where m1: "run_updates n upd m = Some m1" "counter m1 = int n mod period m"
      "period m1 = period m" "curve m1 = curve m" by blast
  have "0 \<le> counter m1" "counter m1 < period m1" "period m1 < 2 ^ 31"
    using assms(2,3) by (simp_all add: m1)
  from upd_counts [OF this] obtain m2 where "upd m1 = Some (m2, True)"
      "counter m2 = (counter m1 + 1) mod period m1" "period m2 = period m1" "curve m2 = curve m1"
      "att m2 = Some (curve m1 (counter m2))" by blast
  moreover have "(int n mod period m + 1) mod period m = int (Suc n) mod period m"
    by (simp add: mod_simps add.commute)
  ultimately show ?case by (simp add: m1)
qed

end

lemma crem_nonneg: "0 \<le> a \<Longrightarrow> 0 < b \<Longrightarrow> crem a b = Some (a mod b)"
  by (simp add: crem_def cdiv_nonneg minus_div_mult_eq_mod)

lemma cint_in_range: "- (2 ^ 31) \<le> x \<Longrightarrow> x < 2 ^ 31 \<Longrightarrow> cint x = Some x"
  by (simp add: cint_def)

definition on_off_curve :: "on_off \<Rightarrow> int \<Rightarrow> rat" where
  "on_off_curve m c = (if c < off_duration m then 0 else onoff_amplitude m)"

interpretation onoff: periodic_model on_off_update onoff_counter "\<lambda>m. on_duration m + off_duration m"
  on_off_curve att_value
proof unfold_locales
  fix m :: on_off
  assume "0 \<le> onoff_counter m" "onoff_counter m < on_duration m + off_duration m"
    "on_duration m + off_duration m < 2 ^ 31"
  then show "\<exists>m'. on_off_update m = Some (m', True) \<and>
      onoff_counter m' = (onoff_counter m + 1) mod (on_duration m + off_duration m) \<and>
      on_duration m' + off_duration m' = on_duration m + off_duration m \<and>
      on_off_curve m' = on_off_curve m \<and> att_value m' = Some (on_off_curve m (onoff_counter m'))"
    by (simp add: on_off_update_def cint_in_range crem_nonneg set_attenuation_def on_off_curve_def fun_eq_iff)
qed

definition triangular_curve :: "triangular \<Rightarrow> int \<Rightarrow> rat" where
  "triangular_curve m c =
     (let time = num (word_of_int c * att_refresh m div 1000)
      in if time < of_int (tri_period m div 2) then fl64 (time * tri_slope m)
         else fl64 (fl64 (fl64 (fl64 (of_int (tri_period m) * tri_slope m) * num (att_refresh m)) / 1000)
                    - fl64 (time * tri_slope m)))"

interpretation tri: periodic_model triangular_update tri_counter tri_period triangular_curve att_value
proof unfold_locales
  fix m :: triangular
  assume "0 \<le> tri_counter m" "tri_counter m < tri_period m" "tri_period m < 2 ^ 31"
  then show "\<exists>m'. triangular_update m = Some (m', True) \<and>
      tri_counter m' = (tri_counter m + 1) mod tri_period m \<and> tri_period m' = tri_period m \<and>
      triangular_curve m' = triangular_curve m \<and>
      att_value m' = Some (triangular_curve m (tri_counter m'))"
    by (simp add: triangular_update_def cint_in_range crem_nonneg cdiv_nonneg set_attenuation_def
        triangular_curve_def fun_eq_iff Let_def)
qed

text \<open>The on/off model: after \<open>n\<close> updates the attenuation is null during the first
  \<open>off_duration\<close> values of the counter modulo the two durations, and the amplitude after that.\<close>

theorem on_off_periodic:
  assumes "onoff_counter m = 0" "0 < on_duration m + off_duration m"
    "on_duration m + off_duration m < 2 ^ 31"
  shows "\<exists>m'. run_updates (Suc n) on_off_update m = Some m' \<and>
    att_value m' = Some (if int (Suc n) mod (on_duration m + off_duration m) < off_duration m
                         then 0 else onoff_amplitude m)"
  using onoff.run_counts [OF assms, of "Suc n"] by (auto simp: on_off_curve_def)

theorem on_off_periodic_witness:
  "\<exists>m'. run_updates (Suc 2) on_off_update
      \<lparr>att_value = None, att_refresh = 1000, onoff_counter = 0, on_duration = 2, off_duration = 2,
       onoff_amplitude = 7\<rparr> = Some m' \<and> att_value m' = Some 7"
  using on_off_periodic [of "\<lparr>att_value = None, att_refresh = 1000, onoff_counter = 0, on_duration = 2,
       off_duration = 2, onoff_amplitude = 7\<rparr>" 2] by simp

text \<open>The triangular model divides its time by 1000 as an integer and compares it to a number of
  periods: with a refresh period short enough no attenuation is ever applied.\<close>

theorem triangular_flat:
  assumes "tri_counter m = 0" "2 \<le> tri_period m" "tri_period m < 2 ^ 31"
    "(tri_period m - 1) * uint (att_refresh m) < 1000"
  shows "\<exists>m'. run_updates (Suc n) triangular_update m = Some m' \<and> att_value m' = Some 0"
proof -
  let ?c = "int (Suc n) mod tri_period m"
  have c: "0 \<le> ?c" "?c \<le> tri_period m - 1" using assms(2) by simp_all
  then have "?c * uint (att_refresh m) \<le> (tri_period m - 1) * uint (att_refresh m)"
    by (intro mult_right_mono) simp_all
  with assms(4) have lt: "?c * uint (att_refresh m) < 1000" by simp
  have "uint (word_of_int ?c * att_refresh m) = ?c * uint (att_refresh m)"
  proof -
    have "uint (word_of_int ?c :: u32) = ?c"
      using c assms(3) by (simp add: unsigned_of_int take_bit_int_eq_self)
    then show ?thesis using lt c(1) by (simp add: uint_word_ariths)
  qed
  moreover have "0 \<le> ?c * uint (att_refresh m)" using c(1) by simp
  ultimately have "uint (word_of_int ?c * att_refresh m div 1000) = 0"
    using lt by (simp only: uint_div uint_numeral) simp
  then have "word_of_int ?c * att_refresh m div 1000 = 0" by (simp add: uint_0_iff)
  moreover have "0 < tri_period m div 2" using assms(2) by (simp add: pos_imp_zdiv_pos_iff)
  ultimately have "triangular_curve m ?c = 0" by (simp add: triangular_curve_def num_def)
  with tri.run_counts [of m "Suc n"] assms show ?thesis by auto
qed

theorem triangular_flat_witness:
  "\<exists>m'. run_updates (Suc 5) triangular_update
      \<lparr>att_value = None, att_refresh = 50, tri_counter = 0, tri_period = 10, tri_slope = 3\<rparr> =
    Some m' \<and> att_value m' = Some 0"
  by (rule triangular_flat) simp_all

text \<open>With a refresh period of one second the counter is the time in seconds, and the model is the
  triangle it is named after.\<close>

theorem triangular_shape:
  assumes "tri_counter m = 0" "0 < tri_period m" "tri_period m * 1000 < 2 ^ 32"
    and "att_refresh m = 1000" "tri_slope m = of_int k" "\<bar>tri_period m * k * 1000\<bar> < 2 ^ 53"
  shows "\<exists>m'. run_updates (Suc n) triangular_update m = Some m' \<and>
    (let c = int (Suc n) mod tri_period m
     in att_value m' = Some (of_int (if c < tri_period m div 2 then c * k else (tri_period m - c) * k)))"
proof -
  define p where "p = tri_period m"
  define c where "c = int (Suc n) mod p"
  have c: "0 \<le> c" "c < p" using assms(2) by (simp_all add: c_def p_def)
  have p: "p * 1000 < 2 ^ 32" "\<bar>p * k * 1000\<bar> < 2 ^ 53" using assms(3,6) by (simp_all add: p_def)
  have u: "uint (word_of_int c * (1000 :: u32)) = c * 1000"
    using c p(1) by (simp add: uint_word_ariths unsigned_of_int take_bit_int_eq_self)
  have "uint (word_of_int c * (1000 :: u32) div 1000) = c"
    by (simp only: uint_div u) simp
  then have "rat_of_int (uint (word_of_int c * (1000 :: u32) div 1000)) = of_int c" by (simp only:)
  then have time: "num (word_of_int c * (1000 :: u32) div 1000) = rat_of_int c"
    by (simp only: num_def uint_nat of_int_of_nat_eq)
  have small: "\<bar>x * k\<bar> < 2 ^ 53" if "0 \<le> x" "x \<le> p * 1000" for x
  proof -
    have "\<bar>x * k\<bar> = x * \<bar>k\<bar>" using that(1) by (simp add: abs_mult)
    also have "\<dots> \<le> (p * 1000) * \<bar>k\<bar>" using that(2) by (rule mult_right_mono) simp
    also have "\<dots> = \<bar>p * k * 1000\<bar>" using c by (simp add: abs_mult)
    finally show ?thesis using p(2) by simp
  qed
  have f: "fl64 (of_int (x * k)) = of_int (x * k)" if "0 \<le> x" "x \<le> p * 1000" for x
    by (rule fl_of_int) (rule small [OF that])
  have pk: "fl64 (of_int p * of_int k) = of_int p * of_int k" using f [of p] c by simp
  have pk1000: "fl64 (of_int p * of_int k * 1000) = of_int p * of_int k * 1000"
    using f [of "p * 1000"] c by (simp add: ac_simps)
  have ck: "fl64 (of_int c * of_int k) = of_int c * of_int k" using f [of c] c by simp
  have diff: "fl64 (of_int p * of_int k - of_int c * of_int k) = (of_int p - of_int c) * of_int k"
    using f [of "p - c"] c by (simp add: left_diff_distrib)
  have "triangular_curve m c = of_int (if c < p div 2 then c * k else (p - c) * k)"
    unfolding triangular_curve_def Let_def assms(4,5) p_def [symmetric] time
    by (simp add: pk pk1000 ck diff num_def)
  with tri.run_counts [of m "Suc n"] assms(1-3) show ?thesis
    by (auto simp: Let_def c_def p_def)
qed

theorem triangular_shape_witness:
  "\<exists>m'. run_updates (Suc 6) triangular_update
      \<lparr>att_value = None, att_refresh = 1000, tri_counter = 0, tri_period = 10, tri_slope = of_int 3\<rparr> =
    Some m' \<and> att_value m' = Some 9"
  using triangular_shape [of "\<lparr>att_value = None, att_refresh = 1000, tri_counter = 0, tri_period = 10,
    tri_slope = of_int 3\<rparr>" 3 6] by simp

section \<open>Files of dated values\<close>

text \<open>The map a file is read into: the lines that are neither empty nor comments, in order, a later
  line replacing an earlier one of its date.\<close>

theorem load_lines_map:
  assumes "omap_wf m"
  shows "omap_wf (fst (load_lines val ls m)) \<and>
    (snd (load_lines val ls m) \<longleftrightarrow>
       (\<forall>l \<in> set (filter (\<lambda>l. \<not> skipped_line l) ls). parse_line val l \<noteq> None)) \<and>
    map_of (fst (load_lines val ls m)) =
      map_of m ++ map_of (rev (map (\<lambda>l. the (parse_line val l))
        (takeWhile (\<lambda>l. parse_line val l \<noteq> None) (filter (\<lambda>l. \<not> skipped_line l) ls))))"
  using assms
proof (induction ls arbitrary: m)
  case (Cons l ls)
  show ?case
  proof (cases "skipped_line l")
    case True
    with Cons show ?thesis by simp
  next
    case False
    show ?thesis
    proof (cases "parse_line val l")
      case None
      with False Cons.prems show ?thesis by simp
    next
      case (Some e)
      then obtain t v where e: "parse_line val l = Some (t, v)" by (cases e) auto
      show ?thesis
        using Cons.IH [OF omap_put_wf [OF Cons.prems, of t v]] False e Cons.prems
        by (simp add: map_of_omap_put) (simp add: fun_upd_def)
    qed
  qed
qed simp

theorem load_lines_map_witness:
  "map_of (fst (load_lines extract_double [''#dB'', ''10 2.5'', '''', ''20 -1e1''] [])) 20 = Some (- 10)"
proof -
  have "omap_wf ([] :: rat dated)" by simp
  note load_lines_map [OF this, of extract_double "[''#dB'', ''10 2.5'', '''', ''20 -1e1'']"]
  moreover have "fl64 10 = 10" using fl_of_int [of 10 53] by simp
  then have "parse_line extract_double ''20 -1e1'' = Some (20, - 10)"
    by (simp add: parse_line_def extract_unsigned_def extract_double_def is_digit_def
        read_fraction_def read_exponent_def Let_def)
  moreover have "\<exists>v. parse_line extract_double ''10 2.5'' = Some (10, v)"
  proof -
    have "fl64 (25 / 10) \<le> of_int 3" by (rule fl_le_of_int) simp_all
    then have "\<not> 2 ^ 1024 \<le> fl64 (25 / 10)" by simp
    then show ?thesis
      by (simp add: parse_line_def extract_unsigned_def extract_double_def is_digit_def
          read_fraction_def read_exponent_def Let_def power_int_minus)
  qed
  ultimately show ?thesis by (auto simp: skipped_line_def)
qed

lemma takeWhile_dated:
  assumes "omap_wf (es @ (a, v) # (b, w) # fs)" "a < t" "t \<le> b"
  shows "entries_before t (es @ (a, v) # (b, w) # fs) = es @ [(a, v)]"
    "lower_bound t (es @ (a, v) # (b, w) # fs) = (b, w) # fs"
proof -
  have "\<forall>e \<in> set es. fst e < t" using assms(1,2) by (auto simp: omap_wf_def sorted_wrt_append)
  moreover have "\<not> b < t" using assms(3) by simp
  ultimately show "entries_before t (es @ (a, v) # (b, w) # fs) = es @ [(a, v)]"
    "lower_bound t (es @ (a, v) # (b, w) # fs) = (b, w) # fs"
    using assms(2) by (simp_all add: entries_before_def lower_bound_def)
qed

lemma num_diff: "a \<le> b \<Longrightarrow> num (b - a) = num b - num (a :: 'a::len word)"
  by (simp add: num_def unat_sub of_nat_diff word_le_nat_alt del: of_nat_unat)

lemma num_bound: "num (a :: u32) < 2 ^ 32"
proof -
  have "of_nat (unat a) < (of_nat (2 ^ 32) :: rat)"
    using unsigned_less [of a, where ?'a = nat] by (simp only: of_nat_less_iff) simp
  then show ?thesis by (simp add: num_def)
qed

text \<open>The product of a rounded slope by a number of steps, rounded: at most one from the exact
  value when this one is small.\<close>

lemma slope_error:
  assumes "0 \<le> d" "d < 2 ^ 32" "0 < n" "0 \<le> k" "k \<le> n"
  shows "0 \<le> fl64 (fl64 (d / n) * k)" "fl64 (fl64 (d / n) * k) < d + 1"
    "\<bar>fl64 (fl64 (d / n) * k) - d * k / n\<bar> < 1"
proof -
  define q where "q = fl64 (d / n)"
  define e :: rat where "e = 1 / 2 ^ 53"
  have e: "0 < e" "e < 1" "4 * 2 ^ 32 * e < 1" by (simp_all add: e_def)
  have dn: "0 \<le> d / n" using assms by simp
  have q: "d / n * (1 - e) \<le> q" "q \<le> d / n * (1 + e)" "0 \<le> q"
    using fl_bounds [OF dn, of 53] fl_nonneg [OF dn, of 53] by (simp_all add: q_def e_def)
  have qk: "0 \<le> q * k" using q(3) assms(4) by simp
  define p where "p = fl64 (q * k)"
  have p: "q * k * (1 - e) \<le> p" "p \<le> q * k * (1 + e)" "0 \<le> p"
    using fl_bounds [OF qk, of 53] fl_nonneg [OF qk, of 53] by (simp_all add: p_def e_def)
  define x where "x = d * k / n"
  have x: "0 \<le> x" "x \<le> d"
    using assms mult_left_mono [of k n d] by (simp_all add: x_def pos_divide_le_eq)
  have up: "q * k \<le> x * (1 + e)" using mult_right_mono [OF q(2) assms(4)] by (simp add: x_def ac_simps)
  have lo: "x * (1 - e) \<le> q * k" using mult_right_mono [OF q(1) assms(4)] by (simp add: x_def ac_simps)
  have ee: "e * e \<le> e" "0 \<le> e * e" using e mult_left_mono [of e 1 e] by simp_all
  have "q * k * (1 + e) \<le> x * (1 + e) * (1 + e)" using up e by (intro mult_right_mono) simp_all
  with p(2) have "p \<le> x * (1 + e) * (1 + e)" by simp
  also have "\<dots> = x + x * (e + e + e * e)" by (simp add: algebra_simps)
  also have "\<dots> \<le> x + x * (3 * e)" using ee x by (intro add_left_mono mult_left_mono) simp_all
  finally have pu: "p \<le> x + x * (3 * e)" .
  have "x * (1 - e) * (1 - e) \<le> q * k * (1 - e)" using lo e by (intro mult_right_mono) simp_all
  with p(1) have "x * (1 - e) * (1 - e) \<le> p" by simp
  moreover have "x * (1 - e) * (1 - e) = x - x * (e + e - e * e)" by (simp add: algebra_simps)
  moreover have "e + e - e * e \<le> 3 * e" using e ee by linarith
  then have "x * (e + e - e * e) \<le> x * (3 * e)" using x(1) by (rule mult_left_mono)
  ultimately have pl: "x - x * (3 * e) \<le> p" by simp
  have "x * (3 * e) \<le> 2 ^ 32 * (3 * e)" using x assms(2) e by (intro mult_right_mono) simp_all
  then have small: "x * (3 * e) < 1" using e by linarith
  show "0 \<le> fl64 (fl64 (d / n) * k)" "fl64 (fl64 (d / n) * k) < d + 1"
    "\<bar>fl64 (fl64 (d / n) * k) - d * k / n\<bar> < 1"
    using p(3) pu pl small x by (simp_all add: p_def [symmetric] q_def [symmetric] x_def abs_less_iff)
qed

lemma interpolate_delay_bounds:
  assumes "a < t" "t \<le> b" "v \<le> w"
  defines "x \<equiv> num v + (num w - num v) * num (t - a) / num (b - a)"
  shows "\<exists>u. interpolate_delay (a, v) (b, w) t = Some u \<and> v \<le> u \<and> u \<le> w \<and>
    num u < x + 1 \<and> x - 2 < num u"
proof -
  have d: "num w - num v = num (w - v)" "num b - num a = num (b - a)"
    using assms(1-3) by (simp_all add: num_diff)
  have n: "0 < num (b - a)"
    using assms(1,2) by (simp add: num_def unat_gt_0 del: of_nat_unat)
  have k: "0 \<le> num (t - a)" "num (t - a) \<le> num (b - a)"
    using assms(1,2) by (simp_all add: num_def unat_sub word_le_nat_alt word_less_nat_alt del: of_nat_unat)
  define p where "p = fl64 (fl64 (num (w - v) / num (b - a)) * num (t - a))"
  note p = slope_error [OF num_nonneg num_bound n k, of "w - v", folded p_def]
  have fl: "fl64 (num (w - v)) = num (w - v)" "fl64 (num (b - a)) = num (b - a)"
    by (simp_all add: fl_num)
  have fp: "0 \<le> \<lfloor>p\<rfloor>" "\<lfloor>p\<rfloor> \<le> int (unat (w - v))"
    using p(1,2) by (simp_all add: num_def floor_le_iff del: of_nat_unat)
  have "unat (w - v) + 1 \<le> 2 ^ 32" using unsigned_less [of "w - v", where ?'a = nat] by simp
  then have "of_nat (unat (w - v) + 1) \<le> (of_nat (2 ^ 32) :: rat)" by (simp only: of_nat_le_iff)
  then have "num (w - v) + 1 \<le> 2 ^ 32" by (simp add: num_def del: of_nat_unat)
  with p(1,2) have range: "- 1 < p" "p < 2 ^ 32" by linarith+
  define u where "u = v + word_of_int \<lfloor>p\<rfloor>"
  have r: "interpolate_delay (a, v) (b, w) t = Some u"
    using p(1) range
    by (simp add: interpolate_delay_def d fl p_def [symmetric] to_unsigned_def trunc_def Let_def u_def)
  have uw: "unat (w - v) = unat w - unat v" using assms(3) by (simp add: unat_sub)
  have le: "unat v \<le> unat w" using assms(3) by (simp add: word_le_nat_alt)
  have lt: "unat w < 2 ^ 32" using unsigned_less [of w, where ?'a = nat] by simp
  have "nat \<lfloor>p\<rfloor> < 2 ^ 32" using fp uw lt by linarith
  then have up: "unat (word_of_int \<lfloor>p\<rfloor> :: u32) = nat \<lfloor>p\<rfloor>"
    using fp(1) by (simp add: unsigned_of_int take_bit_int_eq_self nat_less_iff)
  have "unat v + unat (word_of_int \<lfloor>p\<rfloor> :: u32) < 2 ^ 32"
    unfolding up using fp uw le lt by linarith
  then have ur: "unat u = unat v + nat \<lfloor>p\<rfloor>"
    unfolding u_def by (subst unat_add_small) (simp_all add: up)
  have between: "v \<le> u" "u \<le> w"
    unfolding word_le_nat_alt ur using fp uw le by linarith+
  have nr: "num u = num v + of_int \<lfloor>p\<rfloor>"
    using fp(1) by (simp add: num_def ur del: of_nat_unat)
  have x: "x = num v + num (w - v) * num (t - a) / num (b - a)" by (simp add: x_def d)
  have "num u < x + 1" "x - 2 < num u"
    unfolding nr x using p(3) of_int_floor_le [of p] floor_correct [of p] by linarith+
  with r between show ?thesis by blast
qed

text \<open>When the delay decreases, the fall from the older one.\<close>

lemma interpolate_delay_falls:
  assumes "a < t" "t \<le> b" "w < v"
  defines "x \<equiv> (num v - num w) * num (t - a) / num (b - a)"
  shows "2 \<le> x \<Longrightarrow> interpolate_delay (a, v) (b, w) t = None"
    "interpolate_delay (a, v) (b, w) t \<in> {None, Some v}"
proof -
  have d: "num w - num v = - num (v - w)" "num b - num a = num (b - a)" "num v - num w = num (v - w)"
    using assms(1-3) by (simp_all add: num_diff)
  have n: "0 < num (b - a)"
    using assms(1,2) by (simp add: num_def unat_gt_0 del: of_nat_unat)
  have k: "0 \<le> num (t - a)" "num (t - a) \<le> num (b - a)"
    using assms(1,2) by (simp_all add: num_def unat_sub word_le_nat_alt word_less_nat_alt del: of_nat_unat)
  define p where "p = fl64 (fl64 (num (v - w) / num (b - a)) * num (t - a))"
  note p = slope_error [OF num_nonneg num_bound n k, of "v - w", folded p_def]
  have e: "interpolate_delay (a, v) (b, w) t = map_option (\<lambda>step. v + step) (to_unsigned (- p))"
    by (simp add: interpolate_delay_def d fl_num fl_minus Let_def p_def)
  have c: "\<lceil>- p\<rceil> = 0" if "- 1 < - p" using that p(1) by linarith
  have "to_unsigned (- p) \<in> {None, Some (0 :: u32)}"
    using p(1) c by (auto simp: to_unsigned_def trunc_def)
  then show "interpolate_delay (a, v) (b, w) t \<in> {None, Some v}" by (auto simp: e)
  assume "2 \<le> x"
  then have "1 < p" using p(3) by (simp add: x_def d)
  then show "interpolate_delay (a, v) (b, w) t = None" by (simp add: e to_unsigned_def)
qed

lemma scenario_between:
  assumes "omap_wf (sc_entries s)"
    and "sc_entries s = es @ (a, v) # (b, w) # fs"
    and "a < sc_time s + 1" "sc_time s + 1 \<le> b"
  shows "scenario_step interp s =
    map_option (\<lambda>u. (s\<lparr>sc_time := sc_time s + 1\<rparr>, u)) (interp (a, v) (b, w) (sc_time s + 1))"
  using takeWhile_dated [OF assms(1) [unfolded assms(2)] assms(3,4)]
  by (cases "interp (a, v) (b, w) (sc_time s + 1)") (simp_all add: scenario_step_def Let_def assms(2))

text \<open>C22: The update at a date between two entries of the file.  When the delay does not decrease
  from one to the other, the new delay of the satellite is between theirs and less than two
  milliseconds from the exact interpolation.  When it decreases, the step is a negative double that
  is converted to an unsigned integer: the update faults as soon as the exact fall from the older
  entry is two milliseconds, and otherwise either faults or keeps the older delay; the satellite
  never comes nearer by interpolation.\<close>

theorem file_delay_interpolates:
  assumes "omap_wf (sc_entries s)"
    and "sc_entries s = es @ (a, v) # (b, w) # fs"
    and "a < sc_time s + 1" "sc_time s + 1 \<le> b"
  shows "(v \<le> w \<longrightarrow> (\<exists>d' s'. update_sat_delay (File_Delay d s) = Some (File_Delay d' s', True) \<and>
      sc_time s' = sc_time s + 1 \<and> sc_entries s' = sc_entries s \<and>
      v \<le> delay_ms d' \<and> delay_ms d' \<le> w \<and>
      \<bar>num (delay_ms d') -
        (num v + (num w - num v) * num (sc_time s + 1 - a) / num (b - a))\<bar> < 2)) \<and>
    (w < v \<longrightarrow>
      (2 \<le> (num v - num w) * num (sc_time s + 1 - a) / num (b - a) \<longrightarrow>
        update_sat_delay (File_Delay d s) = None) \<and>
      update_sat_delay (File_Delay d s) \<in>
        {None, Some (File_Delay (d\<lparr>delay_ms := v\<rparr>) (s\<lparr>sc_time := sc_time s + 1\<rparr>), True)})"
proof -
  let ?t = "sc_time s + 1"
  note step = scenario_between [OF assms, of interpolate_delay]
  show ?thesis
  proof (intro conjI impI)
    assume "v \<le> w"
    from interpolate_delay_bounds [OF assms(3,4) this] show "\<exists>d' s'.
      update_sat_delay (File_Delay d s) = Some (File_Delay d' s', True) \<and>
      sc_time s' = ?t \<and> sc_entries s' = sc_entries s \<and> v \<le> delay_ms d' \<and> delay_ms d' \<le> w \<and>
      \<bar>num (delay_ms d') - (num v + (num w - num v) * num (?t - a) / num (b - a))\<bar> < 2"
      by (auto simp: step abs_less_iff)
  next
    assume "w < v" "2 \<le> (num v - num w) * num (?t - a) / num (b - a)"
    then show "update_sat_delay (File_Delay d s) = None"
      by (simp add: step interpolate_delay_falls(1) [OF assms(3,4)])
  next
    assume "w < v"
    from interpolate_delay_falls(2) [OF assms(3,4) this] show "update_sat_delay (File_Delay d s) \<in>
        {None, Some (File_Delay (d\<lparr>delay_ms := v\<rparr>) (s\<lparr>sc_time := ?t\<rparr>), True)}"
      by (auto simp: step)
  qed
qed

theorem file_delay_interpolates_witness:
  "(\<exists>d' s'. update_sat_delay (File_Delay new_sat_delay
      \<lparr>sc_time = 4, sc_entries = [(0, 100), (10, 200)], sc_loop = False\<rparr>) =
    Some (File_Delay d' s', True) \<and> 100 \<le> delay_ms d' \<and> delay_ms d' \<le> 200) \<and>
   update_sat_delay (File_Delay new_sat_delay
      \<lparr>sc_time = 4, sc_entries = [(0, 200), (10, 100)], sc_loop = False\<rparr>) = None"
proof -
  have n: "num (200 :: u32) = 200" "num (100 :: u32) = 100" "num (5 :: u32) = 5" "num (10 :: u32) = 10"
    by (simp_all add: num_def)
  from file_delay_interpolates [of "\<lparr>sc_time = 4, sc_entries = [(0, 100), (10, 200)], sc_loop = False\<rparr>"
      "[]" 0 100 10 200 "[]" new_sat_delay]
    file_delay_interpolates [of "\<lparr>sc_time = 4, sc_entries = [(0, 200), (10, 100)], sc_loop = False\<rparr>"
      "[]" 0 200 10 100 "[]" new_sat_delay]
  show ?thesis by (auto simp: omap_wf_def n)
qed

text \<open>The rounding of the slope is not compensated: at the date of an entry the delay can be one
  millisecond short of the entry.\<close>

theorem file_delay_short_of_entry:
  "update_sat_delay (File_Delay new_sat_delay
      \<lparr>sc_time = 48, sc_entries = [(0, 0), (49, 1)], sc_loop = False\<rparr>) =
    Some (File_Delay new_sat_delay
      \<lparr>sc_time = 49, sc_entries = [(0, 0), (49, 1)], sc_loop = False\<rparr>, True)"
  by code_simp

text \<open>A scenario that ends without a loop faults: the reverse end of the map is read.  With a loop
  it restarts at its first value.\<close>

theorem scenario_end:
  assumes "\<forall>e \<in> set (sc_entries s). fst e < sc_time s + 1"
  shows "scenario_step interp s =
    (if sc_loop s \<and> sc_entries s \<noteq> []
     then Some (s\<lparr>sc_time := 0\<rparr>, snd (hd (sc_entries s))) else None)"
proof -
  have "lower_bound (sc_time s + 1) (sc_entries s) = []"
    using assms by (simp add: lower_bound_def)
  then show ?thesis by (simp add: scenario_step_def Let_def split: list.split)
qed

theorem scenario_end_witness:
  "scenario_step interpolate_delay \<lparr>sc_time = 10, sc_entries = [(10, 200)], sc_loop = False\<rparr> = None"
  using scenario_end [of "\<lparr>sc_time = 10, sc_entries = [(10, 200)], sc_loop = False\<rparr>"
    interpolate_delay] by simp

text \<open>The greatest delay of a file is one of its delays, and no delay exceeds it.\<close>

lemma max_entry_max:
  "max_entry e es \<in> set (e # es) \<and> (\<forall>x \<in> set (e # es). snd x \<le> snd (max_entry e es))"
proof (induction es arbitrary: e)
  case (Cons x es)
  show ?case using Cons.IH [of x] Cons.IH [of e] by (auto simp: not_less intro: order_trans)
qed simp

theorem get_max_delay_bound:
  assumes "get_max_delay (File_Delay d s) = Some (Some m, True)"
  shows "m \<in> snd ` set (sc_entries s) \<and> (\<forall>e \<in> set (sc_entries s). snd e \<le> m)"
proof -
  obtain e es where "sc_entries s = e # es" "m = snd (max_entry e es)"
    using assms by (auto split: if_splits list.splits)
  with max_entry_max [of e es] show ?thesis by auto
qed

theorem get_max_delay_bound_witness:
  "(7 :: time_ms) \<in> snd ` set [(0 :: u32, 3), (5, 7), (9, 7)]"
  using get_max_delay_bound [of "new_sat_delay\<lparr>delay_is_init := True\<rparr>"
    "\<lparr>sc_time = 0, sc_entries = [(0, 3), (5, 7), (9, 7)], sc_loop = False\<rparr>" 7]
  by (simp add: new_sat_delay_def)

end
