(* ===== verification/Physical_Layer.thy ===== *)
theory Physical_Layer
  imports Phy_Plugins Delay_Fifo
begin

text \<open>
  The physical layer of a ground entity (\<^verbatim>\<open>opensand-core/src/physical_layer/BlockPhysicalLayer.cpp\<close>,
  \<^verbatim>\<open>GroundPhysicalChannel.cpp\<close>, \<^verbatim>\<open>AttenuationHandler.cpp\<close>): the C/N of a frame is
  that of the two links, the frame waits for the delay of the satellite, and the frames whose C/N is too
  low for their modulation are marked.  The exponential and the logarithm of the mathematical library and
  what the queue of the next block accepts are arguments.
\<close>

section \<open>The ground channel\<close>

record phy_channel =
  ph_clear_sky :: rat
  ph_attenuation :: attenuation_plugin
  ph_fifo :: "unit dvb_frame_ext delay_fifo"
  ph_fifo_period :: time_ms
  ph_attenuation_period :: time_ms
  ph_sent :: "dvb_frame list"

text \<open>The values of the configuration, \<^verbatim>\<open>None\<close> when they are missing; \<open>plugin\<close> is the
  attenuation model with the result of its initialisation for a refresh period.\<close>

record phy_config =
  conf_delay_buffer :: "nat option"
  conf_delay_timer :: "time_ms option"
  conf_acm_period :: "time_ms option"
  conf_clear_sky :: "rat option"
  conf_plugin :: "(time_ms \<Rightarrow> attenuation_plugin \<times> bool) option"

definition init_ground :: "phy_config \<Rightarrow> 'a phy_channel_scheme \<Rightarrow> 'a phy_channel_scheme \<times> bool" where
  "init_ground conf ch =
     (case conf_delay_buffer conf of None \<Rightarrow> (ch, False)
      | Some n \<Rightarrow>
     (let ch1 = ch\<lparr>ph_fifo := fst (set_max_size (ph_fifo ch) (of_nat n))\<rparr>
      in case conf_delay_timer conf of None \<Rightarrow> (ch1, False)
      | Some p \<Rightarrow>
     (let ch2 = ch1\<lparr>ph_fifo_period := p\<rparr>
      in case conf_acm_period conf of None \<Rightarrow> (ch2, False)
      | Some r \<Rightarrow>
     (case conf_clear_sky conf of None \<Rightarrow> (ch2, False)
      | Some c \<Rightarrow>
     (let ch3 = ch2\<lparr>ph_clear_sky := c\<rparr>
      in case conf_plugin conf of None \<Rightarrow> (ch3, False)
      | Some pl \<Rightarrow>
     (let (m, ok) = pl r; ch4 = ch3\<lparr>ph_attenuation := m\<rparr>
      in if \<not> ok then (ch4, False) else (ch4\<lparr>ph_attenuation_period := r\<rparr>, True)))))))"

definition update_attenuation :: "'a phy_channel_scheme \<Rightarrow> ('a phy_channel_scheme \<times> bool) option" where
  "update_attenuation ch = do {
     (m, ok) \<leftarrow> update_attenuation_model (ph_attenuation ch);
     let ch' = ch\<lparr>ph_attenuation := m\<rparr>;
     if \<not> ok then Some (ch', False)
     else do { _ \<leftarrow> get_attenuation m; Some (ch', True) } }"

definition get_current_cn :: "'a phy_channel_scheme \<Rightarrow> rat option" where
  "get_current_cn ch = do {
     a \<leftarrow> get_attenuation (ph_attenuation ch);
     Some (fl64 (ph_clear_sky ch - a)) }"

text \<open>The C/N of two links, over any numbers: \<open>rnd\<close> rounds the result of an operation,
  \<open>pw\<close> and \<open>lg\<close> are the power of ten and the decimal logarithm.\<close>

definition compute_total_cn ::
  "('r \<Rightarrow> 'r) \<Rightarrow> ('r \<Rightarrow> 'r) \<Rightarrow> ('r \<Rightarrow> 'r) \<Rightarrow> 'r \<Rightarrow> 'r \<Rightarrow> 'r :: field" where
  "compute_total_cn rnd pw lg up_cn down_cn =
     (let down_num = pw (rnd (down_cn / 10));
          up_num = pw (rnd (up_cn / 10));
          total_num = rnd (1 / rnd (rnd (1 / down_num) + rnd (1 / up_num)))
      in rnd (10 * lg total_num))"

text \<open>The dates are \<^verbatim>\<open>uint32_t\<close>, and so is the sum of the date and the delay.\<close>

definition push_packet ::
  "time_ms \<Rightarrow> time_ms \<Rightarrow> dvb_frame \<Rightarrow> 'a phy_channel_scheme \<Rightarrow> ('a phy_channel_scheme \<times> bool) option" where
  "push_packet now delay pkt ch = do {
     (f, ok) \<leftarrow> delay_push (ph_fifo ch)
        \<lparr>fe_elem = pkt, tick_in = uint now, tick_out = uint (now + delay)\<rparr>;
     Some (ch\<lparr>ph_fifo := f\<rparr>, ok) }"

text \<open>The result of the forwarding of a frame is ignored.\<close>

partial_function (option) forward_ready ::
  "('a phy_channel_scheme \<Rightarrow> dvb_frame \<Rightarrow> ('a phy_channel_scheme \<times> bool) option) \<Rightarrow> time_ms \<Rightarrow>
   'a phy_channel_scheme \<Rightarrow> ('a phy_channel_scheme \<times> bool) option" where
  "forward_ready fwd now ch =
     (if delay_current_size (ph_fifo ch) > 0 \<and>
         (word_of_int (delay_tick_out (ph_fifo ch)) :: 64 word) \<le> ucast now
      then (case delay_pop (ph_fifo ch) of
              (f, None) \<Rightarrow> None
            | (f, Some e) \<Rightarrow>
                (case fwd (ch\<lparr>ph_fifo := f\<rparr>) (fe_elem e) of
                   None \<Rightarrow> None
                 | Some (ch', _) \<Rightarrow> forward_ready fwd now ch'))
      else Some (ch, True))"

section \<open>The attenuation handler\<close>

definition attenuation_process ::
  "dvb_frame \<Rightarrow> rat \<Rightarrow> minimal_plugin \<Rightarrow> (minimal_plugin \<times> dvb_frame \<times> bool) option" where
  "attenuation_process f cn_total m =
     (if get_message_type f \<noteq> MSG_BbFrame \<and> get_message_type f \<noteq> MSG_DvbBurst then Some (m, f, True)
      else do {
        payload \<leftarrow> get_payload f;
        let (m', ok) = update_threshold m (get_modcod_id f) (get_message_type f);
        if \<not> ok then Some (m', f, False)
        else do {
          min_cn \<leftarrow> get_minimal_cn m';
          if \<not> gate_to_be_modified cn_total min_cn then Some (m', f, True)
          else if \<not> gate_modify_packet payload then Some (m', f, False)
          else Some (m', set_corrupted True f, True) } })"

section \<open>The upward channel\<close>

record up_channel = phy_channel +
  up_minimal :: minimal_plugin

record phy_env =
  env_pow :: "rat \<Rightarrow> rat"
  env_log :: "rat \<Rightarrow> rat"
  env_is_gw :: bool
  env_accepts :: "dvb_frame \<Rightarrow> bool"

definition up_get_cn :: "phy_env \<Rightarrow> dvb_frame \<Rightarrow> up_channel \<Rightarrow> rat option" where
  "up_get_cn env f ch = do {
     up \<leftarrow> get_cn f;
     down \<leftarrow> get_current_cn ch;
     Some (compute_total_cn fl64 (env_pow env) (env_log env) up down) }"

definition set_total_cn :: "phy_env \<Rightarrow> dvb_frame \<Rightarrow> up_channel \<Rightarrow> dvb_frame option" where
  "set_total_cn env f ch =
     (if is_cn_capable_frame (get_message_type f)
      then do { cn \<leftarrow> up_get_cn env f ch; g \<leftarrow> set_cn cn f; _ \<leftarrow> get_cn g; Some g }
      else Some f)"

definition attenuate ::
  "dvb_frame \<Rightarrow> up_channel \<Rightarrow> (up_channel \<times> dvb_frame \<times> bool) option" where
  "attenuate f ch =
     (if is_attenuated_frame (get_message_type f)
      then do {
        cn \<leftarrow> get_cn f;
        (m, g, ok) \<leftarrow> attenuation_process f cn (up_minimal ch);
        Some (ch\<lparr>up_minimal := m\<rparr>, g, ok) }
      else Some (ch, f, True))"

definition enqueue_frame ::
  "phy_env \<Rightarrow> dvb_frame \<Rightarrow> 'a phy_channel_scheme \<Rightarrow> 'a phy_channel_scheme \<times> bool" where
  "enqueue_frame env f ch =
     (if env_accepts env f then (ch\<lparr>ph_sent := ph_sent ch @ [f]\<rparr>, True) else (ch, False))"

definition up_forward :: "phy_env \<Rightarrow> up_channel \<Rightarrow> dvb_frame \<Rightarrow> (up_channel \<times> bool) option" where
  "up_forward env ch f = do {
     g \<leftarrow> set_total_cn env f ch;
     (ch', h, ok) \<leftarrow> attenuate g ch;
     Some (if ok then enqueue_frame env h ch' else (ch', False)) }"

datatype phy_timer = Fifo_timer | Attenuation_timer | Delay_timer | Unknown_timer

datatype phy_event = Phy_message dvb_frame | Phy_timer phy_timer | Phy_other

fun phy_up_event ::
  "phy_env \<Rightarrow> time_ms \<Rightarrow> time_ms \<Rightarrow> phy_event \<Rightarrow> up_channel \<Rightarrow> (up_channel \<times> bool) option" where
  "phy_up_event env now delay (Phy_message f) ch =
     (if \<not> env_is_gw env \<and> get_message_type f = MSG_Sac then Some (ch, True)
      else if is_delayed_frame (get_message_type f) then push_packet now delay f ch
      else up_forward env ch f)"
| "phy_up_event env now delay (Phy_timer Fifo_timer) ch = forward_ready (up_forward env) now ch"
| "phy_up_event env now delay (Phy_timer Attenuation_timer) ch = update_attenuation ch"
| "phy_up_event env now delay (Phy_timer Delay_timer) ch = Some (ch, False)"
| "phy_up_event env now delay (Phy_timer Unknown_timer) ch = Some (ch, False)"
| "phy_up_event env now delay Phy_other ch = Some (ch, False)"

section \<open>The downward channel and the block\<close>

definition prepare_packet :: "dvb_frame \<Rightarrow> 'a phy_channel_scheme \<Rightarrow> dvb_frame option" where
  "prepare_packet f ch =
     (if is_cn_capable_frame (get_message_type f)
      then do { cn \<leftarrow> get_current_cn ch; set_cn cn f }
      else Some f)"

definition down_forward :: "phy_env \<Rightarrow> phy_channel \<Rightarrow> dvb_frame \<Rightarrow> (phy_channel \<times> bool) option" where
  "down_forward env ch f = Some (enqueue_frame env f ch)"

definition update_delay :: "delay_plugin \<Rightarrow> (delay_plugin \<times> bool) option" where
  "update_delay d = update_sat_delay d"

fun phy_down_event ::
  "phy_env \<Rightarrow> time_ms \<Rightarrow> phy_event \<Rightarrow> phy_channel \<times> delay_plugin \<Rightarrow>
   ((phy_channel \<times> delay_plugin) \<times> bool) option" where
  "phy_down_event env now (Phy_message f) (ch, d) = do {
     g \<leftarrow> prepare_packet f ch;
     (ch', ok) \<leftarrow> (if is_delayed_frame (get_message_type g) then push_packet now (get_sat_delay d) g ch
                   else down_forward env ch g);
     Some ((ch', d), ok) }"
| "phy_down_event env now (Phy_timer Fifo_timer) (ch, d) = do {
     (ch', ok) \<leftarrow> forward_ready (down_forward env) now ch;
     Some ((ch', d), ok) }"
| "phy_down_event env now (Phy_timer Attenuation_timer) (ch, d) = do {
     (ch', ok) \<leftarrow> update_attenuation ch;
     Some ((ch', d), ok) }"
| "phy_down_event env now (Phy_timer Delay_timer) (ch, d) = do {
     (d', ok) \<leftarrow> update_delay d;
     Some ((ch, d'), ok) }"
| "phy_down_event env now (Phy_timer Unknown_timer) (ch, d) = Some ((ch, d), False)"
| "phy_down_event env now Phy_other (ch, d) = Some ((ch, d), False)"

text \<open>The block: the two channels share the delay model, which the downward channel updates.\<close>

record phy_block =
  phy_up :: up_channel
  phy_down :: phy_channel
  phy_delay :: delay_plugin

definition up_step ::
  "phy_env \<Rightarrow> time_ms \<Rightarrow> phy_event \<Rightarrow> phy_block \<Rightarrow> (phy_block \<times> bool) option" where
  "up_step env now ev b = do {
     (ch, ok) \<leftarrow> phy_up_event env now (get_sat_delay (phy_delay b)) ev (phy_up b);
     Some (b\<lparr>phy_up := ch\<rparr>, ok) }"

definition down_step ::
  "phy_env \<Rightarrow> time_ms \<Rightarrow> phy_event \<Rightarrow> phy_block \<Rightarrow> (phy_block \<times> bool) option" where
  "down_step env now ev b = do {
     ((ch, d), ok) \<leftarrow> phy_down_event env now ev (phy_down b, phy_delay b);
     Some (b\<lparr>phy_down := ch, phy_delay := d\<rparr>, ok) }"

section \<open>The C/N of two links\<close>

text \<open>Without the roundings, the total C/N is below the C/N of both links, and at most three
  decibels (\<open>10 log 2\<close>) below the lower one.\<close>

theorem total_cn_bounds:
  defines "cn \<equiv> compute_total_cn (\<lambda>x. x) (\<lambda>x. 10 powr x) (log 10)"
  shows "cn u d < min u d \<and> min u d - 10 * log 10 2 \<le> cn u d \<and> cn u d = cn d u"
proof -
  define p q where "p = (10 :: real) powr (u / 10)" and "q = (10 :: real) powr (d / 10)"
  define r where "r = 1 / (1 / q + 1 / p)"
  have pos: "0 < p" "0 < q" by (simp_all add: p_def q_def)
  have r: "r = p * q / (p + q)" using pos by (simp add: r_def field_simps)
  have lt: "r < p" "r < q" and r0: "0 < r"
    using pos by (simp_all add: r pos_divide_less_eq add_pos_pos distrib_left mult_pos_pos)
  have half: "min p q / 2 \<le> r"
  proof -
    have "min p q * (p + q) \<le> 2 * (p * q)"
      using pos by (cases "p \<le> q") (auto simp: min_def algebra_simps mult_left_mono)
    then show ?thesis using pos by (simp add: r field_simps)
  qed
  have lp: "log 10 p = u / 10" "log 10 q = d / 10" by (simp_all add: p_def q_def log_powr_cancel)
  have up: "log 10 r < u / 10" "log 10 r < d / 10"
    using lt r0 pos by (simp_all flip: lp)
  have "log 10 (min p q / 2) \<le> log 10 r" using half r0 pos by simp
  then have lo: "min (u / 10) (d / 10) - log 10 2 \<le> log 10 r"
    using pos by (simp add: log_divide min_def lp split: if_splits)
  have cn: "cn u d = 10 * log 10 r" by (simp add: cn_def compute_total_cn_def r_def p_def q_def)
  have "cn u d = cn d u" by (simp add: cn_def compute_total_cn_def add.commute)
  with cn up lo show ?thesis by (auto simp: min_def split: if_splits)
qed

section \<open>The frames of the delay FIFO\<close>

fun forward_all ::
  "('a phy_channel_scheme \<Rightarrow> dvb_frame \<Rightarrow> ('a phy_channel_scheme \<times> bool) option) \<Rightarrow>
   dvb_frame list \<Rightarrow> 'a phy_channel_scheme \<Rightarrow> 'a phy_channel_scheme option" where
  "forward_all fwd [] ch = Some ch"
| "forward_all fwd (f # fs) ch =
     (case fwd ch f of None \<Rightarrow> None | Some (ch', _) \<Rightarrow> forward_all fwd fs ch')"

definition phy_fifo_wf :: "'a phy_channel_scheme \<Rightarrow> bool" where
  "phy_fifo_wf ch \<longleftrightarrow>
     sorted (map tick_out (dqueue (ph_fifo ch))) \<and>
     length (dqueue (ph_fifo ch)) \<le> unat (dmax_size_pkt (ph_fifo ch)) \<and>
     (\<forall>e \<in> set (dqueue (ph_fifo ch)). 0 \<le> tick_out e \<and> tick_out e < 2 ^ 32)"

definition ready_elems :: "time_ms \<Rightarrow> 'a phy_channel_scheme \<Rightarrow> dvb_frame list" where
  "ready_elems now ch = map fe_elem (filter (\<lambda>e. tick_out e \<le> uint now) (dqueue (ph_fifo ch)))"

definition waiting_fifo ::
  "time_ms \<Rightarrow> 'a phy_channel_scheme \<Rightarrow> unit dvb_frame_ext delay_fifo" where
  "waiting_fifo now ch = (ph_fifo ch)\<lparr>dqueue := filter (\<lambda>e. uint now < tick_out e) (dqueue (ph_fifo ch))\<rparr>"

text \<open>A function that forwards a frame whatever the delay FIFO holds, and leaves it alone.\<close>

locale frame_forwarder =
  fixes fwd :: "'a phy_channel_scheme \<Rightarrow> dvb_frame \<Rightarrow> ('a phy_channel_scheme \<times> bool) option"
  assumes fwd_fifo: "fwd (ch\<lparr>ph_fifo := q\<rparr>) f =
    map_option (\<lambda>(c, ok). (c\<lparr>ph_fifo := q\<rparr>, ok)) (fwd ch f)"
begin

lemma fwd_keeps: "fwd ch f = Some (ch', ok) \<Longrightarrow> ph_fifo ch' = ph_fifo ch"
  using fwd_fifo [where ch = ch and q = "ph_fifo ch" and f = f] by (auto dest: arg_cong [of _ _ ph_fifo])

lemma forward_all_fifo:
  "forward_all fwd fs (ch\<lparr>ph_fifo := q\<rparr>) = map_option (\<lambda>c. c\<lparr>ph_fifo := q\<rparr>) (forward_all fwd fs ch)"
proof (induction fs arbitrary: ch)
  case (Cons f fs)
  then show ?case by (cases "fwd ch f") (auto simp: fwd_fifo)
qed simp

lemma forward_ready_eq:
  assumes "phy_fifo_wf ch"
  shows "forward_ready fwd now ch =
    map_option (\<lambda>c. (c\<lparr>ph_fifo := waiting_fifo now ch\<rparr>, True)) (forward_all fwd (ready_elems now ch) ch)"
  using assms
proof (induction "dqueue (ph_fifo ch)" arbitrary: ch)
  case Nil
  then have "delay_current_size (ph_fifo ch) = 0" "waiting_fifo now ch = ph_fifo ch" "ready_elems now ch = []"
    by (simp_all add: delay_current_size_def waiting_fifo_def ready_elems_def Nil.hyps [symmetric])
  then show ?case by (subst forward_ready.simps) simp
next
  case (Cons e es)
  note q = Cons.hyps(2) [symmetric]
  have wf: "sorted (map tick_out (e # es))" "length (e # es) \<le> unat (dmax_size_pkt (ph_fifo ch))"
    "\<forall>x \<in> set (e # es). 0 \<le> tick_out x \<and> tick_out x < 2 ^ 32"
    using Cons.prems unfolding phy_fifo_wf_def q by blast+
  have "Suc (length es) < 2 ^ 16"
    using wf(2) unsigned_less [of "dmax_size_pkt (ph_fifo ch)", where ?'a = nat] by simp
  then have "unat (delay_current_size (ph_fifo ch)) = Suc (length es)"
    by (simp add: delay_current_size_def q unat_of_nat del: of_nat_Suc)
  then have pos: "delay_current_size (ph_fifo ch) > 0" by (simp add: word_less_nat_alt)
  have tick: "(word_of_int (delay_tick_out (ph_fifo ch)) :: 64 word) \<le> ucast now \<longleftrightarrow> tick_out e \<le> uint now"
  proof -
    have "uint (word_of_int (tick_out e) :: 64 word) = tick_out e"
      using wf(3) by (simp add: unsigned_of_int take_bit_int_eq_self)
    moreover have "uint (ucast now :: 64 word) = uint now"
      by (simp add: unsigned_ucast_eq take_bit_int_eq_self order.strict_trans2 [OF unsigned_less])
    ultimately show ?thesis by (simp add: delay_tick_out_def q word_le_def)
  qed
  have pop: "delay_pop (ph_fifo ch) = ((ph_fifo ch)\<lparr>dqueue := es\<rparr>, Some e)"
    by (simp add: delay_pop_def q)
  show ?case
  proof (cases "tick_out e \<le> uint now")
    case False
    then have all: "\<forall>x \<in> set (e # es). uint now < tick_out x" using wf(1) by fastforce
    then have none: "filter (\<lambda>x. tick_out x \<le> uint now) (e # es) = []" by (force simp: filter_empty_conv)
    have keep: "filter (\<lambda>x. uint now < tick_out x) (e # es) = e # es" using all by (simp only: filter_True)
    have "ready_elems now ch = []" unfolding ready_elems_def q none by simp
    moreover have "waiting_fifo now ch = ph_fifo ch" unfolding waiting_fifo_def q keep by (simp flip: q)
    moreover have "forward_ready fwd now ch = Some (ch, True)"
      using False by (subst forward_ready.simps) (simp add: tick)
    ultimately show ?thesis by simp
  next
    case True
    let ?ch = "ch\<lparr>ph_fifo := (ph_fifo ch)\<lparr>dqueue := es\<rparr>\<rparr>"
    have ready: "ready_elems now ch = fe_elem e # ready_elems now ?ch"
      using True by (simp add: ready_elems_def q)
    have wait: "waiting_fifo now ch = waiting_fifo now ?ch"
      using True by (simp add: waiting_fifo_def q)
    show ?thesis
    proof (cases "fwd ch (fe_elem e)")
      case None
      then have "forward_ready fwd now ch = None"
        using True pos by (subst forward_ready.simps) (simp add: tick pop fwd_fifo)
      with None show ?thesis by (simp add: ready)
    next
      case (Some r)
      obtain c ok where r: "r = (c, ok)" by (cases r)
      let ?c = "c\<lparr>ph_fifo := (ph_fifo ch)\<lparr>dqueue := es\<rparr>\<rparr>"
      have "forward_ready fwd now ch = forward_ready fwd now ?c"
        using True pos by (subst forward_ready.simps) (simp add: tick pop fwd_fifo Some r)
      also have "\<dots> = map_option (\<lambda>x. (x\<lparr>ph_fifo := waiting_fifo now ?c\<rparr>, True))
          (forward_all fwd (ready_elems now ?c) ?c)"
      proof (rule Cons.hyps(1))
        show "es = dqueue (ph_fifo ?c)" by simp
        show "phy_fifo_wf ?c" using wf by (simp add: phy_fifo_wf_def)
      qed
      also have "ready_elems now ?c = ready_elems now ?ch" by (simp add: ready_elems_def)
      also have "waiting_fifo now ?c = waiting_fifo now ?ch" by (simp add: waiting_fifo_def)
      finally show ?thesis
        by (simp add: ready wait Some r forward_all_fifo option.map_comp o_def)
    qed
  qed
qed

end

lemma enqueue_frame_fifo [simp]: "ph_fifo (fst (enqueue_frame env f ch)) = ph_fifo ch"
  by (simp add: enqueue_frame_def)

lemma get_current_cn_fifo [simp]: "get_current_cn (ch\<lparr>ph_fifo := q\<rparr>) = get_current_cn ch"
  by (simp add: get_current_cn_def)

interpretation downf: frame_forwarder "down_forward env"
  by unfold_locales (simp add: down_forward_def enqueue_frame_def)

interpretation upf: frame_forwarder "up_forward env"
proof unfold_locales
  fix ch :: up_channel and q f
  have g: "set_total_cn env f (ch\<lparr>ph_fifo := q\<rparr>) = set_total_cn env f ch"
    by (simp add: set_total_cn_def up_get_cn_def)
  have a: "attenuate h (ch\<lparr>ph_fifo := q\<rparr>) = map_option (\<lambda>(c, r). (c\<lparr>ph_fifo := q\<rparr>, r)) (attenuate h ch)" for h
    by (cases "get_cn h"; cases "attenuation_process h (the (get_cn h)) (up_minimal ch)")
       (auto simp: attenuate_def)
  show "up_forward env (ch\<lparr>ph_fifo := q\<rparr>) f =
      map_option (\<lambda>(c, ok). (c\<lparr>ph_fifo := q\<rparr>, ok)) (up_forward env ch f)"
  proof (cases "set_total_cn env f ch")
    case None
    then show ?thesis by (simp add: up_forward_def g)
  next
    case (Some h)
    then show ?thesis
      by (cases "attenuate h ch") (auto simp: up_forward_def g a enqueue_frame_def)
  qed
qed

text \<open>The delay: at a date the FIFO timer forwards, in the order of their output dates, the frames
  whose date has come, and keeps the others.\<close>

lemma down_forward_all:
  "forward_all (down_forward env) fs ch = Some (ch\<lparr>ph_sent := ph_sent ch @ filter (env_accepts env) fs\<rparr>)"
  by (induction fs arbitrary: ch) (simp_all add: down_forward_def enqueue_frame_def)

theorem down_fifo_timer:
  assumes "phy_fifo_wf ch"
  shows "phy_down_event env now (Phy_timer Fifo_timer) (ch, d) =
    Some ((ch\<lparr>ph_fifo := waiting_fifo now ch,
              ph_sent := ph_sent ch @ filter (env_accepts env) (ready_elems now ch)\<rparr>, d), True)"
  by (simp add: downf.forward_ready_eq [OF assms] down_forward_all)

theorem down_fifo_timer_witness:
  "phy_down_event \<lparr>env_pow = \<lambda>_. 1, env_log = \<lambda>_. 0, env_is_gw = False, env_accepts = \<lambda>_. True\<rparr> 20
     (Phy_timer Fifo_timer)
     (\<lparr>ph_clear_sky = 15, ph_attenuation = Ideal \<lparr>att_value = Some 0, att_refresh = 1000, ideal_value = 0\<rparr>,
       ph_fifo = \<lparr>dqueue = [\<lparr>fe_elem = new_bb_frame, tick_in = 0, tick_out = 20\<rparr>,
                          \<lparr>fe_elem = new_rcs_frame, tick_in = 0, tick_out = 21\<rparr>], dmax_size_pkt = 10\<rparr>,
       ph_fifo_period = 1, ph_attenuation_period = 1000, ph_sent = []\<rparr>, Constant_Delay new_sat_delay) =
   Some ((\<lparr>ph_clear_sky = 15, ph_attenuation = Ideal \<lparr>att_value = Some 0, att_refresh = 1000, ideal_value = 0\<rparr>,
       ph_fifo = \<lparr>dqueue = [\<lparr>fe_elem = new_rcs_frame, tick_in = 0, tick_out = 21\<rparr>], dmax_size_pkt = 10\<rparr>,
       ph_fifo_period = 1, ph_attenuation_period = 1000, ph_sent = [new_bb_frame]\<rparr>,
      Constant_Delay new_sat_delay), True)"
  by (subst down_fifo_timer) (simp_all add: phy_fifo_wf_def waiting_fifo_def ready_elems_def)

text \<open>Every event keeps the delay FIFO well formed.\<close>

lemma push_packet_eq:
  assumes "phy_fifo_wf ch"
  shows "\<exists>ch' ok. push_packet now delay f ch = Some (ch', ok) \<and> phy_fifo_wf ch' \<and>
    (ok \<longleftrightarrow> length (dqueue (ph_fifo ch)) < unat (dmax_size_pkt (ph_fifo ch))) \<and>
    ch' = ch\<lparr>ph_fifo := (ph_fifo ch)\<lparr>dqueue :=
      (if ok then place_by_tick \<lparr>fe_elem = f, tick_in = uint now, tick_out = uint (now + delay)\<rparr>
                    (dqueue (ph_fifo ch))
       else dqueue (ph_fifo ch))\<rparr>\<rparr>"
proof -
  let ?q = "dqueue (ph_fifo ch)" and ?m = "unat (dmax_size_pkt (ph_fifo ch))"
  let ?e = "\<lparr>fe_elem = f, tick_in = uint now, tick_out = uint (now + delay)\<rparr>"
  have e: "0 \<le> tick_out ?e" "tick_out ?e < 2 ^ 32"
    using unsigned_less [of "now + delay", where ?'a = int] by simp_all
  have wf: "sorted (map tick_out ?q)" "length ?q \<le> ?m" "\<forall>x \<in> set ?q. 0 \<le> tick_out x \<and> tick_out x < 2 ^ 32"
    using assms by (simp_all add: phy_fifo_wf_def)
  have ms: "mset (place_by_tick ?e ?q) = add_mset ?e (mset ?q)" by (rule delay.mset_place)
  from arg_cong [OF ms, of size] have len: "length (place_by_tick ?e ?q) = Suc (length ?q)" by simp
  from arg_cong [OF ms, of set_mset] have st: "set (place_by_tick ?e ?q) = insert ?e (set ?q)" by simp
  show ?thesis
  proof (cases "length ?q < ?m")
    case True
    have "phy_fifo_wf (ch\<lparr>ph_fifo := (ph_fifo ch)\<lparr>dqueue := place_by_tick ?e ?q\<rparr>\<rparr>)"
      using True e wf place_by_tick_sorted [OF wf(1), of ?e]
      unfolding phy_fifo_wf_def by (simp add: len st)
    with True show ?thesis
      by (intro exI [of _ "ch\<lparr>ph_fifo := (ph_fifo ch)\<lparr>dqueue := place_by_tick ?e ?q\<rparr>\<rparr>"] exI [of _ True])
         (simp add: push_packet_def delay_push_eq)
  next
    case False
    with assms show ?thesis
      by (intro exI [of _ ch] exI [of _ False]) (simp add: push_packet_def delay_push_eq)
  qed
qed

lemma push_packet_wf:
  assumes "phy_fifo_wf ch" "push_packet now delay f ch = Some (ch', ok)"
  shows "phy_fifo_wf ch'"
  using push_packet_eq [OF assms(1), of now delay f] assms(2) by auto

lemma waiting_fifo_wf:
  assumes "phy_fifo_wf ch"
  shows "phy_fifo_wf (c\<lparr>ph_fifo := waiting_fifo now ch\<rparr>)"
proof -
  let ?q = "dqueue (ph_fifo ch)"
  have "length (filter (\<lambda>e. uint now < tick_out e) ?q) \<le> length ?q" by (rule length_filter_le)
  also have "\<dots> \<le> unat (dmax_size_pkt (ph_fifo ch))" using assms by (simp add: phy_fifo_wf_def)
  finally show ?thesis using assms by (simp add: phy_fifo_wf_def waiting_fifo_def sorted_filter)
qed

lemma phy_fifo_wf_cong: "phy_fifo_wf ch \<Longrightarrow> ph_fifo ch' = ph_fifo ch \<Longrightarrow> phy_fifo_wf ch'"
  by (simp add: phy_fifo_wf_def)

lemma update_attenuation_fifo: "update_attenuation ch = Some (ch', ok) \<Longrightarrow> ph_fifo ch' = ph_fifo ch"
  by (auto simp: update_attenuation_def bind_eq_Some_conv Let_def split: if_splits)

lemma up_ready_wf:
  "phy_fifo_wf ch \<Longrightarrow> forward_ready (up_forward env) now ch = Some (ch', ok) \<Longrightarrow> phy_fifo_wf ch'"
  by (auto simp: upf.forward_ready_eq waiting_fifo_wf)

lemma down_ready_wf:
  "phy_fifo_wf ch \<Longrightarrow> forward_ready (down_forward env) now ch = Some (ch', ok) \<Longrightarrow> phy_fifo_wf ch'"
  by (auto simp: downf.forward_ready_eq waiting_fifo_wf)

lemma up_event_wf:
  assumes "phy_fifo_wf ch" "phy_up_event env now delay ev ch = Some (ch', ok)"
  shows "phy_fifo_wf ch'"
proof (cases ev)
  case (Phy_message f)
  with assms show ?thesis
    using push_packet_wf [OF assms(1)] phy_fifo_wf_cong [OF assms(1) upf.fwd_keeps]
    by (simp split: if_splits)
next
  case (Phy_timer t)
  with assms show ?thesis
    using up_ready_wf [OF assms(1)] phy_fifo_wf_cong [OF assms(1) update_attenuation_fifo]
    by (cases t) simp_all
qed (use assms in simp)

lemma down_event_wf:
  assumes "phy_fifo_wf ch" "phy_down_event env now ev (ch, d) = Some ((ch', d'), ok)"
  shows "phy_fifo_wf ch'"
proof (cases ev)
  case (Phy_message f)
  have "down_forward env ch g = Some (c, k) \<Longrightarrow> phy_fifo_wf c" for g c k
    using phy_fifo_wf_cong [OF assms(1)] by (auto simp: down_forward_def enqueue_frame_def split: if_splits)
  with Phy_message assms(2) show ?thesis
    using push_packet_wf [OF assms(1)] by (simp add: bind_eq_Some_conv split: if_splits) blast+
next
  case (Phy_timer t)
  with assms show ?thesis
    using down_ready_wf [OF assms(1)] phy_fifo_wf_cong [OF assms(1) update_attenuation_fifo]
    by (cases t) (auto simp: bind_eq_Some_conv)
qed (use assms in simp)

definition phy_wf :: "phy_block \<Rightarrow> bool" where
  "phy_wf b \<longleftrightarrow> phy_fifo_wf (phy_up b) \<and> phy_fifo_wf (phy_down b)"

text \<open>C13: Every event of the block keeps both delay FIFOs sorted by output date, within their sizes,
  with dates of 32 bits.\<close>

theorem phy_block_wf:
  assumes "phy_wf b"
    and "up_step env now ev b = Some (b', ok) \<or> down_step env now ev b = Some (b', ok)"
  shows "phy_wf b'"
  using assms up_event_wf down_event_wf
  by (auto simp: phy_wf_def up_step_def down_step_def bind_eq_Some_conv)

definition demo_env :: phy_env where
  "demo_env = \<lparr>env_pow = \<lambda>_. 1, env_log = \<lambda>_. 1, env_is_gw = False, env_accepts = \<lambda>_. True\<rparr>"

definition demo_channel :: phy_channel where
  "demo_channel = \<lparr>ph_clear_sky = 15,
     ph_attenuation = Ideal \<lparr>att_value = Some 0, att_refresh = 1000, ideal_value = 0\<rparr>,
     ph_fifo = new_delay_fifo 10, ph_fifo_period = 1, ph_attenuation_period = 1000, ph_sent = []\<rparr>"

definition demo_up :: up_channel where
  "demo_up = phy_channel.extend demo_channel \<lparr>up_minimal = Constant_Min (Some 12)\<rparr>"

lemmas demo_defs = demo_env_def demo_channel_def demo_up_def phy_channel.defs

lemma demo_fifo_wf: "phy_fifo_wf demo_channel" "phy_fifo_wf demo_up"
  by (simp_all add: demo_defs phy_fifo_wf_def new_delay_fifo_def)

theorem phy_block_wf_witness:
  "\<exists>b. down_step demo_env 5 (Phy_timer Attenuation_timer)
        \<lparr>phy_up = demo_up, phy_down = demo_channel, phy_delay = Constant_Delay new_sat_delay\<rparr> = Some (b, True) \<and>
      phy_wf b"
proof -
  let ?b = "\<lparr>phy_up = demo_up, phy_down = demo_channel, phy_delay = Constant_Delay new_sat_delay\<rparr>"
  have "\<exists>b. down_step demo_env 5 (Phy_timer Attenuation_timer) ?b = Some (b, True)"
    by (simp add: down_step_def update_attenuation_def demo_channel_def ideal_update_def)
  then obtain b where b: "down_step demo_env 5 (Phy_timer Attenuation_timer) ?b = Some (b, True)" ..
  moreover have "phy_wf ?b" by (simp add: phy_wf_def demo_fifo_wf)
  ultimately show ?thesis using phy_block_wf [of ?b demo_env 5 "Phy_timer Attenuation_timer" b True] by blast
qed

lemma mod_add_wraps:
  "x < m \<Longrightarrow> y < m \<Longrightarrow> m \<le> x + y \<Longrightarrow> 0 \<le> x \<Longrightarrow> (x + y) mod m = x + y - (m :: int)"
  using mod_pos_pos_trivial [of "x + y - m" m] by simp

text \<open>C24: The dates wrap around every \<open>2 ^ 32\<close> milliseconds: a frame whose output date wraps is
  forwarded by a FIFO timer of the same date, without any delay.\<close>

theorem delay_lost_at_wrap:
  assumes "phy_fifo_wf ch" "length (dqueue (ph_fifo ch)) < unat (dmax_size_pkt (ph_fifo ch))"
    and "2 ^ 32 \<le> uint now + uint delay" "env_accepts env f"
  shows "\<exists>ch1 ch2. push_packet now delay f ch = Some (ch1, True) \<and>
    phy_down_event env now (Phy_timer Fifo_timer) (ch1, d) = Some ((ch2, d), True) \<and>
    f \<in> set (ph_sent ch2)"
proof -
  let ?e = "\<lparr>fe_elem = f, tick_in = uint now, tick_out = uint (now + delay)\<rparr>"
  obtain ch1 where push: "push_packet now delay f ch = Some (ch1, True)" and wf: "phy_fifo_wf ch1"
    and ch1: "ch1 = ch\<lparr>ph_fifo := (ph_fifo ch)\<lparr>dqueue := place_by_tick ?e (dqueue (ph_fifo ch))\<rparr>\<rparr>"
    using push_packet_eq [OF assms(1), of now delay f] assms(2) by auto
  have "uint (now + delay) = uint now + uint delay - 2 ^ 32"
    using assms(3) unsigned_less [of now, where ?'a = int] unsigned_less [of delay, where ?'a = int]
      mod_add_wraps [of "uint now" "2 ^ 32" "uint delay"]
    by (simp only: uint_word_ariths(1)) simp
  then have "uint (now + delay) \<le> uint now"
    using unsigned_less [of delay, where ?'a = int] by simp
  moreover have "set (place_by_tick ?e q) = insert ?e (set q)" for q
    using arg_cong [OF delay.mset_place, of set_mset ?e q] by simp
  ultimately have "f \<in> set (ready_elems now ch1)"
    by (force simp: ready_elems_def ch1)
  with push assms(4) show ?thesis
    by (simp add: downf.forward_ready_eq [OF wf] down_forward_all)
qed

text \<open>A terminal ignores the capacity requests of the others.\<close>

theorem terminal_drops_sac:
  "phy_up_event env now delay (Phy_message f) ch =
     (if get_message_type f = MSG_Sac \<and> \<not> env_is_gw env then Some (ch, True)
      else if get_message_type f = MSG_Sof then up_forward env ch f
      else push_packet now delay f ch)"
  by (simp add: is_delayed_frame_def)

section \<open>The marking of the frames\<close>






theorem delay_lost_at_wrap_witness:
  "\<exists>ch1 ch2. push_packet 4294967295 250 new_bb_frame demo_channel = Some (ch1, True) \<and>
    phy_down_event demo_env 4294967295 (Phy_timer Fifo_timer) (ch1, Constant_Delay new_sat_delay) =
      Some ((ch2, Constant_Delay new_sat_delay), True) \<and>
    new_bb_frame \<in> set (ph_sent ch2)"
  by (rule delay_lost_at_wrap [OF demo_fifo_wf(1)])
     (simp_all add: demo_channel_def new_delay_fifo_def demo_env_def)



end
