(* ===== verification/Band_Plan.thy ===== *)
theory Band_Plan
  imports Carriers Dvb_Frame "HOL-Library.List_Lexorder" "HOL-Library.Char_ord"
begin

text \<open>
  The band of a spot (the templates of \<^verbatim>\<open>opensand-core/src/dvb/core/DvbChannel.h\<close>): the
  categories made from the carriers of the configuration, the number of carriers of each, and the
  transfers of carriers between the default category and another when the operator of a virtual network
  asks for more or less rate.
\<close>

section \<open>The categories of a spot\<close>

record band_carrier =
  bc_access :: carrier_access
  bc_category :: string
  bc_symbol_rate :: rat
  bc_ratios :: "(string, u32) omap"

record band_conf =
  band_khz :: u32
  band_roll_off :: rat
  band_carriers :: "band_carrier list"

record band_state =
  band_categories :: "(string, dama_category) omap"
  band_groups :: "(group_id, fmt_group) omap"
  band_group_id :: group_id

text \<open>The group of a carrier of another access type is a null pointer that nothing reads.\<close>

definition no_group :: fmt_group where
  "no_group = \<lparr>group_members = [], group_modcods = []\<rparr>"

definition new_fmt_group :: "fmt_table \<Rightarrow> string \<Rightarrow> fmt_group" where
  "new_fmt_group t ids = \<lparr>group_members = parse_group t ids, group_modcods = t\<rparr>"

definition add_to_category ::
  "carrier_access \<Rightarrow> u32 \<Rightarrow> fmt_group \<Rightarrow> u32 \<Rightarrow> band_carrier \<Rightarrow> (string, dama_category) omap \<Rightarrow>
   (string, dama_category) omap" where
  "add_to_category access i g ratio bc cats =
     (let c = (case map_of cats (bc_category bc) of
                 None \<Rightarrow> new_category (bc_category bc) access
               | Some c \<Rightarrow> c)
      in omap_put (bc_category bc)
           (add_carriers_group i g ratio (bc_symbol_rate bc) (bc_access bc) c) cats)"

text \<open>The formats of one carrier.\<close>

fun add_formats ::
  "carrier_access \<Rightarrow> fmt_table \<Rightarrow> u32 \<Rightarrow> band_carrier \<Rightarrow> (string \<times> u32) list \<Rightarrow> band_state \<Rightarrow>
   band_state \<times> bool" where
  "add_formats access t i bc [] s = (s, True)"
| "add_formats access t i bc ((ids, ratio) # fs) s =
     (if bc_access bc = access
      then
        (let g = new_fmt_group t ids;
             gid = band_group_id s + 1;
             s1 = s\<lparr>band_group_id := gid, band_groups := omap_put gid g (band_groups s)\<rparr>
         in if (length (bc_ratios bc) > 1 \<or> access = ALOHA) \<and> length (group_members g) > 1
            then (s1, False)
            else add_formats access t i bc fs
              (s1\<lparr>band_categories := add_to_category access i g ratio bc (band_categories s)\<rparr>))
      else add_formats access t i bc fs
        (s\<lparr>band_categories := add_to_category access i no_group ratio bc (band_categories s)\<rparr>))"

fun add_carriers ::
  "carrier_access \<Rightarrow> fmt_table \<Rightarrow> u32 \<Rightarrow> band_carrier list \<Rightarrow> band_state \<Rightarrow> band_state \<times> bool" where
  "add_carriers access t i [] s = (s, True)"
| "add_carriers access t i (bc # bcs) s =
     (let (s', ok) = add_formats access t i bc (bc_ratios bc) s
      in if ok then add_carriers access t (i + 1) bcs s' else (s', False))"

text \<open>The number of carriers of a category is its share of the band, at least 1.\<close>

definition band_weight :: "(string, dama_category) omap \<Rightarrow> rat" where
  "band_weight cats = foldl (\<lambda>s c. fl64 (s + weighted_sum (snd c))) 0 cats"

definition category_share :: "u32 \<Rightarrow> rat \<Rightarrow> rat \<Rightarrow> dama_category \<Rightarrow> u32" where
  "category_share khz roll_off weight c =
     (let n = word_of_int (cround (fl64 (fl64 (num (category_ratio c) / weight) *
                fl64 (num khz / fl64 (1 + roll_off)))))
      in if n = 0 then 1 else n)"

fun plan_categories ::
  "u32 \<Rightarrow> rat \<Rightarrow> time_ms \<Rightarrow> rat \<Rightarrow> (string \<times> dama_category) list \<Rightarrow>
   (string \<times> dama_category) list option" where
  "plan_categories khz roll_off duration weight [] = Some []"
| "plan_categories khz roll_off duration weight ((l, c) # cs) = do {
     c' \<leftarrow> update_carriers_groups (category_share khz roll_off weight c) duration c;
     cs' \<leftarrow> plan_categories khz roll_off duration weight cs;
     Some ((l, c') # cs') }"

definition compute_bandplan ::
  "u32 \<Rightarrow> rat \<Rightarrow> time_ms \<Rightarrow> (string, dama_category) omap \<Rightarrow>
   ((string, dama_category) omap \<times> bool) option" where
  "compute_bandplan khz roll_off duration cats =
     (if band_weight cats = 0 then Some (cats, False)
      else map_option (\<lambda>cs. (cs, True)) (plan_categories khz roll_off duration (band_weight cats) cats))"

record terminal_conf =
  tc_default_category :: string
  tc_terminals :: "(tal_id, spot_id \<times> string) omap"

record band =
  b_categories :: "(string, dama_category) omap"
  b_affectation :: "(tal_id, string option) omap"
  b_default :: "string option"
  b_groups :: "(group_id, fmt_group) omap"

definition affectation ::
  "(string, dama_category) omap \<Rightarrow> terminal_conf \<Rightarrow> (tal_id, string option) omap" where
  "affectation cats tc =
     map (\<lambda>(tal, _, name). (tal, if map_of cats name = None then None else Some name)) (tc_terminals tc)"

definition init_band ::
  "band_conf \<Rightarrow> carrier_access \<Rightarrow> time_ms \<Rightarrow> fmt_table \<Rightarrow> terminal_conf option \<Rightarrow> (band \<times> bool) option" where
  "init_band conf access duration t terminals =
     (let (s, ok) = add_carriers access t 0 (band_carriers conf)
            \<lparr>band_categories = [], band_groups = [], band_group_id = 0\<rparr>;
          b = \<lparr>b_categories = band_categories s, b_affectation = [], b_default = None,
               b_groups = band_groups s\<rparr>
      in if \<not> ok then Some (b, False)
         else do {
           (cats, ok2) \<leftarrow> compute_bandplan (band_khz conf) (band_roll_off conf) duration (band_categories s);
           if \<not> ok2 then Some (b\<lparr>b_categories := cats\<rparr>, False)
           else
             (let kept = filter (\<lambda>c. category_carriers_number (snd c) \<noteq> 0) cats;
                  b1 = b\<lparr>b_categories := kept\<rparr>
              in if kept = [] then Some (b1, True)
                 else (case terminals of
                         None \<Rightarrow> Some (b1, False)
                       | Some tc \<Rightarrow>
                           Some (b1\<lparr>b_default := (if map_of kept (tc_default_category tc) = None then None
                                                else Some (tc_default_category tc)),
                                   b_affectation := affectation kept tc\<rparr>, True))) })"

section \<open>The carriers to transfer\<close>

text \<open>The carriers of a category from the highest symbol rate to the lowest, with how many are left;
  the mark is the second iterator of the source, not initialised at first.\<close>

record transfer =
  tr_rate :: rat
  tr_carriers :: "(rat, u32) omap"
  tr_available :: "(rat \<times> u32) list"
  tr_mark :: "nat option"

text \<open>Below the mark, the groups chosen so far are given back: the number added to the rate and to
  the carriers left is the number of carriers left.\<close>

fun give_back ::
  "(rat \<times> u32) list \<Rightarrow> rat \<Rightarrow> (rat, u32) omap \<Rightarrow> (rat \<times> u32) list \<times> rat \<times> (rat, u32) omap" where
  "give_back [] rate chosen = ([], rate, chosen)"
| "give_back ((r, n) # xs) rate chosen =
     (if map_of chosen r \<noteq> None
      then (case give_back xs (fl64 (rate + fl64 (r * num n))) (omap_del r chosen) of
              (ys, rate', chosen') \<Rightarrow> ((r, n + n) # ys, rate', chosen'))
      else (case give_back xs rate chosen of
              (ys, rate', chosen') \<Rightarrow> ((r, n) # ys, rate', chosen')))"

definition take_marked :: "transfer \<Rightarrow> transfer option" where
  "take_marked s =
     (case tr_mark s of None \<Rightarrow> None
      | Some j \<Rightarrow>
          if length (tr_available s) \<le> j then None
          else
            (let (r, n) = tr_available s ! j;
                 chosen = (case map_of (tr_carriers s) r of
                             None \<Rightarrow> omap_put r 1 (tr_carriers s)
                           | Some k \<Rightarrow> omap_put r (k + 1) (tr_carriers s));
                 (ys, rate, chosen') =
                   give_back (drop (Suc j) (tr_available s)) (fl64 (tr_rate s - r)) chosen
             in Some \<lparr>tr_rate = rate, tr_carriers = chosen',
                      tr_available = take j (tr_available s) @ (r, n - 1) # ys,
                      tr_mark = Some (length (tr_available s))\<rparr>))"

definition take_greedy :: "nat \<Rightarrow> transfer \<Rightarrow> transfer option" where
  "take_greedy i s =
     (let (r, n) = tr_available s ! i in
      if tr_rate s < r then Some (s\<lparr>tr_mark := Some i\<rparr>)
      else if r = 0 then None
      else
        (let q = trunc (of_int \<lfloor>fl64 (tr_rate s / r)\<rfloor>);
             k = (if q > n then n else q);
             left = n - k
         in Some (s\<lparr>tr_rate := fl64 (tr_rate s - fl64 (r * num k)),
                    tr_carriers := (if map_of (tr_carriers s) r = None then omap_put r k (tr_carriers s)
                                    else tr_carriers s),
                    tr_available := (tr_available s)[i := (r, left)],
                    tr_mark := (if k \<noteq> left then Some i else tr_mark s)\<rparr>)))"

text \<open>Once the end of the list is reached, a second look at the mark would read behind it.\<close>

function transfer_loop :: "nat \<Rightarrow> transfer \<Rightarrow> transfer option" where
  "transfer_loop i s =
     (if \<not> 0 < tr_rate s then Some s
      else if length (tr_available s) \<le> i
      then (case take_marked s of None \<Rightarrow> None
            | Some s' \<Rightarrow> if 0 < tr_rate s' then None else Some s')
      else (case take_greedy i s of None \<Rightarrow> None | Some s' \<Rightarrow> transfer_loop (Suc i) s'))"
  by pat_completeness auto
termination
  by (relation "measure (\<lambda>(i, s). length (tr_available s) - i)")
     (auto simp: take_greedy_def Let_def split: prod.splits if_splits)

declare transfer_loop.simps [simp del]

definition carriers_transfer_calculation ::
  "dama_category \<Rightarrow> rat \<Rightarrow> (rat \<times> (rat, u32) omap) option" where
  "carriers_transfer_calculation c rate =
     map_option (\<lambda>s. (tr_rate s, tr_carriers s))
       (transfer_loop 0 \<lparr>tr_rate = rate, tr_carriers = [], tr_available = rev (symbol_rate_list c),
          tr_mark = None\<rparr>)"

section \<open>The transfer\<close>

definition category_fmt_group :: "dama_category \<Rightarrow> fmt_group option" where
  "category_fmt_group c = (case carriers_groups c of [] \<Rightarrow> None | g # _ \<Rightarrow> Some (fmt_group g))"

definition group_or_null :: "dama_category \<Rightarrow> fmt_group" where
  "group_or_null c = (case category_fmt_group c of None \<Rightarrow> no_group | Some g \<Rightarrow> g)"

text \<open>The two categories are named, for they can be the same object.\<close>

fun transfer_carriers ::
  "time_ms \<Rightarrow> string \<Rightarrow> string \<Rightarrow> u32 \<Rightarrow> (rat \<times> u32) list \<Rightarrow> (string, dama_category) omap \<Rightarrow>
   ((string, dama_category) omap \<times> bool) option" where
  "transfer_carriers duration a b i [] cats = Some (cats, True)"
| "transfer_carriers duration a b i ((r, n) # rs) cats =
     (if n = 0 then transfer_carriers duration a b i rs cats
      else do {
        c \<leftarrow> map_of cats a;
        let (c', assoc, ok) = deallocate_carriers r n c;
        let cats1 = omap_put a c' cats;
        if \<not> ok then Some (cats1, False)
        else do {
          d \<leftarrow> map_of cats1 b;
          d' \<leftarrow> add_allocated_group (i + 1) (group_or_null d) n assoc r (desired_access d) duration d;
          transfer_carriers duration a b (i + 1) rs (omap_put b d' cats1) } })"

definition carriers_transfer ::
  "time_ms \<Rightarrow> string \<Rightarrow> string \<Rightarrow> (rat \<times> u32) list \<Rightarrow> (string, dama_category) omap \<Rightarrow>
   ((string, dama_category) omap \<times> bool) option" where
  "carriers_transfer duration a b rs cats = do {
     d \<leftarrow> map_of cats b;
     transfer_carriers duration a b (highest_carrier_id d) rs cats }"

text \<open>The symbol rate that carries a rate with the least robust modulation of a category.\<close>

definition rate_in_symbols :: "dama_category \<Rightarrow> rate_kbps \<Rightarrow> rat option" where
  "rate_in_symbols c rate = do {
     g \<leftarrow> category_fmt_group c;
     i \<leftarrow> get_max_fmt_id (group_members g);
     Some (num (table_kbits_to_sym (group_modcods g) i rate)) }"

definition allocate_band ::
  "time_ms \<Rightarrow> string \<Rightarrow> rate_kbps \<Rightarrow> (string, dama_category) omap \<Rightarrow>
   ((string, dama_category) omap \<times> bool) option" where
  "allocate_band duration label new_rate cats =
     (case map_of cats ''SNO'' of None \<Rightarrow> Some (cats, False)
      | Some sno \<Rightarrow>
     (case map_of cats label of None \<Rightarrow> Some (cats, False)
      | Some c \<Rightarrow> do {
          new_rs \<leftarrow> rate_in_symbols c new_rate;
          let old_rs = category_symbol_rate c;
          if new_rs \<le> old_rs then Some (cats, False)
          else
            (let needed = fl64 (new_rs - old_rs)
             in if category_symbol_rate sno < needed then Some (cats, False)
                else do {
                  (_, carriers) \<leftarrow> carriers_transfer_calculation sno needed;
                  carriers_transfer duration ''SNO'' label carriers cats }) }))"

text \<open>When more was chosen than asked for, one carrier of the lowest rate is kept.\<close>

fun keep_one :: "(rat \<times> u32) list \<Rightarrow> (rat \<times> u32) list option" where
  "keep_one [] = None"
| "keep_one ((r, n) # rs) = Some ((r, n - 1) # rs)"

definition release_band ::
  "time_ms \<Rightarrow> string \<Rightarrow> rate_kbps \<Rightarrow> (string, dama_category) omap \<Rightarrow>
   ((string, dama_category) omap \<times> bool) option" where
  "release_band duration label new_rate cats =
     (case map_of cats ''SNO'' of None \<Rightarrow> Some (cats, False)
      | Some sno \<Rightarrow>
     (case map_of cats label of None \<Rightarrow> Some (cats, False)
      | Some c \<Rightarrow> do {
          new_rs \<leftarrow> rate_in_symbols c new_rate;
          let old_rs = category_symbol_rate c;
          if old_rs \<le> new_rs then Some (cats, False)
          else do {
            (left, carriers) \<leftarrow> carriers_transfer_calculation c (fl64 (old_rs - new_rs));
            rs \<leftarrow> (if left < 0 then keep_one carriers else Some carriers);
            carriers_transfer duration label ''SNO'' rs cats } }))"

section \<open>The carriers of a band\<close>

definition total_carriers :: "rat \<Rightarrow> (string, dama_category) omap \<Rightarrow> nat" where
  "total_carriers r cats = (\<Sum>p \<leftarrow> cats. rate_carriers r (carriers_groups (snd p)))"

lemma sum_omap_put:
  fixes f :: "'v \<Rightarrow> nat"
  assumes "map_of m k = Some u" "omap_wf m"
  shows "(\<Sum>p \<leftarrow> omap_put k v m. f (snd p)) + f u = (\<Sum>p \<leftarrow> m. f (snd p)) + f v"
  using assms
proof (induction k v m rule: omap_put.induct)
  case (2 k v k' v' m)
  show ?case
  proof (cases "k < k'")
    case True
    then have "map_of ((k', v') # m) k = None"
      using 2(3) by (auto simp: omap_wf_Cons map_of_eq_None_iff)
    with 2(2) show ?thesis by simp
  next
    case False
    with 2 show ?thesis by (auto simp: omap_wf_Cons split: if_splits)
  qed
qed simp

lemma total_put:
  assumes "map_of cats l = Some c" "omap_wf cats"
  shows "total_carriers r (omap_put l c' cats) + rate_carriers r (carriers_groups c) =
    total_carriers r cats + rate_carriers r (carriers_groups c')"
  using sum_omap_put [OF assms, of "\<lambda>c. rate_carriers r (carriers_groups c)" c']
  by (simp add: total_carriers_def)

lemma rate_le_total:
  assumes "map_of cats l = Some c"
  shows "rate_carriers r (carriers_groups c) \<le> total_carriers r cats"
  using map_of_SomeD [OF assms] member_le_sum_list
    [of "rate_carriers r (carriers_groups c)" "map (\<lambda>p. rate_carriers r (carriers_groups (snd p))) cats"]
  by (force simp: total_carriers_def)

lemma deallocate_loop_other:
  "deallocate_loop rate number assoc gs = (gs', left, assoc') \<Longrightarrow> r \<noteq> rate \<Longrightarrow>
   rate_carriers r gs' = rate_carriers r gs"
proof (induction rate number assoc gs arbitrary: gs' left assoc' rule: deallocate_loop.induct)
  case (2 rate number assoc g gs)
  then show ?case by (auto simp: Let_def rate_carriers_def split: if_splits prod.splits)
qed (simp add: rate_carriers_def)

lemma deallocate_rate_carriers:
  assumes "deallocate_carriers rate n c = (c', assoc, True)"
  shows "rate_carriers r (carriers_groups c') + (if r = rate then unat n else 0) =
    rate_carriers r (carriers_groups c)"
    "map carriers_id (carriers_groups c') = map carriers_id (carriers_groups c)"
    "desired_access c' = desired_access c" "symbol_rate_list c' = symbol_rate_list c"
proof -
  obtain gs where l: "deallocate_loop rate n 0 (carriers_groups c) = (gs, 0, assoc)"
    "c' = c\<lparr>carriers_groups := gs\<rparr>"
    using assms by (auto simp: deallocate_carriers_def word_gt_0 split: prod.splits)
  show "rate_carriers r (carriers_groups c') + (if r = rate then unat n else 0) =
      rate_carriers r (carriers_groups c)"
    using deallocate_loop_counts [OF l(1)] deallocate_loop_other [OF l(1), of r] l(2) by simp
  have "deallocate_loop rate n as hs = (hs', left, as') \<Longrightarrow> map carriers_id hs' = map carriers_id hs"
    for as hs hs' left as' 
    by (induction rate n as hs arbitrary: hs' left as' rule: deallocate_loop.induct)
       (auto simp: Let_def set_ratio_def set_carriers_number_def split: if_splits prod.splits)
  from this [OF l(1)] l(2)
  show "map carriers_id (carriers_groups c') = map carriers_id (carriers_groups c)"
    "desired_access c' = desired_access c" "symbol_rate_list c' = symbol_rate_list c" by simp_all
qed

lemma add_vcm_to_fresh: "i \<notin> carriers_id ` set gs \<Longrightarrow> add_vcm_to i g ratio gs = None"
  by (induction gs) auto

lemma set_capacity_fields:
  assumes "set_capacity n g = Some g'"
  shows "carriers_number g' = carriers_number g" "symbol_rate_symps g' = symbol_rate_symps g"
    "carriers_id g' = carriers_id g"
  using assms by (auto simp: set_capacity_def split: if_splits)

lemma new_group_fields:
  "symbol_rate_symps (add_vcm g q (new_carriers_dama i g q rate access)) = rate"
  "carriers_id (add_vcm g q (new_carriers_dama i g q rate access)) = i"
  by (simp_all add: add_vcm_def new_carriers_dama_def new_dama_group_def new_carriers_group_def
      dama_group.defs carriers_group.defs)

lemma rate_carriers_update:
  assumes "k < length gs" "symbol_rate_symps g = symbol_rate_symps (gs ! k)"
  shows "rate_carriers r (gs[k := g]) +
      (if symbol_rate_symps (gs ! k) = r then unat (carriers_number (gs ! k)) else 0) =
    rate_carriers r gs + (if symbol_rate_symps (gs ! k) = r then unat (carriers_number g) else 0)"
  using assms
proof (induction gs arbitrary: k)
  case (Cons h hs)
  show ?case
  proof (cases k)
    case 0
    with Cons.prems show ?thesis by (simp add: rate_carriers_def)
  next
    case (Suc j)
    with Cons.IH [of j] Cons.prems show ?thesis by (auto simp: rate_carriers_def)
  qed
qed simp

lemma rate_carriers_nth:
  "k < length gs \<Longrightarrow> unat (carriers_number (gs ! k)) \<le> rate_carriers (symbol_rate_symps (gs ! k)) gs"
  unfolding rate_carriers_def by (intro member_le_sum_list) (auto simp: in_set_conv_nth)

lemma allocated_rate_carriers:
  assumes "add_allocated_group i g n q rate (desired_access d) duration d = Some d'"
    and "i \<notin> carriers_id ` set (carriers_groups d)"
    and "rate_carriers rate (carriers_groups d) + unat n < 2 ^ 32"
  shows "rate_carriers r (carriers_groups d') =
      rate_carriers r (carriers_groups d) + (if r = rate then unat n else 0)"
    "carriers_id ` set (carriers_groups d') \<subseteq> insert i (carriers_id ` set (carriers_groups d))"
proof -
  let ?gs = "carriers_groups d"
  have "rate_carriers r (carriers_groups d') = rate_carriers r ?gs + (if r = rate then unat n else 0) \<and>
    carriers_id ` set (carriers_groups d') \<subseteq> insert i (carriers_id ` set ?gs)"
  proof (cases "search_carriers_group d rate")
    case None
    then obtain grp where grp: "set_capacity (cfloor (fl64 (fl64 (rate * num duration) / 1000)))
        (set_carriers_number n (add_vcm g q (new_carriers_dama i g q rate (desired_access d)))) = Some grp"
      "carriers_groups d' = ?gs @ [grp]"
      using assms(1) add_vcm_to_fresh [OF assms(2), of g q]
      by (auto simp: add_allocated_group_def split: option.splits)
    have "carriers_id (set_carriers_number n x) = carriers_id x" for x
      by (simp add: set_carriers_number_def)
    with set_capacity_fields [OF grp(1)] show ?thesis
      by (simp add: grp(2) rate_carriers_def new_group_fields)
  next
    case (Some k)
    then have "k \<in> set (filter (\<lambda>i. symbol_rate_symps (?gs ! i) = rate) [0..<length ?gs])"
      by (auto simp only: search_carriers_group_def Let_def list.set_intros option.inject
          option.distinct split: list.splits)
    then have k: "k < length ?gs" "symbol_rate_symps (?gs ! k) = rate" by simp_all
    let ?g = "set_ratio (q + carriers_ratio (?gs ! k))
      (set_carriers_number (n + carriers_number (?gs ! k)) (?gs ! k))"
    have d': "carriers_groups d' = ?gs[k := ?g]"
      using assms(1) Some by (auto simp: add_allocated_group_def Let_def)
    have "unat (carriers_number (?gs ! k)) \<le> rate_carriers rate ?gs"
      using rate_carriers_nth [OF k(1)] k(2) by simp
    with assms(3) have n: "unat (n + carriers_number (?gs ! k)) = unat n + unat (carriers_number (?gs ! k))"
      by (intro unat_add_small) simp
    have "carriers_id ?g = carriers_id (?gs ! k)" by (simp add: set_ratio_def set_carriers_number_def)
    then have "carriers_id ` set (?gs[k := ?g]) \<subseteq> carriers_id ` set ?gs"
      using k(1) set_update_subset_insert [of ?gs k ?g] by fastforce
    moreover have "rate_carriers r (?gs[k := ?g]) = rate_carriers r ?gs + (if r = rate then unat n else 0)"
      using rate_carriers_update [OF k(1), of ?g r] k(2) n by (auto split: if_splits)
    ultimately show ?thesis by (auto simp: d')
  qed
  then show "rate_carriers r (carriers_groups d') =
      rate_carriers r ?gs + (if r = rate then unat n else 0)"
    "carriers_id ` set (carriers_groups d') \<subseteq> insert i (carriers_id ` set ?gs)" by simp_all
qed

lemma foldl_highest:
  "m \<le> foldl (\<lambda>m g. if carriers_id g > m then carriers_id g else m) m gs \<and>
   (\<forall>g \<in> set gs. carriers_id g \<le> foldl (\<lambda>m g. if carriers_id g > m then carriers_id g else m) m gs)"
proof (induction gs arbitrary: m)
  case (Cons g gs)
  let ?m = "if carriers_id g > m then carriers_id g else m"
  let ?f = "foldl (\<lambda>m g. if carriers_id g > m then carriers_id g else m) ?m gs"
  have "m \<le> ?m" "carriers_id g \<le> ?m" by auto
  moreover have "?m \<le> ?f" using Cons.IH [of ?m] by blast
  ultimately have "m \<le> ?f" "carriers_id g \<le> ?f" using order_trans by blast+
  with Cons.IH [of ?m] show ?case by (simp only: foldl_Cons list.set ball_simps simp_thms) blast
qed simp

lemma highest_carrier: "g \<in> set (carriers_groups c) \<Longrightarrow> carriers_id g \<le> highest_carrier_id c"
  using foldl_highest [of 0 "carriers_groups c"] by (simp add: highest_carrier_id_def)

text \<open>One group of carriers, taken from a category and given to another.\<close>

lemma transfer_step:
  assumes "map_of cats a = Some c" "deallocate_carriers r n c = (c', assoc, True)"
    and "map_of (omap_put a c' cats) b = Some d"
    and "add_allocated_group i g n assoc r (desired_access d) duration d = Some d'"
    and "omap_wf cats" "\<forall>r. total_carriers r cats < 2 ^ 32"
    and "\<forall>d. map_of cats b = Some d \<longrightarrow> i \<notin> carriers_id ` set (carriers_groups d)"
  shows "total_carriers x (omap_put b d' (omap_put a c' cats)) = total_carriers x cats"
    "carriers_id ` set (carriers_groups d') \<subseteq>
      insert i (carriers_id ` set (carriers_groups (the (map_of cats b))))"
    "map_of cats b \<noteq> None"
proof -
  let ?cats1 = "omap_put a c' cats"
  have wf: "omap_wf ?cats1" using assms(5) by (rule omap_put_wf)
  note de = deallocate_rate_carriers [OF assms(2)]
  have t1: "total_carriers y ?cats1 + (if y = r then unat n else 0) = total_carriers y cats" for y
    using total_put [OF assms(1,5), of y c'] de(1) [of y] by simp
  have d: "(b = a \<longrightarrow> d = c') \<and> (b \<noteq> a \<longrightarrow> map_of cats b = Some d)"
    using assms(3) by (simp add: map_of_omap_put split: if_splits)
  have ids: "\<exists>e. map_of cats b = Some e \<and> carriers_id ` set (carriers_groups d) = carriers_id ` set (carriers_groups e)"
  proof (cases "b = a")
    case True
    with d assms(1) arg_cong [OF de(2), of set] show ?thesis by auto
  next
    case False
    with d show ?thesis by auto
  qed
  then obtain e where e: "map_of cats b = Some e"
    "carriers_id ` set (carriers_groups d) = carriers_id ` set (carriers_groups e)" by blast
  have fresh: "i \<notin> carriers_id ` set (carriers_groups d)" using assms(7) e by blast
  have "rate_carriers r (carriers_groups d) \<le> total_carriers r ?cats1"
    using assms(3) by (rule rate_le_total)
  then have "rate_carriers r (carriers_groups d) + unat n \<le> total_carriers r cats"
    using t1 [of r] by simp
  then have "rate_carriers r (carriers_groups d) + unat n < 2 ^ 32"
    using assms(6) by (meson order.strict_trans1)
  note al = allocated_rate_carriers [OF assms(4) fresh this]
  show "total_carriers x (omap_put b d' ?cats1) = total_carriers x cats"
    using total_put [OF assms(3) wf, of x d'] al(1) [of x] t1 [of x] by simp
  show "carriers_id ` set (carriers_groups d') \<subseteq>
      insert i (carriers_id ` set (carriers_groups (the (map_of cats b))))" "map_of cats b \<noteq> None"
    using al(2) e by auto
qed

lemma transfer_carriers_total:
  assumes "transfer_carriers duration a b i rs cats = Some (cats', True)" "omap_wf cats"
    and "\<forall>r. total_carriers r cats < 2 ^ 32"
    and "\<forall>d. map_of cats b = Some d \<longrightarrow> (\<forall>g \<in> set (carriers_groups d). carriers_id g \<le> i)"
    and "unat i + length rs < 2 ^ 32"
  shows "total_carriers x cats' = total_carriers x cats"
  using assms
proof (induction duration a b i rs cats rule: transfer_carriers.induct)
  case (2 duration a b i r n rs cats)
  show ?case
  proof (cases "n = 0")
    case True
    with 2 show ?thesis by simp
  next
    case False
    obtain c where ca: "map_of cats a = Some c" using 2(3) False by (auto simp: bind_eq_Some_conv)
    obtain c' assoc ok where de: "deallocate_carriers r n c = (c', assoc, ok)"
      by (cases "deallocate_carriers r n c")
    have ok using 2(3) False ca de by (auto simp: Let_def split: if_splits)
    with ca de have c: "map_of cats a = Some c" "deallocate_carriers r n c = (c', assoc, True)" by simp_all
    obtain d d' where d: "map_of (omap_put a c' cats) b = Some d"
      "add_allocated_group (i + 1) (group_or_null d) n assoc r (desired_access d) duration d = Some d'"
      "transfer_carriers duration a b (i + 1) rs (omap_put b d' (omap_put a c' cats)) = Some (cats', True)"
      using 2(3) False c by (auto simp: bind_eq_Some_conv Let_def)
    have i: "unat (i + 1) = unat i + 1" using 2(7) unat_add_small [of i 1] by simp
    have "\<not> i + 1 \<le> i" by (simp add: word_le_nat_alt i)
    then have "\<forall>d. map_of cats b = Some d \<longrightarrow> i + 1 \<notin> carriers_id ` set (carriers_groups d)"
      using 2(6) by auto
    note st = transfer_step [OF c d(1,2) 2(4,5) this]
    have "total_carriers x cats' = total_carriers x (omap_put b d' (omap_put a c' cats))"
    proof (rule 2(2) [OF False c(1) c(2) [symmetric] refl refl refl _ d])
      show "omap_wf (omap_put b d' (omap_put a c' cats))" using 2(4) by (intro omap_put_wf)
      show "\<forall>r. total_carriers r (omap_put b d' (omap_put a c' cats)) < 2 ^ 32"
        using st(1) 2(5) by simp
      show "unat (i + 1) + length rs < 2 ^ 32" using 2(7) i by simp
      obtain e where "map_of cats b = Some e" using st(3) by blast
      with st(2) 2(6) have "\<forall>g \<in> set (carriers_groups d'). carriers_id g \<le> i \<or> carriers_id g = i + 1"
        by auto
      then show "\<forall>f. map_of (omap_put b d' (omap_put a c' cats)) b = Some f \<longrightarrow>
          (\<forall>g \<in> set (carriers_groups f). carriers_id g \<le> i + 1)"
        by (auto simp: map_of_omap_put word_le_nat_alt i)
    qed simp
    with st(1) show ?thesis by simp
  qed
qed simp

text \<open>C9: A transfer that succeeds moves carriers from one category to the other: for every symbol
  rate all categories have together as many carriers as before.\<close>

theorem transfer_conserves_carriers:
  assumes "carriers_transfer duration a b rs cats = Some (cats', True)" "omap_wf cats"
    and "\<forall>r. total_carriers r cats < 2 ^ 32"
    and "\<forall>d. map_of cats b = Some d \<longrightarrow> unat (highest_carrier_id d) + length rs < 2 ^ 32"
  shows "\<forall>r. total_carriers r cats' = total_carriers r cats"
proof -
  obtain d where d: "map_of cats b = Some d"
    "transfer_carriers duration a b (highest_carrier_id d) rs cats = Some (cats', True)"
    using assms(1) by (auto simp: carriers_transfer_def bind_eq_Some_conv)
  show ?thesis
    using transfer_carriers_total [OF d(2) assms(2,3)] d(1) assms(4) highest_carrier by auto
qed

text \<open>A band whose default category has two carriers of ten symbols per second and two of four.\<close>

definition demo_group :: "u32 \<Rightarrow> rat \<Rightarrow> u32 \<Rightarrow> carriers_dama" where
  "demo_group i rate n = set_carriers_number n (new_carriers_dama i no_group 1 rate DAMA)"

definition demo_sno :: dama_category where
  "demo_sno = (new_category ''SNO'' DAMA)
     \<lparr>carriers_groups := [demo_group 0 10 2, demo_group 1 4 2], symbol_rate_list := [(4, 2), (10, 2)]\<rparr>"

definition demo_other :: dama_category where
  "demo_other = (new_category ''Gold'' DAMA)
     \<lparr>carriers_groups := [demo_group 2 10 1], symbol_rate_list := [(10, 1)]\<rparr>"

definition demo_band :: "(string, dama_category) omap" where
  "demo_band = [(''Gold'', demo_other), (''SNO'', demo_sno)]"

lemma demo_fields [simp]:
  "carriers_number (demo_group i rate n) = n" "symbol_rate_symps (demo_group i rate n) = rate"
  "carriers_id (demo_group i rate n) = i"
  by (simp_all add: demo_group_def set_carriers_number_def new_carriers_dama_def new_dama_group_def
      new_carriers_group_def dama_group.defs carriers_group.defs)

lemma demo_band_carriers:
  "total_carriers r demo_band = (if r = 10 then 3 else if r = 4 then 2 else 0)"
  by (simp add: total_carriers_def demo_band_def demo_sno_def demo_other_def rate_carriers_def new_category_def)

lemma demo_band_wf: "omap_wf demo_band"
  by (simp add: omap_wf_def demo_band_def)

theorem transfer_conserves_carriers_witness:
  "\<exists>cats'. carriers_transfer 10 ''SNO'' ''Gold'' [(10, 1)] demo_band = Some (cats', True) \<and>
     total_carriers 10 cats' = 3"
proof -
  have "map_option snd (carriers_transfer 10 ''SNO'' ''Gold'' [(10, 1)] demo_band) = Some True"
    by code_simp
  then have "\<exists>cats'. carriers_transfer 10 ''SNO'' ''Gold'' [(10, 1)] demo_band = Some (cats', True)"
    by auto
  then obtain cats' where c: "carriers_transfer 10 ''SNO'' ''Gold'' [(10, 1)] demo_band = Some (cats', True)" ..
  have "\<forall>d. map_of demo_band ''Gold'' = Some d \<longrightarrow> unat (highest_carrier_id d) + length [(10 :: rat, 1 :: u32)] < 2 ^ 32"
    by (simp add: demo_band_def demo_other_def highest_carrier_id_def new_category_def)
  moreover have "\<forall>r. total_carriers r demo_band < 2 ^ 32" by (simp add: demo_band_carriers)
  ultimately have "\<forall>r. total_carriers r cats' = total_carriers r demo_band"
    by (intro transfer_conserves_carriers [OF c demo_band_wf])
  with c show ?thesis by (auto simp: demo_band_carriers)
qed

theorem calculation_faults:
  "carriers_transfer_calculation (demo_sno\<lparr>symbol_rate_list := [(10, 4)]\<rparr>) 25 = None"
  by code_simp

section \<open>The calculation of a transfer\<close>

text \<open>What is left of a rate when the carriers are taken from the highest symbol rate down.\<close>

fun greedy_left :: "int \<Rightarrow> (int \<times> u32) list \<Rightarrow> int" where
  "greedy_left R [] = R"
| "greedy_left R ((r, n) # xs) = greedy_left (R - r * min (R div r) (uint n)) xs"

definition chosen_rate :: "(rat, u32) omap \<Rightarrow> rat" where
  "chosen_rate m = (\<Sum>p \<leftarrow> m. fst p * num (snd p))"

lemma chosen_rate_put:
  "map_of m r = None \<Longrightarrow> chosen_rate (omap_put r k m) = chosen_rate m + r * num k"
  by (induction r k m rule: omap_put.induct) (auto simp: chosen_rate_def split: if_splits)

lemma omap_put_entries: "set (omap_put k v m) \<subseteq> insert (k, v) (set m)"
  by (induction k v m rule: omap_put.induct) auto

text \<open>The quotient of two integers, rounded, has the floor of the exact one.\<close>

lemma floor_fl_div:
  assumes "0 \<le> R" "R < 2 ^ 53" "0 < r"
  shows "\<lfloor>fl64 (of_int R / of_int r)\<rfloor> = R div r"
proof (cases "R mod r = 0")
  case True
  then have "R = r * (R div r)" by (simp add: mod_0_imp_dvd)
  then have q: "rat_of_int R / of_int r = of_int (R div r)"
    using assms(3) by (metis nonzero_mult_div_cancel_left of_int_0_eq_iff of_int_mult order_less_irrefl)
  have "R div r \<le> R" using assms(1,3) by (metis div_by_1 int_one_le_iff_zero_less zdiv_mono2 zero_less_one)
  moreover have "0 \<le> R div r" using assms(1,3) by (simp add: pos_imp_zdiv_nonneg_iff)
  ultimately have "fl64 (of_int (R div r)) = of_int (R div r)"
    using assms(2) by (intro fl_of_int) simp
  then show ?thesis by (simp add: q)
next
  case False
  define x where "x = rat_of_int R / of_int r"
  have r: "0 < rat_of_int r" using assms(3) by simp
  have m: "0 < R mod r" "R mod r < r" using assms(3) False by (simp_all add: order.not_eq_order_implies_strict pos_mod_sign)
  have R: "R = r * (R div r) + R mod r" by simp
  have xq: "x = of_int (R div r) + of_int (R mod r) / of_int r"
  proof -
    have "x = of_int (r * (R div r) + R mod r) / of_int r" unfolding x_def by (subst R) (rule refl)
    also have "\<dots> = of_int (R div r) + of_int (R mod r) / of_int r"
      using r by (simp only: of_int_add of_int_mult) (simp add: add_divide_distrib)
    finally show ?thesis .
  qed
  have lo: "of_int (R div r) + 1 / of_int r \<le> x"
    unfolding xq using m(1) r by (simp add: divide_right_mono)
  have hi: "x \<le> of_int (R div r) + 1 - 1 / of_int r"
  proof -
    have "R mod r \<le> r - 1" using m(2) by simp
    then have "rat_of_int (R mod r) \<le> of_int (r - 1)" by (simp only: of_int_le_iff)
    then have "rat_of_int (R mod r) \<le> of_int r - 1" by simp
    then have "rat_of_int (R mod r) / of_int r \<le> (of_int r - 1) / of_int r"
      using r by (simp add: divide_right_mono)
    then show ?thesis unfolding xq using r by (simp add: diff_divide_distrib)
  qed
  have "rat_of_int R < 2 ^ 53" using assms(2) by (metis of_int_less_iff of_int_numeral of_int_power)
  then have "rat_of_int R / 2 ^ 53 < 1" by simp
  then have "rat_of_int R / 2 ^ 53 / of_int r < 1 / of_int r" using r by (intro divide_strict_right_mono) simp_all
  then have e: "x / 2 ^ 53 < 1 / of_int r" by (simp add: x_def)
  have x0: "0 \<le> x" using assms(1) r by (simp add: x_def)
  have "\<bar>fl64 x - x\<bar> \<le> x / 2 ^ 53" using fl_error [of 53 x] x0 by simp
  then have "of_int (R div r) \<le> fl64 x" "fl64 x < of_int (R div r) + 1"
    using e lo hi by (simp_all only: abs_le_iff) linarith+
  then show ?thesis by (simp add: floor_eq_iff x_def)
qed

lemma share_bounds:
  assumes "0 \<le> R" "0 < (r :: int)" "0 \<le> n"
  shows "0 \<le> R div r" "R div r \<le> R" "0 \<le> r * min (R div r) n" "r * min (R div r) n \<le> R"
proof -
  show q: "0 \<le> R div r" using assms(1,2) by (simp add: pos_imp_zdiv_nonneg_iff)
  show "R div r \<le> R" using zdiv_mono2 [of R 1 r] assms(1,2) by simp
  show "0 \<le> r * min (R div r) n" using q assms(2,3) by simp
  have "r * min (R div r) n \<le> r * (R div r)" using assms(2) by (intro mult_left_mono) simp_all
  also have "\<dots> \<le> R" using pos_mod_sign [OF assms(2), of R] mult_div_mod_eq [of r R] by linarith
  finally show "r * min (R div r) n \<le> R" .
qed

lemma take_greedy_takes:
  assumes "tr_available s ! i = (of_int r, n)" "tr_rate s = of_int R"
    and "r \<le> R" "R < 2 ^ 32" "0 < r" "map_of (tr_carriers s) (of_int r) = None"
  obtains k where "uint k = min (R div r) (uint n)" "k \<le> n"
    "take_greedy i s = Some (s\<lparr>tr_rate := of_int (R - r * uint k),
      tr_carriers := omap_put (of_int r) k (tr_carriers s),
      tr_available := (tr_available s)[i := (of_int r, n - k)],
      tr_mark := (if k \<noteq> n - k then Some i else tr_mark s)\<rparr>)"
proof -
  from assms(3,5) have R0: "0 \<le> R" by simp
  define q where "q = (trunc (of_int \<lfloor>fl64 (of_int R / of_int r)\<rfloor>) :: u32)"
  define k where "k = (if q > n then n else q)"
  have fq: "\<lfloor>fl64 (rat_of_int R / of_int r)\<rfloor> = R div r"
    using R0 assms(4,5) by (intro floor_fl_div) simp_all
  note d = share_bounds [OF R0 assms(5), of "uint n"]
  have uq: "uint q = R div r"
    using d assms(4) by (simp add: q_def fq trunc_def unsigned_of_int take_bit_int_eq_self)
  have uk: "uint k = min (R div r) (uint n)"
    by (auto simp: k_def word_less_def min_def simp flip: uq)
  have kn: "k \<le> n" by (simp add: k_def word_le_nat_alt word_less_nat_alt)
  have rk: "0 \<le> r * uint k" "r * uint k \<le> R"
    unfolding uk by (rule d(3), simp, rule d(4), simp)
  have nk: "num k = of_int (uint k)" by (simp only: num_def uint_nat of_int_of_nat_eq)
  have f1: "fl64 (of_int r * num k) = of_int (r * uint k)"
    using rk assms(4) fl_of_int [of "r * uint k" 53] by (simp add: nk)
  have f2: "fl64 (of_int R - of_int (r * uint k)) = of_int (R - r * uint k)"
    using rk assms(4) fl_of_int [of "R - r * uint k" 53] by simp
  have "take_greedy i s = Some (s\<lparr>tr_rate := of_int (R - r * uint k),
      tr_carriers := omap_put (of_int r) k (tr_carriers s),
      tr_available := (tr_available s)[i := (of_int r, n - k)],
      tr_mark := (if k \<noteq> n - k then Some i else tr_mark s)\<rparr>)"
    using assms(1-3,5,6)
    by (simp add: take_greedy_def Let_def f1 f2 q_def [symmetric] k_def [symmetric] del: of_int_diff of_int_mult)
  with uk kn show ?thesis by (rule that)
qed

lemma take_greedy_int:
  assumes "tr_available s ! i = (of_int r, n)" "tr_rate s = of_int R"
    and "0 \<le> R" "R < 2 ^ 32" "0 < r" "map_of (tr_carriers s) (of_int r) = None"
  shows "\<exists>s' k. take_greedy i s = Some s' \<and> k \<le> n \<and>
    tr_rate s' = of_int (R - r * min (R div r) (uint n)) \<and>
    (\<forall>j \<noteq> i. tr_available s' ! j = tr_available s ! j) \<and>
    length (tr_available s') = length (tr_available s) \<and>
    chosen_rate (tr_carriers s') + tr_rate s' = chosen_rate (tr_carriers s) + of_int R \<and>
    set (tr_carriers s') \<subseteq> insert (of_int r, k) (set (tr_carriers s))"
proof (cases "R < r")
  case True
  then have "R div r = 0" using assms(3) by (simp add: div_pos_pos_trivial)
  with True assms show ?thesis
    by (intro exI [of _ "s\<lparr>tr_mark := Some i\<rparr>"] exI [of _ 0]) (auto simp: take_greedy_def)
next
  case False
  then have "r \<le> R" by simp
  obtain k where uk: "uint k = min (R div r) (uint n)" and kn: "k \<le> n"
    and take: "take_greedy i s = Some (s\<lparr>tr_rate := of_int (R - r * uint k),
      tr_carriers := omap_put (of_int r) k (tr_carriers s),
      tr_available := (tr_available s)[i := (of_int r, n - k)],
      tr_mark := (if k \<noteq> n - k then Some i else tr_mark s)\<rparr>)" (is "_ = Some ?s")
    by (rule take_greedy_takes [OF assms(1,2) \<open>r \<le> R\<close> assms(4-6)])
  have nk: "num k = of_int (uint k)" by (simp only: num_def uint_nat of_int_of_nat_eq)
  have "chosen_rate (tr_carriers ?s) + tr_rate ?s = chosen_rate (tr_carriers s) + of_int R"
    using chosen_rate_put [OF assms(6), of k] by (simp add: nk)
  with take show ?thesis
    using kn omap_put_entries [of "rat_of_int r" k "tr_carriers s"]
    by (intro exI [of _ ?s] exI [of _ k]) (simp add: uk del: of_int_diff of_int_mult)
qed

definition as_rates :: "(int \<times> u32) list \<Rightarrow> (rat \<times> u32) list" where
  "as_rates xs = map (\<lambda>(r, n). (of_int r, n)) xs"

lemma greedy_left_0: "0 < fst x \<Longrightarrow> greedy_left 0 (x # xs) = greedy_left 0 xs"
  by (cases x) simp

text \<open>Carriers of which no more are taken than there are.\<close>

definition part_of :: "(int \<times> u32) list \<Rightarrow> (rat \<times> u32) set" where
  "part_of ys = {(of_int r, k) | r k. \<exists>n. (r, n) \<in> set ys \<and> k \<le> n}"

lemma part_of_mono: "part_of ys \<subseteq> part_of (y # ys)"
  by (auto simp: part_of_def)

lemma part_of_Cons: "k \<le> n \<Longrightarrow> (of_int r, k) \<in> part_of ((r, n) # ys)"
  by (auto simp: part_of_def)

lemma transfer_loop_exact:
  assumes "drop i (tr_available s) = as_rates ys" "tr_rate s = of_int R" "0 \<le> R" "R < 2 ^ 32"
    and "\<forall>y \<in> set ys. 0 < fst y" "distinct (map fst ys)" "greedy_left R ys = 0"
    and "\<forall>y \<in> set ys. map_of (tr_carriers s) (of_int (fst y)) = None"
  shows "\<exists>s'. transfer_loop i s = Some s' \<and> tr_rate s' = 0 \<and>
    chosen_rate (tr_carriers s') = chosen_rate (tr_carriers s) + of_int R \<and>
    set (tr_carriers s') \<subseteq> set (tr_carriers s) \<union> part_of ys"
  using assms
proof (induction ys arbitrary: i s R)
  case Nil
  then have "R = 0" by simp
  with Nil show ?case by (simp add: transfer_loop.simps)
next
  case (Cons y ys)
  obtain r n where y: "y = (r, n)" by (cases y)
  show ?case
  proof (cases "R = 0")
    case True
    with Cons.prems(2) show ?thesis by (auto simp: transfer_loop.simps [of i s])
  next
    case False
    then have R: "0 < R" using Cons.prems(3) by simp
    have dr: "drop i (tr_available s) = (of_int r, n) # as_rates ys"
      using Cons.prems(1) by (simp add: as_rates_def y)
    have il: "i < length (tr_available s)" using dr by (metis drop_all list.distinct(1) not_less)
    have ii: "tr_available s ! i = (of_int r, n)" using nth_via_drop [OF dr] by simp
    have ys: "drop (Suc i) (tr_available s) = as_rates ys"
      using dr by (metis drop_Suc list.sel(3) tl_drop)
    have r: "0 < r" "map_of (tr_carriers s) (of_int r) = None"
      using Cons.prems(5,8) by (simp_all add: y)
    let ?R = "R - r * min (R div r) (uint n)"
    obtain s1 k where s1: "take_greedy i s = Some s1" "k \<le> n" "tr_rate s1 = of_int ?R"
      "\<forall>j \<noteq> i. tr_available s1 ! j = tr_available s ! j" "length (tr_available s1) = length (tr_available s)"
      "chosen_rate (tr_carriers s1) + tr_rate s1 = chosen_rate (tr_carriers s) + of_int R"
      "set (tr_carriers s1) \<subseteq> insert (of_int r, k) (set (tr_carriers s))"
      using take_greedy_int [OF ii Cons.prems(2-4) r] by blast
    have loop: "transfer_loop i s = transfer_loop (Suc i) s1"
      using R il s1(1) Cons.prems(2) by (simp add: transfer_loop.simps [of i s])
    have d1: "drop (Suc i) (tr_available s1) = as_rates ys"
      unfolding ys [symmetric] by (rule nth_equalityI) (simp_all add: s1(4,5))
    have n0: "0 \<le> uint n" by simp
    have R1: "0 \<le> ?R" "?R < 2 ^ 32"
      using share_bounds(3,4) [OF Cons.prems(3) r(1) n0] Cons.prems(4) by linarith+
    have "\<exists>s'. transfer_loop (Suc i) s1 = Some s' \<and> tr_rate s' = 0 \<and>
      chosen_rate (tr_carriers s') = chosen_rate (tr_carriers s1) + of_int ?R \<and>
      set (tr_carriers s') \<subseteq> set (tr_carriers s1) \<union> part_of ys"
    proof (rule Cons.IH [OF d1 s1(3) R1])
      show "\<forall>y \<in> set ys. 0 < fst y" "distinct (map fst ys)" "greedy_left ?R ys = 0"
        using Cons.prems(5-7) by (simp_all add: y)
      show "\<forall>z \<in> set ys. map_of (tr_carriers s1) (of_int (fst z)) = None"
      proof
        fix z assume z: "z \<in> set ys"
        with Cons.prems(6) have "fst z \<noteq> r" by (auto simp: y)
        moreover have "map_of (tr_carriers s) (of_int (fst z)) = None" using Cons.prems(8) z by simp
        ultimately show "map_of (tr_carriers s1) (of_int (fst z)) = None"
          using s1(7) by (auto simp: map_of_eq_None_iff)
      qed
    qed
    then obtain s' where s': "transfer_loop (Suc i) s1 = Some s'" "tr_rate s' = 0"
      "chosen_rate (tr_carriers s') = chosen_rate (tr_carriers s1) + of_int ?R"
      "set (tr_carriers s') \<subseteq> set (tr_carriers s1) \<union> part_of ys"
      by blast
    have "set (tr_carriers s') \<subseteq>
        set (tr_carriers s) \<union> part_of (y # ys)"
    proof
      fix p assume "p \<in> set (tr_carriers s')"
      then have "p \<in> set (tr_carriers s1) \<or> p \<in> part_of ys" using subsetD [OF s'(4)] by blast
      then have "p = (of_int r, k) \<or> p \<in> set (tr_carriers s) \<or> p \<in> part_of ys"
        using subsetD [OF s1(7)] by blast
      then show "p \<in> set (tr_carriers s) \<union> part_of (y # ys)"
        using part_of_Cons [OF s1(2), of r ys] subsetD [OF part_of_mono [of ys y]] unfolding y by blast
    qed
    moreover have "chosen_rate (tr_carriers s') = chosen_rate (tr_carriers s) + of_int R"
      using s'(3) s1(3,6) by simp
    ultimately show ?thesis using s'(1,2) loop by auto
  qed
qed

text \<open>C15: When the carriers of a category, taken from the highest symbol rate down, make up a rate
  exactly, the calculation succeeds: nothing is left, the carriers chosen make up the rate, and there are
  no more of them than the category lists.\<close>

theorem transfer_calculation_exact:
  assumes "rev (symbol_rate_list c) = as_rates ys" "0 \<le> R" "R < 2 ^ 32"
    and "\<forall>y \<in> set ys. 0 < fst y" "distinct (map fst ys)" "greedy_left R ys = 0"
  shows "\<exists>chosen. carriers_transfer_calculation c (of_int R) = Some (0, chosen) \<and>
    chosen_rate chosen = of_int R \<and>
    (\<forall>(r, k) \<in> set chosen. \<exists>n. (r, n) \<in> set (symbol_rate_list c) \<and> k \<le> n)"
proof -
  let ?s = "\<lparr>tr_rate = of_int R, tr_carriers = [], tr_available = rev (symbol_rate_list c), tr_mark = None\<rparr>"
  obtain s' where s': "transfer_loop 0 ?s = Some s'" "tr_rate s' = 0"
    "chosen_rate (tr_carriers s') = of_int R" "set (tr_carriers s') \<subseteq> part_of ys"
    using transfer_loop_exact [of 0 ?s ys R] assms by (auto simp: chosen_rate_def)
  have "set (symbol_rate_list c) = set (as_rates ys)" using assms(1) by (metis set_rev)
  then have "p \<in> part_of ys \<Longrightarrow> \<exists>n. (fst p, n) \<in> set (symbol_rate_list c) \<and> snd p \<le> n" for p
    by (force simp: part_of_def as_rates_def)
  with s'(4) have "\<forall>(r, k) \<in> set (tr_carriers s'). \<exists>n. (r, n) \<in> set (symbol_rate_list c) \<and> k \<le> n"
    by fastforce
  with s'(1-3) show ?thesis by (simp add: carriers_transfer_calculation_def)
qed

theorem transfer_calculation_exact_witness:
  "\<exists>chosen. carriers_transfer_calculation demo_sno 18 = Some (0, chosen) \<and> chosen_rate chosen = 18"
proof -
  have "rev (symbol_rate_list demo_sno) = as_rates [(10, 2), (4, 2)]"
    by (simp add: demo_sno_def as_rates_def)
  moreover have "greedy_left 18 [(10, 2), (4, 2)] = 0" by simp
  ultimately show ?thesis using transfer_calculation_exact [of demo_sno "[(10, 2), (4, 2)]" 18] by auto
qed

section \<open>A transfer that takes too much\<close>

lemma of_int_num: "num (w :: 'a::len word) = of_int (uint w)"
  by (simp only: num_def uint_nat of_int_of_nat_eq)

text \<open>Two symbol rates, the carriers of the first used up, half of those of the second needed and a
  rest of less than one: the group remembered is the exhausted one, to which a carrier is added, and
  the carriers of the second group are given back.\<close>

lemma calculation_overtakes:
  assumes rates: "symbol_rate_list c = [(of_int r2, k + k), (of_int r1, n)]"
    and pos: "0 < r2" "r2 < r1" "0 < n" "0 < k" "uint k + uint k < 2 ^ 32"
    and R: "r1 * uint n + r2 * uint k < R" "R < r1 * uint n + r2 * (uint k + 1)"
      "R \<le> r1 * (uint n + 1)" "R < 2 ^ 32"
  shows "carriers_transfer_calculation c (of_int R) =
    Some (of_int (R - r1 * (uint n + 1)), [(of_int r1, n + 1)])"
proof -
  let ?s = "\<lparr>tr_rate = of_int R, tr_carriers = [],
    tr_available = [(of_int r1, n), (of_int r2, k + k)], tr_mark = None\<rparr>"
  have r1: "0 < r1" using pos(1,2) by simp
  have un: "1 \<le> uint n" and uk: "1 \<le> uint k"
    using pos(3,4) by (simp_all add: word_less_def)
  have rk: "r2 \<le> r2 * uint k" "0 \<le> r1 * uint n"
    using uk pos(1) r1 by simp_all
  have ukk: "uint (k + k) = uint k + uint k" using pos(5) by (simp add: uint_word_ariths)
  define R1 where "R1 = R - r1 * uint n"
  define R2 where "R2 = R1 - r2 * uint k"
  have R1: "r2 \<le> R1" "R1 < 2 ^ 32" using R rk by (simp_all add: R1_def)
  have R2: "0 < R2" "R2 < r2" using R(1,2) by (simp_all add: R1_def R2_def algebra_simps)
  have "r1 \<le> r1 * uint n" using un r1 by simp
  then have "r1 \<le> R" using R1(1) pos(1) by (simp add: R1_def)
  have q1: "uint n \<le> R div r1"
  proof -
    have "r1 * uint n div r1 \<le> R div r1"
      using R1(1) pos(1) r1 by (intro zdiv_mono1) (simp_all add: R1_def)
    then show ?thesis using r1 by simp
  qed
  have q2: "R1 div r2 = uint k"
  proof -
    have "R1 = r2 * uint k + R2" by (simp add: R2_def)
    then show ?thesis using R2 by (simp add: div_pos_pos_trivial)
  qed
  obtain s1 where s1: "take_greedy 0 ?s = Some s1" "s1 = \<lparr>tr_rate = of_int R1,
      tr_carriers = [(of_int r1, n)], tr_available = [(of_int r1, 0), (of_int r2, k + k)], tr_mark = Some 0\<rparr>"
  proof (rule take_greedy_takes [of ?s 0 r1 n R])
    fix k1 assume "uint k1 = min (R div r1) (uint n)"
      and take: "take_greedy 0 ?s = Some (?s\<lparr>tr_rate := of_int (R - r1 * uint k1),
        tr_carriers := omap_put (of_int r1) k1 (tr_carriers ?s),
        tr_available := (tr_available ?s)[0 := (of_int r1, n - k1)],
        tr_mark := (if k1 \<noteq> n - k1 then Some 0 else tr_mark ?s)\<rparr>)"
    then have "uint k1 = uint n" using q1 by simp
    then have "k1 = n" by (simp add: word_uint_eq_iff)
    with take pos(3) show ?thesis by (intro that) (auto simp: R1_def)
  qed (use \<open>r1 \<le> R\<close> R(4) r1 in simp_all)
  obtain s2 where s2: "take_greedy 1 s1 = Some s2" "s2 = \<lparr>tr_rate = of_int R2,
      tr_carriers = [(of_int r2, k), (of_int r1, n)], tr_available = [(of_int r1, 0), (of_int r2, k)],
      tr_mark = Some 0\<rparr>"
  proof (rule take_greedy_takes [of s1 1 r2 "k + k" R1])
    fix k2 assume "uint k2 = min (R1 div r2) (uint (k + k))"
      and take: "take_greedy 1 s1 = Some (s1\<lparr>tr_rate := of_int (R1 - r2 * uint k2),
        tr_carriers := omap_put (of_int r2) k2 (tr_carriers s1),
        tr_available := (tr_available s1)[1 := (of_int r2, k + k - k2)],
        tr_mark := (if k2 \<noteq> k + k - k2 then Some 1 else tr_mark s1)\<rparr>)"
    then have "uint k2 = uint k" using q2 ukk uk by simp
    then have "k2 = k" by (simp add: word_uint_eq_iff)
    with take pos(2) show ?thesis by (intro that) (auto simp: s1(2) R2_def)
  qed (use R1 pos in \<open>auto simp: s1(2)\<close>)
  have f1: "fl64 (of_int R2 - of_int r1) = of_int (R2 - r1)"
    using R2 R1 pos \<open>r1 \<le> R\<close> R(4) fl_of_int [of "R2 - r1" 53] by simp
  have "0 \<le> r2 * uint k" "r2 * uint k < 2 ^ 32" using rk pos(1) R by simp_all
  then have f2: "fl64 (of_int r2 * num k) = of_int (r2 * uint k)"
    using fl_of_int [of "r2 * uint k" 53] by (simp add: of_int_num)
  have sum: "R2 - r1 + r2 * uint k = R - r1 * (uint n + 1)"
    by (simp add: R2_def R1_def algebra_simps)
  have "- (2 ^ 32) \<le> R - r1 * (uint n + 1)"
    using R1(1) pos(1) \<open>r1 \<le> R\<close> R(4) by (simp add: R1_def algebra_simps)
  then have f3: "fl64 (of_int (R2 - r1) + of_int (r2 * uint k)) = of_int (R - r1 * (uint n + 1))"
    using R(3) fl_of_int [of "R - r1 * (uint n + 1)" 53] unfolding of_int_add [symmetric] sum by simp
  have put: "omap_put (of_int r1) (n + 1) [(rat_of_int r2, k), (of_int r1, n)] =
      [(of_int r2, k), (of_int r1, n + 1)]"
    using pos(2) by simp
  have "take_marked s2 = Some \<lparr>tr_rate = of_int (R - r1 * (uint n + 1)), tr_carriers = [(of_int r1, n + 1)],
      tr_available = [(of_int r1, - 1), (of_int r2, k + k)], tr_mark = Some 2\<rparr>"
    using pos(2) unfolding take_marked_def s2(2)
    by (simp add: put f1 f2 f3 omap_del_def del: of_int_diff of_int_add of_int_mult omap_put.simps)
  moreover have "\<not> 0 < rat_of_int (R - r1 * (uint n + 1))"
    using R(3) by (simp only: of_int_0_less_iff diff_gt_0_iff_gt not_less)
  ultimately have "transfer_loop 2 s2 = Some \<lparr>tr_rate = of_int (R - r1 * (uint n + 1)),
      tr_carriers = [(of_int r1, n + 1)], tr_available = [(of_int r1, - 1), (of_int r2, k + k)], tr_mark = Some 2\<rparr>"
    using R2(1) by (simp add: transfer_loop.simps [of 2] s2(2) del: of_int_diff)
  moreover have "transfer_loop 1 s1 = transfer_loop 2 s2"
    using R1 pos(1) s2(1) by (simp add: transfer_loop.simps [of "Suc 0"] s1(2) numeral_2_eq_2)
  moreover have "transfer_loop 0 ?s = transfer_loop 1 s1"
    using \<open>r1 \<le> R\<close> r1 s1(1) by (simp add: transfer_loop.simps [of 0])
  ultimately show ?thesis by (simp add: carriers_transfer_calculation_def rates)
qed

text \<open>A transfer that asks for more carriers of a rate than the category has fails and takes them
  all.\<close>

lemma transfer_loses_carriers:
  assumes "map_of cats a = Some c" "map_of cats b = Some d" "omap_wf cats"
    and "rate_carriers r (carriers_groups c) < unat n"
  obtains cats' where "carriers_transfer duration a b ((r, n) # rs) cats = Some (cats', False)"
    "total_carriers r cats' + rate_carriers r (carriers_groups c) = total_carriers r cats"
proof -
  obtain c' q ok where dc: "deallocate_carriers r n c = (c', q, ok)" using prod_cases3 by blast
  note counts = deallocation_counts [OF dc]
  from assms(4) counts have ok: "\<not> ok" and none: "rate_carriers r (carriers_groups c') = 0"
    by (auto split: if_splits)
  from assms(4) have "n \<noteq> 0" by auto
  then have "carriers_transfer duration a b ((r, n) # rs) cats = Some (omap_put a c' cats, False)"
    using assms(1,2) dc ok by (simp add: carriers_transfer_def)
  moreover have "total_carriers r (omap_put a c' cats) + rate_carriers r (carriers_groups c) =
      total_carriers r cats"
    using total_put [OF assms(1,3), of r c'] none by simp
  ultimately show ?thesis by (rule that)
qed

text \<open>C23: A request that the default category could serve is refused and costs it carriers.  The
  default category has \<open>n\<close> carriers of the rate \<open>r1\<close> and \<open>2 k\<close> of the lower rate \<open>r2\<close>; another category
  asks for \<open>R\<close> symbols per second more, which need all the carriers of \<open>r1\<close>, \<open>k\<close> of \<open>r2\<close> and a part of
  one more, so that \<open>R\<close> is below the total of the default category.  The calculation chooses \<open>n + 1\<close>
  carriers of \<open>r1\<close>, one more than there are; the allocation fails, and the \<open>n\<close> carriers it has taken
  belong to no category any more.\<close>

theorem allocation_loses_carriers:
  assumes "map_of cats ''SNO'' = Some sno" "map_of cats label = Some c" "omap_wf cats"
    and "symbol_rate_list sno = [(of_int r2, k + k), (of_int r1, n)]"
    and "rate_carriers (of_int r1) (carriers_groups sno) = unat n"
    and "rate_in_symbols c new_rate = Some new_rs" "category_symbol_rate c < new_rs"
    and "fl64 (new_rs - category_symbol_rate c) = of_int R" "of_int R \<le> category_symbol_rate sno"
    and "0 < r2" "r2 < r1" "0 < n" "0 < k" "uint k + uint k < 2 ^ 32"
    and "r1 * uint n + r2 * uint k < R" "R < r1 * uint n + r2 * (uint k + 1)"
    and "R \<le> r1 * (uint n + 1)" "R < 2 ^ 32"
  shows "R < r1 * uint n + r2 * uint (k + k) \<and>
    carriers_transfer_calculation sno (of_int R) =
      Some (of_int (R - r1 * (uint n + 1)), [(of_int r1, n + 1)]) \<and>
    (\<exists>cats'. allocate_band duration label new_rate cats = Some (cats', False) \<and>
      total_carriers (of_int r1) cats' + unat n = total_carriers (of_int r1) cats)"
proof -
  note calc = calculation_overtakes [OF assms(4,10-18)]
  have uk: "1 \<le> uint k" using assms(13) by (simp add: word_less_def)
  have "uint (k + k) = uint k + uint k" using assms(14) by (simp add: uint_word_ariths)
  moreover have "r2 * (uint k + 1) \<le> r2 * (uint k + uint k)"
    using uk assms(10) by (intro mult_left_mono) simp_all
  ultimately have below: "R < r1 * uint n + r2 * uint (k + k)" using assms(16) by simp
  have "2 * uint n < 2 ^ 32"
  proof -
    have "2 * uint n \<le> r1 * uint n" using assms(10,11) by (intro mult_right_mono) simp_all
    moreover have "0 \<le> r2 * uint k" using assms(10) by simp
    ultimately show ?thesis using assms(15,18) by (meson add_increasing2 order.strict_trans1 order.strict_trans order_trans)
  qed
  then have "2 * int (unat n) < 2 ^ 32" by (simp only: uint_nat)
  then have "unat n < 2 ^ 31" by (simp del: of_nat_unat)
  then have "unat (n + 1) = unat n + 1" by (intro trans [OF unat_add_small]) simp_all
  with assms(5) have more_than: "rate_carriers (of_int r1) (carriers_groups sno) < unat (n + 1)" by simp
  obtain cats' where t: "carriers_transfer duration ''SNO'' label [(of_int r1, n + 1)] cats = Some (cats', False)"
    "total_carriers (of_int r1) cats' + unat n = total_carriers (of_int r1) cats"
    by (rule transfer_loses_carriers [OF assms(1-3) more_than, of duration "[]", unfolded assms(5)])
  have "allocate_band duration label new_rate cats = Some (cats', False)"
    using assms(6-9) by (simp add: allocate_band_def assms(1,2) calc t(1) Let_def)
  with below calc t(2) show ?thesis by blast
qed

text \<open>Two carriers of a thousand symbols per second and two of four hundred, 2800 in all, and a
  request that needs 2500 more.\<close>

definition demo_qpsk :: fmt_group where
  "demo_qpsk = \<lparr>group_members = [(1, 0)],
     group_modcods = [(1, new_fmt_def (1 / 2) 1 1 ''QPSK'' ''1/2'' 1 0 None)]\<rparr>"

definition demo_gold :: dama_category where
  "demo_gold = (new_category ''Gold'' DAMA)
     \<lparr>carriers_groups := [set_carriers_number 1 (new_carriers_dama 2 demo_qpsk 1 1000 DAMA)],
      symbol_rate_list := [(1000, 1)]\<rparr>"

definition demo_rich :: dama_category where
  "demo_rich = (new_category ''SNO'' DAMA)
     \<lparr>carriers_groups := [demo_group 0 1000 2, demo_group 1 400 2],
      symbol_rate_list := [(400, 2), (1000, 2)]\<rparr>"

lemma demo_gold_symbols: "rate_in_symbols demo_gold 7 = Some 3500"
proof -
  have "fl32 7000 = 7000" "fl32 3500 = 3500"
    using fl_of_int [of 7000 24] fl_of_int [of 3500 24] by simp_all
  then show ?thesis
    by (simp add: rate_in_symbols_def category_fmt_group_def demo_gold_def new_category_def demo_qpsk_def
        set_carriers_number_def new_carriers_dama_def new_dama_group_def new_carriers_group_def
        dama_group.defs carriers_group.defs get_max_fmt_id_def table_kbits_to_sym_def get_definition_def
        fmt_kbits_to_sym_def new_fmt_def_def num_def cceil_def trunc_def)
qed

theorem allocation_loses_carriers_witness:
  "\<exists>cats'. allocate_band 10 ''Gold'' 7 [(''Gold'', demo_gold), (''SNO'', demo_rich)] = Some (cats', False) \<and>
     total_carriers 1000 cats' = 1"
proof -
  let ?cats = "[(''Gold'', demo_gold), (''SNO'', demo_rich)]"
  have "category_symbol_rate demo_gold = 1000" "category_symbol_rate demo_rich = 2800"
    "fl64 2500 = 2500" by code_simp+
  moreover have "symbol_rate_list demo_rich = [(400, 2), (1000, 2)]"
    "rate_carriers 1000 (carriers_groups demo_rich) = 2" "total_carriers 1000 ?cats = 3"
    by (simp_all add: demo_rich_def demo_gold_def total_carriers_def rate_carriers_def new_category_def
        new_carriers_dama_def new_dama_group_def new_carriers_group_def dama_group.defs carriers_group.defs)
  moreover have "omap_wf ?cats" by (simp add: omap_wf_def)
  ultimately show ?thesis
    using allocation_loses_carriers [of ?cats demo_rich "''Gold''" demo_gold 400 1 1000 2 7 3500 2500 10]
      demo_gold_symbols by simp
qed

section \<open>The plan\<close>

lemma update_groups_positive:
  "update_groups number ratio_sum duration gs rates = Some (gs', rates') \<Longrightarrow>
   length gs' = length gs \<and> (\<forall>g \<in> set gs'. carriers_number g \<noteq> 0)"
proof (induction number ratio_sum duration gs rates arbitrary: gs' rates' rule: update_groups.induct)
  case (2 number ratio_sum duration g gs rates)
  define q where "q = number * carriers_ratio g div ratio_sum"
  from 2(2) obtain g2 gs2 where g2: "ratio_sum \<noteq> 0"
    "set_capacity (cceil (fl64 (fl64 (symbol_rate_symps g * num duration) / 1000)))
       (set_carriers_number (if q = 0 then 1 else q) g) = Some g2"
    "update_groups number ratio_sum duration gs
       (add_to_rates (symbol_rate_symps g) (if q = 0 then 1 else q) rates) = Some (gs2, rates')"
    "gs' = g2 # gs2"
    by (auto simp: Let_def q_def [symmetric] split: if_splits option.splits)
  have "carriers_number g2 \<noteq> 0" using set_capacity_fields(1) [OF g2(2)] by simp
  moreover have "length gs2 = length gs \<and> (\<forall>g \<in> set gs2. carriers_number g \<noteq> 0)"
    using 2(1) [OF g2(1) refl refl refl refl] g2(2,3) unfolding q_def by blast
  ultimately show ?case by (simp add: g2(4))
qed simp

text \<open>C30: The plan of a band gives at least one carrier to every group of every category, whatever the
  width of the band.\<close>

theorem band_plan_serves_groups:
  assumes "compute_bandplan khz roll_off duration cats = Some (cats', True)"
  shows "map fst cats' = map fst cats \<and>
    (\<forall>(l, c) \<in> set cats'. other_carriers c = [] \<and> (\<forall>g \<in> set (carriers_groups c). carriers_number g \<noteq> 0))"
proof -
  have "plan_categories khz roll_off duration w cs = Some cs' \<Longrightarrow> map fst cs' = map fst cs \<and>
    (\<forall>(l, c) \<in> set cs'. other_carriers c = [] \<and> (\<forall>g \<in> set (carriers_groups c). carriers_number g \<noteq> 0))"
    for w cs cs'
  proof (induction cs arbitrary: cs')
    case (Cons p cs)
    obtain l c where p: "p = (l, c)" by (cases p)
    obtain c' cs1 where r: "update_carriers_groups (category_share khz roll_off w c) duration c = Some c'"
      "plan_categories khz roll_off duration w cs = Some cs1" "cs' = (l, c') # cs1"
      using Cons.prems by (auto simp: p bind_eq_Some_conv)
    from r(1) obtain n rates gs where "update_groups n (category_ratio c) duration (carriers_groups c)
        (symbol_rate_list c) = Some (gs, rates)" "carriers_groups c' = gs" "other_carriers c' = []"
      by (auto simp: update_carriers_groups_def Let_def split: option.splits)
    with update_groups_positive Cons.IH [OF r(2)] show ?case by (auto simp: r(3) p)
  qed simp
  with assms show ?thesis by (auto simp: compute_bandplan_def split: if_splits)
qed

lemma fl_pos: "0 < x \<Longrightarrow> 0 < fl64 x"
  using fl_bounds(1) [of x 53] by (auto intro: order.strict_trans2 [of 0 "x * (1 - 1 / 2 ^ 53)"])

theorem band_plan_serves_groups_witness:
  "\<exists>cats'. compute_bandplan 100 0 10 [(''Gold'', demo_other)] = Some (cats', True) \<and>
     map fst cats' = [''Gold'']"
proof -
  have ratio: "carriers_ratio (demo_group i r n) = 1" "vcm_carriers (demo_group i r n) = []" for i r n
    by (simp_all add: demo_group_def set_carriers_number_def new_carriers_dama_def new_dama_group_def
        new_carriers_group_def dama_group.defs carriers_group.defs)
  have "0 < band_weight [(''Gold'', demo_other)]"
    by (simp add: band_weight_def weighted_sum_def demo_other_def new_category_def ratio num_def fl_pos)
  moreover have "update_carriers_groups n 10 demo_other \<noteq> None" for n
    by (simp add: update_carriers_groups_def demo_other_def new_category_def category_ratio_def ratio
        Let_def set_capacity_def set_carriers_number_def split: option.split)
  then obtain c' where "update_carriers_groups
      (category_share 100 0 (band_weight [(''Gold'', demo_other)]) demo_other) 10 demo_other = Some c'"
    by blast
  ultimately have "\<exists>cats'. compute_bandplan 100 0 10 [(''Gold'', demo_other)] = Some (cats', True)"
    by (simp add: compute_bandplan_def)
  then obtain cats' where c: "compute_bandplan 100 0 10 [(''Gold'', demo_other)] = Some (cats', True)" ..
  from band_plan_serves_groups [OF c] c show ?thesis by simp
qed

end
