(* ===== verification/Spec2Isabelle.thy ===== *)
theory Spec2Isabelle
  imports Prelude Circular_Buffer Bytes Net_Packet Dvb_Fifo Delay_Fifo Dvb_Frame Ordered_Map Sac Ttp
    Floating Fmt Unit_Converter Dama_Terminal Carriers Dama_Ctrl Dama_Legacy Dama_Registry
    Dama_Constant Dama_Rate Dama_Volume Dama_Superframe Dama_System Dama_Link Net_Burst Saloha_Packet
    Saloha_Backoff Saloha_Collision Saloha_Context Saloha_Tal Saloha_Ncc Dvb_Session Encap
    Return_Schedule Dama_Agent Forward_Schedule Forward_Capacity Scpc_Schedule
    Mac_Address Ethernet_Frame Packet_Switch Ethernet_Lan Lan_Block
    Udp_Channel Interconnect Sat_Dispatch Phy_Plugins Physical_Layer Band_Plan
begin

text \<open>
  OpenSAND is an emulator of satellite communication systems (\<^verbatim>\<open>src/opensand-core\<close>,
  written in C++).  Terminals send IP traffic to a gateway through an emulated satellite; the
  network control centre (NCC) of the gateway shares the capacity of the return link between the
  terminals, superframe after superframe.  This development models the part of the program that
  decides who may send how much, and the data that travels for it:

    \<^item> a terminal queues packets in MAC FIFOs (\<open>Dvb_Fifo\<close>), measures its input
      (\<open>Circular_Buffer\<close>) and asks for capacity in a SAC message (\<open>Sac\<close>);
    \<^item> the NCC keeps a context per terminal (\<open>Dama_Terminal\<close>), the carriers and
      categories of the spot (\<open>Carriers\<close>) and the modulation and coding schemes (\<open>Fmt\<close>),
      converts units (\<open>Unit_Converter\<close>) and runs the demand assignment (\<open>Dama_Ctrl\<close>,
      \<open>Dama_Legacy\<close>) at each superframe;
    \<^item> the agent of the terminal (\<open>Dama_Agent\<close>) computes the requests, follows the time plans
      and fills DVB-RCS frames from the FIFOs within its allocation (\<open>Return_Schedule\<close>); the
      gateway fills BB frames for the terminals within its carriers (\<open>Forward_Schedule\<close>), both
      through the interface of the encapsulation (\<open>Encap\<close>);
    \<^item> the allocations go back to the terminals in a time plan (\<open>Ttp\<close>), and the traffic in
      DVB frames (\<open>Net_Packet\<close>, \<open>Dvb_Frame\<close>) that the emulated link delays
      (\<open>Delay_Fifo\<close>);
    \<^item> terminals without an allocation send in random slots: the terminal puts its packets and
      their replicas in drawn slots, waits for acknowledgements, backs off and retransmits
      (\<open>Saloha_Tal\<close>, \<open>Saloha_Backoff\<close>); the NCC collects the slots of the categories,
      removes the collisions and acknowledges (\<open>Saloha_Ncc\<close>, \<open>Saloha_Collision\<close>,
      \<open>Saloha_Context\<close>);
    \<^item> the frames of the local networks come in and out through the LAN adaptation
      (\<open>Lan_Block\<close>), which switches them by the addresses it learns (\<open>Packet_Switch\<close>,
      \<open>Mac_Address\<close>), changes their tags and picks their queue (\<open>Ethernet_Lan\<close>,
      \<open>Ethernet_Frame\<close>);
    \<^item> the carriers of the emulated satellite are UDP channels with sequence numbers
      (\<open>Udp_Channel\<close>); two halves of a satellite or gateway exchange their messages over such
      channels (\<open>Interconnect\<close>), and the satellite dispatches frames and bursts between its spots,
      gateways and terminals (\<open>Sat_Dispatch\<close>);
    \<^item> the physical layer of each side attenuates the frames it sends and receives, delays them and
      marks those whose C/N is below what their MODCOD requires (\<open>Physical_Layer\<close>, with the models
      of \<open>Phy_Plugins\<close>);
    \<^item> the band of a spot is cut into carriers, which the operator of a virtual network moves between
      the categories (\<open>Band_Plan\<close>).

  The theories, and the files they model:

    \<^item> \<open>Prelude\<close>: machine integers of \<^verbatim>\<open>common/OpenSandCore.h\<close>, C++ integer division,
      generic lemmas.  \<open>Floating\<close>: \<^verbatim>\<open>float\<close> and \<^verbatim>\<open>double\<close> as rationals rounded to
      24 and 53 bits, ties to even, with the error bounds the other theories use.
      \<open>Ordered_Map\<close>: \<^verbatim>\<open>std::map\<close> as a sorted list of entries, with the interface
      \<open>finite_map\<close>.  \<open>Bytes\<close>: integers in byte strings, network order.
    \<^item> \<open>Circular_Buffer\<close>: \<^verbatim>\<open>dvb/dama/CircularBuffer.cpp\<close>.  \<open>Dvb_Fifo\<close>:
      \<^verbatim>\<open>dvb/utils/DvbFifo.cpp\<close>.  \<open>Delay_Fifo\<close>: \<^verbatim>\<open>common/DelayFifo.cpp\<close>.
    \<^item> \<open>Net_Packet\<close>: \<^verbatim>\<open>common/NetContainer.cpp\<close>, \<^verbatim>\<open>NetPacket.cpp\<close>.
      \<open>Dvb_Frame\<close>: \<^verbatim>\<open>dvb/utils/DvbFrame.h\<close>, \<^verbatim>\<open>OpenSandFrames.h\<close> and the
      three bursts.  \<open>Sac\<close>, \<open>Ttp\<close>: \<^verbatim>\<open>dvb/utils/Sac.cpp\<close>, \<^verbatim>\<open>Ttp.cpp\<close>.
    \<^item> \<open>Fmt\<close>: \<^verbatim>\<open>dvb/fmt\<close> and \<^verbatim>\<open>dvb/utils/FmtGroup.cpp\<close>.  \<open>Unit_Converter\<close>:
      \<^verbatim>\<open>dvb/utils/UnitConverter*.cpp\<close>.
    \<^item> \<open>Dama_Terminal\<close>: \<^verbatim>\<open>dvb/utils/TerminalContext*.cpp\<close>.  \<open>Carriers\<close>:
      \<^verbatim>\<open>CarriersGroup*.cpp\<close>, \<^verbatim>\<open>TerminalCategory*.h\<close>.
    \<^item> \<open>Dama_Ctrl\<close>: \<^verbatim>\<open>dvb/dama/DamaCtrl.cpp\<close>, \<^verbatim>\<open>DamaCtrlRcs2.cpp\<close>.
      \<open>Dama_Legacy\<close>: \<^verbatim>\<open>DamaCtrlRcs2Legacy.cpp\<close> and the course of a superframe.
    \<^item> \<open>Saloha_Packet\<close>: \<^verbatim>\<open>dvb/utils/SlottedAlohaPacket*.cpp\<close>, the layout of the
      packets and their identifiers as text.  \<open>Saloha_Backoff\<close>:
      \<^verbatim>\<open>dvb/saloha/SlottedAlohaBackoff*.cpp\<close>.  \<open>Saloha_Collision\<close>: \<^verbatim>\<open>dvb/utils/Slot.cpp\<close>
      and \<^verbatim>\<open>dvb/saloha/SlottedAlohaAlgo*.cpp\<close>.  \<open>Saloha_Context\<close>:
      \<^verbatim>\<open>dvb/utils/CarriersGroupSaloha.cpp\<close>, \<^verbatim>\<open>TerminalCategorySaloha.cpp\<close>,
      \<^verbatim>\<open>TerminalContextSaloha.cpp\<close>.  \<open>Saloha_Tal\<close>: \<^verbatim>\<open>dvb/saloha/SlottedAlohaTal.cpp\<close>.
      \<open>Saloha_Ncc\<close>: \<^verbatim>\<open>dvb/saloha/SlottedAlohaNcc.cpp\<close>.  \<open>Net_Burst\<close>:
      \<^verbatim>\<open>common/NetBurst.cpp\<close>.
    \<^item> \<open>Dvb_Session\<close>: \<^verbatim>\<open>dvb/utils/Logon.cpp\<close>, \<^verbatim>\<open>Logoff.cpp\<close>,
      \<^verbatim>\<open>Sof.cpp\<close>.  \<open>Encap\<close>: \<^verbatim>\<open>common/EncapPlugin.cpp\<close>.  \<open>Return_Schedule\<close>:
      \<^verbatim>\<open>dvb/dama/ReturnSchedulingRcs2.cpp\<close>.  \<open>Dama_Agent\<close>: \<^verbatim>\<open>dvb/dama/DamaAgent*.cpp\<close>.
      \<open>Forward_Schedule\<close>: \<^verbatim>\<open>dvb/dama/ForwardSchedulingS2.cpp\<close>, with its frames in a heap
      because two containers refer to the same frame; \<open>Forward_Capacity\<close> has its invariant, what
      the carriers spend and the end of its loops.  \<open>Scpc_Schedule\<close>:
      \<^verbatim>\<open>dvb/dama/ScpcScheduling.cpp\<close>, on the state of the forward scheduling.  \<open>Dama_Link\<close>: lemmas on the agent and the
      controller together.
    \<^item> \<open>Mac_Address\<close>: \<^verbatim>\<open>common/MacAddress.cpp\<close>, \<^verbatim>\<open>SarpTable.cpp\<close>, with the
      interface \<open>learning_table\<close>.  \<open>Packet_Switch\<close>: \<^verbatim>\<open>lan_adaptation/PacketSwitch.cpp\<close>.
      \<open>Ethernet_Frame\<close>, \<open>Ethernet_Lan\<close>: \<^verbatim>\<open>lan_adaptation/Ethernet.cpp\<close>,
      \<^verbatim>\<open>Evc.cpp\<close>, \<^verbatim>\<open>common/TrafficCategory.cpp\<close>.  \<open>Lan_Block\<close>:
      \<^verbatim>\<open>lan_adaptation/BlockLanAdaptation.cpp\<close>, its two channels as a step relation.
    \<^item> \<open>Udp_Channel\<close>: \<^verbatim>\<open>common/UdpChannel.cpp\<close>,
      \<^verbatim>\<open>sat_carrier/sat_carrier_channel_set.cpp\<close>, \<^verbatim>\<open>BlockSatCarrier.cpp\<close>, with
      what the sockets give as arguments.  \<open>Interconnect\<close>:
      \<^verbatim>\<open>interconnect/InterconnectChannel.cpp\<close>, \<^verbatim>\<open>BlockInterconnect.cpp\<close>.
      \<open>Sat_Dispatch\<close>: \<^verbatim>\<open>sat/BlockSatDispatcher.cpp\<close>,
      \<^verbatim>\<open>BlockSatAsymetricHandler.cpp\<close>, \<^verbatim>\<open>common/CarrierType.cpp\<close>.
    \<^item> \<open>Phy_Plugins\<close>: \<^verbatim>\<open>physical_layer/plugins\<close> and
      \<^verbatim>\<open>common/PhysicalLayerPlugin.cpp\<close>.  \<open>Physical_Layer\<close>:
      \<^verbatim>\<open>physical_layer/BlockPhysicalLayer.cpp\<close>, \<^verbatim>\<open>GroundPhysicalChannel.cpp\<close>,
      \<^verbatim>\<open>AttenuationHandler.cpp\<close>; \<open>env_pow\<close> and \<open>env_log\<close> stand for the functions of the
      mathematical library and \<open>env_accepts\<close> for the queue of the next block.
      \<open>Band_Plan\<close>: the templates of \<^verbatim>\<open>dvb/core/DvbChannel.h\<close> on categories and
      carriers.
    \<^item> Lemmas on the controller: \<open>Dama_Registry\<close> (the events as a state machine and the
      invariant of the registered terminals), \<open>Dama_Constant\<close> (constant rates against
      \<open>greedy\<close>), \<open>Dama_Rate\<close> (the fair shares), \<open>Dama_Volume\<close> (volumes against
      \<open>fill\<close>), \<open>Dama_Superframe\<close> (free capacity, whole superframes), \<open>Dama_System\<close> (messages
      between terminal and controller).

  Conventions.  An object is a record with the fields of the class; an operation takes the record
  and returns the new one, with the boolean the source returns.  Integers have the width of the
  source's types, so every wrap-around is in the model.  An undefined operation (null pointer,
  division by zero, read out of range) and a loop that does not end are the value \<open>None\<close>.
  Memory the program leaves uninitialised is an argument of the definition.  The categories of the
  controller hold the identifiers of their terminals where the program holds pointers to the
  contexts of the controller's map; \<open>registered_terminals_listed\<close> shows that the two stay in
  step.

  What the groups of lemmas show.  The containers deliver what they accepted, in order and with
  true counters, and the buffer reports what it was given.  The messages are read back as they
  were written.  The conversions cover what they convert in spite of the roundings.  The registry
  of the controller is consistent after any events.  Each allocation grants exactly what its
  specification grants and never more than the carrier has, the rate allocation through the error
  analysis of its double precision divisions (\<open>fair_floor\<close>: the truncated quotient is at most
  the exact one because the exact products are integers below 2^32 and 53 bits leave no room for
  an error of one).  At the end of this theory, a request and an allocation are followed from
  sender to receiver.  The interfaces between the parts are locales: \<open>finite_map\<close> and
  \<open>learning_table\<close> for the containers, \<open>sliding_window\<close>, \<open>bounded_queue\<close>, \<open>fifo_queue\<close> and
  \<open>delay_queue\<close> for the buffers, \<open>packet_frame\<close> for what a scheduler fills,
  \<open>backoff_policy\<close> and \<open>collision_algorithm\<close> for the random access, \<open>periodic_model\<close> for the
  models of attenuation and \<open>frame_forwarder\<close> for the channels of the physical layer, each
  interpreted on the definitions of the code.  Several theorems record behaviour that is not intended; their text says
  which, and the manifest lists them as findings.

  Loops: all the loops of the model are structural recursions on a list or on a count read from
  the message, or a \<open>function\<close> with its measure, except \<open>fca_loop\<close>, \<open>mac_run\<close>,
  \<open>packets_loop\<close>, \<open>scpc_packets_loop\<close>, \<open>us_search\<close>, \<open>udp_drain\<close>,
  \<open>carrier_loop\<close>, \<open>ic_receive_loop\<close> and \<open>forward_ready\<close>, which are \<open>partial_function\<close>s because
  the source's loops may not end; \<open>free_capacity_ends\<close>, \<open>return_schedule_ends\<close>, \<open>forward_schedule_returns\<close>,
  \<open>scpc_capacity\<close>, \<open>us_search_ends\<close> and \<open>udp_drain_total\<close> say when they do, and the locale
  \<open>frame_forwarder\<close> gives the value of \<open>forward_ready\<close>.  No fuel is used.

  Not modelled: threads, mutexes, sockets and timers; logs, probes and recorded events, and the
  counters that only feed them; the parsing of the XML configuration and the entities built from it;
  the glue of the blocks of the DVB layer with their spots; the sockets of the NCC towards the PEP and
  the SVNO; the simulators of requests; the encapsulation plugins, which call external GSE and RLE
  libraries; the runtime and output libraries.  Overflow, subnormal and special values of floating
  point numbers are left out: the values converted stay far from them.  The conversion of a number out
  of range to an unsigned integer is a fault where the code can reach it (\<open>to_unsigned\<close>).
\<close>

section \<open>Across the components\<close>

text \<open>A SAC with a rate request, read by the controller.\<close>

theorem rate_request_reaches_controller:
  assumes "hcnton cni = Some w" "v \<le> 16320" "get_terminal_context d tal = Some t"
  shows "\<exists>s d' t' r. sac_set_acm (new_sac tal grp) cni = Some s \<and>
    here_is_sac is_gw d (add_requests s ((prio, dama_rbdc, v) # rest)) = Some (d', True) \<and>
    get_terminal_context d' tal = Some t' \<and>
    2 * r \<le> 2 * unat v + cr_step v \<and> 2 * unat v \<le> 2 * r + cr_step v \<and>
    unat (rbdc_request_kbps t') = min (r - unat (cra_request_kbps t)) (unat (max_rbdc_kbps t)) \<and>
    timer_sf t' = rbdc_timeout t \<and> enable_rbdc d' \<and>
    (\<forall>x. x \<noteq> tal \<longrightarrow> get_terminal_context d' x = get_terminal_context d x)"
proof -
  from sac_reads [OF assms(1) refl, of tal grp prio dama_rbdc v rest] obtain s where
    s: "sac_set_acm (new_sac tal grp) cni = Some s"
    "sac_terminal_id (add_requests s ((prio, dama_rbdc, v) # rest)) = tal"
    "get_requests (add_requests s ((prio, dama_rbdc, v) # rest)) = Some [decoded_request prio dama_rbdc v]"
    by blast
  with sac_rbdc_handled [OF s(3,2) assms(3,2)] show ?thesis unfolding clamped_request_def by blast
qed

text \<open>C18: A rate request travels from the agent of a terminal to the controller.  When the agent decides
  to send the rate it computed, it writes a SAC; the controller that receives it accepts it, and the
  context of the terminal then asks for the rate of the agent, to half the step of its range, less the
  constant rate and at most the maximum of the terminal; its timer is restarted, rate requests are
  enabled and no other context changes.  A volume request sent with it has no effect.\<close>

theorem agent_request_reaches_controller:
  assumes "hcnton cni = Some w" "sac_set_acm (new_sac tal grp) cni = Some s"
    and "rbdc_to_send a = Some (v, True)" "vbdc_to_send a = Some (a1, vb, sv)"
    and "get_terminal_context d tal = Some t"
  shows "\<exists>a' s' d' t' r. build_sac s a = Some (a', s', False) \<and> ag_rbdc_timer_sf a' = 0 \<and>
    here_is_sac is_gw d s' = Some (d', True) \<and> get_terminal_context d' tal = Some t' \<and>
    2 * r \<le> 2 * unat v + cr_step (ucast v) \<and> 2 * unat v \<le> 2 * r + cr_step (ucast v) \<and>
    unat (rbdc_request_kbps t') = min (r - unat (cra_request_kbps t)) (unat (max_rbdc_kbps t)) \<and>
    timer_sf t' = rbdc_timeout t \<and> enable_rbdc d' \<and>
    (\<forall>x. x \<noteq> tal \<longrightarrow> get_terminal_context d' x = get_terminal_context d x)"
proof -
  have v: "unat (ucast v :: u32) = unat v" by (rule unat_ucast_promotions)
  with rbdc_to_send_bound [OF assms(3)] have "(ucast v :: u32) \<le> 16320" by (simp add: word_le_nat_alt)
  from rate_request_reaches_controller [OF assms(1) this assms(5), of grp is_gw 0
      "if sv then [(0, dama_vbdc, ucast vb)] else []"] assms(2) v build_sac_requests [OF assms(3,4), of s]
  show ?thesis by auto
qed

definition example_agent :: dama_agent where
  "example_agent = (new_agent 1 1 0 (new_converter 10 1 1) [])\<lparr>ag_rbdc_enabled := True,
     ag_rbdc_buffer := Some (new_buffer True 0), ag_frame_duration := 10, ag_msl_sf := 1, ag_rbdc_timer_sf := 1,
     ag_fifos := [(0, (new_fifo 0 ''AF'' ''DAMA_RBDC'' 10)\<lparr>cur_length_bytes := 625, new_length_bytes := 625\<rparr>)]\<rparr>"

lemma example_agent_requests:
  "rbdc_to_send example_agent = Some (1000, True)" "vbdc_to_send example_agent = Some (example_agent, 0, False)"
proof -
  have b: "mac_buffer_length dama_rbdc example_agent = 5000" "mac_buffer_arrivals dama_rbdc example_agent = 5000"
    by (simp_all add: mac_buffer_length_def mac_buffer_arrivals_def fifos_bits_def example_agent_def
        new_fifo_def access_of_name_def push_bit_eq_mult Let_def)
  have "compute_rbdc_request example_agent = Some 1000"
    unfolding compute_rbdc_request_def b
    by (simp add: example_agent_def new_agent_def get_sum_def new_buffer_def int_quotient_def cdiv_def
        check_rbdc_request_def C_MAX_RBDC_IN_SAC_def Let_def)
  then show "rbdc_to_send example_agent = Some (1000, True)"
    by (simp add: rbdc_to_send_def) (simp add: example_agent_def new_agent_def)
  show "vbdc_to_send example_agent = Some (example_agent, 0, False)"
    by (simp add: vbdc_to_send_def) (simp add: example_agent_def new_agent_def)
qed

theorem agent_request_reaches_controller_witness:
  "\<exists>s a' s' d' t'. sac_set_acm (new_sac 1 2) (- 100) = Some s \<and>
    build_sac s example_agent = Some (a', s', False) \<and>
    here_is_sac (\<lambda>_. False) (two_terminals 40) s' = Some (d', True) \<and>
    get_terminal_context d' 1 = Some t' \<and>
    unat (rbdc_request_kbps t') \<in> {884..916} \<and> timer_sf t' = 3"
proof -
  have cn: "hcnton (- 100) = Some (htonl (word_of_int (- 10000)))" by code_simp
  then obtain s where s: "sac_set_acm (new_sac 1 2) (- 100) = Some s" by (auto simp: sac_set_acm_def)
  have t: "get_terminal_context (two_terminals 40) 1 = Some (example_terminal 1 100 300 20)"
    by (simp add: two_terminals_def get_terminal_context_def)
  have l: "unat (max_rbdc_kbps (example_terminal 1 100 300 20)) = 2000"
    "rbdc_timeout (example_terminal 1 100 300 20) = 3" "cr_step (ucast (1000 :: u16)) = 32"
    "unat (cra_request_kbps (example_terminal 1 100 300 20)) = 100"
    by (simp_all add: example_terminal_def new_terminal_def cr_step_def)
  from agent_request_reaches_controller [OF cn s example_agent_requests t, of "\<lambda>_. False"] l s
  show ?thesis by (auto simp: min_def split: if_splits intro!: exI)
qed

text \<open>C1: An allocation travels from the controller to a terminal.  At any time of any run of the
  controller, with at least one and at most 6552 terminals logged on, a terminal that looks for its
  plan in the time plan built from the allocations finds its own allocation and scheme when it is
  registered, and nothing otherwise.\<close>

theorem allocation_reaches_terminal:
  assumes "fresh_categories cats"
    and "legacy_init burst (init_parent dur timeout fca cats aff def_cat stations modcods simu) = Some (d0, ok)"
    and "dama_run is_gw d0 events = Some d"
    and "listed_terminals d \<noteq> []" "length (listed_terminals d) \<le> 6552"
  shows "\<exists>msg. get_tp (build_ttp junk d (new_ttp grp sf)) tal [] = Some (msg,
    (case get_terminal_context d tal of
       None \<Rightarrow> []
     | Some t \<Rightarrow> [(0, \<lparr>tp_tal_id = htons tal, tp_offset = 0,
         tp_assignment_count = terminal_allocation (converter d) t,
         tp_fmt_id = ucast (terminal_fmt_id t), tp_priority = 0\<rparr>)]), True)"
proof -
  let ?ps = "map (plan_of (converter d)) (listed_terminals d)"
  have wf: "registry_wf (registry d)"
    using dama_run_registry [OF _ assms(3)] init_registry [OF assms(1)]
      legacy_init_registry [OF assms(2)] by simp
  have "?ps \<noteq> []" "11 + 10 * length ?ps < 2 ^ 16" using assms(4,5) by simp_all
  from ttp_plan_found [OF this, of junk grp sf 0 tal]
  obtain msg where "get_tp (build_ttp junk d (new_ttp grp sf)) tal [] = Some (msg,
      (case map_option (plan_of (converter d)) (get_terminal_context d tal) of
         None \<Rightarrow> [] | Some p \<Rightarrow> [(0, received_plan p)]), True)"
    unfolding build_ttp_plans find_plan [OF wf] by blast
  then show ?thesis
    using registry_wf_listed(1) [OF wf, of tal]
    by (auto simp: plan_of_def split: option.splits)
qed

theorem allocation_reaches_terminal_witness:
  "\<exists>d0 d msg msg'. legacy_init (Some 1000) example_init = Some (d0, True) \<and>
    dama_run (\<lambda>_. False) d0 [Logon 0 5 100 200 300, Logon 0 7 0 1000 2000, Logoff 5] = Some d \<and>
    get_tp (build_ttp (\<lambda>_. 0) d (new_ttp 1 20)) 5 [] = Some (msg, [], True) \<and>
    get_tp (build_ttp (\<lambda>_. 0) d (new_ttp 1 20)) 7 [] = Some (msg', [(0, \<lparr>tp_tal_id = htons 7,
      tp_offset = 0, tp_assignment_count = 0, tp_fmt_id = 0, tp_priority = 0\<rparr>)], True)"
proof -
  define events where "events = [Logon 0 5 100 200 300, Logon 0 7 0 1000 2000, Logoff 5]"
  define d0 where "d0 = example_init\<lparr>converter := new_converter 53 0 1000\<rparr>"
  have i: "legacy_init (Some 1000) example_init = Some (d0, True)"
    by (simp add: d0_def example_legacy_init)
  have f: "fresh_categories example_categories" by (rule example_fresh)
  have r: "map_option (\<lambda>d. (get_terminal_context d 5 = None,
      map_option terminal_fmt_id (get_terminal_context d 7), length (listed_terminals d)))
      (dama_run (\<lambda>_. False) (example_init\<lparr>converter := cv\<rparr>) events) = Some (True, Some 0, 1)" for cv
    unfolding events_def by code_simp
  from r [of "new_converter 53 0 1000"] obtain d t where d: "dama_run (\<lambda>_. False) d0 events = Some d"
    "get_terminal_context d 5 = None" "get_terminal_context d 7 = Some t" "terminal_fmt_id t = 0"
    "length (listed_terminals d) = 1"
    by (auto simp: d0_def)
  then have l: "listed_terminals d \<noteq> []" "length (listed_terminals d) \<le> 6552" by auto
  have "terminal_allocation (converter d) t = 0" using d(4) by (simp add: terminal_allocation_def)
  with allocation_reaches_terminal [OF f i [unfolded example_init_def] d(1) l, of "\<lambda>_. 0" 1 20 5]
    allocation_reaches_terminal [OF f i [unfolded example_init_def] d(1) l, of "\<lambda>_. 0" 1 20 7]
  show ?thesis using i d unfolding events_def by auto
qed

text \<open>C2: A terminal keeps to its allocation.  The agent of a registered terminal, in the group of the time
  plan and with the scheme of its plan in its table, takes the allocation of the controller; at the next
  superframe it may send that many kilobits, and what it sends in a frame exceeds them by at most one
  burst, whatever its FIFOs hold and whatever cuts its packets into non-empty data that fits.\<close>

theorem terminal_keeps_to_allocation:
  assumes "fresh_categories cats"
    and "legacy_init burst (init_parent dur timeout fca cats aff def_cat stations modcods simu) = Some (d0, ok)"
    and "dama_run is_gw d0 events = Some d"
    and "listed_terminals d \<noteq> []" "length (listed_terminals d) \<le> 6552"
    and "get_terminal_context d (ag_tal_id a) = Some t" "ag_group_id a = grp"
    and "get_definition (ag_modcod_def a) (ucast (terminal_fmt_id t)) = Some fd"
    and "handler_fits enc"
  shows "\<exists>a1 a2 a3 frames h' ok. agent_ttp (build_ttp junk d (new_ttp grp sf)) a = Some (a1, True) \<and>
    agent_frame_tick (agent_sof sf' a1) = (a2, True) \<and>
    unat (ag_remaining_allocation_b a2) = 1000 * unat (terminal_allocation (converter d) t) \<and>
    agent_schedule enc [] h a2 = Some (a3, frames, h', ok) \<and>
    bits_of frames \<le> 1000 * unat (terminal_allocation (converter d) t) +
      8 * burst_bytes_of (ag_burst_length_b a2)"
proof -
  let ?ps = "map (plan_of (converter d)) (listed_terminals d)"
  have wf: "registry_wf (registry d)"
    using dama_run_registry [OF _ assms(3)] init_registry [OF assms(1)]
      legacy_init_registry [OF assms(2)] by simp
  have "?ps \<noteq> []" "11 + 10 * length ?ps < 2 ^ 16" using assms(4,5) by simp_all
  from ttp_plan_found [OF this, of junk grp sf 0 "ag_tal_id a"] assms(6,7)
  obtain msg where msg: "ttp_group_id (build_ttp junk d (new_ttp grp sf)) = ag_group_id a"
    "get_tp (build_ttp junk d (new_ttp grp sf)) (ag_tal_id a) [] =
      Some (msg, [(0, received_plan (plan_of (converter d) t))], True)"
    unfolding build_ttp_plans find_plan [OF wf] by auto
  have "tp_fmt_id (received_plan (plan_of (converter d) t)) = ucast (terminal_fmt_id t)"
    "tp_assignment_count (received_plan (plan_of (converter d) t)) = terminal_allocation (converter d) t"
    by (simp_all add: plan_of_def)
  with agent_takes_plan [OF msg] assms(8) obtain a1 where
    a1: "agent_ttp (build_ttp junk d (new_ttp grp sf)) a = Some (a1, True)"
      "ag_allocated_kb a1 = terminal_allocation (converter d) t"
      "get_definition (ag_modcod_def a1) (ag_modcod_id a1) = Some fd" by auto
  from tick_allocation [OF a1(3), of sf'] a1(2) obtain a2 where
    a2: "agent_frame_tick (agent_sof sf' a1) = (a2, True)"
      "unat (ag_remaining_allocation_b a2) = 1000 * unat (terminal_allocation (converter d) t)" by auto
  have "unat (ag_remaining_allocation_b a2) < 2 ^ 31"
    using a2(2) unsigned_less [of "terminal_allocation (converter d) t", where ?'a = nat] by simp
  from agent_schedule_bits [OF assms(9) this, of h] a1(1) a2 show ?thesis by auto
qed

theorem terminal_keeps_to_allocation_witness:
  "\<exists>d0 d a a1 a2 a3 frames h' ok. legacy_init (Some 1000) example_init = Some (d0, True) \<and>
    dama_run (\<lambda>_. False) d0 [Logon 0 5 100 200 300, Logon 0 7 0 1000 2000, Logoff 5] = Some d \<and>
    ag_tal_id a = 7 \<and> ag_fifos a = [(0, one_packet_fifo [1, 2, 3])] \<and>
    agent_ttp (build_ttp (\<lambda>_. 0) d (new_ttp 1 20)) a = Some (a1, True) \<and>
    agent_frame_tick (agent_sof 21 a1) = (a2, True) \<and>
    agent_schedule (encap_next_packet cut_anywhere) [] () a2 = Some (a3, frames, h', ok) \<and>
    bits_of frames \<le> 8 * burst_bytes_of (ag_burst_length_b a2)"
proof -
  define events where "events = [Logon 0 5 100 200 300, Logon 0 7 0 1000 2000, Logoff 5]"
  define d0 where "d0 = example_init\<lparr>converter := new_converter 53 0 1000\<rparr>"
  have i: "legacy_init (Some 1000) example_init = Some (d0, True)"
    by (simp add: d0_def example_legacy_init)
  have f: "fresh_categories example_categories" by (rule example_fresh)
  have r: "map_option (\<lambda>d. (map_option terminal_fmt_id (get_terminal_context d 7), length (listed_terminals d)))
      (dama_run (\<lambda>_. False) (example_init\<lparr>converter := cv\<rparr>) events) = Some (Some 0, 1)" for cv
    unfolding events_def by code_simp
  from r [of "new_converter 53 0 1000"] obtain d t where d: "dama_run (\<lambda>_. False) d0 events = Some d"
    "get_terminal_context d 7 = Some t" "terminal_fmt_id t = 0" "length (listed_terminals d) = 1"
    by (auto simp: d0_def)
  then have l: "listed_terminals d \<noteq> []" "length (listed_terminals d) \<le> 6552" by auto
  define a where "a = (new_agent 7 1 0 (new_converter 10 1 1000) [(0, unit_fmt)])\<lparr>ag_group_id := 1,
    ag_fifos := [(0, one_packet_fifo [1, 2, 3])]\<rparr>"
  have a: "ag_tal_id a = 7" "ag_group_id a = 1" "get_definition (ag_modcod_def a) (ucast (terminal_fmt_id t)) = Some unit_fmt"
    "ag_fifos a = [(0, one_packet_fifo [1, 2, 3])]"
    by (simp_all add: a_def new_agent_def get_definition_def d(3))
  have z: "terminal_allocation (converter d) t = 0" using d(3) by (simp add: terminal_allocation_def)
  from terminal_keeps_to_allocation [OF f i [unfolded example_init_def] d(1) l, of a t 1 unit_fmt
      "encap_next_packet cut_anywhere" "\<lambda>_. 0" 20 21 "()"] a d(2) z cut_anywhere_ok
  obtain a1 a2 a3 frames h' ok where "agent_ttp (build_ttp (\<lambda>_. 0) d (new_ttp 1 20)) a = Some (a1, True)"
    "agent_frame_tick (agent_sof 21 a1) = (a2, True)"
    "agent_schedule (encap_next_packet cut_anywhere) [] () a2 = Some (a3, frames, h', ok)"
    "bits_of frames \<le> 8 * burst_bytes_of (ag_burst_length_b a2)" by auto
  with i d(1) a show ?thesis unfolding events_def by blast
qed

end
